(* ===== verification/Prelude.thy ===== *)
theory Prelude
  imports Complex_Main "HOL-Library.Multiset" "HOL-Library.Product_Lexorder" "HOL-Library.Sublist"
begin

text \<open>
  Shared vocabulary of the development: Python exceptions as values, the error monad of the
  modelled functions, IEEE floats seen as exact values, JSON documents with Python's equality
  and truthiness, dictionaries as association lists, and the list lemmas that more than one
  component uses.
  \<^item> \<open>exn\<close> and \<open>'a result\<close>: every \<^verbatim>\<open>raise\<close> of the source is an \<open>Inl\<close>, every normal
    return an \<open>Inr\<close>; \<open>bindE\<close> sequences two calls, \<open>mapE\<close> is a comprehension whose body may
    raise.
  \<^item> \<open>flt\<close>: a Python float is a rational (every finite binary64 value is one), an infinity or
    a NaN; only comparison, finiteness tests and the conversion from \<open>int\<close> are needed, and the
    conversion rounds to 53 bits.
  \<^item> \<open>json\<close>: the values that \<^verbatim>\<open>json.loads\<close> produces and that the dynamically checked
    functions of the source receive.
\<close>

section \<open>Exceptions and results\<close>

datatype exn =
    ValueError string
  | TypeError string
  | KeyError string
  | IndexError
  | RuntimeError string
  | OverflowError
  | FileExistsError
  | MemoryAdmissionCancelled string
  | TrainingCapabilityError string
  | ModelCompletionFormatError string string

type_synonym 'a result = "exn + 'a"

named_theorems exec_simps \<open>equations that unfold an operation of the model\<close>
named_theorems inv_intros \<open>operations that keep an invariant\<close>

definition bindE :: "'a result \<Rightarrow> ('a \<Rightarrow> 'b result) \<Rightarrow> 'b result" where
  "bindE m f = (case m of Inl e \<Rightarrow> Inl e | Inr x \<Rightarrow> f x)"

lemma bindE_simps [simp]: "bindE (Inl e) f = Inl e" "bindE (Inr x) f = f x"
  by (simp_all add: bindE_def)

lemma bindE_Inr_iff: "bindE m f = Inr y \<longleftrightarrow> (\<exists>x. m = Inr x \<and> f x = Inr y)"
  by (cases m) auto

text \<open>A validator that raises on a bad input and goes on otherwise succeeds only past its guard.\<close>

lemma guard_Inr_iff:
  "(if b then Inl e else m) = Inr x \<longleftrightarrow> \<not> b \<and> m = Inr x"
  "(if b then m else Inl e) = Inr x \<longleftrightarrow> b \<and> m = Inr x"
  by simp_all

lemma option_Inr_iff:
  "(case x of None \<Rightarrow> Inl e | Some y \<Rightarrow> f y) = Inr z \<longleftrightarrow> (\<exists>y. x = Some y \<and> f y = Inr z)"
  by (cases x) auto

lemmas result_simps = bindE_Inr_iff guard_Inr_iff option_Inr_iff

lemma bindE_InrE [elim!]:
  assumes "bindE m f = Inr y"
  obtains x where "m = Inr x" "f x = Inr y"
  using assms by (auto simp: bindE_Inr_iff)

lemma bindE_cong [fundef_cong]:
  "m = m' \<Longrightarrow> (\<And>x. m' = Inr x \<Longrightarrow> f x = g x) \<Longrightarrow> bindE m f = bindE m' g"
  by (cases m') auto

fun mapE :: "('a \<Rightarrow> 'b result) \<Rightarrow> 'a list \<Rightarrow> 'b list result" where
  "mapE f [] = Inr []"
| "mapE f (x # xs) = bindE (f x) (\<lambda>y. bindE (mapE f xs) (\<lambda>ys. Inr (y # ys)))"

lemma mapE_cong [fundef_cong]:
  "xs = ys \<Longrightarrow> (\<And>x. x \<in> set ys \<Longrightarrow> f x = g x) \<Longrightarrow> mapE f xs = mapE g ys"
  by (induction ys arbitrary: xs) auto

lemma mapE_Inr_list_all2: "mapE f xs = Inr ys \<longleftrightarrow> list_all2 (\<lambda>x y. f x = Inr y) xs ys"
proof (induction xs arbitrary: ys)
  case Nil
  then show ?case by auto
next
  case (Cons x xs)
  then show ?case by (cases ys) (auto simp: bindE_Inr_iff list_all2_Cons1)
qed

lemma mapE_all_Inr: "(\<And>x. x \<in> set xs \<Longrightarrow> f x = Inr (g x)) \<Longrightarrow> mapE f xs = Inr (map g xs)"
  by (induction xs) auto

section \<open>Integers and floats\<close>

datatype flt = Fin rat | PInf | MInf | NaN

fun isfinite :: "flt \<Rightarrow> bool" where
  "isfinite (Fin _) = True"
| "isfinite _ = False"

fun flt_eq :: "flt \<Rightarrow> flt \<Rightarrow> bool" where
  "flt_eq (Fin a) (Fin b) = (a = b)"
| "flt_eq PInf PInf = True"
| "flt_eq MInf MInf = True"
| "flt_eq _ _ = False"

text \<open>
  \<open>bitlen n\<close> is Python's \<^verbatim>\<open>int.bit_length\<close>; \<open>float_of_int\<close> is \<^verbatim>\<open>float(i)\<close>: exact up to
  53 significant bits, otherwise rounded half to even, and an \<^verbatim>\<open>OverflowError\<close> from \<open>2^1024\<close> on.
\<close>

fun bitlen :: "nat \<Rightarrow> nat" where
  "bitlen n = (if n = 0 then 0 else Suc (bitlen (n div 2)))"

declare bitlen.simps [simp del]

definition round_shift :: "nat \<Rightarrow> nat \<Rightarrow> nat" where
  "round_shift n k =
     (let q = n div 2 ^ k; r = n mod 2 ^ k; h = 2 ^ (k - 1)
      in if r < h \<or> (r = h \<and> even q) then q else q + 1)"

definition float_of_int :: "int \<Rightarrow> rat result" where
  "float_of_int i =
     (let a = nat \<bar>i\<bar>; b = bitlen a
      in if b \<le> 53 then Inr (of_int i)
         else let m = round_shift a (b - 53) * 2 ^ (b - 53)
              in if 2 ^ 1024 \<le> m then Inl OverflowError else Inr (of_int (sgn i * int m)))"

lemma bitlen_le: "n < 2 ^ k \<Longrightarrow> bitlen n \<le> k"
proof (induction n arbitrary: k rule: bitlen.induct)
  case (1 n)
  show ?case
  proof (cases "n = 0")
    case True
    then show ?thesis by (simp add: bitlen.simps)
  next
    case False
    with "1.prems" obtain j where k: "k = Suc j" by (cases k) auto
    with "1.prems" have "n div 2 < 2 ^ j" by (simp add: less_mult_imp_div_less mult.commute)
    with False "1.IH" have "bitlen (n div 2) \<le> j" by simp
    with False k show ?thesis by (simp add: bitlen.simps [of n])
  qed
qed

lemma float_of_int_exact: "\<bar>i\<bar> < 2 ^ 53 \<Longrightarrow> float_of_int i = Inr (of_int i)"
proof -
  assume "\<bar>i\<bar> < 2 ^ 53"
  then have "nat \<bar>i\<bar> < 2 ^ 53" by (simp add: nat_less_iff)
  then have "bitlen (nat \<bar>i\<bar>) \<le> 53" by (rule bitlen_le)
  then show ?thesis by (simp add: float_of_int_def)
qed

section \<open>JSON values with Python's equality and truthiness\<close>

datatype json =
    JNull
  | JBool bool
  | JInt int
  | JFloat flt
  | JStr string
  | JList "json list"
  | JObj "(string \<times> json) list"

type_synonym dict = "(string \<times> json) list"

text \<open>\<^verbatim>\<open>d.get(k)\<close>, \<^verbatim>\<open>d.get(k, default)\<close>, \<^verbatim>\<open>d[k]\<close> and \<^verbatim>\<open>set(d)\<close> on a dictionary.\<close>

definition dget :: "dict \<Rightarrow> string \<Rightarrow> json" where
  "dget d k = (case map_of d k of None \<Rightarrow> JNull | Some v \<Rightarrow> v)"

definition dget_default :: "dict \<Rightarrow> string \<Rightarrow> json \<Rightarrow> json" where
  "dget_default d k v = (case map_of d k of None \<Rightarrow> v | Some w \<Rightarrow> w)"

definition dlookup :: "dict \<Rightarrow> string \<Rightarrow> json result" where
  "dlookup d k = (case map_of d k of None \<Rightarrow> Inl (KeyError k) | Some v \<Rightarrow> Inr v)"

definition keys_are :: "dict \<Rightarrow> string list \<Rightarrow> bool" where
  "keys_are d ks \<longleftrightarrow> set (map fst d) = set ks"

lemma dget_Cons [simp]: "dget ((k, v) # d) k' = (if k = k' then v else dget d k')"
  by (simp add: dget_def)

lemma dget_Nil [simp]: "dget [] k = JNull"
  by (simp add: dget_def)

lemma dget_default_Cons [simp]:
  "dget_default ((k, v) # d) k' w = (if k = k' then v else dget_default d k' w)"
  by (simp add: dget_default_def)

lemma dget_default_Nil [simp]: "dget_default [] k w = w"
  by (simp add: dget_default_def)

lemma dlookup_Cons [simp]: "dlookup ((k, v) # d) k' = (if k = k' then Inr v else dlookup d k')"
  by (simp add: dlookup_def)

lemma dlookup_Nil [simp]: "dlookup [] k = Inl (KeyError k)"
  by (simp add: dlookup_def)

text \<open>\<^verbatim>\<open>d[k] = v\<close> keeps the place of an existing key; \<^verbatim>\<open>d.update(e)\<close> assigns every item of \<open>e\<close>.\<close>

fun dset :: "dict \<Rightarrow> string \<Rightarrow> json \<Rightarrow> dict" where
  "dset [] k v = [(k, v)]"
| "dset (p # d) k v = (if fst p = k then (k, v) # d else p # dset d k v)"

definition dupdate :: "dict \<Rightarrow> dict \<Rightarrow> dict" where
  "dupdate d e = foldl (\<lambda>d p. dset d (fst p) (snd p)) d e"

lemma map_of_dset: "map_of (dset d k v) = (map_of d)(k \<mapsto> v)"
  by (induction d) (auto simp: fun_eq_iff)

lemma map_of_dupdate: "distinct (map fst e) \<Longrightarrow> map_of (dupdate d e) = map_of d ++ map_of e"
proof (induction e arbitrary: d)
  case (Cons p e)
  then have "map_of e (fst p) = None" by (auto simp: map_of_eq_None_iff)
  with Cons show ?case by (auto simp: dupdate_def map_of_dset map_add_def fun_eq_iff split: option.splits)
qed (simp add: dupdate_def)

fun num_val :: "json \<Rightarrow> flt option" where
  "num_val (JBool b) = Some (Fin (if b then 1 else 0))"
| "num_val (JInt i) = Some (Fin (of_int i))"
| "num_val (JFloat f) = Some f"
| "num_val _ = None"

text \<open>
  Python's \<open>==\<close> on these values: numbers compare across \<open>bool\<close>, \<open>int\<close> and \<open>float\<close>; lists
  compare pointwise; dictionaries compare as finite maps, whatever the order of their keys.
\<close>

fun py_eq :: "json \<Rightarrow> json \<Rightarrow> bool" and py_eq_list :: "json list \<Rightarrow> json list \<Rightarrow> bool" where
  "py_eq (JStr a) b = (case b of JStr b' \<Rightarrow> a = b' | _ \<Rightarrow> False)"
| "py_eq JNull b = (b = JNull)"
| "py_eq (JList xs) b = (case b of JList ys \<Rightarrow> py_eq_list xs ys | _ \<Rightarrow> False)"
| "py_eq (JObj xs) b =
     (case b of
        JObj ys \<Rightarrow> length xs = length ys \<and>
          list_all (\<lambda>p. case map_of ys (fst p) of None \<Rightarrow> False | Some w \<Rightarrow> py_eq (snd p) w) xs
      | _ \<Rightarrow> False)"
| "py_eq (JBool x) b = (case num_val b of None \<Rightarrow> False | Some y \<Rightarrow> flt_eq (Fin (if x then 1 else 0)) y)"
| "py_eq (JInt x) b = (case num_val b of None \<Rightarrow> False | Some y \<Rightarrow> flt_eq (Fin (of_int x)) y)"
| "py_eq (JFloat x) b = (case num_val b of None \<Rightarrow> False | Some y \<Rightarrow> flt_eq x y)"
| "py_eq_list [] ys = (ys = [])"
| "py_eq_list (x # xs) ys = (case ys of [] \<Rightarrow> False | y # ys' \<Rightarrow> py_eq x y \<and> py_eq_list xs ys')"

text \<open>\<^verbatim>\<open>bool(value)\<close>.\<close>

fun truthy :: "json \<Rightarrow> bool" where
  "truthy JNull = False"
| "truthy (JBool b) = b"
| "truthy (JInt i) = (i \<noteq> 0)"
| "truthy (JFloat f) = (f \<noteq> Fin 0)"
| "truthy (JStr s) = (s \<noteq> [])"
| "truthy (JList xs) = (xs \<noteq> [])"
| "truthy (JObj d) = (d \<noteq> [])"

fun is_str :: "json \<Rightarrow> bool" where
  "is_str (JStr _) = True"
| "is_str _ = False"

fun is_obj :: "json \<Rightarrow> bool" where
  "is_obj (JObj _) = True"
| "is_obj _ = False"

fun fields_of :: "json \<Rightarrow> dict" where
  "fields_of (JObj d) = d"
| "fields_of _ = []"

text \<open>A document is well formed when every dictionary in it has distinct keys, as every Python
  dictionary has, and when no float in it is a NaN, which would not equal itself.\<close>

fun wf_json :: "json \<Rightarrow> bool" where
  "wf_json (JList xs) = list_all wf_json xs"
| "wf_json (JObj d) = (distinct (map fst d) \<and> list_all (\<lambda>p. wf_json (snd p)) d)"
| "wf_json (JFloat f) = (f \<noteq> NaN)"
| "wf_json _ = True"

lemma flt_eq_refl [simp]: "flt_eq f f \<longleftrightarrow> f \<noteq> NaN"
  by (cases f) auto

lemma py_eq_list_refl: "(\<And>x. x \<in> set xs \<Longrightarrow> py_eq x x) \<Longrightarrow> py_eq_list xs xs"
  by (induction xs) auto

lemma py_eq_refl: "wf_json x \<Longrightarrow> py_eq x x"
proof (induction x rule: wf_json.induct)
  case (1 xs)
  then show ?case by (auto simp: list_all_iff intro: py_eq_list_refl)
next
  case (2 d)
  have "py_eq v v" if "(k, v) \<in> set d" for k v
    using "2.IH"[OF that] "2.prems" that by (auto simp: list_all_iff)
  with "2.prems" show ?case by (auto simp: list_all_iff)
qed auto

text \<open>The \<^verbatim>\<open>object_pairs_hook\<close> of the JSON readers rejects every object with a repeated key.\<close>

fun unique_keys :: "json \<Rightarrow> bool" where
  "unique_keys (JObj d) = (distinct (map fst d) \<and> list_all (\<lambda>p. unique_keys (snd p)) d)"
| "unique_keys (JList xs) = list_all unique_keys xs"
| "unique_keys _ = True"

section \<open>Lists and strings\<close>

definition list_index :: "'a list \<Rightarrow> nat \<Rightarrow> 'a result" where
  "list_index xs i = (if i < length xs then Inr (xs ! i) else Inl IndexError)"

fun split_on :: "char \<Rightarrow> string \<Rightarrow> string list" where
  "split_on c [] = [[]]"
| "split_on c (x # xs) =
     (if x = c then [] # split_on c xs
      else case split_on c xs of [] \<Rightarrow> [[x]] | w # ws \<Rightarrow> (x # w) # ws)"

lemma split_on_nonempty [simp]: "split_on c s \<noteq> []"
  by (cases s) (auto split: list.splits)

lemma split_on_word: "c \<notin> set w \<Longrightarrow> split_on c w = [w]"
  by (induction w) auto

lemma split_on_append: "c \<notin> set w \<Longrightarrow> split_on c (w @ c # s) = w # split_on c s"
  by (induction w) auto

definition is_digit :: "char \<Rightarrow> bool" where
  "is_digit c \<longleftrightarrow> c \<in> set ''0123456789''"

definition digit_val :: "char \<Rightarrow> nat" where
  "digit_val c = of_char c - 48"

definition decimal_value :: "string \<Rightarrow> nat" where
  "decimal_value s = foldl (\<lambda>n c. 10 * n + digit_val c) 0 s"

text \<open>\<^verbatim>\<open>str.isspace\<close> on one ASCII character, \<^verbatim>\<open>str.strip\<close>, and the decimal text of an integer.\<close>

definition is_space :: "char \<Rightarrow> bool" where
  "is_space c \<longleftrightarrow> (of_char c :: nat) \<in> {9, 10, 11, 12, 13, 28, 29, 30, 31, 32}"

definition strip :: "string \<Rightarrow> string" where
  "strip s = rev (dropWhile is_space (rev (dropWhile is_space s)))"

fun show_nat :: "nat \<Rightarrow> string" where
  "show_nat n = (if n < 10 then [char_of (48 + n)] else show_nat (n div 10) @ [char_of (48 + n mod 10)])"

declare show_nat.simps [simp del]

definition show_int :: "int \<Rightarrow> string" where
  "show_int i = (if i < 0 then ''-'' else []) @ show_nat (nat \<bar>i\<bar>)"

lemma show_nat_nonempty [simp]: "show_nat n \<noteq> []"
  by (subst show_nat.simps) simp

lemma show_int_nonempty [simp]: "show_int i \<noteq> []"
  by (simp add: show_int_def)

lemma decimal_value_snoc: "decimal_value (s @ [c]) = 10 * decimal_value s + digit_val c"
  by (simp add: decimal_value_def)

lemma digit_char: "n < 10 \<Longrightarrow> is_digit (char_of (48 + n)) \<and> digit_val (char_of (48 + n)) = n"
proof -
  assume "n < 10"
  then have "n \<in> {0, 1, 2, 3, 4, 5, 6, 7, 8, 9}" by auto
  then show ?thesis by (auto simp: is_digit_def digit_val_def char_of_def bit_simps)
qed

lemma show_nat_digits: "list_all is_digit (show_nat n) \<and> decimal_value (show_nat n) = n"
proof (induction n rule: show_nat.induct)
  case (1 n)
  show ?case
  proof (cases "n < 10")
    case True
    with digit_char [OF True] show ?thesis by (subst (1 2) show_nat.simps) (simp add: decimal_value_def)
  next
    case False
    with 1 digit_char [of "n mod 10"] show ?thesis by (subst (1 2) show_nat.simps) (simp add: decimal_value_snoc)
  qed
qed

lemma length_show_nat: "n < 10 ^ k \<Longrightarrow> 0 < k \<Longrightarrow> length (show_nat n) \<le> k"
proof (induction n arbitrary: k rule: show_nat.induct)
  case (1 n)
  show ?case
  proof (cases "n < 10")
    case True
    with 1 show ?thesis by (subst show_nat.simps) simp
  next
    case False
    from "1.prems" obtain j where j: "k = Suc j" by (cases k) auto
    with False "1.prems" have k: "k = Suc j" "0 < j" by (cases j; simp)+
    with "1.prems" have "n div 10 < 10 ^ j" by (simp add: less_mult_imp_div_less mult.commute)
    with 1 False k have "length (show_nat (n div 10)) \<le> j" by blast
    with False k show ?thesis by (subst show_nat.simps) simp
  qed
qed

text \<open>\<^verbatim>\<open>re.fullmatch(r"[a-f0-9]{n}", s)\<close>: exactly \<open>n\<close> lower-case hexadecimal digits.\<close>

lemma show_nat_inj: "show_nat a = show_nat b \<Longrightarrow> a = b"
  using show_nat_digits by metis

text \<open>A number is delimited by any following character that is not a digit.\<close>

lemma show_nat_delimited:
  assumes "show_nat a @ c # s = show_nat b @ d # t" "\<not> is_digit c" "\<not> is_digit d"
  shows "a = b \<and> s = t"
proof -
  have cut: "takeWhile is_digit (show_nat n @ e # u) = show_nat n" "dropWhile is_digit (show_nat n @ e # u) = e # u"
    if "\<not> is_digit e" for n e u
    using show_nat_digits [of n] that by (simp_all add: takeWhile_append2 dropWhile_append2 list_all_iff)
  have "show_nat a = show_nat b" using cut(1) assms by metis
  moreover have "c # s = d # t" using cut(2) assms by metis
  ultimately show ?thesis using show_nat_inj by simp
qed

definition is_hex :: "nat \<Rightarrow> string \<Rightarrow> bool" where
  "is_hex n s \<longleftrightarrow> length s = n \<and> list_all (\<lambda>c. c \<in> set ''0123456789abcdef'') s"

text \<open>\<^verbatim>\<open>needle in text\<close> on strings.\<close>

fun contains_sub :: "string \<Rightarrow> string \<Rightarrow> bool" where
  "contains_sub needle [] = (needle = [])"
| "contains_sub needle (x # xs) = (prefix needle (x # xs) \<or> contains_sub needle xs)"

definition to_lower_char :: "char \<Rightarrow> char" where
  "to_lower_char c = (if 65 \<le> (of_char c :: nat) \<and> (of_char c :: nat) \<le> 90
     then char_of ((of_char c :: nat) + 32) else c)"

text \<open>The first element with the least key, as \<^verbatim>\<open>min(xs, key=f)\<close> returns it.\<close>

fun min_key :: "('a \<Rightarrow> 'k::linorder) \<Rightarrow> 'a list \<Rightarrow> 'a option" where
  "min_key f [] = None"
| "min_key f (x # xs) =
     (case min_key f xs of None \<Rightarrow> Some x | Some y \<Rightarrow> if f x \<le> f y then Some x else Some y)"

lemma min_key_None [simp]: "min_key f xs = None \<longleftrightarrow> xs = []"
  by (cases xs) (auto split: option.splits)

lemma min_key_Some:
  "min_key f xs = Some x \<Longrightarrow> x \<in> set xs \<and> (\<forall>y \<in> set xs. f x \<le> f y)"
  by (induction xs arbitrary: x) (fastforce split: option.splits if_splits)+

lemma concat_map_upt_chunks:
  "0 < k \<Longrightarrow> concat (map (\<lambda>i. [i * k ..< min (i * k + k) n]) [0 ..< m]) = [0 ..< min (m * k) n]"
proof (induction m)
  case 0
  then show ?case by simp
next
  case (Suc m)
  have "[0 ..< min (m * k) n] @ [m * k ..< min (m * k + k) n] = [0 ..< min (Suc m * k) n]"
  proof (cases "m * k \<le> n")
    case True
    then have "[0 ..< m * k] @ [m * k ..< min (m * k + k) n] = [0 ..< min (m * k + k) n]"
      using upt_add_eq_append [of 0 "m * k" "min k (n - m * k)"] by (simp add: min_def split: if_splits)
    with True show ?thesis by (simp add: add.commute)
  next
    case False
    then show ?thesis by (simp add: min_def)
  qed
  with Suc show ?case by simp
qed

end
