(* ===== verification/Batch_Planner.thy ===== *)
theory Batch_Planner
  imports Prelude
begin

text \<open>
  The learner's deterministic response packing, \<^verbatim>\<open>dsv41_train/rl/learner_batch_planner.py\<close>:
  \<open>parse_learner_batch_shapes\<close> reads the B:T cells of a command-line string and
  \<open>plan_learner_microbatches\<close> covers every response once, either in fixed-size slices or by
  packing a length-sorted prefix into the widest qualified cell. The \<^verbatim>\<open>while\<close> loop is
  \<open>pack_loop\<close>, whose termination is proved on the distance of the cursor to the end, and
  \<^verbatim>\<open>min\<close> of an empty candidate list is an error value, shown unreachable.
\<close>

record shape_cell =
  max_batch_size :: int
  max_model_input_tokens :: int

record microbatch =
  response_indices :: "nat list"
  qualified_shape_cell :: "shape_cell option"

definition shapes_syntax :: exn where
  "shapes_syntax = ValueError ''learner batch shapes require comma-separated integer B:T cells''"

definition is_ascii_decimal :: "string \<Rightarrow> bool" where
  "is_ascii_decimal s \<longleftrightarrow> s \<noteq> [] \<and> list_all is_digit s"

definition parse_cell :: "string \<Rightarrow> shape_cell result" where
  "parse_cell item =
     (let fields = split_on CHR '':'' item in
      if length fields \<noteq> 2 \<or> \<not> list_all is_ascii_decimal fields then Inl shapes_syntax
      else
        let width = int (decimal_value (fields ! 0)); tokens = int (decimal_value (fields ! 1)) in
        if \<not> (1 \<le> width \<and> width \<le> 32) \<or> \<not> (1 \<le> tokens \<and> tokens \<le> 2047)
        then Inl (ValueError ''learner batch shape bounds must be B1..32:T1..2047'')
        else Inr \<lparr>max_batch_size = width, max_model_input_tokens = tokens\<rparr>)"

fun parse_cells :: "string list \<Rightarrow> shape_cell list \<Rightarrow> shape_cell list result" where
  "parse_cells [] cells = Inr cells"
| "parse_cells (item # items) cells =
     bindE (parse_cell item) (\<lambda>cell.
       if cell \<in> set cells then Inl (ValueError ''duplicate learner batch shape cell'')
       else parse_cells items (cells @ [cell]))"

definition cell_key :: "shape_cell \<Rightarrow> int \<times> int" where
  "cell_key c = (max_batch_size c, max_model_input_tokens c)"

definition parse_learner_batch_shapes :: "json \<Rightarrow> shape_cell list option result" where
  "parse_learner_batch_shapes text =
     (case text of
        JNull \<Rightarrow> Inr None
      | JStr s \<Rightarrow>
          if s = [] then Inl shapes_syntax
          else bindE (parse_cells (split_on CHR '','' s) []) (\<lambda>cells. Inr (Some (sort_key cell_key cells)))
      | _ \<Rightarrow> Inl shapes_syntax)"

definition qualified_cell :: "shape_cell \<Rightarrow> bool" where
  "qualified_cell c \<longleftrightarrow> 1 \<le> max_batch_size c \<and> max_batch_size c \<le> 32 \<and>
     1 \<le> max_model_input_tokens c \<and> max_model_input_tokens c \<le> 2047"

definition fixed_slices :: "nat \<Rightarrow> nat \<Rightarrow> microbatch list" where
  "fixed_slices n k =
     map (\<lambda>i. \<lparr>response_indices = [i * k ..< min (i * k + k) n], qualified_shape_cell = None\<rparr>)
       [0 ..< (n + k - 1) div k]"

fun fit_count :: "int list \<Rightarrow> int \<Rightarrow> nat \<Rightarrow> nat" where
  "fit_count lens t 0 = 0"
| "fit_count [] t (Suc b) = 0"
| "fit_count (l # lens) t (Suc b) = (if l \<le> t then Suc (fit_count lens t b) else 0)"

definition candidates :: "(nat \<Rightarrow> int) \<Rightarrow> shape_cell list \<Rightarrow> nat list \<Rightarrow> (nat \<times> shape_cell) list" where
  "candidates len shapes rest =
     filter (\<lambda>row. 0 < fst row)
       (map (\<lambda>cell. (fit_count (map len rest) (max_model_input_tokens cell) (nat (max_batch_size cell)), cell))
          shapes)"

definition candidate_key :: "nat \<times> shape_cell \<Rightarrow> int \<times> int \<times> int" where
  "candidate_key row = (- int (fst row), max_model_input_tokens (snd row), max_batch_size (snd row))"

text \<open>The \<^verbatim>\<open>while\<close> loop, on the part of \<^verbatim>\<open>order\<close> from the cursor on.\<close>

lemma candidates_pos: "row \<in> set (candidates len shapes rest) \<Longrightarrow> 0 < fst row"
  by (auto simp: candidates_def)

lemma chosen_pos: "min_key f (candidates len shapes rest) = Some row \<Longrightarrow> 0 < fst row"
  by (drule min_key_Some) (auto dest: candidates_pos)

function pack_loop :: "(nat \<Rightarrow> int) \<Rightarrow> shape_cell list \<Rightarrow> nat list \<Rightarrow> microbatch list result" where
  "pack_loop len shapes rest =
     (if rest = [] then Inr []
      else case min_key candidate_key (candidates len shapes rest) of
        None \<Rightarrow> Inl (ValueError ''min() arg is an empty sequence'')
      | Some (taken, cell) \<Rightarrow>
          bindE (pack_loop len shapes (drop taken rest)) (\<lambda>planned.
            Inr (\<lparr>response_indices = take taken rest, qualified_shape_cell = Some cell\<rparr> # planned)))"
  by pat_completeness auto
termination
  by (relation "measure (\<lambda>(len, shapes, rest). length rest)") (auto dest: chosen_pos)

declare pack_loop.simps [simp del]

definition plan_learner_microbatches ::
  "int list \<Rightarrow> int \<Rightarrow> shape_cell list option \<Rightarrow> microbatch list result" where
  "plan_learner_microbatches input_lengths fixed_size shapes =
     (if \<not> (1 \<le> fixed_size \<and> fixed_size \<le> 32) \<or> input_lengths = [] \<or>
         list_ex (\<lambda>n. \<not> (1 \<le> n \<and> n \<le> 2047)) input_lengths
      then Inl (ValueError ''learner planner requires physical B1..32 and nonempty input lengths1..2047'')
      else case shapes of
        None \<Rightarrow> Inr (fixed_slices (length input_lengths) (nat fixed_size))
      | Some cells \<Rightarrow>
          if cells = [] \<or> list_ex (\<lambda>c. \<not> qualified_cell c) cells
          then Inl (ValueError ''learner planner requires explicit qualified B:T cells'')
          else if list_ex (\<lambda>l. \<not> list_ex (\<lambda>c. l \<le> max_model_input_tokens c) cells) input_lengths
          then Inl (ValueError ''qualified learner batch shapes do not cover every actual response length'')
          else pack_loop (\<lambda>i. input_lengths ! i) cells
                 (sort_key (\<lambda>i. (input_lengths ! i, i)) [0 ..< length input_lengths]))"

section \<open>Packing covers the order exactly once\<close>

lemma fit_count_le: "fit_count lens t b \<le> length lens \<and> fit_count lens t b \<le> b"
  by (induction lens t b rule: fit_count.induct) auto

lemma fit_count_fits: "\<forall>l \<in> set (take (fit_count lens t b) lens). l \<le> t"
  by (induction lens t b rule: fit_count.induct) auto

lemma fit_count_pos: "lens \<noteq> [] \<Longrightarrow> hd lens \<le> t \<Longrightarrow> 0 < b \<Longrightarrow> 0 < fit_count lens t b"
  by (cases lens; cases b) auto

lemma pack_loop_NilD [simp]: "pack_loop len shapes [] = Inr []"
  by (simp add: pack_loop.simps)

lemma chosen_cell:
  assumes "min_key f (candidates len shapes rest) = Some (taken, cell)"
  shows "cell \<in> set shapes" "0 < taken"
    "taken = fit_count (map len rest) (max_model_input_tokens cell) (nat (max_batch_size cell))"
  using min_key_Some [OF assms] by (auto simp: candidates_def)

text \<open>One step of the loop, as an elimination rule for the proofs by computation induction.\<close>

lemma pack_loop_step:
  assumes "pack_loop len shapes rest = Inr plan" "rest \<noteq> []"
  obtains taken cell tail where
    "min_key candidate_key (candidates len shapes rest) = Some (taken, cell)"
    "pack_loop len shapes (drop taken rest) = Inr tail"
    "plan = \<lparr>response_indices = take taken rest, qualified_shape_cell = Some cell\<rparr> # tail"
  using assms by (subst (asm) pack_loop.simps) (auto split: option.splits)

lemma pack_loop_covers:
  "pack_loop len shapes rest = Inr plan \<Longrightarrow> concat (map response_indices plan) = rest"
proof (induction len shapes rest arbitrary: plan rule: pack_loop.induct)
  case (1 len shapes rest)
  show ?case
  proof (cases "rest = []")
    case True
    with "1.prems" show ?thesis by simp
  next
    case False
    from "1.prems" False show ?thesis
    proof (rule pack_loop_step)
      fix taken cell tail
      assume step: "min_key candidate_key (candidates len shapes rest) = Some (taken, cell)"
        and tail: "pack_loop len shapes (drop taken rest) = Inr tail"
        and plan: "plan = \<lparr>response_indices = take taken rest, qualified_shape_cell = Some cell\<rparr> # tail"
      have "concat (map response_indices tail) = drop taken rest"
        using "1.IH" [OF False step refl tail] .
      with plan show ?thesis by simp
    qed
  qed
qed

definition batch_ok :: "(nat \<Rightarrow> int) \<Rightarrow> shape_cell list \<Rightarrow> microbatch \<Rightarrow> bool" where
  "batch_ok len shapes mb \<longleftrightarrow>
     (\<exists>cell \<in> set shapes. qualified_shape_cell mb = Some cell \<and> response_indices mb \<noteq> [] \<and>
        int (length (response_indices mb)) \<le> max_batch_size cell \<and>
        (\<forall>i \<in> set (response_indices mb). len i \<le> max_model_input_tokens cell))"

lemma chosen_batch_ok:
  assumes "min_key candidate_key (candidates len shapes rest) = Some (taken, cell)" "rest \<noteq> []"
  shows "batch_ok len shapes \<lparr>response_indices = take taken rest, qualified_shape_cell = Some cell\<rparr>"
proof -
  note cell = chosen_cell [OF assms(1)]
  let ?t = "max_model_input_tokens cell" and ?b = "nat (max_batch_size cell)"
  have "taken \<le> ?b" using cell(3) fit_count_le by blast
  with cell(2) have "int (length (take taken rest)) \<le> max_batch_size cell" by simp
  moreover have "\<forall>l \<in> set (take taken (map len rest)). l \<le> ?t"
    using cell(3) fit_count_fits by blast
  then have "\<forall>i \<in> set (take taken rest). len i \<le> ?t" by (simp add: take_map)
  ultimately show ?thesis using cell assms(2) by (auto simp: batch_ok_def)
qed

lemma pack_loop_batches:
  "pack_loop len shapes rest = Inr plan \<Longrightarrow> mb \<in> set plan \<Longrightarrow> batch_ok len shapes mb"
proof (induction len shapes rest arbitrary: plan rule: pack_loop.induct)
  case (1 len shapes rest)
  show ?case
  proof (cases "rest = []")
    case True
    with "1.prems" show ?thesis by simp
  next
    case False
    from "1.prems"(1) False show ?thesis
    proof (rule pack_loop_step)
      fix taken cell tail
      assume step: "min_key candidate_key (candidates len shapes rest) = Some (taken, cell)"
        and tail: "pack_loop len shapes (drop taken rest) = Inr tail"
        and plan: "plan = \<lparr>response_indices = take taken rest, qualified_shape_cell = Some cell\<rparr> # tail"
      have "mb \<in> set tail \<Longrightarrow> batch_ok len shapes mb"
        using "1.IH" [OF False step refl tail] .
      with plan "1.prems"(2) chosen_batch_ok [OF step False] show ?thesis by auto
    qed
  qed
qed

definition covered :: "(nat \<Rightarrow> int) \<Rightarrow> shape_cell list \<Rightarrow> nat list \<Rightarrow> bool" where
  "covered len shapes rest \<longleftrightarrow>
     (\<forall>i \<in> set rest. \<exists>c \<in> set shapes. len i \<le> max_model_input_tokens c \<and> 1 \<le> max_batch_size c)"

lemma covered_candidates: "covered len shapes rest \<Longrightarrow> rest \<noteq> [] \<Longrightarrow> candidates len shapes rest \<noteq> []"
proof -
  assume "covered len shapes rest" "rest \<noteq> []"
  then obtain c where c: "c \<in> set shapes" "len (hd rest) \<le> max_model_input_tokens c" "1 \<le> max_batch_size c"
    by (meson covered_def hd_in_set)
  with \<open>rest \<noteq> []\<close> have "0 < fit_count (map len rest) (max_model_input_tokens c) (nat (max_batch_size c))"
    by (intro fit_count_pos) (auto simp: hd_map)
  with c(1) have "(fit_count (map len rest) (max_model_input_tokens c) (nat (max_batch_size c)), c)
      \<in> set (candidates len shapes rest)"
    by (auto simp: candidates_def)
  then show ?thesis by auto
qed

lemma pack_loop_total: "covered len shapes rest \<Longrightarrow> \<exists>plan. pack_loop len shapes rest = Inr plan"
proof (induction len shapes rest rule: pack_loop.induct)
  case (1 len shapes rest)
  show ?case
  proof (cases "rest = []")
    case True
    then show ?thesis by simp
  next
    case False
    with "1.prems" have "candidates len shapes rest \<noteq> []" by (rule covered_candidates)
    then obtain taken cell where step: "min_key candidate_key (candidates len shapes rest) = Some (taken, cell)"
      by (cases "min_key candidate_key (candidates len shapes rest)") auto
    have "covered len shapes (drop taken rest)"
      using "1.prems" set_drop_subset [of taken rest] by (auto simp: covered_def)
    with "1.IH" [OF False step refl] obtain tail where "pack_loop len shapes (drop taken rest) = Inr tail"
      by blast
    with False step show ?thesis by (simp add: pack_loop.simps [of len shapes rest])
  qed
qed

text \<open>The cell chosen for a batch is the widest one available at that cursor.\<close>

lemma chosen_widest:
  assumes "min_key candidate_key (candidates len shapes rest) = Some (taken, cell)" "c \<in> set shapes"
  shows "fit_count (map len rest) (max_model_input_tokens c) (nat (max_batch_size c)) \<le> taken"
    (is "?n \<le> taken")
proof (cases "?n = 0")
  case False
  with assms(2) have "(?n, c) \<in> set (candidates len shapes rest)" by (auto simp: candidates_def)
  with min_key_Some [OF assms(1)] have "candidate_key (taken, cell) \<le> candidate_key (?n, c)" by blast
  then show ?thesis by (auto simp: candidate_key_def less_eq_prod_def)
qed simp

section \<open>The planner as a whole\<close>

lemma fixed_slices_indices:
  assumes "0 < k"
  shows "concat (map response_indices (fixed_slices n k)) = [0 ..< n]"
proof -
  have "n \<le> (n + k - 1) div k * k"
  proof -
    have "n + k - 1 < (n + k - 1) div k * k + k"
      using assms by (metis add.commute div_mult_mod_eq mod_less_divisor nat_add_left_cancel_less)
    then show ?thesis using assms by linarith
  qed
  with assms show ?thesis
    by (simp add: fixed_slices_def comp_def concat_map_upt_chunks min_absorb2)
qed

definition planner_inputs_ok :: "int list \<Rightarrow> int \<Rightarrow> shape_cell list option \<Rightarrow> bool" where
  "planner_inputs_ok lens fixed_size shapes \<longleftrightarrow>
     1 \<le> fixed_size \<and> fixed_size \<le> 32 \<and> lens \<noteq> [] \<and> (\<forall>n \<in> set lens. 1 \<le> n \<and> n \<le> 2047) \<and>
     (case shapes of None \<Rightarrow> True
      | Some cells \<Rightarrow> cells \<noteq> [] \<and> (\<forall>c \<in> set cells. qualified_cell c) \<and>
          (\<forall>l \<in> set lens. \<exists>c \<in> set cells. l \<le> max_model_input_tokens c))"

lemma inputs_covered:
  "planner_inputs_ok lens k (Some cells) \<Longrightarrow>
   covered (\<lambda>i. lens ! i) cells (sort_key (\<lambda>i. (lens ! i, i)) [0 ..< length lens])"
proof (unfold covered_def, intro ballI)
  fix i
  assume ok: "planner_inputs_ok lens k (Some cells)"
    and "i \<in> set (sort_key (\<lambda>i. (lens ! i, i)) [0 ..< length lens])"
  then have "lens ! i \<in> set lens" by auto
  with ok obtain c where "c \<in> set cells" "lens ! i \<le> max_model_input_tokens c"
    by (fastforce simp: planner_inputs_ok_def)
  with ok show "\<exists>c \<in> set cells. lens ! i \<le> max_model_input_tokens c \<and> 1 \<le> max_batch_size c"
    by (auto simp: planner_inputs_ok_def qualified_cell_def)
qed

text \<open>
  C14. Microbatch planning covers every original response exactly once: whenever planning
  succeeds, the planned index lists are, in total, a permutation of \<open>0..n-1\<close>.
\<close>

theorem plan_is_permutation:
  assumes "plan_learner_microbatches lens fixed_size shapes = Inr plan"
  shows "mset (concat (map response_indices plan)) = mset [0 ..< length lens]"
proof (cases shapes)
  case None
  with assms have "1 \<le> fixed_size" and "plan = fixed_slices (length lens) (nat fixed_size)"
    by (auto simp: plan_learner_microbatches_def split: if_splits)
  then show ?thesis by (simp add: fixed_slices_indices)
next
  case (Some cells)
  with assms have "pack_loop (\<lambda>i. lens ! i) cells (sort_key (\<lambda>i. (lens ! i, i)) [0 ..< length lens]) = Inr plan"
    by (auto simp: plan_learner_microbatches_def split: if_splits)
  then show ?thesis by (simp only: pack_loop_covers mset_sort)
qed

text \<open>
  C35. Planning succeeds exactly on valid inputs: positive widths up to 32, input lengths in
  1..2047, qualified cells and a cell for every length. In particular the loop terminates and
  never takes the minimum of an empty candidate list.
\<close>

theorem plan_succeeds_iff:
  "(\<exists>plan. plan_learner_microbatches lens fixed_size shapes = Inr plan) \<longleftrightarrow>
   planner_inputs_ok lens fixed_size shapes"
proof
  assume "\<exists>plan. plan_learner_microbatches lens fixed_size shapes = Inr plan"
  then show "planner_inputs_ok lens fixed_size shapes"
    by (auto simp: plan_learner_microbatches_def planner_inputs_ok_def list_ex_iff
        split: if_splits option.splits)
next
  assume ok: "planner_inputs_ok lens fixed_size shapes"
  show "\<exists>plan. plan_learner_microbatches lens fixed_size shapes = Inr plan"
  proof (cases shapes)
    case None
    with ok show ?thesis
      by (auto simp: plan_learner_microbatches_def planner_inputs_ok_def list_ex_iff)
  next
    case (Some cells)
    with ok pack_loop_total [OF inputs_covered] obtain plan where
      "pack_loop (\<lambda>i. lens ! i) cells (sort_key (\<lambda>i. (lens ! i, i)) [0 ..< length lens]) = Inr plan"
      by blast
    with ok Some show ?thesis
      by (auto simp: plan_learner_microbatches_def planner_inputs_ok_def list_ex_iff)
  qed
qed

text \<open>
  Every batch planned against qualified cells stays within the batch width and the token
  bound of the cell recorded with it, and is not empty.
\<close>

theorem plan_within_cells:
  assumes "plan_learner_microbatches lens fixed_size (Some cells) = Inr plan" "mb \<in> set plan"
  shows "batch_ok (\<lambda>i. lens ! i) cells mb"
  using assms pack_loop_batches
  by (fastforce simp: plan_learner_microbatches_def split: if_splits)

section \<open>Shape strings\<close>

lemma parse_cells_ok:
  "parse_cells items cells = Inr out \<Longrightarrow> distinct cells \<Longrightarrow> (\<forall>c \<in> set cells. qualified_cell c) \<Longrightarrow>
   distinct out \<and> (\<forall>c \<in> set out. qualified_cell c) \<and> length out = length cells + length items"
proof (induction items cells rule: parse_cells.induct)
  case (2 item items cells)
  then obtain cell where cell: "parse_cell item = Inr cell" "cell \<notin> set cells"
    "parse_cells items (cells @ [cell]) = Inr out"
    by (auto split: if_splits)
  then have "qualified_cell cell"
    by (auto simp: parse_cell_def qualified_cell_def Let_def split: if_splits)
  with "2.IH" [OF cell(1,2,3)] "2.prems" cell show ?case by auto
qed auto

text \<open>
  A shape string that parses gives a nonempty, duplicate-free list of qualified cells,
  sorted by width and token bound, one per comma-separated item: what the planner requires of
  its cells.
\<close>

theorem parse_shapes_qualified:
  assumes "parse_learner_batch_shapes (JStr s) = Inr (Some cells)"
  shows "distinct cells \<and> sorted (map cell_key cells) \<and> (\<forall>c \<in> set cells. qualified_cell c) \<and>
     length cells = length (split_on CHR '','' s)"
proof -
  from assms obtain raw where raw: "parse_cells (split_on CHR '','' s) [] = Inr raw"
    and cells: "cells = sort_key cell_key raw"
    by (auto simp: parse_learner_batch_shapes_def split: if_splits)
  from parse_cells_ok [OF raw] show ?thesis by (simp add: cells)
qed

section \<open>Witnesses\<close>

definition demo_cells :: "shape_cell list" where
  "demo_cells = [\<lparr>max_batch_size = 2, max_model_input_tokens = 8\<rparr>,
                 \<lparr>max_batch_size = 1, max_model_input_tokens = 16\<rparr>]"

definition demo_plan :: "microbatch list" where
  "demo_plan =
     [\<lparr>response_indices = [1, 2], qualified_shape_cell = Some \<lparr>max_batch_size = 2, max_model_input_tokens = 8\<rparr>\<rparr>,
      \<lparr>response_indices = [0], qualified_shape_cell = Some \<lparr>max_batch_size = 1, max_model_input_tokens = 16\<rparr>\<rparr>]"

lemma demo_plan_runs: "plan_learner_microbatches [9, 3, 5] 4 (Some demo_cells) = Inr demo_plan"
  by code_simp

theorem plan_is_permutation_witness:
  "plan_learner_microbatches [9, 3, 5] 4 (Some demo_cells) = Inr demo_plan \<and>
   mset (concat (map response_indices demo_plan)) = mset [0, 1, 2]"
  using plan_is_permutation [OF demo_plan_runs] demo_plan_runs by (simp add: upt_rec)

theorem plan_within_cells_witness:
  "batch_ok (\<lambda>i. [9, 3, 5] ! i) demo_cells (hd demo_plan) \<and> response_indices (hd demo_plan) = [1, 2]"
  using plan_within_cells [OF demo_plan_runs, of "hd demo_plan"] by (simp add: demo_plan_def)

theorem parse_shapes_qualified_witness:
  "parse_learner_batch_shapes (JStr ''2:8,1:16'') = Inr (Some (rev demo_cells)) \<and>
   sorted (map cell_key (rev demo_cells)) \<and> distinct (rev demo_cells)"
proof -
  have "parse_learner_batch_shapes (JStr ''2:8,1:16'') = Inr (Some (rev demo_cells))"
    by code_simp
  with parse_shapes_qualified [OF this] show ?thesis by blast
qed

end
