(* ===== verification/Generation_Failure.thy ===== *)
theory Generation_Failure
  imports Prelude
begin

text \<open>
  Request-bound failure receipts, \<^verbatim>\<open>rollout_manager/generation_failure.py\<close>. A receipt is an
  untrusted JSON dictionary. \<open>failure_is_terminal\<close> reads it the way the source does, with the
  short-circuit order of its conjunctions and a \<^verbatim>\<open>KeyError\<close> for a missing field, and
  \<open>validate_generation_failure\<close> is the whole validator. The payload digest
  (\<^verbatim>\<open>evidence_digest\<close>: SHA-256 of the canonical JSON text) is an argument \<open>digest\<close> that may
  raise, since \<^verbatim>\<open>json.dumps(allow_nan=False)\<close> raises.
\<close>

definition is_true :: "json \<Rightarrow> bool" where
  "is_true v \<longleftrightarrow> v = JBool True"

definition is_false :: "json \<Rightarrow> bool" where
  "is_false v \<longleftrightarrow> v = JBool False"

text \<open>\<^verbatim>\<open>v in {"a", "b"}\<close>: a list or dictionary on the left is not hashable.\<close>

definition in_str_set :: "json \<Rightarrow> string list \<Rightarrow> bool result" where
  "in_str_set v names =
     (case v of
        JList _ \<Rightarrow> Inl (TypeError ''unhashable type: list'')
      | JObj _ \<Rightarrow> Inl (TypeError ''unhashable type: dict'')
      | JStr s \<Rightarrow> Inr (s \<in> set names)
      | _ \<Rightarrow> Inr False)"

text \<open>\<^verbatim>\<open>receipt[a] == x and receipt[b] == y\<close> with its short circuit.\<close>

definition both_fields :: "dict \<Rightarrow> string \<Rightarrow> string \<Rightarrow> string \<Rightarrow> string \<Rightarrow> bool result" where
  "both_fields r a x b y =
     bindE (dlookup r a) (\<lambda>u.
       if u \<noteq> JStr x then Inr False else bindE (dlookup r b) (\<lambda>v. Inr (v = JStr y)))"

definition failure_is_terminal :: "dict \<Rightarrow> bool result" where
  "failure_is_terminal r =
     bindE (dlookup r ''sampler_drained'') (\<lambda>a.
     if \<not> is_true a then Inr False else
     bindE (dlookup r ''actual_actor_drain_proven'') (\<lambda>b.
     if \<not> is_true b then Inr False else
     bindE (both_fields r ''sampler_outcome'' ''not_admitted''
              ''proof_kind'' ''controller_rejected_before_sampler_dispatch'') (\<lambda>c.
     if c then Inr True else
     both_fields r ''sampler_outcome'' ''completed''
       ''proof_kind'' ''owned_vllm_final_request_output'')))"

definition receipt_keys :: "string list" where
  "receipt_keys = [''schema_version'', ''request_id'', ''request_payload_sha256'', ''policy_ack'', ''stage'',
     ''sampler_outcome'', ''sampler_drained'', ''actual_actor_drain_proven'', ''drain_scope'',
     ''proof_kind'', ''automatic_replay'']"

text \<open>\<^verbatim>\<open>re.fullmatch(r"[a-z0-9_]{1,64}", stage)\<close>.\<close>

definition is_stage_name :: "json \<Rightarrow> bool" where
  "is_stage_name v =
     (case v of
        JStr s \<Rightarrow> 1 \<le> length s \<and> length s \<le> 64 \<and>
          list_all (\<lambda>c. c \<in> set ''abcdefghijklmnopqrstuvwxyz0123456789_'') s
      | _ \<Rightarrow> False)"

fun is_bool :: "json \<Rightarrow> bool" where
  "is_bool (JBool _) = True"
| "is_bool _ = False"

fun is_hex_json :: "nat \<Rightarrow> json \<Rightarrow> bool" where
  "is_hex_json n (JStr s) = is_hex n s"
| "is_hex_json n _ = False"

fun is_nonneg_int :: "json \<Rightarrow> bool" where
  "is_nonneg_int (JInt i) = (0 \<le> i)"
| "is_nonneg_int _ = False"

fun is_nonempty_str :: "json \<Rightarrow> bool" where
  "is_nonempty_str (JStr s) = (s \<noteq> [])"
| "is_nonempty_str _ = False"

definition policy_ack_ok :: "json \<Rightarrow> json option \<Rightarrow> bool" where
  "policy_ack_ok ack expected \<longleftrightarrow>
     is_obj ack \<and> keys_are (fields_of ack) [''version'', ''digest'', ''lineage''] \<and>
     is_nonneg_int (dget (fields_of ack) ''version'') \<and>
     is_hex_json 64 (dget (fields_of ack) ''digest'') \<and>
     is_nonempty_str (dget (fields_of ack) ''lineage'') \<and>
     (case expected of None \<Rightarrow> True | Some e \<Rightarrow> py_eq ack e)"

definition invalid_receipt :: exn where
  "invalid_receipt = ValueError ''invalid bound generation failure receipt''"

text \<open>The disjuncts of the first guard, in the order in which the source evaluates them: up to the
  digest of the payload, after it, and the flags after the test of the outcome.\<close>

definition receipt_header_ok :: "json \<Rightarrow> string \<Rightarrow> bool" where
  "receipt_header_ok receipt request_id \<longleftrightarrow>
     (let r = fields_of receipt in
      is_obj receipt \<and> keys_are r receipt_keys \<and> dget r ''schema_version'' = JInt 1 \<and>
      dget r ''request_id'' = JStr request_id \<and> is_hex 32 request_id)"

definition receipt_binding_ok :: "dict \<Rightarrow> string \<Rightarrow> bool" where
  "receipt_binding_ok r h \<longleftrightarrow>
     dget r ''request_payload_sha256'' = JStr h \<and> dget r ''drain_scope'' = JStr ''request'' \<and>
     is_false (dget r ''automatic_replay'') \<and> is_stage_name (dget r ''stage'')"

definition receipt_flags_ok :: "dict \<Rightarrow> bool" where
  "receipt_flags_ok r \<longleftrightarrow> is_bool (dget r ''sampler_drained'') \<and> is_bool (dget r ''actual_actor_drain_proven'')"

definition claims_drain :: "dict \<Rightarrow> bool" where
  "claims_drain r \<longleftrightarrow> dget r ''proof_kind'' \<noteq> JStr ''none'' \<or> truthy (dget r ''sampler_drained'') \<or>
     truthy (dget r ''actual_actor_drain_proven'')"

definition validate_generation_failure ::
  "(json \<Rightarrow> string result) \<Rightarrow> json \<Rightarrow> json \<Rightarrow> string \<Rightarrow> json option \<Rightarrow> dict result" where
  "validate_generation_failure digest receipt payload request_id expected_policy_ack =
     (let r = fields_of receipt in
      if \<not> receipt_header_ok receipt request_id then Inl invalid_receipt else
      bindE (digest payload) (\<lambda>h.
      if \<not> receipt_binding_ok r h then Inl invalid_receipt else
      bindE (in_str_set (dget r ''sampler_outcome'') [''not_admitted'', ''completed'', ''unknown'']) (\<lambda>known.
      if \<not> known \<or> \<not> receipt_flags_ok r then Inl invalid_receipt else
      if \<not> policy_ack_ok (dget r ''policy_ack'') expected_policy_ack
      then Inl (ValueError ''generation failure differs from the leased policy'') else
      if dget r ''sampler_outcome'' = JStr ''unknown'' then
        (if claims_drain r then Inl (ValueError ''unknown generation cannot claim sampler drain'') else Inr r)
      else bindE (failure_is_terminal r) (\<lambda>t.
        if \<not> t then Inl (ValueError ''known generation failure requires actual request closure proof'')
        else Inr r))))"

section \<open>What a terminal receipt proves\<close>

lemma dlookup_dget: "dlookup r k = Inr v \<Longrightarrow> dget r k = v"
  by (auto simp: dlookup_def dget_def split: option.splits)

lemma both_fields_True:
  "both_fields r a x b y = Inr True \<Longrightarrow> dget r a = JStr x \<and> dget r b = JStr y"
  by (auto simp: both_fields_def dest: dlookup_dget split: if_splits)

lemma failure_is_terminal_True:
  assumes "failure_is_terminal r = Inr True"
  shows "is_true (dget r ''sampler_drained'') \<and> is_true (dget r ''actual_actor_drain_proven'') \<and>
    (dget r ''sampler_outcome'' = JStr ''not_admitted'' \<and>
       dget r ''proof_kind'' = JStr ''controller_rejected_before_sampler_dispatch'' \<or>
     dget r ''sampler_outcome'' = JStr ''completed'' \<and>
       dget r ''proof_kind'' = JStr ''owned_vllm_final_request_output'')"
  using assms
  by (auto simp: failure_is_terminal_def dest!: both_fields_True dlookup_dget split: if_splits)

lemma terminal_not_unknown:
  "failure_is_terminal r = Inr True \<Longrightarrow> dget r ''sampler_outcome'' \<noteq> JStr ''unknown''"
  by (auto dest: failure_is_terminal_True)

text \<open>
  A receipt that passes validation is the receipt given, is bound to the request identity and
  to the digest of the dispatched payload, carries a nonnegative policy version, and separates
  the two kinds of closure: its outcome is \<open>unknown\<close> with no drain claim at all, or it is a
  terminal failure whose drain is proved.
\<close>

theorem validated_failure_closed:
  assumes "validate_generation_failure digest receipt payload request_id expected = Inr r"
  shows "receipt = JObj r \<and> dget r ''request_id'' = JStr request_id \<and>
    (\<exists>h. digest payload = Inr h \<and> dget r ''request_payload_sha256'' = JStr h) \<and>
    policy_ack_ok (dget r ''policy_ack'') expected \<and>
    (dget r ''sampler_outcome'' = JStr ''unknown'' \<and> is_false (dget r ''sampler_drained'') \<and>
       is_false (dget r ''actual_actor_drain_proven'') \<or>
     failure_is_terminal r = Inr True)"
proof -
  let ?r = "fields_of receipt"
  have bools: "is_bool v \<Longrightarrow> \<not> truthy v \<Longrightarrow> is_false v" for v
    by (cases v) (auto simp: is_false_def)
  from assms have r: "r = ?r" and head: "receipt_header_ok receipt request_id" and flags: "receipt_flags_ok ?r"
    and ack: "policy_ack_ok (dget ?r ''policy_ack'') expected"
    and bind: "\<exists>h. digest payload = Inr h \<and> receipt_binding_ok ?r h"
    and out: "dget ?r ''sampler_outcome'' = JStr ''unknown'' \<and> \<not> claims_drain ?r \<or> failure_is_terminal ?r = Inr True"
    by (auto simp: validate_generation_failure_def Let_def result_simps split: if_split_asm)
  have "receipt = JObj ?r" using head by (cases receipt) (simp_all add: receipt_header_ok_def)
  with r head flags ack bind out bools show ?thesis
    by (auto simp: receipt_header_ok_def Let_def receipt_binding_ok_def receipt_flags_ok_def claims_drain_def)
qed

definition demo_receipt :: dict where
  "demo_receipt = [(''schema_version'', JInt 1), (''request_id'', JStr (replicate 32 CHR ''a'')),
     (''request_payload_sha256'', JStr ''h''),
     (''policy_ack'', JObj [(''version'', JInt 3), (''digest'', JStr (replicate 64 CHR ''0'')), (''lineage'', JStr ''run'')]),
     (''stage'', JStr ''vllm_sampling''), (''sampler_outcome'', JStr ''completed''),
     (''sampler_drained'', JBool True), (''actual_actor_drain_proven'', JBool True),
     (''drain_scope'', JStr ''request''), (''proof_kind'', JStr ''owned_vllm_final_request_output''),
     (''automatic_replay'', JBool False)]"

lemma demo_receipt_validates:
  "validate_generation_failure (\<lambda>_. Inr ''h'') (JObj demo_receipt) JNull (replicate 32 CHR ''a'') None
   = Inr demo_receipt"
  by code_simp

theorem validated_failure_closed_witness:
  "failure_is_terminal demo_receipt = Inr True \<and> dget demo_receipt ''sampler_outcome'' = JStr ''completed''"
  using validated_failure_closed [OF demo_receipt_validates] by (simp add: demo_receipt_def)

end
