(* ===== verification/Contracts.thy ===== *)
theory Contracts
  imports Generation_Failure
begin

text \<open>
  The coordination contracts, \<^verbatim>\<open>rollout_manager/contracts.py\<close>: resource requirements, tasks,
  episode identities, plans and results with their constructor checks, the cancellation token,
  and \<open>request_uncertain\<close>, which decides whether a request state may still hide live remote
  work. A dataclass is a record; its \<^verbatim>\<open>__post_init__\<close> is a constructor that may raise.
  Resource quantities are exact rationals: Python integers are exact, and a float quantity is
  taken at its exact value.
\<close>

section \<open>Resources, tasks and identities\<close>

datatype qkey = Cpu | Memory_bytes | Storage_bytes | Gpu_count

definition quantity_keys :: "qkey list" where
  "quantity_keys = [Cpu, Memory_bytes, Storage_bytes, Gpu_count]"

lemma quantity_keys_UNIV [simp]: "set quantity_keys = UNIV"
  by (auto simp: quantity_keys_def) (metis qkey.exhaust)

text \<open>The quantities are a finite type, so quantity vectors can be compared by evaluation.\<close>

instantiation qkey :: enum
begin

definition enum_qkey :: "qkey list" where
  "enum_qkey = quantity_keys"

definition enum_all_qkey :: "(qkey \<Rightarrow> bool) \<Rightarrow> bool" where
  "enum_all_qkey P = list_all P quantity_keys"

definition enum_ex_qkey :: "(qkey \<Rightarrow> bool) \<Rightarrow> bool" where
  "enum_ex_qkey P = list_ex P quantity_keys"

instance
  by standard (simp_all add: enum_qkey_def enum_all_qkey_def enum_ex_qkey_def list_all_iff list_ex_iff,
    simp_all add: quantity_keys_def)

end

type_synonym qvec = "qkey \<Rightarrow> rat"

record resources =
  executor :: string
  quantity :: qvec
  accounting :: string

definition backend_stage :: "resources \<Rightarrow> bool" where
  "backend_stage r \<longleftrightarrow> accounting r = ''backend-stage''"

text \<open>\<^verbatim>\<open>isinstance(value, bool) or not isinstance(value, (int, float)) or not math.isfinite(value)
  or value < 0\<close>: the rejected quantities.\<close>

fun quantity_value :: "json \<Rightarrow> rat option" where
  "quantity_value (JInt i) = (if i < 0 then None else Some (of_int i))"
| "quantity_value (JFloat (Fin q)) = (if q < 0 then None else Some q)"
| "quantity_value _ = None"

definition ResourceRequirements ::
  "string \<Rightarrow> json \<Rightarrow> json \<Rightarrow> json \<Rightarrow> json \<Rightarrow> string \<Rightarrow> resources result" where
  "ResourceRequirements exec_name cpu memory storage gpus scope =
     (if exec_name = [] \<or> scope \<notin> {''episode'', ''backend-stage''}
      then Inl (ValueError ''resources require an executor and supported accounting scope'')
      else case (quantity_value cpu, quantity_value memory, quantity_value storage, quantity_value gpus) of
        (Some c, Some m, Some s, Some g) \<Rightarrow>
          Inr \<lparr>executor = exec_name,
               quantity = (\<lambda>k. case k of Cpu \<Rightarrow> c | Memory_bytes \<Rightarrow> m | Storage_bytes \<Rightarrow> s | Gpu_count \<Rightarrow> g),
               accounting = scope\<rparr>
      | _ \<Rightarrow> Inl (ValueError ''resource quantities must be finite and nonnegative''))"

definition benchmarks :: "string list" where
  "benchmarks = [''kernelbench'', ''cuda-agent'', ''terminal-bench'', ''prompt-response'']"

record task_spec =
  ts_benchmark :: string
  ts_task_id :: string
  ts_source_sha256 :: string
  ts_payload :: dict
  ts_resources :: resources
  ts_budgets :: dict
  ts_provenance :: dict

definition payload_kind :: "string \<Rightarrow> string" where
  "payload_kind benchmark =
     (if benchmark = ''terminal-bench'' then ''task_path''
      else if benchmark = ''prompt-response'' then ''prompt_response'' else ''native_case'')"

definition TaskSpec :: "task_spec \<Rightarrow> task_spec result" where
  "TaskSpec t =
     (if ts_benchmark t \<notin> set benchmarks \<or> ts_task_id t = [] \<or> ts_source_sha256 t = []
      then Inl (ValueError ''task requires a supported benchmark, pinned identity and source hash'')
      else if payload_kind (ts_benchmark t) \<notin> set (map fst (ts_payload t))
      then Inl (ValueError (ts_benchmark t @ '' payload requires '' @ payload_kind (ts_benchmark t)))
      else if ts_benchmark t = ''terminal-bench'' \<and> ''code'' \<in> set (map fst (ts_payload t))
      then Inl (ValueError ''Terminal-Bench does not have a CUDA reference-code contract'')
      else Inr t)"

record episode_identity =
  run_id :: string
  benchmark :: string
  task_id :: string
  group_id :: string
  sample_index :: int
  pass_index :: int
  trial_id :: "string option"
  sampling_seed :: "int option"

definition EpisodeIdentity :: "episode_identity \<Rightarrow> episode_identity result" where
  "EpisodeIdentity i =
     (if run_id i = [] \<or> task_id i = [] \<or> group_id i = [] \<or> benchmark i \<notin> set benchmarks
      then Inl (ValueError ''episode requires run, benchmark, task and group identities'')
      else if sample_index i < 0 \<or> pass_index i < 0
      then Inl (ValueError ''sample and pass indices must be nonnegative'')
      else Inr i)"

record episode_plan =
  plan_identity :: episode_identity
  plan_task :: task_spec
  plan_payload :: "dict option"

definition EpisodePlan :: "episode_identity \<Rightarrow> task_spec \<Rightarrow> dict option \<Rightarrow> episode_plan result" where
  "EpisodePlan i t payload =
     (if (benchmark i, task_id i) \<noteq> (ts_benchmark t, ts_task_id t)
      then Inl (ValueError ''episode and task identities disagree'')
      else Inr \<lparr>plan_identity = i, plan_task = t, plan_payload = payload\<rparr>)"

record episode_result =
  res_identity :: episode_identity
  execution_state :: string
  verification_state :: string
  score_eligible :: bool
  cleanup_state :: string
  native_outcome :: dict
  native_artifacts :: json
  usage :: json
  timings :: json
  failure_category :: "string option"
  model_identity :: "string option"
  request_state :: json
  configuration_sha256 :: "string option"
  source_sha256 :: "string option"

section \<open>Cancellation\<close>

record cancellation_token =
  event_set :: bool
  reason :: "string option"

definition new_token :: cancellation_token where
  "new_token = \<lparr>event_set = False, reason = None\<rparr>"

definition cancelled :: "cancellation_token \<Rightarrow> bool" where
  "cancelled t = event_set t"

definition cancel :: "string \<Rightarrow> cancellation_token \<Rightarrow> cancellation_token" where
  "cancel why t =
     t\<lparr>reason := (case reason t of None \<Rightarrow> Some why | Some r \<Rightarrow> Some r), event_set := True\<rparr>"

lemma cancelled_cancel [simp]: "cancelled (cancel why t)"
  by (simp add: cancelled_def cancel_def)

lemma cancelled_mono [intro]: "cancelled t \<Longrightarrow> cancelled (cancel why t)"
  by simp

lemma cancel_first_reason: "reason (cancel b (cancel a t)) = reason (cancel a t)"
  by (simp add: cancel_def split: option.splits)

section \<open>Uncertain requests\<close>

text \<open>
  \<open>mentions w v\<close> is \<^verbatim>\<open>w in str(v).lower()\<close> for a lower-case word \<open>w\<close> of letters. The text
  of a list or dictionary shows its strings and keys in quotes, and quoting and escaping insert
  only quotes and backslash sequences, so a word of letters occurs in it exactly when it occurs
  in one of those strings; the text of null, a boolean or a number has neither of the two words
  asked for.
\<close>

fun mentions :: "string \<Rightarrow> json \<Rightarrow> bool" where
  "mentions w (JStr s) = contains_sub w (map to_lower_char s)"
| "mentions w (JList xs) = list_ex (mentions w) xs"
| "mentions w (JObj d) = list_ex (\<lambda>p. contains_sub w (map to_lower_char (fst p)) \<or> mentions w (snd p)) d"
| "mentions w _ = False"

definition open_failure :: "dict \<Rightarrow> bool" where
  "open_failure s =
     (let receipt = dget s ''failure_receipt'' in
      if dget s ''generation_failure'' \<noteq> JStr ''validated'' \<or> \<not> is_obj receipt then True
      else let r = fields_of receipt in
        case bindE (dlookup r ''request_id'') (\<lambda>i.
             if \<not> py_eq i (dget s ''id'') then Inr True else
             bindE (dlookup r ''request_payload_sha256'') (\<lambda>h.
             if \<not> py_eq h (dget s ''request_payload_sha256'') then Inr True else
             bindE (failure_is_terminal r) (\<lambda>t. Inr (\<not> t)))) of
          Inl _ \<Rightarrow> True
        | Inr b \<Rightarrow> b)"

definition uncertain_here :: "dict \<Rightarrow> bool" where
  "uncertain_here s \<longleftrightarrow>
     is_true (dget s ''uncertain'') \<or> is_false (dget s ''spool_terminal'') \<or>
     dget s ''state'' = JStr ''terminal_failure_received'' \<and> open_failure s \<or>
     list_ex (\<lambda>k. mentions ''unknown'' (dget_default s k (JStr [])) \<or>
                  mentions ''uncertain'' (dget_default s k (JStr []))) [''state'', ''delivery_state'']"

text \<open>
  The state is \<open>None\<close> (\<open>JNull\<close>) or a mapping; the recursive call is made on the values that are
  mappings.
\<close>

fun request_uncertain :: "json \<Rightarrow> bool" where
  "request_uncertain (JObj s) =
     (s \<noteq> [] \<and> (uncertain_here s \<or> list_ex (\<lambda>p. request_uncertain (snd p)) s))"
| "request_uncertain _ = False"

text \<open>\<open>nested s t\<close>: the mapping \<open>t\<close> is \<open>s\<close> or is reached from it through values that are mappings.\<close>

inductive nested :: "dict \<Rightarrow> dict \<Rightarrow> bool" where
  here: "nested s s"
| inside: "(k, JObj t) \<in> set s \<Longrightarrow> nested t u \<Longrightarrow> nested s u"

lemma uncertain_here_nonempty: "uncertain_here s \<Longrightarrow> s \<noteq> []"
  by (auto simp: uncertain_here_def is_true_def is_false_def)

lemma nested_uncertain: "nested s t \<Longrightarrow> uncertain_here t \<Longrightarrow> request_uncertain (JObj s)"
proof (induction rule: nested.induct)
  case (here s)
  then show ?case by (simp add: uncertain_here_nonempty)
next
  case (inside k t s u)
  then show ?case by (force simp: list_ex_iff)
qed

lemma request_uncertain_nested: "request_uncertain v \<Longrightarrow> v = JObj s \<Longrightarrow> \<exists>t. nested s t \<and> uncertain_here t"
proof (induction v arbitrary: s rule: request_uncertain.induct)
  case (1 d)
  show ?case
  proof (cases "uncertain_here d")
    case True
    with "1.prems" show ?thesis by (auto intro: nested.here)
  next
    case False
    with "1.prems" obtain k v where kv: "(k, v) \<in> set d" "request_uncertain v"
      by (auto simp: list_ex_iff)
    then obtain t where "v = JObj t" by (cases v) auto
    with "1.IH" [OF kv(1)] kv obtain u where "nested t u" "uncertain_here u" by fastforce
    with kv \<open>v = JObj t\<close> "1.prems" show ?thesis by (auto intro: nested.inside)
  qed
qed auto

text \<open>
  A request state is uncertain exactly when some mapping nested in it, at any depth, shows
  one of the signs of open remote work: cancellation of the caller never hides one, and nothing
  else makes a state uncertain.
\<close>

theorem request_uncertain_iff_nested:
  "request_uncertain (JObj s) \<longleftrightarrow> (\<exists>t. nested s t \<and> uncertain_here t)"
  using nested_uncertain request_uncertain_nested by blast

text \<open>
  A state that reports a received terminal failure counts as settled only with a validated
  receipt that names the same request and payload and that proves the sampler drained.
\<close>

theorem terminal_failure_needs_proof:
  assumes "dget s ''state'' = JStr ''terminal_failure_received''"
    and "\<not> request_uncertain (JObj s)"
  shows "\<exists>r. dget s ''failure_receipt'' = JObj r \<and> dget s ''generation_failure'' = JStr ''validated'' \<and>
    py_eq (dget r ''request_id'') (dget s ''id'') \<and>
    py_eq (dget r ''request_payload_sha256'') (dget s ''request_payload_sha256'') \<and>
    is_true (dget r ''sampler_drained'') \<and> is_true (dget r ''actual_actor_drain_proven'') \<and>
    dget r ''sampler_outcome'' \<noteq> JStr ''unknown''"
proof -
  from assms(1) have "s \<noteq> []" by auto
  with assms have closed: "\<not> open_failure s" by (auto simp: uncertain_here_def)
  then obtain r where r: "dget s ''failure_receipt'' = JObj r"
    by (cases "dget s ''failure_receipt''") (auto simp: open_failure_def)
  from closed r have "dget s ''generation_failure'' = JStr ''validated''"
    and "failure_is_terminal r = Inr True"
    and "py_eq (dget r ''request_id'') (dget s ''id'')"
    and "py_eq (dget r ''request_payload_sha256'') (dget s ''request_payload_sha256'')"
    by (auto simp: open_failure_def Let_def bindE_def dest!: dlookup_dget split: if_splits sum.splits)
  with r show ?thesis by (auto dest: failure_is_terminal_True)
qed

definition demo_failure_state :: dict where
  "demo_failure_state = [(''state'', JStr ''terminal_failure_received''), (''id'', JStr (replicate 32 CHR ''a'')),
     (''request_payload_sha256'', JStr ''h''), (''generation_failure'', JStr ''validated''),
     (''failure_receipt'', JObj demo_receipt)]"

theorem terminal_failure_needs_proof_witness:
  "\<not> request_uncertain (JObj demo_failure_state) \<and>
   (\<exists>r. dget demo_failure_state ''failure_receipt'' = JObj r \<and> is_true (dget r ''sampler_drained''))"
proof -
  have a: "dget demo_failure_state ''state'' = JStr ''terminal_failure_received''"
    by (simp add: demo_failure_state_def)
  have b: "\<not> request_uncertain (JObj demo_failure_state)" by code_simp
  from terminal_failure_needs_proof [OF a b] b show ?thesis by blast
qed

lemma ResourceRequirements_nonneg:
  "ResourceRequirements e c m s g scope = Inr r \<Longrightarrow> 0 \<le> quantity r k"
  by (auto simp: ResourceRequirements_def split: if_splits option.splits qkey.splits
      elim!: quantity_value.elims)

end
