(* ===== verification/Ledger.thy ===== *)
theory Ledger
  imports Prelude
begin

text \<open>
  The contract between an admission loop and the ledger of a bounded resource. A ledger keeps an
  amount in use per key and may have a limit per key; \<open>fits\<close> is the test made before a request
  is admitted and \<open>admit\<close> books it in (\<open>admission_ledger\<close>); a ledger that books requests out
  one by one adds \<open>free\<close> (\<open>capacity_ledger\<close>). The locales prove once what an admission loop
  relies on: a request admitted after a successful test, and any release, keep every amount within
  its limit, whatever the order of the requests. The coordinator's executor reservations are a
  capacity ledger; the evaluator's byte budget and the input cache's tiers are admission ledgers.
\<close>

locale admission_ledger =
  fixes total :: "'s \<Rightarrow> 'k \<Rightarrow> 'q::linordered_ab_group_add"
    and limit :: "'s \<Rightarrow> 'k \<Rightarrow> 'q option"
    and need :: "'r \<Rightarrow> 'k \<Rightarrow> 'q"
    and fits :: "'s \<Rightarrow> 'r \<Rightarrow> bool"
    and admit :: "'s \<Rightarrow> 'r \<Rightarrow> 's"
  assumes fits_limit: "fits s r \<Longrightarrow> limit s k = Some c \<Longrightarrow> need r k \<noteq> 0 \<Longrightarrow> total s k + need r k \<le> c"
    and total_admit: "fits s r \<Longrightarrow> total (admit s r) k = total s k + need r k"
    and limit_admit: "limit (admit s r) = limit s"
begin

definition in_limits :: "'s \<Rightarrow> bool" where
  "in_limits s \<longleftrightarrow> (\<forall>k c. limit s k = Some c \<longrightarrow> total s k \<le> c)"

lemma in_limits_admit: "in_limits s \<Longrightarrow> fits s r \<Longrightarrow> in_limits (admit s r)"
  unfolding in_limits_def
proof (intro allI impI)
  fix k c
  assume "\<forall>k c. limit s k = Some c \<longrightarrow> total s k \<le> c" "fits s r" "limit (admit s r) k = Some c"
  then show "total (admit s r) k \<le> c"
    by (cases "need r k = 0") (auto simp: total_admit limit_admit dest: fits_limit)
qed

text \<open>A step that gives back some amount, or leaves it, keeps the limits.\<close>

lemma in_limits_shrink:
  "in_limits s \<Longrightarrow> limit t = limit s \<Longrightarrow> (\<And>k. total t k \<le> total s k) \<Longrightarrow> in_limits t"
  unfolding in_limits_def by (metis order_trans)

end

locale capacity_ledger = admission_ledger total limit need fits admit
  for total :: "'s \<Rightarrow> 'k \<Rightarrow> 'q::linordered_ab_group_add"
    and limit :: "'s \<Rightarrow> 'k \<Rightarrow> 'q option"
    and need :: "'r \<Rightarrow> 'k \<Rightarrow> 'q"
    and fits :: "'s \<Rightarrow> 'r \<Rightarrow> bool"
    and admit :: "'s \<Rightarrow> 'r \<Rightarrow> 's" +
  fixes valid :: "'r \<Rightarrow> bool"
    and free :: "'s \<Rightarrow> 'r \<Rightarrow> 's"
  assumes need_nonneg: "valid r \<Longrightarrow> 0 \<le> need r k"
    and total_free: "total (free s r) k = total s k - need r k"
    and limit_free: "limit (free s r) = limit s"
begin

lemma in_limits_free: "in_limits s \<Longrightarrow> valid r \<Longrightarrow> in_limits (free s r)"
  by (rule in_limits_shrink [of s]) (use need_nonneg in \<open>auto simp: limit_free total_free algebra_simps\<close>)

lemma admit_free_total: "fits s r \<Longrightarrow> total (free (admit s r) r) k = total s k"
  by (simp add: total_admit total_free)

text \<open>A run of admissions, each tested first, and of releases.\<close>

fun run_ops :: "'s \<Rightarrow> ('r + 'r) list \<Rightarrow> 's" where
  "run_ops s [] = s"
| "run_ops s (Inl r # ops) = run_ops (if fits s r then admit s r else s) ops"
| "run_ops s (Inr r # ops) = run_ops (free s r) ops"

lemma in_limits_run_ops: "in_limits s \<Longrightarrow> \<forall>r. Inr r \<in> set ops \<longrightarrow> valid r \<Longrightarrow> in_limits (run_ops s ops)"
  by (induction s ops rule: run_ops.induct) (simp_all add: in_limits_admit in_limits_free)

end

end
