(* ===== verification/Coordinator.thy ===== *)
theory Coordinator
  imports Contracts Ledger
begin

text \<open>
  The state of \<^verbatim>\<open>rollout_manager/coordinator.py\<close> and the operations that both its entry points
  share: the constructor checks, the per-executor reservation ledger (\<open>fits\<close>, \<open>charge\<close>,
  \<open>quarantine\<close>, \<open>wave_fits\<close>), the results made for episodes that never ran or whose outcome
  is not proved, and the wrapper around a backend's \<^verbatim>\<open>execute\<close>. A dictionary of executors is a
  map, and a quantity vector is a function of the quantity key. The ledger is an interpretation
  of \<open>capacity_ledger\<close>.
\<close>

text \<open>The tuple (benchmark, group id, pass index) that keys a group of episodes.\<close>

datatype group = Group string string int

record event =
  event_name :: string
  event_plan :: "nat option"

record coordinator =
  policy :: string
  max_workers :: int
  max_groups :: int
  capacities :: "string \<rightharpoonup> resources"
  reserved :: "string \<rightharpoonup> qvec"
  peak_reserved :: "string \<rightharpoonup> qvec"
  quarantined :: "string \<rightharpoonup> qvec"
  draining_tasks :: "nat option list"
  lifecycle_failures :: "string list"
  coordinator_used :: bool
  event_log :: "event list"

definition Coordinator ::
  "int \<Rightarrow> int \<Rightarrow> (string \<rightharpoonup> resources) \<Rightarrow> flt \<Rightarrow> string \<Rightarrow> coordinator result" where
  "Coordinator workers groups caps drain_timeout pol =
     (if workers < 1 \<or> groups < 1 \<or> \<not> isfinite drain_timeout \<or>
         (case drain_timeout of Fin t \<Rightarrow> t \<le> 0 | _ \<Rightarrow> False)
      then Inl (ValueError ''worker/group limits and drain timeout must be positive'')
      else if pol \<notin> {''native-groups'', ''terminal-waves''} \<or> pol = ''terminal-waves'' \<and> groups \<noteq> 1
      then Inl (ValueError ''terminal waves require max_groups=1; unsupported admission policy'')
      else Inr \<lparr>policy = pol, max_workers = workers, max_groups = groups, capacities = caps,
                reserved = Map.empty, peak_reserved = Map.empty, quarantined = Map.empty,
                draining_tasks = [], lifecycle_failures = [], coordinator_used = False, event_log = []\<rparr>)"

definition log_event :: "string \<Rightarrow> nat option \<Rightarrow> coordinator \<Rightarrow> coordinator" where
  "log_event name plan c = c\<lparr>event_log := event_log c @ [\<lparr>event_name = name, event_plan = plan\<rparr>]\<rparr>"

section \<open>The reservation ledger\<close>

definition qvec_of :: "qvec option \<Rightarrow> qvec" where
  "qvec_of v = (case v of None \<Rightarrow> (\<lambda>_. 0) | Some q \<Rightarrow> q)"

lemma qvec_of_simps [simp]: "qvec_of None = (\<lambda>_. 0)" "qvec_of (Some q) = q"
  by (simp_all add: qvec_of_def)

definition fits :: "coordinator \<Rightarrow> resources \<Rightarrow> bool" where
  "fits c r \<longleftrightarrow>
     (if backend_stage r then True
      else let used = qvec_of (reserved c (executor r)) in
        case capacities c (executor r) of
          None \<Rightarrow> True
        | Some cap \<Rightarrow> list_all (\<lambda>k. used k + quantity r k \<le> quantity cap k) quantity_keys)"

definition charge :: "rat \<Rightarrow> resources \<Rightarrow> coordinator \<Rightarrow> coordinator" where
  "charge sgn_q r c =
     (if backend_stage r then c
      else
        let used = (\<lambda>k. qvec_of (reserved c (executor r)) k + sgn_q * quantity r k);
            peak = (\<lambda>k. max (qvec_of (peak_reserved c (executor r)) k) (used k))
        in c\<lparr>reserved := (reserved c)(executor r \<mapsto> used),
             peak_reserved := (peak_reserved c)(executor r \<mapsto> peak)\<rparr>)"

definition quarantine :: "resources \<Rightarrow> coordinator \<Rightarrow> coordinator" where
  "quarantine r c =
     (if backend_stage r then c
      else c\<lparr>quarantined := (quarantined c)(executor r \<mapsto>
               (\<lambda>k. qvec_of (quarantined c (executor r)) k + quantity r k))\<rparr>)"

definition add_total :: "(string \<rightharpoonup> qvec) \<Rightarrow> resources \<Rightarrow> (string \<rightharpoonup> qvec)" where
  "add_total totals r =
     (if backend_stage r then totals
      else totals(executor r \<mapsto> (\<lambda>k. qvec_of (totals (executor r)) k + quantity r k)))"

definition wave_totals :: "resources list \<Rightarrow> (string \<rightharpoonup> qvec)" where
  "wave_totals rs = foldl add_total Map.empty rs"

definition wave_fits :: "coordinator \<Rightarrow> resources list \<Rightarrow> bool" where
  "wave_fits c rs \<longleftrightarrow>
     list_all (\<lambda>e.
       case (wave_totals rs e, capacities c e) of
         (Some t, Some cap) \<Rightarrow>
           \<not> list_ex (\<lambda>k. qvec_of (reserved c e) k + t k > quantity cap k) quantity_keys
       | _ \<Rightarrow> True) (map executor rs)"

definition fits_capacity :: "coordinator \<Rightarrow> resources list \<Rightarrow> bool" where
  "fits_capacity c rs \<longleftrightarrow>
     list_all (\<lambda>e.
       case (wave_totals rs e, capacities c e) of
         (Some t, Some cap) \<Rightarrow> list_all (\<lambda>k. t k \<le> quantity cap k) quantity_keys
       | _ \<Rightarrow> True) (map executor rs)"

text \<open>The amounts the ledger tracks, per executor and quantity, and what a request needs.\<close>

definition reserved_amount :: "coordinator \<Rightarrow> string \<times> qkey \<Rightarrow> rat" where
  "reserved_amount c ek = qvec_of (reserved c (fst ek)) (snd ek)"

definition quarantined_amount :: "coordinator \<Rightarrow> string \<times> qkey \<Rightarrow> rat" where
  "quarantined_amount c ek = qvec_of (quarantined c (fst ek)) (snd ek)"

definition capacity_limit :: "coordinator \<Rightarrow> string \<times> qkey \<Rightarrow> rat option" where
  "capacity_limit c ek = map_option (\<lambda>cap. quantity cap (snd ek)) (capacities c (fst ek))"

definition need :: "resources \<Rightarrow> string \<times> qkey \<Rightarrow> rat" where
  "need r ek = (if backend_stage r \<or> executor r \<noteq> fst ek then 0 else quantity r (snd ek))"

definition nonneg_resources :: "resources \<Rightarrow> bool" where
  "nonneg_resources r \<longleftrightarrow> (\<forall>k. 0 \<le> quantity r k)"

lemma reserved_charge: "reserved_amount (charge x r c) ek = reserved_amount c ek + x * need r ek"
  by (simp add: reserved_amount_def charge_def need_def Let_def)

lemma reserved_quarantine [simp]: "reserved_amount (quarantine r c) = reserved_amount c"
  by (rule ext) (simp add: reserved_amount_def quarantine_def)

lemma quarantined_charge [simp]: "quarantined_amount (charge x r c) = quarantined_amount c"
  by (rule ext) (simp add: quarantined_amount_def charge_def Let_def)

lemma quarantined_quarantine:
  "quarantined_amount (quarantine r c) ek = quarantined_amount c ek + need r ek"
  by (simp add: quarantined_amount_def quarantine_def need_def)

lemma log_event_amounts [simp]:
  "reserved_amount (log_event n p c) = reserved_amount c"
  "quarantined_amount (log_event n p c) = quarantined_amount c"
  "capacity_limit (log_event n p c) = capacity_limit c"
  by (simp_all add: fun_eq_iff reserved_amount_def quarantined_amount_def capacity_limit_def log_event_def)

lemma limit_charge [simp]: "capacity_limit (charge x r c) = capacity_limit c"
  by (rule ext) (simp add: capacity_limit_def charge_def Let_def)

lemma limit_quarantine [simp]: "capacity_limit (quarantine r c) = capacity_limit c"
  by (rule ext) (simp add: capacity_limit_def quarantine_def)

lemma config_unchanged [simp]:
  "policy (charge x r c) = policy c" "policy (quarantine r c) = policy c" "policy (log_event n p c) = policy c"
  "max_workers (charge x r c) = max_workers c" "max_workers (quarantine r c) = max_workers c"
  "max_workers (log_event n p c) = max_workers c"
  "max_groups (charge x r c) = max_groups c" "max_groups (quarantine r c) = max_groups c"
  "max_groups (log_event n p c) = max_groups c"
  by (simp_all add: charge_def quarantine_def log_event_def Let_def)

lemma need_nonneg: "nonneg_resources r \<Longrightarrow> 0 \<le> need r ek"
  by (simp add: need_def nonneg_resources_def)

lemma fits_capacity_limit:
  assumes "fits c r" "capacity_limit c ek = Some q" "need r ek \<noteq> 0"
  shows "reserved_amount c ek + need r ek \<le> q"
proof -
  from assms(3) have r: "\<not> backend_stage r" "executor r = fst ek"
    by (auto simp: need_def split: if_splits)
  with assms(2) obtain cap where "capacities c (executor r) = Some cap" "q = quantity cap (snd ek)"
    by (auto simp: capacity_limit_def)
  with r assms(1) show ?thesis
    by (auto simp: fits_def need_def reserved_amount_def list_all_iff Let_def)
qed

interpretation executor_ledger: capacity_ledger reserved_amount capacity_limit need fits
  "\<lambda>c r. charge 1 r c" nonneg_resources "\<lambda>c r. charge (- 1) r c"
  by unfold_locales (auto simp: need_nonneg reserved_charge dest: fits_capacity_limit)

lemma wave_totals_amount:
  "qvec_of (foldl add_total m rs e) k = qvec_of (m e) k + sum_list (map (\<lambda>r. need r (e, k)) rs)"
  by (induction rs arbitrary: m) (simp_all add: add_total_def need_def)

lemma add_total_None: "add_total m a e = None \<Longrightarrow> m e = None \<and> need a (e, k) = 0"
  by (auto simp: add_total_def need_def split: if_splits)

lemma foldl_add_total_None: "foldl add_total m rs e = None \<Longrightarrow> m e = None"
  by (induction rs arbitrary: m) (auto dest: add_total_None)

lemma wave_totals_None: "foldl add_total m rs e = None \<Longrightarrow> r \<in> set rs \<Longrightarrow> need r (e, k) = 0"
  by (induction rs arbitrary: m) (auto dest: foldl_add_total_None [THEN add_total_None])

lemma wave_fits_limit:
  assumes "wave_fits c rs" "capacity_limit c ek = Some q" "r \<in> set rs" "need r ek \<noteq> 0"
  shows "reserved_amount c ek + sum_list (map (\<lambda>r. need r ek) rs) \<le> q"
proof -
  from assms(4) have e: "executor r = fst ek" by (auto simp: need_def split: if_splits)
  obtain t where t: "wave_totals rs (fst ek) = Some t"
    using assms(3,4) wave_totals_None [of Map.empty rs "fst ek" r "snd ek"]
    by (cases "wave_totals rs (fst ek)") (auto simp: wave_totals_def)
  have "t (snd ek) = sum_list (map (\<lambda>r. need r ek) rs)"
    using wave_totals_amount [of Map.empty rs "fst ek" "snd ek"] t by (simp add: wave_totals_def)
  moreover from assms(2) obtain cap where "capacities c (fst ek) = Some cap" "q = quantity cap (snd ek)"
    by (auto simp: capacity_limit_def)
  moreover from assms(1,3) t e \<open>capacities c (fst ek) = Some cap\<close>
  have "\<not> list_ex (\<lambda>k. qvec_of (reserved c (fst ek)) k + t k > quantity cap k) quantity_keys"
    by (auto simp: wave_fits_def list_all_iff dest!: bspec [of _ _ r])
  ultimately show ?thesis by (auto simp: list_ex_iff reserved_amount_def not_less simp flip: \<open>t (snd ek) = _\<close>)
qed

section \<open>Episode results\<close>

definition group_of :: "episode_plan \<Rightarrow> group" where
  "group_of p = (let i = plan_identity p in Group (benchmark i) (group_id i) (pass_index i))"

definition blank_result :: "episode_plan \<Rightarrow> episode_result" where
  "blank_result p =
     \<lparr>res_identity = plan_identity p, execution_state = ''failed'', verification_state = ''unknown'',
      score_eligible = False, cleanup_state = ''unknown'', native_outcome = [], native_artifacts = JObj [],
      usage = JNull, timings = JNull, failure_category = None, model_identity = None,
      request_state = JNull, configuration_sha256 = None,
      source_sha256 = Some (ts_source_sha256 (plan_task p))\<rparr>"

definition unresolved :: "episode_plan \<Rightarrow> string \<Rightarrow> episode_result" where
  "unresolved p why = (blank_result p)
     \<lparr>native_outcome := [(''reason'', JStr why)], failure_category := Some ''infrastructure''\<rparr>"

definition not_admitted :: "episode_plan \<Rightarrow> string \<Rightarrow> episode_result" where
  "not_admitted p why = (blank_result p)
     \<lparr>execution_state := ''not_admitted'', verification_state := ''not_performed'',
      cleanup_state := ''not_required'', native_outcome := [(''reason'', JStr why)]\<rparr>"

definition safe_result :: "episode_result \<Rightarrow> bool" where
  "safe_result r \<longleftrightarrow> cleanup_state r \<in> {''verified'', ''not_required''} \<and> \<not> request_uncertain (request_state r)"

text \<open>What the awaited \<^verbatim>\<open>backend.execute\<close> did: it returned a result, returned something else, was
  cancelled, or raised an exception of a given type and message.\<close>

datatype exec_outcome =
    Returned episode_result
  | Returned_other
  | Raised_cancelled
  | Raised string string

definition wrong_identity :: string where
  "wrong_identity = ''backend returned a different episode identity or result contract''"

fun execute_episode :: "episode_plan \<Rightarrow> exec_outcome \<Rightarrow> episode_result" where
  "execute_episode p (Returned r) =
     (if res_identity r \<noteq> plan_identity p then unresolved p (''ValueError: '' @ wrong_identity) else r)"
| "execute_episode p Returned_other = unresolved p (''ValueError: '' @ wrong_identity)"
| "execute_episode p Raised_cancelled = unresolved p ''backend_cancelled_without_cleanup_proof''"
| "execute_episode p (Raised ty msg) = unresolved p (ty @ '': '' @ msg)"

lemma result_identities [simp]:
  "res_identity (unresolved p why) = plan_identity p"
  "res_identity (not_admitted p why) = plan_identity p"
  "res_identity (execute_episode p out) = plan_identity p"
  by (cases out; simp add: unresolved_def not_admitted_def blank_result_def)+

lemma unresolved_unsafe [simp]: "\<not> safe_result (unresolved p why)"
  by (simp add: safe_result_def unresolved_def blank_result_def)

lemma not_admitted_safe [simp]: "safe_result (not_admitted p why)"
  by (simp add: safe_result_def not_admitted_def blank_result_def)

lemma execute_episode_unsafe_unless_returned:
  "safe_result (execute_episode p out) \<Longrightarrow> \<exists>r. out = Returned r \<and> res_identity r = plan_identity p"
  by (cases out) (auto split: if_splits)

end
