(* ===== verification/Coordinator_Run.thy ===== *)
theory Coordinator_Run
  imports Coordinator
begin

text \<open>
  \<^verbatim>\<open>Coordinator.run\<close>: validation of the plans, backend start, the admission loop under both
  admission policies, drain timeout, settlement of finished episodes with group closure, and the
  \<^verbatim>\<open>finally\<close> block that gives every plan a result.
  The local variables of the coroutine are the fields of \<open>run_state\<close>; an asyncio task is the
  index of its plan. Everything the event loop decides is an input: \<open>iter_env\<close> says, for one
  iteration, who cancelled the token and when, how the \<^verbatim>\<open>admit_group\<close> hook ended, whether the
  drain deadline has passed and which tasks \<^verbatim>\<open>asyncio.wait\<close> returned with which outcomes. One
  iteration of the \<^verbatim>\<open>while\<close> loop is \<open>iterate\<close>; the loop is \<open>run_loop\<close> over a scheduler that
  answers with an \<open>iter_env\<close> in every state, with fuel, since an episode may never finish.
\<close>

section \<open>State and inputs\<close>

record run_state =
  co :: coordinator
  pending :: "nat list"
  active :: "nat list"
  results :: "nat \<rightharpoonup> episode_result"
  completed :: "group \<Rightarrow> nat"
  held_groups :: "group list"
  stopped :: "string option"
  token :: cancellation_token
  draining :: bool
  started :: "nat list"

datatype hook_outcome = Hook_ok | Hook_raised string string | Hook_cancelled

datatype closure_outcome = Closure json | Closure_raised string | Closure_cancelled

record done_item =
  done_index :: nat
  done_outcome :: exec_outcome
  done_closure :: closure_outcome
  done_cancel :: "string option"

datatype wait_outcome = Wait_cancelled | Done "done_item list"

record iter_env =
  cancel_before :: "string option"
  cancel_admit :: "string option"
  admit_hook :: hook_outcome
  deadline_passed :: bool
  cancel_wait :: "string option"
  wait_result :: wait_outcome

datatype loop_ctl = Loop run_state | Exit run_state

definition native :: "run_state \<Rightarrow> bool" where
  "native s \<longleftrightarrow> policy (co s) = ''native-groups''"

definition waves :: "run_state \<Rightarrow> bool" where
  "waves s \<longleftrightarrow> policy (co s) = ''terminal-waves''"

definition res_of :: "episode_plan list \<Rightarrow> nat \<Rightarrow> resources" where
  "res_of plans i = ts_resources (plan_task (plans ! i))"

definition grp :: "episode_plan list \<Rightarrow> nat \<Rightarrow> group" where
  "grp plans i = group_of (plans ! i)"

definition indices_of :: "episode_plan list \<Rightarrow> group \<Rightarrow> nat list" where
  "indices_of plans g = filter (\<lambda>i. grp plans i = g) [0 ..< length plans]"

text \<open>Python's \<open>or\<close> on optional strings: an empty string is falsy.\<close>

definition py_or :: "string option \<Rightarrow> string option \<Rightarrow> string option" where
  "py_or a b = (case a of Some (c # cs) \<Rightarrow> a | _ \<Rightarrow> b)"

definition or_else :: "string option \<Rightarrow> string \<Rightarrow> string" where
  "or_else a d = (case a of Some (c # cs) \<Rightarrow> c # cs | _ \<Rightarrow> d)"

definition cancel_opt :: "string option \<Rightarrow> cancellation_token \<Rightarrow> cancellation_token" where
  "cancel_opt why t = (case why of None \<Rightarrow> t | Some r \<Rightarrow> cancel r t)"

section \<open>Validation of the plans\<close>

definition exceeds_capacity :: "coordinator \<Rightarrow> resources \<Rightarrow> bool" where
  "exceeds_capacity c r \<longleftrightarrow>
     (case capacities c (executor r) of
        None \<Rightarrow> False
      | Some cap \<Rightarrow> accounting r = ''episode'' \<and>
          list_ex (\<lambda>k. quantity r k > quantity cap k) quantity_keys)"

fun check_plans ::
  "coordinator \<Rightarrow> (string \<rightharpoonup> nat) \<Rightarrow> (string \<rightharpoonup> nat) \<Rightarrow> episode_plan list \<Rightarrow> unit result" where
  "check_plans c backends owners [] = Inr ()"
| "check_plans c backends owners (p # ps) =
     (case backends (ts_benchmark (plan_task p)) of
        None \<Rightarrow> Inl (ValueError (''no backend registered for '' @ ts_benchmark (plan_task p)))
      | Some b \<Rightarrow>
          let r = ts_resources (plan_task p);
              owner = (case owners (executor r) of None \<Rightarrow> b | Some o' \<Rightarrow> o')
          in if backend_stage r \<and> owner \<noteq> b
             then Inl (ValueError (''backend-stage executor requires one authoritative backend owner: '' @ executor r))
             else if exceeds_capacity c r
             then Inl (ValueError (''episode exceeds executor capacity: '' @ ts_task_id (plan_task p)))
             else check_plans c backends
                    (if backend_stage r then owners(executor r \<mapsto> owner) else owners) ps)"

definition wave_groups_fit :: "coordinator \<Rightarrow> episode_plan list \<Rightarrow> bool" where
  "wave_groups_fit c plans \<longleftrightarrow>
     list_all (\<lambda>i. let idx = indices_of plans (grp plans i) in
       int (length idx) \<le> max_workers c \<and> wave_fits c (map (res_of plans) idx)) [0 ..< length plans]"

definition validate_run :: "coordinator \<Rightarrow> (string \<rightharpoonup> nat) \<Rightarrow> episode_plan list \<Rightarrow> coordinator result" where
  "validate_run c backends plans =
     (if coordinator_used c
      then Inl (ValueError ''coordinator runs are immutable; create a new coordinator'')
      else if \<not> distinct (map plan_identity plans) then Inl (ValueError ''duplicate episode identities'')
      else if length (remdups (map (\<lambda>p. run_id (plan_identity p)) plans)) > 1
      then Inl (ValueError ''one coordinator cannot combine run identities'')
      else bindE (check_plans c backends Map.empty plans) (\<lambda>_.
        if policy c = ''terminal-waves'' \<and> \<not> wave_groups_fit c plans
        then Inl (ValueError ''terminal wave exceeds worker or executor capacity'')
        else Inr (c\<lparr>coordinator_used := True\<rparr>)))"

definition init_state :: "episode_plan list \<Rightarrow> coordinator \<Rightarrow> cancellation_token \<Rightarrow> run_state" where
  "init_state plans c tok =
     \<lparr>co = c, pending = [0 ..< length plans], active = [], results = Map.empty,
      completed = (\<lambda>_. 0), held_groups = [], stopped = None, token = tok, draining = False, started = []\<rparr>"

section \<open>Starting backends\<close>

definition lifecycle_cancelled :: "run_state \<Rightarrow> run_state" where
  "lifecycle_cancelled s =
     (let t = cancel ''coordinator_cancelled_during_lifecycle'' (token s)
      in s\<lparr>token := t, stopped := reason t\<rparr>)"

definition lifecycle_failed :: "string \<Rightarrow> string \<Rightarrow> run_state \<Rightarrow> run_state" where
  "lifecycle_failed ty msg s =
     (let why = or_else (stopped s) (''coordinator_infrastructure_failure:'' @ ty @ '': '' @ msg)
      in s\<lparr>stopped := Some why,
           co := (co s)\<lparr>lifecycle_failures := lifecycle_failures (co s) @ [why]\<rparr>\<rparr>)"

text \<open>One entry of the list per benchmark to start: an external cancellation before it and the
  outcome of its \<^verbatim>\<open>start\<close> hook.\<close>

fun start_backends ::
  "(string \<rightharpoonup> nat) \<Rightarrow> (string \<times> string option \<times> hook_outcome) list \<Rightarrow> run_state \<Rightarrow> loop_ctl" where
  "start_backends backends [] s = Loop s"
| "start_backends backends ((bench, why, hook) # rest) s =
     (let s = s\<lparr>token := cancel_opt why (token s)\<rparr> in
      if cancelled (token s)
      then Loop (s\<lparr>stopped := py_or (reason (token s)) (Some ''cancelled'')\<rparr>)
      else case backends bench of
        None \<Rightarrow> Exit (lifecycle_failed ''KeyError'' bench s)
      | Some b \<Rightarrow>
          if b \<in> set (started s) then start_backends backends rest s
          else let s = s\<lparr>started := started s @ [b]\<rparr> in
            case hook of
              Hook_ok \<Rightarrow> start_backends backends rest s
            | Hook_raised ty msg \<Rightarrow> Exit (lifecycle_failed ty msg s)
            | Hook_cancelled \<Rightarrow> Exit (lifecycle_cancelled s))"

section \<open>Admission\<close>

definition note_cancel :: "run_state \<Rightarrow> run_state" where
  "note_cancel s =
     (if cancelled (token s)
      then s\<lparr>stopped := py_or (py_or (stopped s) (reason (token s))) (Some ''cancelled''), draining := True\<rparr>
      else s)"

definition hold :: "group \<Rightarrow> run_state \<Rightarrow> run_state" where
  "hold g s = (if g \<in> set (held_groups s) then s else s\<lparr>held_groups := held_groups s @ [g]\<rparr>)"

definition start_task :: "episode_plan list \<Rightarrow> nat \<Rightarrow> run_state \<Rightarrow> run_state" where
  "start_task plans i s =
     s\<lparr>co := log_event ''episode_admitted'' (Some i) (charge 1 (res_of plans i) (co s)),
       pending := remove1 i (pending s), active := active s @ [i]\<rparr>"

definition admit_wave :: "episode_plan list \<Rightarrow> nat list \<Rightarrow> group \<Rightarrow> run_state \<Rightarrow> run_state" where
  "admit_wave plans idx g s = foldl (\<lambda>s i. start_task plans i s) (hold g s) idx"

fun admit_native :: "episode_plan list \<Rightarrow> nat list \<Rightarrow> string list \<Rightarrow> run_state \<Rightarrow> run_state" where
  "admit_native plans [] blocked s = s"
| "admit_native plans (i # is) blocked s =
     (let r = res_of plans i; g = grp plans i in
      if int (length (active s)) \<ge> max_workers (co s) then s
      else if g \<notin> set (held_groups s) \<and> int (length (held_groups s)) \<ge> max_groups (co s)
      then admit_native plans is blocked s
      else if executor r \<in> set blocked then admit_native plans is blocked s
      else if \<not> fits (co s) r then admit_native plans is (executor r # blocked) s
      else admit_native plans is blocked (start_task plans i (hold g s)))"

definition admission :: "episode_plan list \<Rightarrow> iter_env \<Rightarrow> run_state \<Rightarrow> loop_ctl" where
  "admission plans env s =
     (if stopped s \<noteq> None then Loop s
      else if waves s then
        (case pending s of
           [] \<Rightarrow> Loop s
         | i # _ \<Rightarrow>
             if held_groups s \<noteq> [] then Loop s
             else
               let g = grp plans i; idx = indices_of plans g;
                   s = s\<lparr>token := cancel_opt (cancel_admit env) (token s)\<rparr>
               in case admit_hook env of
                    Hook_raised ty msg \<Rightarrow>
                      Loop (s\<lparr>stopped := Some (''group_admission_failure:'' @ ty @ '': '' @ msg)\<rparr>)
                  | Hook_cancelled \<Rightarrow> Exit (lifecycle_cancelled s)
                  | Hook_ok \<Rightarrow>
                      if cancelled (token s)
                      then Loop (s\<lparr>stopped := py_or (reason (token s)) (Some ''cancelled_during_group_admission'')\<rparr>)
                      else Loop (admit_wave plans idx g s))
      else Loop (admit_native plans (pending s) [] s))"

section \<open>Drain timeout and settlement\<close>

definition abandon :: "episode_plan list \<Rightarrow> string \<Rightarrow> string option \<Rightarrow> bool \<Rightarrow> nat \<Rightarrow> run_state \<Rightarrow> run_state" where
  "abandon plans why ev book i s =
     (let c = (if book then quarantine (res_of plans i) (co s) else co s);
          c = (case ev of None \<Rightarrow> c | Some n \<Rightarrow> log_event n (Some i) c)
      in s\<lparr>co := c\<lparr>draining_tasks := draining_tasks c @ [Some i]\<rparr>,
           results := (results s)(i \<mapsto> unresolved (plans ! i) why)\<rparr>)"

definition drain_timeout :: "episode_plan list \<Rightarrow> run_state \<Rightarrow> run_state" where
  "drain_timeout plans s =
     (let s = foldl (\<lambda>s i. abandon plans ''drain_timeout; worker termination remains unproven''
                (Some ''episode_drain_unproven'') (native s) i s) s (active s);
          s = (if waves s
               then s\<lparr>co := foldl (\<lambda>c i. quarantine (res_of plans i) c) (co s)
                              (concat (map (indices_of plans) (held_groups s)))\<rparr>
               else s)
      in s\<lparr>active := []\<rparr>)"

definition closure_value :: "closure_outcome \<Rightarrow> json" where
  "closure_value c =
     (case c of
        Closure v \<Rightarrow> v
      | Closure_raised ty \<Rightarrow> JObj [(''uncertain'', JBool True), (''error_type'', JStr ty)]
      | Closure_cancelled \<Rightarrow> JObj [(''uncertain'', JBool True), (''error_type'', JStr ''CancelledError'')])"

definition observed_safe :: "run_state \<Rightarrow> nat list \<Rightarrow> bool" where
  "observed_safe s idx \<longleftrightarrow> list_all (\<lambda>i. case results s i of None \<Rightarrow> False | Some r \<Rightarrow> safe_result r) idx"

definition closure_safe :: "run_state \<Rightarrow> nat list \<Rightarrow> closure_outcome \<Rightarrow> bool" where
  "closure_safe s idx closure \<longleftrightarrow> observed_safe s idx \<and> \<not> request_uncertain (closure_value closure)"

definition close_wave :: "episode_plan list \<Rightarrow> done_item \<Rightarrow> group \<Rightarrow> run_state \<Rightarrow> run_state" where
  "close_wave plans d g s =
     (let idx = indices_of plans g;
          t = cancel_opt (done_cancel d) (token s);
          t = (case done_closure d of Closure_cancelled \<Rightarrow> cancel ''coordinator_cancelled_during_group_closure'' t
               | _ \<Rightarrow> t);
          safe = closure_safe s idx (done_closure d);
          c = foldl (\<lambda>c i. if safe then charge (- 1) (res_of plans i) c else quarantine (res_of plans i) c) (co s) idx;
          why = or_else (stopped s) ''group_closure_unproven''
      in s\<lparr>co := log_event ''group_finished'' (Some (done_index d)) c,
           token := (if safe then t else cancel why t),
           stopped := (if safe then stopped s else Some why)\<rparr>)"

definition book_result :: "episode_plan list \<Rightarrow> nat \<Rightarrow> episode_result \<Rightarrow> run_state \<Rightarrow> run_state" where
  "book_result plans i r s =
     (let s = s\<lparr>active := remove1 i (active s), results := (results s)(i \<mapsto> r)\<rparr> in
      if \<not> safe_result r then
        let c = (if native s then quarantine (res_of plans i) (co s) else co s);
            why = or_else (stopped s) (if request_uncertain (request_state r) then ''uncertain_model_request''
                                       else ''cleanup_unproven'')
        in s\<lparr>co := log_event ''resources_quarantined'' (Some i) c, stopped := Some why,
             token := cancel why (token s)\<rparr>
      else if native s then s\<lparr>co := charge (- 1) (res_of plans i) (co s)\<rparr>
      else s)"

definition note_failures :: "(json \<Rightarrow> string) \<Rightarrow> episode_result \<Rightarrow> run_state \<Rightarrow> run_state" where
  "note_failures str_of r s =
     (let st = (if failure_category r \<in> {Some ''infrastructure'', Some ''infrastructure_error''}
                then py_or (stopped s) (Some ''infrastructure_failure'') else stopped s);
          st = (if execution_state r = ''not_admitted''
                then py_or st (Some (str_of (dget_default (native_outcome r) ''reason''
                                               (JStr ''backend_admission_stopped'')))) else st);
          st = (if verification_state r = ''review_required''
                then py_or st (Some ''verifier_review_required'') else st)
      in s\<lparr>stopped := st\<rparr>)"

definition settle_group :: "episode_plan list \<Rightarrow> done_item \<Rightarrow> run_state \<Rightarrow> run_state" where
  "settle_group plans d s =
     (let g = grp plans (done_index d);
          s = s\<lparr>completed := (completed s)(g := Suc (completed s g))\<rparr>
      in if completed s g = length (indices_of plans g)
         then let s = (if waves s then close_wave plans d g s else s)
              in s\<lparr>held_groups := remove1 g (held_groups s)\<rparr>
         else s)"

definition settle :: "episode_plan list \<Rightarrow> (json \<Rightarrow> string) \<Rightarrow> run_state \<Rightarrow> done_item \<Rightarrow> run_state" where
  "settle plans str_of s d =
     (if done_index d \<notin> set (active s) then s
      else
        let i = done_index d; r = execute_episode (plans ! i) (done_outcome d);
            s = settle_group plans d (note_failures str_of r (book_result plans i r s))
        in s\<lparr>co := log_event ''episode_finished'' (Some i) (co s)\<rparr>)"

section \<open>The loop\<close>

definition iterate :: "episode_plan list \<Rightarrow> (json \<Rightarrow> string) \<Rightarrow> iter_env \<Rightarrow> run_state \<Rightarrow> loop_ctl" where
  "iterate plans str_of env s =
     (if pending s = [] \<and> active s = [] then Exit s
      else case admission plans env (note_cancel (s\<lparr>token := cancel_opt (cancel_before env) (token s)\<rparr>)) of
        Exit s \<Rightarrow> Exit s
      | Loop s \<Rightarrow>
          if active s = [] then Exit s
          else if draining s \<and> deadline_passed env then Exit (drain_timeout plans s)
          else case wait_result env of
            Wait_cancelled \<Rightarrow> Loop (s\<lparr>token := cancel ''coordinator_cancelled'' (token s)\<rparr>)
          | Done ds \<Rightarrow> Loop (foldl (settle plans str_of) (s\<lparr>token := cancel_opt (cancel_wait env) (token s)\<rparr>) ds))"

fun run_loop ::
  "episode_plan list \<Rightarrow> (json \<Rightarrow> string) \<Rightarrow> (run_state \<Rightarrow> iter_env) \<Rightarrow> nat \<Rightarrow> run_state \<Rightarrow> run_state option" where
  "run_loop plans str_of sched 0 s = None"
| "run_loop plans str_of sched (Suc n) s =
     (case iterate plans str_of (sched s) s of
        Exit s' \<Rightarrow> Some s'
      | Loop s' \<Rightarrow> run_loop plans str_of sched n s')"

section \<open>Shutdown\<close>

datatype close_outcome = Closed | Close_timeout | Close_cancelled | Close_failed string string

text \<open>\<^verbatim>\<open>_close_backend\<close>: a cancellation of the waiting coroutine is recorded in the token and the
  wait goes on until the task is done or the deadline passes.\<close>

definition close_backend :: "bool \<times> close_outcome \<Rightarrow> run_state \<Rightarrow> string option \<times> run_state" where
  "close_backend wc s =
     (let s = (if fst wc then s\<lparr>token := cancel ''coordinator_cancelled_during_close'' (token s)\<rparr> else s) in
      case snd wc of
        Closed \<Rightarrow> (None, s)
      | Close_timeout \<Rightarrow>
          (Some ''backend_close_timeout; cleanup remains unproven'',
           s\<lparr>co := (co s)\<lparr>draining_tasks := draining_tasks (co s) @ [None]\<rparr>\<rparr>)
      | Close_cancelled \<Rightarrow> (Some ''backend_close_cancelled; cleanup remains unproven'', s)
      | Close_failed ty msg \<Rightarrow> (Some (''backend_close_failure:'' @ ty @ '': '' @ msg), s))"

fun close_backends :: "(nat \<Rightarrow> bool \<times> close_outcome) \<Rightarrow> nat list \<Rightarrow> run_state \<Rightarrow> run_state" where
  "close_backends env [] s = s"
| "close_backends env (b # bs) s =
     (case close_backend (env b) s of
        (None, s') \<Rightarrow> close_backends env bs s'
      | (Some failure, s') \<Rightarrow>
          close_backends env bs
            (s'\<lparr>co := (co s')\<lparr>lifecycle_failures := lifecycle_failures (co s') @ [failure]\<rparr>,
                stopped := py_or (stopped s') (Some failure)\<rparr>))"

definition abandon_active :: "episode_plan list \<Rightarrow> run_state \<Rightarrow> run_state" where
  "abandon_active plans s =
     (let why = or_else (stopped s) ''coordinator_infrastructure_failure'' in
      foldl (\<lambda>s i. abandon plans why None True i (s\<lparr>token := cancel why (token s)\<rparr>)) s (active s))"

definition reject_pending :: "episode_plan list \<Rightarrow> run_state \<Rightarrow> run_state" where
  "reject_pending plans s =
     foldl (\<lambda>s i. s\<lparr>results := (results s)(i \<mapsto> not_admitted (plans ! i) (or_else (stopped s) ''not_admitted'')),
                    co := log_event ''episode_not_admitted'' (Some i) (co s)\<rparr>) s (pending s)"

record run_summary =
  expected_episodes :: nat
  result_count :: nat
  admission_stopped_reason :: "string option"
  drain_complete :: bool
  cleanup_complete :: bool

definition summarise :: "episode_plan list \<Rightarrow> episode_result list \<Rightarrow> run_state \<Rightarrow> run_summary" where
  "summarise plans ordered s =
     \<lparr>expected_episodes = length plans, result_count = length ordered,
      admission_stopped_reason = stopped s,
      drain_complete = (draining_tasks (co s) = []),
      cleanup_complete = (draining_tasks (co s) = [] \<and>
        \<not> list_ex (contains_sub ''backend_close'') (lifecycle_failures (co s)))\<rparr>"

definition ordered_results :: "episode_plan list \<Rightarrow> run_state \<Rightarrow> episode_result list result" where
  "ordered_results plans s =
     mapE (\<lambda>i. case results s i of None \<Rightarrow> Inl (KeyError ''results'') | Some r \<Rightarrow> Inr r) [0 ..< length plans]"

definition finalize ::
  "episode_plan list \<Rightarrow> (nat \<Rightarrow> bool \<times> close_outcome) \<Rightarrow> run_state \<Rightarrow> run_state" where
  "finalize plans closing s =
     (let s = abandon_active plans s;
          s = (if draining_tasks (co s) = [] then close_backends closing (rev (started s)) s else s);
          s = (if cancelled (token s)
               then s\<lparr>stopped := py_or (py_or (stopped s) (reason (token s))) (Some ''cancelled'')\<rparr> else s)
      in reject_pending plans s)"

record run_inputs =
  starting :: "string \<Rightarrow> string option \<times> hook_outcome"
  scheduler :: "run_state \<Rightarrow> iter_env"
  closing :: "nat \<Rightarrow> bool \<times> close_outcome"

text \<open>\<^verbatim>\<open>dict.fromkeys\<close> keeps the first occurrence of every benchmark.\<close>

definition benchmarks_of :: "episode_plan list \<Rightarrow> string list" where
  "benchmarks_of plans = rev (remdups (rev (map (\<lambda>p. ts_benchmark (plan_task p)) plans)))"

text \<open>
  The whole coroutine: \<open>None\<close> while the loop still runs after \<open>fuel\<close> iterations, otherwise the
  ordered results and the summary.
\<close>

definition run_body ::
  "episode_plan list \<Rightarrow> (json \<Rightarrow> string) \<Rightarrow> (string \<rightharpoonup> nat) \<Rightarrow> run_inputs \<Rightarrow> nat \<Rightarrow> run_state \<Rightarrow> run_state option" where
  "run_body plans str_of backends inp fuel s =
     map_option (finalize plans (closing inp))
       (case start_backends backends (map (\<lambda>b. (b, starting inp b)) (benchmarks_of plans)) s of
          Exit s' \<Rightarrow> Some s'
        | Loop s' \<Rightarrow> run_loop plans str_of (scheduler inp) fuel s')"

definition run_coordinator ::
  "coordinator \<Rightarrow> (string \<rightharpoonup> nat) \<Rightarrow> episode_plan list \<Rightarrow> cancellation_token \<Rightarrow> (json \<Rightarrow> string) \<Rightarrow>
   run_inputs \<Rightarrow> nat \<Rightarrow> (episode_result list \<times> run_summary) option result" where
  "run_coordinator c backends plans tok str_of inp fuel =
     bindE (validate_run c backends plans) (\<lambda>c'.
       case run_body plans str_of backends inp fuel (init_state plans c' tok) of
         None \<Rightarrow> Inr None
       | Some s \<Rightarrow> bindE (ordered_results plans s) (\<lambda>ordered. Inr (Some (ordered, summarise plans ordered s))))"

end
