(* ===== verification/Coordinator_Safety.thy ===== *)
theory Coordinator_Safety
  imports Coordinator_Run
begin

text \<open>
  Invariants of the coordinator's loop and what a caller may rely on: every plan has exactly one
  place (pending, active or settled) and at the end exactly one result of its own identity;
  worker and group limits; reservations within every executor's capacity; nothing leaks from the
  ledger; no admission after a stop.
\<close>

section \<open>Reachable loop states\<close>

inductive reaches :: "episode_plan list \<Rightarrow> (json \<Rightarrow> string) \<Rightarrow> run_state \<Rightarrow> run_state \<Rightarrow> bool"
  for plans str_of s0 where
  start: "reaches plans str_of s0 s0"
| step: "reaches plans str_of s0 s \<Longrightarrow> iterate plans str_of env s = Loop s' \<Longrightarrow> reaches plans str_of s0 s'"

inductive_cases iterate_reachesE: "reaches plans str_of s0 s"

lemma reaches_trans: "reaches plans str_of b c \<Longrightarrow> reaches plans str_of a b \<Longrightarrow> reaches plans str_of a c"
  by (induction rule: reaches.induct) (auto intro: reaches.step)

lemma run_loop_reaches:
  "run_loop plans str_of sched n s = Some t \<Longrightarrow>
   \<exists>u. reaches plans str_of s u \<and> iterate plans str_of (sched u) u = Exit t"
proof (induction n arbitrary: s)
  case (Suc n)
  show ?case
  proof (cases "iterate plans str_of (sched s) s")
    case (Loop s')
    with Suc obtain u where "reaches plans str_of s' u" "iterate plans str_of (sched u) u = Exit t"
      by auto
    with Loop show ?thesis by (blast intro: reaches_trans reaches.intros)
  next
    case (Exit s')
    with Suc.prems show ?thesis by (auto intro: reaches.start)
  qed
qed simp

section \<open>What the phases leave alone\<close>

lemma note_cancel_frame [simp]:
  "co (note_cancel s) = co s" "pending (note_cancel s) = pending s" "active (note_cancel s) = active s"
  "results (note_cancel s) = results s" "completed (note_cancel s) = completed s"
  "held_groups (note_cancel s) = held_groups s" "token (note_cancel s) = token s"
  by (simp_all add: note_cancel_def)

lemma hold_frame [simp]:
  "co (hold g s) = co s" "pending (hold g s) = pending s" "active (hold g s) = active s"
  "results (hold g s) = results s" "completed (hold g s) = completed s" "stopped (hold g s) = stopped s"
  "token (hold g s) = token s" "set (held_groups (hold g s)) = insert g (set (held_groups s))"
  by (auto simp: hold_def)

lemma hold_distinct: "distinct (held_groups s) \<Longrightarrow> distinct (held_groups (hold g s))"
  by (simp add: hold_def)

lemma start_task_frame [simp]:
  "results (start_task plans i s) = results s" "completed (start_task plans i s) = completed s"
  "held_groups (start_task plans i s) = held_groups s" "stopped (start_task plans i s) = stopped s"
  "active (start_task plans i s) = active s @ [i]" "pending (start_task plans i s) = remove1 i (pending s)"
  "max_workers (co (start_task plans i s)) = max_workers (co s)"
  "max_groups (co (start_task plans i s)) = max_groups (co s)"
  "policy (co (start_task plans i s)) = policy (co s)"
  by (simp_all add: start_task_def)

lemma book_result_frame [simp]:
  "pending (book_result plans i r s) = pending s" "active (book_result plans i r s) = remove1 i (active s)"
  "results (book_result plans i r s) = (results s)(i \<mapsto> r)" "completed (book_result plans i r s) = completed s"
  "held_groups (book_result plans i r s) = held_groups s"
  "policy (co (book_result plans i r s)) = policy (co s)"
  "max_workers (co (book_result plans i r s)) = max_workers (co s)"
  "max_groups (co (book_result plans i r s)) = max_groups (co s)"
  by (simp_all add: book_result_def Let_def)

lemma note_failures_frame [simp]:
  "pending (note_failures f r s) = pending s" "active (note_failures f r s) = active s"
  "results (note_failures f r s) = results s" "completed (note_failures f r s) = completed s"
  "held_groups (note_failures f r s) = held_groups s" "co (note_failures f r s) = co s"
  "token (note_failures f r s) = token s"
  by (simp_all add: note_failures_def Let_def)

lemma fold_ledger_policy [simp]:
  "policy (foldl (\<lambda>c i. if b then charge x (f i) c else quarantine (f i) c) c is) = policy c"
  "max_workers (foldl (\<lambda>c i. if b then charge x (f i) c else quarantine (f i) c) c is) = max_workers c"
  "max_groups (foldl (\<lambda>c i. if b then charge x (f i) c else quarantine (f i) c) c is) = max_groups c"
  by (induction "is" arbitrary: c) simp_all

lemma close_wave_frame [simp]:
  "pending (close_wave plans d g s) = pending s" "active (close_wave plans d g s) = active s"
  "results (close_wave plans d g s) = results s" "completed (close_wave plans d g s) = completed s"
  "held_groups (close_wave plans d g s) = held_groups s"
  "policy (co (close_wave plans d g s)) = policy (co s)"
  "max_workers (co (close_wave plans d g s)) = max_workers (co s)"
  "max_groups (co (close_wave plans d g s)) = max_groups (co s)"
  by (simp_all add: close_wave_def Let_def)

lemma settle_group_frame [simp]:
  "pending (settle_group plans d s) = pending s" "active (settle_group plans d s) = active s"
  "results (settle_group plans d s) = results s" "policy (co (settle_group plans d s)) = policy (co s)"
  "max_workers (co (settle_group plans d s)) = max_workers (co s)"
  "max_groups (co (settle_group plans d s)) = max_groups (co s)"
  by (simp_all add: settle_group_def Let_def)

lemma settle_unfold:
  "done_index d \<in> set (active s) \<Longrightarrow> settle plans str_of s d =
     (let i = done_index d; r = execute_episode (plans ! i) (done_outcome d);
          t = settle_group plans d (note_failures str_of r (book_result plans i r s))
      in t\<lparr>co := log_event ''episode_finished'' (Some i) (co t)\<rparr>)"
  by (simp add: settle_def)

lemma settle_skip: "done_index d \<notin> set (active s) \<Longrightarrow> settle plans str_of s d = s"
  by (simp add: settle_def)

lemma settle_frame:
  "pending (settle plans str_of s d) = pending s"
  "active (settle plans str_of s d) = remove1 (done_index d) (active s)"
  "results (settle plans str_of s d) =
     (if done_index d \<in> set (active s)
      then (results s)(done_index d \<mapsto> execute_episode (plans ! done_index d) (done_outcome d)) else results s)"
  by (cases "done_index d \<in> set (active s)"; simp add: settle_unfold settle_skip Let_def remove1_idem)+

lemma lifecycle_cancelled_frame [simp]:
  "pending (lifecycle_cancelled s) = pending s" "active (lifecycle_cancelled s) = active s"
  "results (lifecycle_cancelled s) = results s" "co (lifecycle_cancelled s) = co s"
  by (simp_all add: lifecycle_cancelled_def Let_def)

lemma py_or_Some [simp]: "py_or a (Some b) \<noteq> None"
  by (auto simp: py_or_def split: option.splits list.splits)

lemma set_remove1_distinct [simp]: "distinct xs \<Longrightarrow> set (remove1 x xs) = set xs - {x}"
  by (simp add: set_remove1_eq)

lemma indices_of_set: "i \<in> set (indices_of plans g) \<longleftrightarrow> i < length plans \<and> grp plans i = g"
  by (auto simp: indices_of_def)

lemma indices_of_distinct [simp]: "distinct (indices_of plans g)"
  by (simp add: indices_of_def)

section \<open>Every plan has one place\<close>

definition part_inv :: "episode_plan list \<Rightarrow> run_state \<Rightarrow> bool" where
  "part_inv plans s \<longleftrightarrow>
     distinct (pending s) \<and> distinct (active s) \<and> set (pending s) \<inter> set (active s) = {} \<and>
     (set (pending s) \<union> set (active s)) \<inter> dom (results s) = {} \<and>
     set (pending s) \<union> set (active s) \<union> dom (results s) = {..< length plans} \<and>
     (\<forall>i r. results s i = Some r \<longrightarrow> res_identity r = plan_identity (plans ! i))"

definition count_inv :: "episode_plan list \<Rightarrow> run_state \<Rightarrow> bool" where
  "count_inv plans s \<longleftrightarrow> (\<forall>g. completed s g = card {i \<in> dom (results s). grp plans i = g})"

definition held_inv :: "episode_plan list \<Rightarrow> run_state \<Rightarrow> bool" where
  "held_inv plans s \<longleftrightarrow> distinct (held_groups s) \<and> (\<forall>i \<in> set (active s). grp plans i \<in> set (held_groups s))"

definition wave_inv :: "episode_plan list \<Rightarrow> run_state \<Rightarrow> bool" where
  "wave_inv plans s \<longleftrightarrow>
     (\<forall>g. set (indices_of plans g) \<subseteq> set (pending s) \<or> set (indices_of plans g) \<inter> set (pending s) = {}) \<and>
     (\<forall>g \<in> set (held_groups s). set (indices_of plans g) \<inter> set (pending s) = {})"

definition loop_inv :: "episode_plan list \<Rightarrow> run_state \<Rightarrow> bool" where
  "loop_inv plans s \<longleftrightarrow> part_inv plans s \<and> count_inv plans s \<and> held_inv plans s \<and> (waves s \<longrightarrow> wave_inv plans s)"

lemmas loop_inv_defs = loop_inv_def part_inv_def count_inv_def held_inv_def wave_inv_def waves_def

lemma loop_inv_cong:
  assumes "pending t = pending s" "active t = active s" "results t = results s" "completed t = completed s"
    "held_groups t = held_groups s" "policy (co t) = policy (co s)"
  shows "loop_inv plans t = loop_inv plans s"
  using assms by (simp add: loop_inv_defs)

lemma part_inv_start_task: "part_inv plans s \<Longrightarrow> i \<in> set (pending s) \<Longrightarrow> part_inv plans (start_task plans i s)"
  by (auto simp: part_inv_def)

lemma part_inv_cong:
  "pending t = pending s \<Longrightarrow> active t = active s \<Longrightarrow> results t = results s \<Longrightarrow> part_inv plans t = part_inv plans s"
  by (simp add: part_inv_def)

lemma loop_inv_init: "loop_inv plans (init_state plans c tok)"
  by (auto simp: loop_inv_defs init_state_def indices_of_set)

subsection \<open>Native admission\<close>

definition native_core :: "episode_plan list \<Rightarrow> run_state \<Rightarrow> bool" where
  "native_core plans s \<longleftrightarrow> part_inv plans s \<and> count_inv plans s \<and> held_inv plans s \<and>
     int (length (active s)) \<le> max_workers (co s) \<and> int (length (held_groups s)) \<le> max_groups (co s)"

lemma native_core_start:
  assumes "native_core plans s" "i \<in> set (pending s)" "int (length (active s)) < max_workers (co s)"
    "grp plans i \<in> set (held_groups s) \<or> int (length (held_groups s)) < max_groups (co s)"
  shows "native_core plans (start_task plans i (hold (grp plans i) s))"
proof -
  have "part_inv plans (hold (grp plans i) s)"
    using assms(1) part_inv_cong [of "hold (grp plans i) s" s] by (simp add: native_core_def)
  then have "part_inv plans (start_task plans i (hold (grp plans i) s))"
    using assms(2) by (intro part_inv_start_task) auto
  moreover have "int (length (held_groups (hold (grp plans i) s))) \<le> max_groups (co s)"
    using assms by (auto simp: hold_def native_core_def)
  ultimately show ?thesis
    using assms by (auto simp: native_core_def count_inv_def held_inv_def hold_distinct)
qed

lemma admit_native_core:
  "native_core plans s \<Longrightarrow> distinct is \<Longrightarrow> set is \<subseteq> set (pending s) \<Longrightarrow> native_core plans (admit_native plans is b s)"
proof (induction plans "is" b s rule: admit_native.induct)
  case (2 plans i "is" b s)
  let ?t = "start_task plans i (hold (grp plans i) s)"
  have "distinct (pending s)" using "2.prems"(1) by (simp add: native_core_def part_inv_def)
  with "2.prems" have sub: "set is \<subseteq> set (pending ?t)" by auto
  have core: "native_core plans ?t"
    if "\<not> max_workers (co s) \<le> int (length (active s))"
      "\<not> (grp plans i \<notin> set (held_groups s) \<and> max_groups (co s) \<le> int (length (held_groups s)))"
    using "2.prems" that by (intro native_core_start) auto
  show ?case
    using "2.IH" "2.prems" sub core by (auto simp: Let_def simp del: start_task_frame hold_frame)
qed simp

subsection \<open>Wave admission\<close>

lemma foldl_start_frame:
  "results (foldl (\<lambda>s i. start_task plans i s) s idx) = results s \<and>
   completed (foldl (\<lambda>s i. start_task plans i s) s idx) = completed s \<and>
   held_groups (foldl (\<lambda>s i. start_task plans i s) s idx) = held_groups s \<and>
   stopped (foldl (\<lambda>s i. start_task plans i s) s idx) = stopped s \<and>
   policy (co (foldl (\<lambda>s i. start_task plans i s) s idx)) = policy (co s) \<and>
   max_workers (co (foldl (\<lambda>s i. start_task plans i s) s idx)) = max_workers (co s) \<and>
   max_groups (co (foldl (\<lambda>s i. start_task plans i s) s idx)) = max_groups (co s) \<and>
   active (foldl (\<lambda>s i. start_task plans i s) s idx) = active s @ idx"
  by (induction idx arbitrary: s) simp_all

lemma foldl_start_pending:
  "distinct (pending s) \<Longrightarrow>
   set (pending (foldl (\<lambda>s i. start_task plans i s) s idx)) = set (pending s) - set idx \<and>
   distinct (pending (foldl (\<lambda>s i. start_task plans i s) s idx))"
  by (induction idx arbitrary: s) auto

lemma wave_invD:
  "wave_inv plans s \<Longrightarrow> set (indices_of plans g) \<subseteq> set (pending s) \<or> set (indices_of plans g) \<inter> set (pending s) = {}"
  by (simp add: wave_inv_def)

lemma admit_wave_inv:
  assumes inv: "loop_inv plans s" and w: "waves s" and held: "held_groups s = []" and i: "i \<in> set (pending s)"
  shows "loop_inv plans (admit_wave plans (indices_of plans (grp plans i)) (grp plans i) s)"
proof -
  let ?g = "grp plans i" and ?idx = "indices_of plans (grp plans i)"
  let ?t = "admit_wave plans ?idx ?g s"
  have act: "active s = []" using inv held by (auto simp: loop_inv_defs)
  have lt: "i < length plans" using inv i by (auto simp: loop_inv_defs)
  then have "i \<in> set ?idx" by (simp add: indices_of_set)
  with inv w i wave_invD [of plans s ?g] have sub: "set ?idx \<subseteq> set (pending s)"
    by (auto simp: loop_inv_def)
  have dp: "distinct (pending s)" using inv by (simp add: loop_inv_defs)
  note frame = foldl_start_frame [of plans "hold ?g s" ?idx]
  have pend: "set (pending ?t) = set (pending s) - set ?idx" "distinct (pending ?t)"
    using foldl_start_pending [of "hold ?g s" plans ?idx] dp by (simp_all add: admit_wave_def)
  have held': "held_groups ?t = [?g]" using frame held by (simp add: admit_wave_def hold_def)
  have part: "part_inv plans ?t"
    using inv frame act sub pend by (auto simp: loop_inv_defs admit_wave_def)
  have cnt: "count_inv plans ?t" using inv frame by (simp add: loop_inv_defs admit_wave_def)
  have hld: "held_inv plans ?t"
    using frame act held' by (auto simp: held_inv_def admit_wave_def indices_of_set)
  have disj: "g = ?g \<or> set (indices_of plans g) \<inter> set ?idx = {}" for g
    by (auto simp: indices_of_set)
  have "set (indices_of plans g) \<subseteq> set (pending ?t) \<or> set (indices_of plans g) \<inter> set (pending ?t) = {}" for g
    using disj [of g] wave_invD [of plans s g] inv w pend(1) unfolding loop_inv_def by blast
  then have "wave_inv plans ?t" using held' pend(1) by (auto simp: wave_inv_def)
  with part cnt hld show ?thesis by (simp add: loop_inv_def)
qed

subsection \<open>Settlement\<close>

text \<open>When the completed count of a group reaches its size, all its plans are settled.\<close>

lemma group_complete:
  assumes "part_inv plans s" "count_inv plans s" "completed s g = length (indices_of plans g)"
  shows "set (indices_of plans g) \<subseteq> dom (results s)"
proof -
  let ?R = "{i \<in> dom (results s). grp plans i = g}" and ?I = "set (indices_of plans g)"
  have "?R \<subseteq> ?I" using assms(1) by (auto simp: part_inv_def indices_of_set)
  moreover have "card ?R = card ?I"
    using assms(2,3) by (simp add: count_inv_def distinct_card)
  ultimately have "?R = ?I" by (simp add: card_subset_eq)
  then show ?thesis by auto
qed

lemma part_inv_settled:
  assumes "part_inv plans s" "i \<in> set (active s)" "res_identity r = plan_identity (plans ! i)"
    "pending t = pending s" "active t = remove1 i (active s)" "results t = (results s)(i \<mapsto> r)"
  shows "part_inv plans t"
  using assms by (auto simp: part_inv_def)

lemma count_inv_settled:
  assumes "part_inv plans s" "count_inv plans s" "i \<in> set (active s)" "results t = (results s)(i \<mapsto> r)"
    "completed t = (completed s)(grp plans i := Suc (completed s (grp plans i)))"
  shows "count_inv plans t"
  unfolding count_inv_def
proof
  fix g
  let ?R = "\<lambda>s. {j \<in> dom (results s). grp plans j = g}"
  have fin: "finite (?R s)"
    using assms(1) by (rule_tac finite_subset [of _ "{..< length plans}"]) (auto simp: part_inv_def)
  have new: "i \<notin> ?R s" using assms(1,3) by (auto simp: part_inv_def)
  have "?R t = (if grp plans i = g then insert i (?R s) else ?R s)"
    using assms(4) by auto
  with fin new have "card (?R t) = (if grp plans i = g then Suc (card (?R s)) else card (?R s))"
    by (cases "grp plans i = g") (simp_all add: card_insert_disjoint [OF fin new] del: mem_Collect_eq)
  with assms(2,5) show "completed t g = card (?R t)" by (simp add: count_inv_def)
qed

lemma settle_inv:
  assumes "loop_inv plans s"
  shows "loop_inv plans (settle plans str_of s d)"
proof (cases "done_index d \<in> set (active s)")
  case False
  with assms show ?thesis by (simp add: settle_def)
next
  case True
  let ?i = "done_index d" and ?g = "grp plans (done_index d)"
  let ?r = "execute_episode (plans ! ?i) (done_outcome d)"
  define u where "u = note_failures str_of ?r (book_result plans ?i ?r s)"
  define v where "v = u\<lparr>completed := (completed u)(?g := Suc (completed u ?g))\<rparr>"
  have u: "pending u = pending s" "active u = remove1 ?i (active s)" "results u = (results s)(?i \<mapsto> ?r)"
    "completed u = completed s" "held_groups u = held_groups s" "policy (co u) = policy (co s)"
    by (simp_all add: u_def)
  have v: "pending v = pending s" "active v = remove1 ?i (active s)" "results v = (results s)(?i \<mapsto> ?r)"
    "completed v = (completed s)(?g := Suc (completed s ?g))" "held_groups v = held_groups s"
    "policy (co v) = policy (co s)"
    using u by (simp_all add: v_def)
  have pv: "part_inv plans v"
    using assms by (intro part_inv_settled [OF _ True _ v(1-3)]) (simp_all add: loop_inv_def)
  have cv: "count_inv plans v"
    using assms by (intro count_inv_settled [OF _ _ True v(3,4)]) (simp_all add: loop_inv_def)
  have hv: "held_inv plans v"
    using assms v by (auto simp: loop_inv_def held_inv_def dest: notin_set_remove1)
  have wv: "waves v \<Longrightarrow> wave_inv plans v"
    using assms v by (simp add: loop_inv_def wave_inv_def waves_def)
  define w where "w = (if completed v ?g = length (indices_of plans ?g)
    then let x = (if waves v then close_wave plans d ?g v else v)
         in x\<lparr>held_groups := remove1 ?g (held_groups x)\<rparr> else v)"
  have w: "pending w = pending v" "active w = active v" "results w = results v" "completed w = completed v"
    "policy (co w) = policy (co v)"
    "held_groups w = (if completed v ?g = length (indices_of plans ?g) then remove1 ?g (held_groups v)
                      else held_groups v)"
    by (simp_all add: w_def Let_def)
  have "\<forall>j \<in> set (active v). grp plans j \<noteq> ?g" if "completed v ?g = length (indices_of plans ?g)"
  proof
    fix j
    assume j: "j \<in> set (active v)"
    with pv have "j < length plans" "j \<notin> dom (results v)" by (auto simp: part_inv_def)
    with group_complete [OF pv cv that] show "grp plans j \<noteq> ?g" by (auto simp: indices_of_set)
  qed
  with hv w have hw: "held_inv plans w" by (auto simp: held_inv_def)
  have ww: "waves w \<Longrightarrow> wave_inv plans w"
    using wv w hv by (auto simp: wave_inv_def waves_def held_inv_def split: if_splits)
  have "loop_inv plans w"
    using pv cv hw ww w part_inv_cong [of w v] by (auto simp: loop_inv_def count_inv_def)
  moreover have "settle plans str_of s d = w\<lparr>co := log_event ''episode_finished'' (Some ?i) (co w)\<rparr>"
    using True by (simp add: settle_unfold settle_group_def Let_def u_def v_def w_def)
  ultimately show ?thesis by (simp add: loop_inv_cong [of "w\<lparr>co := log_event ''episode_finished'' (Some ?i) (co w)\<rparr>" w])
qed

subsection \<open>The loop keeps the invariant\<close>

lemma loop_inv_token [simp]: "loop_inv plans (s\<lparr>token := t\<rparr>) = loop_inv plans s"
  by (rule loop_inv_cong) simp_all

lemma loop_inv_stopped [simp]: "loop_inv plans (s\<lparr>stopped := t\<rparr>) = loop_inv plans s"
  by (rule loop_inv_cong) simp_all

lemma loop_inv_note_cancel [simp]: "loop_inv plans (note_cancel s) = loop_inv plans s"
  by (rule loop_inv_cong) simp_all

lemma foldl_settle_inv: "loop_inv plans s \<Longrightarrow> loop_inv plans (foldl (settle plans str_of) s ds)"
  by (induction ds arbitrary: s) (simp_all add: settle_inv)

definition limits_inv :: "run_state \<Rightarrow> bool" where
  "limits_inv s \<longleftrightarrow> int (length (active s)) \<le> max_workers (co s) \<and> int (length (held_groups s)) \<le> max_groups (co s)"

lemma policy_exclusive: "native s \<Longrightarrow> \<not> waves s"
  by (simp add: native_def waves_def)

lemma admit_native_policy: "policy (co (admit_native plans is b s)) = policy (co s)"
  by (induction plans "is" b s rule: admit_native.induct) (auto simp: Let_def)

lemma admit_native_inv:
  assumes "loop_inv plans s" "limits_inv s" "\<not> waves s"
  shows "loop_inv plans (admit_native plans (pending s) [] s) \<and> limits_inv (admit_native plans (pending s) [] s)"
proof -
  have "native_core plans s" using assms by (simp add: native_core_def loop_inv_def limits_inv_def)
  then have "native_core plans (admit_native plans (pending s) [] s)"
    using assms(1) by (intro admit_native_core) (auto simp: loop_inv_defs)
  moreover have "\<not> waves (admit_native plans (pending s) [] s)"
    using assms(3) by (simp add: waves_def admit_native_policy)
  ultimately show ?thesis by (simp add: native_core_def loop_inv_def limits_inv_def)
qed

text \<open>The validated shape of the waves: every group has at most \<open>max_workers\<close> plans.\<close>

definition groups_bounded :: "episode_plan list \<Rightarrow> run_state \<Rightarrow> bool" where
  "groups_bounded plans s \<longleftrightarrow>
     (waves s \<longrightarrow> 1 \<le> max_groups (co s) \<and>
       (\<forall>i < length plans. int (length (indices_of plans (grp plans i))) \<le> max_workers (co s)))"

lemma admit_wave_limits:
  assumes "loop_inv plans s" "groups_bounded plans s" "waves s" "held_groups s = []" "i \<in> set (pending s)"
  shows "limits_inv (admit_wave plans (indices_of plans (grp plans i)) (grp plans i) s)"
proof -
  have "active s = []" using assms(1,4) by (auto simp: loop_inv_defs)
  moreover have "i < length plans" using assms(1,5) by (auto simp: loop_inv_defs)
  ultimately show ?thesis
    using assms foldl_start_frame [of plans "hold (grp plans i) s" "indices_of plans (grp plans i)"]
    by (simp add: limits_inv_def admit_wave_def groups_bounded_def hold_def)
qed

definition safe_state :: "episode_plan list \<Rightarrow> run_state \<Rightarrow> bool" where
  "safe_state plans s \<longleftrightarrow> loop_inv plans s \<and> limits_inv s \<and> groups_bounded plans s"

lemma safe_state_cong:
  assumes "pending t = pending s" "active t = active s" "results t = results s" "completed t = completed s"
    "held_groups t = held_groups s" "policy (co t) = policy (co s)" "max_workers (co t) = max_workers (co s)"
    "max_groups (co t) = max_groups (co s)"
  shows "safe_state plans t = safe_state plans s"
  using assms loop_inv_cong [of t s plans] by (simp add: safe_state_def limits_inv_def groups_bounded_def waves_def)

lemma settle_config [simp]:
  "policy (co (settle plans str_of s d)) = policy (co s)"
  "max_workers (co (settle plans str_of s d)) = max_workers (co s)"
  "max_groups (co (settle plans str_of s d)) = max_groups (co s)"
  by (cases "done_index d \<in> set (active s)"; simp add: settle_unfold settle_skip Let_def)+

lemma settle_shrinks:
  "length (active (settle plans str_of s d)) \<le> length (active s)"
  "length (held_groups (settle plans str_of s d)) \<le> length (held_groups s)"
proof -
  show "length (active (settle plans str_of s d)) \<le> length (active s)"
    by (simp add: settle_frame length_remove1)
  have "length (held_groups (settle_group plans d t)) \<le> length (held_groups t)" for t
    by (simp add: settle_group_def Let_def length_remove1)
  from this [of "note_failures str_of r (book_result plans i r s)" for r i]
  show "length (held_groups (settle plans str_of s d)) \<le> length (held_groups s)"
    by (cases "done_index d \<in> set (active s)") (simp_all add: settle_unfold settle_skip Let_def)
qed

lemma settle_safe_state: "safe_state plans s \<Longrightarrow> safe_state plans (settle plans str_of s d)"
  using settle_shrinks [of plans str_of s d]
  by (auto simp: safe_state_def settle_inv limits_inv_def groups_bounded_def waves_def)

lemma foldl_settle_safe_state: "safe_state plans s \<Longrightarrow> safe_state plans (foldl (settle plans str_of) s ds)"
  by (induction ds arbitrary: s) (simp_all add: settle_safe_state)

lemma admit_native_config:
  "max_workers (co (admit_native plans is b s)) = max_workers (co s)"
  "max_groups (co (admit_native plans is b s)) = max_groups (co s)"
  by (induction plans "is" b s rule: admit_native.induct) (auto simp: Let_def)

lemma admit_wave_safe_state:
  assumes "safe_state plans s" "waves s" "held_groups s = []" "i \<in> set (pending s)"
  shows "safe_state plans (admit_wave plans (indices_of plans (grp plans i)) (grp plans i) s)"
  using assms admit_wave_inv [of plans s i] admit_wave_limits [of plans s i]
    foldl_start_frame [of plans "hold (grp plans i) s" "indices_of plans (grp plans i)"]
  by (simp add: safe_state_def groups_bounded_def waves_def admit_wave_def)

lemma safe_state_updates [simp]:
  "safe_state plans (s\<lparr>token := t\<rparr>) = safe_state plans s"
  "safe_state plans (s\<lparr>stopped := x\<rparr>) = safe_state plans s"
  "safe_state plans (note_cancel s) = safe_state plans s"
  by (rule safe_state_cong; simp)+

lemma lifecycle_cancelled_safe [simp]: "safe_state plans (lifecycle_cancelled s) = safe_state plans s"
  by (rule safe_state_cong) (simp_all add: lifecycle_cancelled_def Let_def)

lemma admission_safe_state:
  assumes "safe_state plans s"
  shows "case admission plans env s of Loop t \<Rightarrow> safe_state plans t | Exit t \<Rightarrow> safe_state plans t"
proof (cases "stopped s = None \<and> waves s \<and> pending s \<noteq> [] \<and> held_groups s = []")
  case True
  then obtain i rest where p: "pending s = i # rest" by (cases "pending s") auto
  let ?t = "s\<lparr>token := cancel_opt (cancel_admit env) (token s)\<rparr>"
  have "safe_state plans (admit_wave plans (indices_of plans (grp plans i)) (grp plans i) ?t)"
    using assms True p by (intro admit_wave_safe_state) (simp_all add: waves_def)
  with assms True p show ?thesis
    by (simp add: admission_def Let_def split: hook_outcome.split)
next
  case False
  show ?thesis
  proof (cases "stopped s = None \<and> \<not> waves s")
    case True
    with assms admit_native_inv [of plans s]
    have "safe_state plans (admit_native plans (pending s) [] s)"
      by (simp add: safe_state_def groups_bounded_def waves_def admit_native_policy)
    with True show ?thesis by (simp add: admission_def)
  next
    case no: False
    with False assms show ?thesis by (auto simp: admission_def split: list.split)
  qed
qed

text \<open>What an iteration that goes on has done, for the proofs about loop states.\<close>

lemma iterate_LoopE:
  assumes "iterate plans str_of env s = Loop t"
  obtains u where
    "admission plans env (note_cancel (s\<lparr>token := cancel_opt (cancel_before env) (token s)\<rparr>)) = Loop u"
    "active u \<noteq> []" "wait_result env = Wait_cancelled" "t = u\<lparr>token := cancel ''coordinator_cancelled'' (token u)\<rparr>"
  | u ds where
    "admission plans env (note_cancel (s\<lparr>token := cancel_opt (cancel_before env) (token s)\<rparr>)) = Loop u"
    "active u \<noteq> []" "wait_result env = Done ds"
    "t = foldl (settle plans str_of) (u\<lparr>token := cancel_opt (cancel_wait env) (token u)\<rparr>) ds"
proof -
  obtain u where u: "admission plans env (note_cancel (s\<lparr>token := cancel_opt (cancel_before env) (token s)\<rparr>)) = Loop u"
    using assms by (cases "admission plans env (note_cancel (s\<lparr>token := cancel_opt (cancel_before env) (token s)\<rparr>))")
      (simp_all add: iterate_def split: if_split_asm)
  with assms have act: "active u \<noteq> []" and go: "\<not> (draining u \<and> deadline_passed env)"
    by (simp_all add: iterate_def split: if_split_asm)
  show thesis
  proof (cases "wait_result env")
    case Wait_cancelled
    with assms u act go that(1) show thesis by (simp add: iterate_def split: if_split_asm)
  next
    case (Done ds)
    with assms u act go that(2) show thesis by (simp add: iterate_def split: if_split_asm)
  qed
qed

lemma iterate_safe_state:
  assumes "safe_state plans s" "iterate plans str_of env s = Loop t"
  shows "safe_state plans t"
proof -
  let ?s = "note_cancel (s\<lparr>token := cancel_opt (cancel_before env) (token s)\<rparr>)"
  have adm: "safe_state plans u" if "admission plans env ?s = Loop u" for u
    using admission_safe_state [of plans ?s env] assms(1) that by simp
  from assms(2) show ?thesis
    by (cases rule: iterate_LoopE) (simp_all add: adm foldl_settle_safe_state)
qed

lemma reaches_safe_state: "reaches plans str_of s0 s \<Longrightarrow> safe_state plans s0 \<Longrightarrow> safe_state plans s"
  by (induction rule: reaches.induct) (auto intro: iterate_safe_state)

section \<open>Every plan gets its own result\<close>

lemma foldl_abandon_results:
  "results (foldl (\<lambda>s i. abandon plans why ev (b s) i (f s)) s idx) i =
     (if i \<in> set idx then Some (unresolved (plans ! i) why) else results s i)"
  if "\<And>s. results (f s) = results s" for f
  using that by (induction idx arbitrary: s) (auto simp: abandon_def Let_def)

lemma foldl_abandon_frame:
  "pending (foldl (\<lambda>s i. abandon plans why ev (b s) i (f s)) s idx) = pending s \<and>
   active (foldl (\<lambda>s i. abandon plans why ev (b s) i (f s)) s idx) = active s"
  if "\<And>s. pending (f s) = pending s" "\<And>s. active (f s) = active s" for f
  using that by (induction idx arbitrary: s) (auto simp: abandon_def Let_def)

lemma drain_timeout_part_inv:
  assumes "part_inv plans s"
  shows "part_inv plans (drain_timeout plans s)"
proof -
  let ?why = "''drain_timeout; worker termination remains unproven''" and ?ev = "Some ''episode_drain_unproven''"
  let ?t = "foldl (\<lambda>s i. abandon plans ?why ?ev (native s) i s) s (active s)"
  have r: "results ?t i = (if i \<in> set (active s) then Some (unresolved (plans ! i) ?why) else results s i)" for i
    using foldl_abandon_results [of "\<lambda>s. s"] by simp
  have p: "pending ?t = pending s" using foldl_abandon_frame [of "\<lambda>s. s"] by simp
  have "dom (results ?t) = dom (results s) \<union> set (active s)"
    by (auto simp: dom_def r)
  moreover have "pending (drain_timeout plans s) = pending s" "active (drain_timeout plans s) = []"
    "results (drain_timeout plans s) = results ?t"
    using p by (simp_all add: drain_timeout_def Let_def)
  ultimately show ?thesis using assms by (auto simp: part_inv_def r)
qed

lemma iterate_exit_part_inv:
  assumes "safe_state plans s" "iterate plans str_of env s = Exit t"
  shows "part_inv plans t"
proof -
  let ?s = "note_cancel (s\<lparr>token := cancel_opt (cancel_before env) (token s)\<rparr>)"
  have parts: "part_inv plans u" if "safe_state plans u" for u
    using that by (simp add: safe_state_def loop_inv_def)
  show ?thesis
    using assms admission_safe_state [of plans ?s env] parts
    by (auto simp: iterate_def intro: drain_timeout_part_inv
        split: if_splits loop_ctl.splits wait_outcome.splits)
qed

text \<open>Two states that agree on everything the invariants read.\<close>

definition same_core :: "run_state \<Rightarrow> run_state \<Rightarrow> bool" where
  "same_core t s \<longleftrightarrow>
     (pending t, active t, results t, completed t, held_groups t, policy (co t), max_workers (co t),
      max_groups (co t), reserved (co t), quarantined (co t), capacities (co t)) =
     (pending s, active s, results s, completed s, held_groups s, policy (co s), max_workers (co s),
      max_groups (co s), reserved (co s), quarantined (co s), capacities (co s))"

lemma same_core_updates [simp]:
  "same_core (s\<lparr>token := t\<rparr>) s" "same_core (s\<lparr>stopped := x\<rparr>) s" "same_core (s\<lparr>started := xs\<rparr>) s"
  "same_core (lifecycle_failed ty msg s) s" "same_core (lifecycle_cancelled s) s"
  by (simp_all add: same_core_def lifecycle_failed_def lifecycle_cancelled_def Let_def)

lemma same_core_trans: "same_core u t \<Longrightarrow> same_core t s \<Longrightarrow> same_core u s"
  by (simp add: same_core_def)

lemma same_core_refl [simp]: "same_core s s"
  by (simp add: same_core_def)

fun ctl_state :: "loop_ctl \<Rightarrow> run_state" where
  "ctl_state (Loop s) = s"
| "ctl_state (Exit s) = s"

lemma start_backends_same_core: "same_core (ctl_state (start_backends backends bs s)) s"
proof (induction bs arbitrary: s)
  case (Cons b bs)
  obtain bench why hook where b: "b = (bench, why, hook)" by (cases b)
  have step: "same_core t s \<Longrightarrow> same_core (ctl_state (start_backends backends bs t)) s" for t
    using Cons.IH same_core_trans by blast
  have fails: "same_core t s \<Longrightarrow> same_core (lifecycle_failed ty msg t) s"
    "same_core t s \<Longrightarrow> same_core (lifecycle_cancelled t) s" for t ty msg
    using same_core_updates same_core_trans by blast+
  have upd: "same_core (s\<lparr>token := t, started := xs\<rparr>) s" "same_core (s\<lparr>token := t, stopped := x\<rparr>) s" for t xs x
    by (simp_all add: same_core_def)
  show ?case
    by (simp add: b Let_def split: option.split hook_outcome.split) (auto intro!: step fails upd)
qed simp

lemma close_backend_frame:
  "pending (snd (close_backend wc s)) = pending s \<and> active (snd (close_backend wc s)) = active s \<and>
   results (snd (close_backend wc s)) = results s"
  by (cases "snd wc") (simp_all add: close_backend_def Let_def)

lemma close_backends_frame:
  "pending (close_backends env bs s) = pending s \<and> active (close_backends env bs s) = active s \<and>
   results (close_backends env bs s) = results s"
proof (induction bs arbitrary: s)
  case (Cons b bs)
  obtain f t where ft: "close_backend (env b) s = (f, t)" by (cases "close_backend (env b) s")
  with close_backend_frame [of "env b" s] Cons.IH show ?case by (cases f) simp_all
qed simp

lemma reject_pending_results:
  "results (reject_pending plans s) i =
     (if i \<in> set (pending s) then Some (not_admitted (plans ! i) (or_else (stopped s) ''not_admitted''))
      else results s i)"
proof -
  let ?f = "\<lambda>s i. s\<lparr>results := (results s)(i \<mapsto> not_admitted (plans ! i) (or_else (stopped s) ''not_admitted'')),
                    co := log_event ''episode_not_admitted'' (Some i) (co s)\<rparr>"
  have "results (foldl ?f s idx) i =
     (if i \<in> set idx then Some (not_admitted (plans ! i) (or_else (stopped s) ''not_admitted''))
      else results s i)" for idx
    by (induction idx arbitrary: s) auto
  then show ?thesis by (simp add: reject_pending_def)
qed

lemma finalize_results:
  assumes "part_inv plans s" "i < length plans"
  shows "\<exists>r. results (finalize plans cl s) i = Some r \<and> res_identity r = plan_identity (plans ! i)"
proof -
  let ?why = "or_else (stopped s) ''coordinator_infrastructure_failure''"
  let ?f = "\<lambda>s. s\<lparr>token := cancel ?why (token s)\<rparr>"
  define t where "t = abandon_active plans s"
  have t: "results t j = (if j \<in> set (active s) then Some (unresolved (plans ! j) ?why) else results s j)"
    "pending t = pending s" for j
    using foldl_abandon_results [of ?f plans ?why None "\<lambda>_. True" s "active s" j]
      foldl_abandon_frame [of ?f plans ?why None "\<lambda>_. True" s "active s"]
    by (simp_all add: t_def abandon_active_def Let_def)
  define u where "u = (let v = (if draining_tasks (co t) = [] then close_backends cl (rev (started t)) t else t)
     in if cancelled (token v) then v\<lparr>stopped := py_or (py_or (stopped v) (reason (token v))) (Some ''cancelled'')\<rparr> else v)"
  have u: "results u = results t" "pending u = pending t"
    by (simp_all add: u_def Let_def close_backends_frame)
  have f: "finalize plans cl s = reject_pending plans u"
    by (simp add: finalize_def Let_def u_def t_def)
  from assms have "i \<in> set (pending s) \<or> i \<in> set (active s) \<or> i \<in> dom (results s)"
    by (auto simp: part_inv_def)
  with assms(1) show ?thesis
    by (auto simp: f reject_pending_results u t part_inv_def)
qed

lemma ordered_results_finalize:
  assumes "part_inv plans s"
  shows "\<exists>out. ordered_results plans (finalize plans cl s) = Inr out \<and>
    map res_identity out = map plan_identity plans"
proof -
  let ?t = "finalize plans cl s"
  let ?out = "map (\<lambda>i. the (results ?t i)) [0 ..< length plans]"
  have "ordered_results plans ?t = Inr ?out"
    unfolding ordered_results_def
    using finalize_results [OF assms, of _ cl] by (intro mapE_all_Inr) force
  moreover have "map res_identity ?out = map plan_identity plans"
    using finalize_results [OF assms, of _ cl] by (intro nth_equalityI) force+
  ultimately show ?thesis by blast
qed

lemma validate_run_groups_bounded:
  assumes "validate_run c backends plans = Inr c'" "1 \<le> max_groups c"
  shows "safe_state plans (init_state plans c' tok) \<longleftrightarrow> 0 \<le> max_workers c"
proof -
  have "c' = c\<lparr>coordinator_used := True\<rparr>" "policy c = ''terminal-waves'' \<Longrightarrow> wave_groups_fit c plans"
    using assms(1) by (auto simp: validate_run_def split: if_splits)
  with assms(2) loop_inv_init [of plans c' tok] show ?thesis
    by (auto simp: safe_state_def limits_inv_def groups_bounded_def init_state_def waves_def
        wave_groups_fit_def list_all_iff Let_def)
qed

lemma run_body_part_inv:
  assumes "safe_state plans s" "run_body plans str_of backends inp fuel s = Some t"
  shows "\<exists>u. part_inv plans u \<and> t = finalize plans (closing inp) u"
proof -
  let ?bs = "map (\<lambda>b. (b, starting inp b)) (benchmarks_of plans)"
  have keep: "safe_state plans v"
    if "start_backends backends ?bs s = Loop v \<or> start_backends backends ?bs s = Exit v" for v
    using assms(1) start_backends_same_core [of backends ?bs s] that safe_state_cong [of v s plans]
    by (auto simp: same_core_def)
  show ?thesis
  proof (cases "start_backends backends ?bs s")
    case (Exit v)
    with keep have "part_inv plans v" by (simp add: safe_state_def loop_inv_def)
    with Exit assms(2) show ?thesis by (auto simp: run_body_def)
  next
    case (Loop v)
    with assms(2) obtain w where w: "run_loop plans str_of (scheduler inp) fuel v = Some w"
      "t = finalize plans (closing inp) w"
      by (auto simp: run_body_def)
    then obtain x where "reaches plans str_of v x" "iterate plans str_of (scheduler inp x) x = Exit w"
      using run_loop_reaches by blast
    with keep Loop have "part_inv plans w"
      using reaches_safe_state iterate_exit_part_inv by blast
    with w(2) show ?thesis by blast
  qed
qed

text \<open>
  C1. A run that ends returns one result per plan, in the order of the plans, each carrying the
  identity of its own plan: under both policies, whatever the backends, the hooks, the
  cancellations and the drain deadline do, no result is lost, duplicated or swapped and the
  final lookup of a result never fails.
\<close>

theorem run_returns_every_result:
  assumes "Coordinator workers groups caps dt pol = Inr c" "validate_run c backends plans = Inr c'"
  shows "\<exists>out. run_coordinator c backends plans tok str_of inp fuel = Inr out \<and>
    (\<forall>ordered summary. out = Some (ordered, summary) \<longrightarrow>
       map res_identity ordered = map plan_identity plans \<and> result_count summary = length plans)"
proof -
  have "1 \<le> max_groups c" "0 \<le> max_workers c"
    using assms(1) by (auto simp: Coordinator_def split: if_splits)
  with validate_run_groups_bounded [OF assms(2), of tok]
  have safe: "safe_state plans (init_state plans c' tok)" by simp
  show ?thesis
  proof (cases "run_body plans str_of backends inp fuel (init_state plans c' tok)")
    case None
    with assms(2) show ?thesis by (simp add: run_coordinator_def)
  next
    case (Some t)
    then obtain u where "part_inv plans u" "t = finalize plans (closing inp) u"
      using run_body_part_inv [OF safe] by blast
    then obtain out where out: "ordered_results plans t = Inr out" "map res_identity out = map plan_identity plans"
      using ordered_results_finalize by blast
    then have "length out = length plans" by (metis length_map)
    with assms(2) Some out show ?thesis by (simp add: run_coordinator_def summarise_def)
  qed
qed

text \<open>
  In every loop state a run can reach, at most \<open>max_workers\<close> episodes are active, at most
  \<open>max_groups\<close> groups are held, and the group of every active episode is held.
\<close>

theorem run_limits:
  assumes "Coordinator workers groups caps dt pol = Inr c" "validate_run c backends plans = Inr c'"
    and "reaches plans str_of (init_state plans c' tok) s"
  shows "int (length (active s)) \<le> max_workers (co s) \<and> int (length (held_groups s)) \<le> max_groups (co s) \<and>
    (\<forall>i \<in> set (active s). grp plans i \<in> set (held_groups s))"
proof -
  have "1 \<le> max_groups c" "0 \<le> max_workers c"
    using assms(1) by (auto simp: Coordinator_def split: if_splits)
  with validate_run_groups_bounded [OF assms(2), of tok] reaches_safe_state [OF assms(3)]
  have "safe_state plans s" by simp
  then show ?thesis by (auto simp: safe_state_def limits_inv_def loop_inv_def held_inv_def)
qed

end
