(* ===== verification/Coordinator_Ledger.thy ===== *)
theory Coordinator_Ledger
  imports Coordinator_Safety
begin

text \<open>
  The reservation ledger along a run: what is reserved is exactly what the running episodes (or,
  under terminal waves, the held groups) need plus what is quarantined, and no executor is ever
  reserved beyond its capacity. The capacity part rests on the \<open>executor_ledger\<close>
  interpretation of the ledger contract.
\<close>

declare split_paired_All [simp del]

definition demand :: "episode_plan list \<Rightarrow> nat list \<Rightarrow> string \<times> qkey \<Rightarrow> rat" where
  "demand plans idx ek = sum_list (map (\<lambda>i. need (res_of plans i) ek) idx)"

lemma demand_simps [simp]:
  "demand plans [] ek = 0"
  "demand plans (i # idx) ek = need (res_of plans i) ek + demand plans idx ek"
  "demand plans (a @ b) ek = demand plans a ek + demand plans b ek"
  by (simp_all add: demand_def)

lemma demand_remove1: "i \<in> set idx \<Longrightarrow> demand plans (remove1 i idx) ek = demand plans idx ek - need (res_of plans i) ek"
  by (induction idx) auto

lemma demand_concat_remove1:
  "g \<in> set gs \<Longrightarrow> demand plans (concat (map f (remove1 g gs))) ek =
     demand plans (concat (map f gs)) ek - demand plans (f g) ek"
  by (induction gs) auto

definition booked :: "episode_plan list \<Rightarrow> run_state \<Rightarrow> nat list" where
  "booked plans s = (if waves s then concat (map (indices_of plans) (held_groups s)) else active s)"

definition conserved :: "episode_plan list \<Rightarrow> run_state \<Rightarrow> bool" where
  "conserved plans s \<longleftrightarrow>
     (\<forall>ek. reserved_amount (co s) ek = quarantined_amount (co s) ek + demand plans (booked plans s) ek) \<and>
     (waves s \<longrightarrow> stopped s = None \<longrightarrow> (\<forall>ek. quarantined_amount (co s) ek = 0))"

definition feasible :: "episode_plan list \<Rightarrow> run_state \<Rightarrow> bool" where
  "feasible plans s \<longleftrightarrow> (native s \<or> waves s) \<and> (\<forall>p \<in> set plans. nonneg_resources (ts_resources (plan_task p))) \<and>
     (waves s \<longrightarrow> (\<forall>i < length plans. \<forall>ek q. capacity_limit (co s) ek = Some q \<longrightarrow>
        demand plans (indices_of plans (grp plans i)) ek \<le> q))"

definition ledger_ok :: "episode_plan list \<Rightarrow> run_state \<Rightarrow> bool" where
  "ledger_ok plans s \<longleftrightarrow> conserved plans s \<and> feasible plans s \<and> executor_ledger.in_limits (co s)"

lemma in_limits_cong:
  "reserved_amount c = reserved_amount c' \<Longrightarrow> capacity_limit c = capacity_limit c' \<Longrightarrow>
   executor_ledger.in_limits c = executor_ledger.in_limits c'"
  by (simp add: executor_ledger.in_limits_def)

lemma in_limits_log [simp]: "executor_ledger.in_limits (log_event n p c) = executor_ledger.in_limits c"
  by (rule in_limits_cong) simp_all

lemma in_limits_quarantine [simp]: "executor_ledger.in_limits (quarantine r c) = executor_ledger.in_limits c"
  by (rule in_limits_cong) simp_all

lemma feasible_cong:
  "policy (co t) = policy (co s) \<Longrightarrow> capacity_limit (co t) = capacity_limit (co s) \<Longrightarrow>
   feasible plans t = feasible plans s"
  by (simp add: feasible_def native_def waves_def)

lemma feasible_nonneg: "feasible plans s \<Longrightarrow> i < length plans \<Longrightarrow> nonneg_resources (res_of plans i)"
  by (simp add: feasible_def res_of_def)

lemma ledger_ok_cong:
  assumes "reserved_amount (co t) = reserved_amount (co s)" "quarantined_amount (co t) = quarantined_amount (co s)"
    "capacity_limit (co t) = capacity_limit (co s)" "policy (co t) = policy (co s)"
    "booked plans t = booked plans s" "stopped t = None \<Longrightarrow> stopped s = None"
  shows "ledger_ok plans s \<Longrightarrow> ledger_ok plans t"
  using assms feasible_cong [of t s plans] in_limits_cong [of "co t" "co s"]
  by (auto simp: ledger_ok_def conserved_def waves_def)

section \<open>Native groups\<close>

lemma start_task_ledger:
  assumes "ledger_ok plans s" "\<not> waves s" "fits (co s) (res_of plans i)"
  shows "ledger_ok plans (start_task plans i (hold g s))"
proof -
  let ?t = "start_task plans i (hold g s)"
  have w: "\<not> waves ?t" using assms(2) by (simp add: waves_def)
  have r: "reserved_amount (co ?t) ek = reserved_amount (co s) ek + need (res_of plans i) ek"
    "quarantined_amount (co ?t) = quarantined_amount (co s)" "capacity_limit (co ?t) = capacity_limit (co s)" for ek
    by (simp_all add: start_task_def reserved_charge)
  have "executor_ledger.in_limits (co ?t)"
    using assms executor_ledger.in_limits_admit [of "co s" "res_of plans i"]
    by (simp add: start_task_def ledger_ok_def)
  moreover have "conserved plans ?t"
    using assms(1,2) w r by (simp add: ledger_ok_def conserved_def booked_def)
  moreover have "feasible plans ?t"
    using assms(1) r feasible_cong [of ?t s] by (simp add: ledger_ok_def)
  ultimately show ?thesis by (simp add: ledger_ok_def)
qed

lemma admit_native_ledger:
  "ledger_ok plans s \<Longrightarrow> \<not> waves s \<Longrightarrow> ledger_ok plans (admit_native plans is b s)"
proof (induction plans "is" b s rule: admit_native.induct)
  case (2 plans i "is" b s)
  have "\<not> waves (start_task plans i (hold (grp plans i) s))" using "2.prems" by (simp add: waves_def)
  with 2 start_task_ledger [of plans s i "grp plans i"] show ?case
    by (auto simp: Let_def simp del: start_task_frame hold_frame)
qed simp

text \<open>Moving one running episode out of the native ledger, safely or into quarantine.\<close>

lemma book_result_ledger:
  assumes "ledger_ok plans s" "i \<in> set (active s)" "i < length plans"
  shows "ledger_ok plans (book_result plans i r s)"
proof (cases "native s")
  case True
  let ?t = "book_result plans i r s"
  have w: "\<not> waves s" "\<not> waves ?t" using True by (simp_all add: native_def waves_def)
  have d: "demand plans (booked plans ?t) ek = demand plans (booked plans s) ek - need (res_of plans i) ek" for ek
    using assms(2) w by (simp add: booked_def demand_remove1)
  have f: "feasible plans ?t"
    using assms(1) feasible_cong [of ?t s] by (simp add: ledger_ok_def book_result_def Let_def)
  have n: "nonneg_resources (res_of plans i)"
    using assms(1,3) feasible_nonneg by (auto simp: ledger_ok_def)
  have lim: "executor_ledger.in_limits (co ?t)"
    using assms(1) True executor_ledger.in_limits_free [OF _ n] by (simp add: ledger_ok_def book_result_def Let_def native_def)
  have "conserved plans ?t"
    unfolding conserved_def d using assms(1) w True
    by (auto simp: book_result_def Let_def reserved_charge quarantined_quarantine ledger_ok_def conserved_def native_def)
  with f lim show ?thesis by (simp add: ledger_ok_def)
next
  case False
  with assms(1) have w: "waves s" by (simp add: ledger_ok_def feasible_def)
  show ?thesis
  proof (rule ledger_ok_cong [OF _ _ _ _ _ _ assms(1)])
    show "booked plans (book_result plans i r s) = booked plans s"
      using w by (simp add: booked_def waves_def)
  qed (use False in \<open>auto simp: book_result_def Let_def native_def split: if_splits\<close>)
qed

lemma note_failures_ledger: "ledger_ok plans s \<Longrightarrow> ledger_ok plans (note_failures f r s)"
  by (rule ledger_ok_cong) (auto simp: booked_def waves_def note_failures_def Let_def split: if_splits)

section \<open>Terminal waves\<close>

lemma fold_free_ledger:
  "reserved_amount (foldl (\<lambda>c i. charge x (res_of plans i) c) c idx) ek = reserved_amount c ek + x * demand plans idx ek \<and>
   quarantined_amount (foldl (\<lambda>c i. charge x (res_of plans i) c) c idx) = quarantined_amount c \<and>
   capacity_limit (foldl (\<lambda>c i. charge x (res_of plans i) c) c idx) = capacity_limit c"
  by (induction idx arbitrary: c) (simp_all add: reserved_charge algebra_simps)

lemma fold_quarantine_ledger:
  "quarantined_amount (foldl (\<lambda>c i. quarantine (res_of plans i) c) c idx) ek = quarantined_amount c ek + demand plans idx ek \<and>
   reserved_amount (foldl (\<lambda>c i. quarantine (res_of plans i) c) c idx) = reserved_amount c \<and>
   capacity_limit (foldl (\<lambda>c i. quarantine (res_of plans i) c) c idx) = capacity_limit c"
  by (induction idx arbitrary: c) (simp_all add: quarantined_quarantine algebra_simps)

lemma fold_free_in_limits:
  "executor_ledger.in_limits c \<Longrightarrow> (\<forall>i \<in> set idx. nonneg_resources (res_of plans i)) \<Longrightarrow>
   executor_ledger.in_limits (foldl (\<lambda>c i. charge (- 1) (res_of plans i) c) c idx)"
  by (induction idx arbitrary: c) (simp_all add: executor_ledger.in_limits_free)

lemma close_wave_ledger:
  assumes "ledger_ok plans s" "waves s" "g \<in> set (held_groups s)"
  shows "ledger_ok plans ((close_wave plans d g s)\<lparr>held_groups := remove1 g (held_groups s)\<rparr>)"
    (is "ledger_ok plans ?t")
proof -
  let ?idx = "indices_of plans g"
  let ?safe = "closure_safe s ?idx (done_closure d)"
  have w: "waves ?t" using assms(2) by (simp add: waves_def)
  have dem: "demand plans (booked plans ?t) ek = demand plans (booked plans s) ek - demand plans ?idx ek" for ek
    using assms(2,3) w by (simp add: booked_def demand_concat_remove1)
  have nn: "\<forall>i \<in> set ?idx. nonneg_resources (res_of plans i)"
    using assms(1) feasible_nonneg by (auto simp: ledger_ok_def indices_of_set)
  have lim: "capacity_limit (co ?t) = capacity_limit (co s)"
    using fold_free_ledger [where plans = plans and x = "- 1"] fold_quarantine_ledger [of plans]
    by (cases ?safe) (simp_all add: close_wave_def Let_def)
  have f: "feasible plans ?t" using assms(1) lim feasible_cong [of ?t s] by (simp add: ledger_ok_def)
  have inl: "executor_ledger.in_limits (co ?t)"
  proof (cases ?safe)
    case True
    with assms(1) fold_free_in_limits [OF _ nn] show ?thesis by (simp add: close_wave_def Let_def ledger_ok_def)
  next
    case False
    with assms(1) fold_quarantine_ledger [of plans]
      in_limits_cong [of "foldl (\<lambda>c i. quarantine (res_of plans i) c) (co s) ?idx" "co s"]
    show ?thesis by (simp add: close_wave_def Let_def ledger_ok_def)
  qed
  have "conserved plans ?t"
    unfolding conserved_def dem
    using assms(1,2) fold_free_ledger [where plans = plans and x = "- 1" and c = "co s" and idx = ?idx] fold_quarantine_ledger [of plans "co s" ?idx]
    by (cases ?safe) (simp_all add: close_wave_def Let_def ledger_ok_def conserved_def)
  with f inl show ?thesis by (simp add: ledger_ok_def)
qed

lemma foldl_start_ledger:
  "reserved_amount (co (foldl (\<lambda>s i. start_task plans i s) s idx)) ek = reserved_amount (co s) ek + demand plans idx ek \<and>
   quarantined_amount (co (foldl (\<lambda>s i. start_task plans i s) s idx)) = quarantined_amount (co s) \<and>
   capacity_limit (co (foldl (\<lambda>s i. start_task plans i s) s idx)) = capacity_limit (co s)"
  by (induction idx arbitrary: s) (simp_all add: start_task_def reserved_charge)

lemma admit_wave_ledger:
  assumes "ledger_ok plans s" "waves s" "held_groups s = []" "stopped s = None" "i < length plans"
  shows "ledger_ok plans (admit_wave plans (indices_of plans (grp plans i)) (grp plans i) s)"
    (is "ledger_ok plans ?t")
proof -
  let ?idx = "indices_of plans (grp plans i)"
  note led = foldl_start_ledger [of plans "hold (grp plans i) s" ?idx]
  note frame = foldl_start_frame [of plans "hold (grp plans i) s" ?idx]
  have w: "waves ?t" using assms(2) frame by (simp add: waves_def admit_wave_def)
  have q0: "quarantined_amount (co s) ek = 0" "reserved_amount (co s) ek = 0" for ek
    using assms(1-4) by (auto simp: ledger_ok_def conserved_def booked_def)
  have bk: "booked plans ?t = ?idx" using w assms(3) frame by (simp add: booked_def admit_wave_def hold_def)
  have res: "reserved_amount (co ?t) ek = demand plans ?idx ek" for ek
    using led q0(2) by (simp add: admit_wave_def)
  have lim: "capacity_limit (co ?t) = capacity_limit (co s)" "quarantined_amount (co ?t) = quarantined_amount (co s)"
    using led by (simp_all add: admit_wave_def)
  have f: "feasible plans ?t"
    using assms(1) lim frame feasible_cong [of ?t s] by (simp add: ledger_ok_def admit_wave_def)
  have "executor_ledger.in_limits (co ?t)"
    using assms(1,2,5) lim res by (auto simp: executor_ledger.in_limits_def ledger_ok_def feasible_def)
  moreover have "conserved plans ?t" using res bk lim q0 by (simp add: conserved_def)
  ultimately show ?thesis using f by (simp add: ledger_ok_def)
qed

section \<open>The loop\<close>

lemma settle_ledger:
  assumes "ledger_ok plans s" "safe_state plans s"
  shows "ledger_ok plans (settle plans str_of s d)"
proof (cases "done_index d \<in> set (active s)")
  case False
  with assms(1) show ?thesis by (simp add: settle_def)
next
  case True
  let ?i = "done_index d" and ?g = "grp plans (done_index d)"
  let ?r = "execute_episode (plans ! ?i) (done_outcome d)"
  have lt: "?i < length plans" using assms(2) True by (auto simp: safe_state_def loop_inv_def part_inv_def)
  define u where "u = note_failures str_of ?r (book_result plans ?i ?r s)"
  define v where "v = u\<lparr>completed := (completed u)(?g := Suc (completed u ?g))\<rparr>"
  have u: "ledger_ok plans u"
    unfolding u_def using assms(1) True lt by (intro note_failures_ledger book_result_ledger)
  have v: "ledger_ok plans v"
    by (rule ledger_ok_cong [OF _ _ _ _ _ _ u]) (simp_all add: v_def booked_def waves_def)
  have held: "?g \<in> set (held_groups v)"
    using assms(2) True by (simp add: v_def u_def safe_state_def loop_inv_def held_inv_def)
  define w where "w = (if completed v ?g = length (indices_of plans ?g)
    then let x = (if waves v then close_wave plans d ?g v else v)
         in x\<lparr>held_groups := remove1 ?g (held_groups x)\<rparr> else v)"
  have "ledger_ok plans w"
  proof (cases "completed v ?g = length (indices_of plans ?g) \<and> waves v")
    case True
    with close_wave_ledger [OF v _ held] show ?thesis by (simp add: w_def)
  next
    case False
    show ?thesis
      by (rule ledger_ok_cong [OF _ _ _ _ _ _ v]) (use False in \<open>auto simp: w_def booked_def waves_def Let_def split: if_splits\<close>)
  qed
  moreover have "settle plans str_of s d = w\<lparr>co := log_event ''episode_finished'' (Some ?i) (co w)\<rparr>"
    using True by (simp add: settle_unfold settle_group_def Let_def u_def v_def w_def)
  moreover have "ledger_ok plans w \<Longrightarrow> ledger_ok plans (w\<lparr>co := log_event ''episode_finished'' (Some ?i) (co w)\<rparr>)"
    by (rule ledger_ok_cong) (simp_all add: booked_def waves_def)
  ultimately show ?thesis by simp
qed

lemma foldl_settle_ledger:
  "ledger_ok plans s \<Longrightarrow> safe_state plans s \<Longrightarrow> ledger_ok plans (foldl (settle plans str_of) s ds)"
  by (induction ds arbitrary: s) (simp_all add: settle_ledger settle_safe_state)

lemma ledger_ok_note_cancel: "ledger_ok plans s \<Longrightarrow> ledger_ok plans (note_cancel s)"
  by (rule ledger_ok_cong) (auto simp: booked_def waves_def note_cancel_def split: if_splits)

lemma ledger_ok_token: "ledger_ok plans s \<Longrightarrow> ledger_ok plans (s\<lparr>token := t\<rparr>)"
  by (rule ledger_ok_cong) (auto simp: booked_def waves_def)

lemma ledger_ok_stop: "ledger_ok plans s \<Longrightarrow> ledger_ok plans (s\<lparr>stopped := Some x\<rparr>)"
  by (rule ledger_ok_cong) (auto simp: booked_def waves_def)

lemma admission_ledger:
  assumes "ledger_ok plans s" "safe_state plans s" "admission plans env s = Loop t"
  shows "ledger_ok plans t"
proof (cases "stopped s = None \<and> waves s \<and> pending s \<noteq> [] \<and> held_groups s = []")
  case True
  then obtain i rest where p: "pending s = i # rest" by (cases "pending s") auto
  let ?t = "s\<lparr>token := cancel_opt (cancel_admit env) (token s)\<rparr>"
  have "i < length plans" using assms(2) p by (auto simp: safe_state_def loop_inv_def part_inv_def)
  then have "ledger_ok plans (admit_wave plans (indices_of plans (grp plans i)) (grp plans i) ?t)"
    using True ledger_ok_token [OF assms(1)] by (intro admit_wave_ledger) (simp_all add: waves_def)
  with assms(3) True p ledger_ok_token [OF assms(1)] ledger_ok_stop show ?thesis
    by (auto simp: admission_def Let_def split: hook_outcome.splits if_splits dest: sym)
      (metis ledger_ok_stop not_None_eq py_or_Some)
next
  case False
  with assms admit_native_ledger [of plans s "pending s" "[]"] show ?thesis
    by (auto simp: admission_def split: if_splits list.splits)
qed

lemma iterate_ledger:
  assumes "ledger_ok plans s" "safe_state plans s" "iterate plans str_of env s = Loop t"
  shows "ledger_ok plans t"
proof -
  let ?s = "note_cancel (s\<lparr>token := cancel_opt (cancel_before env) (token s)\<rparr>)"
  have s: "ledger_ok plans ?s" "safe_state plans ?s"
    using assms(1,2) by (simp_all add: ledger_ok_note_cancel ledger_ok_token)
  have adm: "ledger_ok plans u" "safe_state plans u" if "admission plans env ?s = Loop u" for u
    using admission_ledger [OF s that] admission_safe_state [OF s(2), of env] that by simp_all
  from assms(3) show ?thesis
    by (cases rule: iterate_LoopE) (simp_all add: adm ledger_ok_token foldl_settle_ledger)
qed

lemma reaches_ledger:
  "reaches plans str_of s0 s \<Longrightarrow> ledger_ok plans s0 \<Longrightarrow> safe_state plans s0 \<Longrightarrow> ledger_ok plans s"
  by (induction rule: reaches.induct) (auto intro: iterate_ledger reaches_safe_state)

section \<open>Capacity and conservation\<close>

lemma Coordinator_fresh:
  assumes "Coordinator workers groups caps dt pol = Inr c"
  shows "reserved c = Map.empty" "quarantined c = Map.empty" "capacities c = caps"
    "policy c \<in> {''native-groups'', ''terminal-waves''}" "1 \<le> max_groups c" "1 \<le> max_workers c"
proof -
  let ?c = "\<lparr>policy = pol, max_workers = workers, max_groups = groups, capacities = caps,
    reserved = Map.empty, peak_reserved = Map.empty, quarantined = Map.empty,
    draining_tasks = [], lifecycle_failures = [], coordinator_used = False, event_log = []\<rparr> :: coordinator"
  from assms have g: "\<not> (workers < 1 \<or> groups < 1)" and p: "pol \<in> {''native-groups'', ''terminal-waves''}"
    and c: "c = ?c"
    unfolding Coordinator_def guard_Inr_iff sum.inject by blast+
  show "policy c \<in> {''native-groups'', ''terminal-waves''}" using p unfolding c coordinator.simps .
  show "reserved c = Map.empty" "quarantined c = Map.empty" "capacities c = caps" "1 \<le> max_groups c" "1 \<le> max_workers c"
    using g unfolding c by simp_all
qed

lemma validate_run_shape:
  assumes "validate_run c backends plans = Inr c'"
  shows "c' = c\<lparr>coordinator_used := True\<rparr>" "policy c = ''terminal-waves'' \<Longrightarrow> wave_groups_fit c plans"
  using assms by (auto simp: validate_run_def split: if_splits)

lemma demand_fits:
  assumes "wave_fits c (map (res_of plans) idx)" "capacity_limit c ek = Some q" "reserved c = Map.empty" "0 \<le> q"
  shows "demand plans idx ek \<le> q"
proof (cases "\<exists>i \<in> set idx. need (res_of plans i) ek \<noteq> 0")
  case True
  then obtain i where "res_of plans i \<in> set (map (res_of plans) idx)" "need (res_of plans i) ek \<noteq> 0" by auto
  from wave_fits_limit [OF assms(1,2) this] assms(3) show ?thesis
    by (simp add: reserved_amount_def demand_def comp_def)
next
  case False
  then have "demand plans idx ek = 0" by (induction idx) simp_all
  with assms(4) show ?thesis by simp
qed

lemma init_ledger_ok:
  assumes "Coordinator workers groups caps dt pol = Inr c" "validate_run c backends plans = Inr c'"
    and "\<forall>p \<in> set plans. nonneg_resources (ts_resources (plan_task p))"
    and "\<forall>e cap. caps e = Some cap \<longrightarrow> nonneg_resources cap"
  shows "ledger_ok plans (init_state plans c' tok)" "safe_state plans (init_state plans c' tok)"
proof -
  let ?s = "init_state plans c' tok"
  note c = Coordinator_fresh [OF assms(1)] and c' = validate_run_shape [OF assms(2)]
  have amounts: "reserved_amount (co ?s) ek = 0" "quarantined_amount (co ?s) ek = 0" for ek
    using c c' by (simp_all add: init_state_def reserved_amount_def quarantined_amount_def)
  have lim: "capacity_limit (co ?s) = capacity_limit c"
    using c'(1) by (simp add: fun_eq_iff init_state_def capacity_limit_def)
  have nonneg: "capacity_limit c ek = Some q \<Longrightarrow> 0 \<le> q" for ek q
    using assms(4) c(3) by (auto simp: capacity_limit_def nonneg_resources_def)
  have waves: "waves ?s \<Longrightarrow> wave_groups_fit c plans"
    using c' by (simp add: waves_def init_state_def)
  have dem: "demand plans (indices_of plans (grp plans i)) ek \<le> q"
    if "waves ?s" "i < length plans" "capacity_limit (co ?s) ek = Some q" for i ek q
    using waves [OF that(1)] that(2,3) lim nonneg c(1)
    by (intro demand_fits) (auto simp: wave_groups_fit_def list_all_iff Let_def)
  have "native ?s \<or> waves ?s" using c(4) c'(1) by (auto simp: native_def waves_def init_state_def)
  with dem assms(3) have f: "feasible plans ?s" by (simp add: feasible_def)
  have "conserved plans ?s" using amounts by (simp add: conserved_def booked_def init_state_def)
  moreover have "executor_ledger.in_limits (co ?s)"
    using amounts lim nonneg by (auto simp: executor_ledger.in_limits_def)
  ultimately show "ledger_ok plans ?s" using f by (simp add: ledger_ok_def)
  show "safe_state plans ?s"
    using validate_run_groups_bounded [OF assms(2), of tok] c(5,6) by simp
qed

text \<open>
  C2. In every reachable loop state, under both policies, the reservations of an executor
  never exceed its declared capacity, and they are exactly the needs of the work in progress
  plus what is quarantined: settled episodes leave nothing behind in the ledger and no running
  one is forgotten.
\<close>

theorem run_capacity_and_conservation:
  assumes "Coordinator workers groups caps dt pol = Inr c" "validate_run c backends plans = Inr c'"
    and "\<forall>p \<in> set plans. nonneg_resources (ts_resources (plan_task p))"
    and "\<forall>e cap. caps e = Some cap \<longrightarrow> nonneg_resources cap"
    and "reaches plans str_of (init_state plans c' tok) s"
  shows "(\<forall>e cap k. capacities (co s) e = Some cap \<longrightarrow> reserved_amount (co s) (e, k) \<le> quantity cap k) \<and>
    (\<forall>e k. reserved_amount (co s) (e, k) = quarantined_amount (co s) (e, k) + demand plans (booked plans s) (e, k))"
proof -
  have "ledger_ok plans s"
    using reaches_ledger [OF assms(5)] init_ledger_ok [OF assms(1-4)] by blast
  then show ?thesis
    by (auto simp: ledger_ok_def conserved_def executor_ledger.in_limits_def capacity_limit_def)
qed

section \<open>Stopping\<close>

lemma settle_stages_stopped:
  "stopped s \<noteq> None \<Longrightarrow> stopped (book_result plans i r s) \<noteq> None"
  "stopped s \<noteq> None \<Longrightarrow> stopped (note_failures f r s) \<noteq> None"
  "stopped s \<noteq> None \<Longrightarrow> stopped (settle_group plans d s) \<noteq> None"
  "stopped s \<noteq> None \<Longrightarrow> stopped (note_cancel s) \<noteq> None"
proof -
  show "stopped s \<noteq> None \<Longrightarrow> stopped (book_result plans i r s) \<noteq> None"
    by (simp add: book_result_def Let_def)
  show "stopped s \<noteq> None \<Longrightarrow> stopped (note_failures f r s) \<noteq> None"
    by (simp add: note_failures_def Let_def del: not_None_eq)
  show "stopped s \<noteq> None \<Longrightarrow> stopped (settle_group plans d s) \<noteq> None"
    by (simp add: settle_group_def close_wave_def Let_def)
  show "stopped s \<noteq> None \<Longrightarrow> stopped (note_cancel s) \<noteq> None"
    by (simp add: note_cancel_def del: not_None_eq)
qed

lemma settle_stopped: "stopped s \<noteq> None \<Longrightarrow> stopped (settle plans str_of s d) \<noteq> None"
  by (cases "done_index d \<in> set (active s)")
    (simp_all add: settle_unfold settle_skip Let_def settle_stages_stopped del: not_None_eq)

lemma settle_pending [simp]: "pending (settle plans str_of s d) = pending s"
  by (simp add: settle_frame)

lemma settle_active: "set (active (settle plans str_of s d)) \<subseteq> set (active s)"
  by (simp add: settle_frame set_remove1_subset)

lemma foldl_settle_stopped:
  "stopped s \<noteq> None \<Longrightarrow> stopped (foldl (settle plans str_of) s ds) \<noteq> None"
  "pending (foldl (settle plans str_of) s ds) = pending s"
  "set (active (foldl (settle plans str_of) s ds)) \<subseteq> set (active s)"
proof (induction ds arbitrary: s)
  case (Cons d ds)
  {
    case 1
    then show ?case using Cons.IH(1) settle_stopped by simp
  next
    case 2
    show ?case by (simp add: Cons.IH(2))
  next
    case 3
    show ?case using Cons.IH(3) [of "settle plans str_of s d"] settle_active by fastforce
  }
qed simp_all

text \<open>
  Once a run is stopped or its token is cancelled, no further episode is admitted: an
  iteration starts no task, only shrinks the set of active ones, leaves the pending plans as
  they are and stays stopped.
\<close>

theorem stopped_admits_nothing:
  assumes "stopped s \<noteq> None \<or> cancelled (token s)" "iterate plans str_of env s = Loop t"
  shows "pending t = pending s \<and> set (active t) \<subseteq> set (active s) \<and> stopped t \<noteq> None"
proof -
  let ?s = "note_cancel (s\<lparr>token := cancel_opt (cancel_before env) (token s)\<rparr>)"
  have st: "stopped ?s \<noteq> None"
    using assms(1) by (cases "cancelled (token s)")
      (auto simp: note_cancel_def cancel_opt_def simp del: not_None_eq split: option.splits)
  then have adm: "admission plans env ?s = Loop ?s" by (simp add: admission_def)
  from assms(2) show ?thesis
  proof (cases rule: iterate_LoopE)
    case (1 u)
    with adm st show ?thesis by auto
  next
    case (2 u ds)
    with adm have t: "t = foldl (settle plans str_of) (?s\<lparr>token := cancel_opt (cancel_wait env) (token ?s)\<rparr>) ds" by simp
    show ?thesis
      using foldl_settle_stopped [where s = "?s\<lparr>token := cancel_opt (cancel_wait env) (token ?s)\<rparr>"] st
      by (simp add: t del: not_None_eq)
  qed
qed

text \<open>
  An episode whose cleanup or request is not proved safe stops the run, cancels the shared
  token and, under native groups, moves exactly its own reservation into quarantine: its
  resources are never handed to another episode.
\<close>

theorem unsafe_result_quarantined:
  assumes "native s" "i = done_index d" "i \<in> set (active s)"
    and "\<not> safe_result (execute_episode (plans ! i) (done_outcome d))"
  shows "stopped (settle plans str_of s d) \<noteq> None \<and> cancelled (token (settle plans str_of s d)) \<and>
    (\<forall>ek. reserved_amount (co (settle plans str_of s d)) ek = reserved_amount (co s) ek \<and>
      quarantined_amount (co (settle plans str_of s d)) ek =
        quarantined_amount (co s) ek + need (res_of plans i) ek)"
proof -
  let ?r = "execute_episode (plans ! i) (done_outcome d)"
  let ?b = "book_result plans i ?r s"
  have b: "stopped ?b \<noteq> None" "cancelled (token ?b)" "reserved_amount (co ?b) = reserved_amount (co s)"
    "quarantined_amount (co ?b) ek = quarantined_amount (co s) ek + need (res_of plans i) ek" for ek
    using assms(1,4) by (simp_all add: book_result_def Let_def native_def quarantined_quarantine)
  have "\<not> waves t" if "policy (co t) = policy (co s)" for t
    using assms(1) that by (simp add: native_def waves_def)
  then have g: "co (settle_group plans d t) = co t" "token (settle_group plans d t) = token t"
    if "policy (co t) = policy (co s)" for t
    using that by (simp_all add: settle_group_def Let_def waves_def)
  have "stopped (settle plans str_of s d) \<noteq> None"
    using assms(2,3) b(1) by (simp add: settle_unfold Let_def settle_stages_stopped del: not_None_eq)
  with assms(2,3) b g show ?thesis by (simp add: settle_unfold Let_def)
qed

section \<open>Termination\<close>

text \<open>The event loop makes progress: whenever episodes are active, the wait returns one of them.\<close>

definition responsive :: "episode_plan list \<Rightarrow> (run_state \<Rightarrow> iter_env) \<Rightarrow> bool" where
  "responsive plans sched \<longleftrightarrow>
     (\<forall>s u. admission plans (sched s) (note_cancel (s\<lparr>token := cancel_opt (cancel_before (sched s)) (token s)\<rparr>)) = Loop u \<longrightarrow>
        active u \<noteq> [] \<longrightarrow>
        (\<exists>ds. wait_result (sched s) = Done ds \<and> (\<exists>d \<in> set ds. done_index d \<in> set (active u))))"

lemma settle_results:
  "dom (results (settle plans str_of s d)) =
     (if done_index d \<in> set (active s) then insert (done_index d) (dom (results s)) else dom (results s))"
  by (simp add: settle_frame)

lemma settle_keeps_active:
  "i \<in> set (active s) \<Longrightarrow> i \<noteq> done_index d \<Longrightarrow> i \<in> set (active (settle plans str_of s d))"
  by (simp add: settle_frame in_set_remove1)

lemma foldl_settle_results_mono:
  "dom (results s) \<subseteq> dom (results (foldl (settle plans str_of) s ds))"
proof (induction ds arbitrary: s)
  case (Cons d ds)
  have "dom (results s) \<subseteq> dom (results (settle plans str_of s d))" by (auto simp: settle_results)
  then show ?case unfolding foldl_Cons by (rule order_trans) (rule Cons.IH)
qed simp

lemma foldl_settle_done:
  "d \<in> set ds \<Longrightarrow> done_index d \<in> set (active s) \<Longrightarrow>
   done_index d \<in> dom (results (foldl (settle plans str_of) s ds))"
proof (induction ds arbitrary: s)
  case (Cons e ds)
  show ?case
  proof (cases "done_index e = done_index d")
    case True
    then have "done_index d \<in> dom (results (settle plans str_of s e))"
      using Cons.prems by (simp add: settle_results)
    with foldl_settle_results_mono [of "settle plans str_of s e"] show ?thesis
      by (simp only: foldl_Cons) blast
  next
    case False
    with Cons.prems have "d \<in> set ds" "done_index d \<in> set (active (settle plans str_of s e))"
      by (auto intro: settle_keeps_active)
    then show ?thesis unfolding foldl_Cons by (rule Cons.IH)
  qed
qed simp

lemma admit_native_results: "results (admit_native plans is b s) = results s"
  by (induction plans "is" b s rule: admit_native.induct) (auto simp: Let_def)

lemma admit_wave_results: "results (admit_wave plans idx g s) = results s"
  by (simp add: admit_wave_def foldl_start_frame)

lemma admission_results: "results (ctl_state (admission plans env s)) = results s"
  by (cases "pending s"; cases "admit_hook env")
    (simp_all add: admission_def admit_native_results admit_wave_results Let_def)

lemma iterate_responsive:
  assumes "responsive plans sched" "iterate plans str_of (sched s) s = Loop t"
  obtains u ds d where
    "admission plans (sched s) (note_cancel (s\<lparr>token := cancel_opt (cancel_before (sched s)) (token s)\<rparr>)) = Loop u"
    "t = foldl (settle plans str_of) (u\<lparr>token := cancel_opt (cancel_wait (sched s)) (token u)\<rparr>) ds"
    "d \<in> set ds" "done_index d \<in> set (active u)"
  using assms(2)
proof (cases rule: iterate_LoopE)
  case (1 u)
  with assms(1) obtain ds where "wait_result (sched s) = Done ds" unfolding responsive_def by blast
  with 1(3) show ?thesis by simp
next
  case (2 u ds)
  with assms(1) obtain es d where "wait_result (sched s) = Done es" "d \<in> set es" "done_index d \<in> set (active u)"
    unfolding responsive_def by blast
  with 2(3) have "d \<in> set ds" "done_index d \<in> set (active u)" by simp_all
  with 2(1,4) show ?thesis by (rule that)
qed

lemma foldl_settle_progress:
  assumes "safe_state plans u" "d \<in> set ds" "done_index d \<in> set (active u)"
  shows "card (dom (results u)) < card (dom (results (foldl (settle plans str_of) u ds)))"
proof (rule psubset_card_mono)
  let ?t = "foldl (settle plans str_of) u ds"
  have "safe_state plans ?t" using assms(1) by (rule foldl_settle_safe_state)
  then have "dom (results ?t) \<subseteq> {..< length plans}" by (auto simp: safe_state_def loop_inv_def part_inv_def)
  then show "finite (dom (results ?t))" by (rule finite_subset) simp
  have "done_index d \<notin> dom (results u)" using assms(1,3) by (auto simp: safe_state_def loop_inv_def part_inv_def)
  moreover have "done_index d \<in> dom (results ?t)" by (rule foldl_settle_done [OF assms(2,3)])
  moreover have "dom (results u) \<subseteq> dom (results ?t)" by (rule foldl_settle_results_mono)
  ultimately show "dom (results u) \<subset> dom (results ?t)" by blast
qed

lemma iterate_progress:
  assumes "safe_state plans s" "responsive plans sched" "iterate plans str_of (sched s) s = Loop t"
  shows "card (dom (results s)) < card (dom (results t))"
proof -
  let ?s = "note_cancel (s\<lparr>token := cancel_opt (cancel_before (sched s)) (token s)\<rparr>)"
  obtain u ds d where u: "admission plans (sched s) ?s = Loop u"
    and t: "t = foldl (settle plans str_of) (u\<lparr>token := cancel_opt (cancel_wait (sched s)) (token u)\<rparr>) ds"
    and d: "d \<in> set ds" "done_index d \<in> set (active u)"
    by (rule iterate_responsive [OF assms(2,3)])
  let ?u = "u\<lparr>token := cancel_opt (cancel_wait (sched s)) (token u)\<rparr>"
  have "results ?u = results s" using admission_results [of plans "sched s" ?s] u by simp
  moreover have "safe_state plans ?u" using admission_safe_state [of plans ?s "sched s"] assms(1) u by simp
  then have "card (dom (results ?u)) < card (dom (results t))"
    unfolding t by (rule foldl_settle_progress) (use d in simp_all)
  ultimately show ?thesis by simp
qed

lemma run_loop_terminates:
  assumes "responsive plans sched"
  shows "safe_state plans s \<Longrightarrow> length plans < card (dom (results s)) + n \<Longrightarrow>
    \<exists>t. run_loop plans str_of sched n s = Some t"
proof (induction n arbitrary: s)
  case 0
  have "card (dom (results s)) \<le> card {..< length plans}"
    using 0(1) by (intro card_mono) (auto simp: safe_state_def loop_inv_def part_inv_def)
  with 0 show ?case by simp
next
  case (Suc n)
  show ?case
  proof (cases "iterate plans str_of (sched s) s")
    case (Loop t)
    have "safe_state plans t" using iterate_safe_state [OF Suc.prems(1) Loop] .
    moreover have "length plans < card (dom (results t)) + n"
      using iterate_progress [OF Suc.prems(1) assms Loop] Suc.prems(2) by simp
    ultimately show ?thesis using Suc.IH Loop by simp
  qed simp
qed

text \<open>
  C16. A run whose event loop is responsive returns: after at most one iteration more than there
  are plans the loop has ended and the coordinator has produced its results.
\<close>

theorem run_terminates:
  assumes "Coordinator workers groups caps dt pol = Inr c" "validate_run c backends plans = Inr c'"
    and "responsive plans (scheduler inp)"
  shows "\<exists>ordered summary. run_coordinator c backends plans tok str_of inp (Suc (length plans)) =
    Inr (Some (ordered, summary)) \<and> length ordered = length plans"
proof -
  let ?s = "init_state plans c' tok" and ?bs = "map (\<lambda>b. (b, starting inp b)) (benchmarks_of plans)"
  have safe: "safe_state plans ?s"
    using validate_run_groups_bounded [OF assms(2), of tok] Coordinator_fresh [OF assms(1)] by simp
  have "\<exists>t. run_body plans str_of backends inp (Suc (length plans)) ?s = Some t"
  proof (cases "start_backends backends ?bs ?s")
    case (Loop v)
    have "safe_state plans v"
      using start_backends_same_core [of backends ?bs ?s] safe_state_cong [of v ?s plans] Loop safe
      by (auto simp: same_core_def)
    then have "\<exists>t. run_loop plans str_of (scheduler inp) (Suc (length plans)) v = Some t"
      by (intro run_loop_terminates [OF assms(3)]) simp_all
    with Loop show ?thesis by (auto simp: run_body_def)
  qed (simp add: run_body_def)
  then obtain t where t: "run_body plans str_of backends inp (Suc (length plans)) ?s = Some t" by blast
  then obtain u where "part_inv plans u" "t = finalize plans (closing inp) u"
    using run_body_part_inv [OF safe] by blast
  then obtain out where out: "ordered_results plans t = Inr out" "map res_identity out = map plan_identity plans"
    using ordered_results_finalize by blast
  then have "length out = length plans" by (metis length_map)
  with assms(2) t out show ?thesis by (simp add: run_coordinator_def)
qed

end
