(* ===== verification/Coordinator_Witness.thy ===== *)
theory Coordinator_Witness
  imports Coordinator_Ledger
begin

text \<open>
  A concrete run of the coordinator, on which the theorems of \<open>Coordinator_Safety\<close> and
  \<open>Coordinator_Ledger\<close> are applied: two episodes of one group that each need the only unit of
  every quantity of their executor, so they run one after the other.
\<close>

definition demo_resources :: resources where
  "demo_resources = \<lparr>executor = ''box'', quantity = (\<lambda>_. 1), accounting = ''episode''\<rparr>"

definition demo_caps :: "string \<rightharpoonup> resources" where
  "demo_caps = (\<lambda>e. if e = ''box'' then Some demo_resources else None)"

definition demo_plan :: "int \<Rightarrow> episode_plan" where
  "demo_plan n =
     \<lparr>plan_identity = \<lparr>run_id = ''r'', benchmark = ''cuda-agent'', task_id = ''t'', group_id = ''g'',
        sample_index = n, pass_index = 0, trial_id = None, sampling_seed = None\<rparr>,
      plan_task = \<lparr>ts_benchmark = ''cuda-agent'', ts_task_id = ''t'', ts_source_sha256 = ''h'',
        ts_payload = [(''native_case'', JNull)], ts_resources = demo_resources, ts_budgets = [], ts_provenance = []\<rparr>,
      plan_payload = None\<rparr>"

definition demo_plans :: "episode_plan list" where
  "demo_plans = [demo_plan 0, demo_plan 1]"

definition demo_co :: coordinator where
  "demo_co = \<lparr>policy = ''native-groups'', max_workers = 2, max_groups = 1, capacities = demo_caps,
     reserved = Map.empty, peak_reserved = Map.empty, quarantined = Map.empty,
     draining_tasks = [], lifecycle_failures = [], coordinator_used = False, event_log = []\<rparr>"

definition demo_backends :: "string \<rightharpoonup> nat" where
  "demo_backends = (\<lambda>b. if b = ''cuda-agent'' then Some 0 else None)"

definition demo_done :: "nat \<Rightarrow> done_item" where
  "demo_done i = \<lparr>done_index = i,
     done_outcome = Returned ((blank_result (demo_plans ! i))\<lparr>execution_state := ''completed'', cleanup_state := ''verified''\<rparr>),
     done_closure = Closure (JObj []), done_cancel = None\<rparr>"

definition demo_env :: "run_state \<Rightarrow> iter_env" where
  "demo_env s = \<lparr>cancel_before = None, cancel_admit = None, admit_hook = Hook_ok, deadline_passed = False,
     cancel_wait = None, wait_result = Done (map demo_done (active s @ pending s @ [0 ..< 2]))\<rparr>"

definition demo_inputs :: run_inputs where
  "demo_inputs = \<lparr>starting = (\<lambda>_. (None, Hook_ok)), scheduler = demo_env, closing = (\<lambda>_. (False, Closed))\<rparr>"

definition demo_str :: "json \<Rightarrow> string" where
  "demo_str _ = ''reason''"

lemma demo_coordinator: "Coordinator 2 1 demo_caps (Fin 30) ''native-groups'' = Inr demo_co"
  by (simp add: Coordinator_def demo_co_def)

lemma demo_valid: "validate_run demo_co demo_backends demo_plans = Inr (demo_co\<lparr>coordinator_used := True\<rparr>)"
  by (simp add: validate_run_def demo_co_def demo_plans_def demo_plan_def demo_backends_def exceeds_capacity_def
    demo_caps_def demo_resources_def backend_stage_def quantity_keys_def)


text \<open>The state after a first iteration in which no episode finished: episode 0 holds the executor.\<close>

definition demo_init :: run_state where
  "demo_init = init_state demo_plans (demo_co\<lparr>coordinator_used := True\<rparr>) new_token"

definition demo_idle :: iter_env where
  "demo_idle = (demo_env demo_init)\<lparr>wait_result := Done []\<rparr>"

definition demo_mid :: run_state where
  "demo_mid = ctl_state (iterate demo_plans demo_str demo_idle demo_init)"

lemma demo_mid_active: "active demo_mid = [0] \<and> held_groups demo_mid \<noteq> [] \<and> stopped demo_mid = None"
  by code_simp

lemma demo_run:
  "case run_coordinator demo_co demo_backends demo_plans new_token demo_str demo_inputs 3 of
     Inr (Some (rs, sm)) \<Rightarrow> length rs = 2 \<and> result_count sm = 2 | _ \<Rightarrow> False"
  by code_simp

lemma demo_step: "iterate demo_plans demo_str demo_idle demo_init = Loop demo_mid"
proof -
  have "case iterate demo_plans demo_str demo_idle demo_init of Loop s \<Rightarrow> True | Exit s \<Rightarrow> False" by code_simp
  then show ?thesis by (simp add: demo_mid_def split: loop_ctl.splits)
qed

lemma demo_reaches: "reaches demo_plans demo_str (init_state demo_plans (demo_co\<lparr>coordinator_used := True\<rparr>) new_token) demo_mid"
  using reaches.step [OF reaches.start demo_step] by (simp add: demo_init_def)

lemma demo_nonneg:
  "\<forall>p \<in> set demo_plans. nonneg_resources (ts_resources (plan_task p))"
  "\<forall>e cap. demo_caps e = Some cap \<longrightarrow> nonneg_resources cap"
  by (simp_all add: demo_plans_def demo_plan_def demo_caps_def demo_resources_def nonneg_resources_def)

theorem run_returns_every_result_witness:
  "\<exists>ordered summary. run_coordinator demo_co demo_backends demo_plans new_token demo_str demo_inputs 3 =
     Inr (Some (ordered, summary)) \<and> map (\<lambda>r. sample_index (res_identity r)) ordered = [0, 1]"
proof -
  obtain ordered summary where r: "run_coordinator demo_co demo_backends demo_plans new_token demo_str demo_inputs 3 =
     Inr (Some (ordered, summary))"
    using demo_run by (auto split: sum.splits option.splits)
  with run_returns_every_result [OF demo_coordinator demo_valid, of new_token demo_str demo_inputs 3]
  have "map res_identity ordered = map plan_identity demo_plans" by simp
  then have "map sample_index (map res_identity ordered) = [0, 1]" by (simp only:) (simp add: demo_plans_def demo_plan_def)
  with r show ?thesis by (auto simp: comp_def)
qed

theorem run_limits_witness:
  "active demo_mid = [0] \<and> int (length (active demo_mid)) \<le> max_workers (co demo_mid) \<and>
   grp demo_plans 0 \<in> set (held_groups demo_mid)"
  using run_limits [OF demo_coordinator demo_valid demo_reaches] demo_mid_active by simp

theorem run_capacity_witness:
  "capacities (co demo_mid) ''box'' = Some demo_resources \<and>
   reserved_amount (co demo_mid) (''box'', Gpu_count) \<le> quantity demo_resources Gpu_count \<and>
   reserved_amount (co demo_mid) (''box'', Gpu_count) =
     quarantined_amount (co demo_mid) (''box'', Gpu_count) + demand demo_plans (booked demo_plans demo_mid) (''box'', Gpu_count)"
proof -
  have "capacities (co demo_mid) ''box'' = Some demo_resources"
    by code_simp
  with run_capacity_and_conservation [OF demo_coordinator demo_valid demo_nonneg demo_reaches] show ?thesis by blast
qed

text \<open>The same state once its token is cancelled, and an episode whose cleanup is not proved.\<close>

theorem stopped_admits_nothing_witness:
  "\<exists>t. iterate demo_plans demo_str demo_idle (demo_mid\<lparr>token := cancel ''stop'' new_token\<rparr>) = Loop t \<and>
     pending t = [1] \<and> stopped t \<noteq> None"
proof -
  let ?s = "demo_mid\<lparr>token := cancel ''stop'' new_token\<rparr>"
  have "case iterate demo_plans demo_str demo_idle ?s of Loop s \<Rightarrow> True | Exit s \<Rightarrow> False" by code_simp
  then obtain t where t: "iterate demo_plans demo_str demo_idle ?s = Loop t" by (auto split: loop_ctl.splits)
  have "stopped ?s \<noteq> None \<or> cancelled (token ?s)" by simp
  from stopped_admits_nothing [OF this t] have "pending t = pending ?s" "stopped t \<noteq> None" by blast+
  moreover have "pending ?s = [1]" by code_simp
  ultimately show ?thesis using t by metis
qed

definition demo_lost :: done_item where
  "demo_lost = (demo_done 0)\<lparr>done_outcome := Raised_cancelled\<rparr>"

theorem unsafe_result_quarantined_witness:
  "stopped (settle demo_plans demo_str demo_mid demo_lost) \<noteq> None \<and>
   quarantined_amount (co (settle demo_plans demo_str demo_mid demo_lost)) (''box'', Cpu) = 1"
proof -
  have p: "native demo_mid" "0 = done_index demo_lost" "0 \<in> set (active demo_mid)"
    "\<not> safe_result (execute_episode (demo_plans ! 0) (done_outcome demo_lost))"
    "quarantined_amount (co demo_mid) (''box'', Cpu) + need (res_of demo_plans 0) (''box'', Cpu) = 1"
    by code_simp+
  show ?thesis using unsafe_result_quarantined [OF p(1-4)] p(5) by simp
qed

lemma admit_native_active:
  "set (active (admit_native plans js b s)) \<subseteq> set (active s) \<union> set js"
proof (induction js arbitrary: b s)
  case (Cons i js)
  have "active (hold g s) = active s" for g by (simp add: hold_def)
  then have "set (active (start_task plans i (hold g s))) = insert i (set (active s))" for g
    by (simp add: start_task_def)
  with Cons.IH [of b s] Cons.IH [of "executor (res_of plans i) # b" s]
    Cons.IH [of b "start_task plans i (hold (grp plans i) s)"]
  show ?case by (simp add: Let_def) blast
qed simp

lemma admission_active:
  "admission plans env s = Loop u \<Longrightarrow> set (active u) \<subseteq> set (active s) \<union> set (pending s) \<union> {..< length plans}"
  using admit_native_active [of plans "pending s" "[]" s]
  by (cases "pending s"; cases "admit_hook env")
    (auto simp: admission_def Let_def admit_wave_def foldl_start_frame hold_def indices_of_def
       split: if_splits)

lemma demo_responsive: "responsive demo_plans demo_env"
  unfolding responsive_def
proof (intro allI impI)
  fix s u
  assume a: "admission demo_plans (demo_env s) (note_cancel (s\<lparr>token := cancel_opt (cancel_before (demo_env s)) (token s)\<rparr>)) = Loop u"
    and "active u \<noteq> []"
  have "active (note_cancel v) = active v" "pending (note_cancel v) = pending v" for v
    by (simp_all add: note_cancel_def)
  with admission_active [OF a] have "set (active u) \<subseteq> set (active s @ pending s @ [0 ..< 2])"
    by (auto simp: demo_plans_def)
  moreover have "hd (active u) \<in> set (active u)" using \<open>active u \<noteq> []\<close> by simp
  ultimately have "\<exists>i. i \<in> set (active u) \<and> i \<in> set (active s @ pending s @ [0 ..< 2])" by blast
  then obtain i where "i \<in> set (active u)" "i \<in> set (active s @ pending s @ [0 ..< 2])" by blast
  then show "\<exists>ds. wait_result (demo_env s) = Done ds \<and> (\<exists>d \<in> set ds. done_index d \<in> set (active u))"
    by (intro exI conjI bexI [of _ "demo_done i"]) (auto simp: demo_env_def demo_done_def)
qed

theorem run_terminates_witness:
  "\<exists>ordered summary. run_coordinator demo_co demo_backends demo_plans new_token demo_str demo_inputs 3 =
     Inr (Some (ordered, summary)) \<and> length ordered = 2"
proof -
  have "responsive demo_plans (scheduler demo_inputs)" "Suc (length demo_plans) = 3" "length demo_plans = 2"
    using demo_responsive by (simp add: demo_inputs_def, simp_all add: demo_plans_def)
  with run_terminates [OF demo_coordinator demo_valid, of demo_inputs new_token demo_str] show ?thesis by simp
qed

end
