(* ===== verification/Rollout.thy ===== *)
theory Rollout
  imports Prelude
begin

text \<open>
  Prompt records and serial rollouts: \<^verbatim>\<open>dsv41_train/rl/data.py\<close> (token validation, prompt
  records, the JSONL loader, the builtin token rewards) and \<^verbatim>\<open>dsv41_train/rl/rollout.py\<close> (samples,
  rollout groups and \<open>generate_group\<close>).
  The tokenizer and the JSON reader are arguments. The language model together with its random
  generator is an argument \<open>forward\<close>: from a generator state and the tokens so far it gives the
  vocabulary size, the drawn token with its log probability (or the error of the finiteness
  check) and the next state, or the error of the forward pass. Quotients of counts are exact
  rationals.
\<close>

section \<open>Tokens and prompt records\<close>

fun int_token :: "json \<Rightarrow> int option" where
  "int_token (JInt i) = (if i < 0 then None else Some i)"
| "int_token _ = None"

definition validate_token_ids :: "json \<Rightarrow> string \<Rightarrow> bool \<Rightarrow> int list result" where
  "validate_token_ids value name allow_empty =
     (case value of
        JList xs \<Rightarrow>
          if xs = [] \<and> \<not> allow_empty then Inl (ValueError (name @ '' must not be empty''))
          else if list_ex (\<lambda>x. int_token x = None) xs
          then Inl (ValueError (name @ '' must contain only nonnegative integer token IDs''))
          else Inr (map (\<lambda>x. the (int_token x)) xs)
      | _ \<Rightarrow> Inl (ValueError (name @ '' must be a list of nonnegative integer token IDs'')))"

definition ints :: "int list \<Rightarrow> json" where
  "ints xs = JList (map JInt xs)"

lemma validate_token_ids_ints:
  "validate_token_ids (ints xs) name e = Inr ys \<longleftrightarrow> ys = xs \<and> (xs = [] \<longrightarrow> e) \<and> (\<forall>x \<in> set xs. 0 \<le> x)"
proof -
  have "map (\<lambda>x. the (int_token (JInt x))) xs = xs" if "\<forall>x \<in> set xs. 0 \<le> x"
    using that by (induction xs) auto
  then show ?thesis by (auto simp: validate_token_ids_def ints_def list_ex_iff comp_def not_less)
qed

lemma validate_token_ids_Inr:
  "validate_token_ids v name e = Inr ys \<Longrightarrow> v = ints ys \<and> (ys = [] \<longrightarrow> e) \<and> (\<forall>y \<in> set ys. 0 \<le> y)"
proof -
  assume "validate_token_ids v name e = Inr ys"
  then obtain xs where xs: "v = JList xs" "xs = [] \<longrightarrow> e" "\<forall>x \<in> set xs. int_token x \<noteq> None"
      "ys = map (\<lambda>x. the (int_token x)) xs"
    by (auto simp: validate_token_ids_def list_ex_iff split: json.splits if_splits)
  have "x = JInt (the (int_token x)) \<and> 0 \<le> the (int_token x)" if "int_token x \<noteq> None" for x
    using that by (cases x rule: int_token.cases) auto
  with xs have "map JInt ys = xs" by (auto simp: comp_def intro!: map_idI)
  moreover have "\<forall>y \<in> set ys. 0 \<le> y" using xs(3,4) \<open>\<And>x. int_token x \<noteq> None \<Longrightarrow> _\<close> by auto
  ultimately show ?thesis using xs by (auto simp: ints_def)
qed

record prompt_record =
  prompt_ids :: "int list"
  target_ids :: "int list option"
  metadata :: dict

definition PromptRecord :: "json \<Rightarrow> json \<Rightarrow> json \<Rightarrow> prompt_record result" where
  "PromptRecord prompt target meta =
     bindE (validate_token_ids prompt ''prompt_ids'' False) (\<lambda>p.
     bindE (if target = JNull then Inr None
            else bindE (validate_token_ids target ''target_ids'' True) (\<lambda>t. Inr (Some t))) (\<lambda>t.
     if \<not> is_obj meta then Inl (ValueError ''metadata must be a JSON object'')
     else Inr \<lparr>prompt_ids = p, target_ids = t, metadata = fields_of meta\<rparr>))"

type_synonym tokenizer = "json \<Rightarrow> json \<Rightarrow> json result"

definition has_key :: "dict \<Rightarrow> string \<Rightarrow> bool" where
  "has_key d k \<longleftrightarrow> k \<in> set (map fst d)"

definition from_mapping :: "tokenizer option \<Rightarrow> json \<Rightarrow> prompt_record result" where
  "from_mapping tokenizer value =
     (if \<not> is_obj value then Inl (ValueError ''each JSONL record must be an object'')
      else let d = fields_of value in
        if length (filter (has_key d) [''prompt_ids'', ''prompt'', ''messages'']) \<noteq> 1
        then Inl (ValueError ''each JSONL record requires exactly one of prompt_ids, prompt or messages'')
        else
          bindE (if has_key d ''prompt_ids'' then Inr (dget d ''prompt_ids'')
                 else case tokenizer of
                   None \<Rightarrow> Inl (ValueError ''text records require tokenizer.json in the model directory'')
                 | Some encode_prompt \<Rightarrow> encode_prompt (dget d ''prompt'') (dget d ''messages'')) (\<lambda>ids.
          let meta = dget_default d ''metadata'' (JObj []) in
          if \<not> is_obj meta then Inl (ValueError ''metadata must be a JSON object'')
          else PromptRecord ids (dget d ''target_ids'')
            (JObj (dupdate (fields_of meta)
              (filter (\<lambda>p. fst p \<notin> {''prompt_ids'', ''target_ids'', ''metadata''}) d)))))"

section \<open>The JSONL loader\<close>

definition blank :: "string \<Rightarrow> bool" where
  "blank line \<longleftrightarrow> list_all is_space line"

text \<open>The \<^verbatim>\<open>except (ValueError, TypeError)\<close> clause adds the position; other exceptions pass.\<close>

fun located :: "string \<Rightarrow> exn \<Rightarrow> exn" where
  "located pos (ValueError m) = ValueError (pos @ '': '' @ m)"
| "located pos (TypeError m) = ValueError (pos @ '': '' @ m)"
| "located pos e = e"

definition load_line ::
  "(string \<Rightarrow> json result) \<Rightarrow> tokenizer option \<Rightarrow> nat option \<Rightarrow> string \<Rightarrow> string \<Rightarrow> prompt_record option result" where
  "load_line parse tokenizer limit length_policy line =
     bindE (parse line) (\<lambda>v. bindE (from_mapping tokenizer v) (\<lambda>r.
       case limit of
         None \<Rightarrow> Inr (Some r)
       | Some m \<Rightarrow>
           if length (prompt_ids r) > m then
             if length_policy = ''skip'' then Inr None
             else Inl (ValueError (''prompt length '' @ show_nat (length (prompt_ids r)) @
                                   '' exceeds limit '' @ show_nat m))
           else Inr (Some r)))"

fun load_lines ::
  "string \<Rightarrow> (string \<Rightarrow> json result) \<Rightarrow> tokenizer option \<Rightarrow> nat option \<Rightarrow> string \<Rightarrow> nat \<Rightarrow> string list \<Rightarrow>
   prompt_record list result" where
  "load_lines path parse tokenizer limit length_policy n [] = Inr []"
| "load_lines path parse tokenizer limit length_policy n (line # rest) =
     (if blank line then load_lines path parse tokenizer limit length_policy (Suc n) rest
      else case load_line parse tokenizer limit length_policy line of
        Inl e \<Rightarrow> Inl (located (path @ '':'' @ show_nat n) e)
      | Inr r \<Rightarrow>
          bindE (load_lines path parse tokenizer limit length_policy (Suc n) rest) (\<lambda>rs.
            Inr (case r of None \<Rightarrow> rs | Some x \<Rightarrow> x # rs)))"

definition load_jsonl ::
  "string \<Rightarrow> (string \<Rightarrow> json result) \<Rightarrow> tokenizer option \<Rightarrow> json \<Rightarrow> string \<Rightarrow> string list \<Rightarrow>
   prompt_record list result" where
  "load_jsonl path parse tokenizer max_prompt_tokens length_policy lines =
     (if length_policy \<notin> {''error'', ''skip''} then Inl (ValueError ''length_policy must be error or skip'')
      else
        bindE (case max_prompt_tokens of
                 JNull \<Rightarrow> Inr None
               | JInt m \<Rightarrow> if m < 1 then Inl (ValueError ''max_prompt_tokens must be a positive integer'')
                            else Inr (Some (nat m))
               | _ \<Rightarrow> Inl (ValueError ''max_prompt_tokens must be a positive integer'')) (\<lambda>limit.
        bindE (load_lines path parse tokenizer limit length_policy 1 lines) (\<lambda>records.
        if records = [] then Inl (ValueError (path @ '': no records found'')) else Inr records)))"

section \<open>Token rewards\<close>

definition reward_target :: "prompt_record \<Rightarrow> int list result" where
  "reward_target r =
     (case target_ids r of
        None \<Rightarrow> Inl (ValueError ''this reward requires target_ids in every JSONL record'')
      | Some t \<Rightarrow> Inr t)"

definition matches :: "int list \<Rightarrow> int list \<Rightarrow> nat" where
  "matches xs ys = length (filter (\<lambda>p. fst p = snd p) (zip xs ys))"

definition token_accuracy :: "prompt_record \<Rightarrow> int list \<Rightarrow> rat result" where
  "token_accuracy r response =
     bindE (reward_target r) (\<lambda>target.
       let denominator = max (length target) (length response)
       in if denominator = 0 then Inr 1
          else Inr (of_nat (matches target response) / of_nat denominator))"

definition exact_match :: "prompt_record \<Rightarrow> int list \<Rightarrow> rat result" where
  "exact_match r response = bindE (reward_target r) (\<lambda>target. Inr (if response = target then 1 else 0))"

definition toy_token_score :: "prompt_record \<Rightarrow> int list \<Rightarrow> rat result" where
  "toy_token_score r response =
     (if response = [] then Inl (ValueError ''toy_token_score requires at least one response token'')
      else Inr (of_int (sum_list response) / of_nat (length response)))"

section \<open>Samples and groups\<close>

record sample =
  s_prompt_ids :: "int list"
  s_response_ids :: "int list"
  s_behavior_log_probs :: "rat list"
  s_reward :: rat
  s_policy_version :: int
  s_finish_reason :: string
  s_stop_token_count :: int
  s_raw_reward :: rat

text \<open>The float \<^verbatim>\<open>1e-6\<close> is the binary64 value \<open>4722366482869645 / 2 ^ 72\<close>.\<close>

definition log_prob_slack :: rat where
  "log_prob_slack = 4722366482869645 / 2 ^ 72"

fun fin_val :: "flt \<Rightarrow> rat option" where
  "fin_val (Fin q) = Some q"
| "fin_val _ = None"

definition good_log_prob :: "flt \<Rightarrow> bool" where
  "good_log_prob f = (case fin_val f of None \<Rightarrow> False | Some q \<Rightarrow> q \<le> log_prob_slack)"

definition Sample ::
  "int list \<Rightarrow> int list \<Rightarrow> flt list \<Rightarrow> flt \<Rightarrow> int \<Rightarrow> string \<Rightarrow> int \<Rightarrow> flt option \<Rightarrow> sample result" where
  "Sample prompt response behavior reward version finish stop raw =
     bindE (validate_token_ids (ints prompt) ''prompt_ids'' False) (\<lambda>p.
     bindE (validate_token_ids (ints response) ''response_ids'' False) (\<lambda>r.
     if length r \<noteq> length behavior
     then Inl (ValueError ''each response token requires one behavior log probability'')
     else if \<not> list_all good_log_prob behavior
     then Inl (ValueError ''behavior log probabilities must be finite and nonpositive'')
     else case fin_val reward of None \<Rightarrow> Inl (ValueError ''reward must be finite'') | Some rew \<Rightarrow>
     case (case raw of None \<Rightarrow> Some rew | Some x \<Rightarrow> fin_val x) of
       None \<Rightarrow> Inl (ValueError ''raw reward must be finite'')
     | Some rw \<Rightarrow>
         if finish \<notin> {''eos'', ''stop'', ''length''} then Inl (ValueError ''finish_reason must be eos, stop or length'')
         else if \<not> (0 \<le> stop \<and> stop \<le> int (length r)) then Inl (ValueError ''invalid stop_token_count'')
         else if version < 0 then Inl (ValueError ''policy_version must be a nonnegative integer'')
         else Inr \<lparr>s_prompt_ids = p, s_response_ids = r, s_behavior_log_probs = map (\<lambda>f. the (fin_val f)) behavior,
                    s_reward = rew, s_policy_version = version, s_finish_reason = finish,
                    s_stop_token_count = stop, s_raw_reward = rw\<rparr>))"

lemma Sample_iff:
  "Sample p r b rew v f n raw = Inr s \<longleftrightarrow>
     p \<noteq> [] \<and> (\<forall>x \<in> set p. 0 \<le> x) \<and> r \<noteq> [] \<and> (\<forall>x \<in> set r. 0 \<le> x) \<and> length r = length b \<and> list_all good_log_prob b \<and>
     f \<in> {''eos'', ''stop'', ''length''} \<and> 0 \<le> n \<and> n \<le> int (length r) \<and> 0 \<le> v \<and>
     (\<exists>x y. fin_val rew = Some x \<and> (case raw of None \<Rightarrow> Some x | Some z \<Rightarrow> fin_val z) = Some y \<and>
       s = \<lparr>s_prompt_ids = p, s_response_ids = r, s_behavior_log_probs = map (\<lambda>f. the (fin_val f)) b, s_reward = x,
            s_policy_version = v, s_finish_reason = f, s_stop_token_count = n, s_raw_reward = y\<rparr>)"
proof -
  define ok where "ok \<longleftrightarrow> f \<in> {''eos'', ''stop'', ''length''}"
  show ?thesis
    unfolding Sample_def result_simps validate_token_ids_ints ok_def [symmetric] not_not not_less sum.inject by blast
qed

definition content_ids :: "sample \<Rightarrow> int list" where
  "content_ids s =
     (if s_stop_token_count s \<noteq> 0
      then take (length (s_response_ids s) - nat (s_stop_token_count s)) (s_response_ids s)
      else s_response_ids s)"

record rollout_group =
  samples :: "sample list"
  g_group_id :: int
  g_policy_version :: int

definition RolloutGroup :: "sample list \<Rightarrow> int \<Rightarrow> int \<Rightarrow> rollout_group result" where
  "RolloutGroup ss gid version =
     (if ss = [] then Inl (ValueError ''a rollout group must not be empty'')
      else if gid < 0 then Inl (ValueError ''group_id must be a nonnegative integer'')
      else if version < 0 then Inl (ValueError ''policy_version must be a nonnegative integer'')
      else if list_ex (\<lambda>s. s_policy_version s \<noteq> version) ss
      then Inl (ValueError ''all group samples must have the group policy_version'')
      else if list_ex (\<lambda>s. s_prompt_ids s \<noteq> s_prompt_ids (hd ss)) ss
      then Inl (ValueError ''all group samples must have the same prompt'')
      else Inr \<lparr>samples = ss, g_group_id = gid, g_policy_version = version\<rparr>)"

section \<open>Generation\<close>

type_synonym 's forward = "'s \<Rightarrow> int list \<Rightarrow> (int \<times> (int \<times> flt) result \<times> 's) result"

record 's decoded =
  d_response :: "int list"
  d_behavior :: "flt list"
  d_finish :: string
  d_stop :: nat
  d_state :: 's

definition ends_with :: "int list \<Rightarrow> int list \<Rightarrow> bool" where
  "ends_with response ids \<longleftrightarrow> drop (length response - length ids) response = ids"

fun decode_loop ::
  "'s forward \<Rightarrow> int list \<Rightarrow> int list \<Rightarrow> int list list \<Rightarrow> nat \<Rightarrow> int list \<Rightarrow> flt list \<Rightarrow> 's \<Rightarrow> 's decoded result" where
  "decode_loop forward prompt eos stops 0 response behavior st =
     Inr \<lparr>d_response = response, d_behavior = behavior, d_finish = ''length'', d_stop = 0, d_state = st\<rparr>"
| "decode_loop forward prompt eos stops (Suc n) response behavior st =
     bindE (forward st (prompt @ response)) (\<lambda>(vocab, draw, st).
     if list_ex (\<lambda>t. t \<ge> vocab) (eos @ concat stops)
     then Inl (ValueError ''stop token ID is outside the model vocabulary'')
     else bindE draw (\<lambda>(token, lp).
       let response = response @ [token]; behavior = behavior @ [lp] in
       case find (ends_with response) stops of
         Some matched \<Rightarrow> Inr \<lparr>d_response = response, d_behavior = behavior, d_finish = ''stop'',
                             d_stop = length matched, d_state = st\<rparr>
       | None \<Rightarrow>
           if token \<in> set eos
           then Inr \<lparr>d_response = response, d_behavior = behavior, d_finish = ''eos'', d_stop = 1, d_state = st\<rparr>
           else decode_loop forward prompt eos stops n response behavior st))"

record reward_fn =
  score :: "prompt_record \<Rightarrow> int list \<Rightarrow> flt result"
  strip_stop_tokens :: bool

definition scoring_ids :: "reward_fn \<Rightarrow> 's decoded \<Rightarrow> int list" where
  "scoring_ids rf d =
     (if d_stop d \<noteq> 0 \<and> strip_stop_tokens rf
      then take (length (d_response d) - d_stop d) (d_response d) else d_response d)"

definition generate_sample ::
  "'s forward \<Rightarrow> prompt_record \<Rightarrow> nat \<Rightarrow> int list \<Rightarrow> int list list \<Rightarrow> int \<Rightarrow> reward_fn \<Rightarrow> flt option \<Rightarrow> 's \<Rightarrow>
   (sample \<times> 's) result" where
  "generate_sample forward rec max_new eos stops version rf truncated_reward st =
     bindE (decode_loop forward (prompt_ids rec) eos stops max_new [] [] st) (\<lambda>d.
     bindE (score rf rec (scoring_ids rf d)) (\<lambda>raw.
     let reward = (case truncated_reward of
                     Some t \<Rightarrow> if d_finish d = ''length'' then t else raw
                   | None \<Rightarrow> raw) in
     bindE (Sample (prompt_ids rec) (d_response d) (d_behavior d) reward version (d_finish d) (int (d_stop d))
              (Some raw)) (\<lambda>s. Inr (s, d_state d))))"

fun generate_samples ::
  "('s \<Rightarrow> (sample \<times> 's) result) \<Rightarrow> nat \<Rightarrow> 's \<Rightarrow> sample list result" where
  "generate_samples gen 0 st = Inr []"
| "generate_samples gen (Suc n) st =
     bindE (gen st) (\<lambda>(s, st). bindE (generate_samples gen n st) (\<lambda>ss. Inr (s # ss)))"

text \<open>
  \<open>generate_group\<close> for a model without the cached Qwen path, after the temperature and device
  checks. The second component of the result is the model's training flag afterwards, which the
  \<^verbatim>\<open>finally\<close> clause restores; \<^verbatim>\<open>model.eval()\<close> clears it in between.
\<close>

definition check_generation ::
  "int \<Rightarrow> int \<Rightarrow> int \<Rightarrow> int \<Rightarrow> int list \<Rightarrow> int list list \<Rightarrow> flt option \<Rightarrow> int list list result" where
  "check_generation group_size max_new version gid eos stop_sequences truncated_reward =
     (if group_size \<le> 0 then Inl (ValueError ''group_size must be a positive integer'')
      else if max_new \<le> 0 then Inl (ValueError ''max_new_tokens must be a positive integer'')
      else if version < 0 then Inl (ValueError ''policy_version must be a nonnegative integer'')
      else if gid < 0 then Inl (ValueError ''group_id must be a nonnegative integer'')
      else bindE (validate_token_ids (ints eos) ''eos_token_id'' True) (\<lambda>_.
        bindE (mapE (\<lambda>ids. validate_token_ids (ints ids) ''stop_token_sequences'' False) stop_sequences) (\<lambda>stops.
        if (case truncated_reward of None \<Rightarrow> False | Some t \<Rightarrow> \<not> isfinite t)
        then Inl (ValueError ''truncated_reward must be finite or None'')
        else Inr (sort_key (\<lambda>ids. - int (length ids)) stops))))"

definition generate_group ::
  "'s forward \<Rightarrow> prompt_record \<Rightarrow> int \<Rightarrow> int \<Rightarrow> int list \<Rightarrow> int \<Rightarrow> int \<Rightarrow> 's \<Rightarrow> reward_fn \<Rightarrow> int list list \<Rightarrow>
   flt option \<Rightarrow> bool \<Rightarrow> rollout_group result \<times> bool" where
  "generate_group forward rec group_size max_new eos version gid st rf stop_sequences truncated_reward training =
     (case check_generation group_size max_new version gid eos stop_sequences truncated_reward of
        Inl e \<Rightarrow> (Inl e, training)
      | Inr stops \<Rightarrow>
          let was_training = training;
              out = generate_samples (generate_sample forward rec (nat max_new) eos stops version rf truncated_reward)
                      (nat group_size) st
          in (bindE out (\<lambda>ss. RolloutGroup ss gid version), was_training))"

section \<open>What the loader returns\<close>

definition read_record :: "(string \<Rightarrow> json result) \<Rightarrow> tokenizer option \<Rightarrow> string \<Rightarrow> prompt_record result" where
  "read_record parse tokenizer line = bindE (parse line) (from_mapping tokenizer)"

lemma load_lines_Inr:
  "load_lines path parse tok (Some m) p n lines = Inr rs \<longleftrightarrow>
     (\<exists>xs. mapE (read_record parse tok) (filter (\<lambda>l. \<not> blank l) lines) = Inr xs \<and>
        (p = ''skip'' \<or> list_all (\<lambda>r. length (prompt_ids r) \<le> m) xs) \<and>
        rs = filter (\<lambda>r. length (prompt_ids r) \<le> m) xs)"
proof (induction lines arbitrary: n rs)
  case (Cons line lines)
  show ?case
  proof (cases "blank line")
    case True
    with Cons show ?thesis by simp
  next
    case False
    show ?thesis
    proof (cases "read_record parse tok line")
      case (Inl e)
      then have "load_line parse tok (Some m) p line = Inl e"
        by (cases "parse line") (auto simp: load_line_def read_record_def)
      with False Inl show ?thesis by simp
    next
      case (Inr r)
      then have "load_line parse tok (Some m) p line =
        (if length (prompt_ids r) \<le> m then Inr (Some r) else if p = ''skip'' then Inr None
         else Inl (ValueError (''prompt length '' @ show_nat (length (prompt_ids r)) @ '' exceeds limit '' @ show_nat m)))"
        by (cases "parse line") (auto simp: load_line_def read_record_def)
      with False Inr Cons.IH show ?thesis by (auto simp: bindE_Inr_iff)
    qed
  qed
qed auto

text \<open>
  The loader with a prompt limit succeeds exactly when every line that is not blank reads as a
  prompt record, at least one of them is within the limit and, under the policy \<open>error\<close>, none of
  them exceeds it. It then returns the records within the limit, in file order: nothing else is
  dropped and nothing is invented.
\<close>

theorem load_jsonl_exact:
  "load_jsonl path parse tok (JInt m) p lines = Inr rs \<longleftrightarrow>
     p \<in> {''error'', ''skip''} \<and> 1 \<le> m \<and> rs \<noteq> [] \<and>
     (\<exists>xs. mapE (read_record parse tok) (filter (\<lambda>l. \<not> blank l) lines) = Inr xs \<and>
        (p = ''skip'' \<or> list_all (\<lambda>r. length (prompt_ids r) \<le> nat m) xs) \<and>
        rs = filter (\<lambda>r. length (prompt_ids r) \<le> nat m) xs)"
proof -
  have "load_jsonl path parse tok (JInt m) p lines = Inr rs \<longleftrightarrow>
    p \<in> {''error'', ''skip''} \<and> 1 \<le> m \<and> rs \<noteq> [] \<and> load_lines path parse tok (Some (nat m)) p 1 lines = Inr rs"
    by (auto simp: load_jsonl_def bindE_Inr_iff)
  then show ?thesis unfolding load_lines_Inr .
qed

section \<open>What generation returns\<close>

definition stops_at :: "int list \<Rightarrow> int list list \<Rightarrow> int list \<Rightarrow> bool" where
  "stops_at eos stops r \<longleftrightarrow> list_ex (ends_with r) stops \<or> r \<noteq> [] \<and> last r \<in> set eos"

definition finish_ok :: "int list \<Rightarrow> int list list \<Rightarrow> int list \<Rightarrow> string \<Rightarrow> nat \<Rightarrow> bool" where
  "finish_ok eos stops r finish stop \<longleftrightarrow>
     finish = ''stop'' \<and> (\<exists>ids \<in> set stops. ends_with r ids \<and> stop = length ids \<and>
       (\<forall>ids' \<in> set stops. ends_with r ids' \<longrightarrow> length ids' \<le> length ids)) \<or>
     finish = ''eos'' \<and> stop = 1 \<and> r \<noteq> [] \<and> last r \<in> set eos \<and> \<not> list_ex (ends_with r) stops \<or>
     finish = ''length'' \<and> stop = 0 \<and> \<not> stops_at eos stops r"

lemma find_longest:
  assumes "sorted_wrt (\<lambda>x y. length y \<le> length x) stops" "find P stops = Some ids" "ids' \<in> set stops" "P ids'"
  shows "length ids' \<le> length ids"
  using assms by (induction stops) (auto split: if_splits)

lemma decode_loop_sound:
  assumes "decode_loop forward prompt eos stops n r b st = Inr d" "length b = length r"
    and "r = [] \<or> \<not> stops_at eos stops r" "r \<noteq> [] \<or> 0 < n"
    and "sorted_wrt (\<lambda>x y. length y \<le> length x) stops"
  shows "\<exists>w. d_response d = r @ w \<and> length w \<le> n \<and> d_response d \<noteq> [] \<and>
    length (d_behavior d) = length (d_response d) \<and>
    (\<forall>k. length r < k \<and> k < length (r @ w) \<longrightarrow> \<not> stops_at eos stops (take k (r @ w))) \<and>
    finish_ok eos stops (d_response d) (d_finish d) (d_stop d) \<and>
    (d_finish d = ''length'' \<longrightarrow> length w = n)"
  using assms
proof (induction n arbitrary: r b st)
  case 0
  then have "d = \<lparr>d_response = r, d_behavior = b, d_finish = ''length'', d_stop = 0, d_state = st\<rparr>" "r \<noteq> []"
    by simp_all
  with 0 show ?case by (intro exI [of _ "[]"]) (auto simp: finish_ok_def)
next
  case (Suc n)
  from Suc.prems(1) obtain vocab token lp st' where f: "forward st (prompt @ r) = Inr (vocab, Inr (token, lp), st')"
    by (auto simp: bindE_Inr_iff split: if_splits)
  let ?r = "r @ [token]"
  show ?case
  proof (cases "stops_at eos stops ?r")
    case False
    then have n: "find (ends_with ?r) stops = None" "token \<notin> set eos"
      by (auto simp: stops_at_def find_None_iff list_ex_iff)
    with Suc.prems(1) f have "decode_loop forward prompt eos stops n ?r (b @ [lp]) st' = Inr d"
      by (auto split: if_splits)
    from Suc.IH [OF this] Suc.prems(2,5) False obtain w where
      w: "d_response d = ?r @ w" "length w \<le> n" "length (d_behavior d) = length (d_response d)"
        "\<forall>k. length ?r < k \<and> k < length (?r @ w) \<longrightarrow> \<not> stops_at eos stops (take k (?r @ w))"
        "finish_ok eos stops (d_response d) (d_finish d) (d_stop d)" "d_finish d = ''length'' \<longrightarrow> length w = n"
      by auto
    have "\<not> stops_at eos stops (take k (r @ token # w))" if "length r < k" "k < length (r @ token # w)" for k
    proof (cases "k = length ?r")
      case True
      with False show ?thesis by simp
    next
      case False
      with that w(4) show ?thesis by simp
    qed
    with w show ?thesis by (intro exI [of _ "token # w"]) auto
  next
    case True
    have "finish_ok eos stops (d_response d) (d_finish d) (d_stop d) \<and> d_response d = ?r \<and>
      d_behavior d = b @ [lp] \<and> d_finish d \<noteq> ''length''"
    proof (cases "find (ends_with ?r) stops")
      case None
      with True have "token \<in> set eos" by (auto simp: stops_at_def find_None_iff list_ex_iff)
      with Suc.prems(1) f None
      have "d = \<lparr>d_response = ?r, d_behavior = b @ [lp], d_finish = ''eos'', d_stop = 1, d_state = st'\<rparr>"
        by (simp add: Let_def split: if_splits)
      with \<open>token \<in> set eos\<close> None show ?thesis by (auto simp: finish_ok_def find_None_iff list_ex_iff)
    next
      case (Some ids)
      then have "ids \<in> set stops" "ends_with ?r ids" by (auto simp: find_Some_iff)
      moreover have "length ids' \<le> length ids" if "ids' \<in> set stops" "ends_with ?r ids'" for ids'
        using find_longest [OF Suc.prems(5) Some that] .
      moreover from Suc.prems(1) f Some
      have "d = \<lparr>d_response = ?r, d_behavior = b @ [lp], d_finish = ''stop'', d_stop = length ids, d_state = st'\<rparr>"
        by (simp add: Let_def split: if_splits)
      ultimately show ?thesis by (auto simp: finish_ok_def)
    qed
    with Suc.prems(2) show ?thesis by (intro exI [of _ "[token]"]) auto
  qed
qed

lemma Sample_Inr:
  assumes "Sample p r b rew v fin stp raw = Inr s"
  shows "s_prompt_ids s = p \<and> s_response_ids s = r \<and> s_policy_version s = v \<and> s_finish_reason s = fin \<and>
    s_stop_token_count s = stp \<and> r \<noteq> [] \<and> length (s_behavior_log_probs s) = length r"
  using assms unfolding Sample_iff by auto

lemma generate_samples_Inr:
  "generate_samples gen n st = Inr ss \<Longrightarrow> length ss = n \<and> (\<forall>s \<in> set ss. \<exists>st st'. gen st = Inr (s, st'))"
  by (induction n arbitrary: st ss) (fastforce simp: bindE_Inr_iff)+

lemma check_generation_Inr:
  assumes "check_generation gs mx v gid eos sts tr = Inr stops"
  shows "0 < gs \<and> 0 < mx \<and> set stops = set sts \<and> sorted_wrt (\<lambda>x y. length y \<le> length x) stops \<and> [] \<notin> set sts"
proof -
  from assms obtain ys where ys: "mapE (\<lambda>ids. validate_token_ids (ints ids) ''stop_token_sequences'' False) sts = Inr ys"
    and "0 < gs" "0 < mx" and s: "stops = sort_key (\<lambda>ids. - int (length ids)) ys"
    by (auto simp: check_generation_def bindE_Inr_iff split: if_splits option.splits)
  from ys have "ys = sts \<and> [] \<notin> set sts"
    unfolding mapE_Inr_list_all2 validate_token_ids_ints by (induction rule: list_all2_induct) auto
  moreover have "sorted (map (\<lambda>ids. - int (length ids)) stops)" unfolding s by simp
  then have "sorted_wrt (\<lambda>x y. length y \<le> length x) stops" by (simp add: sorted_wrt_map)
  ultimately show ?thesis using \<open>0 < gs\<close> \<open>0 < mx\<close> s by simp
qed

definition sample_ok :: "prompt_record \<Rightarrow> int \<Rightarrow> int list \<Rightarrow> int list list \<Rightarrow> int \<Rightarrow> sample \<Rightarrow> bool" where
  "sample_ok rec mx eos stops v s \<longleftrightarrow>
     s_prompt_ids s = prompt_ids rec \<and> s_policy_version s = v \<and>
     s_response_ids s \<noteq> [] \<and> int (length (s_response_ids s)) \<le> mx \<and>
     length (s_behavior_log_probs s) = length (s_response_ids s) \<and>
     (\<forall>k. 0 < k \<and> k < length (s_response_ids s) \<longrightarrow> \<not> stops_at eos stops (take k (s_response_ids s))) \<and>
     finish_ok eos stops (s_response_ids s) (s_finish_reason s) (nat (s_stop_token_count s)) \<and>
     (s_finish_reason s = ''length'' \<longrightarrow> int (length (s_response_ids s)) = mx)"

lemma finish_ok_cong: "set a = set b \<Longrightarrow> finish_ok eos a = finish_ok eos b"
  by (simp add: fun_eq_iff finish_ok_def stops_at_def list_ex_iff)

lemma stops_at_cong: "set a = set b \<Longrightarrow> stops_at eos a = stops_at eos b"
  by (simp add: fun_eq_iff stops_at_def list_ex_iff)

lemma generate_sample_ok:
  assumes "generate_sample forward rec (nat mx) eos stops v rf tr st = Inr (s, st')" "0 < mx"
    and "sorted_wrt (\<lambda>x y. length y \<le> length x) stops"
  shows "sample_ok rec mx eos stops v s"
proof -
  from assms(1) obtain d raw rew where d: "decode_loop forward (prompt_ids rec) eos stops (nat mx) [] [] st = Inr d"
    and s: "Sample (prompt_ids rec) (d_response d) (d_behavior d) rew v (d_finish d) (int (d_stop d)) (Some raw) = Inr s"
    by (auto simp: generate_sample_def bindE_Inr_iff Let_def)
  from decode_loop_sound [OF d] assms(2,3) Sample_Inr [OF s] show ?thesis
    unfolding sample_ok_def by (auto simp: le_nat_iff)
qed


definition demo_prompt :: prompt_record where
  "demo_prompt = \<lparr>prompt_ids = [1, 2], target_ids = Some [7], metadata = []\<rparr>"

text \<open>A model that counts the tokens it sees and ends with the token 5.\<close>

definition demo_forward :: "nat forward" where
  "demo_forward st ids = Inr (10, Inr (int (length ids), Fin (- 1)), Suc st)"

definition demo_reward :: reward_fn where
  "demo_reward = \<lparr>score = (\<lambda>_ ids. Inr (Fin (of_nat (length ids)))), strip_stop_tokens = True\<rparr>"


end
