(* ===== verification/Training.thy ===== *)
theory Training
  imports Rollout
begin

text \<open>
  The exact training records of \<^verbatim>\<open>rollout_manager/training.py\<close>: policy receipts, turn traces,
  trajectories and complete groups, with the checks of their constructors, the conversions to and
  from dictionaries that IPC and the durable JSON records use, and the conversions from and to the
  legacy rollout groups of \<open>Rollout\<close>.
  Constructors take JSON values where \<^verbatim>\<open>from_dict\<close> hands them unchecked values. The SHA-256
  digest of a text is an argument \<open>sha\<close>. The JSON text itself is written and read by the
  standard library; a record's document is the dictionary in the envelope of \<open>dumps\<close>.
\<close>

section \<open>Checks\<close>

definition int_field :: "json \<Rightarrow> string \<Rightarrow> int \<Rightarrow> int result" where
  "int_field v name minimum =
     (case v of
        JInt i \<Rightarrow> if i < minimum then Inl (ValueError (name @ '' must be an integer >= '' @ show_int minimum)) else Inr i
      | _ \<Rightarrow> Inl (ValueError (name @ '' must be an integer >= '' @ show_int minimum)))"

definition digest_field :: "json \<Rightarrow> string \<Rightarrow> string result" where
  "digest_field v name =
     (case v of
        JStr s \<Rightarrow> if is_hex 64 s then Inr s else Inl (ValueError (name @ '' must be a lowercase SHA256 digest''))
      | _ \<Rightarrow> Inl (ValueError (name @ '' must be a lowercase SHA256 digest'')))"

definition nonempty_str :: "json \<Rightarrow> string \<Rightarrow> string result" where
  "nonempty_str v msg =
     (case v of JStr s \<Rightarrow> if s = [] then Inl (ValueError msg) else Inr s | _ \<Rightarrow> Inl (ValueError msg))"

text \<open>\<^verbatim>\<open>tuple(values)\<close>: a dictionary iterates over its keys, a scalar is not iterable.\<close>

definition iterate_values :: "json \<Rightarrow> json list result" where
  "iterate_values v =
     (case v of
        JList xs \<Rightarrow> Inr xs
      | JObj d \<Rightarrow> Inr (map (\<lambda>p. JStr (fst p)) d)
      | JStr s \<Rightarrow> Inr (map (\<lambda>c. JStr [c]) s)
      | _ \<Rightarrow> Inl (TypeError ''object is not iterable''))"

definition token_tuple :: "json \<Rightarrow> string \<Rightarrow> int list result" where
  "token_tuple v name =
     (if is_str v then Inl (ValueError (name @ '' requires exact token IDs''))
      else bindE (iterate_values v) (\<lambda>xs.
        if xs = [] \<or> list_ex (\<lambda>x. int_token x = None) xs
        then Inl (ValueError (name @ '' requires nonempty nonnegative integer token IDs''))
        else Inr (map (\<lambda>x. the (int_token x)) xs)))"

fun finite_field :: "json \<Rightarrow> string \<Rightarrow> rat result" where
  "finite_field (JInt i) name = float_of_int i"
| "finite_field (JFloat (Fin q)) name = Inr q"
| "finite_field _ name = Inl (ValueError (name @ '' must be finite''))"

definition check_fields :: "json \<Rightarrow> string list \<Rightarrow> dict result" where
  "check_fields v names =
     (case v of
        JObj d \<Rightarrow> if keys_are d names then Inr d
                  else Inl (ValueError ''training record has missing or unknown fields'')
      | _ \<Rightarrow> Inl (ValueError ''training record has missing or unknown fields''))"

text \<open>\<^verbatim>\<open>dict(value)\<close> of a dictionary, of an empty string or of a list of pairs with string keys;
  everything else raises.\<close>

fun pair_of :: "json \<Rightarrow> (string \<times> json) result" where
  "pair_of (JList [JStr k, v]) = Inr (k, v)"
| "pair_of (JStr [a, b]) = Inr ([a], JStr [b])"
| "pair_of (JObj [a, b]) = Inr (fst a, JStr (fst b))"
| "pair_of _ = Inl (TypeError ''cannot convert dictionary update sequence element'')"

definition as_dict :: "json \<Rightarrow> dict result" where
  "as_dict v =
     (case v of
        JObj d \<Rightarrow> Inr d
      | JStr [] \<Rightarrow> Inr []
      | JList xs \<Rightarrow> bindE (mapE pair_of xs) (\<lambda>ps. Inr (dupdate [] ps))
      | _ \<Rightarrow> Inl (TypeError ''object is not a mapping''))"

section \<open>Policy receipts\<close>

record policy_ref =
  version :: int
  digest :: string
  lineage :: string
  identities :: dict
  sampling :: dict

definition full_sampling :: "rat \<Rightarrow> dict" where
  "full_sampling temperature =
     [(''temperature'', JFloat (Fin temperature)), (''top_p'', JFloat (Fin 1)), (''top_k'', JInt 0)]"

fun is_number :: "json \<Rightarrow> bool" where
  "is_number (JInt _) = True"
| "is_number (JFloat _) = True"
| "is_number _ = False"

fun good_identity :: "string \<times> json \<Rightarrow> bool" where
  "good_identity (k, JStr v) = (k \<noteq> [] \<and> v \<noteq> [])"
| "good_identity _ = False"

definition check_sampling :: "json \<Rightarrow> rat result" where
  "check_sampling v =
     bindE (as_dict v) (\<lambda>s.
     bindE (check_fields (JObj s) [''temperature'', ''top_p'', ''top_k'']) (\<lambda>_.
     bindE (finite_field (dget s ''temperature'') ''temperature'') (\<lambda>t.
     if t \<le> 0 \<or> \<not> is_number (dget s ''top_p'') \<or> \<not> py_eq (dget s ''top_p'') (JInt 1) \<or> dget s ''top_k'' \<noteq> JInt 0
     then Inl (ValueError ''training requires positive temperature and full categorical sampling'')
     else Inr t)))"

definition PolicyRef :: "json \<Rightarrow> json \<Rightarrow> json \<Rightarrow> json \<Rightarrow> json \<Rightarrow> policy_ref result" where
  "PolicyRef ver dig lin idents samp =
     bindE (int_field ver ''policy version'' 0) (\<lambda>ver.
     bindE (digest_field dig ''policy digest'') (\<lambda>dig.
     bindE (nonempty_str lin ''policy requires run lineage'') (\<lambda>lin.
     bindE (as_dict idents) (\<lambda>idents.
     if \<not> list_all good_identity idents
     then Inl (ValueError ''policy identities require nonempty string names and values'')
     else bindE (check_sampling samp) (\<lambda>t.
       Inr \<lparr>version = ver, digest = dig, lineage = lin, identities = idents, sampling = full_sampling t\<rparr>)))))"

definition policy_to_dict :: "policy_ref \<Rightarrow> json" where
  "policy_to_dict p = JObj
     [(''version'', JInt (version p)), (''digest'', JStr (digest p)), (''lineage'', JStr (lineage p)),
      (''identities'', JObj (identities p)), (''sampling'', JObj (sampling p))]"

definition policy_from_dict :: "json \<Rightarrow> policy_ref result" where
  "policy_from_dict v =
     bindE (check_fields v [''version'', ''digest'', ''lineage'', ''identities'', ''sampling'']) (\<lambda>d.
       PolicyRef (dget d ''version'') (dget d ''digest'') (dget d ''lineage'') (dget d ''identities'')
         (dget d ''sampling''))"

text \<open>Dataclass equality: the two mappings compare as dictionaries.\<close>

definition policy_eq :: "policy_ref \<Rightarrow> policy_ref \<Rightarrow> bool" where
  "policy_eq p q \<longleftrightarrow> version p = version q \<and> digest p = digest q \<and> lineage p = lineage q \<and>
     py_eq (JObj (identities p)) (JObj (identities q)) \<and> py_eq (JObj (sampling p)) (JObj (sampling q))"

section \<open>Turn traces\<close>

record turn_trace =
  turn_id :: int
  request_id :: string
  context_token_ids :: "int list"
  action_token_ids :: "int list"
  behavior_log_probs :: "rat list"
  turn_policy :: policy_ref
  finish_reason :: string
  stop_token_count :: int
  context_truncation :: string

definition finish_field :: "json \<Rightarrow> string result" where
  "finish_field v =
     (case v of
        JStr s \<Rightarrow> if s \<in> {''eos'', ''stop'', ''length'', ''tool_calls''} then Inr s
                  else Inl (ValueError ''unsupported sampled finish reason'')
      | JList _ \<Rightarrow> Inl (TypeError ''unhashable type'')
      | JObj _ \<Rightarrow> Inl (TypeError ''unhashable type'')
      | _ \<Rightarrow> Inl (ValueError ''unsupported sampled finish reason''))"

definition TurnTrace ::
  "json \<Rightarrow> json \<Rightarrow> json \<Rightarrow> json \<Rightarrow> json \<Rightarrow> policy_ref \<Rightarrow> json \<Rightarrow> json \<Rightarrow> json \<Rightarrow> turn_trace result" where
  "TurnTrace tid rid ctx acts probs pol fin stp trunc =
     bindE (int_field tid ''turn_id'' 1) (\<lambda>tid.
     bindE (nonempty_str rid ''turn requires a request identity'') (\<lambda>rid.
     bindE (token_tuple ctx ''context_token_ids'') (\<lambda>ctx.
     bindE (token_tuple acts ''action_token_ids'') (\<lambda>acts.
     bindE (iterate_values probs) (\<lambda>ps.
     bindE (mapE (\<lambda>x. finite_field x ''behavior log probability'') ps) (\<lambda>ps.
     if length acts \<noteq> length ps \<or> list_ex (\<lambda>q. q > 0) ps
     then Inl (ValueError ''each action token requires one nonpositive behavior log probability'')
     else bindE (finish_field fin) (\<lambda>fin.
     bindE (int_field stp ''stop_token_count'' 0) (\<lambda>stp.
     if stp > int (length acts) then Inl (ValueError ''stop_token_count exceeds sampled actions'')
     else bindE (nonempty_str trunc ''context truncation rule must be explicit'') (\<lambda>trunc.
       Inr \<lparr>turn_id = tid, request_id = rid, context_token_ids = ctx, action_token_ids = acts,
            behavior_log_probs = ps, turn_policy = pol, finish_reason = fin, stop_token_count = stp,
            context_truncation = trunc\<rparr>)))))))))"

definition turn_fields :: "string list" where
  "turn_fields = [''turn_id'', ''request_id'', ''context_token_ids'', ''action_token_ids'', ''behavior_log_probs'',
     ''policy'', ''finish_reason'', ''stop_token_count'', ''context_truncation'']"

definition floats :: "rat list \<Rightarrow> json" where
  "floats qs = JList (map (\<lambda>q. JFloat (Fin q)) qs)"

definition turn_to_dict :: "turn_trace \<Rightarrow> json" where
  "turn_to_dict t = JObj
     [(''turn_id'', JInt (turn_id t)), (''request_id'', JStr (request_id t)),
      (''context_token_ids'', ints (context_token_ids t)), (''action_token_ids'', ints (action_token_ids t)),
      (''behavior_log_probs'', floats (behavior_log_probs t)), (''policy'', policy_to_dict (turn_policy t)),
      (''finish_reason'', JStr (finish_reason t)), (''stop_token_count'', JInt (stop_token_count t)),
      (''context_truncation'', JStr (context_truncation t))]"

definition turn_from_dict :: "json \<Rightarrow> turn_trace result" where
  "turn_from_dict v =
     bindE (check_fields v turn_fields) (\<lambda>d.
     bindE (policy_from_dict (dget d ''policy'')) (\<lambda>pol.
       TurnTrace (dget d ''turn_id'') (dget d ''request_id'') (dget d ''context_token_ids'')
         (dget d ''action_token_ids'') (dget d ''behavior_log_probs'') pol (dget d ''finish_reason'')
         (dget d ''stop_token_count'') (dget d ''context_truncation'')))"

section \<open>Trajectories\<close>

fun join :: "string \<Rightarrow> string list \<Rightarrow> string" where
  "join sep [] = []"
| "join sep [w] = w"
| "join sep (w # ws) = w @ sep @ join sep ws"

definition token_digest :: "(string \<Rightarrow> string) \<Rightarrow> int list \<Rightarrow> string result" where
  "token_digest sha ts =
     bindE (token_tuple (ints ts) ''tokens'') (\<lambda>ts. Inr (sha (''['' @ join '','' (map show_int ts) @ '']'')))"

record training_trajectory =
  tj_group_id :: int
  tj_task_id :: string
  initial_context_sha256 :: string
  reset_sha256 :: string
  tj_sample_index :: int
  turns :: "turn_trace list"
  tj_reward :: "rat option"
  reward_eligible :: bool
  exclusion_reason :: "string option"
  evidence :: dict
  sample_id :: string
  tj_raw_reward :: "rat option"
  tj_sampling_seed :: "int option"

definition optional :: "(json \<Rightarrow> 'a result) \<Rightarrow> json \<Rightarrow> 'a option result" where
  "optional f v = (if v = JNull then Inr None else bindE (f v) (\<lambda>x. Inr (Some x)))"

text \<open>\<^verbatim>\<open>json.dumps(value, allow_nan=False)\<close> raises on a non-finite float; reading the text back gives
  the same value.\<close>

fun finite_json :: "json \<Rightarrow> bool" where
  "finite_json (JFloat f) = isfinite f"
| "finite_json (JList xs) = list_all finite_json xs"
| "finite_json (JObj d) = list_all (\<lambda>p. finite_json (snd p)) d"
| "finite_json _ = True"

definition check_turns :: "turn_trace list \<Rightarrow> unit result" where
  "check_turns ts =
     (if ts = [] then Inl (ValueError ''trajectory requires exact turn traces'')
      else if map turn_id ts \<noteq> map int [1 ..< Suc (length ts)]
      then Inl (ValueError ''trajectory turn IDs must be consecutive and ordered'')
      else if \<not> distinct (map request_id ts) then Inl (ValueError ''trajectory has duplicate request identities'')
      else if list_ex (\<lambda>t. \<not> policy_eq (turn_policy t) (turn_policy (hd ts))) ts
      then Inl (ValueError ''all trajectory turns require one policy receipt'')
      else Inr ())"

definition exclusion_field :: "bool \<Rightarrow> json \<Rightarrow> string option result" where
  "exclusion_field eligible why =
     (if eligible then
        if why \<noteq> JNull then Inl (ValueError ''eligible trajectory cannot have an exclusion reason'') else Inr None
      else bindE (nonempty_str why ''excluded trajectory requires a reason'') (\<lambda>s. Inr (Some s)))"

definition bool_field :: "json \<Rightarrow> bool result" where
  "bool_field v = (case v of JBool b \<Rightarrow> Inr b | _ \<Rightarrow> Inl (ValueError ''reward eligibility must be explicit''))"

definition evidence_field :: "json \<Rightarrow> dict result" where
  "evidence_field v =
     bindE (as_dict v) (\<lambda>d. if finite_json (JObj d) then Inr d
       else Inl (ValueError ''Out of range float values are not JSON compliant''))"

definition TrainingTrajectory ::
  "(string \<Rightarrow> string) \<Rightarrow> json \<Rightarrow> json \<Rightarrow> json \<Rightarrow> json \<Rightarrow> json \<Rightarrow> turn_trace list \<Rightarrow> json \<Rightarrow> json \<Rightarrow> json \<Rightarrow> json \<Rightarrow>
   json \<Rightarrow> json \<Rightarrow> json \<Rightarrow> training_trajectory result" where
  "TrainingTrajectory sha gid tid ctx reset idx ts rew eligible why ev sid raw seed =
     bindE (int_field gid ''training group_id'' 0) (\<lambda>gid.
     bindE (int_field idx ''sample_index'' 0) (\<lambda>idx.
     bindE (nonempty_str tid ''trajectory requires task identity'') (\<lambda>tid.
     bindE (digest_field ctx ''initial context digest'') (\<lambda>ctx.
     bindE (digest_field reset ''reset digest'') (\<lambda>reset.
     bindE (check_turns ts) (\<lambda>_.
     bindE (token_digest sha (context_token_ids (hd ts))) (\<lambda>actual.
     if actual \<noteq> ctx then Inl (ValueError ''initial context digest differs from actual tokens'')
     else bindE (bool_field eligible) (\<lambda>eligible.
     bindE (optional (\<lambda>v. finite_field v ''reward'') rew) (\<lambda>rew.
     bindE (optional (\<lambda>v. finite_field v ''raw reward'') raw) (\<lambda>raw.
     bindE (exclusion_field eligible why) (\<lambda>why.
     bindE (optional (\<lambda>v. int_field v ''sampling_seed'' 0) seed) (\<lambda>seed.
     bindE (if sid = JNull then Inr (show_int gid @ '':'' @ show_int idx)
            else nonempty_str sid ''trajectory requires sample identity'') (\<lambda>sid.
     bindE (evidence_field ev) (\<lambda>ev.
       Inr \<lparr>tj_group_id = gid, tj_task_id = tid, initial_context_sha256 = ctx, reset_sha256 = reset,
            tj_sample_index = idx, turns = ts, tj_reward = rew, reward_eligible = eligible,
            exclusion_reason = why, evidence = ev, sample_id = sid, tj_raw_reward = raw,
            tj_sampling_seed = seed\<rparr>))))))))))))))"

definition tj_policy :: "training_trajectory \<Rightarrow> policy_ref" where
  "tj_policy t = turn_policy (hd (turns t))"

definition single_turn :: "training_trajectory \<Rightarrow> turn_trace result" where
  "single_turn t =
     (if length (turns t) \<noteq> 1
      then Inl (ValueError ''multi-turn trajectories require per-turn contexts, not flattened responses'')
      else Inr (hd (turns t)))"

definition tj_content_ids :: "training_trajectory \<Rightarrow> int list result" where
  "tj_content_ids t =
     bindE (single_turn t) (\<lambda>turn.
       let response = action_token_ids turn; n = nat (stop_token_count (last (turns t)))
       in Inr (if n \<noteq> 0 then take (length response - n) response else response))"

fun opt_float :: "rat option \<Rightarrow> json" where
  "opt_float None = JNull"
| "opt_float (Some q) = JFloat (Fin q)"

fun opt_int :: "int option \<Rightarrow> json" where
  "opt_int None = JNull"
| "opt_int (Some i) = JInt i"

fun opt_str :: "string option \<Rightarrow> json" where
  "opt_str None = JNull"
| "opt_str (Some s) = JStr s"

definition trajectory_fields :: "string list" where
  "trajectory_fields = [''group_id'', ''task_id'', ''initial_context_sha256'', ''reset_sha256'', ''sample_index'',
     ''sample_id'', ''turns'', ''reward'', ''reward_eligible'', ''exclusion_reason'', ''evidence'', ''raw_reward'',
     ''sampling_seed'']"

definition trajectory_to_dict :: "training_trajectory \<Rightarrow> json" where
  "trajectory_to_dict t = JObj
     [(''group_id'', JInt (tj_group_id t)), (''task_id'', JStr (tj_task_id t)),
      (''initial_context_sha256'', JStr (initial_context_sha256 t)), (''reset_sha256'', JStr (reset_sha256 t)),
      (''sample_index'', JInt (tj_sample_index t)), (''sample_id'', JStr (sample_id t)),
      (''turns'', JList (map turn_to_dict (turns t))), (''reward'', opt_float (tj_reward t)),
      (''reward_eligible'', JBool (reward_eligible t)), (''exclusion_reason'', opt_str (exclusion_reason t)),
      (''evidence'', JObj (evidence t)), (''raw_reward'', opt_float (tj_raw_reward t)),
      (''sampling_seed'', opt_int (tj_sampling_seed t))]"

definition trajectory_from_dict :: "(string \<Rightarrow> string) \<Rightarrow> json \<Rightarrow> training_trajectory result" where
  "trajectory_from_dict sha v =
     bindE (check_fields v trajectory_fields) (\<lambda>d.
     bindE (iterate_values (dget d ''turns'')) (\<lambda>ts.
     bindE (mapE turn_from_dict ts) (\<lambda>ts.
       TrainingTrajectory sha (dget d ''group_id'') (dget d ''task_id'') (dget d ''initial_context_sha256'')
         (dget d ''reset_sha256'') (dget d ''sample_index'') ts (dget d ''reward'') (dget d ''reward_eligible'')
         (dget d ''exclusion_reason'') (dget d ''evidence'') (dget d ''sample_id'') (dget d ''raw_reward'')
         (dget d ''sampling_seed''))))"

section \<open>Groups\<close>

record training_group =
  tg_group_id :: int
  tg_task_id :: string
  tg_initial_context_sha256 :: string
  tg_reset_sha256 :: string
  tg_policy :: policy_ref
  expected_size :: int
  tg_samples :: "training_trajectory list"

definition same_group :: "int \<Rightarrow> json \<Rightarrow> json \<Rightarrow> json \<Rightarrow> policy_ref \<Rightarrow> training_trajectory \<Rightarrow> bool" where
  "same_group gid tid ctx reset pol s \<longleftrightarrow>
     tj_group_id s = gid \<and> tid = JStr (tj_task_id s) \<and> ctx = JStr (initial_context_sha256 s) \<and>
     reset = JStr (reset_sha256 s) \<and> policy_eq (tj_policy s) pol"

fun check_samples :: "(training_trajectory \<Rightarrow> bool) \<Rightarrow> training_trajectory list \<Rightarrow> unit result" where
  "check_samples same [] = Inr ()"
| "check_samples same (s # ss) =
     (if \<not> same s then Inl (ValueError ''training group requires the same task, initial context, reset and policy'')
      else if \<not> reward_eligible s \<or> tj_reward s = None
      then Inl (ValueError ''training requires G eligible finite rewards; missing is not zero'')
      else check_samples same ss)"

definition TrainingGroup ::
  "json \<Rightarrow> json \<Rightarrow> json \<Rightarrow> json \<Rightarrow> policy_ref \<Rightarrow> json \<Rightarrow> training_trajectory list \<Rightarrow> training_group result" where
  "TrainingGroup gid tid ctx reset pol G ss =
     bindE (int_field gid ''training group_id'' 0) (\<lambda>gid.
     bindE (int_field G ''expected group size'' 2) (\<lambda>G.
     if int (length ss) \<noteq> G then Inl (ValueError ''training requires a complete group of exactly G trajectories'')
     else if set (map tj_sample_index ss) \<noteq> {0 ..< G} \<or> \<not> distinct (map sample_id ss)
     then Inl (ValueError ''training group requires unique sample identities and indices 0..G-1'')
     else if \<not> distinct (map request_id (concat (map turns ss)))
     then Inl (ValueError ''training group has duplicate request identities'')
     else bindE (check_samples (same_group gid tid ctx reset pol) ss) (\<lambda>_.
       Inr \<lparr>tg_group_id = gid, tg_task_id = tj_task_id (hd ss),
            tg_initial_context_sha256 = initial_context_sha256 (hd ss), tg_reset_sha256 = reset_sha256 (hd ss),
            tg_policy = pol, expected_size = G, tg_samples = sort_key tj_sample_index ss\<rparr>)))"

definition group_fields :: "string list" where
  "group_fields = [''group_id'', ''task_id'', ''initial_context_sha256'', ''reset_sha256'', ''policy'',
     ''expected_size'', ''samples'']"

definition group_to_dict :: "training_group \<Rightarrow> json" where
  "group_to_dict g = JObj
     [(''group_id'', JInt (tg_group_id g)), (''task_id'', JStr (tg_task_id g)),
      (''initial_context_sha256'', JStr (tg_initial_context_sha256 g)), (''reset_sha256'', JStr (tg_reset_sha256 g)),
      (''policy'', policy_to_dict (tg_policy g)), (''expected_size'', JInt (expected_size g)),
      (''samples'', JList (map trajectory_to_dict (tg_samples g)))]"

definition group_from_dict :: "(string \<Rightarrow> string) \<Rightarrow> json \<Rightarrow> training_group result" where
  "group_from_dict sha v =
     bindE (check_fields v group_fields) (\<lambda>d.
     bindE (policy_from_dict (dget d ''policy'')) (\<lambda>pol.
     bindE (iterate_values (dget d ''samples'')) (\<lambda>ss.
     bindE (mapE (trajectory_from_dict sha) ss) (\<lambda>ss.
       TrainingGroup (dget d ''group_id'') (dget d ''task_id'') (dget d ''initial_context_sha256'')
         (dget d ''reset_sha256'') pol (dget d ''expected_size'') ss))))"

section \<open>The record envelope\<close>

datatype training_record =
    Policy_rec policy_ref
  | Turn_rec turn_trace
  | Trajectory_rec training_trajectory
  | Group_rec training_group

fun record_kind :: "training_record \<Rightarrow> string" where
  "record_kind (Policy_rec _) = ''PolicyRef''"
| "record_kind (Turn_rec _) = ''TurnTrace''"
| "record_kind (Trajectory_rec _) = ''TrainingTrajectory''"
| "record_kind (Group_rec _) = ''TrainingGroup''"

fun record_to_dict :: "training_record \<Rightarrow> json" where
  "record_to_dict (Policy_rec r) = policy_to_dict r"
| "record_to_dict (Turn_rec r) = turn_to_dict r"
| "record_to_dict (Trajectory_rec r) = trajectory_to_dict r"
| "record_to_dict (Group_rec r) = group_to_dict r"

definition dumps :: "training_record \<Rightarrow> json" where
  "dumps r = JObj [(''schema_version'', JInt 1), (''kind'', JStr (record_kind r)), (''record'', record_to_dict r)]"

definition read_kind :: "(string \<Rightarrow> string) \<Rightarrow> json \<Rightarrow> json \<Rightarrow> training_record result" where
  "read_kind sha kind v =
     (if kind = JStr ''PolicyRef'' then bindE (policy_from_dict v) (\<lambda>r. Inr (Policy_rec r))
      else if kind = JStr ''TurnTrace'' then bindE (turn_from_dict v) (\<lambda>r. Inr (Turn_rec r))
      else if kind = JStr ''TrainingTrajectory'' then bindE (trajectory_from_dict sha v) (\<lambda>r. Inr (Trajectory_rec r))
      else if kind = JStr ''TrainingGroup'' then bindE (group_from_dict sha v) (\<lambda>r. Inr (Group_rec r))
      else Inl (ValueError ''unsupported training record schema or kind''))"

definition loads :: "(string \<Rightarrow> string) \<Rightarrow> json \<Rightarrow> training_record result" where
  "loads sha doc =
     (if \<not> unique_keys doc then Inl (ValueError ''duplicate JSON field'')
      else if \<not> finite_json doc then Inl (ValueError ''nonfinite JSON number'')
      else bindE (check_fields doc [''schema_version'', ''kind'', ''record'']) (\<lambda>d.
        if dget d ''schema_version'' \<noteq> JInt 1
        then Inl (ValueError ''unsupported training record schema or kind'')
        else read_kind sha (dget d ''kind'') (dget d ''record'')))"

section \<open>Legacy groups\<close>

definition legacy_trajectory ::
  "(string \<Rightarrow> string) \<Rightarrow> int \<Rightarrow> json \<Rightarrow> string \<Rightarrow> json \<Rightarrow> policy_ref \<Rightarrow> string \<Rightarrow> nat \<Rightarrow> sample \<Rightarrow>
   training_trajectory result" where
  "legacy_trajectory sha gid tid context reset pol pfx i s =
     (if s_policy_version s \<noteq> version pol
      then Inl (ValueError ''legacy sample differs from acknowledged policy version'')
      else
        bindE (TurnTrace (JInt 1) (JStr (pfx @ ''-s'' @ show_nat i)) (ints (s_prompt_ids s)) (ints (s_response_ids s))
                 (floats (s_behavior_log_probs s)) pol (JStr (s_finish_reason s)) (JInt (s_stop_token_count s))
                 (JStr ''none'')) (\<lambda>turn.
        TrainingTrajectory sha (JInt gid) tid (JStr context) reset (JInt (int i)) [turn] (JFloat (Fin (s_reward s)))
          (JBool True) JNull (JObj []) JNull (JFloat (Fin (s_raw_reward s))) JNull))"

fun mapE_from :: "nat \<Rightarrow> (nat \<Rightarrow> 'a \<Rightarrow> 'b result) \<Rightarrow> 'a list \<Rightarrow> 'b list result" where
  "mapE_from n f [] = Inr []"
| "mapE_from n f (x # xs) = bindE (f n x) (\<lambda>y. bindE (mapE_from (Suc n) f xs) (\<lambda>ys. Inr (y # ys)))"

definition from_rollout_group ::
  "(string \<Rightarrow> string) \<Rightarrow> rollout_group \<Rightarrow> policy_ref \<Rightarrow> json \<Rightarrow> json \<Rightarrow> string option \<Rightarrow> training_group result" where
  "from_rollout_group sha g pol tid reset request_prefix =
     (if g_policy_version g \<noteq> version pol
      then Inl (ValueError ''legacy group differs from acknowledged policy version'')
      else if length (samples g) < 2
      then Inl (ValueError ''training requires a complete group of at least two samples'')
      else bindE (token_digest sha (s_prompt_ids (hd (samples g)))) (\<lambda>context.
        let pfx = (case request_prefix of
              Some (c # cs) \<Rightarrow> c # cs
            | _ \<Rightarrow> take 12 (sha (lineage pol)) @ ''-g'' @ show_int (g_group_id g)) in
        bindE (mapE_from 0 (legacy_trajectory sha (g_group_id g) tid context reset pol pfx) (samples g)) (\<lambda>ss.
        TrainingGroup (JInt (g_group_id g)) tid (JStr context) reset pol (JInt (int (length ss))) ss)))"

definition legacy_sample :: "training_trajectory \<Rightarrow> sample result" where
  "legacy_sample t =
     bindE (single_turn t) (\<lambda>turn.
     if finish_reason turn = ''tool_calls''
     then Inl (ValueError ''legacy Sample does not represent tool-call finish reasons'')
     else case tj_reward t of
       None \<Rightarrow> Inl (TypeError ''float() argument must be a real number'')
     | Some rew \<Rightarrow>
         Sample (context_token_ids turn) (action_token_ids turn) (map Fin (behavior_log_probs turn)) (Fin rew)
           (version (tj_policy t)) (finish_reason turn) (stop_token_count turn) (map_option Fin (tj_raw_reward t)))"

definition to_rollout_group :: "training_group \<Rightarrow> rollout_group result" where
  "to_rollout_group g =
     bindE (mapE legacy_sample (tg_samples g)) (\<lambda>ss.
       RolloutGroup ss (tg_group_id g) (version (tg_policy g)))"

section \<open>What the field checks accept\<close>

lemma int_field_Inr: "int_field v n m = Inr i \<longleftrightarrow> v = JInt i \<and> m \<le> i"
  by (cases v) (auto simp: int_field_def)

lemma digest_field_Inr: "digest_field v n = Inr s \<longleftrightarrow> v = JStr s \<and> is_hex 64 s"
  by (cases v) (auto simp: digest_field_def)

lemma nonempty_str_Inr: "nonempty_str v n = Inr s \<longleftrightarrow> v = JStr s \<and> s \<noteq> []"
  by (cases v) (auto simp: nonempty_str_def)

lemma finish_field_Inr:
  "finish_field v = Inr s \<longleftrightarrow> v = JStr s \<and> s \<in> {''eos'', ''stop'', ''length'', ''tool_calls''}"
proof (cases v)
  case (JStr x)
  then show ?thesis by (simp add: finish_field_def guard_Inr_iff del: insert_iff) blast
qed (simp_all add: finish_field_def)

lemma bool_field_Inr: "bool_field v = Inr b \<longleftrightarrow> v = JBool b"
  by (cases v) (auto simp: bool_field_def)

lemma token_tuple_ints: "token_tuple (ints ts) n = Inr us \<longleftrightarrow> us = ts \<and> ts \<noteq> [] \<and> (\<forall>x \<in> set ts. 0 \<le> x)"
proof -
  have "map (\<lambda>x. the (int_token (JInt x))) ts = ts" if "\<forall>x \<in> set ts. 0 \<le> x"
    using that by (induction ts) auto
  then show ?thesis by (auto simp: token_tuple_def iterate_values_def ints_def list_ex_iff comp_def not_less)
qed

lemma token_tuple_Inr: "token_tuple v n = Inr ts \<Longrightarrow> ts \<noteq> [] \<and> (\<forall>x \<in> set ts. 0 \<le> x)"
proof -
  assume "token_tuple v n = Inr ts"
  then obtain xs where "xs \<noteq> []" "\<forall>x \<in> set xs. int_token x \<noteq> None" "ts = map (\<lambda>x. the (int_token x)) xs"
    by (auto simp: token_tuple_def bindE_Inr_iff list_ex_iff split: if_splits)
  moreover have "0 \<le> the (int_token x)" if "int_token x \<noteq> None" for x
    using that by (cases x rule: int_token.cases) auto
  ultimately show ?thesis by auto
qed

lemma iterate_floats: "bindE (iterate_values (floats qs)) (mapE (\<lambda>x. finite_field x n)) = Inr qs"
proof -
  have "mapE (\<lambda>x. finite_field x n) (map (\<lambda>q. JFloat (Fin q)) qs) = Inr qs" by (induction qs) auto
  then show ?thesis by (simp add: iterate_values_def floats_def)
qed

lemmas field_simps_Inr = int_field_Inr digest_field_Inr nonempty_str_Inr finish_field_Inr bool_field_Inr bindE_Inr_iff

lemma check_fields_Inr: "check_fields v names = Inr d \<longleftrightarrow> v = JObj d \<and> keys_are d names"
  by (cases v) (auto simp: check_fields_def)

section \<open>Valid records\<close>

definition valid_policy :: "policy_ref \<Rightarrow> bool" where
  "valid_policy p \<longleftrightarrow> 0 \<le> version p \<and> is_hex 64 (digest p) \<and> lineage p \<noteq> [] \<and>
     list_all good_identity (identities p) \<and> distinct (map fst (identities p)) \<and>
     (\<exists>t > 0. sampling p = full_sampling t)"

definition valid_turn :: "turn_trace \<Rightarrow> bool" where
  "valid_turn t \<longleftrightarrow> 1 \<le> turn_id t \<and> request_id t \<noteq> [] \<and>
     context_token_ids t \<noteq> [] \<and> (\<forall>x \<in> set (context_token_ids t). 0 \<le> x) \<and>
     action_token_ids t \<noteq> [] \<and> (\<forall>x \<in> set (action_token_ids t). 0 \<le> x) \<and>
     length (behavior_log_probs t) = length (action_token_ids t) \<and> (\<forall>q \<in> set (behavior_log_probs t). q \<le> 0) \<and>
     finish_reason t \<in> {''eos'', ''stop'', ''length'', ''tool_calls''} \<and>
     0 \<le> stop_token_count t \<and> stop_token_count t \<le> int (length (action_token_ids t)) \<and>
     context_truncation t \<noteq> [] \<and> valid_policy (turn_policy t)"

definition valid_trajectory :: "(string \<Rightarrow> string) \<Rightarrow> training_trajectory \<Rightarrow> bool" where
  "valid_trajectory sha t \<longleftrightarrow> 0 \<le> tj_group_id t \<and> 0 \<le> tj_sample_index t \<and> tj_task_id t \<noteq> [] \<and>
     is_hex 64 (initial_context_sha256 t) \<and> is_hex 64 (reset_sha256 t) \<and>
     check_turns (turns t) = Inr () \<and> (\<forall>u \<in> set (turns t). valid_turn u) \<and>
     token_digest sha (context_token_ids (hd (turns t))) = Inr (initial_context_sha256 t) \<and>
     (reward_eligible t \<longleftrightarrow> exclusion_reason t = None) \<and> exclusion_reason t \<noteq> Some [] \<and>
     (\<forall>i. tj_sampling_seed t = Some i \<longrightarrow> 0 \<le> i) \<and> sample_id t \<noteq> [] \<and>
     finite_json (JObj (evidence t)) \<and> unique_keys (JObj (evidence t))"

definition valid_group :: "(string \<Rightarrow> string) \<Rightarrow> training_group \<Rightarrow> bool" where
  "valid_group sha g \<longleftrightarrow> 0 \<le> tg_group_id g \<and> 2 \<le> expected_size g \<and>
     map tj_sample_index (tg_samples g) = map int [0 ..< nat (expected_size g)] \<and>
     distinct (map sample_id (tg_samples g)) \<and> distinct (map request_id (concat (map turns (tg_samples g)))) \<and>
     valid_policy (tg_policy g) \<and>
     (\<forall>s \<in> set (tg_samples g). valid_trajectory sha s \<and> reward_eligible s \<and> tj_reward s \<noteq> None \<and>
        same_group (tg_group_id g) (JStr (tg_task_id g)) (JStr (tg_initial_context_sha256 g))
          (JStr (tg_reset_sha256 g)) (tg_policy g) s)"

section \<open>Reading back what was written\<close>

lemma check_sampling_full: "0 < t \<Longrightarrow> check_sampling (JObj (full_sampling t)) = Inr t"
  by (simp add: check_sampling_def as_dict_def check_fields_def keys_are_def full_sampling_def)

lemma policy_roundtrip: "valid_policy p \<Longrightarrow> policy_from_dict (policy_to_dict p) = Inr p"
  by (auto simp: valid_policy_def policy_from_dict_def policy_to_dict_def check_fields_def keys_are_def PolicyRef_def
    field_simps_Inr as_dict_def check_sampling_full int_field_def digest_field_def nonempty_str_def)

lemma turn_keys: "turn_to_dict t = JObj d \<Longrightarrow> keys_are d turn_fields"
  by (auto simp: turn_to_dict_def turn_fields_def keys_are_def)

lemma finish_field_in:
  "s \<in> {''eos'', ''stop'', ''length'', ''tool_calls''} \<Longrightarrow> finish_field (JStr s) = Inr s"
  by (simp only: finish_field_Inr)

lemma TurnTrace_valid:
  assumes "valid_turn t"
  shows "TurnTrace (JInt (turn_id t)) (JStr (request_id t)) (ints (context_token_ids t)) (ints (action_token_ids t))
    (floats (behavior_log_probs t)) (turn_policy t) (JStr (finish_reason t)) (JInt (stop_token_count t))
    (JStr (context_truncation t)) = Inr t"
proof -
  have "token_tuple (ints (context_token_ids t)) n = Inr (context_token_ids t)"
    "token_tuple (ints (action_token_ids t)) n = Inr (action_token_ids t)" for n
    using assms unfolding token_tuple_ints by (simp_all add: valid_turn_def)
  moreover have "iterate_values (floats (behavior_log_probs t)) = Inr (map (\<lambda>q. JFloat (Fin q)) (behavior_log_probs t))"
    "mapE (\<lambda>x. finite_field x n) (map (\<lambda>q. JFloat (Fin q)) (behavior_log_probs t)) = Inr (behavior_log_probs t)" for n
    using iterate_floats [of "behavior_log_probs t"] by (simp_all add: iterate_values_def floats_def)
  moreover have "finish_field (JStr (finish_reason t)) = Inr (finish_reason t)"
    using assms by (intro finish_field_in) (simp only: valid_turn_def)
  ultimately show ?thesis
    using assms by (simp add: TurnTrace_def valid_turn_def int_field_def nonempty_str_def list_ex_iff not_less)
qed

lemma turn_roundtrip: "valid_turn t \<Longrightarrow> turn_from_dict (turn_to_dict t) = Inr t"
proof -
  assume "valid_turn t"
  moreover then have "policy_from_dict (policy_to_dict (turn_policy t)) = Inr (turn_policy t)"
    by (intro policy_roundtrip) (simp add: valid_turn_def)
  moreover obtain d where "turn_to_dict t = JObj d" by (simp add: turn_to_dict_def)
  ultimately show ?thesis
    using turn_keys [of t d] TurnTrace_valid [of t]
    by (auto simp: turn_from_dict_def check_fields_def turn_to_dict_def)
qed

lemma optional_floats [simp]:
  "optional (\<lambda>v. finite_field v n) (opt_float q) = Inr q"
  by (cases q) (simp_all add: optional_def)

lemma optional_ints: "(\<And>i. x = Some i \<Longrightarrow> 0 \<le> i) \<Longrightarrow> optional (\<lambda>v. int_field v n 0) (opt_int x) = Inr x"
  by (cases x) (simp_all add: optional_def int_field_def)

lemma exclusion_back:
  "(e \<longleftrightarrow> why = None) \<Longrightarrow> why \<noteq> Some [] \<Longrightarrow> exclusion_field e (opt_str why) = Inr why"
  by (cases why) (auto simp: exclusion_field_def nonempty_str_def)

lemma TrainingTrajectory_valid:
  assumes "valid_trajectory sha t"
  shows "TrainingTrajectory sha (JInt (tj_group_id t)) (JStr (tj_task_id t)) (JStr (initial_context_sha256 t))
    (JStr (reset_sha256 t)) (JInt (tj_sample_index t)) (turns t) (opt_float (tj_reward t)) (JBool (reward_eligible t))
    (opt_str (exclusion_reason t)) (JObj (evidence t)) (JStr (sample_id t)) (opt_float (tj_raw_reward t))
    (opt_int (tj_sampling_seed t)) = Inr t"
proof -
  have "optional (\<lambda>v. int_field v ''sampling_seed'' 0) (opt_int (tj_sampling_seed t)) = Inr (tj_sampling_seed t)"
    using assms by (intro optional_ints) (simp add: valid_trajectory_def)
  moreover have "exclusion_field (reward_eligible t) (opt_str (exclusion_reason t)) = Inr (exclusion_reason t)"
    using assms by (intro exclusion_back) (simp_all only: valid_trajectory_def, blast)
  ultimately show ?thesis
    using assms by (simp add: TrainingTrajectory_def valid_trajectory_def int_field_def nonempty_str_def digest_field_def
      bool_field_def evidence_field_def as_dict_def del: finite_json.simps)
qed

lemma trajectory_keys: "trajectory_to_dict t = JObj d \<Longrightarrow> keys_are d trajectory_fields"
  by (auto simp: trajectory_to_dict_def trajectory_fields_def keys_are_def)

lemma trajectory_roundtrip: "valid_trajectory sha t \<Longrightarrow> trajectory_from_dict sha (trajectory_to_dict t) = Inr t"
proof -
  assume v: "valid_trajectory sha t"
  then have "mapE turn_from_dict (map turn_to_dict (turns t)) = Inr (turns t)"
    using mapE_all_Inr [of "map turn_to_dict (turns t)" turn_from_dict]
    by (auto simp: valid_trajectory_def mapE_Inr_list_all2 list_all2_map1 list_all2_same turn_roundtrip)
  moreover obtain d where "trajectory_to_dict t = JObj d" by (simp add: trajectory_to_dict_def)
  ultimately show ?thesis
    using trajectory_keys [of t d] TrainingTrajectory_valid [OF v]
    by (auto simp: trajectory_from_dict_def check_fields_def trajectory_to_dict_def iterate_values_def)
qed

lemma check_samples_Inr:
  "check_samples same ss = Inr () \<longleftrightarrow> (\<forall>s \<in> set ss. same s \<and> reward_eligible s \<and> tj_reward s \<noteq> None)"
  by (induction ss) auto

lemma TrainingGroup_valid:
  assumes "valid_group sha g"
  shows "TrainingGroup (JInt (tg_group_id g)) (JStr (tg_task_id g)) (JStr (tg_initial_context_sha256 g))
    (JStr (tg_reset_sha256 g)) (tg_policy g) (JInt (expected_size g)) (tg_samples g) = Inr g"
proof -
  let ?G = "expected_size g" and ?ss = "tg_samples g"
  from assms have G: "2 \<le> ?G" and idx: "map tj_sample_index ?ss = map int [0 ..< nat ?G]" by (simp_all add: valid_group_def)
  then have len: "int (length ?ss) = ?G" by (metis length_map length_upt diff_zero nat_0_le order_trans zero_le_numeral)
  have img: "int ` {0 ..< nat ?G} = {0 ..< ?G}" using G image_int_atLeastLessThan [of 0 "nat ?G"] by simp
  have "sorted (map tj_sample_index ?ss)" unfolding idx by (simp add: sorted_map strict_sorted_imp_sorted)
  then have "sort_key tj_sample_index ?ss = ?ss" by (simp add: sort_key_id_if_sorted)
  moreover have "hd ?ss \<in> set ?ss" using len G by (cases ?ss) auto
  then have "tj_task_id (hd ?ss) = tg_task_id g" "initial_context_sha256 (hd ?ss) = tg_initial_context_sha256 g"
    "reset_sha256 (hd ?ss) = tg_reset_sha256 g" using assms by (auto simp: valid_group_def same_group_def)
  moreover have "check_samples (same_group (tg_group_id g) (JStr (tg_task_id g)) (JStr (tg_initial_context_sha256 g))
      (JStr (tg_reset_sha256 g)) (tg_policy g)) ?ss = Inr ()"
    using assms unfolding check_samples_Inr valid_group_def by blast
  ultimately show ?thesis
    using assms len img by (simp add: TrainingGroup_def int_field_def valid_group_def)
qed

lemma group_keys: "group_to_dict g = JObj d \<Longrightarrow> keys_are d group_fields"
  by (auto simp: group_to_dict_def group_fields_def keys_are_def)

lemma group_roundtrip: "valid_group sha g \<Longrightarrow> group_from_dict sha (group_to_dict g) = Inr g"
proof -
  assume v: "valid_group sha g"
  then have "mapE (trajectory_from_dict sha) (map trajectory_to_dict (tg_samples g)) = Inr (tg_samples g)"
    by (auto simp: valid_group_def mapE_Inr_list_all2 list_all2_map1 list_all2_same trajectory_roundtrip)
  moreover have "policy_from_dict (policy_to_dict (tg_policy g)) = Inr (tg_policy g)"
    using v by (intro policy_roundtrip) (simp add: valid_group_def)
  moreover obtain d where "group_to_dict g = JObj d" by (simp add: group_to_dict_def)
  ultimately show ?thesis
    using group_keys [of g d] TrainingGroup_valid [OF v]
    by (auto simp: group_from_dict_def check_fields_def group_to_dict_def iterate_values_def)
qed

section \<open>The constructors return valid records\<close>

lemma set_dset: "fst ` set (dset d k w) = insert k (fst ` set d)" "snd ` set (dset d k w) \<subseteq> insert w (snd ` set d)"
  by (induction d) auto

lemma dset_unique: "unique_keys (JObj d) \<Longrightarrow> unique_keys w \<Longrightarrow> unique_keys (JObj (dset d k w))"
  by (induction d) (auto simp: set_dset)

lemma dupdate_unique:
  "unique_keys (JObj d) \<Longrightarrow> (\<And>p. p \<in> set e \<Longrightarrow> unique_keys (snd p)) \<Longrightarrow> unique_keys (JObj (dupdate d e))"
  unfolding dupdate_def by (induction e arbitrary: d) (auto simp: dset_unique simp del: unique_keys.simps)

lemma pair_of_unique: "pair_of x = Inr p \<Longrightarrow> unique_keys x \<Longrightarrow> unique_keys (snd p)"
  by (cases x rule: pair_of.cases) auto

lemma as_dict_unique: "unique_keys v \<Longrightarrow> as_dict v = Inr d \<Longrightarrow> unique_keys (JObj d)"
proof (cases v)
  case (JList xs)
  assume "unique_keys v" "as_dict v = Inr d"
  with JList obtain ps where ps: "mapE pair_of xs = Inr ps" "d = dupdate [] ps" "list_all unique_keys xs"
    by (auto simp: as_dict_def)
  from ps(1,3) have "\<forall>p \<in> set ps. unique_keys (snd p)"
    unfolding mapE_Inr_list_all2 by (induction rule: list_all2_induct) (auto dest: pair_of_unique)
  then have "unique_keys (JObj (dupdate [] ps))" by (intro dupdate_unique) simp_all
  with ps(2) show ?thesis by (simp only:)
qed (auto simp: as_dict_def split: list.splits)

lemmas as_dict_distinct = as_dict_unique [THEN unique_keys.simps(1) [THEN iffD1], THEN conjunct1]

lemma dget_unique: "unique_keys (JObj d) \<Longrightarrow> unique_keys (dget d k)"
  by (auto simp: dget_def list_all_iff split: option.splits dest!: map_of_SomeD)

lemma PolicyRef_valid:
  assumes "PolicyRef a b c i s = Inr p" "unique_keys i"
  shows "valid_policy p"
proof -
  from assms(1) obtain d t where "as_dict i = Inr d" and "check_sampling s = Inr t" and "list_all good_identity d"
    and p: "p = \<lparr>version = version p, digest = digest p, lineage = lineage p, identities = d, sampling = full_sampling t\<rparr>"
    and "0 \<le> version p" "is_hex 64 (digest p)" "lineage p \<noteq> []"
    by (auto simp: PolicyRef_def result_simps field_simps_Inr)
  moreover from this(2) have "0 < t" by (auto simp: check_sampling_def result_simps not_le)
  moreover have "distinct (map fst d)" using as_dict_distinct [OF assms(2)] calculation(1) .
  moreover have "identities p = d" "sampling p = full_sampling t" by (subst p, simp)+
  ultimately show ?thesis by (auto simp: valid_policy_def)
qed

lemma policy_from_dict_valid: "policy_from_dict v = Inr p \<Longrightarrow> unique_keys v \<Longrightarrow> valid_policy p"
  by (auto simp: policy_from_dict_def bindE_Inr_iff check_fields_Inr
    intro!: PolicyRef_valid dget_unique simp del: unique_keys.simps)

lemma TurnTrace_Inr:
  assumes "TurnTrace a b c d e pol f g h = Inr t" "valid_policy pol"
  shows "valid_turn t \<and> turn_policy t = pol"
proof -
  from assms(1) obtain acts ps where "token_tuple c ''context_token_ids'' = Inr (context_token_ids t)"
    and acts: "token_tuple d ''action_token_ids'' = Inr acts" "action_token_ids t = acts"
    and ps: "behavior_log_probs t = ps" "length acts = length ps" "\<not> list_ex (\<lambda>q. q > 0) ps"
    and r: "1 \<le> turn_id t" "request_id t \<noteq> []" "finish_field f = Inr (finish_reason t)" "0 \<le> stop_token_count t"
      "stop_token_count t \<le> int (length acts)" "context_truncation t \<noteq> []" "turn_policy t = pol"
    by (auto simp: TurnTrace_def result_simps int_field_Inr nonempty_str_Inr not_less)
  with token_tuple_Inr [OF this(1)] token_tuple_Inr [OF acts(1)] assms(2)
  show ?thesis unfolding valid_turn_def finish_field_Inr by (simp add: list_ex_iff not_less)
qed

lemma turn_from_dict_valid: "turn_from_dict v = Inr t \<Longrightarrow> unique_keys v \<Longrightarrow> valid_turn t"
  by (auto simp: turn_from_dict_def bindE_Inr_iff check_fields_Inr simp del: unique_keys.simps
    dest!: TurnTrace_Inr intro: policy_from_dict_valid dget_unique)

lemma optional_Inr: "optional f v = Inr x \<Longrightarrow> x = None \<or> (\<exists>y. f v = Inr y \<and> x = Some y)"
  by (auto simp: optional_def bindE_Inr_iff split: if_splits)

lemma TrainingTrajectory_Inr:
  assumes "TrainingTrajectory sha a b c d e ts f g h i j k l = Inr t" "unique_keys i" "\<forall>u \<in> set ts. valid_turn u"
  shows "valid_trajectory sha t \<and> turns t = ts"
proof -
  from assms(1) have "0 \<le> tj_group_id t" "0 \<le> tj_sample_index t" "tj_task_id t \<noteq> []" "is_hex 64 (initial_context_sha256 t)"
    "is_hex 64 (reset_sha256 t)" "turns t = ts" "check_turns ts = Inr ()" "sample_id t \<noteq> []"
    "token_digest sha (context_token_ids (hd ts)) = Inr (initial_context_sha256 t)"
    and x: "exclusion_field (reward_eligible t) h = Inr (exclusion_reason t)"
    and s: "optional (\<lambda>v. int_field v ''sampling_seed'' 0) l = Inr (tj_sampling_seed t)"
    and ev: "evidence_field i = Inr (evidence t)"
    by (auto simp: TrainingTrajectory_def result_simps int_field_Inr nonempty_str_Inr digest_field_Inr bool_field_Inr
      split: if_splits)
  moreover from x have "(reward_eligible t \<longleftrightarrow> exclusion_reason t = None) \<and> exclusion_reason t \<noteq> Some []"
    by (cases "exclusion_reason t") (auto simp: exclusion_field_def bindE_Inr_iff nonempty_str_Inr split: if_splits)
  moreover from ev have "finite_json (JObj (evidence t)) \<and> unique_keys (JObj (evidence t))"
    using as_dict_unique [OF assms(2)] by (auto simp: evidence_field_def result_simps simp del: unique_keys.simps finite_json.simps)
  moreover from s have "\<forall>n. tj_sampling_seed t = Some n \<longrightarrow> 0 \<le> n"
    by (auto dest!: optional_Inr simp: int_field_Inr)
  ultimately show ?thesis using assms(3) unfolding valid_trajectory_def by blast
qed

lemma trajectory_from_dict_valid: "trajectory_from_dict sha v = Inr t \<Longrightarrow> unique_keys v \<Longrightarrow> valid_trajectory sha t"
proof -
  assume "trajectory_from_dict sha v = Inr t" "unique_keys v"
  then obtain d js ts where v: "v = JObj d" and js: "iterate_values (dget d ''turns'') = Inr js" "mapE turn_from_dict js = Inr ts"
    and t: "TrainingTrajectory sha (dget d ''group_id'') (dget d ''task_id'') (dget d ''initial_context_sha256'')
         (dget d ''reset_sha256'') (dget d ''sample_index'') ts (dget d ''reward'') (dget d ''reward_eligible'')
         (dget d ''exclusion_reason'') (dget d ''evidence'') (dget d ''sample_id'') (dget d ''raw_reward'')
         (dget d ''sampling_seed'') = Inr t" and u: "\<And>k. unique_keys (dget d k)"
    by (auto simp: trajectory_from_dict_def bindE_Inr_iff check_fields_Inr dget_unique simp del: unique_keys.simps)
  have "\<forall>j \<in> set js. unique_keys j"
    using js(1) u [of "''turns''"] by (auto simp: iterate_values_def list_all_iff split: json.splits)
  with js(2) have "\<forall>t \<in> set ts. valid_turn t"
    unfolding mapE_Inr_list_all2 by (induction rule: list_all2_induct) (auto dest: turn_from_dict_valid)
  with TrainingTrajectory_Inr [OF t u] show ?thesis by blast
qed

lemma distinct_map_sort_key: "distinct (map f (sort_key k xs)) = distinct (map f xs)"
  by (rule mset_eq_imp_distinct_iff) simp

lemma distinct_concat_sort_key: "distinct (map f (concat (map h (sort_key k xs)))) = distinct (map f (concat (map h xs)))"
proof (rule mset_eq_imp_distinct_iff)
  have m: "mset (concat (map h xs)) = sum_mset (image_mset (\<lambda>x. mset (h x)) (mset xs))" for xs by (induction xs) auto
  show "mset (map f (concat (map h (sort_key k xs)))) = mset (map f (concat (map h xs)))"
    unfolding mset_map m mset_sort ..
qed

lemma sort_key_index:
  assumes "set (map f xs) = {0 ..< int (length xs)}"
  shows "map f (sort_key f xs) = map int [0 ..< length xs]"
proof -
  have "card (set (map f xs)) = length (map f xs)" unfolding assms by simp
  then have "distinct (map f xs)" by (rule card_distinct)
  then have "distinct (map f (sort_key f xs))" by (simp only: distinct_map_sort_key)
  moreover have "set (map f (sort_key f xs)) = set (map int [0 ..< length xs])"
    using assms image_int_atLeastLessThan [of 0 "length xs"] by simp
  moreover have "sorted (map int [0 ..< length xs])" by (simp add: sorted_map strict_sorted_imp_sorted)
  ultimately show ?thesis by (intro sorted_distinct_set_unique) (simp_all add: distinct_map)
qed

lemma TrainingGroup_shape:
  assumes "TrainingGroup a b c d pol e ss = Inr g"
  shows "0 \<le> tg_group_id g" "2 \<le> expected_size g" "expected_size g = int (length ss)"
    "tg_samples g = sort_key tj_sample_index ss"
    "map tj_sample_index (tg_samples g) = map int [0 ..< nat (expected_size g)]"
    "distinct (map sample_id (tg_samples g))" "distinct (map request_id (concat (map turns (tg_samples g))))"
    "tg_policy g = pol" "a = JInt (tg_group_id g)"
    "\<forall>s \<in> set (tg_samples g). reward_eligible s \<and> tj_reward s \<noteq> None \<and>
        same_group (tg_group_id g) (JStr (tg_task_id g)) (JStr (tg_initial_context_sha256 g))
          (JStr (tg_reset_sha256 g)) (tg_policy g) s"
proof -
  let ?G = "expected_size g"
  from assms have g: "0 \<le> tg_group_id g" "2 \<le> ?G" "int (length ss) = ?G" "set (map tj_sample_index ss) = {0 ..< ?G}"
    "distinct (map sample_id ss)" "distinct (map request_id (concat (map turns ss)))" "tg_policy g = pol"
    "tg_samples g = sort_key tj_sample_index ss" "tg_task_id g = tj_task_id (hd ss)"
    "tg_initial_context_sha256 g = initial_context_sha256 (hd ss)" "tg_reset_sha256 g = reset_sha256 (hd ss)"
    "a = JInt (tg_group_id g)" and c: "check_samples (same_group (tg_group_id g) b c d pol) ss = Inr ()"
    by (auto simp: TrainingGroup_def result_simps int_field_Inr)
  have all: "same_group (tg_group_id g) b c d pol s \<and> reward_eligible s \<and> tj_reward s \<noteq> None" if "s \<in> set ss" for s
    using c that unfolding check_samples_Inr by blast
  have "hd ss \<in> set ss" using g(2,3) by (cases ss) auto
  from all [OF this] have bcd: "b = JStr (tg_task_id g)" "c = JStr (tg_initial_context_sha256 g)" "d = JStr (tg_reset_sha256 g)"
    by (simp_all add: same_group_def g)
  show "map tj_sample_index (tg_samples g) = map int [0 ..< nat ?G]"
    using sort_key_index [of tj_sample_index ss] unfolding g(3,4,8) by (simp flip: g(3))
  show "distinct (map sample_id (tg_samples g))" "distinct (map request_id (concat (map turns (tg_samples g))))"
    using g(5,6) unfolding g(8) by (simp_all only: distinct_map_sort_key distinct_concat_sort_key)
  show "\<forall>s \<in> set (tg_samples g). reward_eligible s \<and> tj_reward s \<noteq> None \<and>
        same_group (tg_group_id g) (JStr (tg_task_id g)) (JStr (tg_initial_context_sha256 g))
          (JStr (tg_reset_sha256 g)) (tg_policy g) s"
    using all g(7,8) unfolding bcd by simp
qed (use assms in \<open>auto simp: TrainingGroup_def result_simps int_field_Inr\<close>)

lemma TrainingGroup_Inr:
  assumes "TrainingGroup a b c d pol e ss = Inr g" "valid_policy pol" "\<forall>s \<in> set ss. valid_trajectory sha s"
  shows "valid_group sha g"
  using TrainingGroup_shape [OF assms(1)] assms(2,3) unfolding valid_group_def by simp

lemma group_from_dict_valid: "group_from_dict sha v = Inr g \<Longrightarrow> unique_keys v \<Longrightarrow> valid_group sha g"
proof -
  assume "group_from_dict sha v = Inr g" "unique_keys v"
  then obtain d pol js ss where js: "iterate_values (dget d ''samples'') = Inr js" "mapE (trajectory_from_dict sha) js = Inr ss"
    and g: "TrainingGroup (dget d ''group_id'') (dget d ''task_id'') (dget d ''initial_context_sha256'')
         (dget d ''reset_sha256'') pol (dget d ''expected_size'') ss = Inr g" and u: "\<And>k. unique_keys (dget d k)"
    and "policy_from_dict (dget d ''policy'') = Inr pol"
    by (auto simp: group_from_dict_def bindE_Inr_iff check_fields_Inr dget_unique simp del: unique_keys.simps)
  then have pol: "valid_policy pol" using policy_from_dict_valid u by blast
  have "\<forall>j \<in> set js. unique_keys j"
    using js(1) u [of "''samples''"] by (auto simp: iterate_values_def list_all_iff split: json.splits)
  with js(2) have "\<forall>s \<in> set ss. valid_trajectory sha s"
    unfolding mapE_Inr_list_all2 by (induction rule: list_all2_induct) (auto dest: trajectory_from_dict_valid)
  with TrainingGroup_Inr [OF g pol] show ?thesis by blast
qed

fun valid_record :: "(string \<Rightarrow> string) \<Rightarrow> training_record \<Rightarrow> bool" where
  "valid_record sha (Policy_rec p) = valid_policy p"
| "valid_record sha (Turn_rec t) = valid_turn t"
| "valid_record sha (Trajectory_rec t) = valid_trajectory sha t"
| "valid_record sha (Group_rec g) = valid_group sha g"

lemma read_kind_valid:
  assumes "read_kind sha kind v = Inr r" "unique_keys v"
  shows "valid_record sha r"
proof -
  from assms(1) consider p where "policy_from_dict v = Inr p" "r = Policy_rec p"
    | t where "turn_from_dict v = Inr t" "r = Turn_rec t"
    | t where "trajectory_from_dict sha v = Inr t" "r = Trajectory_rec t"
    | g where "group_from_dict sha v = Inr g" "r = Group_rec g"
    by (auto simp: read_kind_def bindE_Inr_iff split: if_split_asm)
  then show ?thesis
    using assms(2) by cases (auto dest: policy_from_dict_valid turn_from_dict_valid trajectory_from_dict_valid group_from_dict_valid)
qed

lemma loads_valid: "loads sha doc = Inr r \<Longrightarrow> valid_record sha r"
  by (auto simp: loads_def result_simps check_fields_Inr simp del: unique_keys.simps
    intro: read_kind_valid dget_unique)

lemma atoms_clean [simp]:
  "unique_keys (ints xs)" "finite_json (ints xs)" "unique_keys (floats qs)" "finite_json (floats qs)"
  "unique_keys (opt_float q)" "finite_json (opt_float q)" "unique_keys (opt_int i)" "finite_json (opt_int i)"
  "unique_keys (opt_str s)" "finite_json (opt_str s)"
  by (simp_all add: ints_def floats_def list_all_iff) (cases q; cases i; cases s; simp)+

definition clean :: "json \<Rightarrow> bool" where
  "clean v \<longleftrightarrow> unique_keys v \<and> finite_json v"

lemma policy_clean: "valid_policy p \<Longrightarrow> clean (policy_to_dict p)"
proof -
  have "unique_keys v \<and> finite_json v" if "good_identity (k, v)" for k v using that by (cases v) auto
  then show "valid_policy p \<Longrightarrow> clean (policy_to_dict p)"
    by (force simp: clean_def valid_policy_def policy_to_dict_def full_sampling_def list_all_iff)
qed

lemma turn_clean: "valid_turn t \<Longrightarrow> clean (turn_to_dict t)"
  using policy_clean [of "turn_policy t"] by (simp add: clean_def turn_to_dict_def valid_turn_def)

lemma trajectory_clean: "valid_trajectory sha t \<Longrightarrow> clean (trajectory_to_dict t)"
  using turn_clean by (auto simp: clean_def trajectory_to_dict_def valid_trajectory_def list_all_iff
    simp del: unique_keys.simps(1) finite_json.simps(3)) (auto simp: list_all_iff)

lemma record_clean: "valid_record sha r \<Longrightarrow> clean (record_to_dict r)"
proof (cases r)
  case (Group_rec g)
  assume "valid_record sha r"
  with Group_rec show ?thesis
    using trajectory_clean [of sha] policy_clean [of "tg_policy g"]
    by (simp add: clean_def group_to_dict_def valid_group_def list_all_iff)
qed (auto intro: policy_clean turn_clean trajectory_clean)

lemma read_kind_back: "valid_record sha r \<Longrightarrow> read_kind sha (JStr (record_kind r)) (record_to_dict r) = Inr r"
  by (cases r) (simp_all add: read_kind_def policy_roundtrip turn_roundtrip trajectory_roundtrip group_roundtrip)

lemma loads_dumps: "valid_record sha r \<Longrightarrow> loads sha (dumps r) = Inr r"
  using record_clean [of sha r] read_kind_back [of sha r]
  by (simp add: loads_def dumps_def clean_def check_fields_def keys_are_def)

text \<open>
  C22. Every record that the reader accepts is valid, and writing it and reading it again gives the
  same record, whatever its kind: nothing of a policy receipt, turn, trajectory or group is lost or
  changed by the durable form, and reading is idempotent.
\<close>

theorem loads_dumps_roundtrip:
  assumes "loads sha doc = Inr r"
  shows "loads sha (dumps r) = Inr r \<and> valid_record sha r"
  using loads_dumps loads_valid [OF assms] by blast

text \<open>
  A training group that its constructor accepts is complete: it has at least two samples, they
  are the given ones in the order of their indices \<open>0\<close> to \<open>G - 1\<close>, every one is eligible with a
  reward, every one has the group's task, initial context, reset and policy, and no request
  identity occurs twice in the whole group.
\<close>

theorem training_group_complete:
  assumes "TrainingGroup a b c d pol e ss = Inr g"
  shows "2 \<le> length ss \<and> mset (tg_samples g) = mset ss \<and>
    map tj_sample_index (tg_samples g) = map int [0 ..< length ss] \<and>
    distinct (map request_id (concat (map turns (tg_samples g)))) \<and> distinct (map sample_id (tg_samples g)) \<and>
    (\<forall>s \<in> set (tg_samples g). reward_eligible s \<and> tj_reward s \<noteq> None \<and> tj_group_id s = tg_group_id g \<and>
       tj_task_id s = tg_task_id g \<and> initial_context_sha256 s = tg_initial_context_sha256 g \<and>
       reset_sha256 s = tg_reset_sha256 g \<and> policy_eq (tj_policy s) (tg_policy g))"
proof -
  note s = TrainingGroup_shape [OF assms]
  have "2 \<le> length ss" "nat (expected_size g) = length ss" using s(2,3) by simp_all
  moreover have "mset (tg_samples g) = mset ss" using s(4) by simp
  ultimately show ?thesis using s(5,6,7,10) by (simp add: same_group_def)
qed

section \<open>Legacy groups survive the conversion\<close>

text \<open>A sample that its constructor returned.\<close>

definition constructed :: "sample \<Rightarrow> bool" where
  "constructed s \<longleftrightarrow> (\<exists>p r b rew v f n raw. Sample p r b rew v f n raw = Inr s)"

lemma Sample_again:
  assumes "constructed s"
  shows "Sample (s_prompt_ids s) (s_response_ids s) (map Fin (s_behavior_log_probs s)) (Fin (s_reward s))
    (s_policy_version s) (s_finish_reason s) (s_stop_token_count s) (Some (Fin (s_raw_reward s))) = Inr s"
proof -
  from assms obtain p r b rew v f n raw where s: "Sample p r b rew v f n raw = Inr s" by (auto simp: constructed_def)
  then have b: "list_all good_log_prob b" "s_behavior_log_probs s = map (\<lambda>f. the (fin_val f)) b"
    unfolding Sample_iff by auto
  have "x = Fin (the (fin_val x))" if "good_log_prob x" for x using that by (cases x) (auto simp: good_log_prob_def)
  with b have "map Fin (s_behavior_log_probs s) = b" by (auto simp: list_all_iff comp_def intro!: map_idI)
  with s show ?thesis unfolding Sample_iff by (elim conjE exE) (simp del: insert_iff)
qed

lemma TurnTrace_fields:
  assumes "TurnTrace a b (ints ctx) (ints acts) (floats ps) pol (JStr fin) (JInt stp) h = Inr turn"
  shows "context_token_ids turn = ctx" "action_token_ids turn = acts" "behavior_log_probs turn = ps"
    "finish_reason turn = fin" "stop_token_count turn = stp" "turn_policy turn = pol"
proof -
  have f: "mapE (\<lambda>x. finite_field x n) (map (\<lambda>q. JFloat (Fin q)) ps) = Inr ps" for n
    using iterate_floats [of ps n] by (simp add: iterate_values_def floats_def)
  from assms have "finish_field (JStr fin) = Inr (finish_reason turn)" "context_token_ids turn = ctx"
    "action_token_ids turn = acts" "behavior_log_probs turn = ps" "stop_token_count turn = stp" "turn_policy turn = pol"
    by (auto simp: TurnTrace_def result_simps token_tuple_ints int_field_Inr iterate_values_def floats_def f)
  then show "context_token_ids turn = ctx" "action_token_ids turn = acts" "behavior_log_probs turn = ps"
    "finish_reason turn = fin" "stop_token_count turn = stp" "turn_policy turn = pol"
    by (simp_all only: finish_field_Inr json.inject)
qed

lemma constructed_finish: "constructed s \<Longrightarrow> s_finish_reason s \<noteq> ''tool_calls''"
proof -
  assume "constructed s"
  then obtain f where "f \<in> {''eos'', ''stop'', ''length''}" "s_finish_reason s = f"
    unfolding constructed_def Sample_iff by (elim exE conjE) simp
  then show ?thesis by auto
qed

lemma legacy_trajectory_back:
  assumes "legacy_trajectory sha gid tid ctx reset pol pfx i s = Inr t" "constructed s"
  shows "tj_sample_index t = int i \<and> legacy_sample t = Inr s"
proof -
  from assms(1) obtain turn where v: "s_policy_version s = version pol"
    and turn: "TurnTrace (JInt 1) (JStr (pfx @ ''-s'' @ show_nat i)) (ints (s_prompt_ids s)) (ints (s_response_ids s))
                 (floats (s_behavior_log_probs s)) pol (JStr (s_finish_reason s)) (JInt (s_stop_token_count s))
                 (JStr ''none'') = Inr turn"
    and t: "TrainingTrajectory sha (JInt gid) tid (JStr ctx) reset (JInt (int i)) [turn] (JFloat (Fin (s_reward s)))
          (JBool True) JNull (JObj []) JNull (JFloat (Fin (s_raw_reward s))) JNull = Inr t"
    by (auto simp: legacy_trajectory_def result_simps)
  from t have t': "turns t = [turn]" "tj_reward t = Some (s_reward s)" "tj_raw_reward t = Some (s_raw_reward s)"
    "tj_sample_index t = int i"
    by (auto simp: TrainingTrajectory_def result_simps int_field_Inr optional_def)
  then show ?thesis
    using TurnTrace_fields [OF turn] v Sample_again [OF assms(2)] constructed_finish [OF assms(2)]
    by (simp add: legacy_sample_def single_turn_def tj_policy_def)
qed

lemma mapE_from_legacy:
  assumes "mapE_from n (legacy_trajectory sha gid tid ctx reset pol pfx) ss = Inr ts" "\<forall>s \<in> set ss. constructed s"
  shows "map tj_sample_index ts = map int [n ..< n + length ss] \<and> mapE legacy_sample ts = Inr ss"
  using assms
proof (induction ss arbitrary: n ts)
  case (Cons s ss)
  then obtain u us where "ts = u # us" "legacy_trajectory sha gid tid ctx reset pol pfx n s = Inr u"
    "mapE_from (Suc n) (legacy_trajectory sha gid tid ctx reset pol pfx) ss = Inr us"
    by (auto simp: bindE_Inr_iff)
  moreover have "[n ..< n + length (s # ss)] = n # [Suc n ..< Suc n + length ss]" by (simp add: upt_conv_Cons del: upt_Suc)
  ultimately show ?case
    using Cons.IH [of "Suc n" us] Cons.prems(2) legacy_trajectory_back [of sha gid tid ctx reset pol pfx n s u]
    by (simp del: upt_Suc)
qed simp

text \<open>
  Converting a legacy rollout group to training records and back is the identity: whenever
  \<open>from_rollout_group\<close> accepts a group built by the constructors, \<open>to_rollout_group\<close> returns that
  very group, with the same samples in the same order, tokens, log probabilities and rewards.
\<close>

theorem legacy_roundtrip:
  assumes "RolloutGroup ss gid v = Inr g" "\<forall>s \<in> set ss. constructed s"
    and "from_rollout_group sha g pol tid reset pfx = Inr tg"
  shows "to_rollout_group tg = Inr g"
proof -
  from assms(1) have g: "samples g = ss" "g_group_id g = gid" "g_policy_version g = v"
    by (auto simp: RolloutGroup_def split: if_splits)
  from assms(3) obtain ctx p ts where v: "g_policy_version g = version pol"
    and ts: "mapE_from 0 (legacy_trajectory sha (g_group_id g) tid ctx reset pol p) (samples g) = Inr ts"
    and tg: "TrainingGroup (JInt (g_group_id g)) tid (JStr ctx) reset pol (JInt (int (length ts))) ts = Inr tg"
    by (auto simp: from_rollout_group_def result_simps Let_def)
  note shape = TrainingGroup_shape [OF tg]
  from mapE_from_legacy [OF ts] assms(2) g
  have m: "map tj_sample_index ts = map int [0 ..< length ss]" "mapE legacy_sample ts = Inr ss" by simp_all
  have "sorted (map tj_sample_index ts)" unfolding m by (simp add: sorted_map strict_sorted_imp_sorted)
  then have "tg_samples tg = ts" using shape(4) by (simp add: sort_key_id_if_sorted)
  moreover have "tg_group_id tg = gid" "version (tg_policy tg) = g_policy_version g" using shape(8,9) g v by simp_all
  ultimately show ?thesis using m(2) assms(1) g by (simp add: to_rollout_group_def)
qed

section \<open>A concrete group\<close>

definition demo_sha :: "string \<Rightarrow> string" where
  "demo_sha s = replicate 64 (CHR ''0'')"

definition demo_policy :: policy_ref where
  "demo_policy = \<lparr>version = 3, digest = demo_sha [], lineage = ''run'', identities = [(''model'', JStr ''m'')],
     sampling = full_sampling 1\<rparr>"

definition demo_sample :: "rat \<Rightarrow> sample" where
  "demo_sample rew = \<lparr>s_prompt_ids = [1, 2], s_response_ids = [7, 5], s_behavior_log_probs = [- 1, - 2],
     s_reward = rew, s_policy_version = 3, s_finish_reason = ''stop'', s_stop_token_count = 1, s_raw_reward = rew\<rparr>"

definition demo_rollout :: rollout_group where
  "demo_rollout = \<lparr>samples = [demo_sample 0, demo_sample 1], g_group_id = 4, g_policy_version = 3\<rparr>"

definition demo_group :: "training_group result" where
  "demo_group = from_rollout_group demo_sha demo_rollout demo_policy (JStr ''task'') (JStr (demo_sha [])) None"

lemma demo_group_ok: "\<exists>g. demo_group = Inr g"
proof -
  have "case demo_group of Inr g \<Rightarrow> True | Inl e \<Rightarrow> False" by code_simp
  then show ?thesis by (auto split: sum.splits)
qed

lemma demo_constructed: "constructed (demo_sample 0)" "constructed (demo_sample 1)"
proof -
  have "Sample [1, 2] [7, 5] [Fin (- 1), Fin (- 2)] (Fin 0) 3 ''stop'' 1 None = Inr (demo_sample 0)"
    "Sample [1, 2] [7, 5] [Fin (- 1), Fin (- 2)] (Fin 1) 3 ''stop'' 1 None = Inr (demo_sample 1)" by code_simp+
  then show "constructed (demo_sample 0)" "constructed (demo_sample 1)" unfolding constructed_def by blast+
qed

theorem legacy_roundtrip_witness:
  "\<exists>tg. from_rollout_group demo_sha demo_rollout demo_policy (JStr ''task'') (JStr (demo_sha [])) None = Inr tg \<and>
     to_rollout_group tg = Inr demo_rollout"
proof -
  obtain tg where "from_rollout_group demo_sha demo_rollout demo_policy (JStr ''task'') (JStr (demo_sha [])) None = Inr tg"
    using demo_group_ok by (auto simp: demo_group_def)
  moreover have "RolloutGroup [demo_sample 0, demo_sample 1] 4 3 = Inr demo_rollout" by code_simp
  moreover have "\<forall>s \<in> set [demo_sample 0, demo_sample 1]. constructed s" using demo_constructed by simp
  ultimately show ?thesis using legacy_roundtrip by blast
qed

definition demo_trajectories :: "training_trajectory list" where
  "demo_trajectories = (case demo_group of Inr g \<Rightarrow> rev (tg_samples g) | Inl e \<Rightarrow> [])"

theorem training_group_complete_witness:
  "\<exists>g. TrainingGroup (JInt 4) (JStr ''task'') (JStr (demo_sha [])) (JStr (demo_sha [])) demo_policy (JInt 2) demo_trajectories = Inr g \<and>
     map tj_sample_index demo_trajectories = [1, 0] \<and> map tj_sample_index (tg_samples g) = map int [0 ..< 2]"
proof -
  have "case TrainingGroup (JInt 4) (JStr ''task'') (JStr (demo_sha [])) (JStr (demo_sha [])) demo_policy (JInt 2)
    demo_trajectories of Inr g \<Rightarrow> True | Inl e \<Rightarrow> False" by code_simp
  then obtain g where g: "TrainingGroup (JInt 4) (JStr ''task'') (JStr (demo_sha [])) (JStr (demo_sha [])) demo_policy (JInt 2)
    demo_trajectories = Inr g" by (auto split: sum.splits)
  moreover have "map tj_sample_index demo_trajectories = [1, 0]" by code_simp
  moreover have "length demo_trajectories = 2" by code_simp
  ultimately show ?thesis using training_group_complete [OF g] by auto
qed

definition demo_document :: json where
  "demo_document = JObj [(''kind'', JStr ''PolicyRef''), (''schema_version'', JInt 1), (''record'',
     JObj [(''lineage'', JStr ''run''), (''version'', JInt 3), (''digest'', JStr (demo_sha [])),
       (''identities'', JObj [(''model'', JStr ''m'')]),
       (''sampling'', JObj [(''top_k'', JInt 0), (''top_p'', JInt 1), (''temperature'', JInt 1)])])]"

theorem loads_dumps_roundtrip_witness:
  "loads demo_sha demo_document = Inr (Policy_rec demo_policy) \<and>
   loads demo_sha (dumps (Policy_rec demo_policy)) = Inr (Policy_rec demo_policy)"
proof -
  have d: "loads demo_sha demo_document = Inr (Policy_rec demo_policy)" by code_simp
  with loads_dumps_roundtrip [OF d] show ?thesis by blast
qed

end
