(* ===== verification/Generation_Training.thy ===== *)
theory Generation_Training
  imports Training
begin

text \<open>
  The fail-closed training evidence of \<^verbatim>\<open>rollout_manager/generation_training.py\<close>: a serving
  capability receipt is accepted against a leased policy, a request payload is checked before it is
  sent, and a raw completion becomes a turn trace only when its evidence binds the request, the raw
  response and the loaded policy. The SHA-256 of the canonical JSON text is an argument \<open>dig\<close>,
  which raises on values that have no JSON text.
\<close>

record training_contract =
  leased :: policy_ref
  capabilities :: dict

datatype policy_arg = Ref policy_ref | Raw json

definition required :: "string list" where
  "required = [''token_ids'', ''sampled_token_logprobs'', ''loaded_policy_identity'', ''request_response_binding'',
     ''full_categorical'']"

definition contract_policy :: "policy_arg \<Rightarrow> policy_ref result" where
  "contract_policy arg =
     (case arg of
        Ref p \<Rightarrow> Inr p
      | Raw v \<Rightarrow> if is_obj v then policy_from_dict v
                 else Inl (TrainingCapabilityError ''Training requires an explicit leased PolicyRef''))"

definition exact_identity :: "policy_ref \<Rightarrow> string \<Rightarrow> bool" where
  "exact_identity p name = (case dget (identities p) name of JStr s \<Rightarrow> is_hex 64 s | _ \<Rightarrow> False)"

definition TrainingGenerationContract :: "policy_arg \<Rightarrow> json \<Rightarrow> training_contract result" where
  "TrainingGenerationContract arg caps =
     bindE (contract_policy arg) (\<lambda>p. let c = fields_of caps in
     if \<not> is_obj caps \<or> dget c ''schema_version'' \<noteq> JInt 1
     then Inl (TrainingCapabilityError ''Training requires a versioned serving capability receipt'')
     else if list_ex (\<lambda>name. dget c name \<noteq> JBool True) required
     then Inl (TrainingCapabilityError ''Serving route lacks exact tokens/logprobs/policy/binding capabilities'')
     else if dget c ''logprob_convention'' \<noteq> JStr ''sampled_distribution''
     then Inl (TrainingCapabilityError ''Behavior logprobs must describe the sampled distribution'')
     else if \<not> py_eq (dget c ''policy'') (policy_to_dict p)
     then Inl (TrainingCapabilityError ''Serving capability receipt differs from the leased policy'')
     else case find (\<lambda>name. \<not> exact_identity p name) [''tokenizer_sha256'', ''chat_template_sha256''] of
       Some name \<Rightarrow> Inl (TrainingCapabilityError (''Training policy requires exact '' @ name))
     | None \<Rightarrow> Inr \<lparr>leased = p, capabilities = c\<rparr>)"

fun positive_int :: "json \<Rightarrow> bool" where
  "positive_int (JInt i) = (1 \<le> i)"
| "positive_int _ = False"

definition same_sampling :: "policy_ref \<Rightarrow> dict \<Rightarrow> bool" where
  "same_sampling p d \<longleftrightarrow>
     py_eq (dget d ''temperature'') (dget (sampling p) ''temperature'') \<and>
     py_eq (dget_default d ''top_p'' (JInt 1)) (dget_default (sampling p) ''top_p'' (JInt 1)) \<and>
     py_eq (dget_default d ''top_k'' (JInt 0)) (dget_default (sampling p) ''top_k'' (JInt 0))"

definition check_payload :: "(json \<Rightarrow> string result) \<Rightarrow> training_contract \<Rightarrow> json \<Rightarrow> unit result" where
  "check_payload dig c payload =
     (let d = fields_of payload in
      if \<not> is_obj payload then Inl (TrainingCapabilityError ''Training generation payload must be a mapping'')
      else if \<not> same_sampling (leased c) d
      then Inl (TrainingCapabilityError ''Request sampling differs from the leased full categorical policy'')
      else if dget_default d ''stream'' (JBool False) \<noteq> JBool False \<or> \<not> py_eq (dget_default d ''n'' (JInt 1)) (JInt 1)
      then Inl (TrainingCapabilityError ''Training requires one complete nonstreaming choice'')
      else if \<not> positive_int (dget d ''max_tokens'')
      then Inl (TrainingCapabilityError ''Training requires an explicit positive token budget'')
      else bindE (dig payload) (\<lambda>_. Inr ()))"

definition raw_completion :: "dict \<Rightarrow> json" where
  "raw_completion d = JObj (filter (\<lambda>p. fst p \<noteq> ''training_evidence'') d)"

definition one_choice :: "json \<Rightarrow> dict option" where
  "one_choice v = (case v of JList [JObj d] \<Rightarrow> Some d | _ \<Rightarrow> None)"

definition expected_finish :: "json \<Rightarrow> json" where
  "expected_finish finish = (if finish = JStr ''eos'' then JStr ''stop'' else finish)"

definition over_budget :: "json \<Rightarrow> json \<Rightarrow> bool" where
  "over_budget actions limit =
     (case (actions, limit) of (JList xs, JInt m) \<Rightarrow> int (length xs) > m | _ \<Rightarrow> True)"

text \<open>The \<^verbatim>\<open>except (KeyError, TypeError, ValueError)\<close> clause around the turn trace.\<close>

fun wrap_evidence_error :: "'a result \<Rightarrow> 'a result" where
  "wrap_evidence_error (Inl (KeyError _)) = Inl (TrainingCapabilityError ''Invalid raw token/logprob training evidence'')"
| "wrap_evidence_error (Inl (TypeError _)) = Inl (TrainingCapabilityError ''Invalid raw token/logprob training evidence'')"
| "wrap_evidence_error (Inl (ValueError _)) = Inl (TrainingCapabilityError ''Invalid raw token/logprob training evidence'')"
| "wrap_evidence_error r = r"

definition evidence_turn :: "dict \<Rightarrow> policy_ref \<Rightarrow> string \<Rightarrow> int \<Rightarrow> turn_trace result" where
  "evidence_turn e actual rid tid =
     bindE (dlookup e ''context_token_ids'') (\<lambda>ctx.
     bindE (dlookup e ''action_token_ids'') (\<lambda>acts.
     bindE (dlookup e ''behavior_log_probs'') (\<lambda>probs.
     bindE (dlookup e ''stop_token_count'') (\<lambda>stp.
     bindE (dlookup e ''context_truncation'') (\<lambda>trunc.
     TurnTrace (JInt tid) (JStr rid) ctx acts probs actual (dget e ''finish_reason'') stp trunc)))))"

definition validate_evidence ::
  "(json \<Rightarrow> string result) \<Rightarrow> training_contract \<Rightarrow> dict \<Rightarrow> dict \<Rightarrow> dict \<Rightarrow> string \<Rightarrow> policy_ref result" where
  "validate_evidence dig c payload completion e rid =
     (if \<not> py_eq (dget e ''request_id'') (JStr rid)
      then Inl (TrainingCapabilityError ''Training evidence request identity differs'')
      else bindE (dig (JObj payload)) (\<lambda>h.
      if dget e ''request_payload_sha256'' \<noteq> JStr h
      then Inl (TrainingCapabilityError ''Training evidence does not bind the dispatched request'')
      else bindE (dig (raw_completion completion)) (\<lambda>h.
      if dget e ''response_sha256'' \<noteq> JStr h
      then Inl (TrainingCapabilityError ''Training evidence does not bind the raw completion'')
      else if dget e ''logprob_convention'' \<noteq> JStr ''sampled_distribution''
      then Inl (TrainingCapabilityError ''Serving evidence uses an unsupported logprob convention'')
      else bindE (policy_from_dict (dget_default e ''policy'' (JObj []))) (\<lambda>actual.
      if \<not> policy_eq actual (leased c)
      then Inl (TrainingCapabilityError ''Actual loaded policy differs from the group lease'')
      else Inr actual))))"

definition validate ::
  "(json \<Rightarrow> string result) \<Rightarrow> training_contract \<Rightarrow> json \<Rightarrow> json \<Rightarrow> string \<Rightarrow> int \<Rightarrow> turn_trace result" where
  "validate dig c payload completion rid tid =
     bindE (check_payload dig c payload) (\<lambda>_.
     let p = fields_of payload; d = fields_of completion; e = fields_of (dget d ''training_evidence'') in
     if \<not> is_obj completion then Inl (TrainingCapabilityError ''Training completion must contain raw serving evidence'')
     else if \<not> is_obj (dget d ''training_evidence'') \<or> dget e ''schema_version'' \<noteq> JInt 1
     then Inl (TrainingCapabilityError ''Serving completion has no training_evidence; text is insufficient'')
     else bindE (validate_evidence dig c p d e rid) (\<lambda>actual.
     if \<not> py_eq (dget d ''model'') (dget p ''model'') \<or> \<not> is_str (dget p ''model'')
     then Inl (TrainingCapabilityError ''Raw completion model differs from the request'')
     else case one_choice (dget d ''choices'') of
       None \<Rightarrow> Inl (TrainingCapabilityError ''Training evidence requires one raw completion choice'')
     | Some choice \<Rightarrow>
         if \<not> py_eq (dget choice ''finish_reason'') (expected_finish (dget e ''finish_reason''))
         then Inl (TrainingCapabilityError ''Training finish reason differs from the raw choice'')
         else if over_budget (dget e ''action_token_ids'') (dget p ''max_tokens'')
         then Inl (TrainingCapabilityError ''Raw action tokens exceed the dispatched generation budget'')
         else wrap_evidence_error (evidence_turn e actual rid tid)))"

lemma is_obj_JObj: "is_obj v \<Longrightarrow> v = JObj (fields_of v)"
  by (cases v) simp_all

lemma wrap_evidence_error_Inr: "wrap_evidence_error r = Inr x \<longleftrightarrow> r = Inr x"
  by (cases r rule: wrap_evidence_error.cases) simp_all

lemma dlookup_Inr_dget: "dlookup d k = Inr v \<Longrightarrow> dget d k = v"
  by (auto simp: dlookup_def dget_def split: option.splits)

lemma token_tuple_list: "token_tuple (JList xs) n = Inr ts \<Longrightarrow> JList xs = ints ts"
proof -
  assume "token_tuple (JList xs) n = Inr ts"
  then have xs: "\<forall>x \<in> set xs. int_token x \<noteq> None" "ts = map (\<lambda>x. the (int_token x)) xs"
    by (auto simp: token_tuple_def iterate_values_def list_ex_iff split: if_splits)
  have "x = JInt (the (int_token x))" if "int_token x \<noteq> None" for x
    using that by (cases x rule: int_token.cases) auto
  with xs show ?thesis by (auto simp: ints_def comp_def intro!: map_idI [symmetric])
qed

lemma evidence_turn_Inr:
  assumes "evidence_turn e actual rid tid = Inr t"
  shows "request_id t = rid \<and> turn_id t = tid \<and> turn_policy t = actual \<and>
    token_tuple (dget e ''action_token_ids'') ''action_token_ids'' = Inr (action_token_ids t) \<and>
    length (behavior_log_probs t) = length (action_token_ids t)"
proof -
  from assms obtain ctx acts probs stp trunc where "dlookup e ''action_token_ids'' = Inr acts"
    and "TurnTrace (JInt tid) (JStr rid) ctx acts probs actual (dget e ''finish_reason'') stp trunc = Inr t"
    unfolding evidence_turn_def result_simps by blast
  then show ?thesis
    by (auto simp: TurnTrace_def result_simps int_field_Inr nonempty_str_Inr dest!: dlookup_Inr_dget)
qed

lemma validate_evidence_Inr:
  assumes "validate_evidence dig c p d e rid = Inr actual"
  shows "policy_eq actual (leased c) \<and> (\<exists>h h'. dig (JObj p) = Inr h \<and> dget e ''request_payload_sha256'' = JStr h \<and>
    dig (raw_completion d) = Inr h' \<and> dget e ''response_sha256'' = JStr h')"
  using assms unfolding validate_evidence_def result_simps by auto

lemma validate_bound:
  assumes "validate dig c payload completion rid tid = Inr t"
  shows "request_id t = rid \<and> turn_id t = tid \<and> policy_eq (turn_policy t) (leased c) \<and>
    length (behavior_log_probs t) = length (action_token_ids t) \<and>
    (\<exists>p d e h h' m. payload = JObj p \<and> completion = JObj d \<and> dget d ''training_evidence'' = JObj e \<and>
       dig payload = Inr h \<and> dget e ''request_payload_sha256'' = JStr h \<and>
       dig (raw_completion d) = Inr h' \<and> dget e ''response_sha256'' = JStr h' \<and>
       dget e ''action_token_ids'' = ints (action_token_ids t) \<and>
       dget p ''max_tokens'' = JInt m \<and> int (length (action_token_ids t)) \<le> m)"
proof -
  let ?p = "fields_of payload" and ?d = "fields_of completion"
  let ?e = "fields_of (dget ?d ''training_evidence'')"
  from assms obtain actual where "is_obj payload" "is_obj completion" "is_obj (dget ?d ''training_evidence'')"
    and a: "validate_evidence dig c ?p ?d ?e rid = Inr actual"
    and b: "\<not> over_budget (dget ?e ''action_token_ids'') (dget ?p ''max_tokens'')"
    and e: "evidence_turn ?e actual rid tid = Inr t"
    unfolding validate_def check_payload_def result_simps wrap_evidence_error_Inr Let_def by blast
  then obtain p d e' where o: "payload = JObj p" "completion = JObj d" "dget d ''training_evidence'' = JObj e'"
    by (metis is_obj_JObj)
  from b obtain xs m where xs: "dget e' ''action_token_ids'' = JList xs" "dget p ''max_tokens'' = JInt m"
    "int (length xs) \<le> m" unfolding o by (auto simp: over_budget_def o split: json.splits)
  moreover note t = evidence_turn_Inr [OF e, unfolded o fields_of.simps] validate_evidence_Inr [OF a, unfolded o fields_of.simps]
  moreover have "JList xs = ints (action_token_ids t)" using t(1) xs(1) by (intro token_tuple_list [of _ "''action_token_ids''"]) (simp add: o)
  moreover from this have "length xs = length (action_token_ids t)" by (simp add: ints_def)
  ultimately show ?thesis unfolding o(1,2) by (auto simp: o(3))
qed

text \<open>
  A completion becomes a turn trace only when its evidence is bound to it: the trace carries
  the request identity and a policy equal to the leased one, the evidence holds the digests of the
  dispatched payload and of the raw response without the evidence, the trace's action tokens are
  exactly those of the evidence, one log probability each, and they are within the budget of the
  request.
\<close>

theorem validated_turn_bound:
  assumes "validate dig c payload completion rid tid = Inr t"
  shows "request_id t = rid \<and> turn_id t = tid \<and> policy_eq (turn_policy t) (leased c) \<and>
    length (behavior_log_probs t) = length (action_token_ids t) \<and>
    (\<exists>p d e h h' m. payload = JObj p \<and> completion = JObj d \<and> dget d ''training_evidence'' = JObj e \<and>
       dig payload = Inr h \<and> dget e ''request_payload_sha256'' = JStr h \<and>
       dig (raw_completion d) = Inr h' \<and> dget e ''response_sha256'' = JStr h' \<and>
       dget e ''action_token_ids'' = ints (action_token_ids t) \<and>
       dget p ''max_tokens'' = JInt m \<and> int (length (action_token_ids t)) \<le> m)"
  by (rule validate_bound [OF assms])

definition demo_dig :: "json \<Rightarrow> string result" where
  "demo_dig v = Inr ''digest''"

definition demo_contract :: training_contract where
  "demo_contract = \<lparr>leased = demo_policy, capabilities = []\<rparr>"

definition demo_payload :: json where
  "demo_payload = JObj [(''model'', JStr ''m''), (''temperature'', JInt 1), (''max_tokens'', JInt 4)]"

definition demo_completion :: json where
  "demo_completion = JObj [(''model'', JStr ''m''),
     (''choices'', JList [JObj [(''finish_reason'', JStr ''stop'')]]),
     (''training_evidence'', JObj [(''schema_version'', JInt 1), (''request_id'', JStr ''r''),
        (''request_payload_sha256'', JStr ''digest''), (''response_sha256'', JStr ''digest''),
        (''logprob_convention'', JStr ''sampled_distribution''), (''policy'', policy_to_dict demo_policy),
        (''finish_reason'', JStr ''eos''), (''context_token_ids'', JList [JInt 1]),
        (''action_token_ids'', JList [JInt 7, JInt 5]),
        (''behavior_log_probs'', JList [JFloat (Fin (- 1)), JFloat (Fin (- 2))]),
        (''stop_token_count'', JInt 1), (''context_truncation'', JStr ''none'')])]"

theorem validated_turn_bound_witness:
  "\<exists>t. validate demo_dig demo_contract demo_payload demo_completion ''r'' 1 = Inr t \<and> request_id t = ''r'' \<and>
     policy_eq (turn_policy t) demo_policy"
proof -
  have "case validate demo_dig demo_contract demo_payload demo_completion ''r'' 1 of Inr t \<Rightarrow> True | Inl e \<Rightarrow> False"
    by code_simp
  then obtain t where t: "validate demo_dig demo_contract demo_payload demo_completion ''r'' 1 = Inr t"
    by (auto split: sum.splits)
  from validated_turn_bound [OF t] t show ?thesis by (simp add: demo_contract_def)
qed

end
