(* ===== verification/Rewards.thy ===== *)
theory Rewards
  imports Rollout
begin

text \<open>
  Outcome rewards over decoded text, \<^verbatim>\<open>dsv41_train/rl/rewards.py\<close>, the reward factory of
  \<^verbatim>\<open>dsv41_train/rl/data.py\<close> and the selection of GSM8K questions, \<^verbatim>\<open>dsv41_train/rl/gsm8k.py\<close>.
  Texts are ASCII strings; the NFKC normalisation, the JSON reader, the decimal text of a float and
  its value, the tokenizer and the seeded shuffle are arguments. Regular expressions are written out
  as recognisers.
\<close>

section \<open>Final answers\<close>

definition starts_with :: "string \<Rightarrow> string \<Rightarrow> bool" where
  "starts_with p s \<longleftrightarrow> take (length p) s = p"

definition ends_in :: "string \<Rightarrow> string \<Rightarrow> bool" where
  "ends_in p s \<longleftrightarrow> length p \<le> length s \<and> drop (length s - length p) s = p"

text \<open>\<^verbatim>\<open>s.rfind(p)\<close>: the last position of \<open>p\<close>, or \<open>-1\<close>.\<close>

definition rfind :: "string \<Rightarrow> string \<Rightarrow> int" where
  "rfind p s =
     (case filter (\<lambda>i. starts_with p (drop i s)) (rev [0 ..< Suc (length s)]) of
        [] \<Rightarrow> - 1
      | i # _ \<Rightarrow> int i)"

text \<open>The position of the brace that closes the first open one, \<open>None\<close> when there is none.\<close>

fun closing_brace :: "nat \<Rightarrow> nat \<Rightarrow> string \<Rightarrow> nat option" where
  "closing_brace i depth [] = None"
| "closing_brace i depth (c # cs) =
     (if c = CHR ''{'' then closing_brace (Suc i) (Suc depth) cs
      else if c = CHR ''}'' then if depth = 1 then Some i else closing_brace (Suc i) (depth - 1) cs
      else closing_brace (Suc i) depth cs)"

definition answer_tag :: "string \<Rightarrow> string" where
  "answer_tag text =
     (if ends_in ''</answer>'' text then
        let start = rfind ''<answer>'' text; pre = take (nat start) text
        in if 0 \<le> start \<and> rfind ''<answer>'' pre \<le> rfind ''</answer>'' pre
           then strip (take (length text - nat start - 8 - 9) (drop (nat start + 8) text))
           else text
      else text)"

definition boxed_answer :: "string \<Rightarrow> string option" where
  "boxed_answer text =
     (let start = rfind (CHR 0x5C # ''boxed{'') text in
      if start < 0 then None
      else let content_start = nat start + 7 in
        case closing_brace content_start 1 (drop content_start text) of
          None \<Rightarrow> None
        | Some index \<Rightarrow>
            if index = length text - 1 then Some (strip (take (index - content_start) (drop content_start text)))
            else None)"

definition after_last :: "string \<Rightarrow> string \<Rightarrow> string" where
  "after_last p s = drop (nat (rfind p s) + length p) s"

definition final_answer :: "string \<Rightarrow> bool \<Rightarrow> string" where
  "final_answer text numeric =
     (let text = answer_tag (strip text) in
      if \<not> numeric then text
      else case boxed_answer text of
        Some answer \<Rightarrow> answer
      | None \<Rightarrow> if contains_sub ''####'' text then strip (after_last ''####'' text) else text)"

section \<open>Text answers\<close>

fun words :: "string \<Rightarrow> string \<Rightarrow> string list" where
  "words acc [] = (if acc = [] then [] else [rev acc])"
| "words acc (c # cs) =
     (if is_space c then (if acc = [] then words [] cs else rev acc # words [] cs) else words (c # acc) cs)"

definition unwords :: "string list \<Rightarrow> string" where
  "unwords ws = (case ws of [] \<Rightarrow> [] | w # ws \<Rightarrow> w @ concat (map (\<lambda>w. CHR '' '' # w) ws))"

definition text_answer :: "(string \<Rightarrow> string) \<Rightarrow> json \<Rightarrow> string result" where
  "text_answer nfkc v =
     (case v of
        JStr s \<Rightarrow>
          let answer = unwords (words [] (nfkc (final_answer s False)))
          in if answer = [] then Inl (ValueError ''expected a nonempty text answer'') else Inr answer
      | _ \<Rightarrow> Inl (ValueError ''expected a nonempty text answer''))"

section \<open>Numeric answers\<close>

definition digits1 :: "string \<Rightarrow> bool" where
  "digits1 s \<longleftrightarrow> s \<noteq> [] \<and> list_all is_digit s"

text \<open>\<^verbatim>\<open>[0-9]{1,3}(,[0-9]{3})+\<close>.\<close>

definition grouped :: "string \<Rightarrow> bool" where
  "grouped s =
     (case split_on (CHR '','') s of
        first # rest \<Rightarrow> digits1 first \<and> length first \<le> 3 \<and> rest \<noteq> [] \<and>
          list_all (\<lambda>w. list_all is_digit w \<and> length w = 3) rest
      | [] \<Rightarrow> False)"

fun unsigned :: "string \<Rightarrow> string" where
  "unsigned (c # cs) = (if c = CHR ''+'' \<or> c = CHR ''-'' then cs else c # cs)"
| "unsigned [] = []"

definition negative :: "string \<Rightarrow> bool" where
  "negative s \<longleftrightarrow> take 1 s = ''-''"

definition is_exp :: "char \<Rightarrow> bool" where
  "is_exp c \<longleftrightarrow> c = CHR ''e'' \<or> c = CHR ''E''"

text \<open>Mantissa and exponent text, and the integer and fraction text of the mantissa, at the first
  exponent letter and the first dot.\<close>

definition cut :: "(char \<Rightarrow> bool) \<Rightarrow> string \<Rightarrow> string \<times> string option" where
  "cut p s = (let w = takeWhile (\<lambda>c. \<not> p c) s in (w, if length w < length s then Some (drop (Suc (length w)) s) else None))"

definition mantissa_ok :: "string \<Rightarrow> bool" where
  "mantissa_ok s =
     (case cut (\<lambda>c. c = CHR ''.'') s of
        (i, None) \<Rightarrow> digits1 i \<or> grouped i
      | (i, Some f) \<Rightarrow> (digits1 i \<or> grouped i) \<and> list_all is_digit f \<or> i = [] \<and> digits1 f)"

definition is_number :: "string \<Rightarrow> bool" where
  "is_number s =
     (case cut is_exp (unsigned s) of
        (m, None) \<Rightarrow> mantissa_ok m
      | (m, Some e) \<Rightarrow> mantissa_ok m \<and> digits1 (unsigned e))"

definition signed :: "string \<Rightarrow> int" where
  "signed s = (if negative s then - 1 else 1) * int (decimal_value (unsigned s))"

definition mantissa_value :: "string \<Rightarrow> rat" where
  "mantissa_value s =
     (case cut (\<lambda>c. c = CHR ''.'') (filter (\<lambda>c. c \<noteq> CHR '','') s) of
        (i, None) \<Rightarrow> of_nat (decimal_value i)
      | (i, Some f) \<Rightarrow> of_nat (decimal_value (i @ f)) / 10 ^ length f)"

definition scale10 :: "int \<Rightarrow> rat \<Rightarrow> rat" where
  "scale10 e q = (if 0 \<le> e then q * 10 ^ nat e else q / 10 ^ nat (- e))"

definition number_value :: "string \<Rightarrow> rat" where
  "number_value s =
     (let v = (case cut is_exp (unsigned s) of
                 (m, None) \<Rightarrow> mantissa_value m
               | (m, Some e) \<Rightarrow> scale10 (signed e) (mantissa_value m))
      in if negative s then - v else v)"

definition exponent_of :: "string \<Rightarrow> int option" where
  "exponent_of s = map_option signed (snd (cut is_exp (unsigned s)))"

definition decimal_fraction :: "string \<Rightarrow> rat result" where
  "decimal_fraction text =
     (let t = strip text in
      if \<not> is_number t then Inl (ValueError ''expected a finite numeric scalar'')
      else if (case exponent_of t of None \<Rightarrow> False | Some e \<Rightarrow> \<bar>e\<bar> > 1000)
      then Inl (ValueError ''numeric exponent magnitude exceeds 1000'')
      else Inr (number_value t))"

text \<open>\<^verbatim>\<open>\frac{a}{b}\<close> with nonempty parts free of braces.\<close>

definition latex_fraction :: "string \<Rightarrow> (string \<times> string) option" where
  "latex_fraction s =
     (let brace = (\<lambda>c. c = CHR ''{'' \<or> c = CHR ''}'') in
      if \<not> starts_with (CHR 0x5C # ''frac{'') s then None
      else let body = drop 6 s; a = takeWhile (\<lambda>c. \<not> brace c) body; r = drop (length a) body in
        if a = [] \<or> \<not> starts_with ''}{'' r then None
        else let body = drop 2 r; b = takeWhile (\<lambda>c. \<not> brace c) body in
          if b = [] \<or> drop (length b) body \<noteq> ''}'' then None else Some (a, b))"

definition numeric_text :: "string \<Rightarrow> rat result" where
  "numeric_text text =
     (if length text > 512 then Inl (ValueError ''numeric answer exceeds 512 characters'')
      else
        let percent = ends_in ''%'' text;
            text = (if percent then strip (butlast text) else text);
            parts = (case latex_fraction text of Some (a, b) \<Rightarrow> [a, b] | None \<Rightarrow> split_on (CHR ''/'') text)
        in bindE (case parts of
             [a] \<Rightarrow> decimal_fraction a
           | [a, b] \<Rightarrow>
               bindE (decimal_fraction a) (\<lambda>x. bindE (decimal_fraction b) (\<lambda>y.
                 if y = 0 then Inl (ValueError ''numeric answer has a zero denominator'') else Inr (x / y)))
           | _ \<Rightarrow> Inl (ValueError ''expected a single scalar or fraction''))
          (\<lambda>r. Inr (if percent then r / 100 else r)))"

definition numeric_answer :: "(rat \<Rightarrow> string) \<Rightarrow> json \<Rightarrow> rat result" where
  "numeric_answer str_of_float v =
     (case v of
        JStr s \<Rightarrow> numeric_text (final_answer s True)
      | JInt i \<Rightarrow> numeric_text (final_answer (show_int i) True)
      | JFloat (Fin q) \<Rightarrow> numeric_text (final_answer (str_of_float q) True)
      | _ \<Rightarrow> Inl (ValueError ''expected a finite numeric answer''))"

section \<open>JSON answers\<close>

datatype tagged =
    Tag_null
  | Tag_bool bool
  | Tag_str string
  | Tag_number rat
  | Tag_array "tagged list"
  | Tag_object "(string \<times> tagged) list"

text \<open>
  \<open>json_value dec v\<close>: the number of a float is the one its decimal text denotes, \<open>dec\<close>; the
  reader of predictions produces decimals directly, and there \<open>dec\<close> is the identity.
\<close>

fun json_value :: "(rat \<Rightarrow> rat) \<Rightarrow> json \<Rightarrow> tagged result" where
  "json_value dec JNull = Inr Tag_null"
| "json_value dec (JBool b) = Inr (Tag_bool b)"
| "json_value dec (JStr s) = Inr (Tag_str s)"
| "json_value dec (JInt i) = Inr (Tag_number (of_int i))"
| "json_value dec (JFloat f) =
     (case f of Fin q \<Rightarrow> Inr (Tag_number (dec q)) | _ \<Rightarrow> Inl (ValueError ''JSON numbers must be finite''))"
| "json_value dec (JList xs) = bindE (mapE (json_value dec) xs) (\<lambda>ys. Inr (Tag_array ys))"
| "json_value dec (JObj d) =
     bindE (mapE (\<lambda>p. bindE (json_value dec (snd p)) (\<lambda>v. Inr (fst p, v))) d) (\<lambda>d. Inr (Tag_object d))"

text \<open>Equality of the tagged tuples: objects compare as dictionaries.\<close>

fun tag_eq :: "tagged \<Rightarrow> tagged \<Rightarrow> bool" and tag_eq_list :: "tagged list \<Rightarrow> tagged list \<Rightarrow> bool" where
  "tag_eq Tag_null v = (v = Tag_null)"
| "tag_eq (Tag_bool b) v = (v = Tag_bool b)"
| "tag_eq (Tag_str s) v = (v = Tag_str s)"
| "tag_eq (Tag_number q) v = (v = Tag_number q)"
| "tag_eq (Tag_array xs) v = (case v of Tag_array ys \<Rightarrow> tag_eq_list xs ys | _ \<Rightarrow> False)"
| "tag_eq (Tag_object d) v =
     (case v of
        Tag_object e \<Rightarrow> length d = length e \<and>
          list_all (\<lambda>p. case map_of e (fst p) of None \<Rightarrow> False | Some w \<Rightarrow> tag_eq (snd p) w) d
      | _ \<Rightarrow> False)"
| "tag_eq_list [] ys = (ys = [])"
| "tag_eq_list (x # xs) ys = (case ys of [] \<Rightarrow> False | y # ys \<Rightarrow> tag_eq x y \<and> tag_eq_list xs ys)"

text \<open>One complete fenced block, optionally labelled \<^verbatim>\<open>json\<close>; the closing fence has its own line.\<close>

definition fence_head :: "string \<Rightarrow> string option" where
  "fence_head s =
     (if \<not> starts_with ''```'' s then None
      else let r = drop 3 s;
               r = (if starts_with ''json'' r then drop 4 r else r);
               r = dropWhile (\<lambda>c. c = CHR '' '' \<or> c = CHR 0x09) r;
               r = (if take 1 r = [CHR 0x0D] then drop 1 r else r)
           in if take 1 r = [CHR 0x0A] then Some (drop 1 r) else None)"

definition fence_body :: "string \<Rightarrow> string option" where
  "fence_body s =
     (case fence_head s of
        None \<Rightarrow> None
      | Some r \<Rightarrow>
          if \<not> ends_in (CHR 0x0A # ''```'') r then None
          else let b = take (length r - 4) r
               in Some (if b \<noteq> [] \<and> last b = CHR 0x0D then butlast b else b))"

definition json_answer :: "(string \<Rightarrow> json result) \<Rightarrow> string \<Rightarrow> tagged result" where
  "json_answer parse text =
     (let t = strip text in
      bindE (parse (case fence_body t of Some b \<Rightarrow> b | None \<Rightarrow> t)) (\<lambda>v.
        if \<not> unique_keys v then Inl (ValueError ''duplicate JSON object key'') else json_value (\<lambda>q. q) v))"

section \<open>Text rewards\<close>

datatype answer = Text_answer string | Number_answer rat | Json_answer tagged

fun answer_eq :: "answer \<Rightarrow> answer \<Rightarrow> bool" where
  "answer_eq (Text_answer a) b = (b = Text_answer a)"
| "answer_eq (Number_answer a) b = (b = Number_answer a)"
| "answer_eq (Json_answer a) b = (case b of Json_answer b \<Rightarrow> tag_eq a b | _ \<Rightarrow> False)"

text \<open>The standard-library functions the parsers call.\<close>

record text_lib =
  nfkc :: "string \<Rightarrow> string"
  str_of_float :: "rat \<Rightarrow> string"
  float_decimal :: "rat \<Rightarrow> rat"
  parse_decimal_json :: "string \<Rightarrow> json result"

definition text_rewards :: "string list" where
  "text_rewards = [''text_exact_match'', ''numeric_answer'', ''json_match'']"

definition reference_parser :: "text_lib \<Rightarrow> string \<Rightarrow> json \<Rightarrow> answer result" where
  "reference_parser lib spec v =
     (if spec = ''text_exact_match'' then bindE (text_answer (nfkc lib) v) (\<lambda>a. Inr (Text_answer a))
      else if spec = ''numeric_answer'' then bindE (numeric_answer (str_of_float lib) v) (\<lambda>a. Inr (Number_answer a))
      else bindE (json_value (float_decimal lib) v) (\<lambda>a. Inr (Json_answer a)))"

definition prediction_parser :: "text_lib \<Rightarrow> string \<Rightarrow> string \<Rightarrow> answer result" where
  "prediction_parser lib spec text =
     (if spec = ''text_exact_match'' then bindE (text_answer (nfkc lib) (JStr text)) (\<lambda>a. Inr (Text_answer a))
      else if spec = ''numeric_answer''
      then bindE (numeric_answer (str_of_float lib) (JStr text)) (\<lambda>a. Inr (Number_answer a))
      else bindE (json_answer (parse_decimal_json lib) text) (\<lambda>a. Inr (Json_answer a)))"

text \<open>\<open>text_reward\<close> is the closure that \<^verbatim>\<open>build_text_reward\<close> returns. The exceptions its clauses
  name are those of the parsers; the other kinds pass.\<close>

definition caught :: "exn \<Rightarrow> bool" where
  "caught e = (case e of ValueError _ \<Rightarrow> True | OverflowError \<Rightarrow> True | _ \<Rightarrow> False)"

definition is_key_error :: "exn \<Rightarrow> bool" where
  "is_key_error e = (case e of KeyError _ \<Rightarrow> True | _ \<Rightarrow> False)"

definition text_reward ::
  "text_lib \<Rightarrow> (int list \<Rightarrow> json result) \<Rightarrow> string \<Rightarrow> prompt_record \<Rightarrow> int list \<Rightarrow> rat result" where
  "text_reward lib decode spec rec response =
     (case bindE (dlookup (metadata rec) ''answer'') (reference_parser lib spec) of
        Inl e \<Rightarrow>
          if caught e \<or> is_key_error e
          then Inl (ValueError (''reward '' @ spec @ '' requires valid metadata['' @ ''answer'' @ '']'')) else Inl e
      | Inr expected \<Rightarrow>
          case decode response of
            Inl (ValueError _) \<Rightarrow> Inr 0
          | Inl e \<Rightarrow> Inl e
          | Inr (JStr text) \<Rightarrow>
              (case prediction_parser lib spec text of
                 Inl e \<Rightarrow> if caught e then Inr 0 else Inl e
               | Inr actual \<Rightarrow> Inr (if answer_eq actual expected then 1 else 0))
          | Inr _ \<Rightarrow> Inl (ValueError ''tokenizer.decode() must return text''))"

section \<open>The reward factory\<close>

definition partition_colon :: "string \<Rightarrow> (string \<times> string) option" where
  "partition_colon spec =
     (case cut (\<lambda>c. c = CHR '':'') spec of
        (m, Some f) \<Rightarrow> if m = [] \<or> f = [] \<or> CHR '':'' \<in> set f then None else Some (m, f)
      | (m, None) \<Rightarrow> None)"

definition as_float :: "rat result \<Rightarrow> flt result" where
  "as_float r = bindE r (\<lambda>q. Inr (Fin q))"

text \<open>\<open>plugin m f\<close> is the callable a \<^verbatim>\<open>module:function\<close> specification imports.\<close>

definition resolve_reward ::
  "text_lib \<Rightarrow> (int list \<Rightarrow> json result) option \<Rightarrow>
   (string \<Rightarrow> string \<Rightarrow> (prompt_record \<Rightarrow> int list \<Rightarrow> flt result) option result) \<Rightarrow> string \<Rightarrow>
   (prompt_record \<Rightarrow> int list \<Rightarrow> flt result) result" where
  "resolve_reward lib decode plugin spec =
     (if spec \<in> set text_rewards then
        case decode of
          None \<Rightarrow> Inl (ValueError (''reward '' @ spec @ '' requires tokenizer.json in the model directory''))
        | Some dec \<Rightarrow> Inr (\<lambda>r ids. as_float (text_reward lib dec spec r ids))
      else if spec = ''token_accuracy'' then Inr (\<lambda>r ids. as_float (token_accuracy r ids))
      else if spec = ''exact_match'' then Inr (\<lambda>r ids. as_float (exact_match r ids))
      else if spec = ''toy_token_score'' then Inr (\<lambda>r ids. as_float (toy_token_score r ids))
      else case partition_colon spec of
        None \<Rightarrow> Inl (ValueError (''unknown reward '' @ spec @ ''; use a builtin or module:function''))
      | Some (m, f) \<Rightarrow>
          bindE (plugin m f) (\<lambda>fn. case fn of
            None \<Rightarrow> Inl (ValueError (''reward '' @ spec @ '' is not callable''))
          | Some fn \<Rightarrow> Inr fn))"

definition build_reward ::
  "text_lib \<Rightarrow> (int list \<Rightarrow> json result) option \<Rightarrow>
   (string \<Rightarrow> string \<Rightarrow> (prompt_record \<Rightarrow> int list \<Rightarrow> flt result) option result) \<Rightarrow> string \<Rightarrow> reward_fn result" where
  "build_reward lib decode plugin spec =
     bindE (resolve_reward lib decode plugin spec) (\<lambda>fn.
       Inr \<lparr>score = (\<lambda>r ids. bindE (fn r ids) (\<lambda>x.
              if isfinite x then Inr x else Inl (ValueError (''reward '' @ spec @ '' returned a non-finite value'')))),
            strip_stop_tokens = (spec \<in> set text_rewards)\<rparr>)"

section \<open>Integers are read back\<close>

lemma digit_facts:
  assumes "is_digit c"
  shows "\<not> is_space c" "\<not> is_exp c" "c \<noteq> CHR ''.''" "c \<noteq> CHR '',''" "c \<noteq> CHR ''/''" "c \<noteq> CHR ''+''" "c \<noteq> CHR ''-''"
    "c \<noteq> CHR ''#''" "c \<noteq> CHR ''}''" "c \<noteq> CHR ''>''" "c \<noteq> CHR ''%''" "c \<noteq> CHR 0x5C"
  using assms by (auto simp: is_digit_def is_space_def is_exp_def)

lemma cut_none: "\<not> list_ex p s \<Longrightarrow> cut p s = (s, None)"
proof -
  assume "\<not> list_ex p s"
  then have w: "takeWhile (\<lambda>c. \<not> p c) s = s" by (auto simp: list_ex_iff takeWhile_eq_all_conv)
  show ?thesis unfolding cut_def Let_def w by simp
qed

lemma digits_cut:
  assumes "list_all is_digit s"
  shows "cut is_exp s = (s, None)" "cut (\<lambda>c. c = CHR ''.'') s = (s, None)" "filter (\<lambda>c. c \<noteq> CHR '','') s = s"
  using assms by (auto simp: list_all_iff list_ex_iff digit_facts filter_id_conv intro!: cut_none)

lemma unsigned_show_int: "unsigned (show_int i) = show_nat (nat \<bar>i\<bar>)" "negative (show_int i) \<longleftrightarrow> i < 0"
proof -
  obtain c cs where c: "show_nat (nat \<bar>i\<bar>) = c # cs" by (cases "show_nat (nat \<bar>i\<bar>)") simp_all
  with show_nat_digits [of "nat \<bar>i\<bar>"] have "is_digit c" by simp
  with c show "unsigned (show_int i) = show_nat (nat \<bar>i\<bar>)" "negative (show_int i) \<longleftrightarrow> i < 0"
    by (auto simp: show_int_def negative_def digit_facts)
qed

lemma number_show_int: "is_number (show_int i) \<and> number_value (show_int i) = of_int i \<and> exponent_of (show_int i) = None"
proof -
  let ?s = "show_nat (nat \<bar>i\<bar>)"
  have d: "list_all is_digit ?s" "decimal_value ?s = nat \<bar>i\<bar>" "?s \<noteq> []" using show_nat_digits by auto
  have "mantissa_value ?s = of_int \<bar>i\<bar>" by (simp add: mantissa_value_def digits_cut d)
  with d show ?thesis
    by (simp add: is_number_def number_value_def Let_def exponent_of_def unsigned_show_int digits_cut mantissa_ok_def digits1_def)
qed

lemma strip_id:
  assumes "s \<noteq> []" "\<not> is_space (hd s)" "\<not> is_space (last s)"
  shows "strip s = s"
proof -
  have "dropWhile is_space s = s" using assms by (cases s) auto
  moreover have "dropWhile is_space (rev s) = rev s" using assms by (cases s rule: rev_cases) auto
  ultimately show ?thesis by (simp add: strip_def)
qed

lemma show_int_ends:
  "is_digit (last (show_int i))" "\<not> is_space (hd (show_int i))" "\<forall>c \<in> set (show_int i). is_digit c \<or> c = CHR ''-''"
proof -
  have d: "list_all is_digit (show_nat (nat \<bar>i\<bar>))" "show_nat (nat \<bar>i\<bar>) \<noteq> []" using show_nat_digits by auto
  then show "is_digit (last (show_int i))" by (simp add: show_int_def list_all_iff)
  have "is_digit (hd (show_nat (nat \<bar>i\<bar>)))" using d by (simp add: list_all_iff)
  note h = digit_facts(1) [OF this]
  show "\<not> is_space (hd (show_int i))"
  proof (cases "i < 0")
    case True
    then show ?thesis by (simp add: show_int_def is_space_def)
  next
    case False
    with h show ?thesis by (simp add: show_int_def)
  qed
  show "\<forall>c \<in> set (show_int i). is_digit c \<or> c = CHR ''-''" using d by (auto simp: show_int_def list_all_iff)
qed

lemma strip_show_int: "strip (show_int i) = show_int i"
  using show_int_ends [of i] by (intro strip_id) (auto simp: digit_facts)

lemma decimal_fraction_show_int: "decimal_fraction (show_int i) = Inr (of_int i)"
  using number_show_int [of i] by (simp add: decimal_fraction_def strip_show_int)

lemma length_show_int: "\<bar>i\<bar> < 10 ^ 500 \<Longrightarrow> length (show_int i) \<le> 512"
proof -
  assume "\<bar>i\<bar> < 10 ^ 500"
  then have "nat \<bar>i\<bar> < 10 ^ 500" by (simp add: nat_less_iff)
  then have "length (show_nat (nat \<bar>i\<bar>)) \<le> 500" by (rule length_show_nat) simp
  then show ?thesis by (cases "i < 0") (simp_all add: show_int_def)
qed

lemma numeric_text_show_int: "\<bar>i\<bar> < 10 ^ 500 \<Longrightarrow> numeric_text (show_int i) = Inr (of_int i)"
proof -
  assume "\<bar>i\<bar> < 10 ^ 500"
  note len = length_show_int [OF this] and e = show_int_ends [of i]
  have "drop (length (show_int i) - 1) (show_int i) = [last (show_int i)]"
    by (cases "show_int i" rule: rev_cases) (use show_int_nonempty [of i] in \<open>auto\<close>)
  then have "\<not> ends_in ''%'' (show_int i)" using e(1) by (auto simp: ends_in_def digit_facts)
  moreover have "latex_fraction (show_int i) = None"
  proof -
    have "hd (show_int i) \<in> set (show_int i)" by simp
    with e(3) have "is_digit (hd (show_int i)) \<or> hd (show_int i) = CHR ''-''" by blast
    then have "hd (show_int i) \<noteq> CHR 0x5C" using digit_facts(12) by auto
    then show ?thesis by (cases "show_int i") (auto simp: latex_fraction_def starts_with_def Let_def)
  qed
  moreover have "split_on (CHR ''/'') (show_int i) = [show_int i]"
    using e(3) by (intro split_on_word) (auto simp: is_digit_def)
  ultimately show ?thesis using len by (simp add: numeric_text_def decimal_fraction_show_int)
qed

section \<open>Marked answers\<close>

lemma closing_brace_char:
  "closing_brace i d s = Some j \<Longrightarrow> i \<le> j \<and> j < i + length s \<and> s ! (j - i) = CHR ''}''"
proof (induction i d s rule: closing_brace.induct)
  case (2 i d c cs)
  have "?case" if "closing_brace (Suc i) e cs = Some j" and "Suc i \<le> j \<and> j < Suc i + length cs \<and> cs ! (j - Suc i) = CHR ''}''" for e
    using that by (auto simp: nth_Cons' Suc_diff_Suc less_eq_Suc_le)
  with 2 show ?case by (auto split: if_split_asm)
qed simp

lemma boxed_needs_brace: "s \<noteq> [] \<Longrightarrow> last s \<noteq> CHR ''}'' \<Longrightarrow> boxed_answer s = None"
proof (rule ccontr)
  assume s: "s \<noteq> []" "last s \<noteq> CHR ''}''" "boxed_answer s \<noteq> None"
  then obtain st where st: "closing_brace st 1 (drop st s) = Some (length s - 1)"
    by (auto simp: boxed_answer_def Let_def split: if_splits option.splits)
  from closing_brace_char [OF this] have c: "st \<le> length s - 1" "drop st s ! (length s - 1 - st) = CHR ''}''" by auto
  then have "drop st s ! (length s - 1 - st) = s ! (st + (length s - 1 - st))" by (intro nth_drop) simp
  moreover have "st + (length s - 1 - st) = length s - 1" using c(1) by simp
  ultimately have "last s = CHR ''}''" using c(2) last_conv_nth [OF s(1)] by (simp only:)
  with s show False by simp
qed

lemma ends_in_last: "ends_in p s \<Longrightarrow> p \<noteq> [] \<Longrightarrow> last s = last p"
  unfolding ends_in_def by (metis append_take_drop_id last_appendR)

lemma answer_tag_id: "last s \<noteq> CHR ''>'' \<Longrightarrow> answer_tag s = s"
  using ends_in_last [of "''</answer>''" s] by (auto simp: answer_tag_def)

lemma later_match:
  assumes "drop k (p @ r) = p @ q" "0 < k" "p \<noteq> []"
  shows "last p \<in> set r"
proof -
  have len: "length (p @ r) = k + length p + length q"
    using arg_cong [OF assms(1), of length] assms(3) by (cases "k \<le> length (p @ r)") auto
  have "last p = (p @ q) ! (length p - 1)" using assms(3) by (simp add: last_conv_nth nth_append)
  also have "\<dots> = (p @ r) ! (k + (length p - 1))" unfolding assms(1) [symmetric] using len by (intro nth_drop) simp
  also have "\<dots> = r ! (k + (length p - 1) - length p)"
    using assms(2,3) length_greater_0_conv [of p] by (simp only: nth_append) auto
  finally show ?thesis using len assms(2,3) by (cases p) auto
qed

lemma rfind_last:
  assumes "p \<noteq> []" "last p \<notin> set r"
  shows "rfind p (t @ p @ r) = int (length t)"
proof -
  let ?s = "t @ p @ r"
  have no: "\<not> starts_with p (drop i ?s)" if "length t < i" for i
  proof
    assume "starts_with p (drop i ?s)"
    then have "take (length p) (drop (i - length t) (p @ r)) = p" using that by (simp add: starts_with_def)
    then have "drop (i - length t) (p @ r) = p @ drop (length p) (drop (i - length t) (p @ r))"
      by (metis append_take_drop_id)
    from later_match [OF this] that assms show False by simp
  qed
  have "[0 ..< Suc (length ?s)] = [0 ..< Suc (length t)] @ [Suc (length t) ..< Suc (length ?s)]"
    using upt_add_eq_append [of 0 "Suc (length t)" "length (p @ r)"] by (simp del: upt_Suc)
  then have "rev [0 ..< Suc (length ?s)] = rev [Suc (length t) ..< Suc (length ?s)] @ rev [0 ..< Suc (length t)]"
    by (simp only: rev_append)
  moreover have "filter (\<lambda>i. starts_with p (drop i ?s)) (rev [Suc (length t) ..< Suc (length ?s)]) = []"
    using no by (auto simp: filter_empty_conv simp del: upt_Suc)
  moreover have "starts_with p (drop (length t) ?s)" by (simp add: starts_with_def)
  ultimately show ?thesis unfolding rfind_def by (simp only: filter_append append_Nil) simp
qed

lemma contains_sub_append: "contains_sub p (t @ p @ r)"
proof (induction t)
  case Nil
  have "prefix p (p @ r)" by simp
  then show ?case by (cases "p @ r") (simp_all del: prefix_Cons)
qed simp

lemma strip_marked:
  assumes "\<not> is_space (last s)" "s \<noteq> []" "\<not> is_space c"
  shows "strip (t @ c # s) = dropWhile is_space t @ c # s"
proof -
  have "dropWhile is_space (t @ c # s) = dropWhile is_space t @ c # s" using assms(3) by (induction t) auto
  moreover have "dropWhile is_space (rev (u @ c # s)) = rev (u @ c # s)" for u
    using assms by (cases s rule: rev_cases) auto
  ultimately show ?thesis by (simp add: strip_def)
qed

lemma strip_space_show_int: "strip ('' '' @ show_int i) = show_int i"
proof -
  have "dropWhile is_space (show_int i) = show_int i"
    using show_int_ends(2) [of i] by (cases "show_int i") simp_all
  then have "dropWhile is_space ('' '' @ show_int i) = dropWhile is_space (show_int i)" by (simp add: is_space_def)
  then show ?thesis using strip_show_int [of i] unfolding strip_def by (simp only:)
qed

lemma final_answer_marked: "final_answer (t @ ''#### '' @ show_int i) True = show_int i"
proof -
  let ?s = "''### '' @ show_int i" and ?t = "dropWhile is_space t"
  have l: "last ?s = last (show_int i)" "is_digit (last (show_int i))" using show_int_ends(1) by simp_all
  have "strip (t @ CHR ''#'' # ?s) = ?t @ CHR ''#'' # ?s"
    by (rule strip_marked) (simp_all only: l digit_facts(1) [OF l(2)] not_False_eq_True, simp_all add: is_space_def)
  then have s: "strip (t @ ''#### '' @ show_int i) = ?t @ ''####'' @ '' '' @ show_int i" by simp
  let ?u = "?t @ ''####'' @ '' '' @ show_int i"
  have lu: "last ?u = last (show_int i)" by simp
  note nd = digit_facts(9,10) [OF l(2)]
  have "answer_tag ?u = ?u" by (rule answer_tag_id) (simp only: lu nd not_False_eq_True)
  moreover have "boxed_answer ?u = None" by (rule boxed_needs_brace) (simp_all only: lu nd not_False_eq_True, simp)
  moreover have "contains_sub ''####'' ?u" by (rule contains_sub_append)
  moreover have "CHR ''#'' \<notin> set (show_int i)"
  proof
    assume "CHR ''#'' \<in> set (show_int i)"
    with show_int_ends(3) [of i] have "is_digit (CHR ''#'') \<or> CHR ''#'' = CHR ''-''" by blast
    then show False by (simp add: is_digit_def)
  qed
  then have "rfind ''####'' ?u = int (length ?t)" by (intro rfind_last) simp_all
  then have "after_last ''####'' ?u = '' '' @ show_int i" by (simp add: after_last_def)
  moreover note strip_space_show_int [of i]
  ultimately show ?thesis unfolding final_answer_def Let_def s by (simp only: not_True_eq_False if_False option.case if_True)
qed

lemma contains_sub_set: "contains_sub p s \<Longrightarrow> set p \<subseteq> set s"
proof (induction p s rule: contains_sub.induct)
  case (2 p x xs)
  then consider "prefix p (x # xs)" | "contains_sub p xs" unfolding contains_sub.simps by blast
  then show ?case
  proof cases
    case 1
    then show ?thesis by (rule set_mono_prefix)
  qed (use 2 in auto)
qed simp

lemma final_answer_show_int: "final_answer (show_int i) True = show_int i"
proof -
  have l: "is_digit (last (show_int i))" using show_int_ends(1) .
  have "answer_tag (show_int i) = show_int i" using digit_facts(10) [OF l] by (rule answer_tag_id)
  moreover have "boxed_answer (show_int i) = None" using digit_facts(9) [OF l] by (intro boxed_needs_brace) simp
  moreover have "\<not> contains_sub ''####'' (show_int i)"
  proof
    assume "contains_sub ''####'' (show_int i)"
    then have "CHR ''#'' \<in> set (show_int i)" using contains_sub_set [of "''####''" "show_int i"] by simp
    with show_int_ends(3) [of i] have "is_digit (CHR ''#'') \<or> CHR ''#'' = CHR ''-''" by blast
    then show False by (simp add: is_digit_def)
  qed
  ultimately show ?thesis unfolding final_answer_def Let_def strip_show_int by (simp only: not_True_eq_False if_False option.case)
qed

lemma decimal_fraction_error: "decimal_fraction s = Inl e \<Longrightarrow> caught e"
  by (auto simp: decimal_fraction_def Let_def caught_def split: if_splits)

lemma numeric_text_error: "numeric_text s = Inl e \<Longrightarrow> caught e"
proof -
  have pair: "caught e" if "bindE (decimal_fraction a) (\<lambda>x. bindE (decimal_fraction b) (\<lambda>y.
      if y = 0 then Inl (ValueError m) else Inr (x / y))) = Inl e" for a b e m
    using that decimal_fraction_error
    by (cases "decimal_fraction a"; cases "decimal_fraction b") (auto simp: caught_def split: if_splits)
  have err: "bindE r (\<lambda>x. Inr (f x)) = Inl e \<Longrightarrow> r = Inl e" for r :: "rat result" and f :: "rat \<Rightarrow> rat" and e
    by (cases r) auto
  show "numeric_text s = Inl e \<Longrightarrow> caught e"
    unfolding numeric_text_def Let_def
    by (auto simp: caught_def [of "ValueError _"] split: if_split_asm list.splits option.splits prod.splits
      dest!: err pair decimal_fraction_error)
qed


text \<open>
  An answer in the format the prompts ask for is read exactly: whatever text comes before, a
  response that ends with the marker \<^verbatim>\<open>####\<close>, a space and the decimal digits of an integer of up to
  500 digits denotes that integer, and so does the bare integer.
\<close>

theorem marked_integer_read:
  assumes "\<bar>i\<bar> < 10 ^ 500"
  shows "numeric_answer sf (JStr (t @ ''#### '' @ show_int i)) = Inr (of_int i) \<and>
    numeric_answer sf (JInt i) = Inr (of_int i)"
  using numeric_text_show_int [OF assms] final_answer_marked [of t i] final_answer_show_int [of i]
  by (simp add: numeric_answer_def)

definition demo_lib :: text_lib where
  "demo_lib = \<lparr>nfkc = (\<lambda>s. s), str_of_float = (\<lambda>_. ''0''), float_decimal = (\<lambda>q. q), parse_decimal_json = (\<lambda>_. Inr JNull)\<rparr>"

definition demo_question :: prompt_record where
  "demo_question = \<lparr>prompt_ids = [1], target_ids = None, metadata = [(''answer'', JStr ''7.0'')]\<rparr>"


theorem marked_integer_read_witness:
  "numeric_answer (\<lambda>_. []) (JStr (''a '' @ ''#### '' @ show_int (- 42))) = Inr (of_int (- 42))"
proof -
  have b: "\<bar>- 42 :: int\<bar> < 10 ^ 500" by simp
  show ?thesis by (rule marked_integer_read [OF b, THEN conjunct1])
qed

end
