(* ===== verification/Gsm8k.thy ===== *)
theory Gsm8k
  imports Rewards
begin

text \<open>
  Selection of the GSM8K questions, \<^verbatim>\<open>dsv41_train/rl/gsm8k.py\<close>: validation of an official split,
  the seeded selection of training and held-out prompts within the prompt limit, and the formatting
  metric. The file contents are lists of lines with the digest of the file; the JSON reader, the
  tokenizer and the shuffle by the seeded generator are arguments.
\<close>

definition dataset_revision :: string where
  "dataset_revision = ''3101c7d5072418e28b9008a6636bde82a006892c''"

definition train_sha256 :: string where
  "train_sha256 = ''17f347dc51477c50d4efb83959dbb7c56297aba886e5544ee2aaed3024813465''"

definition test_sha256 :: string where
  "test_sha256 = ''3730d312f6e3440559ace48831e51066acaca737f6eabec99bccb9e4b3c39d14''"

record gsm_row =
  row_id :: string
  question :: string
  row_answer :: string

record split_file =
  file_name :: string
  file_lines :: "string list"
  file_sha256 :: string

definition read_row ::
  "(string \<Rightarrow> json result) \<Rightarrow> (rat \<Rightarrow> string) \<Rightarrow> string \<Rightarrow> string \<Rightarrow> nat \<Rightarrow> string \<Rightarrow> gsm_row result" where
  "read_row parse sf path split_name index line =
     bindE (parse line) (\<lambda>row. let d = fields_of row in
     case (dget d ''question'', dget d ''answer'') of
       (JStr q, JStr a) \<Rightarrow>
         if is_obj row \<and> strip q \<noteq> [] \<and> contains_sub ''####'' a then
           let answer = strip (after_last ''####'' a) in
           bindE (numeric_answer sf (JStr answer)) (\<lambda>_.
             Inr \<lparr>row_id = ''gsm8k:'' @ split_name @ '':'' @ show_nat index, question = q, row_answer = answer\<rparr>)
         else Inl (ValueError (path @ '':'' @ show_nat (index + 1) @ '': not an official GSM8K question/answer record''))
     | _ \<Rightarrow> Inl (ValueError (path @ '':'' @ show_nat (index + 1) @ '': not an official GSM8K question/answer record'')))"

fun read_rows :: "(nat \<Rightarrow> string \<Rightarrow> gsm_row result) \<Rightarrow> nat \<Rightarrow> string list \<Rightarrow> gsm_row list result" where
  "read_rows rd n [] = Inr []"
| "read_rows rd n (l # ls) = bindE (rd n l) (\<lambda>r. bindE (read_rows rd (Suc n) ls) (\<lambda>rs. Inr (r # rs)))"

definition load_split ::
  "(string \<Rightarrow> json result) \<Rightarrow> (rat \<Rightarrow> string) \<Rightarrow> split_file \<Rightarrow> string \<Rightarrow> (gsm_row list \<times> string) result" where
  "load_split parse sf f split_name =
     (if split_name \<notin> {''train'', ''test''} then Inl (ValueError ''GSM8K split must be train or test'')
      else bindE (read_rows (read_row parse sf (file_name f) split_name) 0 (file_lines f)) (\<lambda>rows.
        let expected = (if split_name = ''train'' then 7473 else 1319) in
        if length rows \<noteq> expected \<or> \<not> distinct (map question rows)
        then Inl (ValueError (''official GSM8K '' @ split_name @ '' must contain '' @ show_nat expected @ '' distinct questions''))
        else Inr (rows, file_sha256 f)))"

definition prompt_text :: "gsm_row \<Rightarrow> string" where
  "prompt_text row = question row @
     (CHR 0x0A # ''Solve the problem. End your answer with #### followed by the final numeric answer.'')"

definition row_metadata :: "string \<Rightarrow> string \<Rightarrow> gsm_row \<Rightarrow> dict" where
  "row_metadata revision split_name row =
     [(''id'', JStr (row_id row)), (''question'', JStr (question row)), (''answer'', JStr (row_answer row)),
      (''dataset'', JStr ''gsm8k''), (''split'', JStr split_name), (''revision'', JStr revision)]"

definition row_record :: "tokenizer \<Rightarrow> string \<Rightarrow> string \<Rightarrow> gsm_row \<Rightarrow> prompt_record result" where
  "row_record encode_prompt revision split_name row =
     bindE (encode_prompt (JStr (prompt_text row)) JNull) (\<lambda>ids.
       PromptRecord ids JNull (JObj (row_metadata revision split_name row)))"

text \<open>The loop over the shuffled rows; it stops as soon as \<open>count\<close> records are selected.\<close>

fun select_rows ::
  "(gsm_row \<Rightarrow> prompt_record result) \<Rightarrow> nat \<Rightarrow> nat \<Rightarrow> prompt_record list \<Rightarrow> string list \<Rightarrow> gsm_row list \<Rightarrow>
   (prompt_record list \<times> string list) result" where
  "select_rows mk limit cnt sel excl [] = Inr (sel, excl)"
| "select_rows mk limit cnt sel excl (row # rows) =
     bindE (mk row) (\<lambda>r.
       if length (prompt_ids r) > limit then select_rows mk limit cnt sel (excl @ [row_id row]) rows
       else if length (sel @ [r]) = cnt then Inr (sel @ [r], excl)
       else select_rows mk limit cnt (sel @ [r]) excl rows)"

definition select_split ::
  "(gsm_row \<Rightarrow> prompt_record result) \<Rightarrow> nat \<Rightarrow> nat \<Rightarrow> string \<Rightarrow> gsm_row list \<Rightarrow> (prompt_record list \<times> string list) result" where
  "select_split mk limit cnt split_name rows =
     bindE (select_rows mk limit cnt [] [] rows) (\<lambda>(sel, excl).
       if length sel \<noteq> cnt then Inl (ValueError (''not enough GSM8K '' @ split_name @ '' records fit the prompt limit''))
       else Inr (sel, excl))"

record gsm_data =
  train_records :: "prompt_record list"
  test_records :: "prompt_record list"
  overlength_train :: "string list"
  overlength_test :: "string list"

definition prepare_data ::
  "(string \<Rightarrow> json result) \<Rightarrow> (rat \<Rightarrow> string) \<Rightarrow> (int \<Rightarrow> gsm_row list \<Rightarrow> gsm_row list \<Rightarrow> gsm_row list \<times> gsm_row list) \<Rightarrow>
   tokenizer \<Rightarrow> split_file \<Rightarrow> split_file \<Rightarrow> string \<Rightarrow> int \<Rightarrow> int \<Rightarrow> int \<Rightarrow> int \<Rightarrow> gsm_data result" where
  "prepare_data parse sf shuffle encode_prompt train_file test_file revision seed max_prompt max_train eval_questions =
     (if revision \<noteq> dataset_revision then Inl (ValueError ''GSM8K revision differs from the pinned official dataset'')
      else if \<not> (1 \<le> eval_questions \<and> eval_questions \<le> 1319) \<or> max_train < 1 \<or> max_prompt < 1
      then Inl (ValueError ''use a nonempty held-out subset and train groups, with a positive prompt limit'')
      else bindE (load_split parse sf train_file ''train'') (\<lambda>(train, train_hash).
      bindE (load_split parse sf test_file ''test'') (\<lambda>(test, test_hash).
      if train_hash \<noteq> train_sha256 \<or> test_hash \<noteq> test_sha256
      then Inl (ValueError ''official GSM8K files differ from the pinned revision hashes'')
      else if list_ex (\<lambda>r. question r \<in> set (map question test)) train
      then Inl (ValueError ''GSM8K training/test question overlap'')
      else
        let (train, test) = shuffle seed train test in
        bindE (select_split (row_record encode_prompt revision ''train'') (nat max_prompt) (nat max_train) ''train'' train)
          (\<lambda>(tr, xtr).
        bindE (select_split (row_record encode_prompt revision ''test'') (nat max_prompt) (nat eval_questions) ''test'' test)
          (\<lambda>(te, xte).
        Inr \<lparr>train_records = tr, test_records = te, overlength_train = xtr, overlength_test = xte\<rparr>)))))"

definition formatting_correct :: "(rat \<Rightarrow> string) \<Rightarrow> string \<Rightarrow> bool result" where
  "formatting_correct sf text =
     (if \<not> contains_sub ''####'' text then Inr False
      else case numeric_answer sf (JStr (strip (after_last ''####'' text))) of
        Inr _ \<Rightarrow> Inr True
      | Inl e \<Rightarrow> if caught e then Inr False else Inl e)"

section \<open>The selection\<close>

definition asks :: "prompt_record \<Rightarrow> json" where
  "asks r = dget (metadata r) ''question''"

lemma row_record_asks: "row_record enc rv sp row = Inr r \<Longrightarrow> asks r = JStr (question row)"
  by (auto simp: row_record_def PromptRecord_def bindE_Inr_iff asks_def row_metadata_def split: if_splits)

lemma select_rows_Inr:
  assumes "select_rows mk limit cnt sel excl rows = Inr (out, x)" "\<And>row r. mk row = Inr r \<Longrightarrow> asks r = JStr (question row)"
  shows "\<exists>rs rows'. out = sel @ rs \<and> (\<forall>r \<in> set rs. length (prompt_ids r) \<le> limit) \<and>
    map asks rs = map (\<lambda>row. JStr (question row)) rows' \<and> subseq rows' rows"
  using assms(1)
proof (induction rows arbitrary: sel excl)
  case (Cons row rows)
  from Cons.prems obtain r where r: "mk row = Inr r" by (auto simp: bindE_Inr_iff)
  note a = assms(2) [OF r]
  consider "length (prompt_ids r) > limit" "select_rows mk limit cnt sel (excl @ [row_id row]) rows = Inr (out, x)"
    | "length (prompt_ids r) \<le> limit" "out = sel @ [r]"
    | "length (prompt_ids r) \<le> limit" "select_rows mk limit cnt (sel @ [r]) excl rows = Inr (out, x)"
    using Cons.prems r by (auto split: if_split_asm)
  then show ?case
  proof cases
    case 1
    from Cons.IH [OF 1(2)] obtain rs rows' where "out = sel @ rs" "\<forall>r \<in> set rs. length (prompt_ids r) \<le> limit"
      "map asks rs = map (\<lambda>row. JStr (question row)) rows'" "subseq rows' rows" by blast
    then show ?thesis by (intro exI [of _ rs] exI [of _ rows']) auto
  next
    case 2
    then show ?thesis using a by (intro exI [of _ "[r]"] exI [of _ "[row]"]) auto
  next
    case 3
    from Cons.IH [OF 3(2)] obtain rs rows' where "out = (sel @ [r]) @ rs" "\<forall>r \<in> set rs. length (prompt_ids r) \<le> limit"
      "map asks rs = map (\<lambda>row. JStr (question row)) rows'" "subseq rows' rows" by blast
    with a 3(1) show ?thesis by (intro exI [of _ "r # rs"] exI [of _ "row # rows'"]) auto
  qed
qed auto

lemma select_split_Inr:
  assumes "select_split (row_record enc rv sp) limit cnt name rows = Inr (out, x)" "distinct (map question rows)"
  shows "length out = cnt \<and> (\<forall>r \<in> set out. length (prompt_ids r) \<le> limit) \<and> distinct (map asks out) \<and>
    asks ` set out \<subseteq> (\<lambda>row. JStr (question row)) ` set rows"
proof -
  from assms(1) have "select_rows (row_record enc rv sp) limit cnt [] [] rows = Inr (out, x)" "length out = cnt"
    by (auto simp: select_split_def bindE_Inr_iff split: if_splits)
  moreover have "row_record enc rv sp row = Inr r \<Longrightarrow> asks r = JStr (question row)" for row r by (rule row_record_asks)
  from select_rows_Inr [OF calculation(1) this] obtain rows' where
    r: "\<forall>r \<in> set out. length (prompt_ids r) \<le> limit" "map asks out = map (\<lambda>row. JStr (question row)) rows'"
      "subseq rows' rows" by auto
  moreover have "distinct (map question rows')"
    using assms(2) subseq_map [OF r(3), of question] by (metis distinct_nthsI subseq_conv_nths)
  then have "distinct (map JStr (map question rows'))" by (simp add: distinct_map inj_on_def del: map_map)
  then have "distinct (map asks out)" unfolding r(2) by (simp add: comp_def)
  moreover have "asks ` set out = (\<lambda>row. JStr (question row)) ` set rows'"
    using arg_cong [OF r(2), of set] by simp
  moreover have "set rows' \<subseteq> set rows" using r(3) by (metis set_nths_subset subseq_conv_nths)
  ultimately show ?thesis by auto
qed

text \<open>
  When data preparation succeeds with a shuffle that permutes each split, the result holds
  exactly the requested numbers of training and held-out records, every prompt is within the limit
  and was not truncated, no question is asked twice in either part, and no training question is a
  held-out question.
\<close>

theorem prepare_data_disjoint:
  assumes "prepare_data parse sf shuffle enc train_file test_file rv seed max_prompt max_train eval_q = Inr d"
    and "\<And>s a b. mset (fst (shuffle s a b)) = mset a \<and> mset (snd (shuffle s a b)) = mset b"
  shows "int (length (train_records d)) = max_train \<and> int (length (test_records d)) = eval_q \<and>
    (\<forall>r \<in> set (train_records d @ test_records d). int (length (prompt_ids r)) \<le> max_prompt) \<and>
    distinct (map asks (train_records d @ test_records d))"
proof -
  from assms(1) obtain train test h h' tr xtr te xte where
    l: "load_split parse sf train_file ''train'' = Inr (train, h)" "load_split parse sf test_file ''test'' = Inr (test, h')"
    and ov: "\<not> list_ex (\<lambda>r. question r \<in> set (map question test)) train"
    and s: "select_split (row_record enc rv ''train'') (nat max_prompt) (nat max_train) ''train'' (fst (shuffle seed train test)) = Inr (tr, xtr)"
      "select_split (row_record enc rv ''test'') (nat max_prompt) (nat eval_q) ''test'' (snd (shuffle seed train test)) = Inr (te, xte)"
    and d: "d = \<lparr>train_records = tr, test_records = te, overlength_train = xtr, overlength_test = xte\<rparr>"
    and "1 \<le> eval_q" "1 \<le> max_train" "1 \<le> max_prompt"
    by (auto simp: prepare_data_def result_simps case_prod_beta Let_def)
  have q: "mset (map question (fst (shuffle seed train test))) = mset (map question train)"
    "mset (map question (snd (shuffle seed train test))) = mset (map question test)" using assms(2) by simp_all
  from l have "distinct (map question train)" "distinct (map question test)"
    by (auto simp: load_split_def result_simps Let_def)
  then have "distinct (map question (fst (shuffle seed train test)))" "distinct (map question (snd (shuffle seed train test)))"
    using mset_eq_imp_distinct_iff [OF q(1)] mset_eq_imp_distinct_iff [OF q(2)] by simp_all
  note a = select_split_Inr [OF s(1) this(1)] and b = select_split_Inr [OF s(2) this(2)]
  have sets: "set (fst (shuffle seed train test)) = set train" "set (snd (shuffle seed train test)) = set test"
    using assms(2) by (metis mset_eq_setD)+
  have "asks ` set tr \<inter> asks ` set te = {}"
    using a b ov unfolding sets by (fastforce simp: list_ex_iff)
  then have "distinct (map asks (tr @ te))" using a b by auto
  then show ?thesis using a b d \<open>1 \<le> eval_q\<close> \<open>1 \<le> max_train\<close> \<open>1 \<le> max_prompt\<close> by (auto simp: le_nat_iff)
qed

section \<open>A concrete selection\<close>

text \<open>Files of numbered questions, each answered by the number one.\<close>

definition demo_file :: "string \<Rightarrow> nat \<Rightarrow> string \<Rightarrow> split_file" where
  "demo_file name n sha = \<lparr>file_name = name, file_lines = map (\<lambda>i. name @ show_nat i) [0 ..< n], file_sha256 = sha\<rparr>"

definition demo_parse :: "string \<Rightarrow> json result" where
  "demo_parse line = Inr (JObj [(''question'', JStr line), (''answer'', JStr ''#### 1'')])"

definition demo_encode :: tokenizer where
  "demo_encode p m = Inr (JList [JInt 1, JInt 2])"

lemma read_rows_all: "(\<And>n l. l \<in> set ls \<Longrightarrow> rd n l = Inr (f n l)) \<Longrightarrow>
  read_rows rd n ls = Inr (map (\<lambda>(i, l). f i l) (zip [n ..< n + length ls] ls))"
  by (induction ls arbitrary: n) (auto simp: upt_conv_Cons simp del: upt_Suc)

lemma demo_row:
  assumes "strip l \<noteq> []"
  shows "read_row demo_parse sf path sp n l = Inr \<lparr>row_id = ''gsm8k:'' @ sp @ '':'' @ show_nat n, question = l, row_answer = ''1''\<rparr>"
proof -
  have "contains_sub ''####'' ''#### 1''" "strip (after_last ''####'' ''#### 1'') = ''1''" by code_simp+
  moreover have "numeric_answer sf (JStr ''1'') = Inr 1" unfolding numeric_answer_def json.case by code_simp
  ultimately show ?thesis using assms by (simp add: read_row_def demo_parse_def Let_def)
qed

lemma demo_split:
  assumes "sp = ''train'' \<and> n = 7473 \<or> sp = ''test'' \<and> n = 1319"
  shows "\<exists>rows. load_split demo_parse sf (demo_file (CHR ''q'' # sp) n sha) sp = Inr (rows, sha) \<and> map question rows = map (\<lambda>i. CHR ''q'' # sp @ show_nat i) [0 ..< n]"
proof -
  let ?ls = "map (\<lambda>i. CHR ''q'' # sp @ show_nat i) [0 ..< n]" and ?path = "CHR ''q'' # sp"
  let ?f = "\<lambda>i l. \<lparr>row_id = ''gsm8k:'' @ sp @ '':'' @ show_nat i, question = l, row_answer = ''1''\<rparr>"
  let ?rows = "map (\<lambda>(i, l). ?f i l) (zip [0 ..< 0 + length ?ls] ?ls)"
  have nb: "strip (CHR ''q'' # s) \<noteq> []" for s by (simp add: strip_def is_space_def dropWhile_append)
  have "read_rows (read_row demo_parse sf ?path sp) 0 ?ls = Inr ?rows"
  proof (rule read_rows_all)
    fix i l
    assume "l \<in> set ?ls"
    then have "strip l \<noteq> []" using nb by auto
    then show "read_row demo_parse sf ?path sp i l = Inr (?f i l)" by (rule demo_row)
  qed
  moreover have "map question ?rows = ?ls" by (simp add: comp_def case_prod_beta)
  moreover have "distinct ?ls" by (auto simp: distinct_map inj_on_def dest: show_nat_inj)
  ultimately show ?thesis
    using assms unfolding load_split_def demo_file_def Let_def by (intro exI [of _ ?rows]) auto
qed

definition demo_shuffle :: "int \<Rightarrow> gsm_row list \<Rightarrow> gsm_row list \<Rightarrow> gsm_row list \<times> gsm_row list" where
  "demo_shuffle seed a b = (a, b)"

lemma demo_select:
  assumes "rows \<noteq> []"
  shows "\<exists>r. select_split (row_record demo_encode rv sp) 9 1 name rows = Inr ([r], [])"
proof -
  from assms obtain row rest where "rows = row # rest" by (cases rows) auto
  then show ?thesis
    by (simp add: select_split_def row_record_def demo_encode_def PromptRecord_def validate_token_ids_def)
qed

lemma demo_prepare:
  "\<exists>d. prepare_data demo_parse (\<lambda>_. []) demo_shuffle demo_encode (demo_file ''qtrain'' 7473 train_sha256)
     (demo_file ''qtest'' 1319 test_sha256) dataset_revision 42 9 1 1 = Inr d"
proof -
  from demo_split [of "''train''" 7473 "\<lambda>_. []" train_sha256] obtain tr where
    tr: "load_split demo_parse (\<lambda>_. []) (demo_file ''qtrain'' 7473 train_sha256) ''train'' = Inr (tr, train_sha256)"
      "map question tr = map (\<lambda>i. ''qtrain'' @ show_nat i) [0 ..< 7473]" by auto
  from demo_split [of "''test''" 1319 "\<lambda>_. []" test_sha256] obtain te where
    te: "load_split demo_parse (\<lambda>_. []) (demo_file ''qtest'' 1319 test_sha256) ''test'' = Inr (te, test_sha256)"
      "map question te = map (\<lambda>i. ''qtest'' @ show_nat i) [0 ..< 1319]" by auto
  have ov: "\<not> list_ex (\<lambda>r. question r \<in> set (map question te)) tr"
  proof
    assume "list_ex (\<lambda>r. question r \<in> set (map question te)) tr"
    then obtain q where "q \<in> set (map question tr)" "q \<in> set (map question te)" by (auto simp: list_ex_iff)
    then show False unfolding te(2) tr(2) by auto
  qed
  have "tr \<noteq> []" "te \<noteq> []" using tr(2) te(2) by auto
  from demo_select [OF this(1)] demo_select [OF this(2)]
  obtain a b where "select_split (row_record demo_encode dataset_revision ''train'') 9 1 ''train'' tr = Inr ([a], [])"
    "select_split (row_record demo_encode dataset_revision ''test'') 9 1 ''test'' te = Inr ([b], [])" by meson
  with tr(1) te(1) ov show ?thesis by (simp add: prepare_data_def demo_shuffle_def)
qed

theorem prepare_data_disjoint_witness:
  "\<exists>d. prepare_data demo_parse (\<lambda>_. []) demo_shuffle demo_encode (demo_file ''qtrain'' 7473 train_sha256)
     (demo_file ''qtest'' 1319 test_sha256) dataset_revision 42 9 1 1 = Inr d \<and>
     length (train_records d) = 1 \<and> distinct (map asks (train_records d @ test_records d))"
proof -
  from demo_prepare obtain d where d: "prepare_data demo_parse (\<lambda>_. []) demo_shuffle demo_encode
    (demo_file ''qtrain'' 7473 train_sha256) (demo_file ''qtest'' 1319 test_sha256) dataset_revision 42 9 1 1 = Inr d" ..
  have "mset (fst (demo_shuffle s a b)) = mset a \<and> mset (snd (demo_shuffle s a b)) = mset b" for s a b
    by (simp add: demo_shuffle_def)
  from prepare_data_disjoint [OF d this] d show ?thesis by auto
qed

end
