(* ===== verification/Transition.thy ===== *)
theory Transition
  imports Prelude
begin

text \<open>
  Interfaces of stateful components. A component that reacts to operations is a state type with a
  step function; an operation that raises leaves the state its \<^verbatim>\<open>except\<close> path leaves. The locale
  \<open>op_system\<close> lifts an invariant from single operations to every sequence of them, and
  \<open>op_refinement\<close> lifts a simulation of an abstract component, so that a component's theory only
  proves the single-operation laws.
\<close>

locale op_system =
  fixes step :: "'op \<Rightarrow> 's \<Rightarrow> 's" and inv :: "'s \<Rightarrow> bool"
  assumes inv_step: "inv s \<Longrightarrow> inv (step op s)"
begin

lemma inv_run: "inv s \<Longrightarrow> inv (fold step ops s)"
  by (induction ops arbitrary: s) (simp_all add: inv_step)

end

locale op_refinement = op_system +
  fixes astep :: "'a \<Rightarrow> 'c \<Rightarrow> 'c" and abs :: "'b \<Rightarrow> 'c"
  assumes abs_step: "inv s \<Longrightarrow> abs (step op s) = astep op (abs s)"
begin

lemma abs_run: "inv s \<Longrightarrow> abs (fold step ops s) = fold astep ops (abs s)"
  by (induction ops arbitrary: s) (simp_all add: inv_step abs_step)

end

end
