(* ===== verification/Host_Memory.thy ===== *)
theory Host_Memory
  imports Ledger Transition
begin

text \<open>
  Evaluator host-memory admission, \<^verbatim>\<open>rollout_manager/host_memory.py\<close>: the FIFO byte budget with
  its waiting line and allocations, the context manager \<open>evaluator_memory\<close> around it, and the
  memory estimates. A dictionary is an association list in insertion order. One pass of the loop of
  \<open>acquire\<close> is one step; what other threads do between two passes are other operations. The budget
  is an interpretation of \<open>admission_ledger\<close> and of \<open>op_system\<close>.
\<close>

section \<open>The byte budget\<close>

record allocation =
  a_bytes :: int
  a_state :: string

record snapshot =
  capacity_bytes :: int
  reserved_bytes :: int
  waiting_jobs :: nat
  admitted_bytes :: int
  quarantined_bytes :: int

record byte_budget =
  bb_capacity :: int
  bb_waiting :: "(string \<times> int) list"
  bb_allocations :: "(string \<times> allocation) list"
  bb_events :: "(string \<times> snapshot) list"

definition ByteBudget :: "int \<Rightarrow> byte_budget result" where
  "ByteBudget cap =
     (if cap \<le> 0 then Inl (ValueError ''positive memory budget required'')
      else Inr \<lparr>bb_capacity = cap, bb_waiting = [], bb_allocations = [], bb_events = []\<rparr>)"

definition bytes_in :: "(string \<times> allocation) list \<Rightarrow> int" where
  "bytes_in xs = sum_list (map (\<lambda>p. a_bytes (snd p)) xs)"

definition used :: "byte_budget \<Rightarrow> int" where
  "used b = bytes_in (bb_allocations b)"

definition budget_snapshot :: "byte_budget \<Rightarrow> snapshot" where
  "budget_snapshot b =
     \<lparr>capacity_bytes = bb_capacity b, reserved_bytes = used b, waiting_jobs = length (bb_waiting b),
      admitted_bytes = bytes_in (filter (\<lambda>p. a_state (snd p) = ''admitted'') (bb_allocations b)),
      quarantined_bytes = bytes_in (filter (\<lambda>p. a_state (snd p) = ''quarantined'') (bb_allocations b))\<rparr>"

definition emit :: "string \<Rightarrow> byte_budget \<Rightarrow> byte_budget" where
  "emit key b = b\<lparr>bb_events := bb_events b @ [(key, budget_snapshot b)]\<rparr>"

definition enqueue :: "string \<Rightarrow> int \<Rightarrow> byte_budget \<Rightarrow> byte_budget result" where
  "enqueue key n b =
     (if \<not> (0 < n \<and> n \<le> bb_capacity b) then Inl (ValueError ''one allocation cannot fit the memory budget'')
      else if key \<in> set (map fst (bb_allocations b)) \<or> key \<in> set (map fst (bb_waiting b))
      then Inl (ValueError ''duplicate memory reservation key'')
      else Inr (b\<lparr>bb_waiting := bb_waiting b @ [(key, n)]\<rparr>))"

definition cancel_waiting :: "string \<Rightarrow> byte_budget \<Rightarrow> byte_budget" where
  "cancel_waiting key b = b\<lparr>bb_waiting := filter (\<lambda>p. fst p \<noteq> key) (bb_waiting b)\<rparr>"

text \<open>\<^verbatim>\<open>allocations[key] = value\<close>.\<close>

fun put_alloc :: "string \<Rightarrow> allocation \<Rightarrow> (string \<times> allocation) list \<Rightarrow> (string \<times> allocation) list" where
  "put_alloc k a [] = [(k, a)]"
| "put_alloc k a (p # ps) = (if fst p = k then (k, a) # ps else p # put_alloc k a ps)"

datatype acquire_outcome = Acquired | Refused exn | Waits

definition acquire_pass :: "string \<Rightarrow> bool \<Rightarrow> byte_budget \<Rightarrow> acquire_outcome \<times> byte_budget" where
  "acquire_pass key is_cancelled b =
     (if is_cancelled then (Refused (MemoryAdmissionCancelled key), cancel_waiting key b)
      else case find (\<lambda>p. fst p = key) (bb_waiting b) of
        None \<Rightarrow> (Refused (MemoryAdmissionCancelled key), b)
      | Some entry \<Rightarrow>
          if hd (bb_waiting b) = entry \<and> used b + snd entry \<le> bb_capacity b
          then (Acquired, emit key (b\<lparr>bb_waiting := tl (bb_waiting b),
                  bb_allocations := put_alloc key \<lparr>a_bytes = snd entry, a_state = ''admitted''\<rparr> (bb_allocations b)\<rparr>))
          else (Waits, b))"

definition quarantine_alloc :: "string \<Rightarrow> byte_budget \<Rightarrow> byte_budget result" where
  "quarantine_alloc key b =
     (case map_of (bb_allocations b) key of
        None \<Rightarrow> Inl (KeyError key)
      | Some a \<Rightarrow> Inr (emit key (b\<lparr>bb_allocations :=
                    put_alloc key (a\<lparr>a_state := ''quarantined''\<rparr>) (bb_allocations b)\<rparr>)))"

definition release :: "string \<Rightarrow> byte_budget \<Rightarrow> byte_budget" where
  "release key b =
     emit key (cancel_waiting key (b\<lparr>bb_allocations := filter (\<lambda>p. fst p \<noteq> key) (bb_allocations b)\<rparr>))"

section \<open>The evaluator's context manager\<close>

text \<open>
  Entering queues the request; every pass of the wait may be refused, and a refusal or a failed
  enqueue takes the key out of the line. Leaving quarantines the allocation when the body marked it,
  and releases it otherwise.
\<close>

definition memory_key :: "string \<Rightarrow> string \<Rightarrow> string" where
  "memory_key job stage = job @ ''/'' @ stage"

definition evaluator_enter :: "string \<Rightarrow> string \<Rightarrow> int \<Rightarrow> byte_budget \<Rightarrow> unit result \<times> byte_budget" where
  "evaluator_enter job stage n b =
     (case enqueue (memory_key job stage) n b of
        Inl e \<Rightarrow> (Inl e, cancel_waiting (memory_key job stage) b)
      | Inr b' \<Rightarrow> (Inr (), b'))"

definition evaluator_wait :: "string \<Rightarrow> string \<Rightarrow> bool \<Rightarrow> byte_budget \<Rightarrow> acquire_outcome \<times> byte_budget" where
  "evaluator_wait job stage is_cancelled b =
     (case acquire_pass (memory_key job stage) is_cancelled b of
        (Refused e, b') \<Rightarrow> (Refused e, cancel_waiting (memory_key job stage) b')
      | r \<Rightarrow> r)"

definition evaluator_exit :: "string \<Rightarrow> string \<Rightarrow> bool \<Rightarrow> byte_budget \<Rightarrow> byte_budget result" where
  "evaluator_exit job stage quarantined b =
     (if quarantined then quarantine_alloc (memory_key job stage) b
      else Inr (release (memory_key job stage) b))"

section \<open>Operations and invariant\<close>

datatype budget_op =
    Enqueue string int
  | Acquire string bool
  | Quarantine string
  | Cancel string
  | Release string
  | Enter string string int
  | Await string string bool
  | Leave string string bool

definition ok_or :: "'s \<Rightarrow> 's result \<Rightarrow> 's" where
  "ok_or s r = (case r of Inl e \<Rightarrow> s | Inr t \<Rightarrow> t)"

fun budget_step :: "budget_op \<Rightarrow> byte_budget \<Rightarrow> byte_budget" where
  "budget_step (Enqueue k n) b = ok_or b (enqueue k n b)"
| "budget_step (Acquire k c) b = snd (acquire_pass k c b)"
| "budget_step (Quarantine k) b = ok_or b (quarantine_alloc k b)"
| "budget_step (Cancel k) b = cancel_waiting k b"
| "budget_step (Release k) b = release k b"
| "budget_step (Enter j s n) b = snd (evaluator_enter j s n b)"
| "budget_step (Await j s c) b = snd (evaluator_wait j s c b)"
| "budget_step (Leave j s q) b = ok_or b (evaluator_exit j s q b)"

definition alloc_fits :: "byte_budget \<Rightarrow> string \<times> int \<Rightarrow> bool" where
  "alloc_fits b r \<longleftrightarrow> fst r \<notin> set (map fst (bb_allocations b)) \<and> used b + snd r \<le> bb_capacity b"

definition alloc_admit :: "byte_budget \<Rightarrow> string \<times> int \<Rightarrow> byte_budget" where
  "alloc_admit b r = b\<lparr>bb_allocations := put_alloc (fst r) \<lparr>a_bytes = snd r, a_state = ''admitted''\<rparr> (bb_allocations b)\<rparr>"

lemma bytes_put_new: "k \<notin> fst ` set xs \<Longrightarrow> bytes_in (put_alloc k a xs) = bytes_in xs + a_bytes a"
  by (induction xs) (auto simp: bytes_in_def)

lemma bytes_put_same:
  "map_of xs k = Some a \<Longrightarrow> a_bytes a' = a_bytes a \<Longrightarrow> bytes_in (put_alloc k a' xs) = bytes_in xs"
  by (induction xs) (auto simp: bytes_in_def split: if_splits)

lemma put_keys: "fst ` set (put_alloc k a xs) = insert k (fst ` set xs)"
  by (induction xs) auto

lemma put_distinct: "distinct (map fst xs) \<Longrightarrow> distinct (map fst (put_alloc k a xs))"
  by (induction xs) (auto simp: put_keys)

lemma put_positive:
  "list_all (\<lambda>p. 0 < a_bytes (snd p)) xs \<Longrightarrow> 0 < a_bytes a \<Longrightarrow> list_all (\<lambda>p. 0 < a_bytes (snd p)) (put_alloc k a xs)"
  by (induction xs) auto

lemma filter_all: "list_all P xs \<Longrightarrow> list_all P (filter Q xs)"
  by (induction xs) auto

interpretation budget_ledger: admission_ledger "\<lambda>b _. used b" "\<lambda>b (_::unit). Some (bb_capacity b)" "\<lambda>r _. snd r"
  alloc_fits alloc_admit
  by unfold_locales (auto simp: alloc_fits_def alloc_admit_def used_def bytes_put_new)

definition keys_ok :: "(string \<times> int) list \<Rightarrow> (string \<times> allocation) list \<Rightarrow> bool" where
  "keys_ok w xs \<longleftrightarrow> distinct (map fst w) \<and> distinct (map fst xs) \<and> fst ` set w \<inter> fst ` set xs = {}"

definition budget_inv :: "byte_budget \<Rightarrow> bool" where
  "budget_inv b \<longleftrightarrow> keys_ok (bb_waiting b) (bb_allocations b) \<and>
     list_all (\<lambda>p. 0 < snd p \<and> snd p \<le> bb_capacity b) (bb_waiting b) \<and>
     list_all (\<lambda>p. 0 < a_bytes (snd p)) (bb_allocations b) \<and> budget_ledger.in_limits b"

lemma in_limits_iff [simp]: "budget_ledger.in_limits b \<longleftrightarrow> used b \<le> bb_capacity b"
  by (simp add: budget_ledger.in_limits_def)

lemma used_simps [simp]:
  "used (b\<lparr>bb_waiting := w\<rparr>) = used b" "used (b\<lparr>bb_events := e\<rparr>) = used b"
  "used (b\<lparr>bb_allocations := xs\<rparr>) = bytes_in xs"
  by (simp_all add: used_def)

lemma emit_simps [simp]:
  "bb_capacity (emit k b) = bb_capacity b" "bb_waiting (emit k b) = bb_waiting b"
  "bb_allocations (emit k b) = bb_allocations b" "used (emit k b) = used b" "budget_inv (emit k b) = budget_inv b"
  by (simp_all add: emit_def budget_inv_def)

lemma keys_ok_filter:
  "keys_ok w xs \<Longrightarrow> keys_ok (filter P w) xs" "keys_ok w xs \<Longrightarrow> keys_ok w (filter Q xs)"
  by (auto simp: keys_ok_def distinct_map_filter)

lemma enqueue_inv: "budget_inv b \<Longrightarrow> enqueue k n b = Inr b' \<Longrightarrow> budget_inv b'"
proof -
  assume inv: "budget_inv b" and e: "enqueue k n b = Inr b'"
  then have "0 < n" "n \<le> bb_capacity b" "k \<notin> fst ` set (bb_allocations b)" "k \<notin> fst ` set (bb_waiting b)"
    "b' = b\<lparr>bb_waiting := bb_waiting b @ [(k, n)]\<rparr>"
    by (simp_all add: enqueue_def guard_Inr_iff)
  with inv show ?thesis by (simp add: budget_inv_def keys_ok_def)
qed

lemma cancel_inv: "budget_inv b \<Longrightarrow> budget_inv (cancel_waiting k b)"
  by (simp add: budget_inv_def cancel_waiting_def filter_all keys_ok_filter)

lemma acquire_entry:
  assumes "find (\<lambda>p. fst p = k) w = Some e" "hd w = e"
  shows "\<exists>n r. w = (k, n) # r \<and> e = (k, n)"
proof -
  from assms(1) have "w \<noteq> []" "fst e = k" by (auto simp: find_Some_iff)
  with assms(2) show ?thesis by (cases w) auto
qed

lemma grant_inv:
  assumes "budget_inv b" "bb_waiting b = (k, n) # r" "used b + n \<le> bb_capacity b"
  shows "budget_inv (b\<lparr>bb_waiting := r, bb_allocations := put_alloc k \<lparr>a_bytes = n, a_state = ''admitted''\<rparr> (bb_allocations b)\<rparr>)"
proof -
  from assms have fresh: "k \<notin> fst ` set (bb_allocations b)" by (auto simp: budget_inv_def keys_ok_def)
  with assms have "alloc_fits b (k, n)" by (simp add: alloc_fits_def)
  then have "budget_ledger.in_limits (alloc_admit b (k, n))"
    using budget_ledger.in_limits_admit assms by (simp only: budget_inv_def)
  moreover have "keys_ok r (put_alloc k \<lparr>a_bytes = n, a_state = ''admitted''\<rparr> (bb_allocations b))"
    using assms(1,2) by (simp add: budget_inv_def keys_ok_def put_distinct put_keys)
  ultimately show ?thesis using assms(1,2) by (simp add: budget_inv_def alloc_admit_def put_positive)
qed

lemma acquire_inv: "budget_inv b \<Longrightarrow> budget_inv (snd (acquire_pass k c b))"
proof -
  assume inv: "budget_inv b"
  show ?thesis
  proof (cases "\<not> c \<and> fst (acquire_pass k c b) = Acquired")
    case True
    then obtain e where e: "find (\<lambda>p. fst p = k) (bb_waiting b) = Some e" "hd (bb_waiting b) = e"
        "used b + snd e \<le> bb_capacity b"
      by (auto simp: acquire_pass_def split: option.splits if_split_asm)
    with acquire_entry [OF e(1,2)] grant_inv [OF inv, of k] True show ?thesis by (auto simp: acquire_pass_def)
  next
    case False
    then have "snd (acquire_pass k c b) = cancel_waiting k b \<or> snd (acquire_pass k c b) = b"
      by (auto simp: acquire_pass_def split: option.splits if_split_asm)
    with inv cancel_inv [OF inv] show ?thesis by metis
  qed
qed

lemma bytes_filter: "list_all (\<lambda>p. 0 < a_bytes (snd p)) xs \<Longrightarrow> bytes_in (filter P xs) \<le> bytes_in xs"
  by (induction xs) (auto simp: bytes_in_def)

lemma release_inv: "budget_inv b \<Longrightarrow> budget_inv (release k b)"
proof -
  let ?b = "b\<lparr>bb_allocations := filter (\<lambda>p. fst p \<noteq> k) (bb_allocations b)\<rparr>"
  assume inv: "budget_inv b"
  then have le: "used ?b \<le> used b" unfolding used_def [of b] by (simp add: budget_inv_def bytes_filter)
  have "budget_ledger.in_limits ?b"
    using inv le budget_ledger.in_limits_shrink [of b ?b] by (simp add: budget_inv_def)
  with inv have "budget_inv ?b" by (simp add: budget_inv_def keys_ok_filter filter_all)
  then show ?thesis by (simp add: release_def cancel_inv)
qed

lemma quarantine_inv: "budget_inv b \<Longrightarrow> quarantine_alloc k b = Inr b' \<Longrightarrow> budget_inv b' \<and> used b' = used b"
proof -
  assume inv: "budget_inv b" and q: "quarantine_alloc k b = Inr b'"
  then obtain a where a: "map_of (bb_allocations b) k = Some a"
    and b': "b' = emit k (b\<lparr>bb_allocations := put_alloc k (a\<lparr>a_state := ''quarantined''\<rparr>) (bb_allocations b)\<rparr>)"
    by (auto simp: quarantine_alloc_def split: option.splits)
  then have u: "used b' = used b" unfolding used_def [of b] by (simp add: bytes_put_same)
  have "(k, a) \<in> set (bb_allocations b)" using a by (rule map_of_SomeD)
  then have "k \<in> fst ` set (bb_allocations b)" "0 < a_bytes a" using inv by (force simp: budget_inv_def list_all_iff)+
  then have "insert k (fst ` set (bb_allocations b)) = fst ` set (bb_allocations b)" by blast
  with inv b' u \<open>0 < a_bytes a\<close> show ?thesis by (simp add: budget_inv_def keys_ok_def put_distinct put_keys put_positive)
qed

lemma ok_or_inv: "budget_inv b \<Longrightarrow> (\<And>b'. r = Inr b' \<Longrightarrow> budget_inv b') \<Longrightarrow> budget_inv (ok_or b r)"
  by (cases r) (simp_all add: ok_or_def)

lemma evaluator_wait_inv: "budget_inv b \<Longrightarrow> budget_inv (snd (evaluator_wait j s c b))"
proof -
  assume inv: "budget_inv b"
  obtain out b' where o: "acquire_pass (memory_key j s) c b = (out, b')" by (rule prod.exhaust)
  with acquire_inv [OF inv, of "memory_key j s" c] have "budget_inv b'" by simp
  with o show ?thesis by (cases out) (simp_all add: evaluator_wait_def cancel_inv)
qed

lemma budget_step_inv: "budget_inv b \<Longrightarrow> budget_inv (budget_step op b)"
proof (cases op)
  case (Enter j s n)
  assume "budget_inv b"
  with Enter show ?thesis
    by (cases "enqueue (memory_key j s) n b") (simp_all add: evaluator_enter_def cancel_inv enqueue_inv)
next
  case (Leave j s q)
  assume "budget_inv b"
  with Leave show ?thesis
    by (cases q) (auto simp: evaluator_exit_def release_inv intro!: ok_or_inv dest: quarantine_inv)
qed (auto simp: acquire_inv evaluator_wait_inv cancel_inv release_inv
  intro!: ok_or_inv dest: enqueue_inv quarantine_inv)

interpretation budget_system: op_system budget_step budget_inv
  by unfold_locales (rule budget_step_inv)

section \<open>What the budget guarantees\<close>

lemma ByteBudget_inv: "ByteBudget cap = Inr b \<Longrightarrow> budget_inv b \<and> bb_capacity b = cap"
  by (auto simp: ByteBudget_def guard_Inr_iff budget_inv_def keys_ok_def) (simp add: used_def bytes_in_def)

lemma budget_step_capacity [simp]: "bb_capacity (budget_step op b) = bb_capacity b"
  by (cases op) (auto simp: ok_or_def enqueue_def acquire_pass_def quarantine_alloc_def cancel_waiting_def release_def
    evaluator_enter_def evaluator_wait_def evaluator_exit_def split: option.splits sum.splits acquire_outcome.splits
    prod.splits if_split_asm)

lemma budget_run_capacity [simp]: "bb_capacity (fold budget_step ops b) = bb_capacity b"
  by (induction ops arbitrary: b) simp_all

text \<open>
  C26. Whatever operations the threads perform in whatever order, the reserved bytes of a budget never
  exceed its capacity, quarantined allocations included, and no key is both waiting and allocated or
  occurs twice.
\<close>

theorem budget_never_exceeded:
  assumes "ByteBudget cap = Inr b"
  shows "used (fold budget_step ops b) \<le> cap \<and>
    distinct (map fst (bb_waiting (fold budget_step ops b)) @ map fst (bb_allocations (fold budget_step ops b)))"
proof -
  note b = ByteBudget_inv [OF assms]
  then have "budget_inv (fold budget_step ops b)" by (intro budget_system.inv_run) simp
  with b show ?thesis by (simp add: budget_inv_def keys_ok_def)
qed

lemma acquire_granted:
  "fst (acquire_pass k c b) = Acquired \<longleftrightarrow>
     \<not> c \<and> (\<exists>n r. bb_waiting b = (k, n) # r \<and> used b + n \<le> bb_capacity b)"
proof
  assume "fst (acquire_pass k c b) = Acquired"
  then obtain e where "\<not> c" and e: "find (\<lambda>p. fst p = k) (bb_waiting b) = Some e" "hd (bb_waiting b) = e"
      "used b + snd e \<le> bb_capacity b"
    by (auto simp: acquire_pass_def split: option.splits if_split_asm)
  with acquire_entry [OF e(1,2)] show "\<not> c \<and> (\<exists>n r. bb_waiting b = (k, n) # r \<and> used b + n \<le> bb_capacity b)" by auto
next
  assume "\<not> c \<and> (\<exists>n r. bb_waiting b = (k, n) # r \<and> used b + n \<le> bb_capacity b)"
  then show "fst (acquire_pass k c b) = Acquired" by (auto simp: acquire_pass_def)
qed

text \<open>
  Admission is first in, first out and not stuck: a pass is granted exactly when it is not
  cancelled, its key is the head of the line and its bytes fit what is free. So once the allocations
  of the others are released, the head of the line of any reachable budget is granted.
\<close>

theorem fifo_grant:
  assumes "ByteBudget cap = Inr b0" "b = fold budget_step ops b0"
  shows "(fst (acquire_pass k c b) = Acquired \<longleftrightarrow>
      \<not> c \<and> (\<exists>n r. bb_waiting b = (k, n) # r \<and> used b + n \<le> cap)) \<and>
    (\<forall>n r. bb_waiting b = (k, n) # r \<longrightarrow> bb_allocations b = [] \<longrightarrow> fst (acquire_pass k False b) = Acquired)"
proof -
  have cap: "bb_capacity b = cap" and inv: "budget_inv b"
    using ByteBudget_inv [OF assms(1)] assms(2) budget_system.inv_run by auto
  have iff: "fst (acquire_pass k c b) = Acquired \<longleftrightarrow>
      \<not> c \<and> (\<exists>n r. bb_waiting b = (k, n) # r \<and> used b + n \<le> cap)" for c
    unfolding acquire_granted cap ..
  have free: "used b + n \<le> cap" if "bb_waiting b = (k, n) # r" "bb_allocations b = []" for n r
    using inv that cap by (simp add: budget_inv_def) (simp add: used_def bytes_in_def)
  show ?thesis using iff free by simp
qed

definition demo_budget :: byte_budget where
  "demo_budget = \<lparr>bb_capacity = 10, bb_waiting = [], bb_allocations = [], bb_events = []\<rparr>"

lemma demo_budget_ok: "ByteBudget 10 = Inr demo_budget"
  by (simp add: ByteBudget_def demo_budget_def)

definition demo_ops :: "budget_op list" where
  "demo_ops = [Enter ''j'' ''s'' 6, Enqueue ''k'' 7, Await ''j'' ''s'' False, Acquire ''k'' False, Leave ''j'' ''s'' True]"

theorem budget_never_exceeded_witness:
  "used (fold budget_step demo_ops demo_budget) = 6 \<and> used (fold budget_step demo_ops demo_budget) \<le> 10"
proof -
  have "used (fold budget_step demo_ops demo_budget) = 6" by code_simp
  with budget_never_exceeded [OF demo_budget_ok, of demo_ops] show ?thesis by simp
qed

theorem fifo_grant_witness:
  "bb_waiting (fold budget_step (demo_ops @ [Release ''j/s'']) demo_budget) = [(''k'', 7)] \<and>
   fst (acquire_pass ''k'' False (fold budget_step (demo_ops @ [Release ''j/s'']) demo_budget)) = Acquired"
proof -
  let ?b = "fold budget_step (demo_ops @ [Release ''j/s'']) demo_budget"
  have w: "bb_waiting ?b = [(''k'', 7)]" and a: "bb_allocations ?b = []" by code_simp+
  from fifo_grant [OF demo_budget_ok refl, where ops = "demo_ops @ [Release ''j/s'']" and k = "''k''" and c = False] w a
  show ?thesis by blast
qed

section \<open>Memory estimates\<close>

definition gib :: int where
  "gib = 1024 ^ 3"

record memory_estimate =
  est_bytes :: int
  runtime_bytes :: int
  input_and_transfer_bytes :: int
  model_loading_bytes :: int
  est_model :: "string option"

record pinned_model =
  model_name :: string
  model_files :: "(string \<times> int) list"

record eval_task =
  et_task_id :: string
  et_code :: string
  et_source_sha256 :: string

record memory_plan =
  mp_source_sha256 :: string
  mp_allocation :: json

definition weight_file :: "string \<Rightarrow> bool" where
  "weight_file name \<longleftrightarrow> suffix ''.bin'' name \<or> suffix ''.safetensors'' name"

definition model_weight :: "pinned_model \<Rightarrow> int" where
  "model_weight m = sum_list (map snd (filter (\<lambda>f. weight_file (fst f)) (model_files m)))"

definition weights_of :: "pinned_model list \<Rightarrow> string \<rightharpoonup> int" where
  "weights_of models = map_of (rev (map (\<lambda>m. (model_name m, model_weight m)) models))"

text \<open>The estimate of one task; \<open>plans\<close> is the registry's plan table, \<open>native\<close> its native sources,
  \<open>sha\<close> the SHA-256 of a text and \<open>dependency\<close> the analysis of the source's model loads.\<close>

definition estimate_task ::
  "(string \<Rightarrow> string) \<Rightarrow> (string \<Rightarrow> string option result) \<Rightarrow> (string \<rightharpoonup> memory_plan) \<Rightarrow> string list \<Rightarrow>
   (string \<rightharpoonup> int) \<Rightarrow> eval_task \<Rightarrow> memory_estimate result" where
  "estimate_task sha dependency plans native weights t =
     (let h = sha (et_code t); spec = plans h in
      if et_source_sha256 t \<noteq> h then Inl (ValueError ''task source digest mismatch'')
      else if spec = None \<and> h \<notin> set native then Inl (ValueError (''no evaluator memory plan for '' @ et_task_id t))
      else if (case spec of None \<Rightarrow> False | Some p \<Rightarrow> mp_source_sha256 p \<noteq> h)
      then Inl (ValueError ''input memory plan digest mismatch'')
      else bindE (dependency (et_code t)) (\<lambda>dep.
        if (case dep of None \<Rightarrow> False | Some m \<Rightarrow> weights m = None)
        then Inl (ValueError (''no pinned model memory estimate for '' @ (case dep of Some m \<Rightarrow> m | None \<Rightarrow> [])))
        else
          bindE (case spec of
                   None \<Rightarrow> Inr 0
                 | Some p \<Rightarrow>
                     (case mp_allocation p of
                        JInt i \<Rightarrow> if i < 0 then Inl (ValueError ''invalid input memory estimate'') else Inr i
                      | JBool b \<Rightarrow> Inr (if b then 1 else 0)
                      | _ \<Rightarrow> Inl (ValueError ''invalid input memory estimate''))) (\<lambda>alloc.
          let checkpoint = (case dep of None \<Rightarrow> 0 | Some m \<Rightarrow> case weights m of None \<Rightarrow> 0 | Some w \<Rightarrow> w)
          in Inr \<lparr>est_bytes = 8 * gib + 2 * alloc + 3 * checkpoint, runtime_bytes = 8 * gib,
                  input_and_transfer_bytes = 2 * alloc, model_loading_bytes = 3 * checkpoint, est_model = dep\<rparr>)))"

definition evaluator_estimates ::
  "(string \<Rightarrow> string) \<Rightarrow> (string \<Rightarrow> string option result) \<Rightarrow> (string \<rightharpoonup> memory_plan) \<Rightarrow> string list \<Rightarrow>
   pinned_model list \<Rightarrow> eval_task list \<Rightarrow> (string \<rightharpoonup> memory_estimate) result" where
  "evaluator_estimates sha dependency plans native models tasks =
     bindE (mapE (\<lambda>t. bindE (estimate_task sha dependency plans native (weights_of models) t)
       (\<lambda>e. Inr (et_task_id t, e))) tasks) (\<lambda>es. Inr (map_of (rev es)))"

end
