(* ===== verification/Input_Cache.thy ===== *)
theory Input_Cache
  imports Ledger Transition "HOL-Library.AList"
begin

text \<open>
  The bounded input cache, \<^verbatim>\<open>rollout_manager/input_cache.py\<close>: entries in two storage tiers, consumers
  with their leases and copy budgets, and the operations that a client's request dispatches to, all
  under the cache's lock. An ordered dictionary is an association list in its order. Descriptors and
  files are left out, so opening and closing them does not fail. The tokens of \<^verbatim>\<open>uuid4\<close> are pairwise
  distinct; the n-th token drawn is the number n. A client that waits for another's generation makes
  one pass of the loop per step, and says whether its wait has timed out. The digest of an identity
  is an argument.
\<close>

section \<open>State\<close>

datatype tier = Ram | Disk

record cache_entry =
  e_bytes :: int
  e_tier :: tier
  e_state :: string
  e_producer :: nat
  e_leases :: "nat list"
  e_metadata :: dict

record consumer =
  copy_limit :: int
  c_leases :: "(nat \<times> string) list"

record input_cache =
  capacity :: "tier \<Rightarrow> int"
  entries :: "(string \<times> cache_entry) list"
  consumers :: "(nat \<times> consumer) list"
  max_entries :: nat
  metrics :: "string \<Rightarrow> int"
  next_token :: nat

definition InputCache :: "int \<Rightarrow> int \<Rightarrow> int \<Rightarrow> int \<Rightarrow> input_cache result" where
  "InputCache ram disk max_n soft_limit =
     (if min ram disk < 0 \<or> ram + disk \<le> 0 then Inl (ValueError ''cache capacity must be positive'')
      else if max_n < 1 then Inl (ValueError ''positive cache entry limit required'')
      else Inr \<lparr>capacity = (\<lambda>t. case t of Ram \<Rightarrow> ram | Disk \<Rightarrow> disk), entries = [], consumers = [],
                max_entries = nat (if soft_limit > 0 then min max_n (max 1 (soft_limit - 128)) else max_n),
                metrics = (\<lambda>_. 0), next_token = 0\<rparr>)"

definition bump :: "string \<Rightarrow> int \<Rightarrow> input_cache \<Rightarrow> input_cache" where
  "bump k n c = c\<lparr>metrics := (metrics c)(k := metrics c k + n)\<rparr>"

definition identity_fields :: "string list" where
  "identity_fields = [''task_sha256'', ''generator_sha256'', ''configuration'', ''namespace'', ''seed'',
     ''trial_index'', ''input_contract'', ''adapter_version'', ''runtime'', ''rng_before'']"

definition cache_key :: "(json \<Rightarrow> string) \<Rightarrow> dict \<Rightarrow> string result" where
  "cache_key sha value =
     (if \<not> keys_are value identity_fields \<or>
         dget value ''namespace'' \<notin> {JStr ''development'', JStr ''final-verification''}
      then Inl (ValueError ''incomplete cache identity or invalid verification namespace'')
      else Inr (sha (JObj value)))"

section \<open>Space\<close>

definition tier_bytes :: "tier \<Rightarrow> (string \<times> cache_entry) list \<Rightarrow> int" where
  "tier_bytes t es = sum_list (map (\<lambda>p. e_bytes (snd p)) (filter (\<lambda>p. e_tier (snd p) = t) es))"

definition tier_used :: "tier \<Rightarrow> input_cache \<Rightarrow> int" where
  "tier_used t c = tier_bytes t (entries c)"

definition remove_entry :: "string \<Rightarrow> string \<Rightarrow> input_cache \<Rightarrow> input_cache" where
  "remove_entry key reason c =
     (case map_of (entries c) key of
        None \<Rightarrow> c
      | Some e \<Rightarrow>
          let c = c\<lparr>entries := AList.delete key (entries c)\<rparr>
          in if reason = ''evict'' then bump ''evicted_bytes'' (e_bytes e) (bump ''evictions'' 1 c) else c)"

definition has_room :: "tier \<Rightarrow> int \<Rightarrow> input_cache \<Rightarrow> bool" where
  "has_room t n c \<longleftrightarrow> tier_used t c + n \<le> capacity c t \<and> length (entries c) < max_entries c"

definition evictable :: "tier \<Rightarrow> cache_entry \<Rightarrow> bool" where
  "evictable t e \<longleftrightarrow> e_tier e = t \<and> e_state e = ''ready'' \<and> e_leases e = []"

text \<open>The loop over the snapshot \<^verbatim>\<open>list(self.entries.items())\<close>, oldest entry first.\<close>

fun space_loop :: "tier \<Rightarrow> int \<Rightarrow> (string \<times> cache_entry) list \<Rightarrow> input_cache \<Rightarrow> bool \<times> input_cache" where
  "space_loop t n [] c = (has_room t n c, c)"
| "space_loop t n ((key, e) # rest) c =
     (if has_room t n c then (True, c)
      else space_loop t n rest (if evictable t e then remove_entry key ''evict'' c else c))"

definition space :: "tier \<Rightarrow> int \<Rightarrow> input_cache \<Rightarrow> bool \<times> input_cache" where
  "space t n c = (if n > capacity c t then (False, c) else space_loop t n (entries c) c)"

text \<open>\<^verbatim>\<open>next((t for t in ("ram", "disk") if self.capacity[t] and self._space(t, size)), None)\<close>.\<close>

fun choose_tier :: "int \<Rightarrow> tier list \<Rightarrow> input_cache \<Rightarrow> tier option \<times> input_cache" where
  "choose_tier n [] c = (None, c)"
| "choose_tier n (t # ts) c =
     (if capacity c t = 0 then choose_tier n ts c
      else case space t n c of
        (True, c) \<Rightarrow> (Some t, c)
      | (False, c) \<Rightarrow> choose_tier n ts c)"

section \<open>Operations\<close>

datatype response =
    Begun nat
  | Released bool
  | Hit string nat int
  | Miss string int
  | Bypass string
  | Blocked
  | Published
  | Aborted

text \<open>\<^verbatim>\<open>isinstance(x, int)\<close>: a Boolean is an integer.\<close>

fun as_int :: "json \<Rightarrow> int option" where
  "as_int (JInt n) = Some n"
| "as_int (JBool b) = Some (if b then 1 else 0)"
| "as_int _ = None"

definition begin_consumer :: "json \<Rightarrow> input_cache \<Rightarrow> response result \<times> input_cache" where
  "begin_consumer limit c =
     (case as_int limit of
        Some n \<Rightarrow>
          if n < 0 then (Inl (ValueError ''nonnegative consumer copy budget required''), c)
          else (Inr (Begun (next_token c)),
                c\<lparr>consumers := AList.update (next_token c) \<lparr>copy_limit = n, c_leases = []\<rparr> (consumers c),
                  next_token := Suc (next_token c)\<rparr>)
      | None \<Rightarrow> (Inl (ValueError ''nonnegative consumer copy budget required''), c))"

definition drop_pin :: "nat \<Rightarrow> string \<Rightarrow> input_cache \<Rightarrow> input_cache" where
  "drop_pin lease key c =
     (case map_of (entries c) key of
        None \<Rightarrow> c
      | Some e \<Rightarrow> c\<lparr>entries := AList.update key (e\<lparr>e_leases := removeAll lease (e_leases e)\<rparr>) (entries c)\<rparr>)"

definition release_lease :: "nat \<Rightarrow> nat \<Rightarrow> input_cache \<Rightarrow> input_cache result" where
  "release_lease consumer lease c =
     (case map_of (consumers c) consumer of
        None \<Rightarrow> Inl (KeyError ''consumer'')
      | Some r \<Rightarrow>
          let c' = c\<lparr>consumers := AList.update consumer (r\<lparr>c_leases := AList.delete lease (c_leases r)\<rparr>) (consumers c)\<rparr>
          in case map_of (c_leases r) lease of
               None \<Rightarrow> Inr c'
             | Some key \<Rightarrow> Inr (drop_pin lease key c'))"

fun release_all :: "nat \<Rightarrow> nat list \<Rightarrow> input_cache \<Rightarrow> input_cache result" where
  "release_all consumer [] c = Inr c"
| "release_all consumer (l # ls) c = bindE (release_lease consumer l c) (release_all consumer ls)"

definition abort_generated :: "nat \<Rightarrow> (string \<times> cache_entry) list \<Rightarrow> input_cache \<Rightarrow> input_cache" where
  "abort_generated consumer es c =
     foldl (\<lambda>c p. if e_state (snd p) = ''generating'' \<and> e_producer (snd p) = consumer
                  then remove_entry (fst p) ''aborted'' c else c) c es"

definition end_consumer :: "nat \<Rightarrow> input_cache \<Rightarrow> response result \<times> input_cache" where
  "end_consumer consumer c =
     (case map_of (consumers c) consumer of
        None \<Rightarrow> (Inr (Released False), c)
      | Some r \<Rightarrow>
          case release_all consumer (map fst (c_leases r)) c of
            Inl e \<Rightarrow> (Inl e, c)
          | Inr c1 \<Rightarrow>
              let c2 = abort_generated consumer (entries c1) c1
              in (Inr (Released True), c2\<lparr>consumers := AList.delete consumer (consumers c2)\<rparr>))"

definition leased_bytes :: "input_cache \<Rightarrow> consumer \<Rightarrow> int result" where
  "leased_bytes c r =
     bindE (mapE (\<lambda>p. case map_of (entries c) (snd p) of None \<Rightarrow> Inl (KeyError (snd p)) | Some e \<Rightarrow> Inr (e_bytes e))
       (c_leases r)) (\<lambda>ns. Inr (sum_list ns))"

text \<open>\<^verbatim>\<open>OrderedDict.move_to_end\<close>.\<close>

definition move_to_end :: "string \<Rightarrow> cache_entry \<Rightarrow> (string \<times> cache_entry) list \<Rightarrow> (string \<times> cache_entry) list" where
  "move_to_end key e es = AList.delete key es @ [(key, e)]"

definition take_lease :: "nat \<Rightarrow> consumer \<Rightarrow> string \<Rightarrow> cache_entry \<Rightarrow> input_cache \<Rightarrow> input_cache" where
  "take_lease consumer r key e c =
     (let l = next_token c in
      c\<lparr>consumers := AList.update consumer (r\<lparr>c_leases := AList.update l key (c_leases r)\<rparr>) (consumers c),
        entries := move_to_end key (e\<lparr>e_leases := l # e_leases e\<rparr>) (entries c),
        next_token := Suc l\<rparr>)"

definition acquire_hit :: "nat \<Rightarrow> consumer \<Rightarrow> string \<Rightarrow> cache_entry \<Rightarrow> input_cache \<Rightarrow> response result \<times> input_cache" where
  "acquire_hit consumer r key e c =
     (case leased_bytes c r of
        Inl err \<Rightarrow> (Inl err, c)
      | Inr private \<Rightarrow>
          if private + e_bytes e > copy_limit r then (Inr (Bypass ''consumer_copy_budget''), bump ''bypasses'' 1 c)
          else
            let c' = bump ''generation_bytes_saved'' (e_bytes e) (bump ''hits'' 1 (take_lease consumer r key e c))
            in case map_of (e_metadata e) ''generation_seconds'' of
                 None \<Rightarrow> (Inl (KeyError ''generation_seconds''), c')
               | Some _ \<Rightarrow> (Inr (Hit key (next_token c) (e_bytes e)), c'))"

definition acquire_miss :: "nat \<Rightarrow> string \<Rightarrow> int \<Rightarrow> input_cache \<Rightarrow> response result \<times> input_cache" where
  "acquire_miss consumer key n c =
     (case choose_tier n [Ram, Disk] (bump ''misses'' 1 c) of
        (None, c') \<Rightarrow> (Inr (Bypass ''capacity_or_pinned_entries''), bump ''bypasses'' 1 c')
      | (Some t, c') \<Rightarrow>
          (Inr (Miss key n),
           c'\<lparr>entries := AList.update key \<lparr>e_bytes = n, e_tier = t, e_state = ''generating'', e_producer = consumer,
                          e_leases = [], e_metadata = []\<rparr> (entries c')\<rparr>))"

definition acquire :: "(json \<Rightarrow> string) \<Rightarrow> nat \<Rightarrow> dict \<Rightarrow> json \<Rightarrow> bool \<Rightarrow> input_cache \<Rightarrow> response result \<times> input_cache" where
  "acquire sha consumer identity sz timed_out c =
     (case cache_key sha identity of
        Inl e \<Rightarrow> (Inl e, c)
      | Inr key \<Rightarrow>
          case as_int sz of
            Some n \<Rightarrow>
              if n < 0 then (Inl (ValueError ''invalid cache storage reservation''), c)
              else
                (case (map_of (consumers c) consumer, map_of (entries c) key) of
                   (None, Some e) \<Rightarrow> if e_state e = ''generating'' then (Inl (RuntimeError ''consumer cancelled''), c)
                                    else (Inl (KeyError ''consumer''), c)
                 | (None, None) \<Rightarrow> (Inl (KeyError ''consumer''), c)
                 | (Some r, None) \<Rightarrow> acquire_miss consumer key n c
                 | (Some r, Some e) \<Rightarrow>
                     if e_state e = ''generating'' then
                       if timed_out then (Inr (Bypass ''generation_wait_timeout''), bump ''bypasses'' 1 c)
                       else (Inr Blocked, c)
                     else acquire_hit consumer r key e c)
          | None \<Rightarrow> (Inl (ValueError ''invalid cache storage reservation''), c))"

definition publish :: "(json \<Rightarrow> nat) \<Rightarrow> nat \<Rightarrow> string \<Rightarrow> dict \<Rightarrow> int \<Rightarrow> input_cache \<Rightarrow> response result \<times> input_cache" where
  "publish text_bytes consumer key meta n c =
     (case map_of (entries c) key of
        None \<Rightarrow> (Inl (KeyError key), c)
      | Some e \<Rightarrow>
          if e_state e \<noteq> ''generating'' \<or> e_producer e \<noteq> consumer \<or> \<not> (0 \<le> n \<and> n \<le> e_bytes e)
          then (Inl (ValueError ''invalid cache publication''), c)
          else if text_bytes (JObj meta) > 128 * 1024
          then (Inl (ValueError ''cache metadata exceeds its per-entry bound''), c)
          else
            let c' = bump ''publications'' 1
                  (c\<lparr>entries := AList.update key (e\<lparr>e_bytes := n, e_metadata := meta, e_state := ''ready''\<rparr>) (entries c)\<rparr>)
            in case (map_of meta ''publication_copy_bytes'', map_of meta ''publication_copy_seconds'') of
                 (None, _) \<Rightarrow> (Inl (KeyError ''publication_copy_bytes''), c')
               | (Some _, None) \<Rightarrow> (Inl (KeyError ''publication_copy_seconds''), c')
               | (Some _, Some _) \<Rightarrow> (Inr Published, c'))"

definition abort_entry :: "nat \<Rightarrow> string \<Rightarrow> input_cache \<Rightarrow> input_cache" where
  "abort_entry consumer key c =
     (case map_of (entries c) key of
        None \<Rightarrow> c
      | Some e \<Rightarrow> if e_state e = ''generating'' \<and> e_producer e = consumer then remove_entry key ''aborted'' c else c)"

section \<open>Requests\<close>

text \<open>
  \<open>Resume_req\<close> is a later pass of the waiting loop of an \<^verbatim>\<open>acquire\<close> that has returned \<open>Blocked\<close>: other
  requests ran while it waited, so its consumer may be gone.
\<close>

datatype request =
    Begin json
  | Acquire_req nat dict json bool
  | Publish_req nat string dict int
  | Release_req nat nat
  | End_req nat
  | Abort_req nat string
  | Other_req nat string
  | Resume_req nat dict json bool

fun consumer_of :: "request \<Rightarrow> nat option" where
  "consumer_of (Begin _) = None"
| "consumer_of (Acquire_req i _ _ _) = Some i"
| "consumer_of (Publish_req i _ _ _) = Some i"
| "consumer_of (Release_req i _) = Some i"
| "consumer_of (End_req i) = Some i"
| "consumer_of (Abort_req i _) = Some i"
| "consumer_of (Other_req i _) = Some i"
| "consumer_of (Resume_req _ _ _ _) = None"

definition known :: "request \<Rightarrow> input_cache \<Rightarrow> bool" where
  "known r c = (case consumer_of r of None \<Rightarrow> True | Some i \<Rightarrow> map_of (consumers c) i \<noteq> None)"

definition dispatch ::
  "(json \<Rightarrow> string) \<Rightarrow> (json \<Rightarrow> nat) \<Rightarrow> request \<Rightarrow> input_cache \<Rightarrow> response result \<times> input_cache" where
  "dispatch sha text_bytes r c =
     (if \<not> known r c then (Inl (ValueError ''unknown or retired cache consumer''), c)
      else case r of
        Begin n \<Rightarrow> begin_consumer n c
      | Acquire_req i identity n timed_out \<Rightarrow> acquire sha i identity n timed_out c
      | Publish_req i key meta n \<Rightarrow> publish text_bytes i key meta n c
      | Release_req i l \<Rightarrow>
          (case release_lease i l c of Inl e \<Rightarrow> (Inl e, c) | Inr c' \<Rightarrow> (Inr (Released True), c'))
      | End_req i \<Rightarrow> end_consumer i c
      | Abort_req i key \<Rightarrow> (Inr Aborted, abort_entry i key c)
      | Other_req i op \<Rightarrow> (Inl (ValueError ''unknown cache operation''), c)
      | Resume_req i identity n timed_out \<Rightarrow> acquire sha i identity n timed_out c)"

definition clear :: "input_cache \<Rightarrow> input_cache result" where
  "clear c =
     (if consumers c \<noteq> [] then Inl (RuntimeError ''cannot clear a cache with live consumers'')
      else Inr (foldl (\<lambda>c p. remove_entry (fst p) ''clear'' c) c (entries c)))"

section \<open>Space invariant\<close>

definition share :: "tier \<Rightarrow> cache_entry \<Rightarrow> int" where
  "share t e = (if e_tier e = t then e_bytes e else 0)"

lemma tier_bytes_simps [simp]:
  "tier_bytes t [] = 0" "tier_bytes t (p # es) = share t (snd p) + tier_bytes t es"
  "tier_bytes t (xs @ ys) = tier_bytes t xs + tier_bytes t ys"
  by (simp_all add: tier_bytes_def share_def)

lemma tier_bytes_new: "k \<notin> fst ` set es \<Longrightarrow> tier_bytes t (AList.update k e es) = tier_bytes t es + share t e"
  by (induction es) auto

lemma tier_bytes_old:
  "map_of es k = Some e0 \<Longrightarrow> tier_bytes t (AList.update k e es) = tier_bytes t es - share t e0 + share t e"
  by (induction es) (auto split: if_splits)

lemma delete_absent: "k \<notin> fst ` set es \<Longrightarrow> AList.delete k es = es"
  by (simp add: delete_idem)

lemma delete_not_key: "k \<notin> fst ` set (AList.delete k es)"
  by (auto simp: AList.delete_eq)

lemma tier_bytes_delete:
  "distinct (map fst es) \<Longrightarrow> tier_bytes t (AList.delete k es) =
     tier_bytes t es - (case map_of es k of None \<Rightarrow> 0 | Some e \<Rightarrow> share t e)"
proof (induction es)
  case (Cons p es)
  then show ?case
  proof (cases "fst p = k")
    case True
    with Cons.prems have "AList.delete k es = es" by (auto intro: delete_absent)
    with True show ?thesis by (cases p) simp
  next
    case False
    with Cons show ?thesis by (cases p) simp
  qed
qed simp

definition entries_ok :: "(string \<times> cache_entry) list \<Rightarrow> bool" where
  "entries_ok es \<longleftrightarrow> distinct (map fst es) \<and> list_all (\<lambda>p. 0 \<le> e_bytes (snd p)) es"

lemma entries_ok_share: "entries_ok es \<Longrightarrow> map_of es k = Some e \<Longrightarrow> 0 \<le> share t e"
  by (auto simp: entries_ok_def share_def list_all_iff dest!: map_of_SomeD)

lemma update_all: "list_all (\<lambda>p. P (snd p)) es \<Longrightarrow> P e \<Longrightarrow> list_all (\<lambda>p. P (snd p)) (AList.update k e es)"
  by (induction es) auto

lemma delete_all: "list_all P es \<Longrightarrow> list_all P (AList.delete k es)"
  by (simp add: AList.delete_eq list_all_iff)

lemma entries_ok_update: "entries_ok es \<Longrightarrow> 0 \<le> e_bytes e \<Longrightarrow> entries_ok (AList.update k e es)"
  by (simp add: entries_ok_def distinct_update update_all [where P = "\<lambda>e. 0 \<le> e_bytes e"])

lemma entries_ok_delete: "entries_ok es \<Longrightarrow> entries_ok (AList.delete k es)"
  by (simp add: entries_ok_def distinct_delete delete_all)

lemma entries_ok_move: "entries_ok es \<Longrightarrow> 0 \<le> e_bytes e \<Longrightarrow> entries_ok (move_to_end k e es)"
  using delete_not_key [of k es] by (simp add: move_to_end_def entries_ok_def distinct_delete delete_all)

definition admit_entry :: "input_cache \<Rightarrow> string \<times> tier \<times> int \<Rightarrow> input_cache" where
  "admit_entry c r = c\<lparr>entries := AList.update (fst r) \<lparr>e_bytes = snd (snd r), e_tier = fst (snd r),
     e_state = ''generating'', e_producer = 0, e_leases = [], e_metadata = []\<rparr> (entries c)\<rparr>"

definition room_for :: "input_cache \<Rightarrow> string \<times> tier \<times> int \<Rightarrow> bool" where
  "room_for c r \<longleftrightarrow> fst r \<notin> fst ` set (entries c) \<and> has_room (fst (snd r)) (snd (snd r)) c"

interpretation tier_ledger: admission_ledger "\<lambda>c t. tier_used t c" "\<lambda>c t. Some (capacity c t)"
  "\<lambda>r t. if fst (snd r) = t then snd (snd r) else 0" room_for admit_entry
  by unfold_locales
    (auto simp: room_for_def has_room_def admit_entry_def tier_used_def tier_bytes_new share_def split: if_splits)

definition space_inv :: "input_cache \<Rightarrow> bool" where
  "space_inv c \<longleftrightarrow> entries_ok (entries c) \<and> length (entries c) \<le> max_entries c \<and> tier_ledger.in_limits c"

lemma tier_limits_iff [simp]: "tier_ledger.in_limits c \<longleftrightarrow> (\<forall>t. tier_used t c \<le> capacity c t)"
  by (simp add: tier_ledger.in_limits_def)

lemma tier_used_simps [simp]:
  "tier_used t (c\<lparr>entries := es\<rparr>) = tier_bytes t es" "tier_used t (c\<lparr>metrics := m\<rparr>) = tier_used t c"
  "tier_used t (c\<lparr>consumers := x\<rparr>) = tier_used t c" "tier_used t (c\<lparr>next_token := n\<rparr>) = tier_used t c"
  by (simp_all add: tier_used_def)

lemma bump_simps [simp]:
  "entries (bump k n c) = entries c" "consumers (bump k n c) = consumers c" "capacity (bump k n c) = capacity c"
  "max_entries (bump k n c) = max_entries c" "next_token (bump k n c) = next_token c" "tier_used t (bump k n c) = tier_used t c"
  by (simp_all add: bump_def)

lemma space_inv_cong:
  "entries c = entries d \<Longrightarrow> capacity c = capacity d \<Longrightarrow> max_entries c = max_entries d \<Longrightarrow> space_inv c = space_inv d"
  by (simp add: space_inv_def) (simp add: tier_used_def)

text \<open>A replaced entry list with no more bytes and no more entries keeps the invariant.\<close>

lemma space_inv_shrink:
  assumes "space_inv c" "entries_ok es" "length es \<le> length (entries c)" "\<And>t. tier_bytes t es \<le> tier_bytes t (entries c)"
    and "capacity d = capacity c" "max_entries d = max_entries c" "entries d = es"
  shows "space_inv d"
proof -
  have "tier_used t d \<le> tier_used t c" for t using assms(4,7) by (simp add: tier_used_def)
  then have "tier_ledger.in_limits d"
    using assms(1,5) tier_ledger.in_limits_shrink [of c d] by (simp add: space_inv_def)
  with assms show ?thesis by (simp add: space_inv_def)
qed

lemma remove_entry_simps [simp]:
  "entries (remove_entry k why c) = AList.delete k (entries c)" "consumers (remove_entry k why c) = consumers c"
  "capacity (remove_entry k why c) = capacity c" "max_entries (remove_entry k why c) = max_entries c"
  "next_token (remove_entry k why c) = next_token c"
  by (auto simp: remove_entry_def Let_def delete_idem map_of_eq_None_iff dom_map_of_conv_image_fst split: option.splits)

lemma remove_space_inv: "space_inv c \<Longrightarrow> space_inv (remove_entry k why c)"
proof (rule space_inv_shrink [of c "AList.delete k (entries c)"])
  assume inv: "space_inv c"
  then have ok: "entries_ok (entries c)" by (simp add: space_inv_def)
  then show "entries_ok (AList.delete k (entries c))" by (rule entries_ok_delete)
  show "tier_bytes t (AList.delete k (entries c)) \<le> tier_bytes t (entries c)" for t
    using ok tier_bytes_delete [of "entries c" t k] entries_ok_share [OF ok, of k _ t]
    by (auto simp: entries_ok_def split: option.splits)
qed (simp_all add: length_delete_le)

definition same_frame :: "input_cache \<Rightarrow> input_cache \<Rightarrow> bool" where
  "same_frame c d \<longleftrightarrow> capacity d = capacity c \<and> consumers d = consumers c \<and> next_token d = next_token c \<and>
     max_entries d = max_entries c"

lemma same_frame_refl [simp]: "same_frame c c"
  by (simp add: same_frame_def)

lemma same_frame_trans: "same_frame c d \<Longrightarrow> same_frame d e \<Longrightarrow> same_frame c e"
  by (simp add: same_frame_def)

lemma same_frame_remove: "same_frame c (remove_entry k why c)"
  by (simp add: same_frame_def)

lemma space_loop_inv:
  "space_inv c \<Longrightarrow> space_inv (snd (space_loop t n es c)) \<and> same_frame c (snd (space_loop t n es c)) \<and>
     (fst (space_loop t n es c) \<longrightarrow> has_room t n (snd (space_loop t n es c)))"
proof (induction es arbitrary: c)
  case (Cons p es)
  obtain key e where p: "p = (key, e)" by (rule prod.exhaust)
  let ?d = "if evictable t e then remove_entry key ''evict'' c else c"
  have d: "space_inv ?d" "same_frame c ?d" using Cons.prems by (simp_all add: remove_space_inv same_frame_remove)
  show ?case
  proof (cases "has_room t n c")
    case False
    then have "space_loop t n (p # es) c = space_loop t n es ?d" by (simp add: p)
    then show ?thesis using Cons.IH [OF d(1)] same_frame_trans [OF d(2)] by metis
  qed (use Cons.prems in \<open>simp add: p\<close>)
qed simp

lemma space_keeps:
  assumes "space_inv c" "space t n c = (b, d)"
  shows "space_inv d" "same_frame c d" "b \<Longrightarrow> has_room t n d"
  using space_loop_inv [OF assms(1), of t n "entries c"] assms by (simp_all add: space_def split: if_split_asm)

lemma choose_tier_inv:
  "space_inv c \<Longrightarrow> choose_tier n ts c = (ot, d) \<Longrightarrow> space_inv d \<and> same_frame c d \<and> (\<forall>t. ot = Some t \<longrightarrow> has_room t n d)"
proof (induction n ts c rule: choose_tier.induct)
  case (2 n t ts c)
  show ?case
  proof (cases "capacity c t = 0")
    case False
    obtain b c' where s: "space t n c = (b, c')" by (rule prod.exhaust)
    note k = space_keeps [OF "2.prems"(1) s]
    show ?thesis
    proof (cases b)
      case True
      with False "2.prems"(2) s k show ?thesis by auto
    next
      case b: False
      with False s "2.prems"(2) have "choose_tier n ts c' = (ot, d)" by simp
      with "2.IH"(2) [OF False s [symmetric]] b k show ?thesis using same_frame_trans [OF k(2)] by simp
    qed
  qed (use 2 in simp)
qed simp

section \<open>Lease invariant\<close>

text \<open>
  The invariant is stated over the lease table \<open>L\<close> (consumer, lease, key), the entry table \<open>M\<close>, the
  next token \<open>n\<close> and the set \<open>D\<close> of live consumers.
\<close>

definition ready_entry :: "cache_entry \<Rightarrow> bool" where
  "ready_entry e \<longleftrightarrow> e_state e = ''ready''"

definition generating_by :: "nat \<Rightarrow> cache_entry \<Rightarrow> bool" where
  "generating_by i e \<longleftrightarrow> e_state e = ''generating'' \<and> e_producer e = i"

definition settled :: "nat set \<Rightarrow> cache_entry \<Rightarrow> bool" where
  "settled D e \<longleftrightarrow> ready_entry e \<or> (\<exists>i\<in>D. generating_by i e)"

lemma entry_state_leases [simp]:
  "ready_entry (e\<lparr>e_leases := x\<rparr>) = ready_entry e" "generating_by i (e\<lparr>e_leases := x\<rparr>) = generating_by i e"
  "settled D (e\<lparr>e_leases := x\<rparr>) = settled D e"
  by (simp_all add: ready_entry_def generating_by_def settled_def)

lemma settled_mono: "settled D e \<Longrightarrow> D \<subseteq> E \<Longrightarrow> settled E e"
  by (auto simp: settled_def)

definition lease_ok ::
  "(nat \<Rightarrow> nat \<rightharpoonup> string) \<Rightarrow> (string \<rightharpoonup> cache_entry) \<Rightarrow> nat \<Rightarrow> nat set \<Rightarrow> bool" where
  "lease_ok L M n D \<longleftrightarrow>
     (\<forall>i l k. L i l = Some k \<longrightarrow> i \<in> D \<and> l < n \<and>
        (\<exists>e. M k = Some e \<and> ready_entry e \<and> l \<in> set (e_leases e))) \<and>
     (\<forall>k e l. M k = Some e \<longrightarrow> l \<in> set (e_leases e) \<longrightarrow> (\<exists>i. L i l = Some k)) \<and>
     (\<forall>i j l. L i l \<noteq> None \<longrightarrow> L j l \<noteq> None \<longrightarrow> i = j) \<and>
     (\<forall>i\<in>D. i < n) \<and>
     (\<forall>k e. M k = Some e \<longrightarrow> settled D e)"

lemma lease_ok_entry: "lease_ok L M n D \<Longrightarrow> L i l = Some k \<Longrightarrow>
    \<exists>e. M k = Some e \<and> ready_entry e \<and> l \<in> set (e_leases e)"
  unfolding lease_ok_def by blast

lemma lease_ok_pin: "lease_ok L M n D \<Longrightarrow> M k = Some e \<Longrightarrow> l \<in> set (e_leases e) \<Longrightarrow> \<exists>i. L i l = Some k"
  unfolding lease_ok_def by blast

lemma lease_ok_state: "lease_ok L M n D \<Longrightarrow> M k = Some e \<Longrightarrow>
    settled D e"
  unfolding lease_ok_def by blast

lemma lease_ok_fresh: "lease_ok L M n D \<Longrightarrow> n \<notin> D" "lease_ok L M n D \<Longrightarrow> L i n = None"
  unfolding lease_ok_def by fastforce+

lemma generating_unleased:
  assumes "lease_ok L M n D" "M k = Some e" "\<not> ready_entry e"
  shows "e_leases e = []" "L i l \<noteq> Some k"
proof -
  show *: "L i l \<noteq> Some k" for i l using lease_ok_entry [OF assms(1), of i l k] assms(2,3) by auto
  have "l \<notin> set (e_leases e)" for l using lease_ok_pin [OF assms(1,2), of l] * by blast
  then show "e_leases e = []" by (cases "e_leases e") auto
qed

lemma unpinned_unleased:
  assumes "lease_ok L M n D" "M k = Some e" "e_leases e = []" shows "L i l \<noteq> Some k"
  using lease_ok_entry [OF assms(1), of i l k] assms(2,3) by auto

lemma lease_ok_register: "lease_ok L M n D \<Longrightarrow> lease_ok L M (Suc n) (insert n D)"
  unfolding lease_ok_def by (auto simp: less_Suc_eq intro: settled_mono [OF _ subset_insertI])

lemma lease_ok_remove:
  assumes "lease_ok L M n D" "M k = Some e" "e_leases e = []" shows "lease_ok L (M(k := None)) n D"
  using unpinned_unleased [OF assms] assms(1) unfolding lease_ok_def by (auto split: if_splits)

lemma lease_ok_put:
  assumes "lease_ok L M n D" "\<And>i l. L i l \<noteq> Some k" "e_leases e = []"
    and "settled D e"
  shows "lease_ok L (M(k \<mapsto> e)) n D"
  using assms unfolding lease_ok_def by (auto split: if_splits)

lemma lease_okI:
  assumes "\<And>i l k. L i l = Some k \<Longrightarrow>
       i \<in> D \<and> l < n \<and> (\<exists>e. M k = Some e \<and> ready_entry e \<and> l \<in> set (e_leases e))"
    and "\<And>k e l. M k = Some e \<Longrightarrow> l \<in> set (e_leases e) \<Longrightarrow> \<exists>i. L i l = Some k"
    and "\<And>i j l k m. L i l = Some k \<Longrightarrow> L j l = Some m \<Longrightarrow> i = j" and "\<And>i. i \<in> D \<Longrightarrow> i < n"
    and "\<And>k e. M k = Some e \<Longrightarrow> settled D e"
  shows "lease_ok L M n D"
  unfolding lease_ok_def using assms by fast

lemma lease_okD:
  assumes "lease_ok L M n D" "L i l = Some k" shows "i \<in> D" "l < n" "L j l = Some m \<Longrightarrow> j = i"
  using assms unfolding lease_ok_def by (fast, fast, metis option.distinct(1))

lemma lease_ok_live: "lease_ok L M n D \<Longrightarrow> i \<in> D \<Longrightarrow> i < n"
  unfolding lease_ok_def by blast

lemma lease_ok_take:
  assumes ok: "lease_ok L M n D" and k: "M k = Some e" "ready_entry e" and i: "i \<in> D"
    and L': "\<And>j l. L' j l = (if j = i \<and> l = n then Some k else L j l)"
    and M': "M' = M(k \<mapsto> e\<lparr>e_leases := n # e_leases e\<rparr>)"
  shows "lease_ok L' M' (Suc n) D"
proof (rule lease_okI)
  note fresh = lease_ok_fresh(2) [OF ok]
  have old: "L' j l = L j l" if "l \<noteq> n" for j l using that by (simp add: L')
  have new: "L' j n = (if j = i then Some k else None)" for j by (simp add: L' fresh)
  show "j \<in> D \<and> l < Suc n \<and> (\<exists>e. M' m = Some e \<and> ready_entry e \<and> l \<in> set (e_leases e))" if a: "L' j l = Some m" for j l m
  proof (cases "l = n")
    case True
    with a have "j = i" "m = k" by (simp_all add: new split: if_split_asm)
    with True k i show ?thesis by (simp add: M')
  next
    case False
    with a have b: "L j l = Some m" by (simp add: old)
    with lease_okD(1,2) [OF ok b] lease_ok_entry [OF ok b] k show ?thesis by (cases "m = k") (auto simp: M')
  qed
  show "\<exists>j. L' j l = Some m" if a: "M' m = Some e'" "l \<in> set (e_leases e')" for m e' l
  proof (cases "l = n \<and> m = k")
    case False
    with a k obtain e'' where "M m = Some e''" "l \<in> set (e_leases e'')" by (cases "m = k") (auto simp: M')
    then obtain j where "L j l = Some m" using lease_ok_pin [OF ok] by blast
    moreover from this have "l \<noteq> n" using fresh by auto
    ultimately show ?thesis using old by metis
  qed (simp add: new)
  show "j = j'" if "L' j l = Some m" "L' j' l = Some m'" for j j' l m m'
  proof (cases "l = n")
    case True
    with that show ?thesis by (simp add: new split: if_split_asm)
  next
    case False
    with that lease_okD(3) [OF ok, of j' l m'] show ?thesis by (simp add: old)
  qed
  show "settled D e'" if "M' m = Some e'" for m e'
    using that k lease_ok_state [OF ok, of m] by (cases "m = k") (auto simp: M')
qed (use lease_ok_live [OF ok] less_SucI in blast)

lemma lease_ok_release:
  assumes ok: "lease_ok L M n D" and k: "L i l = Some k" "M k = Some e"
  shows "lease_ok (L(i := (L i)(l := None))) (M(k \<mapsto> e\<lparr>e_leases := removeAll l (e_leases e)\<rparr>)) n D"
    (is "lease_ok ?L ?M _ _")
proof (rule lease_okI)
  fix j l' m assume a: "?L j l' = Some m"
  then have b: "L j l' = Some m" by (auto split: if_splits)
  then have "l' \<noteq> l" using a lease_okD(3) [OF ok b, of i k] k by (auto split: if_splits)
  then show "j \<in> D \<and> l' < n \<and> (\<exists>e. ?M m = Some e \<and> ready_entry e \<and> l' \<in> set (e_leases e))"
    using lease_okD [OF ok b] lease_ok_entry [OF ok b] k(2) by auto
next
  fix m e' l' assume a: "?M m = Some e'" "l' \<in> set (e_leases e')"
  then obtain e'' where "M m = Some e''" "l' \<in> set (e_leases e'')" "m = k \<longrightarrow> l' \<noteq> l" using k by (auto split: if_splits)
  moreover from this obtain j where "L j l' = Some m" using lease_ok_pin [OF ok] by blast
  ultimately have "?L j l' = Some m" using k by (auto split: if_splits)
  then show "\<exists>i. ?L i l' = Some m" by blast
next
  fix j j' l' m m' assume "?L j l' = Some m" "?L j' l' = Some m'"
  then show "j = j'" using lease_okD(3) [OF ok] by (auto split: if_splits)
next
  fix m e' assume "?M m = Some e'"
  then show "settled D e'"
    using k lease_ok_state [OF ok, of m] by (auto split: if_splits)
qed (use lease_ok_live [OF ok] in blast)

lemma lease_ok_retire:
  assumes ok: "lease_ok L M n D" and i: "\<And>l. L i l = None"
    and "\<And>k e. M k = Some e \<Longrightarrow> generating_by i e \<Longrightarrow> False"
  shows "lease_ok L M n (D - {i})"
proof (rule lease_okI)
  fix j l m assume a: "L j l = Some m"
  then have "j \<noteq> i" using i by auto
  with lease_okD [OF ok a] lease_ok_entry [OF ok a]
  show "j \<in> D - {i} \<and> l < n \<and> (\<exists>e. M m = Some e \<and> ready_entry e \<and> l \<in> set (e_leases e))" by simp
next
  fix j j' l m m' assume "L j l = Some m" "L j' l = Some m'"
  then show "j = j'" using lease_okD(3) [OF ok] by blast
next
  fix k e assume "M k = Some e"
  with lease_ok_state [OF ok this] assms(3) show "settled (D - {i}) e" by (auto simp: settled_def)
qed (use lease_ok_live [OF ok] lease_ok_pin [OF ok] in \<open>simp_all\<close>)

section \<open>The cache's invariant\<close>

definition lease_table :: "input_cache \<Rightarrow> nat \<Rightarrow> nat \<rightharpoonup> string" where
  "lease_table c i = (case map_of (consumers c) i of None \<Rightarrow> Map.empty | Some r \<Rightarrow> map_of (c_leases r))"

definition leases_inv :: "input_cache \<Rightarrow> bool" where
  "leases_inv c \<longleftrightarrow>
     lease_ok (lease_table c) (map_of (entries c)) (next_token c) (dom (map_of (consumers c)))"

definition copied :: "(string \<rightharpoonup> cache_entry) \<Rightarrow> (nat \<times> string) list \<Rightarrow> int" where
  "copied M ls = sum_list (map (\<lambda>p. case M (snd p) of None \<Rightarrow> 0 | Some e \<Rightarrow> e_bytes e) ls)"

definition copies_inv :: "input_cache \<Rightarrow> bool" where
  "copies_inv c \<longleftrightarrow> (\<forall>i r. map_of (consumers c) i = Some r \<longrightarrow>
     distinct (map fst (c_leases r)) \<and> copied (map_of (entries c)) (c_leases r) \<le> copy_limit r)"

definition cache_inv :: "input_cache \<Rightarrow> bool" where
  "cache_inv c \<longleftrightarrow> space_inv c \<and> leases_inv c \<and> copies_inv c"

lemma copied_cong:
  assumes "\<And>l k. (l, k) \<in> set ls \<Longrightarrow> map_option e_bytes (M k) = map_option e_bytes (N k)" shows "copied M ls = copied N ls"
proof -
  have *: "(case M (snd p) of None \<Rightarrow> 0 | Some e \<Rightarrow> e_bytes e) = (case N (snd p) of None \<Rightarrow> 0 | Some e \<Rightarrow> e_bytes e)"
    if "p \<in> set ls" for p
    using assms [of "fst p" "snd p"] that by (cases "M (snd p)"; cases "N (snd p)") simp_all
  show ?thesis unfolding copied_def by (rule arg_cong [of _ _ sum_list], rule map_cong) (simp_all add: *)
qed

lemma copied_delete:
  assumes "entries_ok es" shows "copied (map_of es) (AList.delete l ls) \<le> copied (map_of es) ls"
proof -
  have *: "0 \<le> (case map_of es k of None \<Rightarrow> 0 | Some e \<Rightarrow> e_bytes e)" for k
    using assms by (auto simp: entries_ok_def list_all_iff split: option.split dest!: map_of_SomeD)
  show ?thesis by (induction ls) (use * in \<open>auto simp: copied_def add_increasing\<close>)
qed

lemma copied_new: "l \<notin> fst ` set ls \<Longrightarrow>
    copied M (AList.update l k ls) = copied M ls + (case M k of None \<Rightarrow> 0 | Some e \<Rightarrow> e_bytes e)"
  by (induction ls) (auto simp: copied_def)

lemma held_lease: "copies_inv c \<Longrightarrow> map_of (consumers c) i = Some r \<Longrightarrow> (l, k) \<in> set (c_leases r) \<Longrightarrow> lease_table c i l = Some k"
  by (simp add: copies_inv_def lease_table_def)

lemma copies_inv_entries:
  assumes "copies_inv c" "consumers d = consumers c"
    and "\<And>i l k. lease_table c i l = Some k \<Longrightarrow>
           map_option e_bytes (map_of (entries d) k) = map_option e_bytes (map_of (entries c) k)"
  shows "copies_inv d"
proof -
  have "copied (map_of (entries d)) (c_leases r) = copied (map_of (entries c)) (c_leases r)"
    if "map_of (consumers c) i = Some r" for i r
    using assms(3) held_lease [OF assms(1) that] by (intro copied_cong) blast
  with assms(1,2) show ?thesis by (simp add: copies_inv_def)
qed

lemma cache_inv_metrics [simp]: "cache_inv (bump k n c) = cache_inv c"
  by (simp add: cache_inv_def leases_inv_def copies_inv_def lease_table_def [abs_def] space_inv_def)

lemma leased_bytes_value:
  assumes inv: "cache_inv c" and r: "map_of (consumers c) i = Some r"
  shows "leased_bytes c r = Inr (copied (map_of (entries c)) (c_leases r))"
proof -
  have ex: "\<exists>e. map_of (entries c) k = Some e" if "(l, k) \<in> set (c_leases r)" for l k
    using held_lease [OF _ r that] inv lease_ok_entry by (fastforce simp: cache_inv_def leases_inv_def)
  have "mapE (\<lambda>p. case map_of (entries c) (snd p) of None \<Rightarrow> Inl (KeyError (snd p)) | Some e \<Rightarrow> Inr (e_bytes e)) ls =
      Inr (map (\<lambda>p. case map_of (entries c) (snd p) of None \<Rightarrow> 0 | Some e \<Rightarrow> e_bytes e) ls)"
    if "set ls \<subseteq> set (c_leases r)" for ls
    using that by (induction ls) (auto dest!: ex)
  then show ?thesis by (simp add: leased_bytes_def copied_def)
qed

subsection \<open>Eviction\<close>

text \<open>\<open>sheds c d\<close>: \<open>d\<close> is \<open>c\<close> without some of its unpinned entries.\<close>

definition sheds :: "input_cache \<Rightarrow> input_cache \<Rightarrow> bool" where
  "sheds c d \<longleftrightarrow> same_frame c d \<and> map_of (entries d) \<subseteq>\<^sub>m map_of (entries c) \<and>
     (\<forall>k e. map_of (entries c) k = Some e \<longrightarrow> e_leases e \<noteq> [] \<longrightarrow> map_of (entries d) k = Some e)"

lemma sheds_refl [simp]: "sheds c c"
  by (simp add: sheds_def)

lemma sheds_trans: "sheds c d \<Longrightarrow> sheds d e \<Longrightarrow> sheds c e"
  unfolding sheds_def using same_frame_trans map_le_trans by blast

lemma sheds_lease_table: "sheds c d \<Longrightarrow> lease_table d = lease_table c"
  by (simp add: sheds_def same_frame_def lease_table_def [abs_def])

lemma remove_entry_map: "map_of (entries (remove_entry k why c)) = (map_of (entries c))(k := None)"
  by (simp add: delete_conv')

lemma remove_sheds: "map_of (entries c) k = Some e \<Longrightarrow> e_leases e = [] \<Longrightarrow> sheds c (remove_entry k why c)"
  unfolding sheds_def remove_entry_map by (intro conjI same_frame_remove) (auto simp: map_le_def)

lemma remove_copies:
  assumes "copies_inv c" "\<And>i l. lease_table c i l \<noteq> Some k" shows "copies_inv (remove_entry k why c)"
proof (rule copies_inv_entries [OF assms(1)])
  fix i l m assume "lease_table c i l = Some m"
  with assms(2) have "m \<noteq> k" by blast
  then show "map_option e_bytes (map_of (entries (remove_entry k why c)) m) = map_option e_bytes (map_of (entries c) m)"
    unfolding remove_entry_map by simp
qed simp

lemma remove_cache_inv:
  assumes inv: "cache_inv c" and k: "map_of (entries c) k = Some e" "e_leases e = []"
  shows "cache_inv (remove_entry k why c)"
proof -
  have ok: "lease_ok (lease_table c) (map_of (entries c)) (next_token c) (dom (map_of (consumers c)))"
    using inv by (simp add: cache_inv_def leases_inv_def)
  have "leases_inv (remove_entry k why c)"
    unfolding leases_inv_def sheds_lease_table [OF remove_sheds [OF k]] remove_entry_map
    using lease_ok_remove [OF ok k] by simp
  moreover have "copies_inv (remove_entry k why c)"
    using inv unpinned_unleased [OF ok k] by (intro remove_copies) (simp_all add: cache_inv_def)
  ultimately show ?thesis using inv remove_space_inv by (simp add: cache_inv_def)
qed

text \<open>A snapshot of the entries that a removal loop runs over stays true of the entries that are left.\<close>

definition snapshot_of :: "(string \<times> cache_entry) list \<Rightarrow> input_cache \<Rightarrow> bool" where
  "snapshot_of es c \<longleftrightarrow> distinct (map fst es) \<and> (\<forall>p\<in>set es. map_of (entries c) (fst p) = Some (snd p))"

lemma snapshot_entries: "cache_inv c \<Longrightarrow> snapshot_of (entries c) c"
  by (auto simp: snapshot_of_def cache_inv_def space_inv_def entries_ok_def)

lemma snapshot_next: "snapshot_of (p # es) c \<Longrightarrow> snapshot_of es (remove_entry (fst p) why c)"
  "snapshot_of (p # es) c \<Longrightarrow> snapshot_of es c"
  by (force simp: snapshot_of_def delete_conv')+

lemma space_loop_sheds:
  "cache_inv c \<Longrightarrow> snapshot_of es c \<Longrightarrow> cache_inv (snd (space_loop t n es c)) \<and> sheds c (snd (space_loop t n es c))"
proof (induction es arbitrary: c)
  case (Cons p es)
  obtain key e where p: "p = (key, e)" by (rule prod.exhaust)
  let ?d = "if evictable t e then remove_entry key ''evict'' c else c"
  have d: "cache_inv ?d" "sheds c ?d" "snapshot_of es ?d"
    using Cons.prems remove_cache_inv [of c key e] remove_sheds [of c key e] snapshot_next [of p es c]
    by (auto simp: p evictable_def snapshot_of_def)
  show ?case
  proof (cases "has_room t n c")
    case False
    then have "space_loop t n (p # es) c = space_loop t n es ?d" by (simp add: p)
    then show ?thesis using Cons.IH [OF d(1,3)] sheds_trans [OF d(2)] by metis
  qed (use Cons.prems in \<open>simp add: p\<close>)
qed simp

lemma choose_tier_sheds:
  "cache_inv c \<Longrightarrow> choose_tier n ts c = (ot, d) \<Longrightarrow> cache_inv d \<and> sheds c d"
proof (induction n ts c rule: choose_tier.induct)
  case (2 n t ts c)
  obtain b c' where s: "space t n c = (b, c')" by (rule prod.exhaust)
  then have k: "cache_inv c' \<and> sheds c c'"
    using space_loop_sheds [OF "2.prems"(1) snapshot_entries, of t n] "2.prems"(1)
    by (auto simp: space_def split: if_split_asm)
  with 2 s show ?case using sheds_trans by (cases b) (auto split: if_split_asm)
qed simp

subsection \<open>Operations keep the invariant\<close>

lemma cache_invD:
  assumes "cache_inv c"
  shows "space_inv c" "copies_inv c" "entries_ok (entries c)"
    and "lease_ok (lease_table c) (map_of (entries c)) (next_token c) (dom (map_of (consumers c)))"
  using assms by (simp_all add: cache_inv_def leases_inv_def space_inv_def)

lemma tier_used_empty: "entries c = [] \<Longrightarrow> tier_used t c = 0"
  by (simp add: tier_used_def)

lemma InputCache_inv: "InputCache ram disk m soft = Inr c \<Longrightarrow> cache_inv c"
  by (auto simp: InputCache_def cache_inv_def space_inv_def leases_inv_def copies_inv_def lease_ok_def lease_table_def
      entries_ok_def tier_used_empty split: if_splits tier.splits)

lemma begin_consumer_inv: "cache_inv c \<Longrightarrow> cache_inv (snd (begin_consumer v c))"
proof -
  assume inv: "cache_inv c"
  let ?d = "\<lambda>n. c\<lparr>consumers := AList.update (next_token c) \<lparr>copy_limit = n, c_leases = []\<rparr> (consumers c),
              next_token := Suc (next_token c)\<rparr>"
  note ok = cache_invD(4) [OF inv]
  have "map_of (consumers c) (next_token c) = None" using lease_ok_fresh(1) [OF ok] by (simp add: domIff)
  then have "lease_table (?d n) = lease_table c" for n by (auto simp: lease_table_def fun_eq_iff update_conv')
  then have "cache_inv (?d n)" if "0 \<le> n" for n
    using inv lease_ok_register [OF ok] that
    by (auto simp: cache_inv_def leases_inv_def copies_inv_def update_conv' copied_def space_inv_def)
  then show ?thesis using inv by (simp add: begin_consumer_def split: option.split)
qed

lemma drop_pin_simps [simp]:
  "consumers (drop_pin l k c) = consumers c" "capacity (drop_pin l k c) = capacity c"
  "max_entries (drop_pin l k c) = max_entries c" "next_token (drop_pin l k c) = next_token c"
  by (simp_all add: drop_pin_def split: option.split)

definition content :: "cache_entry \<Rightarrow> int \<times> tier \<times> string \<times> nat \<times> dict" where
  "content e = (e_bytes e, e_tier e, e_state e, e_producer e, e_metadata e)"

lemma content_leases [simp]: "content (e\<lparr>e_leases := x\<rparr>) = content e"
  by (simp add: content_def)

lemma content_bytes: "map_option content x = map_option content y \<Longrightarrow> map_option e_bytes x = map_option e_bytes y"
  by (cases x; cases y) (simp_all add: content_def)

lemma share_leases [simp]: "share t (e\<lparr>e_leases := x\<rparr>) = share t e"
  by (simp add: share_def)

lemma update_length: "map_of es k = Some e0 \<Longrightarrow> length (AList.update k e es) = length es"
  by (induction es) (auto split: if_splits)

lemma update_length_new: "k \<notin> fst ` set es \<Longrightarrow> length (AList.update k e es) = Suc (length es)"
  by (induction es) auto

lemma space_inv_update:
  assumes inv: "space_inv c" and k: "map_of (entries c) k = Some e0" and e: "e_tier e = e_tier e0" "0 \<le> e_bytes e" "e_bytes e \<le> e_bytes e0"
    and d: "capacity d = capacity c" "max_entries d = max_entries c" "entries d = AList.update k e (entries c)"
  shows "space_inv d"
  using d by (intro space_inv_shrink [OF inv]) (use inv k e in \<open>auto simp: space_inv_def entries_ok_update update_length
      tier_bytes_old share_def split: if_splits\<close>)

lemma release_lease_inv:
  assumes inv: "cache_inv c" and rel: "release_lease i l c = Inr d"
  shows "cache_inv d" "lease_table d = (lease_table c)(i := (lease_table c i)(l := None))"
    and "dom (map_of (consumers d)) = dom (map_of (consumers c))"
    and "map_option content (map_of (entries d) k) = map_option content (map_of (entries c) k)"
    and "next_token d = next_token c"
proof -
  note ok = cache_invD(4) [OF inv]
  obtain r where r: "map_of (consumers c) i = Some r" using rel by (auto simp: release_lease_def split: option.splits)
  let ?c = "c\<lparr>consumers := AList.update i (r\<lparr>c_leases := AList.delete l (c_leases r)\<rparr>) (consumers c)\<rparr>"
  have t: "lease_table c i l = map_of (c_leases r) l" by (simp add: lease_table_def r)
  have d: "d = (case map_of (c_leases r) l of None \<Rightarrow> ?c | Some k \<Rightarrow> drop_pin l k ?c)"
    using rel r by (simp add: release_lease_def Let_def split: option.splits)
  have cons: "consumers d = consumers ?c" by (simp add: d split: option.split)
  then show tab: "lease_table d = (lease_table c)(i := (lease_table c i)(l := None))"
    by (auto simp: lease_table_def fun_eq_iff update_conv' delete_conv' r)
  show dom: "dom (map_of (consumers d)) = dom (map_of (consumers c))" using r by (auto simp: cons update_conv')
  show cont: "map_option content (map_of (entries d) k) = map_option content (map_of (entries c) k)" for k
    by (auto simp: d drop_pin_def update_conv' split: option.split)
  show tok: "next_token d = next_token c" by (simp add: d split: option.split)
  have sp: "space_inv d"
  proof (cases "map_of (c_leases r) l")
    case None
    then show ?thesis using inv by (simp add: d cache_inv_def space_inv_def)
  next
    case (Some k)
    then obtain e where e: "map_of (entries c) k = Some e" using lease_ok_entry [OF ok, of i l k] t by auto
    have "0 \<le> e_bytes e" using cache_invD(3) [OF inv] e by (auto simp: entries_ok_def list_all_iff dest!: map_of_SomeD)
    then show ?thesis
      using Some e by (intro space_inv_update [OF cache_invD(1) [OF inv] e]) (simp_all add: d drop_pin_def)
  qed
  have "leases_inv d"
  proof (cases "map_of (c_leases r) l")
    case None
    then have "lease_table d = lease_table c" unfolding tab using t by (simp add: fun_upd_idem)
    with None ok dom tok show ?thesis by (simp add: leases_inv_def d)
  next
    case (Some k)
    then obtain e where e: "map_of (entries c) k = Some e" using lease_ok_entry [OF ok, of i l k] t by auto
    have "map_of (entries d) = (map_of (entries c))(k \<mapsto> e\<lparr>e_leases := removeAll l (e_leases e)\<rparr>)"
      using Some e by (simp add: d drop_pin_def update_conv')
    then show ?thesis using lease_ok_release [OF ok _ e, of i l] Some t by (simp add: leases_inv_def tab dom tok)
  qed
  moreover have "copies_inv d"
  proof -
    have same: "copied (map_of (entries d)) ls = copied (map_of (entries c)) ls" for ls
      using cont content_bytes by (intro copied_cong) blast
    show ?thesis
      using cache_invD(2) [OF inv] r copied_delete [OF cache_invD(3) [OF inv], of l "c_leases r"]
      by (fastforce simp: copies_inv_def cons same update_conv' distinct_delete split: if_splits)
  qed
  ultimately show "cache_inv d" using sp by (simp add: cache_inv_def)
qed

lemma release_all_inv:
  "cache_inv c \<Longrightarrow> i \<in> dom (map_of (consumers c)) \<Longrightarrow> \<exists>d. release_all i ls c = Inr d \<and> cache_inv d \<and>
     lease_table d = (lease_table c)(i := (\<lambda>l. if l \<in> set ls then None else lease_table c i l)) \<and>
     dom (map_of (consumers d)) = dom (map_of (consumers c)) \<and>
     (\<forall>k. map_option content (map_of (entries d) k) = map_option content (map_of (entries c) k))"
proof (induction ls arbitrary: c)
  case (Cons l ls)
  have "\<exists>c1. release_lease i l c = Inr c1"
    using Cons.prems(2) by (auto simp: release_lease_def Let_def split: option.split)
  then obtain c1 where c1: "release_lease i l c = Inr c1" by blast
  note k = release_lease_inv [OF Cons.prems(1) c1]
  have "i \<in> dom (map_of (consumers c1))" using Cons.prems(2) by (simp only: k(3))
  from Cons.IH [OF k(1) this] obtain d where d: "release_all i ls c1 = Inr d" "cache_inv d"
      "lease_table d = (lease_table c1)(i := (\<lambda>l. if l \<in> set ls then None else lease_table c1 i l))"
      "dom (map_of (consumers d)) = dom (map_of (consumers c1))"
      "\<And>k. map_option content (map_of (entries d) k) = map_option content (map_of (entries c1) k)"
    by blast
  show ?case
  proof (intro exI conjI)
    show "release_all i (l # ls) c = Inr d" using c1 d(1) by simp
    show "lease_table d = (lease_table c)(i := (\<lambda>l'. if l' \<in> set (l # ls) then None else lease_table c i l'))"
      by (auto simp: d(3) k(2) fun_eq_iff)
  qed (use d k in simp_all)
qed (auto simp: fun_upd_idem)

lemma abort_generated_inv:
  "cache_inv c \<Longrightarrow> snapshot_of es c \<Longrightarrow> cache_inv (abort_generated i es c) \<and> sheds c (abort_generated i es c) \<and>
     (\<forall>p\<in>set es. generating_by i (snd p) \<longrightarrow> map_of (entries (abort_generated i es c)) (fst p) = None)"
proof (induction es arbitrary: c)
  case (Cons p es)
  let ?d = "if generating_by i (snd p) then remove_entry (fst p) ''aborted'' c else c"
  have p: "map_of (entries c) (fst p) = Some (snd p)" using Cons.prems(2) by (simp add: snapshot_of_def)
  have un: "e_leases (snd p) = []" if "generating_by i (snd p)"
    using generating_unleased(1) [OF cache_invD(4) [OF Cons.prems(1)] p] that
    by (simp add: generating_by_def ready_entry_def)
  have d: "cache_inv ?d" "sheds c ?d" "snapshot_of es ?d"
    using Cons.prems remove_cache_inv [OF Cons.prems(1) p un] remove_sheds [OF p un] snapshot_next [of p es c] by auto
  have step: "abort_generated i (p # es) c = abort_generated i es ?d"
    by (simp add: abort_generated_def generating_by_def)
  note IH = Cons.IH [OF d(1,3)]
  have "map_of (entries (abort_generated i es ?d)) (fst p) = None" if "generating_by i (snd p)"
  proof -
    have "map_of (entries ?d) (fst p) = None" using that by (simp add: delete_conv')
    moreover have "map_of (entries (abort_generated i es ?d)) \<subseteq>\<^sub>m map_of (entries ?d)" using IH by (simp add: sheds_def)
    ultimately show ?thesis unfolding map_le_def by (metis domIff)
  qed
  then show ?case unfolding step using IH sheds_trans [OF d(2)] by simp
qed (simp add: abort_generated_def)

lemma abort_all_generated:
  assumes inv: "cache_inv c" and d: "d = abort_generated i (entries c) c"
  shows "cache_inv d" "sheds c d" "map_of (entries d) k = Some e \<Longrightarrow> generating_by i e \<Longrightarrow> False"
proof -
  note a = abort_generated_inv [OF inv snapshot_entries [OF inv], of i, folded d]
  then show "cache_inv d" "sheds c d" by simp_all
  assume e: "map_of (entries d) k = Some e" "generating_by i e"
  then have "map_of (entries c) k = Some e" using a unfolding sheds_def map_le_def by force
  then have "(k, e) \<in> set (entries c)" by (rule map_of_SomeD)
  with a e show False by fastforce
qed

lemma retire_inv:
  assumes inv: "cache_inv c" and empty: "\<And>l. lease_table c i l = None"
    and gen: "\<And>k e. map_of (entries c) k = Some e \<Longrightarrow> generating_by i e \<Longrightarrow> False"
    and d: "d = c\<lparr>consumers := AList.delete i (consumers c)\<rparr>"
  shows "cache_inv d" "lease_table d = lease_table c"
proof -
  show tab: "lease_table d = lease_table c"
    using empty by (auto simp: d lease_table_def fun_eq_iff delete_conv' split: option.split)
  have "dom (map_of (consumers d)) = dom (map_of (consumers c)) - {i}" by (auto simp: d delete_conv')
  then have "leases_inv d"
    using lease_ok_retire [OF cache_invD(4) [OF inv] empty gen] by (simp add: leases_inv_def tab) (simp add: d)
  moreover have "copies_inv d" "space_inv d"
    using cache_invD(1,2) [OF inv] by (auto simp: d copies_inv_def delete_conv' space_inv_def)
  ultimately show "cache_inv d" by (simp add: cache_inv_def)
qed

lemma sheds_leased:
  assumes "cache_inv c" "sheds c d" "lease_table c j l = Some k"
  shows "map_of (entries d) k = map_of (entries c) k"
proof -
  from lease_ok_entry [OF cache_invD(4) [OF assms(1)] assms(3)]
  obtain e where e: "map_of (entries c) k = Some e" "l \<in> set (e_leases e)" by blast
  then have "e_leases e \<noteq> []" by auto
  with e(1) assms(2) show ?thesis by (simp add: sheds_def)
qed

lemma end_consumer_inv:
  fixes i j :: nat
  assumes inv: "cache_inv c" and d: "d = snd (end_consumer i c)"
  shows "cache_inv d \<and> (j \<noteq> i \<longrightarrow> lease_table d j = lease_table c j) \<and> (j \<noteq> i \<longrightarrow> lease_table c j l = Some k \<longrightarrow>
      map_option content (map_of (entries d) k) = map_option content (map_of (entries c) k))"
proof (cases "map_of (consumers c) i")
  case None
  then show ?thesis using inv by (simp add: end_consumer_def d)
next
  case (Some r)
  then obtain c1 where c1: "release_all i (map fst (c_leases r)) c = Inr c1" "cache_inv c1"
      and t1: "lease_table c1 = (lease_table c)(i := (\<lambda>l. if l \<in> set (map fst (c_leases r)) then None else lease_table c i l))"
      and k1: "\<And>k. map_option content (map_of (entries c1) k) = map_option content (map_of (entries c) k)"
    using release_all_inv [OF inv, of i "map fst (c_leases r)"] by blast
  define c2 where "c2 = abort_generated i (entries c1) c1"
  note c2 = abort_all_generated [OF c1(2) c2_def]
  have d: "d = c2\<lparr>consumers := AList.delete i (consumers c2)\<rparr>" by (simp add: d end_consumer_def Some c1(1) c2_def Let_def)
  have empty: "lease_table c2 i l = None" for l
    using Some by (auto simp: sheds_lease_table [OF c2(2)] t1 lease_table_def map_of_eq_None_iff)
  note r = retire_inv [OF c2(1) empty c2(3) d]
  have "map_option content (map_of (entries d) k) = map_option content (map_of (entries c) k)"
    if "lease_table c j l = Some k" "j \<noteq> i"
    using sheds_leased [OF c1(2) c2(2), of j l k] that by (simp add: t1 k1 d)
  with r show ?thesis by (auto simp: sheds_lease_table [OF c2(2)] t1)
qed

text \<open>
  \<open>keeps i l c d\<close>: a lease \<open>l\<close> that the consumer \<open>i\<close> holds in \<open>c\<close> it holds in \<open>d\<close> too, on the same entry,
  whose content has not changed.
\<close>

definition keeps :: "nat \<Rightarrow> nat \<Rightarrow> input_cache \<Rightarrow> input_cache \<Rightarrow> bool" where
  "keeps i l c d \<longleftrightarrow> (\<forall>k. lease_table c i l = Some k \<longrightarrow> lease_table d i l = Some k \<and>
     map_option content (map_of (entries d) k) = map_option content (map_of (entries c) k))"

lemma keeps_refl [simp]: "keeps i l c c"
  by (simp add: keeps_def)

lemma keeps_trans: "keeps i l c d \<Longrightarrow> keeps i l d e \<Longrightarrow> keeps i l c e"
  by (simp add: keeps_def)

lemma keeps_bump [simp]: "keeps i l c (bump k n d) = keeps i l c d" "keeps i l (bump k n c) d = keeps i l c d"
  by (simp_all add: keeps_def lease_table_def)

lemma sheds_keeps: "cache_inv c \<Longrightarrow> sheds c d \<Longrightarrow> keeps i l c d"
  unfolding keeps_def by (simp add: sheds_leased [of c d i l] sheds_lease_table [of c d])

lemma entry_bytes_nonneg: "cache_inv c \<Longrightarrow> map_of (entries c) k = Some e \<Longrightarrow> 0 \<le> e_bytes e"
  using cache_invD(3) by (fastforce simp: entries_ok_def list_all_iff dest!: map_of_SomeD)

lemma move_to_end_map: "map_of (move_to_end k e es) = (map_of es)(k \<mapsto> e)"
  by (auto simp: move_to_end_def map_add_def fun_eq_iff delete_conv' split: option.split)

lemma move_to_end_length: "map_of es k = Some e0 \<Longrightarrow> length (move_to_end k e es) \<le> length es"
  by (induction es) (auto simp: move_to_end_def length_delete_le le_SucI split: if_splits)

lemma tier_bytes_move: "distinct (map fst es) \<Longrightarrow> map_of es k = Some e0 \<Longrightarrow>
    tier_bytes t (move_to_end k e es) = tier_bytes t es - share t e0 + share t e"
  by (simp add: move_to_end_def tier_bytes_delete)

lemma take_lease_inv:
  assumes inv: "cache_inv c" and r: "map_of (consumers c) i = Some r" and e: "map_of (entries c) k = Some e" "ready_entry e"
    and fits: "copied (map_of (entries c)) (c_leases r) + e_bytes e \<le> copy_limit r"
  shows "cache_inv (take_lease i r k e c)" "keeps j l c (take_lease i r k e c)"
proof -
  let ?n = "next_token c" and ?d = "take_lease i r k e c"
  note ok = cache_invD(4) [OF inv] and fresh = lease_ok_fresh(2) [OF cache_invD(4) [OF inv]]
  have M: "map_of (entries ?d) = (map_of (entries c))(k \<mapsto> e\<lparr>e_leases := ?n # e_leases e\<rparr>)"
    by (simp add: take_lease_def Let_def move_to_end_map)
  have N: "next_token ?d = Suc ?n" and C: "consumers ?d = AList.update i (r\<lparr>c_leases := AList.update ?n k (c_leases r)\<rparr>) (consumers c)"
    by (simp_all add: take_lease_def Let_def)
  have D: "dom (map_of (consumers ?d)) = dom (map_of (consumers c))" using r by (auto simp: C update_conv')
  have L: "lease_table ?d j l = (if j = i \<and> l = ?n then Some k else lease_table c j l)" for j l
    using r by (simp add: lease_table_def C update_conv')
  have cont: "map_option content (map_of (entries ?d) m) = map_option content (map_of (entries c) m)" for m
    using e(1) by (simp add: M)
  show "keeps j l c ?d" using fresh by (auto simp: keeps_def L cont)
  have "leases_inv ?d" unfolding leases_inv_def D N using r by (intro lease_ok_take [OF ok e _ L M]) blast
  moreover have "space_inv ?d"
  proof (rule space_inv_shrink [OF cache_invD(1) [OF inv]])
    let ?es = "move_to_end k (e\<lparr>e_leases := ?n # e_leases e\<rparr>) (entries c)"
    show "entries_ok ?es" using cache_invD(3) [OF inv] entry_bytes_nonneg [OF inv e(1)] by (intro entries_ok_move) simp_all
    show "tier_bytes t ?es \<le> tier_bytes t (entries c)" for t
      using tier_bytes_move [OF _ e(1), of t] cache_invD(3) [OF inv] by (simp add: entries_ok_def)
  qed (simp_all add: take_lease_def Let_def move_to_end_length [OF e(1)])
  moreover have "copies_inv ?d"
  proof -
    have same: "copied (map_of (entries ?d)) ls = copied (map_of (entries c)) ls" for ls
      using cont content_bytes by (intro copied_cong) blast
    have "?n \<notin> fst ` set (c_leases r)" using fresh [of i] r by (simp add: lease_table_def map_of_eq_None_iff)
    from copied_new [OF this] e(1) fits
    have "copied (map_of (entries c)) (AList.update ?n k (c_leases r)) \<le> copy_limit r" by simp
    with cache_invD(2) [OF inv] r show ?thesis by (auto simp: copies_inv_def C same update_conv' distinct_update)
  qed
  ultimately show "cache_inv ?d" by (simp add: cache_inv_def)
qed

lemma acquire_hit_inv:
  assumes inv: "cache_inv c" and r: "map_of (consumers c) i = Some r" and e: "map_of (entries c) k = Some e" "ready_entry e"
  shows "cache_inv (snd (acquire_hit i r k e c)) \<and> keeps j l c (snd (acquire_hit i r k e c))"
proof -
  note b = leased_bytes_value [OF inv r]
  show ?thesis
  proof (cases "copied (map_of (entries c)) (c_leases r) + e_bytes e > copy_limit r")
    case True
    with b inv show ?thesis by (simp add: acquire_hit_def)
  next
    case False
    then have fits: "copied (map_of (entries c)) (c_leases r) + e_bytes e \<le> copy_limit r" by simp
    with b take_lease_inv [OF inv r e fits] show ?thesis
      by (simp add: acquire_hit_def Let_def split: option.split)
  qed
qed

text \<open>An entry that no lease names can be put or replaced; the other entries keep their leases.\<close>

lemma put_entry_inv:
  assumes inv: "cache_inv c" and free: "\<And>i l. lease_table c i l \<noteq> Some k" and e: "e_leases e = []"
    and st: "settled (dom (map_of (consumers c))) e" and sp: "space_inv d"
    and d: "d = c\<lparr>entries := AList.update k e (entries c)\<rparr>"
  shows "cache_inv d \<and> keeps j l c d"
proof -
  have L: "lease_table d = lease_table c" by (simp add: d lease_table_def [abs_def])
  have M: "map_of (entries d) = (map_of (entries c))(k \<mapsto> e)" by (simp add: d update_conv')
  have other: "map_of (entries d) m = map_of (entries c) m" if "lease_table c i l = Some m" for i l m
    using that free unfolding M by (metis fun_upd_other)
  have "leases_inv d"
    unfolding leases_inv_def L M using lease_ok_put [OF cache_invD(4) [OF inv] free e st] by (simp add: d)
  moreover have "copies_inv d" using other by (intro copies_inv_entries [OF cache_invD(2) [OF inv]]) (simp_all add: d)
  ultimately show ?thesis using sp other by (simp add: cache_inv_def keeps_def L)
qed

lemma acquire_miss_inv:
  assumes inv: "cache_inv c" and i: "map_of (consumers c) i \<noteq> None" and k: "map_of (entries c) k = None" and n: "0 \<le> n"
  shows "cache_inv (snd (acquire_miss i k n c)) \<and> keeps j l c (snd (acquire_miss i k n c))"
proof -
  obtain ot d where ch: "choose_tier n [Ram, Disk] (bump ''misses'' 1 c) = (ot, d)" by (rule prod.exhaust)
  have bi: "cache_inv (bump ''misses'' 1 c)" using inv by simp
  then have d: "cache_inv d" "sheds (bump ''misses'' 1 c) d" using choose_tier_sheds [OF _ ch] by simp_all
  then have kd: "keeps j l c d" using sheds_keeps [OF bi d(2)] by simp
  show ?thesis
  proof (cases ot)
    case None
    with ch d(1) kd show ?thesis by (simp add: acquire_miss_def)
  next
    case (Some t)
    have room: "has_room t n d" using choose_tier_inv [OF cache_invD(1) [OF bi] ch] Some by simp
    let ?e = "\<lparr>e_bytes = n, e_tier = t, e_state = ''generating'', e_producer = i, e_leases = [], e_metadata = []\<rparr>"
    have kn: "map_of (entries d) k = None" using d(2) k by (metis bump_simps(1) domIff map_le_def sheds_def)
    then have k': "k \<notin> fst ` set (entries d)" by (simp add: map_of_eq_None_iff)
    have free: "lease_table d i' l' \<noteq> Some k" for i' l' using lease_ok_entry [OF cache_invD(4) [OF d(1)], of i' l' k] kn by auto
    have len: "length (AList.update k ?e (entries d)) = Suc (length (entries d))" by (rule update_length_new [OF k'])
    have "space_inv (d\<lparr>entries := AList.update k ?e (entries d)\<rparr>)"
      using cache_invD(1) [OF d(1)] room n len
      by (auto simp: space_inv_def has_room_def entries_ok_update tier_bytes_new [OF k'] share_def) (simp_all add: tier_used_def)
    then have "cache_inv (d\<lparr>entries := AList.update k ?e (entries d)\<rparr>) \<and> keeps j l d (d\<lparr>entries := AList.update k ?e (entries d)\<rparr>)"
      using d(2) i free
      by (intro put_entry_inv [OF d(1)])
        (auto simp: settled_def generating_by_def sheds_def same_frame_def domIff)
    with ch Some kd keeps_trans show ?thesis by (auto simp: acquire_miss_def)
  qed
qed

lemma cache_acquire_inv:
  assumes inv: "cache_inv c"
  shows "cache_inv (snd (acquire sha i identity sz late c)) \<and> keeps j l c (snd (acquire sha i identity sz late c))"
proof (cases "map_of (consumers c) i")
  case None
  then show ?thesis using inv by (simp add: acquire_def split: sum.split option.split)
next
  case (Some r)
  have hit: "ready_entry e" if "map_of (entries c) k = Some e" "e_state e \<noteq> ''generating''" for k e
    using lease_ok_state [OF cache_invD(4) [OF inv] that(1)] that(2) by (auto simp: settled_def generating_by_def)
  have "cache_inv (snd (acquire_hit i r k e c)) \<and> keeps j l c (snd (acquire_hit i r k e c))"
    if "map_of (entries c) k = Some e" "e_state e \<noteq> ''generating''" for k e
    using acquire_hit_inv [OF inv Some that(1) hit [OF that]] .
  with Some inv acquire_miss_inv [OF inv, of i] show ?thesis
    by (simp add: acquire_def split: sum.split option.split)
qed

lemma publish_inv:
  assumes inv: "cache_inv c"
  shows "cache_inv (snd (publish tb i k meta n c)) \<and> keeps j l c (snd (publish tb i k meta n c))"
proof (cases "map_of (entries c) k")
  case None
  then show ?thesis using inv by (simp add: publish_def)
next
  case (Some e)
  let ?e = "e\<lparr>e_bytes := n, e_metadata := meta, e_state := ''ready''\<rparr>"
  let ?d = "c\<lparr>entries := AList.update k ?e (entries c)\<rparr>"
  note ok = cache_invD(4) [OF inv]
  have put: "cache_inv ?d \<and> keeps j l c ?d" if a: "e_state e = ''generating''" "0 \<le> n" "n \<le> e_bytes e"
  proof (rule put_entry_inv [OF inv])
    have "\<not> ready_entry e" using a(1) by (simp add: ready_entry_def)
    then show "lease_table c i l \<noteq> Some k" "e_leases ?e = []" for i l
      using generating_unleased [OF ok Some] by simp_all
    show "space_inv ?d" using a by (intro space_inv_update [OF cache_invD(1) [OF inv] Some]) simp_all
  qed (simp_all add: settled_def ready_entry_def)
  show ?thesis using put inv Some by (simp add: publish_def Let_def split: option.split)
qed

lemma abort_entry_inv:
  assumes inv: "cache_inv c"
  shows "cache_inv (abort_entry i k c) \<and> keeps j l c (abort_entry i k c)"
proof (cases "\<exists>e. map_of (entries c) k = Some e \<and> generating_by i e")
  case True
  then obtain e where e: "map_of (entries c) k = Some e" "generating_by i e" by blast
  then have un: "e_leases e = []"
    using generating_unleased(1) [OF cache_invD(4) [OF inv]] by (simp add: generating_by_def ready_entry_def)
  have "abort_entry i k c = remove_entry k ''aborted'' c" using e by (simp add: abort_entry_def generating_by_def)
  then show ?thesis
    using remove_cache_inv [OF inv e(1) un] sheds_keeps [OF inv remove_sheds [OF e(1) un]] by simp
next
  case False
  then have "abort_entry i k c = c" by (auto simp: abort_entry_def generating_by_def split: option.split)
  then show ?thesis using inv by simp
qed

section \<open>Every request\<close>

definition cache_step :: "(json \<Rightarrow> string) \<Rightarrow> (json \<Rightarrow> nat) \<Rightarrow> request \<Rightarrow> input_cache \<Rightarrow> input_cache" where
  "cache_step sha text_bytes r c = snd (dispatch sha text_bytes r c)"

lemma begin_consumer_keeps: "cache_inv c \<Longrightarrow> keeps j l c (snd (begin_consumer v c))"
  using lease_ok_fresh(1) [OF cache_invD(4), of c]
  by (auto simp: begin_consumer_def keeps_def lease_table_def update_conv' split: option.splits)

lemma release_lease_keeps: "cache_inv c \<Longrightarrow> release_lease i l' c = Inr d \<Longrightarrow> (i, l') \<noteq> (j, l) \<Longrightarrow> keeps j l c d"
  using release_lease_inv(2) [of c i l' d] release_lease_inv(4) [of c i l' d] by (auto simp: keeps_def)

lemma end_consumer_keeps: "cache_inv c \<Longrightarrow> i \<noteq> j \<Longrightarrow> keeps j l c (snd (end_consumer i c))"
  using end_consumer_inv [OF _ refl, of c i j l] by (simp add: keeps_def)

lemma cache_step_inv: "cache_inv c \<Longrightarrow> cache_inv (cache_step sha tb r c)"
  using release_lease_inv(1) [of c] begin_consumer_inv [of c] end_consumer_inv [OF _ refl, of c] cache_acquire_inv [of c]
    publish_inv [of c] abort_entry_inv [of c]
  by (simp add: cache_step_def dispatch_def split: request.split sum.split)

lemma cache_step_keeps:
  "cache_inv c \<Longrightarrow> r \<noteq> Release_req j l \<Longrightarrow> r \<noteq> End_req j \<Longrightarrow> keeps j l c (cache_step sha tb r c)"
  using release_lease_keeps [of c _ _ _ j l] begin_consumer_keeps [of c j l] end_consumer_keeps [of c _ j l]
    cache_acquire_inv [of c _ _ _ _ _ j l] publish_inv [of c _ _ _ _ _ j l] abort_entry_inv [of c _ _ j l]
  by (auto simp: cache_step_def dispatch_def split: request.split sum.split)

lemma release_lease_limits: "release_lease i l c = Inr d \<Longrightarrow> capacity d = capacity c \<and> max_entries d = max_entries c"
  by (auto simp: release_lease_def Let_def split: option.splits)

lemma release_all_limits: "release_all i ls c = Inr d \<Longrightarrow> capacity d = capacity c \<and> max_entries d = max_entries c"
  by (induction ls arbitrary: c) (auto simp: bindE_Inr_iff dest: release_lease_limits)

lemma abort_generated_limits [simp]:
  "capacity (abort_generated i es c) = capacity c" "max_entries (abort_generated i es c) = max_entries c"
  by (induction es arbitrary: c) (simp_all add: abort_generated_def)

lemma end_consumer_limits:
  "capacity (snd (end_consumer i c)) = capacity c \<and> max_entries (snd (end_consumer i c)) = max_entries c"
  using release_all_limits [of i _ c] by (simp add: end_consumer_def Let_def split: option.split sum.split)

lemma acquire_hit_limits:
  "capacity (snd (acquire_hit i r k e c)) = capacity c \<and> max_entries (snd (acquire_hit i r k e c)) = max_entries c"
  by (simp add: acquire_hit_def take_lease_def Let_def split: sum.split option.split)

lemma acquire_miss_limits:
  assumes "cache_inv c"
  shows "capacity (snd (acquire_miss i k n c)) = capacity c \<and> max_entries (snd (acquire_miss i k n c)) = max_entries c"
proof -
  obtain ot d where ch: "choose_tier n [Ram, Disk] (bump ''misses'' 1 c) = (ot, d)" by (rule prod.exhaust)
  have "capacity d = capacity c \<and> max_entries d = max_entries c"
    using choose_tier_sheds [OF _ ch] assms by (simp add: sheds_def same_frame_def)
  with ch show ?thesis by (simp add: acquire_miss_def split: option.split)
qed

lemma acquire_limits:
  "cache_inv c \<Longrightarrow> capacity (snd (acquire sha i v sz late c)) = capacity c \<and> max_entries (snd (acquire sha i v sz late c)) = max_entries c"
  by (simp add: acquire_def acquire_hit_limits acquire_miss_limits split: sum.split option.split)

lemma cache_step_limits:
  "cache_inv c \<Longrightarrow> capacity (cache_step sha tb r c) = capacity c \<and> max_entries (cache_step sha tb r c) = max_entries c"
  using acquire_limits [of c] end_consumer_limits [of _ c] release_lease_limits [of _ _ c]
  by (simp add: cache_step_def dispatch_def begin_consumer_def publish_def abort_entry_def Let_def
      split: request.split sum.split option.split)

definition cache_state :: "input_cache \<Rightarrow> input_cache \<Rightarrow> bool" where
  "cache_state c0 c \<longleftrightarrow> cache_inv c \<and> capacity c = capacity c0 \<and> max_entries c = max_entries c0"

interpretation cache_system: op_system "cache_step sha tb" "cache_state c0" for sha tb c0
  by unfold_locales (simp add: cache_state_def cache_step_inv cache_step_limits)

lemma cache_reachable:
  "InputCache ram disk m soft = Inr c0 \<Longrightarrow> cache_state c0 (fold (cache_step sha tb) reqs c0)"
  by (rule cache_system.inv_run) (simp add: cache_state_def InputCache_inv)

lemma run_keeps:
  "cache_inv c \<Longrightarrow> \<forall>r\<in>set reqs. r \<noteq> Release_req j l \<and> r \<noteq> End_req j \<Longrightarrow> keeps j l c (fold (cache_step sha tb) reqs c)"
proof (induction reqs arbitrary: c)
  case (Cons r reqs)
  then show ?case using cache_step_keeps [of c r j l sha tb] cache_step_inv [of c sha tb r] keeps_trans by simp
qed simp

text \<open>
  C15. For every sequence of client requests, successful or not, the bytes of the entries of a tier,
  reservations included, never exceed the tier's configured capacity, the number of entries never exceeds
  the configured limit, and the entries a consumer holds leases on never hold more bytes than the copy
  budget it registered with.
\<close>

theorem cache_bounded:
  assumes "InputCache ram disk m soft = Inr c0" "c = fold (cache_step sha tb) reqs c0"
  shows "tier_used Ram c \<le> ram \<and> tier_used Disk c \<le> disk \<and> int (length (entries c)) \<le> m \<and>
    (\<forall>i r. map_of (consumers c) i = Some r \<longrightarrow> (\<exists>b. leased_bytes c r = Inr b \<and> b \<le> copy_limit r))"
proof (intro conjI allI impI)
  have st: "cache_state c0 c" using cache_reachable [OF assms(1)] assms(2) by simp
  then have inv: "cache_inv c" by (simp add: cache_state_def)
  have "tier_used t c \<le> capacity c0 t" for t
    using st cache_invD(1) [OF inv] by (simp add: space_inv_def cache_state_def)
  from this [of Ram] this [of Disk] show "tier_used Ram c \<le> ram" "tier_used Disk c \<le> disk"
    using assms(1) by (auto simp: InputCache_def split: if_splits)
  have "length (entries c) \<le> max_entries c0" using st cache_invD(1) [OF inv] by (simp add: space_inv_def cache_state_def)
  then show "int (length (entries c)) \<le> m" using assms(1) by (auto simp: InputCache_def split: if_splits)
  show "\<exists>b. leased_bytes c r = Inr b \<and> b \<le> copy_limit r" if "map_of (consumers c) i = Some r" for i r
    using leased_bytes_value [OF inv that] cache_invD(2) [OF inv] that by (auto simp: copies_inv_def)
qed

text \<open>
  C27. While a consumer holds a lease on an entry, and until that consumer releases the lease or is
  retired, no sequence of requests of any clients, evictions for other reservations included, removes
  the entry or changes its bytes, its tier or its metadata: the entry stays published and the consumer
  keeps its lease.
\<close>

theorem lease_pins_entry:
  assumes "InputCache ram disk m soft = Inr c0" "c = fold (cache_step sha tb) before c0" "lease_table c i l = Some k"
    and "\<forall>r\<in>set later. r \<noteq> Release_req i l \<and> r \<noteq> End_req i" "d = fold (cache_step sha tb) later c"
  shows "lease_table d i l = Some k \<and> (\<exists>e e'. map_of (entries c) k = Some e \<and> map_of (entries d) k = Some e' \<and>
    e_state e = ''ready'' \<and> e_state e' = ''ready'' \<and>
    e_bytes e' = e_bytes e \<and> e_tier e' = e_tier e \<and> e_metadata e' = e_metadata e)"
proof -
  have inv: "cache_inv c" using cache_reachable [OF assms(1)] assms(2) by (simp add: cache_state_def)
  from lease_ok_entry [OF cache_invD(4) [OF inv] assms(3)]
  obtain e where e: "map_of (entries c) k = Some e" "ready_entry e" by blast
  have "keeps i l c d" using run_keeps [OF inv assms(4)] assms(5) by simp
  then have "lease_table d i l = Some k" "map_option content (map_of (entries d) k) = Some (content e)"
    using assms(3) e(1) by (simp_all add: keeps_def)
  with e show ?thesis by (auto simp: content_def ready_entry_def)
qed

text \<open>
  A request that the cache rejects with a \<^verbatim>\<open>ValueError\<close> or a \<^verbatim>\<open>RuntimeError\<close> (an unknown or retired
  consumer, a malformed identity, a negative or ill-typed reservation or budget, a publication by another
  consumer, of a published entry, of too many bytes or with too much metadata, an unknown operation, a
  cancelled wait) has no effect on the cache.
\<close>

theorem rejected_request_no_effect:
  assumes "dispatch sha tb r c = (Inl e, d)" "\<nexists>k. e = KeyError k"
  shows "d = c"
  using assms
  by (auto simp: dispatch_def begin_consumer_def acquire_def acquire_hit_def acquire_miss_def publish_def end_consumer_def
      Let_def split: if_split_asm request.splits option.splits sum.splits prod.splits)

section \<open>Witnesses\<close>

definition demo_identity :: dict where
  "demo_identity = map (\<lambda>k. (k, if k = ''namespace'' then JStr ''development'' else JNull)) identity_fields"

definition demo_meta :: dict where
  "demo_meta = [(''publication_copy_bytes'', JInt 0), (''publication_copy_seconds'', JInt 0), (''generation_seconds'', JInt 0)]"

definition demo_before :: "request list" where
  "demo_before = [Begin (JInt 5), Acquire_req 0 demo_identity (JInt 4) False, Publish_req 0 ''k'' demo_meta 3,
     Acquire_req 0 demo_identity (JInt 4) False]"

definition demo_later :: "request list" where
  "demo_later = [Begin (JInt 9), Release_req 2 1, End_req 2, Abort_req 0 ''k'']"

abbreviation demo_key :: "json \<Rightarrow> string" where
  "demo_key \<equiv> \<lambda>_. ''k''"

abbreviation demo_size :: "json \<Rightarrow> nat" where
  "demo_size \<equiv> \<lambda>_. 2"

lemma demo_cache_key: "cache_key demo_key demo_identity = Inr ''k''"
proof -
  have "keys_are demo_identity identity_fields" by (simp add: keys_are_def demo_identity_def image_image)
  moreover have "dget demo_identity ''namespace'' = JStr ''development''"
    unfolding dget_def demo_identity_def map_of_map_restrict by (simp add: identity_fields_def)
  ultimately show ?thesis by (simp add: cache_key_def)
qed

definition demo_view :: "input_cache \<Rightarrow> (string \<times> cache_entry) list \<Rightarrow> (nat \<times> string) list \<Rightarrow> nat \<Rightarrow> bool" where
  "demo_view c es ls n \<longleftrightarrow> capacity c Ram = 10 \<and> max_entries c = 4 \<and> entries c = es \<and>
     consumers c = [(0, \<lparr>copy_limit = 5, c_leases = ls\<rparr>)] \<and> next_token c = n"

definition demo_entry :: "int \<Rightarrow> string \<Rightarrow> dict \<Rightarrow> nat list \<Rightarrow> cache_entry" where
  "demo_entry n st meta ls = \<lparr>e_bytes = n, e_tier = Ram, e_state = st, e_producer = 0, e_leases = ls, e_metadata = meta\<rparr>"

lemma demo_step1:
  "InputCache 10 0 4 0 = Inr c \<Longrightarrow> demo_view (cache_step demo_key demo_size (Begin (JInt 5)) c) [] [] 1"
  by (auto simp: InputCache_def cache_step_def dispatch_def known_def begin_consumer_def demo_view_def)

lemma demo_step2: "demo_view c [] [] 1 \<Longrightarrow>
    demo_view (cache_step demo_key demo_size (Acquire_req 0 demo_identity (JInt 4) False) c) [(''k'', demo_entry 4 ''generating'' [] [])] [] 1"
  by (simp add: demo_view_def cache_step_def dispatch_def known_def acquire_def demo_cache_key acquire_miss_def space_def
      has_room_def tier_used_empty demo_entry_def)

lemma demo_step3: "demo_view c [(''k'', demo_entry 4 ''generating'' [] [])] [] 1 \<Longrightarrow>
    demo_view (cache_step demo_key demo_size (Publish_req 0 ''k'' demo_meta 3) c) [(''k'', demo_entry 3 ''ready'' demo_meta [])] [] 1"
  by (simp add: demo_view_def cache_step_def dispatch_def known_def publish_def demo_entry_def Let_def split: option.split)

lemma demo_step4: "demo_view c [(''k'', demo_entry 3 ''ready'' demo_meta [])] [] 1 \<Longrightarrow>
    demo_view (cache_step demo_key demo_size (Acquire_req 0 demo_identity (JInt 4) False) c)
      [(''k'', demo_entry 3 ''ready'' demo_meta [1])] [(1, ''k'')] 2"
  by (simp add: demo_view_def cache_step_def dispatch_def known_def acquire_def demo_cache_key acquire_hit_def leased_bytes_def
      take_lease_def move_to_end_def demo_entry_def Let_def split: option.split)

lemma demo_steps:
  "InputCache 10 0 4 0 = Inr c0 \<Longrightarrow> lease_table (fold (cache_step demo_key demo_size) demo_before c0) 0 1 = Some ''k''"
  using demo_step4 [OF demo_step3 [OF demo_step2 [OF demo_step1]], of c0]
  by (simp add: demo_before_def lease_table_def) (simp add: demo_view_def)

lemma demo_cache_ok: "case InputCache 10 0 4 0 of Inl _ \<Rightarrow> False
   | Inr c0 \<Rightarrow> lease_table (fold (cache_step demo_key demo_size) demo_before c0) 0 1 = Some ''k''"
  using demo_steps by (cases "InputCache 10 0 4 0") (simp_all add: InputCache_def)

theorem cache_bounded_witness:
  "\<exists>c0. InputCache 10 0 4 0 = Inr c0 \<and> tier_used Ram (fold (cache_step demo_key demo_size) demo_before c0) \<le> 10"
proof -
  obtain c0 where c0: "InputCache 10 0 4 0 = Inr c0" using demo_cache_ok by (auto split: sum.splits)
  from cache_bounded [OF c0 refl, of demo_key demo_size demo_before] c0 show ?thesis by auto
qed

theorem lease_pins_entry_witness:
  "\<exists>c0. InputCache 10 0 4 0 = Inr c0 \<and>
    lease_table (fold (cache_step demo_key demo_size) demo_later (fold (cache_step demo_key demo_size) demo_before c0)) 0 1 = Some ''k''"
proof -
  obtain c0 where c0: "InputCache 10 0 4 0 = Inr c0"
      and l: "lease_table (fold (cache_step demo_key demo_size) demo_before c0) 0 1 = Some ''k''"
    using demo_cache_ok by (auto split: sum.splits)
  have "\<forall>r\<in>set demo_later. r \<noteq> Release_req 0 1 \<and> r \<noteq> End_req 0" by (simp add: demo_later_def)
  from lease_pins_entry [OF c0 refl l this refl] c0 show ?thesis by auto
qed

theorem rejected_request_no_effect_witness:
  "\<exists>c0 d. InputCache 10 0 4 0 = Inr c0 \<and>
    dispatch demo_key demo_size (Other_req 3 ''x'') c0 = (Inl (ValueError ''unknown or retired cache consumer''), d) \<and> d = c0"
proof -
  obtain c0 where c0: "InputCache 10 0 4 0 = Inr c0" using demo_cache_ok by (auto split: sum.splits)
  then have "dispatch demo_key demo_size (Other_req 3 ''x'') c0 = (Inl (ValueError ''unknown or retired cache consumer''), c0)"
    by (auto simp: InputCache_def dispatch_def known_def split: if_splits)
  with rejected_request_no_effect [OF this] c0 show ?thesis by blast
qed

end
