(* ===== verification/Workloads.thy ===== *)
theory Workloads
  imports Transition "HOL-Library.AList" "HOL-Library.Multiset"
begin

text \<open>
  Finite task-group scheduling, \<^verbatim>\<open>rollout_manager/workloads.py\<close>: the pinned sample plan of a suite, the
  bounded group schedule the episode workers take from, and the coverage report of externally admitted
  samples. The shuffle of \<^verbatim>\<open>random.Random(seed)\<close> and the digest bytes of SHA-256 are arguments. A worker
  that waits makes one pass of the loop of \<^verbatim>\<open>take\<close> per step. Times are integers of nanoseconds and their
  quotients by \<^verbatim>\<open>1e9\<close> exact rationals.
\<close>

section \<open>Suite plan\<close>

record rollout_tag =
  group_id :: string
  pass_index :: nat
  sample_index :: nat
  group_size :: int
  sampling_seed :: nat

record suite_case =
  task_id :: string
  request_fields :: dict
  rollout_of :: "rollout_tag option"

definition from_bytes_big :: "nat list \<Rightarrow> nat" where
  "from_bytes_big bs = foldl (\<lambda>a b. a * 256 + b) 0 bs"

definition sample_identity :: "int \<Rightarrow> nat \<Rightarrow> string \<Rightarrow> nat \<Rightarrow> string" where
  "sample_identity seed repeat task sample =
     show_int seed @ '':'' @ show_nat repeat @ '':'' @ task @ '':'' @ show_nat sample"

definition sample_seed :: "(string \<Rightarrow> nat list) \<Rightarrow> int \<Rightarrow> nat \<Rightarrow> string \<Rightarrow> nat \<Rightarrow> nat" where
  "sample_seed sha seed repeat task sample = from_bytes_big (take 4 (sha (sample_identity seed repeat task sample)))"

definition group_name :: "nat \<Rightarrow> nat \<Rightarrow> string" where
  "group_name repeat ordinal = ''p'' @ show_nat repeat @ ''-task'' @ show_nat ordinal"

definition make_sample ::
  "(string \<Rightarrow> nat list) \<Rightarrow> int \<Rightarrow> int \<Rightarrow> nat \<Rightarrow> nat \<Rightarrow> suite_case \<Rightarrow> nat \<Rightarrow> suite_case" where
  "make_sample sha seed rollouts repeat ordinal c sample =
     (let s = sample_seed sha seed repeat (task_id c) sample in
      c\<lparr>request_fields := dset (request_fields c) ''seed'' (JInt (int s)),
        rollout_of := Some \<lparr>group_id = group_name repeat ordinal, pass_index = repeat, sample_index = sample,
                             group_size = rollouts, sampling_seed = s\<rparr>\<rparr>)"

definition make_group ::
  "(string \<Rightarrow> nat list) \<Rightarrow> int \<Rightarrow> int \<Rightarrow> suite_case list \<Rightarrow> nat \<Rightarrow> nat \<Rightarrow> string \<times> suite_case list" where
  "make_group sha seed rollouts cases repeat ordinal =
     (group_name repeat ordinal,
      map (make_sample sha seed rollouts repeat ordinal (cases ! ordinal)) [0..<nat rollouts])"

definition suite_groups ::
  "(int \<Rightarrow> nat list \<Rightarrow> nat list) \<Rightarrow> (string \<Rightarrow> nat list) \<Rightarrow> suite_case list \<Rightarrow> int \<Rightarrow> int \<Rightarrow> int \<Rightarrow>
     (string \<times> suite_case list) list result" where
  "suite_groups shuffle sha cases rollouts passes seed =
     (if cases = [] \<or> \<not> distinct (map task_id cases) then Inl (ValueError ''full-suite cases must have unique task IDs'')
      else if min rollouts passes < 1 then Inl (ValueError ''rollout and pass counts must be positive'')
      else Inr (concat (map (\<lambda>repeat. map (make_group sha seed rollouts cases repeat)
                 (shuffle (seed + int repeat) [0..<length cases])) [0..<nat passes])))"

section \<open>Group schedule\<close>

record sample_result =
  res_task :: string
  res_rollout :: rollout_tag
  res_started :: int
  res_finished :: int
  res_verified :: "json option"
  res_final :: "json option"
  res_job :: string

record active_group =
  remaining :: int
  group_results :: "sample_result list"

record finished_group =
  fin_group :: string
  fin_task :: string
  fin_pass :: nat
  fin_results :: "sample_result list"

record group_schedule =
  gs_pending :: "(string \<times> suite_case list) list"
  gs_ready :: "suite_case list"
  gs_active :: "(string \<times> active_group) list"
  gs_finished :: "finished_group list"
  gs_max_groups :: int
  gs_expected_groups :: nat
  gs_expected_episodes :: nat

definition GroupSchedule :: "(string \<times> suite_case list) list \<Rightarrow> int \<Rightarrow> group_schedule result" where
  "GroupSchedule groups max_groups =
     (if max_groups < 1 then Inl (ValueError ''at least one active group is required'')
      else Inr \<lparr>gs_pending = groups, gs_ready = [], gs_active = [], gs_finished = [], gs_max_groups = max_groups,
                gs_expected_groups = length groups,
                gs_expected_episodes = sum_list (map (\<lambda>g. length (snd g)) groups)\<rparr>)"

text \<open>The inner loop of \<^verbatim>\<open>take\<close>: groups are opened in order while the bound allows.\<close>

fun open_groups ::
  "(string \<times> suite_case list) list \<Rightarrow> suite_case list \<Rightarrow> (string \<times> active_group) list \<Rightarrow> int \<Rightarrow>
     (string \<times> suite_case list) list \<times> suite_case list \<times> (string \<times> active_group) list" where
  "open_groups [] ready active n = ([], ready, active)"
| "open_groups (g # pending) ready active n =
     (if int (length active) < n
      then open_groups pending (ready @ snd g)
             (AList.update (fst g) \<lparr>remaining = int (length (snd g)), group_results = []\<rparr> active) n
      else (g # pending, ready, active))"

datatype take_outcome = Took suite_case | Exhausted | Cancelled_take | Wait_take

definition take_pass :: "bool \<Rightarrow> group_schedule \<Rightarrow> take_outcome \<times> group_schedule" where
  "take_pass cancelled s =
     (if cancelled then (Cancelled_take, s)
      else
        let (p, r, a) = open_groups (gs_pending s) (gs_ready s) (gs_active s) (gs_max_groups s);
            s = s\<lparr>gs_pending := p, gs_ready := r, gs_active := a\<rparr>
        in case r of
             c # r' \<Rightarrow> (Took c, s\<lparr>gs_ready := r'\<rparr>)
           | [] \<Rightarrow> if a = [] then (Exhausted, s) else (Wait_take, s))"

definition complete_case :: "suite_case \<Rightarrow> sample_result \<Rightarrow> group_schedule \<Rightarrow> group_schedule result" where
  "complete_case c res s =
     (case rollout_of c of
        None \<Rightarrow> Inl (KeyError ''rollout'')
      | Some tag \<Rightarrow>
          case map_of (gs_active s) (group_id tag) of
            None \<Rightarrow> Inl (KeyError (group_id tag))
          | Some item \<Rightarrow>
              let item = \<lparr>remaining = remaining item - 1, group_results = group_results item @ [res]\<rparr>
              in if remaining item = 0
                 then Inr (s\<lparr>gs_finished := gs_finished s @ [\<lparr>fin_group = group_id tag, fin_task = task_id c,
                              fin_pass = pass_index tag, fin_results = group_results item\<rparr>],
                            gs_active := AList.delete (group_id tag) (gs_active s)\<rparr>)
                 else Inr (s\<lparr>gs_active := AList.update (group_id tag) item (gs_active s)\<rparr>))"

section \<open>Reports\<close>

definition verified_flag :: "sample_result \<Rightarrow> bool" where
  "verified_flag r =
     (case res_verified r of Some v \<Rightarrow> truthy v
      | None \<Rightarrow> (case res_final r of Some v \<Rightarrow> truthy v | None \<Rightarrow> False))"

record group_row =
  row_group :: string
  row_task :: string
  row_pass :: nat
  row_episodes :: nat
  row_verified :: nat
  row_wall :: rat
  row_spread :: rat
  row_jobs :: "string list"

definition nano_seconds :: "int \<Rightarrow> rat" where
  "nano_seconds n = of_int n / 1000000000"

text \<open>\<^verbatim>\<open>min\<close> and \<^verbatim>\<open>max\<close> of a list, which is not empty in a report.\<close>

definition least :: "int list \<Rightarrow> int" where
  "least xs = foldl min (hd xs) xs"

definition greatest :: "int list \<Rightarrow> int" where
  "greatest xs = foldl max (hd xs) xs"

definition report_row :: "string \<Rightarrow> string \<Rightarrow> nat \<Rightarrow> sample_result list \<Rightarrow> group_row result" where
  "report_row g t p rs =
     (if rs = [] then Inl (ValueError ''min() arg is an empty sequence'')
      else let first = least (map res_started rs); last = greatest (map res_finished rs) in
        Inr \<lparr>row_group = g, row_task = t, row_pass = p, row_episodes = length rs,
             row_verified = length (filter verified_flag rs), row_wall = nano_seconds (last - first),
             row_spread = nano_seconds (last - least (map res_finished rs)), row_jobs = map res_job rs\<rparr>)"

record coverage =
  cov_expected_groups :: nat
  cov_expected_episodes :: nat
  cov_completed :: nat
  cov_pending :: nat
  cov_incomplete :: "(string \<times> int \<times> nat) list"
  cov_rows :: "group_row list"

definition schedule_summary :: "group_schedule \<Rightarrow> coverage result" where
  "schedule_summary s =
     bindE (mapE (\<lambda>f. report_row (fin_group f) (fin_task f) (fin_pass f) (fin_results f)) (gs_finished s))
       (\<lambda>rows. Inr \<lparr>cov_expected_groups = gs_expected_groups s, cov_expected_episodes = gs_expected_episodes s,
          cov_completed = length rows, cov_pending = length (gs_pending s),
          cov_incomplete = map (\<lambda>(g, a). (g, remaining a, length (group_results a))) (gs_active s), cov_rows = rows\<rparr>)"

text \<open>One pass of the first loop of \<^verbatim>\<open>external_schedule_coverage\<close>.\<close>

definition observe ::
  "(string \<times> suite_case list) list \<Rightarrow> sample_result \<Rightarrow> (string \<times> nat) list \<times> (string \<Rightarrow> sample_result list) \<Rightarrow>
     ((string \<times> nat) list \<times> (string \<Rightarrow> sample_result list)) result" where
  "observe groups r st =
     (let tag = res_rollout r; g = group_id tag; who = (g, sample_index tag) in
      case map_of (rev groups) g of
        None \<Rightarrow> Inl (ValueError ''unexpected or duplicate externally scheduled sample'')
      | Some samples \<Rightarrow>
          if who \<in> set (fst st) then Inl (ValueError ''unexpected or duplicate externally scheduled sample'')
          else case find (\<lambda>c. map_option sample_index (rollout_of c) = Some (sample_index tag)) samples of
              None \<Rightarrow> Inl (ValueError ''external driver changed pinned sample identity'')
            | Some c \<Rightarrow>
                if res_task r \<noteq> task_id c \<or> Some tag \<noteq> rollout_of c
                then Inl (ValueError ''external driver changed pinned sample identity'')
                else Inr (who # fst st, (snd st)(g := snd st g @ [r])))"

fun observe_all ::
  "(string \<times> suite_case list) list \<Rightarrow> sample_result list \<Rightarrow> (string \<times> nat) list \<times> (string \<Rightarrow> sample_result list) \<Rightarrow>
     ((string \<times> nat) list \<times> (string \<Rightarrow> sample_result list)) result" where
  "observe_all groups [] st = Inr st"
| "observe_all groups (r # rs) st = bindE (observe groups r st) (observe_all groups rs)"

definition first_pass :: "suite_case list \<Rightarrow> (string \<times> nat) result" where
  "first_pass samples =
     (case samples of
        [] \<Rightarrow> Inl IndexError
      | c # _ \<Rightarrow> (case rollout_of c of None \<Rightarrow> Inl (KeyError ''rollout'') | Some tag \<Rightarrow> Inr (task_id c, pass_index tag)))"

text \<open>The second loop, over the groups in order: completed rows, incomplete groups, pending count.\<close>

fun classify ::
  "(string \<Rightarrow> sample_result list) \<Rightarrow> (string \<times> suite_case list) list \<Rightarrow>
     (group_row list \<times> (string \<times> int \<times> nat) list \<times> nat) result" where
  "classify obs [] = Inr ([], [], 0)"
| "classify obs ((g, samples) # rest) =
     (let rs = obs g in
      if rs = [] then bindE (classify obs rest) (\<lambda>(rows, inc, p). Inr (rows, inc, Suc p))
      else if length rs < length samples
      then bindE (classify obs rest)
             (\<lambda>(rows, inc, p). Inr (rows, (g, int (length samples) - int (length rs), length rs) # inc, p))
      else bindE (first_pass samples) (\<lambda>(t, ps). bindE (report_row g t ps rs)
             (\<lambda>row. bindE (classify obs rest) (\<lambda>(rows, inc, p). Inr (row # rows, inc, p)))))"

definition external_schedule_coverage ::
  "(string \<times> suite_case list) list \<Rightarrow> sample_result list \<Rightarrow> coverage result" where
  "external_schedule_coverage groups results =
     bindE (observe_all groups results ([], \<lambda>_. []))
       (\<lambda>(_, obs). bindE (classify obs groups)
         (\<lambda>(rows, inc, p). Inr \<lparr>cov_expected_groups = length groups,
            cov_expected_episodes = sum_list (map (\<lambda>g. length (snd g)) groups), cov_completed = length rows,
            cov_pending = p, cov_incomplete = inc, cov_rows = rows\<rparr>))"

section \<open>The plan is complete and independent of the scheduling order\<close>

lemma group_name_inj: "group_name p i = group_name q j \<Longrightarrow> p = q \<and> i = j"
proof -
  assume "group_name p i = group_name q j"
  then have "show_nat p @ CHR ''-'' # ''task'' @ show_nat i = show_nat q @ CHR ''-'' # ''task'' @ show_nat j"
    by (simp add: group_name_def)
  from show_nat_delimited [OF this] show "p = q \<and> i = j" by (simp add: is_digit_def show_nat_inj)
qed

definition planned_samples :: "(string \<Rightarrow> nat list) \<Rightarrow> suite_case list \<Rightarrow> int \<Rightarrow> int \<Rightarrow> int \<Rightarrow> suite_case list" where
  "planned_samples sha cases rollouts passes seed =
     [make_sample sha seed rollouts p i (cases ! i) k. p \<leftarrow> [0..<nat passes], i \<leftarrow> [0..<length cases], k \<leftarrow> [0..<nat rollouts]]"

lemma concat_concat_map: "concat (concat (map f xs)) = concat (map (\<lambda>x. concat (f x)) xs)"
  by (induction xs) simp_all

lemma mset_concat_map: "(\<And>x. x \<in> set xs \<Longrightarrow> mset (f x) = mset (g x)) \<Longrightarrow> mset (concat (map f xs)) = mset (concat (map g xs))"
  by (induction xs) auto

lemma mset_concat_perm: "mset xs = mset ys \<Longrightarrow> mset (concat (map f xs)) = mset (concat (map f ys))"
  by (simp add: mset_concat flip: sum_mset_sum_list)

lemma suite_groups_Inr:
  assumes "suite_groups shuffle sha cases rollouts passes seed = Inr gs"
  shows "distinct (map task_id cases)" "1 \<le> rollouts" "1 \<le> passes"
    and "gs = concat (map (\<lambda>p. map (make_group sha seed rollouts cases p) (shuffle (seed + int p) [0..<length cases])) [0..<nat passes])"
  using assms by (auto simp: suite_groups_def split: if_splits)

lemma make_group_simps [simp]:
  "fst (make_group sha seed rollouts cases p i) = group_name p i"
  "snd (make_group sha seed rollouts cases p i) = map (make_sample sha seed rollouts p i (cases ! i)) [0..<nat rollouts]"
  by (simp_all add: make_group_def)

lemma distinct_group_names:
  assumes "\<And>p. distinct (f p)" "distinct ps" shows "distinct (concat (map (\<lambda>p. map (group_name p) (f p)) ps))"
  using assms(2)
proof (induction ps)
  case (Cons p ps)
  have "distinct (map (group_name p) (f p))" using assms(1) group_name_inj by (simp add: distinct_map inj_on_def)
  with Cons show ?case by (auto dest: group_name_inj)
qed simp

lemma suite_groups_names:
  assumes "\<And>s xs. mset (shuffle s xs) = mset xs" "suite_groups shuffle sha cases rollouts passes seed = Inr gs"
  shows "distinct (map fst gs)"
proof -
  have "distinct (shuffle s [0..<n])" for s n using assms(1) [of s "[0..<n]"] by (metis distinct_upt mset_eq_imp_distinct_iff)
  then have "distinct (concat (map (\<lambda>p. map (group_name p) (shuffle (seed + int p) [0..<length cases])) [0..<nat passes]))"
    by (intro distinct_group_names) simp_all
  then show ?thesis by (simp add: suite_groups_Inr(4) [OF assms(2)] map_concat o_def)
qed

text \<open>
  A suite plan has one group per pass and task, under distinct group names, and its samples are, up
  to order, exactly the samples of every pass, task and sample number, with the request seed and the
  rollout tag that these numbers and the suite seed determine: the shuffles of the passes change neither
  the samples nor their seeds. The only fact used of the shuffle is that it permutes its list.
\<close>

theorem suite_plan_pinned:
  assumes "\<And>s xs. mset (shuffle s xs) = mset xs" "suite_groups shuffle sha cases rollouts passes seed = Inr gs"
  shows "distinct (map fst gs) \<and> int (length gs) = passes * int (length cases) \<and>
    mset (concat (map snd gs)) = mset (planned_samples sha cases rollouts passes seed)"
proof (intro conjI)
  note gs = suite_groups_Inr [OF assms(2)]
  show "distinct (map fst gs)" by (rule suite_groups_names [OF assms])
  have len: "length (shuffle s [0..<n]) = n" for s n using assms(1) [of s "[0..<n]"] by (metis length_upt minus_nat.diff_0 size_mset)
  show "int (length gs) = passes * int (length cases)"
    using gs(3) by (simp add: gs(4) length_concat o_def len sum_list_triv)
  have "mset (concat (map snd gs)) = mset (concat (map (\<lambda>p. concat (map snd (map (make_group sha seed rollouts cases p)
      (shuffle (seed + int p) [0..<length cases])))) [0..<nat passes]))"
    unfolding gs(4) by (simp add: map_concat o_def concat_concat_map)
  also have "\<dots> = mset (planned_samples sha cases rollouts passes seed)"
    unfolding planned_samples_def
    by (rule mset_concat_map) (use mset_concat_perm [OF assms(1)] in \<open>simp add: o_def\<close>)
  finally show "mset (concat (map snd gs)) = mset (planned_samples sha cases rollouts passes seed)" .
qed

section \<open>The schedule hands out every sample once\<close>

text \<open>
  The episode workers as a system: a worker that takes a sample holds it until it completes it with some
  result. \<open>held\<close> are the samples taken and not completed, \<open>handed\<close> all samples taken so far, in order.
\<close>

record workers =
  sched :: group_schedule
  held :: "suite_case list"
  handed :: "suite_case list"

datatype worker_op = Take_op bool | Complete_op nat sample_result

fun worker_step :: "worker_op \<Rightarrow> workers \<Rightarrow> workers" where
  "worker_step (Take_op cancelled) w =
     (case take_pass cancelled (sched w) of
        (Took c, s) \<Rightarrow> w\<lparr>sched := s, held := held w @ [c], handed := handed w @ [c]\<rparr>
      | (_, s) \<Rightarrow> w\<lparr>sched := s\<rparr>)"
| "worker_step (Complete_op i res) w =
     (if i < length (held w)
      then case complete_case (held w ! i) res (sched w) of
             Inl e \<Rightarrow> w
           | Inr s \<Rightarrow> w\<lparr>sched := s, held := take i (held w) @ drop (Suc i) (held w)\<rparr>
      else w)"

definition case_group :: "suite_case \<Rightarrow> string option" where
  "case_group c = map_option group_id (rollout_of c)"

definition group_count :: "string \<Rightarrow> suite_case list \<Rightarrow> nat" where
  "group_count g cs = length (filter (\<lambda>c. case_group c = Some g) cs)"

lemma group_count_simps [simp]:
  "group_count g [] = 0" "group_count g (c # cs) = (if case_group c = Some g then 1 else 0) + group_count g cs"
  "group_count g (xs @ ys) = group_count g xs + group_count g ys"
  by (simp_all add: group_count_def)

definition tagged_groups :: "(string \<times> suite_case list) list \<Rightarrow> bool" where
  "tagged_groups G \<longleftrightarrow> distinct (map fst G) \<and> (\<forall>p\<in>set G. snd p \<noteq> [] \<and> (\<forall>c\<in>set (snd p). case_group c = Some (fst p)))"

text \<open>The invariant, over the groups \<open>A\<close> opened so far, the ready, held and handed samples and the open and finished groups.\<close>

definition sched_ok ::
  "(string \<times> suite_case list) list \<Rightarrow> suite_case list \<Rightarrow> suite_case list \<Rightarrow> suite_case list \<Rightarrow>
     (string \<times> active_group) list \<Rightarrow> finished_group list \<Rightarrow> bool" where
  "sched_ok A ready hold hand active fin \<longleftrightarrow>
     hand @ ready = concat (map snd A) \<and> set hold \<subseteq> set hand \<and>
     distinct (map fst active) \<and> mset (map fst active) + mset (map fin_group fin) = mset (map fst A) \<and>
     (\<forall>g a. map_of active g = Some a \<longrightarrow> 0 < remaining a \<and> remaining a = int (group_count g ready + group_count g hold) \<and>
        length (group_results a) + group_count g hold = group_count g hand) \<and>
     (\<forall>g. map_of active g = None \<longrightarrow> group_count g ready = 0 \<and> group_count g hold = 0) \<and>
     (\<forall>f\<in>set fin. length (fin_results f) = group_count (fin_group f) (concat (map snd A)))"

definition workers_inv :: "(string \<times> suite_case list) list \<Rightarrow> int \<Rightarrow> workers \<Rightarrow> bool" where
  "workers_inv G n w \<longleftrightarrow>
     (\<exists>A. G = A @ gs_pending (sched w) \<and>
       sched_ok A (gs_ready (sched w)) (held w) (handed w) (gs_active (sched w)) (gs_finished (sched w))) \<and>
     1 \<le> n \<and> gs_max_groups (sched w) = n \<and> int (length (gs_active (sched w))) \<le> n"

lemma sched_ok_open:
  assumes ok: "sched_ok A ready hold hand active fin" and G: "tagged_groups (A @ g # P)"
  shows "sched_ok (A @ [g]) (ready @ snd g) hold hand
    (AList.update (fst g) \<lparr>remaining = int (length (snd g)), group_results = []\<rparr> active) fin"
proof -
  let ?a = "\<lparr>remaining = int (length (snd g)), group_results = []\<rparr>"
  have fresh: "fst g \<notin> set (map fst A)" using G by (auto simp: tagged_groups_def)
  have names: "set (map fst active) \<union> set (map fin_group fin) = set (map fst A)"
    using ok unfolding sched_ok_def by (metis set_mset_mset set_mset_union)
  with fresh have new: "fst g \<notin> fst ` set active" "fst g \<notin> fin_group ` set fin" by auto
  then have none: "map_of active (fst g) = None" by (simp add: map_of_eq_None_iff)
  have upd: "AList.update (fst g) ?a active = active @ [(fst g, ?a)]"
    using new(1) by (induction active) auto
  have own: "group_count (fst g) (snd g) = length (snd g)" and other: "h \<noteq> fst g \<Longrightarrow> group_count h (snd g) = 0" for h
    using G by (auto simp: tagged_groups_def group_count_def filter_empty_conv)
  have zero: "group_count (fst g) (concat (map snd A)) = 0"
  proof -
    have "case_group c \<noteq> Some (fst g)" if "p \<in> set A" "c \<in> set (snd p)" for p c
    proof -
      have "case_group c = Some (fst p)" using G that by (simp add: tagged_groups_def)
      moreover have "fst p \<noteq> fst g" using imageI [OF that(1), of fst] fresh by (metis set_map)
      ultimately show ?thesis by simp
    qed
    then show ?thesis unfolding group_count_def filter_empty_conv length_0_conv by auto
  qed
  have hand: "group_count (fst g) hand = 0" "group_count (fst g) ready = 0"
    using zero ok unfolding sched_ok_def by (metis add_is_0 group_count_simps(3))+
  have "group_count (fst g) hold = 0" using ok none unfolding sched_ok_def by blast
  moreover have "snd g \<noteq> []" using G by (auto simp: tagged_groups_def)
  moreover have "map_of (active @ [(fst g, ?a)]) = (map_of active)(fst g \<mapsto> ?a)"
    using none by (auto simp: map_add_def fun_eq_iff split: option.split)
  moreover have "length (fin_results f) = group_count (fin_group f) (concat (map snd (A @ [g])))" if "f \<in> set fin" for f
  proof -
    have "fin_group f \<noteq> fst g" using new(2) imageI [OF that, of fin_group] by metis
    with ok that other [of "fin_group f"] show ?thesis unfolding sched_ok_def by simp
  qed
  ultimately show ?thesis
    using ok new own other hand unfolding sched_ok_def upd by (auto; metis)
qed

lemma open_groups_ok:
  "open_groups P ready active n = (P', ready', active') \<Longrightarrow> tagged_groups (A @ P) \<Longrightarrow>
     sched_ok A ready hold hand active fin \<Longrightarrow> int (length active) \<le> n \<Longrightarrow>
     (\<exists>B. A @ P = B @ P' \<and> sched_ok B ready' hold hand active' fin) \<and> int (length active') \<le> n \<and>
     (P' \<noteq> [] \<longrightarrow> int (length active') = n)"
proof (induction P ready active n arbitrary: A rule: open_groups.induct)
  case (2 g P ready active n)
  show ?case
  proof (cases "int (length active) < n")
    case True
    let ?a = "AList.update (fst g) \<lparr>remaining = int (length (snd g)), group_results = []\<rparr> active"
    have "length ?a \<le> Suc (length active)" by (induction active) auto
    then have "int (length ?a) \<le> n" using True by linarith
    from "2.IH" [OF True _ _ sched_ok_open [OF "2.prems"(3,2)] this] "2.prems"(1,2) True show ?thesis by simp
  qed (use 2 in auto)
qed auto

lemma sched_ok_take:
  assumes ok: "sched_ok A (c # ready) hold hand active fin"
  shows "sched_ok A ready (hold @ [c]) (hand @ [c]) active fin"
  using ok unfolding sched_ok_def by (auto split: if_splits)

lemma count_remove:
  "i < length xs \<Longrightarrow> group_count g xs = (if case_group (xs ! i) = Some g then 1 else 0) + group_count g (take i xs @ drop (Suc i) xs)"
  by (subst id_take_nth_drop [of i xs]) simp_all

lemma mset_map_delete:
  "distinct (map fst es) \<Longrightarrow> k \<in> fst ` set es \<Longrightarrow> add_mset k (mset (map fst (AList.delete k es))) = mset (map fst es)"
proof (induction es)
  case (Cons p es)
  show ?case
  proof (cases "fst p = k")
    case True
    then have "k \<notin> fst ` set es" using Cons.prems by auto
    then show ?thesis using True by (cases p) (simp add: delete_idem)
  next
    case False
    then show ?thesis using Cons by (cases p) (auto simp: add_mset_commute)
  qed
qed simp

lemma update_old_keys: "k \<in> fst ` set es \<Longrightarrow> map fst (AList.update k v es) = map fst es"
  by (induction es) auto

lemma sched_ok_complete:
  assumes ok: "sched_ok A ready hold hand active fin" and i: "i < length hold" and g: "case_group (hold ! i) = Some g"
    and a: "map_of active g = Some a"
  defines "hold' \<equiv> take i hold @ drop (Suc i) hold"
  shows "remaining a \<noteq> 1 \<Longrightarrow> sched_ok A ready hold' hand
      (AList.update g \<lparr>remaining = remaining a - 1, group_results = group_results a @ [res]\<rparr> active) fin"
    and "remaining a = 1 \<Longrightarrow> sched_ok A ready hold' hand (AList.delete g active)
      (fin @ [\<lparr>fin_group = g, fin_task = t, fin_pass = p, fin_results = group_results a @ [res]\<rparr>])"
proof -
  have cnt: "group_count h hold = (if h = g then 1 else 0) + group_count h hold'" for h
    using count_remove [OF i, of h] g by (simp add: hold'_def)
  have here: "0 < remaining a" "remaining a = int (group_count g ready + group_count g hold)"
      "length (group_results a) + group_count g hold = group_count g hand"
    using ok a unfolding sched_ok_def by blast+
  have sub: "set hold' \<subseteq> set hold" by (auto simp: hold'_def dest: in_set_takeD in_set_dropD)
  have key: "g \<in> fst ` set active" using a by (metis map_of_eq_None_iff option.distinct(1))
  show "sched_ok A ready hold' hand
      (AList.update g \<lparr>remaining = remaining a - 1, group_results = group_results a @ [res]\<rparr> active) fin" if "remaining a \<noteq> 1"
    using ok here that sub unfolding sched_ok_def
    by (auto simp: update_old_keys [OF key] update_conv' cnt split: if_splits)
  show "sched_ok A ready hold' hand (AList.delete g active)
      (fin @ [\<lparr>fin_group = g, fin_task = t, fin_pass = p, fin_results = group_results a @ [res]\<rparr>])" if one: "remaining a = 1"
  proof -
    have z: "group_count g ready = 0" "group_count g hold' = 0" using here(2) one cnt [of g] by auto
    have "group_count g (concat (map snd A)) = group_count g hand + group_count g ready"
      using ok unfolding sched_ok_def by (metis group_count_simps(3))
    then have full: "Suc (length (group_results a)) = group_count g (concat (map snd A))" using here(3) z cnt [of g] by simp
    have "distinct (map fst active)" using ok unfolding sched_ok_def by blast
    from mset_map_delete [OF this key]
    have "mset (map fst (AList.delete g active)) + add_mset g (mset (map fin_group fin)) = mset (map fst active) + mset (map fin_group fin)"
      by (metis union_mset_add_mset_left union_mset_add_mset_right)
    with ok full z sub show ?thesis unfolding sched_ok_def
      by (auto simp: delete_conv' cnt distinct_delete split: if_splits)
  qed
qed

lemma take_pass_inv:
  assumes G: "tagged_groups G" and inv: "workers_inv G n w"
  shows "workers_inv G n (worker_step (Take_op c) w)"
    and "\<not> c \<Longrightarrow> fst (take_pass c (sched w)) = Exhausted \<Longrightarrow> handed w = concat (map snd G) \<and> held w = [] \<and>
       mset (map fin_group (gs_finished (sched w))) = mset (map fst G) \<and>
       (\<forall>f\<in>set (gs_finished (sched w)). length (fin_results f) = group_count (fin_group f) (concat (map snd G)))"
    and "fst (take_pass c (sched w)) = Wait_take \<Longrightarrow> held w \<noteq> []"
proof -
  let ?s = "sched w"
  from inv obtain A where A: "G = A @ gs_pending ?s" "sched_ok A (gs_ready ?s) (held w) (handed w) (gs_active ?s) (gs_finished ?s)"
      and n: "1 \<le> n" "gs_max_groups ?s = n" "int (length (gs_active ?s)) \<le> n" unfolding workers_inv_def by blast
  obtain P R E where o: "open_groups (gs_pending ?s) (gs_ready ?s) (gs_active ?s) n = (P, R, E)" by (metis prod_cases3)
  from open_groups_ok [OF o _ A(2) n(3)] G A(1)
  obtain B where B: "G = B @ P" "sched_ok B R (held w) (handed w) E (gs_finished ?s)" "int (length E) \<le> n"
      "P \<noteq> [] \<Longrightarrow> int (length E) = n" by auto
  show "workers_inv G n (worker_step (Take_op c) w)"
  proof (cases c)
    case True
    then show ?thesis using inv by (simp add: take_pass_def)
  next
    case False
    show ?thesis
    proof (cases R)
      case Nil
      with False B n show ?thesis by (cases "E = []") (auto simp: take_pass_def o workers_inv_def Let_def)
    next
      case (Cons x xs)
      with sched_ok_take [of B x xs] B(2) have "sched_ok B xs (held w @ [x]) (handed w @ [x]) E (gs_finished ?s)" by simp
      with False B(1,3) n Cons show ?thesis by (auto simp: take_pass_def o workers_inv_def Let_def)
    qed
  qed
  show "held w \<noteq> []" if "fst (take_pass c ?s) = Wait_take"
  proof -
    from that have R: "R = []" and "E \<noteq> []" by (auto simp: take_pass_def o n(2) Let_def split: if_splits list.splits)
    then obtain g a where "map_of E g = Some a" by (metis list.exhaust map_of_Cons_code(2) surj_pair)
    then have "0 < int (group_count g R + group_count g (held w))" using B(2) unfolding sched_ok_def by metis
    then show ?thesis using R by auto
  qed
  assume "\<not> c" "fst (take_pass c ?s) = Exhausted"
  then have "R = []" "E = []" by (auto simp: take_pass_def o n(2) Let_def split: if_splits list.splits)
  with B n(1) have "P = []" by auto
  with B(1,2) \<open>R = []\<close> \<open>E = []\<close> have ok: "sched_ok G [] (held w) (handed w) [] (gs_finished ?s)" by simp
  then have all: "handed w = concat (map snd G)" and sub: "set (held w) \<subseteq> set (handed w)"
      and none: "\<And>g. group_count g (held w) = 0" unfolding sched_ok_def by auto
  have "x \<notin> set (held w)" for x
  proof
    assume x: "x \<in> set (held w)"
    then obtain g where "case_group x = Some g" using sub all G by (force simp: tagged_groups_def)
    with x none [of g] show False unfolding group_count_def by (auto simp: filter_empty_conv)
  qed
  then have "held w = []" by (cases "held w") auto
  with all ok show "handed w = concat (map snd G) \<and> held w = [] \<and> mset (map fin_group (gs_finished ?s)) = mset (map fst G) \<and>
       (\<forall>f\<in>set (gs_finished ?s). length (fin_results f) = group_count (fin_group f) (concat (map snd G)))"
    unfolding sched_ok_def by simp
qed

lemma complete_inv:
  assumes inv: "workers_inv G n w" shows "workers_inv G n (worker_step (Complete_op i res) w)"
proof (cases "i < length (held w)")
  case True
  let ?s = "sched w"
  from inv obtain A where A: "G = A @ gs_pending ?s" "sched_ok A (gs_ready ?s) (held w) (handed w) (gs_active ?s) (gs_finished ?s)"
      and n: "1 \<le> n" "gs_max_groups ?s = n" "int (length (gs_active ?s)) \<le> n" unfolding workers_inv_def by blast
  show ?thesis
  proof (cases "complete_case (held w ! i) res ?s")
    case (Inr d)
    then obtain tag a where tag: "rollout_of (held w ! i) = Some tag" and a: "map_of (gs_active ?s) (group_id tag) = Some a"
      by (auto simp: complete_case_def split: option.splits)
    have g: "case_group (held w ! i) = Some (group_id tag)" by (simp add: case_group_def tag)
    note ok = sched_ok_complete [OF A(2) True g a]
    have key: "length (AList.update (group_id tag) x (gs_active ?s)) = length (gs_active ?s)" for x
      using update_old_keys [of "group_id tag" "gs_active ?s" x] a by (metis length_map map_of_eq_None_iff option.distinct(1))
    have del: "int (length (AList.delete (group_id tag) (gs_active ?s))) \<le> n"
      using n(3) length_delete_le [of "group_id tag" "gs_active ?s"] by linarith
    show ?thesis
      using Inr True tag a ok n A(1) key del
      by (cases "remaining a = 1") (auto simp: complete_case_def Let_def workers_inv_def)
  qed (use inv True in simp)
qed (use inv in simp)

interpretation worker_system: op_system worker_step "\<lambda>w. tagged_groups G \<and> workers_inv G n w" for G n
proof (unfold_locales)
  fix w op assume "tagged_groups G \<and> workers_inv G n w"
  then show "tagged_groups G \<and> workers_inv G n (worker_step op w)"
    using take_pass_inv(1) complete_inv by (cases op) blast+
qed

lemma sched_ok_held:
  assumes "sched_ok A ready hold hand active fin" "group_count g hold \<noteq> 0" shows "\<exists>a. map_of active g = Some a"
  using assms unfolding sched_ok_def by (metis option.exhaust)

lemma sched_ok_hold_planned:
  assumes "sched_ok A ready hold hand active fin" shows "set hold \<subseteq> set (concat (map snd A))"
proof -
  have eq: "hand @ ready = concat (map snd A)" and sub: "set hold \<subseteq> set hand" using assms by (simp_all add: sched_ok_def)
  show ?thesis using sub unfolding eq [symmetric] by auto
qed

lemma workers_start:
  "tagged_groups G \<Longrightarrow> GroupSchedule G n = Inr s \<Longrightarrow> workers_inv G n \<lparr>sched = s, held = [], handed = []\<rparr>"
  by (auto simp: GroupSchedule_def workers_inv_def sched_ok_def split: if_splits)

lemma workers_reach:
  assumes "tagged_groups G" "GroupSchedule G n = Inr s" "w = fold worker_step ops \<lparr>sched = s, held = [], handed = []\<rparr>"
  shows "workers_inv G n w"
  using worker_system.inv_run [of G n "\<lparr>sched = s, held = [], handed = []\<rparr>" ops] workers_start [OF assms(1,2)] assms(1,3) by simp

text \<open>
  C25. For any interleaving of workers that take and complete samples, at most the configured number of
  groups is open, and when a worker is told that the schedule is exhausted, every sample of the plan has
  been handed out exactly once, in plan order, none is still held, every group is finished once, and each
  finished group has one result per sample.
\<close>

theorem schedule_exhausts_plan:
  assumes "tagged_groups G" "GroupSchedule G n = Inr s" "w = fold worker_step ops \<lparr>sched = s, held = [], handed = []\<rparr>"
  shows "int (length (gs_active (sched w))) \<le> n \<and>
    (fst (take_pass False (sched w)) = Exhausted \<longrightarrow>
       handed w = concat (map snd G) \<and> held w = [] \<and> mset (map fin_group (gs_finished (sched w))) = mset (map fst G) \<and>
       (\<forall>f\<in>set (gs_finished (sched w)). length (fin_results f) = group_count (fin_group f) (concat (map snd G))))"
  using workers_reach [OF assms] take_pass_inv(2) [OF assms(1) workers_reach [OF assms], of False]
  by (simp add: workers_inv_def)

text \<open>
  The schedule does not deadlock: a worker waits only while another worker holds a sample, and
  completing a held sample is always accepted.
\<close>

theorem schedule_not_stuck:
  assumes "tagged_groups G" "GroupSchedule G n = Inr s" "w = fold worker_step ops \<lparr>sched = s, held = [], handed = []\<rparr>"
  shows "(fst (take_pass c (sched w)) = Wait_take \<longrightarrow> held w \<noteq> []) \<and>
    (\<forall>i res. i < length (held w) \<longrightarrow> (\<exists>s'. complete_case (held w ! i) res (sched w) = Inr s'))"
proof (intro conjI impI allI)
  note inv = workers_reach [OF assms]
  show "held w \<noteq> []" if "fst (take_pass c (sched w)) = Wait_take" using take_pass_inv(3) [OF assms(1) inv that] .
  fix i res assume i: "i < length (held w)"
  let ?s = "sched w"
  from inv obtain A where A: "G = A @ gs_pending ?s" "sched_ok A (gs_ready ?s) (held w) (handed w) (gs_active ?s) (gs_finished ?s)"
    unfolding workers_inv_def by blast
  from sched_ok_hold_planned [OF A(2)] have "held w ! i \<in> set (concat (map snd A))" using nth_mem [OF i] by blast
  then obtain p where p: "p \<in> set A" "held w ! i \<in> set (snd p)" by auto
  then have "case_group (held w ! i) = Some (fst p)" using assms(1) A(1) unfolding tagged_groups_def by auto
  then obtain g where g: "case_group (held w ! i) = Some g" by blast
  then obtain tag where tag: "rollout_of (held w ! i) = Some tag" "group_id tag = g" by (auto simp: case_group_def)
  have "group_count g (held w) \<noteq> 0" using count_remove [OF i, of g] g by simp
  with sched_ok_held [OF A(2)] obtain a where "map_of (gs_active ?s) g = Some a" by blast
  with tag show "\<exists>s'. complete_case (held w ! i) res ?s = Inr s'" by (simp add: complete_case_def Let_def)
qed

lemma suite_groups_tagged:
  assumes "\<And>s xs. mset (shuffle s xs) = mset xs" "suite_groups shuffle sha cases rollouts passes seed = Inr gs"
  shows "tagged_groups gs"
proof -
  note gs = suite_groups_Inr [OF assms(2)]
  have "snd p \<noteq> [] \<and> (\<forall>c\<in>set (snd p). case_group c = Some (fst p))" if "p \<in> set gs" for p
    using that gs(2) unfolding gs(4) by (auto simp: make_sample_def case_group_def Let_def)
  moreover have "distinct (map fst gs)"
    using suite_groups_names [OF assms] .
  ultimately show ?thesis by (simp add: tagged_groups_def)
qed

section \<open>Coverage of external schedules\<close>

definition pinned :: "suite_case \<Rightarrow> sample_result \<Rightarrow> bool" where
  "pinned c r \<longleftrightarrow> rollout_of c = Some (res_rollout r) \<and> res_task r = task_id c"

definition result_id :: "sample_result \<Rightarrow> string \<times> nat" where
  "result_id r = (group_id (res_rollout r), sample_index (res_rollout r))"

text \<open>What the first loop has established after a prefix \<open>done\<close> of the results.\<close>

definition observed_ok ::
  "(string \<times> suite_case list) list \<Rightarrow> sample_result list \<Rightarrow> (string \<times> nat) list \<times> (string \<Rightarrow> sample_result list) \<Rightarrow> bool" where
  "observed_ok groups seen st \<longleftrightarrow> set (fst st) = result_id ` set seen \<and> distinct (map result_id seen) \<and>
     (\<forall>g. snd st g = filter (\<lambda>r. group_id (res_rollout r) = g) seen) \<and>
     (\<forall>r\<in>set seen. \<exists>samples c. map_of (rev groups) (group_id (res_rollout r)) = Some samples \<and> c \<in> set samples \<and> pinned c r)"

lemma observe_ok:
  assumes ok: "observed_ok groups seen st" and o: "observe groups r st = Inr st'" shows "observed_ok groups (seen @ [r]) st'"
proof -
  obtain samples c where s: "map_of (rev groups) (group_id (res_rollout r)) = Some samples"
      and f: "find (\<lambda>c. map_option sample_index (rollout_of c) = Some (sample_index (res_rollout r))) samples = Some c"
      and new: "result_id r \<notin> set (fst st)" and p: "pinned c r"
      and st': "st' = (result_id r # fst st, (snd st)(group_id (res_rollout r) := snd st (group_id (res_rollout r)) @ [r]))"
    using o by (auto simp: observe_def Let_def result_id_def pinned_def split: option.splits if_split_asm)
  have "c \<in> set samples" using f by (auto simp: find_Some_iff)
  then have "\<exists>samples c. map_of (rev groups) (group_id (res_rollout r)) = Some samples \<and> c \<in> set samples \<and> pinned c r" using s p by blast
  with ok new st' show ?thesis unfolding observed_ok_def by auto
qed

lemma observe_all_ok:
  "observed_ok groups seen st \<Longrightarrow> observe_all groups rs st = Inr st' \<Longrightarrow> observed_ok groups (seen @ rs) st'"
proof (induction rs arbitrary: seen st)
  case (Cons r rs)
  then obtain st1 where "observe groups r st = Inr st1" "observe_all groups rs st1 = Inr st'" by (auto simp: bindE_Inr_iff)
  with Cons.IH [OF observe_ok [OF Cons.prems(1)]] show ?case by simp
qed simp

lemma observed_count:
  assumes ok: "observed_ok groups rs st" and g: "map_of (rev groups) g = Some samples"
  shows "length (snd st g) \<le> length samples"
proof -
  let ?rs = "snd st g" and ?idx = "\<lambda>r. sample_index (res_rollout r)"
  have rs: "?rs = filter (\<lambda>r. group_id (res_rollout r) = g) rs" using ok by (simp add: observed_ok_def)
  have "distinct (map result_id ?rs)" using ok by (simp add: rs observed_ok_def distinct_map_filter)
  then have "distinct (map ?idx ?rs)" unfolding distinct_map by (auto simp: rs inj_on_def result_id_def)
  moreover have "Some ` set (map ?idx ?rs) \<subseteq> set (map (\<lambda>c. map_option sample_index (rollout_of c)) samples)"
  proof
    fix x assume "x \<in> Some ` set (map ?idx ?rs)"
    then obtain r where r: "r \<in> set rs" "group_id (res_rollout r) = g" "x = Some (?idx r)" by (auto simp: rs)
    then obtain c where "c \<in> set samples" "rollout_of c = Some (res_rollout r)" using ok g unfolding observed_ok_def pinned_def by force
    then show "x \<in> set (map (\<lambda>c. map_option sample_index (rollout_of c)) samples)" using r(3) by (force simp: image_iff)
  qed
  ultimately have "length (map ?idx ?rs) \<le> card (set (map (\<lambda>c. map_option sample_index (rollout_of c)) samples))"
    by (metis (no_types, lifting) List.finite_set card_image card_mono distinct_card inj_Some)
  also have "\<dots> \<le> length samples" by (metis card_length length_map)
  finally show ?thesis by simp
qed

lemma classify_rows:
  "classify obs groups = Inr (rows, inc, p) \<Longrightarrow> length rows + length inc + p = length groups \<and>
     p = length (filter (\<lambda>g. obs (fst g) = []) groups) \<and>
     (\<forall>row\<in>set rows. \<exists>samples. (row_group row, samples) \<in> set groups \<and> length samples \<le> row_episodes row \<and>
        row_episodes row = length (obs (row_group row)) \<and> row_verified row = length (filter verified_flag (obs (row_group row))))"
proof (induction obs groups arbitrary: rows inc p rule: classify.induct)
  case (2 obs g samples rest)
  then show ?case
    by (fastforce simp: Let_def bindE_Inr_iff report_row_def split: if_splits prod.splits)
qed simp

text \<open>
  A coverage report of externally run samples partitions the expected groups into completed,
  incomplete and pending ones, and every completed row is backed by exactly one accepted result for each
  sample of its group, all with distinct sample identities that equal the pinned ones.
\<close>

theorem coverage_sound:
  assumes "distinct (map fst groups)" "external_schedule_coverage groups results = Inr c"
  shows "cov_completed c + length (cov_incomplete c) + cov_pending c = cov_expected_groups c \<and>
    distinct (map result_id results) \<and>
    (\<forall>row\<in>set (cov_rows c). \<exists>samples. (row_group row, samples) \<in> set groups \<and> row_episodes row = length samples \<and>
       row_episodes row = length (filter (\<lambda>r. group_id (res_rollout r) = row_group row) results)) \<and>
    (\<forall>r\<in>set results. \<exists>g samples k. (g, samples) \<in> set groups \<and> k \<in> set samples \<and> pinned k r)"
proof -
  obtain st rows inc p where st: "observe_all groups results ([], \<lambda>_. []) = Inr st"
      and cl: "classify (snd st) groups = Inr (rows, inc, p)"
      and c: "c = \<lparr>cov_expected_groups = length groups, cov_expected_episodes = sum_list (map (\<lambda>g. length (snd g)) groups),
            cov_completed = length rows, cov_pending = p, cov_incomplete = inc, cov_rows = rows\<rparr>"
    using assms(2) by (auto simp: external_schedule_coverage_def bindE_Inr_iff)
  have "observed_ok groups [] ([], \<lambda>_. [])" by (simp add: observed_ok_def)
  from observe_all_ok [OF this st] have ok: "observed_ok groups results st" by simp
  have look: "map_of (rev groups) g = Some samples \<longleftrightarrow> (g, samples) \<in> set groups" for g samples
    using assms(1) by (simp add: map_of_eq_Some_iff rev_map [symmetric])
  note rows = classify_rows [OF cl]
  have "\<exists>samples. (row_group row, samples) \<in> set groups \<and> row_episodes row = length samples \<and>
      row_episodes row = length (filter (\<lambda>r. group_id (res_rollout r) = row_group row) results)" if "row \<in> set rows" for row
  proof -
    from rows that obtain samples where s: "(row_group row, samples) \<in> set groups" "length samples \<le> row_episodes row"
        "row_episodes row = length (snd st (row_group row))" by blast
    with observed_count [OF ok] look have "row_episodes row = length samples" by fastforce
    with s ok show ?thesis unfolding observed_ok_def by auto
  qed
  moreover have "distinct (map result_id results)"
      "\<forall>r\<in>set results. \<exists>g samples k. (g, samples) \<in> set groups \<and> k \<in> set samples \<and> pinned k r"
    using ok unfolding observed_ok_def look by blast+
  ultimately show ?thesis using rows by (simp add: c)
qed

section \<open>Witnesses\<close>

definition demo_case :: "string \<Rightarrow> suite_case" where
  "demo_case t = \<lparr>task_id = t, request_fields = [], rollout_of = None\<rparr>"

definition demo_digest :: "string \<Rightarrow> nat list" where
  "demo_digest s = [0, 0, 1, 2]"

definition demo_groups :: "(string \<times> suite_case list) list" where
  "demo_groups = [make_group demo_digest 7 1 [demo_case ''a''] 0 0]"

lemma demo_suite: "suite_groups (\<lambda>_ xs. xs) demo_digest [demo_case ''a''] 1 1 7 = Inr demo_groups"
  by (simp add: suite_groups_def demo_groups_def)

lemma demo_tagged: "tagged_groups demo_groups"
  by (rule suite_groups_tagged [OF _ demo_suite]) simp

lemma demo_schedule: "\<exists>s. GroupSchedule demo_groups 1 = Inr s"
  by (simp add: GroupSchedule_def)

theorem suite_plan_pinned_witness: "int (length demo_groups) = 1 * int (length [demo_case ''a''])"
  using suite_plan_pinned [OF _ demo_suite] by simp

theorem schedule_exhausts_plan_witness: "\<exists>s. GroupSchedule demo_groups 1 = Inr s \<and>
   int (length (gs_active (sched (fold worker_step [Take_op False] \<lparr>sched = s, held = [], handed = []\<rparr>)))) \<le> 1"
  using demo_schedule schedule_exhausts_plan [OF demo_tagged _ refl] by blast

theorem schedule_not_stuck_witness: "\<exists>s. GroupSchedule demo_groups 1 = Inr s \<and>
   (fst (take_pass False (sched (fold worker_step [Take_op False] \<lparr>sched = s, held = [], handed = []\<rparr>))) = Wait_take \<longrightarrow>
     held (fold worker_step [Take_op False] \<lparr>sched = s, held = [], handed = []\<rparr>) \<noteq> [])"
  using demo_schedule schedule_not_stuck [OF demo_tagged _ refl] by blast

definition demo_result :: sample_result where
  "demo_result = \<lparr>res_task = ''a'', res_rollout = \<lparr>group_id = group_name 0 0, pass_index = 0, sample_index = 0, group_size = 1,
     sampling_seed = sample_seed demo_digest 7 0 ''a'' 0\<rparr>, res_started = 3, res_finished = 5, res_verified = Some (JBool True),
     res_final = None, res_job = ''j''\<rparr>"

theorem coverage_sound_witness: "\<exists>c. external_schedule_coverage demo_groups [demo_result] = Inr c \<and>
   cov_completed c + length (cov_incomplete c) + cov_pending c = cov_expected_groups c \<and> cov_completed c = 1"
proof -
  have "\<exists>c. external_schedule_coverage demo_groups [demo_result] = Inr c \<and> cov_completed c = 1"
    by (simp add: external_schedule_coverage_def demo_groups_def make_group_def make_sample_def demo_case_def observe_def Let_def
        demo_result_def first_pass_def report_row_def)
  then obtain c where c: "external_schedule_coverage demo_groups [demo_result] = Inr c" "cov_completed c = 1" by blast
  have "distinct (map fst demo_groups)" by (simp add: demo_groups_def)
  from coverage_sound [OF this c(1)] c show ?thesis by blast
qed

end
