(* ===== verification/Cpu_Layout.thy ===== *)
theory Cpu_Layout
  imports Prelude
begin

text \<open>
  Controlled CPU placement, \<^verbatim>\<open>rollout_manager/cpu_layout.py\<close>: control, build and evaluation workers on one
  CPU each of distinct physical cores. The topology files under \<^verbatim>\<open>/sys\<close> are an argument that maps a CPU
  to its package and core.
\<close>

text \<open>\<^verbatim>\<open>groups.setdefault(key, []).append(cpu)\<close>, in insertion order of the keys.\<close>

fun add_cpu :: "'k \<Rightarrow> int \<Rightarrow> ('k \<times> int list) list \<Rightarrow> ('k \<times> int list) list" where
  "add_cpu k c [] = [(k, [c])]"
| "add_cpu k c (g # gs) = (if fst g = k then (k, snd g @ [c]) # gs else g # add_cpu k c gs)"

definition core_groups :: "(int \<Rightarrow> 'k) \<Rightarrow> int list \<Rightarrow> ('k \<times> int list) list" where
  "core_groups topology cpus = foldl (\<lambda>gs c. add_cpu (topology c) c gs) [] (sort cpus)"

text \<open>\<^verbatim>\<open>[ids[i:i+n] for i in range(0, total, n)]\<close> with \<^verbatim>\<open>m\<close> chunks.\<close>

definition chunks :: "nat \<Rightarrow> nat \<Rightarrow> 'a list \<Rightarrow> 'a list list" where
  "chunks m n ids = map (\<lambda>j. take n (drop (j * n) ids)) [0..<m]"

definition controlled_layout ::
  "(int \<Rightarrow> 'k) \<Rightarrow> int list \<Rightarrow> int \<Rightarrow> int \<Rightarrow> int \<Rightarrow> int \<Rightarrow> (int list list \<times> int list list \<times> int list) result" where
  "controlled_layout topology cpus builds build_cores gpu_count evaluation_cores =
     (if min (min builds build_cores) evaluation_cores < 1 \<or> gpu_count < 0 \<or> \<not> distinct cpus
      then Inl (ValueError ''positive worker dimensions and unique CPU IDs required'')
      else
        let groups = map snd (core_groups topology cpus);
            needed = 8 + builds * build_cores + evaluation_cores * gpu_count
        in if int (length groups) < needed
           then Inl (ValueError ''insufficient distinct physical cores for controlled worker layout'')
           else
             let control = map hd (take 8 groups);
                 available = drop 8 groups;
                 nbuild = nat (builds * build_cores);
                 build_ids = map hd (take nbuild available);
                 evaluation_ids = map hd (take (nat (evaluation_cores * gpu_count)) (drop nbuild available))
             in Inr (chunks (nat builds) (nat build_cores) build_ids,
                     chunks (nat gpu_count) (nat evaluation_cores) evaluation_ids, control))"

lemma chunks_concat: "length ids = m * n \<Longrightarrow> concat (chunks m n ids) = ids"
proof (induction m arbitrary: ids)
  case (Suc m)
  have "chunks (Suc m) n ids = take n ids # chunks m n (drop n ids)"
    unfolding chunks_def by (simp add: upt_conv_Cons map_Suc_upt [symmetric] add.commute del: upt_Suc)
  with Suc.IH [of "drop n ids"] Suc.prems show ?case by simp
qed (simp add: chunks_def)

lemma chunks_shape: "length ids = m * n \<Longrightarrow> length (chunks m n ids) = m \<and> (\<forall>c\<in>set (chunks m n ids). length c = n)"
proof -
  assume a: "length ids = m * n"
  have "n \<le> m * n - j * n" if "j < m" for j
    using that by (metis diff_mult_distrib le_add1 less_imp_Suc_add add_diff_cancel_left' mult_Suc add_Suc_right)
  then show ?thesis using a by (auto simp: chunks_def)
qed

definition groups_ok :: "(int \<Rightarrow> 'k) \<Rightarrow> int set \<Rightarrow> ('k \<times> int list) list \<Rightarrow> bool" where
  "groups_ok topology S gs \<longleftrightarrow> distinct (map fst gs) \<and> fst ` set gs = topology ` S \<and>
     (\<forall>g\<in>set gs. snd g \<noteq> [] \<and> set (snd g) \<subseteq> S \<and> topology ` set (snd g) = {fst g})"

lemma add_cpu_keys: "fst ` set (add_cpu k c gs) = insert k (fst ` set gs)"
  by (induction gs) auto

lemma add_cpu_distinct: "distinct (map fst gs) \<Longrightarrow> distinct (map fst (add_cpu k c gs))"
  by (induction gs) (auto simp: add_cpu_keys)

lemma add_cpu_members:
  "g \<in> set (add_cpu k c gs) \<Longrightarrow> g \<in> set gs \<or> fst g = k \<and> (snd g = [c] \<or> (\<exists>h\<in>set gs. fst h = k \<and> snd g = snd h @ [c]))"
  by (induction gs) (auto split: if_splits)

lemma add_cpu_ok:
  assumes "groups_ok topology S gs" shows "groups_ok topology (insert c S) (add_cpu (topology c) c gs)"
proof -
  have "snd g \<noteq> [] \<and> set (snd g) \<subseteq> insert c S \<and> topology ` set (snd g) = {fst g}"
    if "g \<in> set (add_cpu (topology c) c gs)" for g
    using add_cpu_members [OF that]
  proof (elim disjE conjE bexE)
    assume "g \<in> set gs"
    with assms show ?thesis by (auto simp: groups_ok_def)
  next
    fix h assume h: "h \<in> set gs" "fst h = topology c" "snd g = snd h @ [c]" "fst g = topology c"
    then have "set (snd h) \<subseteq> S" "topology ` set (snd h) = {fst h}" using assms by (auto simp: groups_ok_def)
    with h show ?thesis by auto
  qed simp
  with assms show ?thesis by (simp add: groups_ok_def add_cpu_keys add_cpu_distinct)
qed

lemma core_groups_ok: "groups_ok topology (set cpus) (core_groups topology cpus)"
proof -
  have "groups_ok topology (S \<union> set xs) (foldl (\<lambda>gs c. add_cpu (topology c) c gs) gs xs)" if "groups_ok topology S gs" for S gs xs
    using that by (induction xs arbitrary: S gs) (use add_cpu_ok in fastforce)+
  from this [of "{}" "[]" "sort cpus"] show ?thesis by (simp add: core_groups_def groups_ok_def)
qed

lemma head_cores:
  assumes "groups_ok topology S gs"
  shows "map topology (map hd (map snd gs)) = map fst gs" "hd ` snd ` set gs \<subseteq> S"
  using assms unfolding groups_ok_def by (force simp: image_iff)+

lemma layout_Inr:
  assumes "controlled_layout topology cpus builds build_cores gpus eval_cores = Inr (b, e, c)"
  defines "ids \<equiv> map hd (map snd (core_groups topology cpus))"
  shows "1 \<le> builds" "1 \<le> build_cores" "1 \<le> eval_cores" "0 \<le> gpus"
    and "8 + builds * build_cores + eval_cores * gpus \<le> int (length ids)" "c = take 8 ids"
    and "b = chunks (nat builds) (nat build_cores) (take (nat (builds * build_cores)) (drop 8 ids))"
    and "e = chunks (nat gpus) (nat eval_cores) (take (nat (eval_cores * gpus)) (drop (nat (builds * build_cores)) (drop 8 ids)))"
  using assms(1) unfolding ids_def by (simp_all add: controlled_layout_def Let_def take_map drop_map split: if_split_asm)

text \<open>
  A layout that is granted has exactly the requested build chunks, evaluation chunks and eight
  control CPUs, of the requested sizes, all of the given CPUs and all on pairwise distinct physical cores;
  and a layout is granted exactly when the dimensions are positive, the CPUs distinct and there are enough
  physical cores.
\<close>

theorem layout_isolated:
  "(\<forall>b e c. controlled_layout topology cpus builds build_cores gpus eval_cores = Inr (b, e, c) \<longrightarrow>
     int (length b) = builds \<and> (\<forall>x\<in>set b. int (length x) = build_cores) \<and>
     int (length e) = gpus \<and> (\<forall>x\<in>set e. int (length x) = eval_cores) \<and> length c = 8 \<and>
     distinct (map topology (c @ concat b @ concat e)) \<and> set (c @ concat b @ concat e) \<subseteq> set cpus) \<and>
   ((\<exists>r. controlled_layout topology cpus builds build_cores gpus eval_cores = Inr r) \<longleftrightarrow>
      1 \<le> builds \<and> 1 \<le> build_cores \<and> 1 \<le> eval_cores \<and> 0 \<le> gpus \<and> distinct cpus \<and>
      8 + builds * build_cores + eval_cores * gpus \<le> int (card (topology ` set cpus)))"
proof (intro conjI allI impI)
  let ?G = "core_groups topology cpus"
  note ok = core_groups_ok [of topology cpus]
  have "card (topology ` set cpus) = length ?G"
    using ok unfolding groups_ok_def by (metis distinct_card length_map set_map)
  then show "(\<exists>r. controlled_layout topology cpus builds build_cores gpus eval_cores = Inr r) \<longleftrightarrow>
      1 \<le> builds \<and> 1 \<le> build_cores \<and> 1 \<le> eval_cores \<and> 0 \<le> gpus \<and> distinct cpus \<and>
      8 + builds * build_cores + eval_cores * gpus \<le> int (card (topology ` set cpus))"
    by (auto simp: controlled_layout_def Let_def)
  fix b e c assume r: "controlled_layout topology cpus builds build_cores gpus eval_cores = Inr (b, e, c)"
  define ids where "ids = map hd (map snd ?G)"
  define nb ne where "nb = nat builds * nat build_cores" and "ne = nat gpus * nat eval_cores"
  note l = layout_Inr [OF r, folded ids_def]
  note dim = l(1-4)
  have nn: "nat (builds * build_cores) = nb" "nat (eval_cores * gpus) = ne"
    using dim by (simp_all add: nb_def ne_def nat_mult_distrib)
  note parts = l(6-8) [unfolded nn]
  have "int (8 + nb + ne) \<le> int (length ids)" using dim l(5) by (simp add: nb_def ne_def mult.commute)
  then have n: "8 + nb + ne \<le> length ids" by (simp only: of_nat_le_iff)
  have lb: "length (take nb (drop 8 ids)) = nat builds * nat build_cores" "length (take ne (drop nb (drop 8 ids))) = nat gpus * nat eval_cores"
    using n by (simp_all add: nb_def ne_def)
  have ints: "int (nat builds) = builds" "int (nat build_cores) = build_cores" "int (nat gpus) = gpus" "int (nat eval_cores) = eval_cores"
    using dim by simp_all
  have "length b = nat builds \<and> (\<forall>x\<in>set b. length x = nat build_cores)" "length e = nat gpus \<and> (\<forall>x\<in>set e. length x = nat eval_cores)"
    unfolding parts by (rule chunks_shape [OF lb(1)], rule chunks_shape [OF lb(2)])
  with ints show "int (length b) = builds" "\<forall>x\<in>set b. int (length x) = build_cores" "int (length e) = gpus"
    "\<forall>x\<in>set e. int (length x) = eval_cores" by metis+
  show "length c = 8" using n by (simp add: parts)
  have all: "c @ concat b @ concat e = take (8 + nb + ne) ids"
    unfolding parts chunks_concat [OF lb(1)] chunks_concat [OF lb(2)] by (simp only: take_add drop_drop append_assoc add.commute [of nb 8])
  have "map topology ids = map fst ?G" unfolding ids_def by (rule head_cores [OF ok])
  then have "distinct (map topology ids)" using ok by (simp add: groups_ok_def)
  then show "distinct (map topology (c @ concat b @ concat e))" unfolding all take_map [symmetric] by (rule distinct_take)
  have "set ids \<subseteq> set cpus" using head_cores(2) [OF ok] by (auto simp: ids_def)
  then show "set (c @ concat b @ concat e) \<subseteq> set cpus" unfolding all using set_take_subset by fast
qed

theorem layout_isolated_witness:
  "\<exists>r. controlled_layout (\<lambda>c. c div 2) (map int [0..<22]) 1 1 2 1 = Inr r \<and> (\<forall>b e c. r = (b, e, c) \<longrightarrow> length c = 8)"
proof -
  have c: "card ((\<lambda>c. c div 2) ` set (map int [0..<22])) = 11" by code_simp
  have "distinct (map int [0..<22])" by (simp add: distinct_map)
  with layout_isolated [of "\<lambda>c. c div 2" "map int [0..<22]" 1 1 2 1] c show ?thesis by auto
qed

end
