(* ===== verification/Model_Completion.thy ===== *)
theory Model_Completion
  imports Prelude
begin

text \<open>
  The shell-call grammar of generated completions, \<^verbatim>\<open>rollout_manager/model_completion.py\<close>. The JSON reader
  and writer and SHA-256 are arguments: \<open>loads\<close> keeps repeated keys and nonfinite constants, which the
  hooks of \<^verbatim>\<open>_strict_object\<close> then reject. Strings are byte strings, so the encoded length of a command is
  its length.
\<close>

section \<open>Grammar\<close>

definition format_error_codes :: "string list" where
  "format_error_codes = [''unexpected_thinking'', ''incomplete_tool_envelope'', ''invalid_tool_json'',
     ''unsupported_tool_schema'', ''invalid_shell_arguments'', ''invalid_shell_command'']"

definition open_tag :: string where "open_tag = ''<tool_call>''"

definition close_tag :: string where "close_tag = ''</tool_call>''"

text \<open>The text before and after the first occurrence of a tag.\<close>

fun cut_at :: "string \<Rightarrow> string \<Rightarrow> (string \<times> string) option" where
  "cut_at tag [] = (if tag = [] then Some ([], []) else None)"
| "cut_at tag (c # s) =
     (if prefix tag (c # s) then Some ([], drop (length tag) (c # s))
      else map_option (\<lambda>(b, a). (c # b, a)) (cut_at tag s))"

lemma cut_at_length: "cut_at tag s = Some (b, a) \<Longrightarrow> length s = length b + length tag + length a"
  by (induction tag s arbitrary: b a rule: cut_at.induct) (auto split: if_splits dest!: prefix_length_le)

text \<open>
  \<^verbatim>\<open>_TOOL_CALL.finditer\<close> and \<^verbatim>\<open>_TOOL_CALL.sub("", text)\<close>: the bodies of the envelopes, from an opening tag to
  the next closing tag, without the blanks around them, and the text outside. An opening tag with no
  closing tag behind it ends the matching.
\<close>

function tool_scan :: "string \<Rightarrow> string list \<times> string" where
  "tool_scan text =
     (case cut_at open_tag text of
        None \<Rightarrow> ([], text)
      | Some (b, rest) \<Rightarrow>
          case cut_at close_tag rest of
            None \<Rightarrow> ([], text)
          | Some (inner, a) \<Rightarrow>
              let (ms, outside) = tool_scan a in (strip inner # ms, b @ outside))"
  by pat_completeness auto
termination
  by (relation "measure length") (auto dest!: cut_at_length simp: open_tag_def close_tag_def)

declare tool_scan.simps [simp del]

section \<open>Completions\<close>

fun all_finite :: "json \<Rightarrow> bool" where
  "all_finite (JFloat f) = isfinite f"
| "all_finite (JList xs) = list_all all_finite xs"
| "all_finite (JObj d) = list_all (\<lambda>p. all_finite (snd p)) d"
| "all_finite _ = True"

definition strict_object :: "(string \<Rightarrow> json result) \<Rightarrow> string \<Rightarrow> dict result" where
  "strict_object loads raw =
     bindE (loads raw) (\<lambda>v.
       if \<not> unique_keys v then Inl (ValueError ''duplicate generated JSON key'')
       else if \<not> all_finite v then Inl (ValueError ''nonfinite generated JSON value'')
       else case v of JObj d \<Rightarrow> Inr d | _ \<Rightarrow> Inl (ValueError ''generated tool call must be a JSON object''))"

definition valid_command :: "json \<Rightarrow> bool" where
  "valid_command v = (case v of JStr s \<Rightarrow> strip s \<noteq> [] \<and> CHR 0x00 \<notin> set s \<and> length s \<le> 8192 | _ \<Rightarrow> False)"

text \<open>\<^verbatim>\<open>except ValueError as error\<close>: another exception of the reader passes through.\<close>

definition as_format_error :: "'a result \<Rightarrow> 'a result" where
  "as_format_error r =
     (case r of Inl (ValueError m) \<Rightarrow> Inl (ModelCompletionFormatError m ''invalid_tool_json'') | _ \<Rightarrow> r)"

definition call_arguments :: "(string \<Rightarrow> json result) \<Rightarrow> string \<Rightarrow> dict result" where
  "call_arguments loads raw =
     bindE (as_format_error (strict_object loads raw)) (\<lambda>call.
       if \<not> keys_are call [''name'', ''arguments''] \<or> dget call ''name'' \<noteq> JStr ''shell''
       then Inl (ModelCompletionFormatError ''only the Qwen shell tool is supported'' ''unsupported_tool_schema'')
       else case dget call ''arguments'' of
           JObj arguments \<Rightarrow>
             if \<not> keys_are arguments [''cmd'']
             then Inl (ModelCompletionFormatError ''shell arguments must contain only cmd'' ''invalid_shell_arguments'')
             else if \<not> valid_command (dget arguments ''cmd'')
             then Inl (ModelCompletionFormatError ''generated shell command is invalid or exceeds its byte budget''
                    ''invalid_shell_command'')
             else Inr arguments
         | _ \<Rightarrow> Inl (ModelCompletionFormatError ''shell arguments must contain only cmd'' ''invalid_shell_arguments''))"

definition call_id :: "string \<Rightarrow> nat \<Rightarrow> nat \<Rightarrow> string" where
  "call_id request_id n index = ''call_'' @ request_id @ (if n = 1 then [] else ''_'' @ show_nat index)"

definition tool_call :: "(json \<Rightarrow> string) \<Rightarrow> string \<Rightarrow> dict \<Rightarrow> json" where
  "tool_call dumps i arguments =
     JObj [(''id'', JStr i), (''type'', JStr ''function''),
           (''function'', JObj [(''name'', JStr ''shell''), (''arguments'', JStr (dumps (JObj arguments)))])]"

fun tool_calls ::
  "(string \<Rightarrow> json result) \<Rightarrow> (json \<Rightarrow> string) \<Rightarrow> string \<Rightarrow> nat \<Rightarrow> nat \<Rightarrow> string list \<Rightarrow> json list result" where
  "tool_calls loads dumps request_id n index [] = Inr []"
| "tool_calls loads dumps request_id n index (m # ms) =
     bindE (call_arguments loads m) (\<lambda>arguments.
       bindE (tool_calls loads dumps request_id n (Suc index) ms) (\<lambda>calls.
         Inr (tool_call dumps (call_id request_id n index) arguments # calls)))"

definition shell_completion ::
  "(string \<Rightarrow> json result) \<Rightarrow> (json \<Rightarrow> string) \<Rightarrow> string \<Rightarrow> string \<Rightarrow> bool \<Rightarrow> (dict \<times> string) result" where
  "shell_completion loads dumps text request_id truncated =
     (if truncated then Inr ([(''role'', JStr ''assistant''), (''content'', JStr text)], ''length'')
      else if contains_sub ''<think>'' text \<or> contains_sub ''</think>'' text
      then Inl (ModelCompletionFormatError ''this controller requires thinking-disabled completions'' ''unexpected_thinking'')
      else
        let (matches, outside) = tool_scan text; content = strip outside in
        if contains_sub open_tag content \<or> contains_sub close_tag content
        then Inl (ModelCompletionFormatError ''expected complete serial shell calls'' ''incomplete_tool_envelope'')
        else
          let message = [(''role'', JStr ''assistant''), (''content'', JStr content)] in
          if matches = [] then Inr (message, ''stop'')
          else bindE (tool_calls loads dumps request_id (length matches) 0 matches)
                 (\<lambda>calls. Inr (message @ [(''tool_calls'', JList calls)], ''tool_calls'')))"

section \<open>Tagged format failures\<close>

definition invalid_tool_status :: "(string \<Rightarrow> string) \<Rightarrow> string \<Rightarrow> string \<Rightarrow> exn \<Rightarrow> dict result" where
  "invalid_tool_status sha text request_id error =
     (case error of
        ModelCompletionFormatError m code \<Rightarrow>
          Inr [(''schema_version'', JInt 1), (''outcome'', JStr ''invalid_tool''), (''request_id'', JStr request_id),
               (''error_code'', JStr code), (''decoded_action_text_sha256'', JStr (sha text)),
               (''tools_executable'', JBool False)]
      | _ \<Rightarrow> Inl (TypeError ''invalid-tool outcome requires a typed model grammar failure''))"

definition status_keys :: "string list" where
  "status_keys = [''schema_version'', ''outcome'', ''request_id'', ''error_code'', ''decoded_action_text_sha256'', ''tools_executable'']"

definition error_code_ok :: "json \<Rightarrow> bool" where
  "error_code_ok v = (case v of JStr s \<Rightarrow> s \<in> set format_error_codes | _ \<Rightarrow> False)"

definition status_ok :: "dict \<Rightarrow> string \<Rightarrow> bool" where
  "status_ok status request_id \<longleftrightarrow>
     keys_are status status_keys \<and> dget status ''schema_version'' = JInt 1 \<and>
     dget status ''outcome'' = JStr ''invalid_tool'' \<and> dget status ''request_id'' = JStr request_id \<and>
     is_hex 32 request_id \<and> error_code_ok (dget status ''error_code'') \<and> dget status ''tools_executable'' = JBool False"

definition preserved_message :: "(string \<Rightarrow> string) \<Rightarrow> dict \<Rightarrow> dict \<Rightarrow> bool" where
  "preserved_message sha status choice =
     (case dget choice ''message'' of
        JObj message \<Rightarrow>
          keys_are message [''role'', ''content''] \<and> dget message ''role'' = JStr ''assistant'' \<and>
          dget choice ''finish_reason'' = JStr ''stop'' \<and>
          (case dget message ''content'' of
             JStr text \<Rightarrow> dget status ''decoded_action_text_sha256'' = JStr (sha text) | _ \<Rightarrow> False)
      | _ \<Rightarrow> False)"

definition validate_model_completion_status ::
  "(string \<Rightarrow> string) \<Rightarrow> dict \<Rightarrow> string \<Rightarrow> dict option result" where
  "validate_model_completion_status sha completion request_id =
     (case dget completion ''model_completion_status'' of
        JNull \<Rightarrow> Inr None
      | JObj status \<Rightarrow>
          if \<not> status_ok status request_id then Inl (ValueError ''invalid completed-model format status'')
          else (case dget completion ''choices'' of
                  JList [JObj choice] \<Rightarrow>
                    if \<not> preserved_message sha status choice
                    then Inl (ValueError ''invalid-tool outcome must preserve raw text and forbid tool execution'')
                    else Inr (Some status)
                | _ \<Rightarrow> Inl (ValueError ''invalid-tool outcome requires one completed choice''))
      | _ \<Rightarrow> Inl (ValueError ''invalid completed-model format status''))"

section \<open>Properties\<close>

lemma call_arguments_Inr:
  "call_arguments loads raw = Inr a \<Longrightarrow> keys_are a [''cmd''] \<and> valid_command (dget a ''cmd'')"
proof -
  assume "call_arguments loads raw = Inr a"
  then obtain call where "(case dget call ''arguments'' of
           JObj arguments \<Rightarrow>
             if \<not> keys_are arguments [''cmd'']
             then Inl (ModelCompletionFormatError ''shell arguments must contain only cmd'' ''invalid_shell_arguments'')
             else if \<not> valid_command (dget arguments ''cmd'')
             then Inl (ModelCompletionFormatError ''generated shell command is invalid or exceeds its byte budget''
                    ''invalid_shell_command'')
             else Inr arguments
         | _ \<Rightarrow> Inl (ModelCompletionFormatError ''shell arguments must contain only cmd'' ''invalid_shell_arguments'')) = Inr a"
    unfolding call_arguments_def bindE_Inr_iff guard_Inr_iff by blast
  then show ?thesis by (cases "dget call ''arguments''") (simp_all split: if_split_asm)
qed

lemma tool_calls_Inr:
  "tool_calls loads dumps rid n i ms = Inr calls \<Longrightarrow> \<exists>args. length args = length ms \<and>
     calls = map (\<lambda>(j, a). tool_call dumps (call_id rid n j) a) (enumerate i args) \<and>
     list_all2 (\<lambda>m a. call_arguments loads m = Inr a) ms args"
proof (induction ms arbitrary: i calls)
  case (Cons m ms)
  then obtain a cs where a: "call_arguments loads m = Inr a" "tool_calls loads dumps rid n (Suc i) ms = Inr cs"
      "calls = tool_call dumps (call_id rid n i) a # cs" by (auto simp: bindE_Inr_iff)
  from Cons.IH [OF a(2)] obtain args where "length args = length ms"
      "cs = map (\<lambda>(j, a). tool_call dumps (call_id rid n j) a) (enumerate (Suc i) args)"
      "list_all2 (\<lambda>m a. call_arguments loads m = Inr a) ms args" by blast
  with a show ?case by (intro exI [of _ "a # args"]) simp
qed simp

lemma call_ids_distinct: "distinct (map (call_id rid n) [0..<n])"
  by (auto simp: distinct_map inj_on_def call_id_def dest: show_nat_inj)

definition raises_format_error :: "'a result \<Rightarrow> bool" where
  "raises_format_error r \<longleftrightarrow> (\<exists>m code. r = Inl (ModelCompletionFormatError m code) \<and> code \<in> set format_error_codes)"

lemma raises_format_errorI:
  "code \<in> set format_error_codes \<Longrightarrow> raises_format_error (Inl (ModelCompletionFormatError m code))"
  by (auto simp: raises_format_error_def)

lemma codes_listed:
  "''unexpected_thinking'' \<in> set format_error_codes" "''incomplete_tool_envelope'' \<in> set format_error_codes"
  "''invalid_tool_json'' \<in> set format_error_codes" "''unsupported_tool_schema'' \<in> set format_error_codes"
  "''invalid_shell_arguments'' \<in> set format_error_codes" "''invalid_shell_command'' \<in> set format_error_codes"
  by (simp_all add: format_error_codes_def)

lemmas format_error_rules = codes_listed [THEN raises_format_errorI]

definition only_value_errors :: "('x \<Rightarrow> 'a result) \<Rightarrow> bool" where
  "only_value_errors f \<longleftrightarrow> (\<forall>x e. f x = Inl e \<longrightarrow> (\<exists>m. e = ValueError m))"

lemma strict_object_errors: "only_value_errors loads \<Longrightarrow> only_value_errors (strict_object loads)"
  unfolding only_value_errors_def strict_object_def bindE_def by (auto split: sum.splits if_split_asm json.splits)

lemma call_arguments_error:
  assumes "only_value_errors loads" "call_arguments loads raw = Inl e"
  shows "raises_format_error (Inl e :: dict result)"
proof (cases "strict_object loads raw")
  case (Inl e')
  then obtain m where "e' = ValueError m" using strict_object_errors [OF assms(1)] by (auto simp: only_value_errors_def)
  with Inl assms(2) show ?thesis by (auto simp: call_arguments_def as_format_error_def intro: format_error_rules)
next
  case (Inr call)
  with assms(2) show ?thesis
    unfolding call_arguments_def as_format_error_def
    by (auto simp: format_error_rules split: if_split_asm json.splits)
qed

lemma tool_calls_error:
  "only_value_errors loads \<Longrightarrow> tool_calls loads dumps rid n i ms = Inl e \<Longrightarrow> raises_format_error (Inl e :: dict result)"
proof (induction ms arbitrary: i)
  case (Cons m ms)
  then show ?case
    by (cases "call_arguments loads m"; cases "tool_calls loads dumps rid n (Suc i) ms") (auto dest: call_arguments_error)
qed simp

lemma shell_completion_error:
  assumes "only_value_errors loads" "shell_completion loads dumps text rid tr = Inl e"
  shows "raises_format_error (Inl e :: dict result)"
proof -
  obtain ms out where sc: "tool_scan text = (ms, out)" by (rule prod.exhaust)
  show ?thesis
    using assms(2) tool_calls_error [OF assms(1), of dumps rid "length ms" 0 ms e]
    unfolding shell_completion_def sc Let_def prod.case
    by (cases "tool_calls loads dumps rid (length ms) 0 ms")
      (auto simp: format_error_rules split: if_split_asm)
qed


text \<open>
  When the grammar rejects a sampled text, and the JSON reader raises nothing but value errors, the
  error is typed with one of the listed codes, the status that the controller builds from it is accepted
  by the validator together with the raw text as the only message, and the status forbids tool execution.
\<close>

theorem format_failure_validates:
  assumes "only_value_errors loads" "shell_completion loads dumps text rid tr = Inl e" "is_hex 32 rid"
  shows "\<exists>status. invalid_tool_status sha text rid e = Inr status \<and> dget status ''tools_executable'' = JBool False \<and>
    validate_model_completion_status sha
      [(''choices'', JList [JObj [(''index'', JInt 0),
          (''message'', JObj [(''role'', JStr ''assistant''), (''content'', JStr text)]), (''finish_reason'', JStr ''stop'')]]),
       (''model_completion_status'', JObj status)] rid = Inr (Some status)"
proof -
  from shell_completion_error [OF assms(1,2)] obtain m code where e: "e = ModelCompletionFormatError m code"
      and code: "code \<in> set format_error_codes" by (auto simp: raises_format_error_def)
  from code assms(3) show ?thesis
    by (simp add: e invalid_tool_status_def validate_model_completion_status_def status_ok_def keys_are_def status_keys_def
        error_code_ok_def preserved_message_def insert_commute)
qed

section \<open>Witnesses\<close>

definition demo_loads :: "string \<Rightarrow> json result" where
  "demo_loads s = (if s = ''x'' then Inr (JObj [(''name'', JStr ''shell''), (''arguments'', JObj [(''cmd'', JStr ''ls'')])])
     else Inl (ValueError ''bad''))"

lemma demo_scan: "tool_scan ''<tool_call> x</tool_call>'' = ([''x''], [])"
proof -
  have "cut_at open_tag ''<tool_call> x</tool_call>'' = Some ([], '' x</tool_call>'')" by code_simp
  moreover have "cut_at close_tag '' x</tool_call>'' = Some ('' x'', [])" by code_simp
  moreover have "cut_at open_tag [] = None" "strip '' x'' = ''x''" by code_simp+
  ultimately show ?thesis by (simp add: tool_scan.simps)
qed

lemma demo_scan_bad: "tool_scan ''<tool_call>y</tool_call>'' = ([''y''], [])"
proof -
  have "cut_at open_tag ''<tool_call>y</tool_call>'' = Some ([], ''y</tool_call>'')" by code_simp
  moreover have "cut_at close_tag ''y</tool_call>'' = Some (''y'', [])" by code_simp
  moreover have "cut_at open_tag [] = None" "strip ''y'' = ''y''" by code_simp+
  ultimately show ?thesis by (simp add: tool_scan.simps)
qed

lemma demo_clean:
  "\<not> contains_sub ''<think>'' ''<tool_call> x</tool_call>''" "\<not> contains_sub ''</think>'' ''<tool_call> x</tool_call>''"
  "\<not> contains_sub ''<think>'' ''<tool_call>y</tool_call>''" "\<not> contains_sub ''</think>'' ''<tool_call>y</tool_call>''"
  "\<not> contains_sub open_tag []" "\<not> contains_sub close_tag []" "strip [] = []"
  by code_simp+

lemma demo_arguments: "call_arguments demo_loads ''x'' = Inr [(''cmd'', JStr ''ls'')]"
proof -
  have "valid_command (JStr ''ls'')" by code_simp
  then show ?thesis
    by (simp add: call_arguments_def strict_object_def demo_loads_def as_format_error_def keys_are_def)
qed


theorem format_failure_validates_witness:
  "\<exists>e status. shell_completion demo_loads (\<lambda>_. ''j'') ''<tool_call>y</tool_call>'' (replicate 32 CHR ''a'') False = Inl e \<and>
     invalid_tool_status (\<lambda>_. ''d'') ''<tool_call>y</tool_call>'' (replicate 32 CHR ''a'') e = Inr status"
proof -
  have "\<exists>e. shell_completion demo_loads (\<lambda>_. ''j'') ''<tool_call>y</tool_call>'' (replicate 32 CHR ''a'') False = Inl e"
    unfolding shell_completion_def demo_scan_bad
    by (simp add: demo_clean call_arguments_def strict_object_def demo_loads_def as_format_error_def open_tag_def close_tag_def)
  then obtain e where e: "shell_completion demo_loads (\<lambda>_. ''j'') ''<tool_call>y</tool_call>'' (replicate 32 CHR ''a'') False = Inl e" by blast
  have "only_value_errors demo_loads" by (simp add: only_value_errors_def demo_loads_def)
  moreover have "is_hex 32 (replicate 32 CHR ''a'')" by (simp add: is_hex_def list_all_iff)
  ultimately show ?thesis using format_failure_validates [OF _ e, of "\<lambda>_. ''d''"] e by blast
qed

end
