(* ===== verification/Policy_Controller.thy ===== *)
theory Policy_Controller
  imports Generation_Training Model_Completion Transition
begin

text \<open>
  The serving controller of one mounted policy, \<^verbatim>\<open>rollout_manager/backends/pytorch_controller.py\<close>:
  admission of generations, the pause, activate and resume barrier, and the evidence that a completion
  carries. The condition variable and the control lock make each critical section atomic; a control call
  that awaits the drain or the load is two steps, between which generations may run. What the mounted
  files, the loader, the sampler and the tokenizer return are inputs of the steps. Identities of an
  artifact are a dictionary, as the learner writes them.
\<close>

section \<open>Artifacts\<close>

record artifact =
  art_version :: json
  art_digest :: json
  art_lineage :: json
  art_identity :: dict
  art_sampling :: json

text \<open>\<^verbatim>\<open>artifact_policy\<close> of \<^verbatim>\<open>rollout_manager/benchmark_training.py\<close>.\<close>

definition artifact_policy :: "(json \<Rightarrow> string result) \<Rightarrow> dict \<Rightarrow> artifact \<Rightarrow> policy_ref result" where
  "artifact_policy dig idents a =
     bindE (dig (JObj (art_identity a))) (\<lambda>h.
       PolicyRef (art_version a) (art_digest a) (art_lineage a)
         (JObj (dupdate idents [(''run_identity_sha256'', JStr h)])) (art_sampling a))"

definition artifact_ack :: "artifact \<Rightarrow> dict" where
  "artifact_ack a = [(''version'', art_version a), (''digest'', art_digest a), (''lineage'', art_lineage a)]"

text \<open>The controller's fixed configuration and what the mounted directory holds when it is read.\<close>

record serving_config =
  sc_temperature :: rat
  sc_scope :: string
  sc_max_new_tokens :: int
  sc_max_prompt_tokens :: "int option"
  sc_max_positions :: int
  sc_served_model :: string
  sc_identities :: dict

record mounted =
  mnt_config_sha :: string
  mnt_base_files :: json
  mnt_text_assets :: dict
  mnt_tokenizer :: "dict result"

datatype phase = New | Loading | Running | Paused | Failed | Closed

datatype control = Idle | Starting artifact | Pausing | Activating artifact | Closing

record generation =
  g_request :: string
  g_payload :: dict
  g_prompt :: "int list"
  g_policy :: policy_ref

text \<open>
  \<open>ct_model\<close> is the artifact whose weights the model holds in full, \<open>ct_flight\<close> the admitted generations that
  have not returned, with what they took from the controller on admission, and \<open>ct_control\<close> the control call
  that holds the control lock.
\<close>

record controller =
  ct_phase :: phase
  ct_active :: int
  ct_drained :: bool
  ct_seen :: "string list"
  ct_policy :: "policy_ref option"
  ct_ack :: "dict option"
  ct_artifact :: "artifact option"
  ct_model :: "artifact option"
  ct_control :: control
  ct_flight :: "generation list"

definition new_controller :: controller where
  "new_controller = \<lparr>ct_phase = New, ct_active = 0, ct_drained = False, ct_seen = [], ct_policy = None, ct_ack = None,
     ct_artifact = None, ct_model = None, ct_control = Idle, ct_flight = []\<rparr>"

section \<open>Checking an artifact\<close>

definition default_sampling :: "serving_config \<Rightarrow> json" where
  "default_sampling cfg =
     JObj [(''temperature'', JFloat (Fin (sc_temperature cfg))), (''top_p'', JInt 1), (''top_k'', JInt 0)]"

definition same_profile :: "serving_config \<Rightarrow> dict \<Rightarrow> string \<Rightarrow> bool" where
  "same_profile cfg identity k \<longleftrightarrow> py_eq (dget identity k) (dget (sc_identities cfg) k)"

definition pretrained_ok :: "serving_config \<Rightarrow> mounted \<Rightarrow> dict \<Rightarrow> bool" where
  "pretrained_ok cfg m identity \<longleftrightarrow>
     dget identity ''random_init'' = JBool False \<and> dget identity ''trainable_scope'' = JStr (sc_scope cfg) \<and>
     dget identity ''model_config_sha256'' = JStr (mnt_config_sha m)"

definition files_ok :: "mounted \<Rightarrow> dict \<Rightarrow> bool" where
  "files_ok m identity \<longleftrightarrow> mnt_base_files m \<noteq> JList [] \<and> py_eq (dget identity ''base_files'') (mnt_base_files m)"

definition text_assets_ok :: "serving_config \<Rightarrow> mounted \<Rightarrow> dict \<Rightarrow> bool" where
  "text_assets_ok cfg m identity \<longleftrightarrow>
     py_eq (dget (fields_of (dget identity ''engram_mapping_sha256'')) ''tokenizer.json'')
       (dget (sc_identities cfg) ''tokenizer_sha256'') \<and>
     py_eq (dget_default identity ''text_assets_sha256'' (JObj [])) (JObj (mnt_text_assets m))"

definition mounted_unchanged :: "serving_config \<Rightarrow> dict \<Rightarrow> bool" where
  "mounted_unchanged cfg now \<longleftrightarrow> list_all (\<lambda>(k, v). py_eq (dget (sc_identities cfg) k) v) now"

definition newer :: "policy_ref \<Rightarrow> artifact \<Rightarrow> policy_ref \<Rightarrow> artifact option \<Rightarrow> bool" where
  "newer candidate a p old \<longleftrightarrow>
     lineage candidate = lineage p \<and> version p < version candidate \<and>
     (case old of None \<Rightarrow> False | Some b \<Rightarrow> py_eq (JObj (art_identity a)) (JObj (art_identity b))) \<and>
     py_eq (JObj (identities candidate)) (JObj (identities p))"

definition check_artifact ::
  "(json \<Rightarrow> string result) \<Rightarrow> serving_config \<Rightarrow> mounted \<Rightarrow> artifact \<Rightarrow> 'a controller_scheme \<Rightarrow> policy_ref result" where
  "check_artifact dig cfg m a c =
     bindE (artifact_policy dig (sc_identities cfg) a) (\<lambda>candidate.
       let identity = art_identity a in
       if \<not> py_eq (JObj (sampling candidate)) (default_sampling cfg)
       then Inl (ValueError ''artifact sampling differs from the controller'')
       else if \<not> same_profile cfg identity ''qwen_logits_path''
       then Inl (ValueError ''artifact differs from the selected Qwen logits profile'')
       else if \<not> same_profile cfg identity ''qwen_sampling_path''
       then Inl (ValueError ''artifact differs from the selected Qwen sampling profile'')
       else if \<not> pretrained_ok cfg m identity
       then Inl (ValueError ''artifact differs from the mounted pretrained configuration or trainable scope'')
       else if \<not> files_ok m identity
       then Inl (ValueError ''artifact mounted base-file inventory differs'')
       else if \<not> text_assets_ok cfg m identity
       then Inl (ValueError ''artifact tokenizer, chat template or generation metadata differs'')
       else bindE (mnt_tokenizer m) (\<lambda>now.
         if \<not> mounted_unchanged cfg now
         then Inl (ValueError ''mounted tokenizer or selected chat template changed'')
         else case ct_policy c of
             None \<Rightarrow> Inr candidate
           | Some p \<Rightarrow>
               if \<not> newer candidate a p (ct_artifact c)
               then Inl (ValueError ''activation requires a newer same-lineage policy with identical base identity'')
               else Inr candidate))"

section \<open>Loading\<close>

text \<open>What the loader returns: an acknowledgement and the result of the invariant check, or an exception.\<close>

record load_env =
  le_mounted :: mounted
  le_ack :: "dict result"
  le_invariants :: "unit result"

definition fail_load :: "'a controller_scheme \<Rightarrow> 'a controller_scheme" where
  "fail_load c = c\<lparr>ct_phase := Failed, ct_model := None\<rparr>"

definition load_weights ::
  "(json \<Rightarrow> string result) \<Rightarrow> serving_config \<Rightarrow> load_env \<Rightarrow> bool \<Rightarrow> artifact \<Rightarrow> 'a controller_scheme \<Rightarrow>
     dict result \<times> 'a controller_scheme" where
  "load_weights dig cfg env initial a c =
     (case check_artifact dig cfg (le_mounted env) a c of
        Inl e \<Rightarrow> (Inl e, c)
      | Inr candidate \<Rightarrow>
          case le_ack env of
            Inl e \<Rightarrow> (Inl e, fail_load c)
          | Inr ack \<Rightarrow>
              if \<not> py_eq (JObj ack) (JObj (artifact_ack a))
              then (Inl (ValueError ''loaded policy acknowledgement differs from the immutable artifact''), fail_load c)
              else case le_invariants env of
                  Inl e \<Rightarrow> (Inl e, fail_load c)
                | Inr _ \<Rightarrow>
                    (Inr ack, c\<lparr>ct_policy := Some candidate, ct_ack := Some ack, ct_artifact := Some a, ct_model := Some a,
                               ct_phase := (if initial then Running else Paused)\<rparr>))"

section \<open>Control calls\<close>

datatype reply = Lock_wait | Raised exn | Cancelled_call | Accepted | Receipt dict

definition start_call :: "artifact \<Rightarrow> 'a controller_scheme \<Rightarrow> reply \<times> 'a controller_scheme" where
  "start_call a c =
     (if ct_control c \<noteq> Idle then (Lock_wait, c)
      else if ct_phase c \<noteq> New then (Raised (RuntimeError ''controller start is single-use''), c)
      else (Accepted, c\<lparr>ct_phase := Loading, ct_control := Starting a\<rparr>))"

definition start_done ::
  "(json \<Rightarrow> string result) \<Rightarrow> serving_config \<Rightarrow> load_env \<Rightarrow> bool \<Rightarrow> 'a controller_scheme \<Rightarrow> reply \<times> 'a controller_scheme" where
  "start_done dig cfg env cancelled c =
     (case ct_control c of
        Starting a \<Rightarrow>
          (case load_weights dig cfg env True a c of
             (Inl e, c) \<Rightarrow> (Raised e, c\<lparr>ct_phase := Failed, ct_control := Idle\<rparr>)
           | (Inr ack, c) \<Rightarrow>
               if cancelled then (Cancelled_call, c\<lparr>ct_phase := Failed, ct_control := Idle\<rparr>)
               else (Receipt ack, c\<lparr>ct_control := Idle\<rparr>))
      | _ \<Rightarrow> (Lock_wait, c))"

definition drain_receipt :: "dict \<Rightarrow> dict" where
  "drain_receipt ack = dupdate ack [(''drain_complete'', JBool True), (''active_requests'', JInt 0)]"

definition pause_call :: "'a controller_scheme \<Rightarrow> reply \<times> 'a controller_scheme" where
  "pause_call c =
     (if ct_control c \<noteq> Idle then (Lock_wait, c)
      else if ct_phase c \<noteq> Running \<and> ct_phase c \<noteq> Paused
      then (Raised (RuntimeError ''cannot pause an unloaded or failed policy''), c)
      else (Accepted, c\<lparr>ct_phase := Paused, ct_drained := False, ct_control := Pausing\<rparr>))"

definition pause_done :: "bool \<Rightarrow> 'a controller_scheme \<Rightarrow> reply \<times> 'a controller_scheme" where
  "pause_done cancelled c =
     (if ct_control c \<noteq> Pausing \<or> ct_active c \<noteq> 0 then (Lock_wait, c)
      else if cancelled then (Cancelled_call, c\<lparr>ct_control := Idle\<rparr>)
      else case ct_ack c of
          None \<Rightarrow> (Raised (TypeError ''argument after ** must be a mapping''), c\<lparr>ct_drained := True, ct_control := Idle\<rparr>)
        | Some ack \<Rightarrow> (Receipt (drain_receipt ack), c\<lparr>ct_drained := True, ct_control := Idle\<rparr>))"

definition activate_call :: "artifact \<Rightarrow> 'a controller_scheme \<Rightarrow> reply \<times> 'a controller_scheme" where
  "activate_call a c =
     (if ct_control c \<noteq> Idle then (Lock_wait, c)
      else if ct_phase c \<noteq> Paused \<or> \<not> ct_drained c \<or> ct_active c \<noteq> 0
      then (Raised (RuntimeError ''activation requires a proven paused sampler drain''), c)
      else (Accepted, c\<lparr>ct_drained := False, ct_control := Activating a\<rparr>))"

definition activate_done ::
  "(json \<Rightarrow> string result) \<Rightarrow> serving_config \<Rightarrow> load_env \<Rightarrow> bool \<Rightarrow> 'a controller_scheme \<Rightarrow> reply \<times> 'a controller_scheme" where
  "activate_done dig cfg env cancelled c =
     (case ct_control c of
        Activating a \<Rightarrow>
          (case load_weights dig cfg env False a c of
             (Inl e, c) \<Rightarrow> (Raised e, c\<lparr>ct_control := Idle\<rparr>)
           | (Inr ack, c) \<Rightarrow>
               if cancelled then (Cancelled_call, c\<lparr>ct_phase := Failed, ct_control := Idle\<rparr>)
               else (Receipt ack, c\<lparr>ct_control := Idle\<rparr>))
      | _ \<Rightarrow> (Lock_wait, c))"

definition resume_call :: "'a controller_scheme \<Rightarrow> reply \<times> 'a controller_scheme" where
  "resume_call c =
     (if ct_control c \<noteq> Idle then (Lock_wait, c)
      else if ct_phase c \<noteq> Paused \<or> ct_active c \<noteq> 0
      then (Raised (RuntimeError ''resume requires an unfailed paused policy''), c)
      else (case ct_ack c of
          None \<Rightarrow> (Raised (TypeError ''object is not iterable''), c\<lparr>ct_phase := Running, ct_drained := False\<rparr>)
        | Some ack \<Rightarrow> (Receipt ack, c\<lparr>ct_phase := Running, ct_drained := False\<rparr>)))"

definition close_call :: "'a controller_scheme \<Rightarrow> reply \<times> 'a controller_scheme" where
  "close_call c =
     (if ct_control c \<noteq> Idle then (Lock_wait, c)
      else (Accepted, c\<lparr>ct_phase := Closed, ct_drained := False, ct_control := Closing\<rparr>))"

definition close_done :: "bool \<Rightarrow> 'a controller_scheme \<Rightarrow> reply \<times> 'a controller_scheme" where
  "close_done cancelled c =
     (if ct_control c \<noteq> Closing \<or> ct_active c \<noteq> 0 then (Lock_wait, c)
      else let c = c\<lparr>ct_model := None, ct_control := Idle\<rparr> in
        if cancelled then (Cancelled_call, c)
        else (Receipt (drain_receipt (case ct_ack c of None \<Rightarrow> [] | Some ack \<Rightarrow> ack)), c))"

section \<open>Admission\<close>

definition capability_receipt :: "policy_ref \<Rightarrow> dict" where
  "capability_receipt p =
     [(''schema_version'', JInt 1), (''policy'', policy_to_dict p)] @ map (\<lambda>k. (k, JBool True)) required @
     [(''logprob_convention'', JStr ''sampled_distribution'')]"

definition serving_capabilities :: "'a controller_scheme \<Rightarrow> dict result" where
  "serving_capabilities c =
     (case ct_policy c of
        None \<Rightarrow> Inl (RuntimeError ''serving capabilities require a successfully loaded policy'')
      | Some p \<Rightarrow>
          if ct_phase c \<noteq> Running \<and> ct_phase c \<noteq> Paused
          then Inl (RuntimeError ''serving capabilities require a successfully loaded policy'')
          else Inr (capability_receipt p))"

definition shell_parameters :: json where
  "shell_parameters = JObj [(''type'', JStr ''object''), (''properties'', JObj [(''cmd'', JObj [(''type'', JStr ''string'')])]),
     (''required'', JList [JStr ''cmd'']), (''additionalProperties'', JBool False)]"

definition allowed_fields :: "string list" where
  "allowed_fields = [''model'', ''messages'', ''tools'', ''tool_choice'', ''parallel_tool_calls'', ''chat_template_kwargs'',
     ''stream'', ''temperature'', ''max_tokens'', ''top_p'', ''top_k'', ''n'']"

definition payload_supported :: "string \<Rightarrow> dict \<Rightarrow> bool" where
  "payload_supported served d \<longleftrightarrow>
     set (map fst d) \<subseteq> set allowed_fields \<and> dget d ''model'' = JStr served \<and> dget d ''tool_choice'' = JStr ''auto'' \<and>
     dget d ''parallel_tool_calls'' = JBool False \<and>
     py_eq (dget d ''chat_template_kwargs'') (JObj [(''enable_thinking'', JBool False)])"

definition shell_tool :: "json \<Rightarrow> bool" where
  "shell_tool v =
     (case v of
        JObj t \<Rightarrow> keys_are t [''type'', ''function''] \<and> dget t ''type'' = JStr ''function'' \<and>
          (case dget t ''function'' of
             JObj f \<Rightarrow> dget f ''name'' = JStr ''shell'' \<and> py_eq (dget f ''parameters'') shell_parameters
           | _ \<Rightarrow> False)
      | _ \<Rightarrow> False)"

fun int_value :: "json \<Rightarrow> int" where
  "int_value (JInt i) = i"
| "int_value _ = 0"

definition budget_ok :: "serving_config \<Rightarrow> int list \<Rightarrow> int \<Rightarrow> bool" where
  "budget_ok cfg prompt budget \<longleftrightarrow>
     budget \<le> sc_max_new_tokens cfg \<and>
     (case sc_max_prompt_tokens cfg of None \<Rightarrow> True | Some n \<Rightarrow> int (length prompt) \<le> n) \<and>
     int (length prompt) + budget \<le> sc_max_positions cfg"

text \<open>\<open>encode\<close> is the chat template of the mounted tokenizer, on the messages, the tools and its options.\<close>

definition context_prompt ::
  "(json \<Rightarrow> string result) \<Rightarrow> (json \<Rightarrow> json \<Rightarrow> json \<Rightarrow> int list result) \<Rightarrow> serving_config \<Rightarrow> policy_ref \<Rightarrow> dict \<Rightarrow>
     dict \<Rightarrow> int list result" where
  "context_prompt dig encode cfg p caps d =
     bindE (TrainingGenerationContract (Ref p) (JObj caps)) (\<lambda>contract.
     bindE (check_payload dig contract (JObj d)) (\<lambda>_.
       if \<not> payload_supported (sc_served_model cfg) d then Inl (ValueError ''unsupported benchmark generation payload'')
       else case dget d ''tools'' of
           JList [tool] \<Rightarrow>
             if \<not> shell_tool tool then Inl (ValueError ''unsupported shell tool schema'')
             else bindE (encode (dget d ''messages'') (dget d ''tools'') (dget d ''chat_template_kwargs'')) (\<lambda>prompt.
               if \<not> budget_ok cfg prompt (int_value (dget d ''max_tokens''))
               then Inl (ValueError ''request exceeds the configured action or untruncated context budget'')
               else Inr prompt)
         | _ \<Rightarrow> Inl (ValueError ''exactly one shell tool schema is required'')))"

definition generate_admit ::
  "(json \<Rightarrow> string result) \<Rightarrow> (json \<Rightarrow> json \<Rightarrow> json \<Rightarrow> int list result) \<Rightarrow> serving_config \<Rightarrow> string \<Rightarrow> dict \<Rightarrow>
     'a controller_scheme \<Rightarrow> reply \<times> 'a controller_scheme" where
  "generate_admit dig encode cfg rid d c =
     (if \<not> is_hex 32 rid then (Raised (ValueError ''generation requires a durable 32-hex request identity''), c)
      else if ct_phase c \<noteq> Running
      then (Raised (RuntimeError ''controller admission is paused, closed or unqualified''), c)
      else if rid \<in> set (ct_seen c)
      then (Raised (ValueError ''generation request identity was already admitted; no replay''), c)
      else case bindE (serving_capabilities c) (\<lambda>caps. context_prompt dig encode cfg (the (ct_policy c)) caps d) of
          Inl e \<Rightarrow> (Raised e, c)
        | Inr prompt \<Rightarrow>
            (Accepted, c\<lparr>ct_seen := rid # ct_seen c, ct_active := ct_active c + 1,
               ct_flight := \<lparr>g_request = rid, g_payload = d, g_prompt = prompt, g_policy = the (ct_policy c)\<rparr> # ct_flight c\<rparr>))"

section \<open>Completions with their evidence\<close>

definition raw_response :: "string \<Rightarrow> string \<Rightarrow> dict \<Rightarrow> string \<Rightarrow> nat \<Rightarrow> nat \<Rightarrow> dict" where
  "raw_response served rid message finish prompt_len response_len =
     [(''id'', JStr (''chatcmpl-'' @ rid)), (''object'', JStr ''chat.completion''), (''model'', JStr served),
      (''choices'', JList [JObj [(''index'', JInt 0), (''message'', JObj message), (''finish_reason'', JStr finish)]]),
      (''usage'', JObj [(''prompt_tokens'', JInt (int prompt_len)), (''completion_tokens'', JInt (int response_len)),
                        (''total_tokens'', JInt (int prompt_len + int response_len))])]"

definition evidence_finish :: "string \<Rightarrow> sample \<Rightarrow> string" where
  "evidence_finish finish s = (if finish = ''tool_calls'' then ''tool_calls'' else s_finish_reason s)"

definition with_evidence ::
  "(json \<Rightarrow> string result) \<Rightarrow> generation \<Rightarrow> sample \<Rightarrow> string \<Rightarrow> dict \<Rightarrow> dict result" where
  "with_evidence dig g s finish raw =
     bindE (dig (JObj (g_payload g))) (\<lambda>h. bindE (dig (JObj raw)) (\<lambda>r.
       Inr (raw @ [(''training_evidence'', JObj
         [(''schema_version'', JInt 1), (''request_id'', JStr (g_request g)), (''request_payload_sha256'', JStr h),
          (''response_sha256'', JStr r), (''policy'', policy_to_dict (g_policy g)),
          (''context_token_ids'', ints (s_prompt_ids s)), (''action_token_ids'', ints (s_response_ids s)),
          (''behavior_log_probs'', floats (s_behavior_log_probs s)), (''finish_reason'', JStr (evidence_finish finish s)),
          (''stop_token_count'', JInt (s_stop_token_count s)), (''context_truncation'', JStr ''none''),
          (''logprob_convention'', JStr ''sampled_distribution''), (''sampling_finish_reason'', JStr (s_finish_reason s))])])))"

text \<open>An exception of the body carries the stage it was raised in.\<close>

type_synonym 'a staged = "(string \<times> exn) + 'a"

definition at_stage :: "string \<Rightarrow> 'a result \<Rightarrow> ('a \<Rightarrow> 'b staged) \<Rightarrow> 'b staged" where
  "at_stage stage r f = (case r of Inl e \<Rightarrow> Inl (stage, e) | Inr x \<Rightarrow> f x)"

lemma at_stage_simps [simp]:
  "at_stage st (Inl e) f = Inl (st, e)" "at_stage st (Inr x) f = f x"
  "at_stage st r f = Inr y \<longleftrightarrow> (\<exists>x. r = Inr x \<and> f x = Inr y)"
  by (simp_all add: at_stage_def split: sum.split)

text \<open>
  What happens around one generation: the invariant checks of the model, the sampled group of one, the
  decoded text and the record on disk; \<open>rd\<close> and \<open>wr\<close> are the JSON reader and writer.
\<close>

record generation_env =
  ge_before :: "unit result"
  ge_sample :: "sample result"
  ge_text :: "string result"
  ge_persist :: "unit result"
  ge_after :: "unit result"

definition generate_body ::
  "(json \<Rightarrow> string result) \<Rightarrow> (string \<Rightarrow> json result) \<Rightarrow> (json \<Rightarrow> string) \<Rightarrow> serving_config \<Rightarrow> generation_env \<Rightarrow>
     generation \<Rightarrow> dict staged" where
  "generate_body dig rd wr cfg env g =
     at_stage ''model_invariants_before_sampling'' (ge_before env) (\<lambda>_.
     at_stage ''sampling'' (ge_sample env) (\<lambda>s.
     at_stage ''sample_decode'' (ge_text env) (\<lambda>text.
     at_stage ''sample_persistence'' (ge_persist env) (\<lambda>_.
     at_stage ''model_invariants_after_sampling'' (ge_after env) (\<lambda>_.
     at_stage ''shell_completion''
       (bindE (shell_completion rd wr text (g_request g) (s_finish_reason s = ''length'')) (\<lambda>(message, finish).
          with_evidence dig g s finish
            (raw_response (sc_served_model cfg) (g_request g) message finish (length (g_prompt g)) (length (s_response_ids s)))))
       (\<lambda>completion.
     at_stage ''training_evidence_validation''
       (bindE (TrainingGenerationContract (Ref (g_policy g)) (JObj (capability_receipt (g_policy g)))) (\<lambda>contract.
          validate dig contract (JObj (g_payload g)) (JObj completion) (g_request g) 1))
       (\<lambda>_. Inr completion)))))))"

text \<open>The \<^verbatim>\<open>finally\<close> clause: the generation leaves whatever its outcome was.\<close>

definition generate_leave :: "nat \<Rightarrow> 'a controller_scheme \<Rightarrow> 'a controller_scheme" where
  "generate_leave i c =
     (if i < length (ct_flight c)
      then c\<lparr>ct_active := ct_active c - 1, ct_flight := take i (ct_flight c) @ drop (Suc i) (ct_flight c)\<rparr>
      else c)"

section \<open>The controller as a system\<close>

datatype action =
    Start artifact
  | Start_end load_env bool
  | Pause
  | Pause_end bool
  | Activate artifact
  | Activate_end load_env bool
  | Resume
  | Close
  | Close_end bool
  | Admit string dict
  | Leave_generation nat

fun controller_reply ::
  "(json \<Rightarrow> string result) \<Rightarrow> (json \<Rightarrow> json \<Rightarrow> json \<Rightarrow> int list result) \<Rightarrow> serving_config \<Rightarrow> action \<Rightarrow>
     'a controller_scheme \<Rightarrow> reply \<times> 'a controller_scheme" where
  "controller_reply dig encode cfg (Start a) c = start_call a c"
| "controller_reply dig encode cfg (Start_end env b) c = start_done dig cfg env b c"
| "controller_reply dig encode cfg Pause c = pause_call c"
| "controller_reply dig encode cfg (Pause_end b) c = pause_done b c"
| "controller_reply dig encode cfg (Activate a) c = activate_call a c"
| "controller_reply dig encode cfg (Activate_end env b) c = activate_done dig cfg env b c"
| "controller_reply dig encode cfg Resume c = resume_call c"
| "controller_reply dig encode cfg Close c = close_call c"
| "controller_reply dig encode cfg (Close_end b) c = close_done b c"
| "controller_reply dig encode cfg (Admit rid d) c = generate_admit dig encode cfg rid d c"
| "controller_reply dig encode cfg (Leave_generation i) c = (Accepted, generate_leave i c)"

definition controller_step where
  "controller_step dig encode cfg a c = snd (controller_reply dig encode cfg a c)"

section \<open>Invariant\<close>

definition flight_ok :: "'a controller_scheme \<Rightarrow> bool" where
  "flight_ok c \<longleftrightarrow> int (length (ct_flight c)) = ct_active c \<and> distinct (map g_request (ct_flight c)) \<and>
     set (map g_request (ct_flight c)) \<subseteq> set (ct_seen c) \<and> distinct (ct_seen c) \<and>
     (\<forall>g\<in>set (ct_flight c). ct_policy c = Some (g_policy g))"

definition weights_ok :: "(json \<Rightarrow> string result) \<Rightarrow> serving_config \<Rightarrow> 'a controller_scheme \<Rightarrow> bool" where
  "weights_ok dig cfg c \<longleftrightarrow>
     (\<forall>p a. ct_policy c = Some p \<longrightarrow> ct_model c = Some a \<longrightarrow> artifact_policy dig (sc_identities cfg) a = Inr p)"

fun servable :: "phase \<Rightarrow> bool" where
  "servable Running = True" | "servable Paused = True" | "servable _ = False"

definition loaded_ok :: "'a controller_scheme \<Rightarrow> bool" where
  "loaded_ok c \<longleftrightarrow> (servable (ct_phase c) \<or> ct_flight c \<noteq> [] \<longrightarrow> ct_policy c \<noteq> None \<and> ct_model c \<noteq> None)"

text \<open>Which phases, drain flags and flights (empty or not) each control call goes with.\<close>

fun control_table :: "control \<Rightarrow> phase \<Rightarrow> bool \<Rightarrow> bool \<Rightarrow> bool" where
  "control_table Idle ph drained idle =
     (ph \<noteq> Loading \<and> (drained \<longrightarrow> ph = Paused \<and> idle) \<and> (ph = New \<or> ph = Failed \<longrightarrow> idle))"
| "control_table (Starting a) ph drained idle = (ph = Loading \<and> idle \<and> \<not> drained)"
| "control_table Pausing ph drained idle = (ph = Paused \<and> \<not> drained)"
| "control_table (Activating a) ph drained idle = (ph = Paused \<and> idle \<and> \<not> drained)"
| "control_table Closing ph drained idle = (ph = Closed \<and> \<not> drained)"

definition control_ok :: "'a controller_scheme \<Rightarrow> bool" where
  "control_ok c \<longleftrightarrow> control_table (ct_control c) (ct_phase c) (ct_drained c) (ct_flight c = [])"

definition serving_inv :: "(json \<Rightarrow> string result) \<Rightarrow> serving_config \<Rightarrow> 'a controller_scheme \<Rightarrow> bool" where
  "serving_inv dig cfg c \<longleftrightarrow> flight_ok c \<and> weights_ok dig cfg c \<and> loaded_ok c \<and> control_ok c"

lemma new_controller_inv: "serving_inv dig cfg new_controller"
  by (simp add: serving_inv_def flight_ok_def weights_ok_def loaded_ok_def control_ok_def new_controller_def)

lemma flight_ok_simps [simp]:
  "flight_ok (c\<lparr>ct_phase := x\<rparr>) = flight_ok c" "flight_ok (c\<lparr>ct_drained := b\<rparr>) = flight_ok c"
  "flight_ok (c\<lparr>ct_control := k\<rparr>) = flight_ok c" "flight_ok (c\<lparr>ct_model := m\<rparr>) = flight_ok c"
  "flight_ok (c\<lparr>ct_ack := y\<rparr>) = flight_ok c" "flight_ok (c\<lparr>ct_artifact := m\<rparr>) = flight_ok c"
  by (simp_all add: flight_ok_def)

lemma weights_ok_simps [simp]:
  "weights_ok dig cfg (c\<lparr>ct_phase := x\<rparr>) = weights_ok dig cfg c" "weights_ok dig cfg (c\<lparr>ct_drained := b\<rparr>) = weights_ok dig cfg c"
  "weights_ok dig cfg (c\<lparr>ct_control := k\<rparr>) = weights_ok dig cfg c" "weights_ok dig cfg (c\<lparr>ct_model := None\<rparr>)"
  by (simp_all add: weights_ok_def)

lemma flight_empty: "flight_ok c \<Longrightarrow> ct_active c = 0 \<Longrightarrow> ct_flight c = []"
  by (simp add: flight_ok_def)

lemma check_artifact_policy:
  "check_artifact dig cfg m a c = Inr p \<Longrightarrow> artifact_policy dig (sc_identities cfg) a = Inr p"
  unfolding check_artifact_def Let_def by (auto simp: bindE_Inr_iff split: if_split_asm option.splits)

lemma check_artifact_newer:
  "check_artifact dig cfg m a c = Inr q \<Longrightarrow> ct_policy c = Some p \<Longrightarrow> lineage q = lineage p \<and> version p < version q"
  unfolding check_artifact_def Let_def by (auto simp: bindE_Inr_iff newer_def split: if_split_asm)

definition serve_policy :: "bool \<Rightarrow> artifact \<Rightarrow> policy_ref \<Rightarrow> dict \<Rightarrow> 'a controller_scheme \<Rightarrow> 'a controller_scheme" where
  "serve_policy initial a q ack c = c\<lparr>ct_policy := Some q, ct_ack := Some ack, ct_artifact := Some a, ct_model := Some a,
     ct_phase := (if initial then Running else Paused)\<rparr>"

text \<open>A load ends in one of three ways: nothing happened, the weights are partial, or the new policy serves.\<close>

lemma load_weights_cases:
  "(\<exists>e. load_weights dig cfg env initial a c = (Inl e, c)) \<or> (\<exists>e. load_weights dig cfg env initial a c = (Inl e, fail_load c)) \<or>
   (\<exists>ack q. load_weights dig cfg env initial a c = (Inr ack, serve_policy initial a q ack c) \<and>
      check_artifact dig cfg (le_mounted env) a c = Inr q)"
  unfolding load_weights_def serve_policy_def
  by (cases "check_artifact dig cfg (le_mounted env) a c"; cases "le_ack env"; cases "le_invariants env") auto

lemma load_weights_elim:
  assumes "load_weights dig cfg env initial a c = (r, d)"
  obtains (unchanged) e where "r = Inl e" "d = c" | (partial) e where "r = Inl e" "d = fail_load c"
  | (served) ack q where "r = Inr ack" "check_artifact dig cfg (le_mounted env) a c = Inr q" "d = serve_policy initial a q ack c"
  using load_weights_cases [of dig cfg env initial a c] assms by auto

text \<open>What a load leaves behind when no generation is in flight.\<close>

definition loadable :: "(json \<Rightarrow> string result) \<Rightarrow> serving_config \<Rightarrow> 'a controller_scheme \<Rightarrow> bool" where
  "loadable dig cfg c \<longleftrightarrow> flight_ok c \<and> weights_ok dig cfg c \<and> loaded_ok c \<and> ct_flight c = []"

lemma serve_policy_fields [simp]:
  "ct_flight (serve_policy i a q ack c) = ct_flight c" "ct_control (serve_policy i a q ack c) = ct_control c"
  "ct_drained (serve_policy i a q ack c) = ct_drained c" "ct_phase (serve_policy i a q ack c) = (if i then Running else Paused)"
  "ct_flight (fail_load c) = ct_flight c" "ct_control (fail_load c) = ct_control c" "ct_drained (fail_load c) = ct_drained c"
  "ct_phase (fail_load c) = Failed" "ct_policy (fail_load c) = ct_policy c" "ct_policy (serve_policy i a q ack c) = Some q"
  "ct_seen (serve_policy i a q ack c) = ct_seen c" "ct_seen (fail_load c) = ct_seen c"
  by (simp_all add: serve_policy_def fail_load_def)

lemma fail_loadable: "loadable dig cfg c \<Longrightarrow> loadable dig cfg (fail_load c)"
  by (simp add: loadable_def fail_load_def loaded_ok_def weights_ok_def)

lemma serve_loadable:
  "loadable dig cfg c \<Longrightarrow> check_artifact dig cfg m a c = Inr q \<Longrightarrow> loadable dig cfg (serve_policy i a q ack c)"
  using check_artifact_policy [of dig cfg m a c q]
  by (auto simp: loadable_def serve_policy_def loaded_ok_def weights_ok_def flight_ok_def)

lemma load_weights_loadable:
  "loadable dig cfg c \<Longrightarrow> load_weights dig cfg env initial a c = (r, d) \<Longrightarrow> loadable dig cfg d"
  by (erule load_weights_elim) (auto intro: fail_loadable serve_loadable)

lemma loadable_finish:
  "loadable dig cfg c \<Longrightarrow> \<not> ct_drained c \<Longrightarrow> ph \<noteq> Loading \<Longrightarrow> ph = ct_phase c \<or> ph = Failed \<Longrightarrow>
     serving_inv dig cfg (c\<lparr>ct_phase := ph, ct_control := Idle\<rparr>)"
  by (auto simp: loadable_def serving_inv_def control_ok_def loaded_ok_def)

subsection \<open>Steps\<close>

lemma start_call_inv: "serving_inv dig cfg c \<Longrightarrow> serving_inv dig cfg (snd (start_call a c))"
  by (auto simp: start_call_def serving_inv_def loaded_ok_def control_ok_def)

lemma pause_call_inv: "serving_inv dig cfg c \<Longrightarrow> serving_inv dig cfg (snd (pause_call c))"
  by (auto simp: pause_call_def serving_inv_def loaded_ok_def control_ok_def)

lemma pause_done_inv: "serving_inv dig cfg c \<Longrightarrow> serving_inv dig cfg (snd (pause_done b c))"
  by (auto simp: pause_done_def serving_inv_def loaded_ok_def control_ok_def flight_empty split: option.split)

lemma activate_call_inv: "serving_inv dig cfg c \<Longrightarrow> serving_inv dig cfg (snd (activate_call a c))"
  by (auto simp: activate_call_def serving_inv_def loaded_ok_def control_ok_def)

lemma resume_call_inv: "serving_inv dig cfg c \<Longrightarrow> serving_inv dig cfg (snd (resume_call c))"
  by (auto simp: resume_call_def serving_inv_def loaded_ok_def control_ok_def split: option.split)

lemma close_call_inv: "serving_inv dig cfg c \<Longrightarrow> serving_inv dig cfg (snd (close_call c))"
  by (auto simp: close_call_def serving_inv_def loaded_ok_def control_ok_def)

lemma close_done_inv: "serving_inv dig cfg c \<Longrightarrow> serving_inv dig cfg (snd (close_done b c))"
  by (auto simp: close_done_def serving_inv_def loaded_ok_def control_ok_def flight_empty Let_def)

lemma start_done_inv:
  assumes inv: "serving_inv dig cfg c" shows "serving_inv dig cfg (snd (start_done dig cfg env b c))"
proof (cases "ct_control c")
  case (Starting a)
  then have l: "loadable dig cfg c" and nd: "\<not> ct_drained c" using inv by (simp_all add: serving_inv_def control_ok_def loadable_def)
  obtain r d where ld: "load_weights dig cfg env True a c = (r, d)" by (rule prod.exhaust)
  note d = load_weights_loadable [OF l ld]
  from ld have "ct_drained d = ct_drained c \<and> (\<forall>ack. r = Inr ack \<longrightarrow> ct_phase d = Running)"
    by (cases rule: load_weights_elim) auto
  with loadable_finish [OF d] nd loadable_finish [OF d, of "ct_phase d"] ld Starting show ?thesis
    by (auto simp: start_done_def split: sum.split)
qed (use inv in \<open>simp_all add: start_done_def\<close>)

lemma activate_done_inv:
  assumes inv: "serving_inv dig cfg c" shows "serving_inv dig cfg (snd (activate_done dig cfg env b c))"
proof (cases "ct_control c")
  case (Activating a)
  then have l: "loadable dig cfg c" and nd: "\<not> ct_drained c" and ph: "ct_phase c = Paused"
    using inv by (simp_all add: serving_inv_def control_ok_def loadable_def)
  obtain r d where ld: "load_weights dig cfg env False a c = (r, d)" by (rule prod.exhaust)
  note d = load_weights_loadable [OF l ld]
  from ld ph have "ct_drained d = ct_drained c \<and> ct_phase d \<noteq> Loading" by (cases rule: load_weights_elim) auto
  with loadable_finish [OF d] nd loadable_finish [OF d, of "ct_phase d"] ld Activating show ?thesis
    by (auto simp: activate_done_def split: sum.split)
qed (use inv in \<open>simp_all add: activate_done_def\<close>)

lemma admitted_inv:
  assumes inv: "serving_inv dig cfg c" and ph: "ct_phase c = Running" and new: "rid \<notin> set (ct_seen c)" and p: "ct_policy c = Some p"
  shows "serving_inv dig cfg (c\<lparr>ct_seen := rid # ct_seen c, ct_active := ct_active c + 1,
      ct_flight := \<lparr>g_request = rid, g_payload = d, g_prompt = prompt, g_policy = p\<rparr> # ct_flight c\<rparr>)"
proof -
  have "ct_control c = Idle" using inv ph by (cases "ct_control c") (simp_all add: serving_inv_def control_ok_def)
  with assms show ?thesis
    by (auto simp: serving_inv_def control_ok_def loaded_ok_def weights_ok_def flight_ok_def)
qed

lemma generate_admit_inv:
  assumes inv: "serving_inv dig cfg c" shows "serving_inv dig cfg (snd (generate_admit dig encode cfg rid d c))"
proof -
  have "\<exists>p. ct_policy c = Some p" if "ct_phase c = Running" using inv that by (auto simp: serving_inv_def loaded_ok_def)
  with admitted_inv [OF inv] inv show ?thesis by (auto simp: generate_admit_def split: sum.split)
qed

lemma drop_flight_ok:
  assumes ok: "flight_ok c" and i: "i < length (ct_flight c)"
  shows "flight_ok (c\<lparr>ct_active := ct_active c - 1, ct_flight := take i (ct_flight c) @ drop (Suc i) (ct_flight c)\<rparr>)"
proof -
  have split: "ct_flight c = take i (ct_flight c) @ ct_flight c ! i # drop (Suc i) (ct_flight c)" by (rule id_take_nth_drop [OF i])
  have sub: "set (take i (ct_flight c) @ drop (Suc i) (ct_flight c)) \<subseteq> set (ct_flight c)" by (auto dest: in_set_takeD in_set_dropD)
  have "distinct (map g_request (take i (ct_flight c) @ ct_flight c ! i # drop (Suc i) (ct_flight c)))"
    using ok unfolding split [symmetric] by (simp add: flight_ok_def)
  then have "distinct (map g_request (take i (ct_flight c) @ drop (Suc i) (ct_flight c)))" by simp
  moreover have "int (length (take i (ct_flight c) @ drop (Suc i) (ct_flight c))) = int (length (ct_flight c)) - 1" using i by simp
  ultimately show ?thesis using ok sub unfolding flight_ok_def by simp blast
qed

lemma generate_leave_inv:
  assumes inv: "serving_inv dig cfg c" shows "serving_inv dig cfg (generate_leave i c)"
proof (cases "i < length (ct_flight c)")
  case True
  then have ne: "ct_flight c \<noteq> []" by auto
  let ?d = "c\<lparr>ct_active := ct_active c - 1, ct_flight := take i (ct_flight c) @ drop (Suc i) (ct_flight c)\<rparr>"
  have "flight_ok ?d" using inv drop_flight_ok [OF _ True] by (simp add: serving_inv_def)
  moreover have "control_ok ?d" using inv ne by (cases "ct_control c") (auto simp: serving_inv_def control_ok_def)
  moreover have "weights_ok dig cfg ?d" "loaded_ok ?d" using inv ne by (simp_all add: serving_inv_def weights_ok_def loaded_ok_def)
  ultimately show ?thesis using True by (simp add: generate_leave_def serving_inv_def)
qed (use inv in \<open>simp add: generate_leave_def\<close>)

lemma controller_step_inv: "serving_inv dig cfg c \<Longrightarrow> serving_inv dig cfg (controller_step dig encode cfg a c)"
  by (cases a) (simp_all add: controller_step_def start_call_inv start_done_inv pause_call_inv pause_done_inv activate_call_inv
      activate_done_inv resume_call_inv close_call_inv close_done_inv generate_admit_inv generate_leave_inv)

interpretation serving_system: op_system "controller_step dig encode cfg" "serving_inv dig cfg" for dig encode cfg
  by unfold_locales (rule controller_step_inv)

section \<open>Properties\<close>

abbreviation run_controller where
  "run_controller dig encode cfg acts \<equiv> fold (controller_step dig encode cfg) acts (new_controller :: controller)"

lemma run_controller_inv: "serving_inv dig cfg (run_controller dig encode cfg acts)"
  by (rule serving_system.inv_run [OF new_controller_inv])

text \<open>
  C8. Whatever control calls, loads, cancellations and generations are interleaved, every generation that
  is in flight was admitted under the policy that the controller holds, and the model holds in full the
  weights of an artifact of exactly that policy: no weights are loaded, replaced or dropped under a running
  sampler, and the policy that a completion's evidence names is the one that sampled it.
\<close>

theorem sampling_policy_is_loaded:
  assumes "c = run_controller dig encode cfg acts" "g \<in> set (ct_flight c)"
  shows "ct_policy c = Some (g_policy g) \<and>
    (\<exists>a. ct_model c = Some a \<and> artifact_policy dig (sc_identities cfg) a = Inr (g_policy g))"
proof -
  have inv: "flight_ok c" "weights_ok dig cfg c" "loaded_ok c"
    using run_controller_inv [of dig cfg encode acts] assms(1) by (simp_all add: serving_inv_def)
  then have p: "ct_policy c = Some (g_policy g)" using assms(2) by (simp add: flight_ok_def)
  have "ct_model c \<noteq> None" using inv(3) assms(2) by (auto simp: loaded_ok_def)
  then obtain a where "ct_model c = Some a" by blast
  with p inv(2) show ?thesis by (simp add: weights_ok_def)
qed

text \<open>
  An activation receipt is only returned from a proven drain: whenever the step that ends an activation
  loads new weights, the controller is paused, no generation is in flight, and the new policy continues the
  lineage of the old one with a strictly greater version.
\<close>

theorem activation_needs_drain:
  assumes "c = run_controller dig encode cfg acts" "activate_done dig cfg env b c = (Receipt ack, d)"
  shows "ct_phase c = Paused \<and> ct_flight c = [] \<and> ct_active c = 0 \<and> ct_phase d = Paused \<and>
    (\<exists>p q. ct_policy c = Some p \<and> ct_policy d = Some q \<and> lineage q = lineage p \<and> version p < version q)"
proof -
  have inv: "serving_inv dig cfg c" using run_controller_inv assms(1) by simp
  obtain a where a: "ct_control c = Activating a" using assms(2) by (auto simp: activate_done_def split: control.splits)
  obtain r e where ld: "load_weights dig cfg env False a c = (r, e)" by (rule prod.exhaust)
  have c: "ct_phase c = Paused" "ct_flight c = []" using inv a by (simp_all add: serving_inv_def control_ok_def)
  then have act: "ct_active c = 0" using inv by (simp add: serving_inv_def flight_ok_def)
  obtain p where p: "ct_policy c = Some p" using inv c(1) by (auto simp: serving_inv_def loaded_ok_def)
  from ld obtain q where "check_artifact dig cfg (le_mounted env) a c = Inr q" "e = serve_policy False a q ack c" "r = Inr ack"
    by (cases rule: load_weights_elim) (use assms(2) a ld in \<open>auto simp: activate_done_def split: if_split_asm\<close>)
  with assms(2) a ld c act p check_artifact_newer [OF _ p] show ?thesis
    by (auto simp: activate_done_def split: if_split_asm)
qed

text \<open>The policy only ever moves forward, along one lineage.\<close>

definition later_policy :: "policy_ref \<Rightarrow> policy_ref \<Rightarrow> bool" where
  "later_policy p q \<longleftrightarrow> p = q \<or> lineage q = lineage p \<and> version p < version q"

lemma later_policy_trans: "later_policy p q \<Longrightarrow> later_policy q r \<Longrightarrow> later_policy p r"
  by (auto simp: later_policy_def)

lemma load_later:
  "load_weights dig cfg env i a c = (r, d) \<Longrightarrow> ct_policy c = Some p \<Longrightarrow> \<exists>q. ct_policy d = Some q \<and> later_policy p q"
  by (erule load_weights_elim) (auto simp: later_policy_def dest: check_artifact_newer)

lemma step_later: "ct_policy c = Some p \<Longrightarrow> \<exists>q. ct_policy (controller_step dig encode cfg a c) = Some q \<and> later_policy p q"
proof (cases a)
  case (Start_end env b)
  assume p: "ct_policy c = Some p"
  show ?thesis
  proof (cases "ct_control c")
    case (Starting x)
    obtain r d where "load_weights dig cfg env True x c = (r, d)" by (rule prod.exhaust)
    with Start_end Starting load_later [OF this p] show ?thesis
      by (auto simp: controller_step_def start_done_def split: sum.split)
  qed (use Start_end p in \<open>simp_all add: controller_step_def start_done_def later_policy_def\<close>)
next
  case (Activate_end env b)
  assume p: "ct_policy c = Some p"
  show ?thesis
  proof (cases "ct_control c")
    case (Activating x)
    obtain r d where "load_weights dig cfg env False x c = (r, d)" by (rule prod.exhaust)
    with Activate_end Activating load_later [OF this p] show ?thesis
      by (auto simp: controller_step_def activate_done_def split: sum.split)
  qed (use Activate_end p in \<open>simp_all add: controller_step_def activate_done_def later_policy_def\<close>)
qed (auto simp: controller_step_def start_call_def pause_call_def pause_done_def activate_call_def resume_call_def close_call_def
    close_done_def generate_admit_def generate_leave_def later_policy_def Let_def split: option.split sum.split)

lemma run_later:
  "ct_policy c = Some p \<Longrightarrow> \<exists>q. ct_policy (fold (controller_step dig encode cfg) acts c) = Some q \<and> later_policy p q"
proof (induction acts arbitrary: c p)
  case (Cons a acts)
  obtain q where "ct_policy (controller_step dig encode cfg a c) = Some q" "later_policy p q" using step_later [OF Cons.prems] by blast
  with Cons.IH [of "controller_step dig encode cfg a c" q] later_policy_trans show ?case by auto
qed (simp add: later_policy_def)

lemma step_seen: "set (ct_seen c) \<subseteq> set (ct_seen (controller_step dig encode cfg a c))"
proof (cases a)
  case (Start_end env b)
  have "ct_seen d = ct_seen c" if "load_weights dig cfg env i x c = (r, d)" for i x r d
    using that by (cases rule: load_weights_elim) auto
  then show ?thesis using Start_end by (auto simp: controller_step_def start_done_def split: control.split prod.split sum.split)
next
  case (Activate_end env b)
  have "ct_seen d = ct_seen c" if "load_weights dig cfg env i x c = (r, d)" for i x r d
    using that by (cases rule: load_weights_elim) auto
  then show ?thesis using Activate_end by (auto simp: controller_step_def activate_done_def split: control.split prod.split sum.split)
qed (auto simp: controller_step_def start_call_def pause_call_def pause_done_def activate_call_def resume_call_def close_call_def
    close_done_def generate_admit_def generate_leave_def Let_def split: option.split sum.split)

lemma run_seen: "set (ct_seen c) \<subseteq> set (ct_seen (fold (controller_step dig encode cfg) acts c))"
  by (induction acts arbitrary: c) (auto dest: subsetD [OF step_seen])

text \<open>
  A request identity is admitted at most once: after an accepted admission, in every later state of the
  controller, however it ends and whatever is loaded in between, admitting the same identity again is refused;
  and the served policy only moves forward along its lineage.
\<close>

theorem no_replay:
  assumes "generate_admit dig encode cfg rid d c = (Accepted, c')" "ct_policy c' = Some p"
    and "e = fold (controller_step dig encode cfg) acts c'"
  shows "(\<exists>err. fst (generate_admit dig encode cfg rid d' e) = Raised err) \<and>
    (\<exists>q. ct_policy e = Some q \<and> (p = q \<or> lineage q = lineage p \<and> version p < version q))"
proof
  have "rid \<in> set (ct_seen c')" using assms(1) by (auto simp: generate_admit_def split: if_split_asm sum.splits)
  then have "rid \<in> set (ct_seen e)" using run_seen [of c' dig encode cfg acts] assms(3) by auto
  then show "\<exists>err. fst (generate_admit dig encode cfg rid d' e) = Raised err" by (simp add: generate_admit_def)
  show "\<exists>q. ct_policy e = Some q \<and> (p = q \<or> lineage q = lineage p \<and> version p < version q)"
    using run_later [OF assms(2), of dig encode cfg acts] assms(3) by (simp add: later_policy_def)
qed

section \<open>What a completion carries\<close>

lemma raw_without_evidence: "raw_completion (raw_response sv rid m f n k @ [(''training_evidence'', v)]) = JObj (raw_response sv rid m f n k)"
  by (simp add: raw_completion_def raw_response_def)

lemma evidence_of_response:
  "dget (raw_response sv rid m f n k @ [(''training_evidence'', v)]) ''training_evidence'' = v"
  "dget (raw_response sv rid m f n k @ [(''training_evidence'', v)]) ''choices'' =
     JList [JObj [(''index'', JInt 0), (''message'', JObj m), (''finish_reason'', JStr f)]]"
  by (simp_all add: raw_response_def)

lemma ints_inject [simp]: "ints xs = ints ys \<longleftrightarrow> xs = ys"
  by (simp add: ints_def inj_map_eq_map inj_on_def)

text \<open>
  A completion that the controller returns was sampled: its only choice is the parse of the decoded
  text of the sample (executable calls only when the sample was not cut by the budget), and its evidence
  passes the training contract for the admitted policy, request and payload with exactly the sampled tokens,
  within the token budget of the request.
\<close>

theorem completion_evidence_exact:
  assumes "generate_body dig rd wr cfg env g = Inr completion"
  shows "\<exists>s body message finish contract t. ge_sample env = Inr s \<and> ge_text env = Inr body \<and>
    shell_completion rd wr body (g_request g) (s_finish_reason s = ''length'') = Inr (message, finish) \<and>
    dget completion ''choices'' = JList [JObj [(''index'', JInt 0), (''message'', JObj message), (''finish_reason'', JStr finish)]] \<and>
    validate dig contract (JObj (g_payload g)) (JObj completion) (g_request g) 1 = Inr t \<and>
    action_token_ids t = s_response_ids s \<and> request_id t = g_request g \<and> policy_eq (turn_policy t) (leased contract) \<and>
    leased contract = g_policy g \<and> int (length (s_response_ids s)) \<le> int_value (dget (g_payload g) ''max_tokens'')"
proof -
  from assms obtain s body where s: "ge_sample env = Inr s" "ge_text env = Inr body" unfolding generate_body_def by auto
  from assms s obtain message finish contract t where
      sh: "shell_completion rd wr body (g_request g) (s_finish_reason s = ''length'') = Inr (message, finish)"
      and ev: "with_evidence dig g s finish
            (raw_response (sc_served_model cfg) (g_request g) message finish (length (g_prompt g)) (length (s_response_ids s))) = Inr completion"
      and ct: "TrainingGenerationContract (Ref (g_policy g)) (JObj (capability_receipt (g_policy g))) = Inr contract"
      and v: "validate dig contract (JObj (g_payload g)) (JObj completion) (g_request g) 1 = Inr t"
    unfolding generate_body_def by (auto simp: bindE_Inr_iff)
  have lease: "leased contract = g_policy g"
    using ct by (auto simp: TrainingGenerationContract_def contract_policy_def Let_def split: if_split_asm option.splits)
  from ev obtain h r where c: "completion = raw_response (sc_served_model cfg) (g_request g) message finish (length (g_prompt g))
      (length (s_response_ids s)) @ [(''training_evidence'', JObj
         [(''schema_version'', JInt 1), (''request_id'', JStr (g_request g)), (''request_payload_sha256'', JStr h),
          (''response_sha256'', JStr r), (''policy'', policy_to_dict (g_policy g)),
          (''context_token_ids'', ints (s_prompt_ids s)), (''action_token_ids'', ints (s_response_ids s)),
          (''behavior_log_probs'', floats (s_behavior_log_probs s)), (''finish_reason'', JStr (evidence_finish finish s)),
          (''stop_token_count'', JInt (s_stop_token_count s)), (''context_truncation'', JStr ''none''),
          (''logprob_convention'', JStr ''sampled_distribution''), (''sampling_finish_reason'', JStr (s_finish_reason s))])]"
    unfolding with_evidence_def by (auto simp: bindE_Inr_iff)
  from validate_bound [OF v] obtain p d e m where b: "JObj (g_payload g) = JObj p" "JObj completion = JObj d"
      "dget d ''training_evidence'' = JObj e" "dget e ''action_token_ids'' = ints (action_token_ids t)"
      "dget p ''max_tokens'' = JInt m" "int (length (action_token_ids t)) \<le> m"
      "request_id t = g_request g" "policy_eq (turn_policy t) (leased contract)" by blast
  have "ints (action_token_ids t) = ints (s_response_ids s)"
    using b(3,4) unfolding b(2) [unfolded json.inject, symmetric] by (auto simp: c evidence_of_response)
  then have acts: "action_token_ids t = s_response_ids s" by simp
  with b have "int (length (s_response_ids s)) \<le> int_value (dget (g_payload g) ''max_tokens'')" by simp
  with s sh v b(7,8) acts lease show ?thesis unfolding c evidence_of_response by blast
qed

section \<open>Witnesses\<close>

definition demo_hex :: string where
  "demo_hex = replicate 64 CHR ''0''"

definition demo_idents :: dict where
  "demo_idents = [(''tokenizer_sha256'', JStr demo_hex), (''chat_template_sha256'', JStr demo_hex)]"

definition demo_serving :: serving_config where
  "demo_serving = \<lparr>sc_temperature = 1, sc_scope = ''h'', sc_max_new_tokens = 8, sc_max_prompt_tokens = None,
     sc_max_positions = 16, sc_served_model = ''m'', sc_identities = demo_idents\<rparr>"

definition demo_identity :: dict where
  "demo_identity = [(''random_init'', JBool False), (''trainable_scope'', JStr ''h''), (''model_config_sha256'', JStr ''c''),
     (''base_files'', JList [JInt 1]), (''engram_mapping_sha256'', JObj [(''tokenizer.json'', JStr demo_hex)])]"

definition demo_artifact :: "int \<Rightarrow> artifact" where
  "demo_artifact v = \<lparr>art_version = JInt v, art_digest = JStr demo_hex, art_lineage = JStr ''l'', art_identity = demo_identity,
     art_sampling = JObj [(''temperature'', JInt 1), (''top_p'', JInt 1), (''top_k'', JInt 0)]\<rparr>"

definition demo_env :: "int \<Rightarrow> load_env" where
  "demo_env v = \<lparr>le_mounted = \<lparr>mnt_config_sha = ''c'', mnt_base_files = JList [JInt 1], mnt_text_assets = [],
     mnt_tokenizer = Inr demo_idents\<rparr>, le_ack = Inr (artifact_ack (demo_artifact v)), le_invariants = Inr ()\<rparr>"

definition demo_request :: dict where
  "demo_request = [(''model'', JStr ''m''), (''temperature'', JInt 1), (''max_tokens'', JInt 4), (''tool_choice'', JStr ''auto''),
     (''parallel_tool_calls'', JBool False), (''chat_template_kwargs'', JObj [(''enable_thinking'', JBool False)]),
     (''tools'', JList [JObj [(''type'', JStr ''function''),
        (''function'', JObj [(''name'', JStr ''shell''), (''parameters'', shell_parameters)])]])]"

abbreviation demo_encode :: "json \<Rightarrow> json \<Rightarrow> json \<Rightarrow> int list result" where
  "demo_encode \<equiv> \<lambda>_ _ _. Inr [1, 2]"

definition demo_rid :: string where
  "demo_rid = replicate 32 CHR ''0''"

definition demo_started :: controller where
  "demo_started = run_controller demo_dig demo_encode demo_serving [Start (demo_artifact 1), Start_end (demo_env 1) False]"

lemma demo_start_ok: "ct_phase demo_started = Running \<and> ct_policy demo_started \<noteq> None"
  by code_simp

lemma demo_admit_ok:
  "(case generate_admit demo_dig demo_encode demo_serving demo_rid demo_request demo_started of
     (Accepted, c) \<Rightarrow> ct_policy c \<noteq> None \<and> (case ct_flight c of [g] \<Rightarrow> g_request g = demo_rid | _ \<Rightarrow> False) | _ \<Rightarrow> False)"
  by code_simp

theorem sampling_policy_is_loaded_witness:
  "\<exists>g. g \<in> set (ct_flight (run_controller demo_dig demo_encode demo_serving
       [Start (demo_artifact 1), Start_end (demo_env 1) False, Admit demo_rid demo_request])) \<and>
     (\<exists>a. artifact_policy demo_dig (sc_identities demo_serving) a = Inr (g_policy g))"
proof -
  let ?c = "run_controller demo_dig demo_encode demo_serving
       [Start (demo_artifact 1), Start_end (demo_env 1) False, Admit demo_rid demo_request]"
  have "?c = snd (generate_admit demo_dig demo_encode demo_serving demo_rid demo_request demo_started)"
    by (simp add: demo_started_def controller_step_def)
  with demo_admit_ok obtain g where g: "g \<in> set (ct_flight ?c)" by (auto split: prod.splits reply.splits list.splits)
  from sampling_policy_is_loaded [OF refl g] g show ?thesis by blast
qed

theorem no_replay_witness:
  "\<exists>c. generate_admit demo_dig demo_encode demo_serving demo_rid demo_request demo_started = (Accepted, c) \<and>
     (\<exists>err. fst (generate_admit demo_dig demo_encode demo_serving demo_rid demo_request
        (fold (controller_step demo_dig demo_encode demo_serving) [Leave_generation 0, Pause, Pause_end False, Resume] c)) = Raised err)"
proof -
  obtain c p where c: "generate_admit demo_dig demo_encode demo_serving demo_rid demo_request demo_started = (Accepted, c)"
      and p: "ct_policy c = Some p"
    using demo_admit_ok by (auto split: prod.splits reply.splits)
  from no_replay [OF c p refl] c show ?thesis by blast
qed

definition demo_activating :: "action list" where
  "demo_activating = [Start (demo_artifact 1), Start_end (demo_env 1) False, Pause, Pause_end False, Activate (demo_artifact 2)]"

lemma demo_activate_ok:
  "(case activate_done demo_dig demo_serving (demo_env 2) False (run_controller demo_dig demo_encode demo_serving demo_activating) of
     (Receipt ack, c) \<Rightarrow> True | _ \<Rightarrow> False)"
  by code_simp

theorem activation_needs_drain_witness:
  "\<exists>ack d p q. activate_done demo_dig demo_serving (demo_env 2) False
      (run_controller demo_dig demo_encode demo_serving demo_activating) = (Receipt ack, d) \<and>
    ct_policy (run_controller demo_dig demo_encode demo_serving demo_activating) = Some p \<and> ct_policy d = Some q \<and> version p < version q"
proof -
  obtain ack d where r: "activate_done demo_dig demo_serving (demo_env 2) False
      (run_controller demo_dig demo_encode demo_serving demo_activating) = (Receipt ack, d)"
    using demo_activate_ok by (auto split: prod.splits reply.splits)
  from activation_needs_drain [OF refl r] r show ?thesis by blast
qed

definition demo_served_policy :: policy_ref where
  "demo_served_policy = \<lparr>version = 1, digest = demo_hex, lineage = ''l'', identities = demo_idents, sampling = full_sampling 1\<rparr>"

definition demo_generation :: generation where
  "demo_generation = \<lparr>g_request = demo_rid, g_payload = demo_request, g_prompt = [1, 2], g_policy = demo_served_policy\<rparr>"

definition demo_generation_env :: generation_env where
  "demo_generation_env = \<lparr>ge_before = Inr (), ge_sample = Inr \<lparr>s_prompt_ids = [1, 2], s_response_ids = [7], s_behavior_log_probs = [- 1],
     s_reward = 0, s_policy_version = 1, s_finish_reason = ''length'', s_stop_token_count = 0, s_raw_reward = 0\<rparr>,
     ge_text = Inr ''t'', ge_persist = Inr (), ge_after = Inr ()\<rparr>"

lemma demo_body_ok:
  "case generate_body demo_dig demo_loads (\<lambda>_. ''j'') demo_serving demo_generation_env demo_generation of Inr c \<Rightarrow> True | Inl e \<Rightarrow> False"
  by code_simp

theorem completion_evidence_exact_witness:
  "\<exists>c. generate_body demo_dig demo_loads (\<lambda>_. ''j'') demo_serving demo_generation_env demo_generation = Inr c \<and>
     int_value (dget (g_payload demo_generation) ''max_tokens'') \<ge> 1"
proof -
  obtain c where c: "generate_body demo_dig demo_loads (\<lambda>_. ''j'') demo_serving demo_generation_env demo_generation = Inr c"
    using demo_body_ok by (auto split: sum.splits)
  from completion_evidence_exact [OF c] have "\<exists>s. ge_sample demo_generation_env = Inr s \<and>
      int (length (s_response_ids s)) \<le> int_value (dget (g_payload demo_generation) ''max_tokens'')" by blast
  with c show ?thesis by (auto simp: demo_generation_env_def)
qed

end
