(* ===== verification/Vllm_Controller.thy ===== *)
theory Vllm_Controller
  imports Policy_Controller Generation_Failure
begin

text \<open>
  The controller of an owned vLLM actor, \<^verbatim>\<open>rollout_manager/backends/vllm_controller.py\<close>, which extends
  the serving controller by a failure latch, per-request sampler outcomes and receipts, and the profile of
  \<^verbatim>\<open>rollout_manager/backends/vllm_profile.py\<close>. The actor process itself (its launch, the RPC bytes, the
  process checks) is outside: what a call returns or raises is an input of the step. A generation takes
  the sampler lock, samples, and finishes in separate steps, so that control calls and other generations
  run in between.
\<close>

section \<open>Profile\<close>

definition vllm_kv_cache_memory_bytes :: int where
  "vllm_kv_cache_memory_bytes = 32 * 1024 ^ 3"

definition vllm_fixed_identities :: dict where
  "vllm_fixed_identities =
     [(''rollout_engine'', JStr ''vllm''), (''vllm_version'', JStr ''0.31.0''),
      (''vllm_logprobs_mode'', JStr ''processed_logprobs''), (''qwen_learner_replay_path'', JStr ''request_kv_cache_v1''),
      (''vllm_kv_cache_memory_bytes'', JStr (show_int vllm_kv_cache_memory_bytes)),
      (''vllm_moe_backend'', JStr ''triton''), (''vllm_enable_jit_warmup'', JStr ''false''),
      (''vllm_enable_cutedsl_warmup'', JStr ''false''), (''vllm_enable_flashinfer_autotune'', JStr ''false''),
      (''vllm_startup_adapter'', JStr ''qwen3-moe-minimax-import-guard-v1''),
      (''vllm_worker_rpc'', JStr ''rollout_manager_owned_call''), (''vllm_insecure_serialization'', JStr ''false'')]"

lemma vllm_kv_cache_text: "show_int vllm_kv_cache_memory_bytes = ''34359738368''"
  by (simp add: show_int_def vllm_kv_cache_memory_bytes_def show_nat.simps char_of_def bit_iff_odd)

lemmas vllm_fixed_identities_text [code] = vllm_fixed_identities_def [unfolded vllm_kv_cache_text]

definition vllm_policy_identities :: "json \<Rightarrow> dict result" where
  "vllm_policy_identities max_positions =
     (case max_positions of
        JInt n \<Rightarrow> if n < 1 then Inl (ValueError ''vLLM profile requires the mounted model's original context size'')
                  else Inr (vllm_fixed_identities @ [(''vllm_max_model_len'', JStr (show_int n))])
      | _ \<Rightarrow> Inl (ValueError ''vLLM profile requires the mounted model's original context size''))"

record learner_config =
  lc_scope :: string
  lc_dtype :: string
  lc_kv_cache :: bool
  lc_last_position :: bool
  lc_chunk_tokens :: int
  lc_devices :: "string list"

definition require_vllm_learner :: "learner_config \<Rightarrow> unit result" where
  "require_vllm_learner l =
     (if lc_scope l \<noteq> ''lm_head'' \<or> lc_dtype l \<noteq> ''bfloat16'' \<or> \<not> lc_kv_cache l \<or> \<not> lc_last_position l \<or> lc_chunk_tokens l \<noteq> 0
      then Inl (ValueError ''vLLM training requires BF16 head-only native cached replay without chunking'')
      else Inr ())"

definition profile_matches :: "dict \<Rightarrow> dict \<Rightarrow> bool" where
  "profile_matches identity profile \<longleftrightarrow> list_all (\<lambda>(k, v). py_eq (dget identity k) v) profile"

definition validate_vllm_policy_profile :: "policy_ref \<Rightarrow> learner_config \<Rightarrow> json \<Rightarrow> unit result" where
  "validate_vllm_policy_profile p l max_positions =
     bindE (require_vllm_learner l) (\<lambda>_. bindE (vllm_policy_identities max_positions) (\<lambda>profile.
       if \<not> profile_matches (identities p) profile \<or> dget (identities p) ''qwen_sampling_path'' \<noteq> JNull \<or>
          dget (identities p) ''qwen_logits_path'' \<noteq> JStr ''last_position_head_v1''
       then Inl (ValueError ''vLLM behavior identity differs from the negotiated actor/learner profiles'')
       else Inr ()))"

section \<open>State\<close>

text \<open>The sampler outcomes, with the names the receipts use.\<close>

datatype sampler_outcome = Not_admitted | Unknown | Completed

fun outcome_name :: "sampler_outcome \<Rightarrow> string" where
  "outcome_name Not_admitted = ''not_admitted''"
| "outcome_name Unknown = ''unknown''"
| "outcome_name Completed = ''completed''"

fun outcome_proof :: "sampler_outcome \<Rightarrow> string" where
  "outcome_proof Not_admitted = ''controller_rejected_before_sampler_dispatch''"
| "outcome_proof Completed = ''owned_vllm_final_request_output''"
| "outcome_proof Unknown = ''none''"

record binding =
  b_payload_sha :: string
  b_ack :: dict
  b_outcome :: sampler_outcome

record actor_failure =
  af_request :: string
  af_uncertain :: bool
  af_ack :: "dict option"

text \<open>\<open>vc_sampler\<close> is the request that holds the sampler lock; \<open>vc_probes\<close> are the raw diagnostic requests in flight.\<close>

record vllm_controller = controller +
  vc_failure :: "actor_failure option"
  vc_sampling :: "(string \<times> binding) list"
  vc_engine :: "json option"
  vc_activation :: "json option"
  vc_sampler :: "string option"
  vc_probes :: "string list"

definition VLLMPolicyController :: "serving_config \<Rightarrow> learner_config \<Rightarrow> (serving_config \<times> vllm_controller) result" where
  "VLLMPolicyController cfg l =
     bindE (require_vllm_learner l) (\<lambda>_.
       case lc_devices l of
         [d] \<Rightarrow>
           if \<not> prefix ''cuda:'' d
           then Inl (ValueError ''vLLM rollout requires one CUDA actor and frozen-backbone native head replay'')
           else bindE (vllm_policy_identities (JInt (sc_max_positions cfg))) (\<lambda>profile.
             Inr (cfg\<lparr>sc_identities := dupdate (filter (\<lambda>p. fst p \<noteq> ''qwen_sampling_path'') (sc_identities cfg)) profile\<rparr>,
                  \<lparr>ct_phase = New, ct_active = 0, ct_drained = False, ct_seen = [], ct_policy = None, ct_ack = None,
                   ct_artifact = None, ct_model = None, ct_control = Idle, ct_flight = [], vc_failure = None, vc_sampling = [],
                   vc_engine = None, vc_activation = None, vc_sampler = None, vc_probes = []\<rparr>))
       | _ \<Rightarrow> Inl (ValueError ''vLLM rollout requires one CUDA actor and frozen-backbone native head replay''))"

section \<open>Loading\<close>

text \<open>The reply of the actor's \<^verbatim>\<open>load\<close>: its acknowledgement, the activation receipt and the engine receipt.\<close>

record vllm_load =
  vl_ack :: json
  vl_receipt :: json
  vl_engine :: json

record vllm_load_env =
  ve_mounted :: mounted
  ve_actor :: "unit result"
  ve_reply :: "vllm_load result"

definition vllm_check_artifact ::
  "(json \<Rightarrow> string result) \<Rightarrow> serving_config \<Rightarrow> mounted \<Rightarrow> artifact \<Rightarrow> vllm_controller \<Rightarrow> policy_ref result" where
  "vllm_check_artifact dig cfg m a c =
     bindE (vllm_policy_identities (JInt (sc_max_positions cfg))) (\<lambda>profile.
       if \<not> profile_matches (art_identity a) profile
       then Inl (ValueError ''artifact differs from the explicit vLLM behavior/native learner profiles'')
       else check_artifact dig cfg m a c)"

definition activation_matches :: "artifact \<Rightarrow> vllm_load \<Rightarrow> bool" where
  "activation_matches a r \<longleftrightarrow>
     py_eq (vl_ack r) (JObj (artifact_ack a)) \<and>
     py_eq (dget (fields_of (vl_receipt r)) ''policy_ack'') (JObj (artifact_ack a)) \<and>
     py_eq (dget (fields_of (vl_engine r)) ''loaded_policy_ack'') (JObj (artifact_ack a))"

definition vllm_load_weights ::
  "(json \<Rightarrow> string result) \<Rightarrow> serving_config \<Rightarrow> vllm_load_env \<Rightarrow> bool \<Rightarrow> artifact \<Rightarrow> vllm_controller \<Rightarrow>
     dict result \<times> vllm_controller" where
  "vllm_load_weights dig cfg env initial a c =
     (case vllm_check_artifact dig cfg (ve_mounted env) a c of
        Inl e \<Rightarrow> (Inl e, c)
      | Inr candidate \<Rightarrow>
          case (if initial then ve_actor env else Inr ()) of
            Inl e \<Rightarrow> (Inl e, fail_load c)
          | Inr _ \<Rightarrow>
              case ve_reply env of
                Inl e \<Rightarrow> (Inl e, fail_load c)
              | Inr r \<Rightarrow>
                  if \<not> activation_matches a r
                  then (Inl (ValueError ''actual vLLM worker activation differs from the immutable policy''), fail_load c)
                  else (Inr (artifact_ack a), serve_policy initial a candidate (artifact_ack a)
                          (c\<lparr>vc_activation := Some (vl_receipt r), vc_engine := Some (vl_engine r)\<rparr>)))"

definition vllm_start_done where
  "vllm_start_done dig cfg env cancelled c =
     (case ct_control c of
        Starting a \<Rightarrow>
          (case vllm_load_weights dig cfg env True a c of
             (Inl e, c) \<Rightarrow> (Raised e, c\<lparr>ct_phase := Failed, ct_control := Idle\<rparr>)
           | (Inr ack, c) \<Rightarrow>
               if cancelled then (Cancelled_call, c\<lparr>ct_phase := Failed, ct_control := Idle\<rparr>)
               else (Receipt ack, c\<lparr>ct_control := Idle\<rparr>))
      | _ \<Rightarrow> (Lock_wait, c))"

definition vllm_activate_done where
  "vllm_activate_done dig cfg env cancelled c =
     (case ct_control c of
        Activating a \<Rightarrow>
          (case vllm_load_weights dig cfg env False a c of
             (Inl e, c) \<Rightarrow> (Raised e, c\<lparr>ct_control := Idle\<rparr>)
           | (Inr ack, c) \<Rightarrow>
               if cancelled then (Cancelled_call, c\<lparr>ct_phase := Failed, ct_control := Idle\<rparr>)
               else (Receipt ack, c\<lparr>ct_control := Idle\<rparr>))
      | _ \<Rightarrow> (Lock_wait, c))"

text \<open>The drain of this class also needs that no actor outcome is unknown.\<close>

definition vllm_pause_done :: "bool \<Rightarrow> vllm_controller \<Rightarrow> reply \<times> vllm_controller" where
  "vllm_pause_done cancelled c =
     (if ct_control c \<noteq> Pausing \<or> ct_active c \<noteq> 0 then (Lock_wait, c)
      else if vc_failure c \<noteq> None \<or> ct_phase c = Failed
      then (Raised (RuntimeError ''failed vLLM actor outcome does not prove an inference drain''), c\<lparr>ct_control := Idle\<rparr>)
      else pause_done cancelled c)"

definition vllm_close_done :: "bool \<Rightarrow> unit result \<Rightarrow> vllm_controller \<Rightarrow> reply \<times> vllm_controller" where
  "vllm_close_done cancelled shutdown c =
     (if ct_control c \<noteq> Closing \<or> ct_active c \<noteq> 0 then (Lock_wait, c)
      else if cancelled then (Cancelled_call, c\<lparr>ct_control := Idle\<rparr>)
      else case shutdown of
          Inl e \<Rightarrow> (Raised e, c\<lparr>ct_phase := Failed, ct_control := Idle\<rparr>)
        | Inr _ \<Rightarrow> (Receipt (drain_receipt (case ct_ack c of None \<Rightarrow> [] | Some ack \<Rightarrow> ack)),
                      c\<lparr>ct_model := None, ct_control := Idle\<rparr>))"

section \<open>Failures and receipts\<close>

definition fail_generation :: "string \<Rightarrow> bool \<Rightarrow> vllm_controller \<Rightarrow> vllm_controller" where
  "fail_generation rid uncertain c =
     c\<lparr>vc_failure := Some \<lparr>af_request = rid, af_uncertain = uncertain, af_ack = ct_ack c\<rparr>,
       ct_phase := Failed, ct_drained := False\<rparr>"

text \<open>\<^verbatim>\<open>if self._actor_failure is None: self._fail_generation(..., uncertain=False)\<close>.\<close>

definition fail_if_first :: "string \<Rightarrow> vllm_controller \<Rightarrow> vllm_controller" where
  "fail_if_first rid c = (if vc_failure c = None then fail_generation rid False c else c)"

definition failure_receipt :: "binding \<Rightarrow> string \<Rightarrow> string \<Rightarrow> dict" where
  "failure_receipt b rid stage =
     [(''schema_version'', JInt 1), (''request_id'', JStr rid), (''request_payload_sha256'', JStr (b_payload_sha b)),
      (''policy_ack'', JObj (b_ack b)), (''stage'', JStr stage), (''sampler_outcome'', JStr (outcome_name (b_outcome b))),
      (''sampler_drained'', JBool (b_outcome b \<noteq> Unknown)), (''actual_actor_drain_proven'', JBool (b_outcome b \<noteq> Unknown)),
      (''drain_scope'', JStr ''request''), (''proof_kind'', JStr (outcome_proof (b_outcome b))),
      (''automatic_replay'', JBool False)]"

definition generation_failure_receipt ::
  "(json \<Rightarrow> string result) \<Rightarrow> dict \<Rightarrow> string \<Rightarrow> string \<Rightarrow> vllm_controller \<Rightarrow> dict option result" where
  "generation_failure_receipt dig payload rid stage c =
     (case map_of (vc_sampling c) rid of
        None \<Rightarrow> Inr None
      | Some b \<Rightarrow> bindE (validate_generation_failure dig (JObj (failure_receipt b rid stage)) (JObj payload) rid None)
                    (\<lambda>r. Inr (Some r)))"

definition engine_receipt :: "vllm_controller \<Rightarrow> json result" where
  "engine_receipt c =
     (if ct_phase c = Failed then Inl (RuntimeError ''vLLM engine receipt requires actual startup and head activation'')
      else case vc_engine c of
          None \<Rightarrow> Inl (RuntimeError ''vLLM engine receipt requires actual startup and head activation'')
        | Some v \<Rightarrow> Inr v)"

definition loaded_trainable_tensor_digest :: "vllm_controller \<Rightarrow> json result" where
  "loaded_trainable_tensor_digest c =
     (case vc_activation c of
        None \<Rightarrow> Inl (RuntimeError ''vLLM head digest requires an actual worker readback'')
      | Some v \<Rightarrow> dlookup (fields_of v) ''loaded_trainable_tensors'')"

section \<open>Admission\<close>

definition new_binding :: "string \<Rightarrow> policy_ref \<Rightarrow> binding" where
  "new_binding h p = \<lparr>b_payload_sha = h,
     b_ack = [(''version'', JInt (version p)), (''digest'', JStr (digest p)), (''lineage'', JStr (lineage p))],
     b_outcome = Not_admitted\<rparr>"

text \<open>The binding of the request is written before its payload is checked.\<close>

definition vllm_admit ::
  "(json \<Rightarrow> string result) \<Rightarrow> (json \<Rightarrow> json \<Rightarrow> json \<Rightarrow> int list result) \<Rightarrow> serving_config \<Rightarrow> string \<Rightarrow> dict \<Rightarrow>
     vllm_controller \<Rightarrow> reply \<times> vllm_controller" where
  "vllm_admit dig encode cfg rid d c =
     (if \<not> is_hex 32 rid then (Raised (ValueError ''generation requires a durable 32-hex request identity''), c)
      else if ct_phase c \<noteq> Running
      then (Raised (RuntimeError ''controller admission is paused, closed or unqualified''), c)
      else if rid \<in> set (ct_seen c)
      then (Raised (ValueError ''generation request identity was already admitted; no replay''), c)
      else case dig (JObj d) of
          Inl e \<Rightarrow> (Raised e, c)
        | Inr h \<Rightarrow>
            let p = the (ct_policy c); c = c\<lparr>vc_sampling := (rid, new_binding h p) # vc_sampling c\<rparr>
            in case bindE (serving_capabilities c) (\<lambda>caps. context_prompt dig encode cfg p caps d) of
                Inl e \<Rightarrow> (Raised e, c)
              | Inr prompt \<Rightarrow>
                  if int (length prompt) + int_value (dget d ''max_tokens'') > sc_max_positions cfg
                  then (Raised (ValueError ''request exceeds the actual vLLM engine context budget''), c)
                  else (Accepted, c\<lparr>ct_seen := rid # ct_seen c, ct_active := ct_active c + 1,
                          ct_flight := \<lparr>g_request = rid, g_payload = d, g_prompt = prompt, g_policy = p\<rparr> # ct_flight c\<rparr>))"

definition seed_ok :: "int option \<Rightarrow> bool" where
  "seed_ok v = (case v of None \<Rightarrow> True | Some n \<Rightarrow> 0 \<le> n \<and> n < 2 ^ 63 - 1)"

text \<open>\<^verbatim>\<open>sample_tokens\<close>: a raw diagnostic request, with no payload and no binding.\<close>

definition probe_admit ::
  "serving_config \<Rightarrow> int list \<Rightarrow> int \<Rightarrow> rat \<Rightarrow> string \<Rightarrow> bool \<Rightarrow> int option \<Rightarrow> int option \<Rightarrow> vllm_controller \<Rightarrow>
     reply \<times> vllm_controller" where
  "probe_admit cfg prompt max_tokens temperature rid ignore_eos diagnostic_seed sampling_seed c =
     (if \<not> is_hex 32 rid then (Raised (ValueError ''diagnostic requires a durable 32-hex request identity''), c)
      else if diagnostic_seed \<noteq> None \<and> (\<not> ignore_eos \<or> \<not> seed_ok diagnostic_seed)
      then (Raised (ValueError ''independent diagnostic seed requires an explicit no-tool forced-token probe''), c)
      else if sampling_seed \<noteq> None \<and> (diagnostic_seed \<noteq> None \<or> \<not> seed_ok sampling_seed)
      then (Raised (ValueError ''sampling_seed must be an independent engine seed without diagnostic_seed''), c)
      else if ct_phase c \<noteq> Running \<or> rid \<in> set (ct_seen c)
      then (Raised (RuntimeError ''vLLM diagnostic admission is paused or request would replay''), c)
      else if temperature \<noteq> sc_temperature cfg \<or> prompt = [] \<or> max_tokens < 1 \<or> max_tokens > sc_max_new_tokens cfg \<or>
          int (length prompt) + max_tokens > sc_max_positions cfg
      then (Raised (ValueError ''vLLM diagnostic exceeds its profile or untruncated budget''), c)
      else (Accepted, c\<lparr>ct_seen := rid # ct_seen c, ct_active := ct_active c + 1,
              ct_flight := \<lparr>g_request = rid, g_payload = [], g_prompt = prompt, g_policy = the (ct_policy c)\<rparr> # ct_flight c,
              vc_probes := rid # vc_probes c\<rparr>))"

section \<open>Sampling\<close>

definition request_seed :: "(string \<Rightarrow> nat list) \<Rightarrow> (json \<Rightarrow> string) \<Rightarrow> int \<Rightarrow> string \<Rightarrow> policy_ref \<Rightarrow> nat" where
  "request_seed sha_bytes text_of base rid p =
     foldl (\<lambda>a b. a * 256 + b) 0
       (take 8 (sha_bytes (text_of (JList [JInt base, JStr rid, JInt (version p), JStr (digest p), JStr (lineage p)])))) mod
     (2 ^ 63 - 1)"

text \<open>The actor's reply to \<^verbatim>\<open>generate\<close>.\<close>

record actor_sample =
  as_context :: "int list"
  as_actions :: "int list"
  as_log_probs :: "flt list"
  as_finish :: string
  as_stop :: int
  as_convention :: string
  as_metrics :: dict
  as_engine :: json

fun natural :: "json \<Rightarrow> nat option" where
  "natural (JInt n) = (if n < 0 then None else Some (nat n))"
| "natural _ = None"

definition graph_evidence :: "dict \<Rightarrow> nat \<Rightarrow> bool" where
  "graph_evidence m actions \<longleftrightarrow>
     (case (natural (dget m ''graph_replay_calls_before''), natural (dget m ''graph_replay_calls_after''),
            natural (dget m ''graph_replay_calls_delta''), dget m ''graph_captured_count'') of
        (Some before, Some later, Some delta, JInt captured) \<Rightarrow>
          int later - int before = int delta \<and> 1 \<le> captured \<and> (actions > 1 \<longrightarrow> 1 \<le> delta)
      | _ \<Rightarrow> False)"

definition accept_sample :: "generation \<Rightarrow> dict option \<Rightarrow> actor_sample \<Rightarrow> sample result" where
  "accept_sample g ack r =
     bindE (Sample (as_context r) (as_actions r) (as_log_probs r) (Fin 0) (version (g_policy g)) (as_finish r) (as_stop r) None)
       (\<lambda>s. if \<not> graph_evidence (as_metrics r) (length (s_response_ids s))
            then Inl (RuntimeError ''actual vLLM CUDA Graph decode evidence is incomplete'')
            else if as_context r \<noteq> g_prompt g \<or> as_convention r \<noteq> ''sampled_distribution'' \<or>
                \<not> (case ack of None \<Rightarrow> False
                   | Some a \<Rightarrow> py_eq (dget (fields_of (as_engine r)) ''loaded_policy_ack'') (JObj a))
            then Inl (RuntimeError ''actual vLLM sampling evidence differs from its admitted prompt/policy'')
            else Inr s)"

definition set_outcome :: "string \<Rightarrow> sampler_outcome \<Rightarrow> (string \<times> binding) list \<Rightarrow> (string \<times> binding) list" where
  "set_outcome rid out bs = map (\<lambda>(k, b). if k = rid then (k, b\<lparr>b_outcome := out\<rparr>) else (k, b)) bs"

text \<open>The \<^verbatim>\<open>finally\<close> clauses: the generation leaves, and with it the sampler lock it may hold.\<close>

definition leave :: "nat \<Rightarrow> vllm_controller \<Rightarrow> vllm_controller" where
  "leave i c =
     (let rid = g_request (ct_flight c ! i); c = generate_leave i c in
      c\<lparr>vc_sampler := (if vc_sampler c = Some rid then None else vc_sampler c), vc_probes := removeAll rid (vc_probes c)\<rparr>)"

text \<open>Taking the sampler lock marks the outcome unknown; a probe has no binding.\<close>

definition sample_begin :: "nat \<Rightarrow> vllm_controller \<Rightarrow> vllm_controller" where
  "sample_begin i c =
     (if i < length (ct_flight c) \<and> vc_sampler c = None
      then let rid = g_request (ct_flight c ! i) in
        c\<lparr>vc_sampler := Some rid,
          vc_sampling := (if rid \<in> set (vc_probes c) then vc_sampling c else set_outcome rid Unknown (vc_sampling c))\<rparr>
      else c)"

text \<open>
  The end of \<^verbatim>\<open>_sample_locked\<close>: an RPC that raised leaves an unknown remote outcome; a reply that is
  rejected fails the controller as well. Both end the generation. A probe ends here in any case.
\<close>

definition sample_end :: "nat \<Rightarrow> actor_sample result \<Rightarrow> vllm_controller \<Rightarrow> sample result \<times> vllm_controller" where
  "sample_end i out c =
     (if \<not> (i < length (ct_flight c) \<and> vc_sampler c = Some (g_request (ct_flight c ! i))) then (Inl (KeyError ''no sampler''), c)
      else let g = ct_flight c ! i; rid = g_request g in
        case out of
          Inl e \<Rightarrow> (Inl e, leave i (fail_generation rid True c))
        | Inr r \<Rightarrow>
            (case accept_sample g (ct_ack c) r of
               Inl e \<Rightarrow> (Inl e, leave i (fail_if_first rid c))
             | Inr s \<Rightarrow>
                 let c = c\<lparr>vc_engine := Some (as_engine r)\<rparr> in
                 if rid \<in> set (vc_probes c) then (Inr s, leave i c)
                 else (Inr s, c\<lparr>vc_sampling := set_outcome rid Completed (vc_sampling c)\<rparr>)))"

section \<open>Completion\<close>

record finish_env =
  vf_text :: "string result"
  vf_persist :: "unit result"

text \<open>
  The message, its finish reason and, when the grammar rejected the text, the format status: malformed
  model syntax is an outcome that keeps the raw text and runs no tools.
\<close>

definition parsed_message ::
  "(string \<Rightarrow> json result) \<Rightarrow> (json \<Rightarrow> string) \<Rightarrow> (string \<Rightarrow> string) \<Rightarrow> string \<Rightarrow> string \<Rightarrow> bool \<Rightarrow>
     (dict \<times> string \<times> dict option) result" where
  "parsed_message rd wr sha body rid truncated =
     (case shell_completion rd wr body rid truncated of
        Inr (message, finish) \<Rightarrow> Inr (message, finish, None)
      | Inl (ModelCompletionFormatError m code) \<Rightarrow>
          bindE (invalid_tool_status sha body rid (ModelCompletionFormatError m code)) (\<lambda>status.
            Inr ([(''role'', JStr ''assistant''), (''content'', JStr body)], ''stop'', Some status))
      | Inl e \<Rightarrow> Inl e)"

definition vllm_response :: "(string \<Rightarrow> string) \<Rightarrow> string \<Rightarrow> generation \<Rightarrow> sample \<Rightarrow> dict \<times> string \<times> dict option \<Rightarrow> dict result" where
  "vllm_response sha served g s p =
     (case p of (message, finish, status) \<Rightarrow>
        let raw = raw_response served (g_request g) message finish (length (g_prompt g)) (length (s_response_ids s)) in
        case status of
          None \<Rightarrow> Inr raw
        | Some st \<Rightarrow>
            let raw = raw @ [(''model_completion_status'', JObj st)] in
            bindE (validate_model_completion_status sha raw (g_request g)) (\<lambda>_. Inr raw))"

definition vllm_body ::
  "(json \<Rightarrow> string result) \<Rightarrow> (string \<Rightarrow> json result) \<Rightarrow> (json \<Rightarrow> string) \<Rightarrow> (string \<Rightarrow> string) \<Rightarrow> serving_config \<Rightarrow>
     finish_env \<Rightarrow> generation \<Rightarrow> sample \<Rightarrow> dict staged" where
  "vllm_body dig rd wr sha cfg env g s =
     at_stage ''vllm_sampling'' (vf_text env) (\<lambda>body.
     at_stage ''vllm_sample_persistence'' (vf_persist env) (\<lambda>_.
     at_stage ''vllm_shell_completion''
       (bindE (parsed_message rd wr sha body (g_request g) (s_finish_reason s = ''length'')) (\<lambda>p.
          bindE (vllm_response sha (sc_served_model cfg) g s p) (\<lambda>raw. with_evidence dig g s (fst (snd p)) raw)))
       (\<lambda>completion.
     at_stage ''vllm_training_evidence_validation''
       (bindE (TrainingGenerationContract (Ref (g_policy g))
            (JObj (capability_receipt (g_policy g) @ [(''serving_profile'', JStr ''vllm-training-v1'')]))) (\<lambda>contract.
          validate dig contract (JObj (g_payload g)) (JObj completion) (g_request g) 1))
       (\<lambda>_. Inr completion))))"

definition vllm_finish :: "nat \<Rightarrow> dict staged \<Rightarrow> vllm_controller \<Rightarrow> vllm_controller" where
  "vllm_finish i r c =
     (if \<not> (i < length (ct_flight c) \<and> vc_sampler c = Some (g_request (ct_flight c ! i))) then c
      else case r of
          Inl _ \<Rightarrow> leave i (fail_if_first (g_request (ct_flight c ! i)) c)
        | Inr _ \<Rightarrow> leave i c)"

section \<open>The controller as a system\<close>

datatype vllm_action =
    V_start artifact
  | V_start_end vllm_load_env bool
  | V_pause
  | V_pause_end bool
  | V_activate artifact
  | V_activate_end vllm_load_env bool
  | V_resume
  | V_close
  | V_close_end bool "unit result"
  | V_admit string dict
  | V_probe "int list" int rat string bool "int option" "int option"
  | V_sample_begin nat
  | V_sample_end nat "actor_sample result"
  | V_finish nat "dict staged"

fun vllm_reply ::
  "(json \<Rightarrow> string result) \<Rightarrow> (json \<Rightarrow> json \<Rightarrow> json \<Rightarrow> int list result) \<Rightarrow> serving_config \<Rightarrow> vllm_action \<Rightarrow>
     vllm_controller \<Rightarrow> reply \<times> vllm_controller" where
  "vllm_reply dig encode cfg (V_start a) c = start_call a c"
| "vllm_reply dig encode cfg (V_start_end env b) c = vllm_start_done dig cfg env b c"
| "vllm_reply dig encode cfg V_pause c = pause_call c"
| "vllm_reply dig encode cfg (V_pause_end b) c = vllm_pause_done b c"
| "vllm_reply dig encode cfg (V_activate a) c = activate_call a c"
| "vllm_reply dig encode cfg (V_activate_end env b) c = vllm_activate_done dig cfg env b c"
| "vllm_reply dig encode cfg V_resume c = resume_call c"
| "vllm_reply dig encode cfg V_close c = close_call c"
| "vllm_reply dig encode cfg (V_close_end b r) c = vllm_close_done b r c"
| "vllm_reply dig encode cfg (V_admit rid d) c = vllm_admit dig encode cfg rid d c"
| "vllm_reply dig encode cfg (V_probe p m t rid ig ds ss) c = probe_admit cfg p m t rid ig ds ss c"
| "vllm_reply dig encode cfg (V_sample_begin i) c = (Accepted, sample_begin i c)"
| "vllm_reply dig encode cfg (V_sample_end i out) c = (Accepted, snd (sample_end i out c))"
| "vllm_reply dig encode cfg (V_finish i r) c = (Accepted, vllm_finish i r c)"

definition vllm_step where
  "vllm_step dig encode cfg a c = snd (vllm_reply dig encode cfg a c)"

section \<open>Invariant\<close>

text \<open>As for the serving controller, except that a generation may fail the controller at any time.\<close>

fun vllm_table :: "control \<Rightarrow> phase \<Rightarrow> bool \<Rightarrow> bool \<Rightarrow> bool \<Rightarrow> bool" where
  "vllm_table Idle ph drained failed idle =
     (ph \<noteq> Loading \<and> (drained \<longrightarrow> ph = Paused \<and> idle) \<and> (ph = New \<longrightarrow> idle) \<and> (failed \<longrightarrow> ph = Failed \<or> ph = Closed))"
| "vllm_table (Starting a) ph drained failed idle = (ph = Loading \<and> idle \<and> \<not> drained \<and> \<not> failed)"
| "vllm_table Pausing ph drained failed idle = ((ph = Paused \<and> \<not> failed \<or> ph = Failed) \<and> \<not> drained)"
| "vllm_table (Activating a) ph drained failed idle = (ph = Paused \<and> idle \<and> \<not> drained \<and> \<not> failed)"
| "vllm_table Closing ph drained failed idle = ((ph = Closed \<or> ph = Failed) \<and> \<not> drained)"

definition vllm_control_ok :: "vllm_controller \<Rightarrow> bool" where
  "vllm_control_ok c \<longleftrightarrow>
     vllm_table (ct_control c) (ct_phase c) (ct_drained c) (vc_failure c \<noteq> None) (ct_flight c = [])"

text \<open>The sampler lock is held by a generation in flight, and a bound one has an unknown outcome or is complete.\<close>

definition sampler_ok :: "vllm_controller \<Rightarrow> bool" where
  "sampler_ok c \<longleftrightarrow>
     (\<forall>rid. vc_sampler c = Some rid \<longrightarrow> rid \<in> set (map g_request (ct_flight c)) \<and>
        (rid \<notin> set (vc_probes c) \<longrightarrow> (\<exists>b. map_of (vc_sampling c) rid = Some b \<and> b_outcome b \<noteq> Not_admitted))) \<and>
     (\<forall>g\<in>set (ct_flight c). g_request g \<notin> set (vc_probes c) \<longrightarrow> map_of (vc_sampling c) (g_request g) \<noteq> None) \<and>
     set (vc_probes c) \<subseteq> set (ct_seen c)"

definition vllm_inv :: "(json \<Rightarrow> string result) \<Rightarrow> serving_config \<Rightarrow> vllm_controller \<Rightarrow> bool" where
  "vllm_inv dig cfg c \<longleftrightarrow> flight_ok c \<and> weights_ok dig cfg c \<and> loaded_ok c \<and> vllm_control_ok c \<and> sampler_ok c"

lemma vllm_ok_simps [simp]:
  "flight_ok (c\<lparr>vc_failure := x1\<rparr>) = flight_ok c" "flight_ok (c\<lparr>vc_sampling := x2\<rparr>) = flight_ok c"
  "flight_ok (c\<lparr>vc_engine := x3\<rparr>) = flight_ok c" "flight_ok (c\<lparr>vc_activation := x3\<rparr>) = flight_ok c"
  "flight_ok (c\<lparr>vc_sampler := x4\<rparr>) = flight_ok c" "flight_ok (c\<lparr>vc_probes := x5\<rparr>) = flight_ok c"
  "weights_ok dig cfg (c\<lparr>vc_failure := x1\<rparr>) = weights_ok dig cfg c" "weights_ok dig cfg (c\<lparr>vc_sampling := x2\<rparr>) = weights_ok dig cfg c"
  "weights_ok dig cfg (c\<lparr>vc_engine := x3\<rparr>) = weights_ok dig cfg c" "weights_ok dig cfg (c\<lparr>vc_activation := x3\<rparr>) = weights_ok dig cfg c"
  "weights_ok dig cfg (c\<lparr>vc_sampler := x4\<rparr>) = weights_ok dig cfg c" "weights_ok dig cfg (c\<lparr>vc_probes := x5\<rparr>) = weights_ok dig cfg c"
  "loaded_ok (c\<lparr>vc_failure := x1\<rparr>) = loaded_ok c" "loaded_ok (c\<lparr>vc_sampling := x2\<rparr>) = loaded_ok c"
  "loaded_ok (c\<lparr>vc_engine := x3\<rparr>) = loaded_ok c" "loaded_ok (c\<lparr>vc_activation := x3\<rparr>) = loaded_ok c"
  "loaded_ok (c\<lparr>vc_sampler := x4\<rparr>) = loaded_ok c" "loaded_ok (c\<lparr>vc_probes := x5\<rparr>) = loaded_ok c"
  by (simp_all add: flight_ok_def weights_ok_def loaded_ok_def)

lemma sampler_ok_simps [simp]:
  "sampler_ok (c\<lparr>ct_phase := a1\<rparr>) = sampler_ok c" "sampler_ok (c\<lparr>ct_drained := a2\<rparr>) = sampler_ok c"
  "sampler_ok (c\<lparr>ct_control := a3\<rparr>) = sampler_ok c" "sampler_ok (c\<lparr>ct_model := a4\<rparr>) = sampler_ok c"
  "sampler_ok (c\<lparr>vc_failure := a5\<rparr>) = sampler_ok c" "sampler_ok (c\<lparr>vc_engine := a6\<rparr>) = sampler_ok c"
  "sampler_ok (c\<lparr>vc_activation := a6\<rparr>) = sampler_ok c"
  by (simp_all add: sampler_ok_def)

subsection \<open>Loads\<close>

lemma vllm_load_elim:
  assumes "vllm_load_weights dig cfg env initial a c = (r, d)"
  obtains (unchanged) e where "r = Inl e" "d = c" | (partial) e where "r = Inl e" "d = fail_load c"
  | (served) x y q where "r = Inr (artifact_ack a)" "check_artifact dig cfg (ve_mounted env) a c = Inr q"
      "d = serve_policy initial a q (artifact_ack a) (c\<lparr>vc_activation := x, vc_engine := y\<rparr>)"
proof -
  have "(\<exists>e. r = Inl e \<and> d = c) \<or> (\<exists>e. r = Inl e \<and> d = fail_load c) \<or>
      (\<exists>x y q. r = Inr (artifact_ack a) \<and> check_artifact dig cfg (ve_mounted env) a c = Inr q \<and>
         d = serve_policy initial a q (artifact_ack a) (c\<lparr>vc_activation := x, vc_engine := y\<rparr>))"
  proof (cases "vllm_check_artifact dig cfg (ve_mounted env) a c")
    case (Inr q)
    then have "check_artifact dig cfg (ve_mounted env) a c = Inr q"
      unfolding vllm_check_artifact_def by (auto simp: bindE_Inr_iff split: if_split_asm)
    with Inr assms show ?thesis unfolding vllm_load_weights_def by (auto split: sum.splits if_split_asm)
  qed (use assms in \<open>auto simp: vllm_load_weights_def\<close>)
  with that show thesis by blast
qed

lemma check_artifact_fields [simp]:
  "check_artifact dig cfg m a (c\<lparr>vc_activation := x, vc_engine := y\<rparr>) = check_artifact dig cfg m a c"
proof -
  have "ct_policy (c\<lparr>vc_activation := x, vc_engine := y\<rparr>) = ct_policy c"
    "ct_artifact (c\<lparr>vc_activation := x, vc_engine := y\<rparr>) = ct_artifact c" by simp_all
  then show ?thesis unfolding check_artifact_def by (simp only:)
qed

lemma vllm_load_loadable:
  assumes l: "loadable dig cfg c" and ld: "vllm_load_weights dig cfg env initial a c = (r, d)"
  shows "loadable dig cfg d"
  using ld
proof (cases rule: vllm_load_elim)
  case (served x y q)
  have "loadable dig cfg (c\<lparr>vc_activation := x, vc_engine := y\<rparr>)" using l by (simp add: loadable_def)
  moreover have "check_artifact dig cfg (ve_mounted env) a (c\<lparr>vc_activation := x, vc_engine := y\<rparr>) = Inr q" using served(2) by simp
  ultimately show ?thesis unfolding served(3) by (rule serve_loadable)
qed (use l fail_loadable in auto)

lemma vllm_load_frame:
  assumes ld: "vllm_load_weights dig cfg env initial a c = (r, d)"
  shows "ct_drained d = ct_drained c" "ct_flight d = ct_flight c" "vc_failure d = vc_failure c" "sampler_ok d = sampler_ok c"
    "ct_phase d \<in> {ct_phase c, Failed, Running, Paused}" "ct_control d = ct_control c" "vc_sampling d = vc_sampling c"
    "r = Inr ack \<Longrightarrow> ct_phase d = (if initial then Running else Paused)" "ct_seen d = ct_seen c"
    "initial = False \<Longrightarrow> ct_phase c = Paused \<Longrightarrow> ct_phase d \<in> {Failed, Paused}"
  using ld by (cases rule: vllm_load_elim; simp add: serve_policy_def fail_load_def sampler_ok_def)+

lemma vllm_finish_load:
  assumes "loadable dig cfg c" "\<not> ct_drained c" "ph \<noteq> Loading" "ph = ct_phase c \<or> ph = Failed" "sampler_ok c" "vc_failure c = None"
  shows "vllm_inv dig cfg (c\<lparr>ct_phase := ph, ct_control := Idle\<rparr>)"
  using assms by (auto simp: loadable_def vllm_inv_def vllm_control_ok_def loaded_ok_def)

lemma control_Starting: "vllm_inv dig cfg c \<Longrightarrow> ct_control c = Starting a \<Longrightarrow>
    loadable dig cfg c \<and> \<not> ct_drained c \<and> vc_failure c = None \<and> sampler_ok c"
  by (simp add: vllm_inv_def vllm_control_ok_def loadable_def)

lemma control_Activating: "vllm_inv dig cfg c \<Longrightarrow> ct_control c = Activating a \<Longrightarrow>
    loadable dig cfg c \<and> \<not> ct_drained c \<and> vc_failure c = None \<and> sampler_ok c \<and> ct_phase c = Paused"
  by (simp add: vllm_inv_def vllm_control_ok_def loadable_def)

lemma vllm_start_done_inv:
  assumes inv: "vllm_inv dig cfg c" shows "vllm_inv dig cfg (snd (vllm_start_done dig cfg env b c))"
proof (cases "ct_control c")
  case (Starting a)
  note s = control_Starting [OF inv Starting]
  obtain r d where ld: "vllm_load_weights dig cfg env True a c = (r, d)" by (rule prod.exhaust)
  note f = vllm_load_frame [OF ld]
  have d: "loadable dig cfg d" "\<not> ct_drained d" "vc_failure d = None" "sampler_ok d"
    using vllm_load_loadable [OF _ ld] s f(1,3,4) by simp_all
  show ?thesis
  proof (cases r)
    case (Inl e)
    with ld Starting vllm_finish_load [OF d(1,2), of Failed] d show ?thesis by (simp add: vllm_start_done_def)
  next
    case (Inr ack)
    with f(8) have ph: "ct_phase d \<noteq> Loading" by simp
    show ?thesis
      using Inr ld Starting vllm_finish_load [OF d(1,2), of Failed] vllm_finish_load [OF d(1,2) ph] d
      by (auto simp: vllm_start_done_def)
  qed
qed (use inv in \<open>simp_all add: vllm_start_done_def\<close>)

lemma vllm_activate_done_inv:
  assumes inv: "vllm_inv dig cfg c" shows "vllm_inv dig cfg (snd (vllm_activate_done dig cfg env b c))"
proof (cases "ct_control c")
  case (Activating a)
  note s = control_Activating [OF inv Activating]
  obtain r d where ld: "vllm_load_weights dig cfg env False a c = (r, d)" by (rule prod.exhaust)
  note f = vllm_load_frame [OF ld]
  have d: "loadable dig cfg d" "\<not> ct_drained d" "vc_failure d = None" "sampler_ok d"
    using vllm_load_loadable [OF _ ld] s f(1,3,4) by simp_all
  have ph: "ct_phase d \<noteq> Loading" using f(10) s by auto
  show ?thesis
    using ld Activating vllm_finish_load [OF d(1,2), of Failed] vllm_finish_load [OF d(1,2) ph] d
    by (cases r) (auto simp: vllm_activate_done_def)
qed (use inv in \<open>simp_all add: vllm_activate_done_def\<close>)

subsection \<open>Control calls\<close>

lemma vllm_call_inv:
  assumes inv: "vllm_inv dig cfg c"
  shows "vllm_inv dig cfg (snd (start_call a c))" "vllm_inv dig cfg (snd (pause_call c))"
    "vllm_inv dig cfg (snd (activate_call a c))" "vllm_inv dig cfg (snd (resume_call c))" "vllm_inv dig cfg (snd (close_call c))"
  using inv
  by (auto simp: start_call_def pause_call_def activate_call_def resume_call_def close_call_def vllm_inv_def loaded_ok_def
      vllm_control_ok_def split: option.split)

lemma vllm_pause_done_inv: "vllm_inv dig cfg c \<Longrightarrow> vllm_inv dig cfg (snd (vllm_pause_done b c))"
  by (auto simp: vllm_pause_done_def pause_done_def vllm_inv_def loaded_ok_def vllm_control_ok_def flight_empty split: option.split)

lemma vllm_close_done_inv: "vllm_inv dig cfg c \<Longrightarrow> vllm_inv dig cfg (snd (vllm_close_done b r c))"
  by (auto simp: vllm_close_done_def vllm_inv_def loaded_ok_def vllm_control_ok_def flight_empty split: sum.split)

subsection \<open>Generations\<close>

lemma admit_flight:
  assumes "flight_ok c" "rid \<notin> set (ct_seen c)" "ct_policy c = Some p"
  shows "flight_ok (c\<lparr>ct_seen := rid # ct_seen c, ct_active := ct_active c + 1,
    ct_flight := \<lparr>g_request = rid, g_payload = d, g_prompt = prompt, g_policy = p\<rparr> # ct_flight c\<rparr>)"
  using assms by (auto simp: flight_ok_def)

lemma running_idle: "vllm_inv dig cfg c \<Longrightarrow> ct_phase c = Running \<Longrightarrow> ct_control c = Idle \<and> vc_failure c = None \<and> \<not> ct_drained c"
  by (cases "ct_control c") (auto simp: vllm_inv_def vllm_control_ok_def)

lemma running_policy: "vllm_inv dig cfg c \<Longrightarrow> ct_phase c = Running \<Longrightarrow> \<exists>p. ct_policy c = Some p \<and> ct_model c \<noteq> None"
  by (auto simp: vllm_inv_def loaded_ok_def)

lemma sampler_bind:
  assumes "sampler_ok c" "rid \<notin> set (ct_seen c)" "flight_ok c"
  shows "sampler_ok (c\<lparr>vc_sampling := (rid, b) # vc_sampling c\<rparr>)"
proof -
  have "g_request g \<noteq> rid" if "g \<in> set (ct_flight c)" for g using assms(2,3) that by (auto simp: flight_ok_def)
  with assms(1) show ?thesis by (auto simp: sampler_ok_def)
qed

definition enter :: "generation \<Rightarrow> 'a controller_scheme \<Rightarrow> 'a controller_scheme" where
  "enter g c = c\<lparr>ct_seen := g_request g # ct_seen c, ct_active := ct_active c + 1, ct_flight := g # ct_flight c\<rparr>"

lemma enter_probes: "enter g (c :: vllm_controller)\<lparr>vc_probes := vc_probes c\<rparr> = enter g c"
  by (simp add: enter_def)

lemma enter_inv:
  assumes inv: "vllm_inv dig cfg c" and run: "ct_phase c = Running" and new: "g_request g \<notin> set (ct_seen c)"
    and p: "ct_policy c = Some (g_policy g)"
    and b: "g_request g \<in> set P \<or> map_of (vc_sampling c) (g_request g) \<noteq> None"
    and P: "set (vc_probes c) \<subseteq> set P" "set P \<subseteq> insert (g_request g) (set (vc_probes c))"
  shows "vllm_inv dig cfg (enter g c\<lparr>vc_probes := P\<rparr>)"
proof -
  have "flight_ok (enter g c)" using inv new p by (auto simp: vllm_inv_def flight_ok_def enter_def)
  moreover have "weights_ok dig cfg (enter g c)" using inv by (simp add: vllm_inv_def weights_ok_def enter_def)
  moreover have "loaded_ok (enter g c)" using running_policy [OF inv run] by (auto simp: loaded_ok_def enter_def)
  moreover have "vllm_control_ok (enter g c\<lparr>vc_probes := P\<rparr>)" using running_idle [OF inv run] run by (simp add: vllm_control_ok_def enter_def)
  moreover have "sampler_ok (enter g c\<lparr>vc_probes := P\<rparr>)"
  proof -
    have fl: "g_request h \<noteq> g_request g" if "h \<in> set (ct_flight c)" for h
      using inv new that by (auto simp: vllm_inv_def flight_ok_def)
    have same: "(g_request h \<in> set P) = (g_request h \<in> set (vc_probes c))" if "h \<in> set (ct_flight c)" for h
      using P fl [OF that] by auto
    show ?thesis using inv b P same by (auto simp: vllm_inv_def sampler_ok_def enter_def)
  qed
  ultimately show ?thesis by (simp add: vllm_inv_def)
qed

lemma bind_inv:
  "vllm_inv dig cfg c \<Longrightarrow> rid \<notin> set (ct_seen c) \<Longrightarrow> vllm_inv dig cfg (c\<lparr>vc_sampling := (rid, b) # vc_sampling c\<rparr>)"
  using sampler_bind [of c rid b] by (simp add: vllm_inv_def vllm_control_ok_def)

lemma vllm_admit_inv:
  assumes inv: "vllm_inv dig cfg c" shows "vllm_inv dig cfg (snd (vllm_admit dig encode cfg rid d c))"
proof (cases "is_hex 32 rid \<and> ct_phase c = Running \<and> rid \<notin> set (ct_seen c) \<and> (\<exists>h. dig (JObj d) = Inr h)")
  case True
  then obtain h where g: "is_hex 32 rid" "ct_phase c = Running" "rid \<notin> set (ct_seen c)" "dig (JObj d) = Inr h" by blast
  obtain p where p: "ct_policy c = Some p" using running_policy [OF inv g(2)] by blast
  let ?c = "c\<lparr>vc_sampling := (rid, new_binding h p) # vc_sampling c\<rparr>"
  have ci: "vllm_inv dig cfg ?c" by (rule bind_inv [OF inv g(3)])
  have "vllm_inv dig cfg (enter \<lparr>g_request = rid, g_payload = d, g_prompt = prompt, g_policy = p\<rparr> ?c\<lparr>vc_probes := vc_probes ?c\<rparr>)"
    for prompt by (rule enter_inv [OF ci]) (use g p in \<open>auto simp: generation.defs\<close>)
  then have "vllm_inv dig cfg (enter \<lparr>g_request = rid, g_payload = d, g_prompt = prompt, g_policy = p\<rparr> ?c)" for prompt unfolding enter_probes .
  with ci g p show ?thesis by (simp add: vllm_admit_def enter_def Let_def split: sum.split)
qed (use inv in \<open>auto simp: vllm_admit_def split: sum.split\<close>)

lemma probe_admit_inv:
  assumes inv: "vllm_inv dig cfg c" shows "vllm_inv dig cfg (snd (probe_admit cfg prompt m t rid ig ds ss c))"
proof (cases "ct_phase c = Running \<and> rid \<notin> set (ct_seen c)")
  case True
  obtain p where p: "ct_policy c = Some p" using running_policy [OF inv] True by blast
  have "vllm_inv dig cfg (enter \<lparr>g_request = rid, g_payload = [], g_prompt = prompt, g_policy = p\<rparr> c\<lparr>vc_probes := rid # vc_probes c\<rparr>)"
    by (rule enter_inv [OF inv]) (use True p in auto)
  with inv p show ?thesis by (simp add: probe_admit_def enter_def)
qed (use inv in \<open>auto simp: probe_admit_def\<close>)

lemma set_outcome_map: "map_of (set_outcome rid out bs) k = (if k = rid then map_option (\<lambda>b. b\<lparr>b_outcome := out\<rparr>) (map_of bs k) else map_of bs k)"
  by (induction bs) (auto simp: set_outcome_def)

lemma set_outcome_ok:
  assumes ok: "sampler_ok c" and out: "out \<noteq> Not_admitted"
  shows "sampler_ok (c\<lparr>vc_sampling := set_outcome rid out (vc_sampling c)\<rparr>)"
  using ok out by (auto simp: sampler_ok_def set_outcome_map)

lemma set_outcome_inv:
  "vllm_inv dig cfg c \<Longrightarrow> out \<noteq> Not_admitted \<Longrightarrow> vllm_inv dig cfg (c\<lparr>vc_sampling := set_outcome rid out (vc_sampling c)\<rparr>)"
  using set_outcome_ok [of c out rid] by (simp add: vllm_inv_def vllm_control_ok_def)

lemma sample_begin_inv:
  assumes inv: "vllm_inv dig cfg c" shows "vllm_inv dig cfg (sample_begin i c)"
proof (cases "i < length (ct_flight c) \<and> vc_sampler c = None")
  case True
  let ?g = "ct_flight c ! i" let ?rid = "g_request ?g"
  have g: "?g \<in> set (ct_flight c)" using True by simp
  define bs where "bs = (if ?rid \<in> set (vc_probes c) then vc_sampling c else set_outcome ?rid Unknown (vc_sampling c))"
  have "sampler_ok (c\<lparr>vc_sampler := Some ?rid, vc_sampling := bs\<rparr>)"
    using inv g by (auto simp: vllm_inv_def sampler_ok_def set_outcome_map bs_def)
  with inv True show ?thesis by (simp add: sample_begin_def vllm_inv_def vllm_control_ok_def bs_def Let_def)
next
  case False
  then have "sample_begin i c = c" unfolding sample_begin_def by (rule if_not_P)
  with inv show ?thesis by simp
qed

lemma fail_generation_inv:
  assumes inv: "vllm_inv dig cfg c" and fl: "ct_flight c \<noteq> []" shows "vllm_inv dig cfg (fail_generation rid u c)"
proof -
  have "vllm_control_ok (fail_generation rid u c)"
    using inv fl by (cases "ct_control c") (auto simp: vllm_inv_def vllm_control_ok_def fail_generation_def)
  with inv show ?thesis by (auto simp: vllm_inv_def fail_generation_def loaded_ok_def)
qed

lemma fail_if_first_inv: "vllm_inv dig cfg c \<Longrightarrow> ct_flight c \<noteq> [] \<Longrightarrow> vllm_inv dig cfg (fail_if_first rid c)"
  by (simp add: fail_if_first_def fail_generation_inv)

lemma fail_flight [simp]: "ct_flight (fail_generation rid u c) = ct_flight c" "ct_flight (fail_if_first rid c) = ct_flight c"
  by (simp_all add: fail_generation_def fail_if_first_def)

lemma leave_inv:
  assumes inv: "vllm_inv dig cfg c" and i: "i < length (ct_flight c)" shows "vllm_inv dig cfg (leave i c)"
proof -
  let ?rid = "g_request (ct_flight c ! i)" and ?f = "take i (ct_flight c) @ drop (Suc i) (ct_flight c)"
  have ne: "ct_flight c \<noteq> []" using i by auto
  have eq: "leave i c = c\<lparr>ct_active := ct_active c - 1, ct_flight := ?f,
      vc_sampler := (if vc_sampler c = Some ?rid then None else vc_sampler c), vc_probes := removeAll ?rid (vc_probes c)\<rparr>"
    using i by (simp add: leave_def generate_leave_def Let_def)
  have "flight_ok (c\<lparr>ct_active := ct_active c - 1, ct_flight := ?f\<rparr>)"
    using drop_flight_ok [OF _ i] inv by (simp add: vllm_inv_def)
  then have fo: "flight_ok (leave i c)" by (simp add: eq)
  have split: "ct_flight c = take i (ct_flight c) @ ct_flight c ! i # drop (Suc i) (ct_flight c)" by (rule id_take_nth_drop [OF i])
  have fset: "set (ct_flight c) = insert (ct_flight c ! i) (set ?f)" by (subst split) auto
  have fresh: "g_request g \<noteq> ?rid" if "g \<in> set ?f" for g
  proof -
    have "distinct (map g_request (take i (ct_flight c) @ ct_flight c ! i # drop (Suc i) (ct_flight c)))"
      using inv unfolding split [symmetric] by (simp add: vllm_inv_def flight_ok_def)
    then have "?rid \<notin> g_request ` set ?f" by auto
    then show ?thesis using imageI [OF that, of g_request] by metis
  qed
  have "sampler_ok (leave i c)"
    using inv fresh fset unfolding eq by (auto simp: vllm_inv_def sampler_ok_def)
  moreover have "vllm_control_ok (leave i c)"
    using inv ne unfolding eq by (cases "ct_control c") (auto simp: vllm_inv_def vllm_control_ok_def)
  moreover have "weights_ok dig cfg (leave i c)" "loaded_ok (leave i c)"
    using inv ne unfolding eq by (simp_all add: vllm_inv_def weights_ok_def loaded_ok_def)
  ultimately show ?thesis using fo by (simp add: vllm_inv_def)
qed

lemma sample_end_inv:
  assumes inv: "vllm_inv dig cfg c" shows "vllm_inv dig cfg (snd (sample_end i out c))"
proof (cases "i < length (ct_flight c) \<and> vc_sampler c = Some (g_request (ct_flight c ! i))")
  case True
  then have i: "i < length (ct_flight c)" and ne: "ct_flight c \<noteq> []" by auto
  have e: "vllm_inv dig cfg (c\<lparr>vc_engine := x\<rparr>)" for x using inv by (simp add: vllm_inv_def vllm_control_ok_def)
  have o: "vllm_inv dig cfg (c\<lparr>vc_engine := x, vc_sampling := set_outcome rid Completed (vc_sampling c)\<rparr>)" for x rid
    using set_outcome_inv [OF e, of Completed rid x] by simp
  have l: "vllm_inv dig cfg (leave i (fail_generation rid True c))" "vllm_inv dig cfg (leave i (fail_if_first rid c))"
    "vllm_inv dig cfg (leave i (c\<lparr>vc_engine := x\<rparr>))" for rid x
    using fail_generation_inv [OF inv ne] fail_if_first_inv [OF inv ne] e i by (intro leave_inv; simp)+
  then show ?thesis using True o by (simp add: sample_end_def Let_def split: sum.split)
next
  case False
  then have "sample_end i out c = (Inl (KeyError ''no sampler''), c)" unfolding sample_end_def by (rule if_P)
  with inv show ?thesis by simp
qed

lemma vllm_finish_inv:
  assumes inv: "vllm_inv dig cfg c" shows "vllm_inv dig cfg (vllm_finish i r c)"
proof (cases "i < length (ct_flight c) \<and> vc_sampler c = Some (g_request (ct_flight c ! i))")
  case True
  then have i: "i < length (ct_flight c)" and ne: "ct_flight c \<noteq> []" by auto
  have "vllm_inv dig cfg (leave i (fail_if_first rid c))" for rid using fail_if_first_inv [OF inv ne] i by (intro leave_inv) simp_all
  with True leave_inv [OF inv i] show ?thesis by (simp add: vllm_finish_def split: sum.split)
next
  case False
  then have "vllm_finish i r c = c" unfolding vllm_finish_def by (rule if_P)
  with inv show ?thesis by simp
qed

lemma vllm_step_inv: "vllm_inv dig cfg c \<Longrightarrow> vllm_inv dig cfg (vllm_step dig encode cfg a c)"
  by (cases a) (simp_all add: vllm_step_def vllm_call_inv vllm_start_done_inv vllm_pause_done_inv vllm_activate_done_inv
      vllm_close_done_inv vllm_admit_inv probe_admit_inv sample_begin_inv sample_end_inv vllm_finish_inv)

interpretation vllm_system: op_system "vllm_step dig encode cfg" "vllm_inv dig cfg" for dig encode cfg
  by unfold_locales (rule vllm_step_inv)

lemma VLLMPolicyController_inv: "VLLMPolicyController cfg0 l = Inr (cfg, c) \<Longrightarrow> vllm_inv dig cfg c"
  by (auto simp: VLLMPolicyController_def bindE_Inr_iff vllm_inv_def flight_ok_def weights_ok_def loaded_ok_def vllm_control_ok_def
      sampler_ok_def split: list.splits if_split_asm)

lemma vllm_reachable:
  "VLLMPolicyController cfg0 l = Inr (cfg, c0) \<Longrightarrow> vllm_inv dig cfg (fold (vllm_step dig encode cfg) acts c0)"
  by (rule vllm_system.inv_run [OF VLLMPolicyController_inv])

section \<open>Properties\<close>

text \<open>
  Every generation in flight, queued for the sampler or holding it, and whether or not the controller
  has failed meanwhile, was admitted under the policy the controller holds, and the actor was acknowledged
  to hold exactly the weights of an artifact of that policy.
\<close>

theorem vllm_sampling_policy_loaded:
  assumes "VLLMPolicyController cfg0 l = Inr (cfg, c0)" "c = fold (vllm_step dig encode cfg) acts c0" "g \<in> set (ct_flight c)"
  shows "ct_policy c = Some (g_policy g) \<and>
    (\<exists>a. ct_model c = Some a \<and> artifact_policy dig (sc_identities cfg) a = Inr (g_policy g))"
proof -
  have inv: "flight_ok c" "weights_ok dig cfg c" "loaded_ok c"
    using vllm_reachable [OF assms(1), of dig encode acts] assms(2) by (simp_all add: vllm_inv_def)
  then have p: "ct_policy c = Some (g_policy g)" using assms(3) by (simp add: flight_ok_def)
  have "ct_model c \<noteq> None" using inv(3) assms(3) by (auto simp: loaded_ok_def)
  then obtain a where "ct_model c = Some a" by blast
  with p inv(2) show ?thesis by (simp add: weights_ok_def)
qed

text \<open>The failure latch is never cleared.\<close>

lemma leave_failure [simp]: "vc_failure (leave i c) = vc_failure c"
  by (simp add: leave_def generate_leave_def Let_def)

lemma fail_set [simp]: "\<exists>f. vc_failure (fail_generation rid u c) = Some f" "\<exists>f. vc_failure (fail_if_first rid c) = Some f"
  by (simp_all add: fail_generation_def fail_if_first_def)

lemma failure_latched: "vc_failure c \<noteq> None \<Longrightarrow> vc_failure (vllm_step dig encode cfg a c) \<noteq> None"
proof (cases a)
  case (V_start_end env b)
  assume f: "vc_failure c \<noteq> None"
  have "vc_failure d = vc_failure c" if "vllm_load_weights dig cfg env True x c = (r, d)" for x r d
    using vllm_load_frame(3) [OF that] .
  with f V_start_end show ?thesis by (auto simp: vllm_step_def vllm_start_done_def split: control.split prod.split sum.split)
next
  case (V_activate_end env b)
  assume f: "vc_failure c \<noteq> None"
  have "vc_failure d = vc_failure c" if "vllm_load_weights dig cfg env False x c = (r, d)" for x r d
    using vllm_load_frame(3) [OF that] .
  with f V_activate_end show ?thesis by (auto simp: vllm_step_def vllm_activate_done_def split: control.split prod.split sum.split)
next
  case (V_sample_end i out)
  assume f: "vc_failure c \<noteq> None"
  with V_sample_end show ?thesis by (auto simp: vllm_step_def sample_end_def Let_def split: sum.split)
next
  case (V_finish i r)
  assume f: "vc_failure c \<noteq> None"
  with V_finish show ?thesis by (auto simp: vllm_step_def vllm_finish_def split: sum.split)
qed (auto simp: vllm_step_def start_call_def pause_call_def vllm_pause_done_def pause_done_def activate_call_def resume_call_def
    close_call_def vllm_close_done_def vllm_admit_def probe_admit_def sample_begin_def Let_def split: option.split sum.split)

lemma run_latched: "vc_failure c \<noteq> None \<Longrightarrow> vc_failure (fold (vllm_step dig encode cfg) acts c) \<noteq> None"
proof (induction acts arbitrary: c)
  case (Cons a acts)
  from Cons.IH [OF failure_latched [OF Cons.prems]] show ?case by simp
qed simp

fun serving_action :: "vllm_action \<Rightarrow> bool" where
  "serving_action V_close = False"
| "serving_action (V_close_end _ _) = False"
| "serving_action (V_sample_begin _) = False"
| "serving_action (V_sample_end _ _) = False"
| "serving_action (V_finish _ _) = False"
| "serving_action _ = True"

definition granted :: "reply \<Rightarrow> bool" where
  "granted r \<longleftrightarrow> r = Accepted \<or> (\<exists>ack. r = Receipt ack)"

lemma failed_refuses:
  assumes inv: "vllm_inv dig cfg c" and f: "vc_failure c \<noteq> None" and a: "serving_action a"
  shows "\<not> granted (fst (vllm_reply dig encode cfg a c))"
proof -
  have t: "vllm_table (ct_control c) (ct_phase c) (ct_drained c) True (ct_flight c = [])"
    using inv f by (simp add: vllm_inv_def vllm_control_ok_def)
  show ?thesis
    using a t f
    by (cases a; cases "ct_control c")
      (auto simp: granted_def start_call_def vllm_start_done_def pause_call_def vllm_pause_done_def activate_call_def
        vllm_activate_done_def resume_call_def vllm_admit_def probe_admit_def)
qed

text \<open>
  C19. The failure latch: once a generation has failed, whether its remote outcome is known or not, every
  later state is failed or closed, whatever happens in between, and no start, drain receipt, activation,
  resume, generation or diagnostic is granted any more; only closing is.
\<close>

theorem failure_is_final:
  assumes "VLLMPolicyController cfg0 l = Inr (cfg, c0)" "c = fold (vllm_step dig encode cfg) before c0" "vc_failure c \<noteq> None"
    and "d = fold (vllm_step dig encode cfg) later c"
  shows "ct_phase d \<in> {Failed, Closed} \<and>
    (\<forall>a. serving_action a \<longrightarrow> \<not> granted (fst (vllm_reply dig encode cfg a d)))"
proof -
  have f: "vc_failure d \<noteq> None" using run_latched [OF assms(3)] assms(4) by simp
  have inv: "vllm_inv dig cfg d"
    using vllm_reachable [OF assms(1), of dig encode "before @ later"] assms(2,4) by simp
  then have "vllm_table (ct_control d) (ct_phase d) (ct_drained d) True (ct_flight d = [])"
    using f by (simp add: vllm_inv_def vllm_control_ok_def)
  then have "ct_phase d \<in> {Failed, Closed}" by (cases "ct_control d") auto
  with failed_refuses [OF inv f] show ?thesis by blast
qed

section \<open>Receipts\<close>

definition leased_policy :: "policy_ref \<Rightarrow> bool" where
  "leased_policy p \<longleftrightarrow> 0 \<le> version p \<and> is_hex 64 (digest p) \<and> lineage p \<noteq> []"

lemma artifact_policy_leased: "artifact_policy dig idents a = Inr p \<Longrightarrow> leased_policy p"
  unfolding artifact_policy_def PolicyRef_def leased_policy_def
  by (auto simp: result_simps int_field_def digest_field_def nonempty_str_def split: json.splits if_split_asm)

definition bindings_ok :: "vllm_controller \<Rightarrow> bool" where
  "bindings_ok c \<longleftrightarrow> (\<forall>p. ct_policy c = Some p \<longrightarrow> leased_policy p) \<and>
     (\<forall>b\<in>snd ` set (vc_sampling c). \<exists>p h. leased_policy p \<and> b_ack b = b_ack (new_binding h p))"

lemma bindings_ok_same:
  "bindings_ok c \<Longrightarrow> ct_policy d = ct_policy c \<Longrightarrow> vc_sampling d = vc_sampling c \<Longrightarrow> bindings_ok d"
  by (simp add: bindings_ok_def)

lemma bindings_ok_outcome:
  "bindings_ok c \<Longrightarrow> ct_policy d = ct_policy c \<Longrightarrow> vc_sampling d = set_outcome rid out (vc_sampling c) \<Longrightarrow> bindings_ok d"
  by (force simp: bindings_ok_def set_outcome_def)

lemma bindings_ok_load:
  assumes ok: "bindings_ok c" and ld: "vllm_load_weights dig cfg env i a c = (r, d)" shows "bindings_ok d"
  using ld
proof (cases rule: vllm_load_elim)
  case (served x y q)
  then have "leased_policy q" using check_artifact_policy artifact_policy_leased by blast
  with ok served(3) show ?thesis by (simp add: bindings_ok_def serve_policy_def)
qed (use ok in \<open>simp_all add: bindings_ok_def fail_load_def\<close>)

lemma leave_bindings [simp]:
  "ct_policy (leave i c) = ct_policy c" "vc_sampling (leave i c) = vc_sampling c" "vc_sampling (generate_leave i c) = vc_sampling c"
  by (simp_all add: leave_def generate_leave_def Let_def)

lemma fail_bindings [simp]:
  "ct_policy (fail_generation rid u c) = ct_policy c" "vc_sampling (fail_generation rid u c) = vc_sampling c"
  "ct_policy (fail_if_first rid c) = ct_policy c" "vc_sampling (fail_if_first rid c) = vc_sampling c"
  by (simp_all add: fail_generation_def fail_if_first_def)

lemma call_bindings:
  assumes "bindings_ok c"
  shows "bindings_ok (snd (start_call a c))" "bindings_ok (snd (pause_call c))" "bindings_ok (snd (activate_call a c))"
    "bindings_ok (snd (resume_call c))" "bindings_ok (snd (close_call c))" "bindings_ok (snd (vllm_pause_done b c))"
    "bindings_ok (snd (vllm_close_done b r c))" "bindings_ok (snd (probe_admit cfg pr m t rid ig ds ss c))"
    "bindings_ok (vllm_finish i x c)"
  using assms
  by (auto simp: start_call_def pause_call_def activate_call_def resume_call_def close_call_def vllm_pause_done_def pause_done_def
      vllm_close_done_def probe_admit_def vllm_finish_def bindings_ok_def split: option.split sum.split)

lemma sample_begin_bindings: "bindings_ok c \<Longrightarrow> bindings_ok (sample_begin i c)"
  unfolding sample_begin_def Let_def by (auto intro: bindings_ok_outcome bindings_ok_same)

lemma sample_end_bindings: "bindings_ok c \<Longrightarrow> bindings_ok (snd (sample_end i out c))"
  unfolding sample_end_def Let_def
  by (auto split: sum.split intro: bindings_ok_same bindings_ok_outcome)

lemma vllm_admit_bindings:
  assumes inv: "vllm_inv dig cfg c" and ok: "bindings_ok c" shows "bindings_ok (snd (vllm_admit dig encode cfg rid d c))"
proof -
  have new: "bindings_ok (c\<lparr>vc_sampling := (rid, new_binding h (the (ct_policy c))) # vc_sampling c\<rparr>) \<and>
      bindings_ok (c\<lparr>vc_sampling := (rid, new_binding h (the (ct_policy c))) # vc_sampling c, ct_seen := x, ct_active := y, ct_flight := z\<rparr>)"
    if "ct_phase c = Running" for h x y z
    using ok running_policy [OF inv that] by (auto simp: bindings_ok_def) blast
  show ?thesis
    using ok new by (simp add: vllm_admit_def Let_def split: sum.split)
qed

lemma vllm_step_bindings:
  assumes "vllm_inv dig cfg c \<and> bindings_ok c"
  shows "vllm_inv dig cfg (vllm_step dig encode cfg a c) \<and> bindings_ok (vllm_step dig encode cfg a c)"
proof -
  have ld: "bindings_ok (d\<lparr>ct_control := Idle\<rparr>) \<and> bindings_ok (d\<lparr>ct_phase := Failed, ct_control := Idle\<rparr>)"
    if "vllm_load_weights dig cfg env i x c = (r, d)" for env i x r d
    using bindings_ok_load [OF _ that] assms by (auto intro: bindings_ok_same)
  have "bindings_ok (snd (vllm_start_done dig cfg env b c))" "bindings_ok (snd (vllm_activate_done dig cfg env b c))" for env b
    using assms ld by (auto simp: vllm_start_done_def vllm_activate_done_def split: control.split prod.split sum.split)
  then have "bindings_ok (vllm_step dig encode cfg a c)"
    using assms by (cases a) (simp_all add: vllm_step_def call_bindings sample_begin_bindings sample_end_bindings vllm_admit_bindings)
  with assms vllm_step_inv show ?thesis by blast
qed

interpretation binding_system: op_system "vllm_step dig encode cfg" "\<lambda>c. vllm_inv dig cfg c \<and> bindings_ok c" for dig encode cfg
  by unfold_locales (rule vllm_step_bindings)

lemma bindings_reachable:
  assumes "VLLMPolicyController cfg0 l = Inr (cfg, c0)"
  shows "bindings_ok (fold (vllm_step dig encode cfg) acts c0)" "vllm_inv dig cfg (fold (vllm_step dig encode cfg) acts c0)"
proof -
  have "vllm_inv dig cfg c0 \<and> bindings_ok c0"
    using VLLMPolicyController_inv [OF assms] assms
    by (auto simp: VLLMPolicyController_def bindE_Inr_iff bindings_ok_def split: list.splits if_split_asm)
  from binding_system.inv_run [OF this] show "bindings_ok (fold (vllm_step dig encode cfg) acts c0)"
    "vllm_inv dig cfg (fold (vllm_step dig encode cfg) acts c0)" by blast+
qed

definition stage_name :: "string \<Rightarrow> bool" where
  "stage_name s \<longleftrightarrow> is_stage_name (JStr s)"

lemma failure_receipt_valid:
  assumes "leased_policy p" "b_ack b = b_ack (new_binding h p)" "is_hex 32 rid" "stage_name stage" "dig (JObj payload) = Inr (b_payload_sha b)"
  shows "validate_generation_failure dig (JObj (failure_receipt b rid stage)) (JObj payload) rid None = Inr (failure_receipt b rid stage)"
proof -
  have "receipt_header_ok (JObj (failure_receipt b rid stage)) rid"
    using assms(3) by (simp add: receipt_header_ok_def failure_receipt_def keys_are_def receipt_keys_def)
  moreover have "receipt_binding_ok (failure_receipt b rid stage) (b_payload_sha b)"
    using assms(4) by (simp add: receipt_binding_ok_def failure_receipt_def is_false_def stage_name_def)
  moreover have "receipt_flags_ok (failure_receipt b rid stage)" by (simp add: receipt_flags_ok_def failure_receipt_def)
  moreover have "policy_ack_ok (dget (failure_receipt b rid stage) ''policy_ack'') None"
    using assms(1,2) by (simp add: policy_ack_ok_def failure_receipt_def new_binding_def keys_are_def leased_policy_def)
  moreover have "in_str_set (dget (failure_receipt b rid stage) ''sampler_outcome'') [''not_admitted'', ''completed'', ''unknown''] = Inr True"
    by (cases "b_outcome b") (simp_all add: failure_receipt_def in_str_set_def)
  moreover have "b_outcome b = Unknown \<Longrightarrow> \<not> claims_drain (failure_receipt b rid stage)"
    by (simp add: claims_drain_def failure_receipt_def)
  moreover have "dget (failure_receipt b rid stage) ''sampler_outcome'' = JStr ''unknown'' \<longleftrightarrow> b_outcome b = Unknown"
    by (cases "b_outcome b") (simp_all add: failure_receipt_def)
  moreover have "b_outcome b \<noteq> Unknown \<Longrightarrow> failure_is_terminal (failure_receipt b rid stage) = Inr True"
    by (cases "b_outcome b") (simp_all add: failure_is_terminal_def failure_receipt_def is_true_def both_fields_def)
  ultimately show ?thesis
    using assms(5) by (cases "b_outcome b = Unknown") (simp_all add: validate_generation_failure_def Let_def)
qed


text \<open>
  A request that is admitted and still queued for the sampler has the outcome of a rejected one: a receipt
  asked for it at that moment claims closure although the request is still going to be dispatched.
\<close>

lemma queued_receipt_claims_closure:
  assumes "vllm_admit dig encode cfg rid d c = (Accepted, c')"
  shows "\<exists>b. map_of (vc_sampling c') rid = Some b \<and> b_outcome b = Not_admitted \<and> rid \<in> set (map g_request (ct_flight c')) \<and>
    dget (failure_receipt b rid stage) ''sampler_drained'' = JBool True"
  using assms by (auto simp: vllm_admit_def Let_def failure_receipt_def new_binding_def split: if_split_asm sum.splits)

section \<open>Witnesses\<close>

definition demo_learner :: learner_config where
  "demo_learner = \<lparr>lc_scope = ''lm_head'', lc_dtype = ''bfloat16'', lc_kv_cache = True, lc_last_position = True,
     lc_chunk_tokens = 0, lc_devices = [''cuda:0'']\<rparr>"

lemma demo_vllm_ok: "case VLLMPolicyController demo_serving demo_learner of Inr _ \<Rightarrow> True | Inl _ \<Rightarrow> False"
  by (simp add: VLLMPolicyController_def demo_learner_def require_vllm_learner_def vllm_policy_identities_def demo_serving_def)

definition demo_vllm :: "serving_config \<times> vllm_controller" where
  "demo_vllm = (case VLLMPolicyController demo_serving demo_learner of Inr x \<Rightarrow> x | Inl _ \<Rightarrow> undefined)"

lemma demo_vllm_eq: "VLLMPolicyController demo_serving demo_learner = Inr (fst demo_vllm, snd demo_vllm)"
  using demo_vllm_ok by (auto simp: demo_vllm_def split: sum.splits)

definition demo_vllm_artifact :: artifact where
  "demo_vllm_artifact = (demo_artifact 1)\<lparr>art_identity := demo_identity @ vllm_fixed_identities @ [(''vllm_max_model_len'', JStr ''16'')]\<rparr>"

definition demo_vllm_env :: vllm_load_env where
  "demo_vllm_env = \<lparr>ve_mounted = le_mounted (demo_env 1), ve_actor = Inr (),
     ve_reply = Inr \<lparr>vl_ack = JObj (artifact_ack demo_vllm_artifact),
       vl_receipt = JObj [(''policy_ack'', JObj (artifact_ack demo_vllm_artifact))],
       vl_engine = JObj [(''loaded_policy_ack'', JObj (artifact_ack demo_vllm_artifact))]\<rparr>\<rparr>"

definition demo_vllm_run :: "vllm_action list \<Rightarrow> vllm_controller" where
  "demo_vllm_run acts = fold (vllm_step demo_dig demo_encode (fst demo_vllm)) acts (snd demo_vllm)"

definition demo_admitted :: "vllm_action list" where
  "demo_admitted = [V_start demo_vllm_artifact, V_start_end demo_vllm_env False, V_admit demo_rid demo_request, V_sample_begin 0]"

lemma demo_sampling_ok:
  "case ct_flight (demo_vllm_run demo_admitted) of
     [g] \<Rightarrow> g_request g = demo_rid \<and>
       (case map_of (vc_sampling (demo_vllm_run demo_admitted)) demo_rid of
          Some b \<Rightarrow> demo_dig (JObj []) = Inr (b_payload_sha b) \<and> vc_probes (demo_vllm_run demo_admitted) = [] | None \<Rightarrow> False)
   | _ \<Rightarrow> False"
  by code_simp

lemma demo_failed_ok: "vc_failure (demo_vllm_run (demo_admitted @ [V_sample_end 0 (Inl (RuntimeError ''rpc''))])) \<noteq> None"
  by code_simp

lemma vllm_sampling_policy_loaded_witness:
  "\<exists>g. g \<in> set (ct_flight (demo_vllm_run demo_admitted)) \<and> ct_policy (demo_vllm_run demo_admitted) = Some (g_policy g)"
proof -
  obtain g where g: "g \<in> set (ct_flight (demo_vllm_run demo_admitted))"
    using demo_sampling_ok by (auto split: list.splits)
  from vllm_sampling_policy_loaded [OF demo_vllm_eq demo_vllm_run_def this] g show ?thesis by blast
qed

lemma failure_is_final_witness:
  "ct_phase (fold (vllm_step demo_dig demo_encode (fst demo_vllm)) [V_close, V_close_end False (Inr ())]
      (demo_vllm_run (demo_admitted @ [V_sample_end 0 (Inl (RuntimeError ''rpc''))]))) \<in> {Failed, Closed}"
  by (rule conjunct1 [OF failure_is_final [OF demo_vllm_eq demo_vllm_run_def demo_failed_ok refl]])


end
