(* ===== verification/Group_Assembler.thy ===== *)
theory Group_Assembler
  imports Policy_Controller Contracts
begin

text \<open>
  From benchmark episodes to complete training groups, the first half of
  \<^verbatim>\<open>rollout_manager/benchmark_training.py\<close>: the reward policy, the registration of a semantic group and
  the bounded assembler that turns the results of all its episodes into one receipt, a training group or
  an exclusion. An assembler is explicit state; an exception that the source's \<^verbatim>\<open>except\<close> clauses do not
  name leaves the result recorded and the group registered, as the code does.
\<close>

section \<open>Rewards\<close>

record reward_policy =
  rp_benchmark :: string
  rp_mapping :: string

definition supported_mapping :: "string \<Rightarrow> string option" where
  "supported_mapping b =
     map_of [(''kernelbench'', ''native-final-correctness-v1''), (''cuda-agent'', ''native-final-correctness-v1''),
       (''terminal-bench'', ''terminal-validated-verifier-v1'')] b"

definition RewardPolicy :: "string \<Rightarrow> string \<Rightarrow> reward_policy result" where
  "RewardPolicy b m =
     (if supported_mapping b \<noteq> Some m
      then Inl (ValueError ''declare a supported, versioned benchmark reward mapping'')
      else Inr \<lparr>rp_benchmark = b, rp_mapping = m\<rparr>)"

definition native_reward :: "episode_result \<Rightarrow> rat result" where
  "native_reward r =
     (case dget (native_outcome r) ''final_correct'' of
        JBool v \<Rightarrow>
          if verification_state r \<noteq> (if v then ''passed'' else ''failed'')
          then Inl (ValueError ''native final verification is missing or inconsistent'')
          else Inr (if v then 1 else 0)
      | _ \<Rightarrow> Inl (ValueError ''native final verification is missing or inconsistent''))"

definition verifier_reward :: "episode_result \<Rightarrow> rat result" where
  "verifier_reward r =
     (if verification_state r \<noteq> ''evaluated'' \<or>
         dget (native_outcome r) ''review_classification'' \<noteq> JStr ''evaluated''
      then Inl (ValueError ''Terminal verifier requires an authoritative evaluated result'')
      else case dget (native_outcome r) ''validated_reported_reward'' of
          JInt i \<Rightarrow> float_of_int i
        | JFloat (Fin q) \<Rightarrow> Inr q
        | _ \<Rightarrow> Inl (ValueError ''Terminal verifier reward is missing or nonfinite''))"

definition reward :: "reward_policy \<Rightarrow> episode_result \<Rightarrow> rat result" where
  "reward p r =
     (if benchmark (res_identity r) \<noteq> rp_benchmark p \<or> execution_state r \<noteq> ''completed'' \<or> \<not> score_eligible r \<or>
         failure_category r \<noteq> None
      then Inl (ValueError ''episode execution or scoring is ineligible'')
      else if cleanup_state r \<notin> {''verified'', ''not_required''} \<or> request_uncertain (request_state r)
      then Inl (ValueError ''episode cleanup or request delivery is unproven'')
      else if \<not> truthy (request_state r)
      then Inl (ValueError ''episode lacks durable request completion evidence'')
      else if truthy (dget (native_outcome r) ''training_evidence_error'')
      then Inl (ValueError ''backend rejected training evidence'')
      else if rp_mapping p = ''native-final-correctness-v1'' then native_reward r
      else verifier_reward r)"

section \<open>Registrations\<close>

record registration =
  rg_group_id :: int
  rg_plans :: "episode_plan list"
  rg_policy :: policy_ref
  rg_context :: string
  rg_reset :: string
  rg_reward :: reward_policy

definition plan_key :: "episode_plan \<Rightarrow> string \<times> string \<times> int \<times> string \<times> string" where
  "plan_key p = (run_id (plan_identity p), benchmark (plan_identity p), pass_index (plan_identity p),
     ts_task_id (plan_task p), ts_source_sha256 (plan_task p))"

definition exact_digest :: "json \<Rightarrow> string result" where
  "exact_digest v =
     (case v of
        JStr s \<Rightarrow> if is_hex 64 s then Inr s
                  else Inl (ValueError ''initial context and reset require exact SHA256 identities'')
      | _ \<Rightarrow> Inl (ValueError ''initial context and reset require exact SHA256 identities''))"

definition GroupRegistration ::
  "int \<Rightarrow> episode_plan list \<Rightarrow> policy_ref \<Rightarrow> json \<Rightarrow> json \<Rightarrow> reward_policy \<Rightarrow> registration result" where
  "GroupRegistration gid plans pol ctx reset rp =
     (if gid < 0 \<or> length plans < 2 then Inl (ValueError ''register a semantic training group with G >= 2'')
      else if \<not> distinct (map plan_identity plans)
      then Inl (ValueError ''registered episode identities must be unique'')
      else if set (map (sample_index \<circ> plan_identity) plans) \<noteq> set (map int [0 ..< length plans])
      then Inl (ValueError ''registered sample indices must be exactly 0..G-1'')
      else if list_ex (\<lambda>p. plan_key p \<noteq> plan_key (hd plans)) plans
      then Inl (ValueError ''resource waves of different tasks are not a semantic training group'')
      else if rp_benchmark rp \<noteq> benchmark (plan_identity (hd plans))
      then Inl (ValueError ''reward mapping differs from registered benchmark'')
      else bindE (exact_digest ctx) (\<lambda>ctx. bindE (exact_digest reset) (\<lambda>reset.
        Inr \<lparr>rg_group_id = gid, rg_plans = sort_key (sample_index \<circ> plan_identity) plans, rg_policy = pol,
             rg_context = ctx, rg_reset = reset, rg_reward = rp\<rparr>)))"

section \<open>Receipts\<close>

record group_exclusion =
  ge_group_id :: int
  ge_expected_size :: nat
  ge_reasons :: "string list"
  ge_episodes :: "episode_result list"

datatype receipt = Ready training_group | Excluded group_exclusion

text \<open>\<^verbatim>\<open>str(error)\<close> of the three exceptions the source catches, and the others.\<close>

fun caught :: "exn \<Rightarrow> string option" where
  "caught (ValueError m) = Some m"
| "caught (TypeError m) = Some m"
| "caught (KeyError k) = Some (CHR 0x27 # k @ [CHR 0x27])"
| "caught _ = None"

definition settled_request :: "dict \<Rightarrow> turn_trace \<Rightarrow> bool" where
  "settled_request states t \<longleftrightarrow>
     (let d = dget states (Training.request_id t) in
      is_obj d \<and> dget (fields_of d) ''state'' = JStr ''response_received'' \<and>
      dget (fields_of d) ''training_evidence'' = JStr ''validated'')"

definition identity_json :: "episode_identity \<Rightarrow> json" where
  "identity_json i = JObj
     [(''run_id'', JStr (run_id i)), (''benchmark'', JStr (benchmark i)), (''task_id'', JStr (task_id i)),
      (''group_id'', JStr (group_id i)), (''sample_index'', JInt (sample_index i)), (''pass_index'', JInt (pass_index i)),
      (''trial_id'', opt_str (trial_id i)), (''sampling_seed'', opt_int (sampling_seed i))]"

definition sample_name :: "int \<Rightarrow> episode_identity \<Rightarrow> string" where
  "sample_name gid i =
     (case trial_id i of
        Some (c # s) \<Rightarrow> c # s
      | _ \<Rightarrow> run_id i @ '':'' @ show_int gid @ '':'' @ show_int (sample_index i))"

definition sampled_turns :: "policy_ref \<Rightarrow> episode_result \<Rightarrow> turn_trace list result" where
  "sampled_turns pol r =
     (case dget (native_outcome r) ''training_turns'' of
        JList (x # xs) \<Rightarrow>
          bindE (mapE turn_from_dict (x # xs)) (\<lambda>ts.
            if list_ex (\<lambda>t. \<not> policy_eq (turn_policy t) pol) ts
            then Inl (ValueError ''sample policy receipt differs from registered group lease'')
            else let states = dget (fields_of (request_state r)) ''requests'' in
              if \<not> is_obj states \<or> list_ex (\<lambda>t. map_of (fields_of states) (Training.request_id t) = None) ts
              then Inl (ValueError ''sampled requests lack durable delivery records'')
              else if list_ex (\<lambda>t. \<not> settled_request (fields_of states) t) ts
              then Inl (ValueError ''sampled requests lack durable completion and validated training evidence'')
              else Inr ts)
      | _ \<Rightarrow> Inl (ValueError ''exact sampled training turns are missing''))"

definition sample_of ::
  "(string \<Rightarrow> string) \<Rightarrow> registration \<Rightarrow> episode_plan \<Rightarrow> episode_result \<Rightarrow> training_trajectory result" where
  "sample_of sha reg p r =
     (if source_sha256 r \<noteq> Some (ts_source_sha256 (plan_task p))
      then Inl (ValueError ''completed source digest differs from registered task'')
      else bindE (reward (rg_reward reg) r) (\<lambda>rew.
      bindE (sampled_turns (rg_policy reg) r) (\<lambda>ts.
        TrainingTrajectory sha (JInt (rg_group_id reg)) (JStr (ts_task_id (plan_task p))) (JStr (rg_context reg))
          (JStr (rg_reset reg)) (JInt (sample_index (plan_identity p))) ts (JFloat (Fin rew)) (JBool True) JNull
          (JObj [(''episode_identity'', identity_json (res_identity r)), (''native_artifacts'', native_artifacts r),
             (''native_outcome'', JObj (native_outcome r)), (''reward_mapping'', JStr (rp_mapping (rg_reward reg)))])
          (JStr (sample_name (rg_group_id reg) (plan_identity p))) (JFloat (Fin rew))
          (opt_int (sampling_seed (plan_identity p))))))"

text \<open>The loop over the siblings: a sample or a reason for each; any other exception ends it.\<close>

fun judge ::
  "(string \<Rightarrow> string) \<Rightarrow> registration \<Rightarrow> (episode_plan \<times> episode_result) list \<Rightarrow>
     (training_trajectory list \<times> string list) result" where
  "judge sha reg [] = Inr ([], [])"
| "judge sha reg ((p, r) # rest) =
     (case sample_of sha reg p r of
        Inr s \<Rightarrow> bindE (judge sha reg rest) (\<lambda>(ss, why). Inr (s # ss, why))
      | Inl e \<Rightarrow>
          (case caught e of
             None \<Rightarrow> Inl e
           | Some m \<Rightarrow> bindE (judge sha reg rest) (\<lambda>(ss, why).
               Inr (ss, (''sample-'' @ show_int (sample_index (plan_identity p)) @ '': '' @ m) # why))))"

definition exclude :: "registration \<Rightarrow> string list \<Rightarrow> episode_result list \<Rightarrow> receipt" where
  "exclude reg why rs =
     Excluded \<lparr>ge_group_id = rg_group_id reg, ge_expected_size = length (rg_plans reg), ge_reasons = why,
       ge_episodes = rs\<rparr>"

definition receipt_of :: "(string \<Rightarrow> string) \<Rightarrow> registration \<Rightarrow> episode_result list \<Rightarrow> receipt result" where
  "receipt_of sha reg rs =
     bindE (judge sha reg (zip (rg_plans reg) rs)) (\<lambda>(ss, why).
       if why \<noteq> [] then Inr (exclude reg why rs)
       else case TrainingGroup (JInt (rg_group_id reg)) (JStr (ts_task_id (plan_task (hd (rg_plans reg)))))
              (JStr (rg_context reg)) (JStr (rg_reset reg)) (rg_policy reg) (JInt (int (length (rg_plans reg)))) ss of
           Inr g \<Rightarrow> Inr (Ready g)
         | Inl (ValueError m) \<Rightarrow> Inr (exclude reg [m] rs)
         | Inl e \<Rightarrow> Inl e)"

section \<open>The assembler\<close>

record group_row =
  gr_registration :: registration
  gr_results :: "(episode_identity \<times> episode_result) list"

record assembler =
  ga_max_groups :: int
  ga_max_episodes :: int
  ga_groups :: "(int \<times> group_row) list"
  ga_episodes :: "(episode_identity \<times> int) list"
  ga_last :: int

definition GroupAssembler :: "int \<Rightarrow> int \<Rightarrow> assembler result" where
  "GroupAssembler groups episodes =
     (if groups < 1 \<or> episodes < 2 then Inl (ValueError ''group assembler capacities must be positive'')
      else Inr \<lparr>ga_max_groups = groups, ga_max_episodes = episodes, ga_groups = [], ga_episodes = [], ga_last = - 1\<rparr>)"

definition register :: "registration \<Rightarrow> assembler \<Rightarrow> assembler result" where
  "register reg a =
     (if rg_group_id reg \<le> ga_last a then Inl (ValueError ''register a new monotonic semantic group identity'')
      else if int (length (ga_groups a)) \<ge> ga_max_groups a \<or>
          int (length (ga_episodes a)) + int (length (rg_plans reg)) > ga_max_episodes a
      then Inl (ValueError ''bounded training group capacity exhausted'')
      else if list_ex (\<lambda>p. map_of (ga_episodes a) (plan_identity p) \<noteq> None) (rg_plans reg)
      then Inl (ValueError ''episode belongs to more than one semantic training group'')
      else Inr (a\<lparr>ga_groups := ga_groups a @ [(rg_group_id reg, \<lparr>gr_registration = reg, gr_results = []\<rparr>)],
             ga_episodes := ga_episodes a @ map (\<lambda>p. (plan_identity p, rg_group_id reg)) (rg_plans reg),
             ga_last := rg_group_id reg\<rparr>))"

definition put_row :: "int \<Rightarrow> group_row \<Rightarrow> (int \<times> group_row) list \<Rightarrow> (int \<times> group_row) list" where
  "put_row g row rows = map (\<lambda>(k, v). if k = g then (k, row) else (k, v)) rows"

definition forget :: "registration \<Rightarrow> assembler \<Rightarrow> assembler" where
  "forget reg a =
     a\<lparr>ga_groups := filter (\<lambda>(k, v). k \<noteq> rg_group_id reg) (ga_groups a),
       ga_episodes := filter (\<lambda>(i, g). i \<notin> set (map plan_identity (rg_plans reg))) (ga_episodes a)\<rparr>"

definition ordered_results :: "registration \<Rightarrow> (episode_identity \<times> episode_result) list \<Rightarrow> episode_result list" where
  "ordered_results reg rs = map (\<lambda>p. the (map_of rs (plan_identity p))) (rg_plans reg)"

definition complete_result :: "(string \<Rightarrow> string) \<Rightarrow> episode_result \<Rightarrow> assembler \<Rightarrow> receipt option result \<times> assembler" where
  "complete_result sha r a =
     (case map_of (ga_episodes a) (res_identity r) of
        None \<Rightarrow> (Inl (ValueError ''result was not registered or has already completed''), a)
      | Some g \<Rightarrow>
          (case map_of (ga_groups a) g of
             None \<Rightarrow> (Inl (KeyError (show_int g)), a)
           | Some row \<Rightarrow>
               if map_of (gr_results row) (res_identity r) \<noteq> None
               then (Inl (ValueError ''duplicate benchmark episode completion''), a)
               else let rs = gr_results row @ [(res_identity r, r)]; reg = gr_registration row;
                        a = a\<lparr>ga_groups := put_row g (row\<lparr>gr_results := rs\<rparr>) (ga_groups a)\<rparr>
                 in if length rs \<noteq> length (rg_plans reg) then (Inr None, a)
                    else (case receipt_of sha reg (ordered_results reg rs) of
                        Inl e \<Rightarrow> (Inl e, a)
                      | Inr x \<Rightarrow> (Inr (Some x), forget reg a))))"


section \<open>Registered groups\<close>

definition good_reg :: "registration \<Rightarrow> bool" where
  "good_reg reg \<longleftrightarrow> 0 \<le> rg_group_id reg \<and> 2 \<le> length (rg_plans reg) \<and> distinct (map plan_identity (rg_plans reg)) \<and>
     map (sample_index \<circ> plan_identity) (rg_plans reg) = map int [0 ..< length (rg_plans reg)] \<and>
     (\<forall>p\<in>set (rg_plans reg). plan_key p = plan_key (hd (rg_plans reg))) \<and>
     rp_benchmark (rg_reward reg) = benchmark (plan_identity (hd (rg_plans reg)))"

lemma registered_fields:
  assumes "GroupRegistration gid plans pol ctx reset rp = Inr reg"
  shows "rg_group_id reg = gid" "rg_plans reg = sort_key (sample_index \<circ> plan_identity) plans" "rg_reward reg = rp"
    "length (rg_plans reg) = length plans"
proof -
  obtain c r where "Inr \<lparr>rg_group_id = gid, rg_plans = sort_key (sample_index \<circ> plan_identity) plans, rg_policy = pol,
             rg_context = c, rg_reset = r, rg_reward = rp\<rparr> = (Inr reg :: registration result)"
    using assms [unfolded GroupRegistration_def] by - (simp only: guard_Inr_iff bindE_Inr_iff, elim conjE exE, erule that)
  then show "rg_group_id reg = gid" "rg_plans reg = sort_key (sample_index \<circ> plan_identity) plans" "rg_reward reg = rp"
    "length (rg_plans reg) = length plans"
    by auto
qed

lemma GroupRegistration_good:
  assumes "GroupRegistration gid plans pol ctx reset rp = Inr reg"
  shows "good_reg reg"
proof -
  note a = assms [unfolded GroupRegistration_def]
  have g: "0 \<le> gid" "2 \<le> length plans" "distinct (map plan_identity plans)"
    using a by (simp_all only: guard_Inr_iff de_Morgan_disj not_less not_not)
  have "set (map (sample_index \<circ> plan_identity) plans) = set (map int [0 ..< length plans]) \<and>
      (\<forall>p\<in>set plans. plan_key p = plan_key (hd plans)) \<and> rp_benchmark rp = benchmark (plan_identity (hd plans))"
    using a unfolding guard_Inr_iff not_not list_ex_iff bex_simps simp_thms by - (elim conjE, intro conjI, assumption+)
  then have g': "set (map (sample_index \<circ> plan_identity) plans) = set (map int [0 ..< length plans])"
    "\<forall>p\<in>set plans. plan_key p = plan_key (hd plans)" "rp_benchmark rp = benchmark (plan_identity (hd plans))" by blast+
  note reg = registered_fields(1-3) [OF assms]
  have "set (map (sample_index \<circ> plan_identity) plans) = {0 ..< int (length plans)}"
    unfolding g'(1) using image_int_atLeastLessThan [of 0 "length plans"] by simp
  from sort_key_index [OF this]
  have "map (sample_index \<circ> plan_identity) (rg_plans reg) = map int [0 ..< length plans]" using reg(2) by simp
  moreover have "plans \<noteq> []" using g(2) by auto
  moreover have "rg_plans reg \<noteq> []" using g(2) reg(2) by (metis length_sort length_0_conv not_numeral_le_zero)
  ultimately have "hd plans \<in> set plans" "hd (rg_plans reg) \<in> set plans"
    using hd_in_set [of "rg_plans reg"] by (simp_all add: reg(2))
  moreover have "benchmark (plan_identity p) = fst (snd (plan_key p))" for p by (simp add: plan_key_def)
  moreover note \<open>map (sample_index \<circ> plan_identity) (rg_plans reg) = map int [0 ..< length plans]\<close>
  ultimately show ?thesis
    using g g' unfolding good_reg_def reg distinct_map_sort_key length_sort set_sort by metis
qed

section \<open>Invariant\<close>

definition episodes_of :: "int \<times> group_row \<Rightarrow> (episode_identity \<times> int) list" where
  "episodes_of g = map (\<lambda>p. (plan_identity p, fst g)) (rg_plans (gr_registration (snd g)))"

definition row_ok :: "int \<Rightarrow> int \<times> group_row \<Rightarrow> bool" where
  "row_ok latest g \<longleftrightarrow> rg_group_id (gr_registration (snd g)) = fst g \<and> fst g \<le> latest \<and> good_reg (gr_registration (snd g)) \<and>
     distinct (map fst (gr_results (snd g))) \<and>
     (\<forall>x\<in>set (gr_results (snd g)). res_identity (snd x) = fst x \<and> fst x \<in> plan_identity ` set (rg_plans (gr_registration (snd g))))"

definition assembler_inv :: "int \<Rightarrow> int \<Rightarrow> assembler \<Rightarrow> bool" where
  "assembler_inv groups episodes a \<longleftrightarrow> ga_max_groups a = groups \<and> ga_max_episodes a = episodes \<and>
     int (length (ga_groups a)) \<le> groups \<and> int (length (ga_episodes a)) \<le> episodes \<and>
     ga_episodes a = concat (map episodes_of (ga_groups a)) \<and> distinct (map fst (ga_episodes a)) \<and>
     distinct (map fst (ga_groups a)) \<and> (\<forall>g\<in>set (ga_groups a). row_ok (ga_last a) g)"

lemma GroupAssembler_inv: "GroupAssembler g e = Inr a \<Longrightarrow> assembler_inv g e a"
  by (auto simp: GroupAssembler_def assembler_inv_def guard_Inr_iff)

lemma fst_episodes_of [simp]: "map fst (episodes_of g) = map plan_identity (rg_plans (gr_registration (snd g)))"
  by (simp add: episodes_of_def comp_def)

lemma register_inv:
  assumes inv: "assembler_inv m e a" and reg: "good_reg reg" and r: "register reg a = Inr b"
  shows "assembler_inv m e b"
proof -
  have g: "ga_last a < rg_group_id reg" "int (length (ga_groups a)) < m"
      "int (length (ga_episodes a)) + int (length (rg_plans reg)) \<le> e"
      "\<forall>p\<in>set (rg_plans reg). map_of (ga_episodes a) (plan_identity p) = None"
    and b: "b = a\<lparr>ga_groups := ga_groups a @ [(rg_group_id reg, \<lparr>gr_registration = reg, gr_results = []\<rparr>)],
             ga_episodes := ga_episodes a @ map (\<lambda>p. (plan_identity p, rg_group_id reg)) (rg_plans reg),
             ga_last := rg_group_id reg\<rparr>"
    using r inv by (auto simp: register_def assembler_inv_def guard_Inr_iff list_ex_iff)
  note i = inv [unfolded assembler_inv_def]
  have rows: "\<forall>g\<in>set (ga_groups a). row_ok (rg_group_id reg) g" using i g(1) by (auto simp: row_ok_def)
  have fresh: "rg_group_id reg \<notin> fst ` set (ga_groups a)" using i g(1) by (auto simp: row_ok_def)
  have disj: "fst ` set (ga_episodes a) \<inter> plan_identity ` set (rg_plans reg) = {}"
    using g(4) by (force simp: map_of_eq_None_iff)
  have new: "row_ok (rg_group_id reg) (rg_group_id reg, \<lparr>gr_registration = reg, gr_results = []\<rparr>)" "distinct (map plan_identity (rg_plans reg))"
    using reg by (simp_all add: row_ok_def good_reg_def)
  show ?thesis
    unfolding assembler_inv_def
  proof (intro conjI)
    have "distinct (map fst (ga_episodes a))" using i by metis
    with disj new(2) show "distinct (map fst (ga_episodes b))" unfolding b by (simp add: comp_def image_image)
    show "ga_episodes b = concat (map episodes_of (ga_groups b))" using i unfolding b by (simp add: episodes_of_def)
    show "distinct (map fst (ga_groups b))" using i fresh unfolding b by simp
    show "\<forall>g\<in>set (ga_groups b). row_ok (ga_last b) g" using rows new(1) unfolding b by simp
  qed (use i g(2,3) in \<open>simp_all add: b\<close>)
qed

lemma put_row_keys [simp]: "map fst (put_row g row rows) = map fst rows"
  by (induction rows) (auto simp: put_row_def)

lemma length_put_row [simp]: "length (put_row g row rows) = length rows"
  by (simp add: put_row_def)

lemma put_row_episodes:
  assumes "map_of rows g = Some old" "distinct (map fst rows)" "gr_registration row = gr_registration old"
  shows "map episodes_of (put_row g row rows) = map episodes_of rows"
proof -
  have "v = old" if "(g, v) \<in> set rows" for v
    using that assms(1) map_of_is_SomeI [OF assms(2) that] by simp
  then show ?thesis using assms(3) by (auto simp: put_row_def episodes_of_def)
qed

lemma set_put_row: "x \<in> set (put_row g row rows) \<Longrightarrow> x \<in> set rows \<and> fst x \<noteq> g \<or> x = (g, row)"
  by (auto simp: put_row_def split: if_split_asm)

lemma map_of_put_row: "map_of (put_row g row rows) k = (if k = g \<and> map_of rows g \<noteq> None then Some row else map_of rows k)"
  by (induction rows) (auto simp: put_row_def)

text \<open>Recording one more result of an open group.\<close>

lemma record_inv:
  assumes inv: "assembler_inv m e a" and row: "map_of (ga_groups a) g = Some row"
    and new: "map_of (gr_results row) (res_identity r) = None"
    and mem: "res_identity r \<in> plan_identity ` set (rg_plans (gr_registration row))"
  shows "assembler_inv m e (a\<lparr>ga_groups := put_row g (row\<lparr>gr_results := gr_results row @ [(res_identity r, r)]\<rparr>) (ga_groups a)\<rparr>)"
proof -
  let ?row = "row\<lparr>gr_results := gr_results row @ [(res_identity r, r)]\<rparr>"
  have ok: "row_ok (ga_last a) (g, row)" using inv map_of_SomeD [OF row] by (auto simp: assembler_inv_def)
  then have "row_ok (ga_last a) (g, ?row)"
    using new mem by (auto simp: row_ok_def map_of_eq_None_iff)
  moreover have "map episodes_of (put_row g ?row (ga_groups a)) = map episodes_of (ga_groups a)"
    by (rule put_row_episodes [OF row]) (use inv in \<open>simp_all add: assembler_inv_def\<close>)
  ultimately show ?thesis
    using inv by (auto simp: assembler_inv_def dest!: set_put_row)
qed

lemma forget_episodes:
  assumes "distinct (map fst (concat (map episodes_of rows)))" "distinct (map fst rows)" "(g, row) \<in> set rows"
    and P: "P = plan_identity ` set (rg_plans (gr_registration row))"
  shows "filter (\<lambda>(i, k). i \<notin> P) (concat (map episodes_of rows)) = concat (map episodes_of (filter (\<lambda>(k, v). k \<noteq> g) rows))"
  using assms(1-3)
proof (induction rows)
  case (Cons x rows)
  have parts: "distinct (map fst (concat (map episodes_of rows)))"
    "fst ` set (episodes_of x) \<inter> fst ` set (concat (map episodes_of rows)) = {}" using Cons.prems(1) unfolding list.map concat.simps map_append distinct_append set_map by blast+
  have eps: "fst ` set (episodes_of y) = plan_identity ` set (rg_plans (gr_registration (snd y)))" for y
    by (simp add: episodes_of_def image_image)
  show ?case
  proof (cases "fst x = g")
    case True
    have notin: "g \<notin> fst ` set rows" using Cons.prems(2) True by auto
    then have "(g, row) \<notin> set rows" by (metis fst_conv image_eqI)
    then have x: "x = (g, row)" using Cons.prems(3) by simp
    have P': "fst ` set (episodes_of x) = P" unfolding eps x P by simp
    have "i \<notin> P" if "(i, k) \<in> set (concat (map episodes_of rows))" for i k
      using parts(2) image_eqI [OF _ that, of i fst] unfolding P' by (simp only: fst_conv) blast
    then have a: "filter (\<lambda>(i, k). i \<notin> P) (concat (map episodes_of rows)) = concat (map episodes_of rows)"
      by (intro filter_True) blast
    have "k \<noteq> g" if "(k, v) \<in> set rows" for k v using notin image_eqI [OF _ that, of k fst] by (simp only: fst_conv) blast
    then have b: "filter (\<lambda>(k, v). k \<noteq> g) rows = rows" by (intro filter_True) blast
    have "i \<in> P" if "(i, k) \<in> set (episodes_of x)" for i k
      using image_eqI [OF _ that, of i fst] unfolding P' by (simp only: fst_conv)
    then have c: "filter (\<lambda>(i, k). i \<notin> P) (episodes_of x) = []" by (auto simp: filter_empty_conv)
    show ?thesis using a b c by (simp add: x)
  next
    case False
    with Cons.prems(3) have m: "(g, row) \<in> set rows" by auto
    have "P = fst ` set (episodes_of (g, row))" unfolding eps P by simp
    moreover have "set (episodes_of (g, row)) \<subseteq> set (concat (map episodes_of rows))" using m by (simp only: set_concat set_map) blast
    ultimately have "P \<subseteq> fst ` set (concat (map episodes_of rows))" by (simp only: image_mono)
    then have disj: "fst ` set (episodes_of x) \<inter> P = {}" using parts(2) by blast
    have "i \<notin> P" if "(i, k) \<in> set (episodes_of x)" for i k
      using disj image_eqI [OF _ that, of i fst] by (simp only: fst_conv) blast
    then have "filter (\<lambda>(i, k). i \<notin> P) (episodes_of x) = episodes_of x" by (intro filter_True) blast
    moreover have "distinct (map fst rows)" using Cons.prems(2) by simp
    ultimately show ?thesis using False Cons.IH [OF parts(1) _ m] by (cases x) simp
  qed
qed simp

lemma forget_keeps [simp]:
  "ga_max_groups (forget reg a) = ga_max_groups a" "ga_max_episodes (forget reg a) = ga_max_episodes a"
  "ga_last (forget reg a) = ga_last a"
  by (simp_all add: forget_def)

lemma forget_inv:
  assumes inv: "assembler_inv m e a" and row: "map_of (ga_groups a) g = Some row" and reg: "reg = gr_registration row"
  shows "assembler_inv m e (forget reg a)"
proof -
  have g: "rg_group_id reg = g" using inv map_of_SomeD [OF row] reg by (auto simp: assembler_inv_def row_ok_def)
  have eps: "ga_episodes (forget reg a) = concat (map episodes_of (ga_groups (forget reg a)))"
  proof -
    have "ga_episodes a = concat (map episodes_of (ga_groups a))" "distinct (map fst (concat (map episodes_of (ga_groups a))))"
      "distinct (map fst (ga_groups a))" using inv unfolding assembler_inv_def by metis+
    from forget_episodes [OF this(2,3) map_of_SomeD [OF row] refl] this(1) reg g show ?thesis by (simp add: forget_def)
  qed
  moreover have "length (ga_groups (forget reg a)) \<le> length (ga_groups a)" "length (ga_episodes (forget reg a)) \<le> length (ga_episodes a)"
    by (simp_all add: forget_def)
  moreover have "distinct (map fst (ga_episodes a))" "distinct (map fst (ga_groups a))"
    using inv unfolding assembler_inv_def by metis+
  then have "distinct (map fst (ga_episodes (forget reg a)))" "distinct (map fst (ga_groups (forget reg a)))"
    by (simp_all add: forget_def distinct_map_filter)
  moreover have "set (ga_groups (forget reg a)) \<subseteq> set (ga_groups a)" by (auto simp: forget_def)
  ultimately show ?thesis
    using inv unfolding assembler_inv_def
    by (metis (no_types, lifting) dual_order.trans of_nat_mono subset_iff forget_keeps)
qed

lemma episode_group:
  assumes inv: "assembler_inv m e a" and e: "map_of (ga_episodes a) i = Some g"
  obtains row where "map_of (ga_groups a) g = Some row" "i \<in> plan_identity ` set (rg_plans (gr_registration row))"
proof -
  from map_of_SomeD [OF e] inv obtain row where m: "(g, row) \<in> set (ga_groups a)"
      "i \<in> plan_identity ` set (rg_plans (gr_registration row))"
    by (auto simp: assembler_inv_def episodes_of_def)
  with inv have "map_of (ga_groups a) g = Some row" by (simp add: assembler_inv_def)
  with m(2) that show thesis by blast
qed

lemma complete_result_inv: "assembler_inv m e a \<Longrightarrow> assembler_inv m e (snd (complete_result sha r a))"
proof -
  assume inv: "assembler_inv m e a"
  show ?thesis
  proof (cases "map_of (ga_episodes a) (res_identity r)")
    case None
    with inv show ?thesis by (simp add: complete_result_def)
  next
    case (Some g)
    from episode_group [OF inv Some] obtain row where row: "map_of (ga_groups a) g = Some row"
      "res_identity r \<in> plan_identity ` set (rg_plans (gr_registration row))" .
    show ?thesis
    proof (cases "map_of (gr_results row) (res_identity r)")
      case None
      let ?row = "row\<lparr>gr_results := gr_results row @ [(res_identity r, r)]\<rparr>"
      let ?a = "a\<lparr>ga_groups := put_row g ?row (ga_groups a)\<rparr>"
      have a: "assembler_inv m e ?a" by (rule record_inv [OF inv row(1) None row(2)])
      have "map_of (ga_groups ?a) g = Some ?row" using row(1) by (simp add: map_of_put_row)
      from forget_inv [OF a this refl] have "assembler_inv m e (forget (gr_registration row) ?a)" by simp
      with a Some row(1) None show ?thesis by (simp add: complete_result_def Let_def split: sum.split)
    qed (use inv Some row(1) in \<open>simp add: complete_result_def\<close>)
  qed
qed


section \<open>The assembler as a system\<close>

datatype assembler_op =
    Register_group int "episode_plan list" policy_ref json json reward_policy
  | Complete_episode episode_result

text \<open>A registration is constructed and registered; whatever raises leaves the assembler as it was.\<close>

fun assembler_step :: "(string \<Rightarrow> string) \<Rightarrow> assembler_op \<Rightarrow> assembler \<Rightarrow> assembler" where
  "assembler_step sha (Register_group gid plans pol ctx reset rp) a =
     (case bindE (GroupRegistration gid plans pol ctx reset rp) (\<lambda>reg. register reg a) of Inl _ \<Rightarrow> a | Inr b \<Rightarrow> b)"
| "assembler_step sha (Complete_episode r) a = snd (complete_result sha r a)"

lemma assembler_step_inv: "assembler_inv m e a \<Longrightarrow> assembler_inv m e (assembler_step sha op a)"
proof (cases op)
  case (Register_group gid plans pol ctx reset rp)
  assume inv: "assembler_inv m e a"
  show ?thesis
  proof (cases "bindE (GroupRegistration gid plans pol ctx reset rp) (\<lambda>reg. register reg a)")
    case (Inr b)
    then obtain reg where "GroupRegistration gid plans pol ctx reset rp = Inr reg" "register reg a = Inr b" by auto
    from register_inv [OF inv GroupRegistration_good [OF this(1)] this(2)] Inr Register_group show ?thesis by simp
  qed (use inv Register_group in simp)
qed (simp add: complete_result_inv)

interpretation assembler_system: op_system "assembler_step sha" "assembler_inv m e" for sha m e
  by unfold_locales (rule assembler_step_inv)

lemma open_episode:
  assumes inv: "assembler_inv m e a"
  shows "map_of (ga_episodes a) i = Some g \<longleftrightarrow>
    (\<exists>row. map_of (ga_groups a) g = Some row \<and> i \<in> plan_identity ` set (rg_plans (gr_registration row)))" (is "_ \<longleftrightarrow> ?r")
proof
  show "map_of (ga_episodes a) i = Some g \<Longrightarrow> ?r" using episode_group [OF inv] by metis
next
  assume ?r
  then obtain row where row: "map_of (ga_groups a) g = Some row" "i \<in> plan_identity ` set (rg_plans (gr_registration row))" by blast
  have "(i, g) \<in> set (episodes_of (g, row))" using row(2) by (auto simp: episodes_of_def)
  then have "(i, g) \<in> set (concat (map episodes_of (ga_groups a)))"
    using map_of_SomeD [OF row(1)] by (simp only: set_concat set_map) blast
  moreover have "ga_episodes a = concat (map episodes_of (ga_groups a))" "distinct (map fst (ga_episodes a))"
    using inv unfolding assembler_inv_def by metis+
  ultimately show "map_of (ga_episodes a) i = Some g" by (metis map_of_is_SomeI)
qed

text \<open>
  Bounded accounting: whatever is registered and completed, in any order, at most the configured
  number of groups and episodes is open, every open episode belongs to exactly one open group, and the
  open episodes are exactly the planned episodes of the open groups.
\<close>

theorem assembler_bounded:
  assumes "GroupAssembler m e = Inr a0" "a = fold (assembler_step sha) ops a0"
  shows "int (length (ga_groups a)) \<le> m \<and> int (length (ga_episodes a)) \<le> e \<and> distinct (map fst (ga_episodes a)) \<and>
    (\<forall>i g. map_of (ga_episodes a) i = Some g \<longleftrightarrow>
       (\<exists>row. map_of (ga_groups a) g = Some row \<and> i \<in> plan_identity ` set (rg_plans (gr_registration row))))"
proof -
  have inv: "assembler_inv m e a" using assembler_system.inv_run [OF GroupAssembler_inv [OF assms(1)]] assms(2) by simp
  then have "int (length (ga_groups a)) \<le> m" "int (length (ga_episodes a)) \<le> e" "distinct (map fst (ga_episodes a))"
    unfolding assembler_inv_def by metis+
  with open_episode [OF inv] show ?thesis by simp
qed

section \<open>One receipt for each group\<close>

definition run_results :: "(string \<Rightarrow> string) \<Rightarrow> episode_result list \<Rightarrow> assembler \<Rightarrow> receipt option result list \<times> assembler" where
  "run_results sha rs a = foldl (\<lambda>(out, a) r. case complete_result sha r a of (x, b) \<Rightarrow> (out @ [x], b)) ([], a) rs"

lemma run_results_snoc:
  "run_results sha (rs @ [r]) a = (case run_results sha rs a of (out, b) \<Rightarrow> case complete_result sha r b of (x, c) \<Rightarrow> (out @ [x], c))"
  by (simp add: run_results_def split_beta)

definition keyed :: "episode_result list \<Rightarrow> (episode_identity \<times> episode_result) list" where
  "keyed rs = map (\<lambda>r. (res_identity r, r)) rs"

definition recorded :: "int \<Rightarrow> group_row \<Rightarrow> episode_result list \<Rightarrow> assembler \<Rightarrow> assembler" where
  "recorded g row rs a = a\<lparr>ga_groups := put_row g (row\<lparr>gr_results := keyed rs\<rparr>) (ga_groups a)\<rparr>"

lemma put_row_twice: "put_row g r2 (put_row g r1 rows) = put_row g r2 rows"
  by (induction rows) (auto simp: put_row_def)

lemma complete_recorded:
  assumes row: "map_of (ga_groups a) g = Some row" and eps: "map_of (ga_episodes a) (res_identity r) = Some g"
    and new: "res_identity r \<notin> set (map res_identity rs)"
  shows "complete_result sha r (recorded g row rs a) =
    (if Suc (length rs) \<noteq> length (rg_plans (gr_registration row)) then (Inr None, recorded g row (rs @ [r]) a)
     else case receipt_of sha (gr_registration row) (ordered_results (gr_registration row) (keyed (rs @ [r]))) of
         Inl e \<Rightarrow> (Inl e, recorded g row (rs @ [r]) a)
       | Inr x \<Rightarrow> (Inr (Some x), forget (gr_registration row) (recorded g row (rs @ [r]) a)))"
proof -
  have "map_of (keyed rs) (res_identity r) = None"
    using new by (simp add: keyed_def map_of_eq_None_iff image_image)
  then show ?thesis
    using row eps unfolding complete_result_def
    by (simp add: recorded_def map_of_put_row put_row_twice Let_def keyed_def split: sum.split)
qed

lemma put_row_same: "map_of rows g = Some row \<Longrightarrow> distinct (map fst rows) \<Longrightarrow> put_row g row rows = rows"
  using map_of_is_SomeI by (fastforce simp: put_row_def intro: map_idI)

text \<open>
  C32. Whatever the order in which the results of a group's episodes arrive, each is accepted; all but the
  last give no receipt, the last gives the group's only receipt, and that receipt depends on the results
  alone, taken in the order of the plans, not on their order of arrival.
\<close>

theorem one_receipt_per_group:
  assumes a: "GroupAssembler m e = Inr a0" "a = fold (assembler_step sha) ops a0"
    and row: "map_of (ga_groups a) g = Some row" "gr_results row = []" and reg: "reg = gr_registration row"
    and rs: "mset (map res_identity rs) = mset (map plan_identity (rg_plans reg))"
  shows "fst (run_results sha rs a) = replicate (length rs - 1) (Inr None) @
    [case receipt_of sha reg (map (\<lambda>p. the (map_of (keyed rs) (plan_identity p))) (rg_plans reg)) of
       Inl e \<Rightarrow> Inl e | Inr x \<Rightarrow> Inr (Some x)]"
proof -
  have inv: "assembler_inv m e a" using assembler_system.inv_run [OF GroupAssembler_inv [OF a(1)]] a(2) by simp
  have ids: "map_of (ga_episodes a) i = Some g" if "i \<in> set (map res_identity rs)" for i
    using that open_episode [OF inv] row(1) mset_eq_setD [OF rs] unfolding reg by auto
  have good: "good_reg reg" using inv map_of_SomeD [OF row(1)] unfolding reg by (auto simp: assembler_inv_def row_ok_def)
  have len: "length rs = length (rg_plans reg)" using arg_cong [OF rs, of size] by simp
  have dist: "distinct (map res_identity rs)" using good rs unfolding good_reg_def by (metis mset_eq_imp_distinct_iff)
  have "row\<lparr>gr_results := []\<rparr> = row" using row(2) by simp
  then have start: "recorded g row [] a = a"
    using inv row(1) by (simp add: recorded_def keyed_def put_row_same assembler_inv_def)
  have new: "res_identity (rs ! n) \<notin> set (map res_identity (take n rs))" if "n < length rs" for n
    using dist that nth_eq_iff_index_eq [OF dist] by (fastforce simp: in_set_conv_nth)
  have snoc: "take (Suc n) rs = take n rs @ [rs ! n]" if "n < length rs" for n using that by (rule take_Suc_conv_app_nth)
  have prefix_run: "run_results sha (take n rs) a = (replicate n (Inr None), recorded g row (take n rs) a)" if "n < length rs" for n
    using that
  proof (induction n)
    case (Suc n)
    then show ?case
      using complete_recorded [OF row(1) ids new, of n sha] len
      by (simp add: snoc run_results_snoc reg replicate_append_same)
  qed (simp add: run_results_def start)
  have "length rs \<noteq> 0" using len good by (auto simp: good_reg_def)
  then obtain n where n: "length rs = Suc n" using not0_implies_Suc by blast
  then have all: "rs = take n rs @ [rs ! n]" using snoc [of n] by simp
  have "fst (run_results sha (take n rs @ [rs ! n]) a) = replicate n (Inr None) @ [fst (complete_result sha (rs ! n) (recorded g row (take n rs) a))]"
    using prefix_run [of n] n by (simp add: run_results_snoc split_beta)
  then show ?thesis
    using complete_recorded [OF row(1) ids new, of n sha] n len
    unfolding all [symmetric] by (simp add: reg ordered_results_def split: sum.split)
qed


section \<open>What a training group proves\<close>

lemma judge_clean: "judge sha reg ps = Inr (ss, []) \<Longrightarrow> list_all2 (\<lambda>x s. sample_of sha reg (fst x) (snd x) = Inr s) ps ss"
proof (induction ps arbitrary: ss)
  case (Cons x ps)
  obtain p r where x: "x = (p, r)" by (cases x)
  from Cons.prems x obtain s ss' where "sample_of sha reg p r = Inr s" "judge sha reg ps = Inr (ss', [])" "ss = s # ss'"
    by (auto split: sum.splits option.splits)
  with Cons.IH x show ?case by simp
qed simp

definition proven_episode :: "registration \<Rightarrow> episode_plan \<Rightarrow> episode_result \<Rightarrow> bool" where
  "proven_episode reg p r \<longleftrightarrow> source_sha256 r = Some (ts_source_sha256 (plan_task p)) \<and> execution_state r = ''completed'' \<and>
     score_eligible r \<and> failure_category r = None \<and> cleanup_state r \<in> {''verified'', ''not_required''} \<and>
     \<not> request_uncertain (request_state r)"

lemma reward_proves:
  assumes "reward p r = Inr q"
  shows "execution_state r = ''completed'' \<and> score_eligible r \<and> failure_category r = None \<and>
    cleanup_state r \<in> {''verified'', ''not_required''} \<and> \<not> request_uncertain (request_state r)"
  using assms unfolding reward_def guard_Inr_iff de_Morgan_disj not_not by blast

lemma sampled_turns_proves:
  assumes "sampled_turns pol r = Inr ts"
  shows "\<forall>t\<in>set ts. policy_eq (turn_policy t) pol \<and>
    settled_request (fields_of (dget (fields_of (request_state r)) ''requests'')) t"
proof -
  from assms obtain x xs where "dget (native_outcome r) ''training_turns'' = JList (x # xs)"
    by (cases "dget (native_outcome r) ''training_turns''") (auto simp: sampled_turns_def split: list.splits)
  with assms obtain us where "\<not> list_ex (\<lambda>t. \<not> policy_eq (turn_policy t) pol) us"
    "\<not> list_ex (\<lambda>t. \<not> settled_request (fields_of (dget (fields_of (request_state r)) ''requests'')) t) us" "us = ts"
    unfolding sampled_turns_def Let_def by (auto simp only: json.case list.case bindE_Inr_iff guard_Inr_iff sum.inject)
  then show ?thesis by (auto simp: list_ex_iff)
qed

lemma sample_of_proves:
  assumes "sample_of sha reg p r = Inr s"
  shows "proven_episode reg p r \<and> tj_sample_index s = sample_index (plan_identity p) \<and>
    (\<exists>q. reward (rg_reward reg) r = Inr q \<and> tj_reward s = Some q) \<and>
    (\<forall>t\<in>set (turns s). policy_eq (turn_policy t) (rg_policy reg) \<and>
      settled_request (fields_of (dget (fields_of (request_state r)) ''requests'')) t)"
proof -
  from assms obtain q ts where q: "source_sha256 r = Some (ts_source_sha256 (plan_task p))" "reward (rg_reward reg) r = Inr q"
    "sampled_turns (rg_policy reg) r = Inr ts"
    and s: "TrainingTrajectory sha (JInt (rg_group_id reg)) (JStr (ts_task_id (plan_task p))) (JStr (rg_context reg))
          (JStr (rg_reset reg)) (JInt (sample_index (plan_identity p))) ts (JFloat (Fin q)) (JBool True) JNull
          (JObj [(''episode_identity'', identity_json (res_identity r)), (''native_artifacts'', native_artifacts r),
             (''native_outcome'', JObj (native_outcome r)), (''reward_mapping'', JStr (rp_mapping (rg_reward reg)))])
          (JStr (sample_name (rg_group_id reg) (plan_identity p))) (JFloat (Fin q))
          (opt_int (sampling_seed (plan_identity p))) = Inr s"
    unfolding sample_of_def guard_Inr_iff bindE_Inr_iff not_not by blast
  have "tj_sample_index s = sample_index (plan_identity p)" "turns s = ts" "tj_reward s = Some q"
    using s by (auto simp: TrainingTrajectory_def result_simps int_field_Inr optional_def)
  then show ?thesis
    using q reward_proves [OF q(2)] sampled_turns_proves [OF q(3)] unfolding proven_episode_def by blast
qed



section \<open>Witnesses\<close>

definition ga_hex :: string where
  "ga_hex = replicate 64 CHR ''0''"

definition ga_policy :: policy_ref where
  "ga_policy = \<lparr>version = 1, digest = ga_hex, lineage = ''l'', identities = [], sampling = full_sampling 1\<rparr>"

definition ga_plan :: "int \<Rightarrow> episode_plan" where
  "ga_plan i = \<lparr>plan_identity = \<lparr>run_id = ''r'', benchmark = ''kernelbench'', task_id = ''t'', group_id = ''g'',
       sample_index = i, pass_index = 0, trial_id = None, sampling_seed = Some i\<rparr>,
     plan_task = \<lparr>ts_benchmark = ''kernelbench'', ts_task_id = ''t'', ts_source_sha256 = ''s'', ts_payload = [],
       ts_resources = \<lparr>executor = ''e'', quantity = (\<lambda>_. 0), accounting = ''episode''\<rparr>, ts_budgets = [], ts_provenance = []\<rparr>,
     plan_payload = None\<rparr>"

definition ga_turn :: "string \<Rightarrow> json" where
  "ga_turn rid = JObj
     [(''turn_id'', JInt 1), (''request_id'', JStr rid), (''context_token_ids'', ints [5]), (''action_token_ids'', ints [6]),
      (''behavior_log_probs'', floats [- 1]), (''policy'', policy_to_dict ga_policy), (''finish_reason'', JStr ''eos''),
      (''stop_token_count'', JInt 1), (''context_truncation'', JStr ''none'')]"

definition ga_result :: "int \<Rightarrow> string \<Rightarrow> episode_result" where
  "ga_result i rid = \<lparr>res_identity = plan_identity (ga_plan i), execution_state = ''completed'', verification_state = ''passed'',
     score_eligible = True, cleanup_state = ''verified'',
     native_outcome = [(''final_correct'', JBool True), (''training_turns'', JList [ga_turn rid])], native_artifacts = JNull,
     usage = JNull, timings = JNull, failure_category = None, model_identity = None,
     request_state = JObj [(''requests'', JObj [(rid, JObj [(''state'', JStr ''response_received''),
        (''training_evidence'', JStr ''validated'')])])],
     configuration_sha256 = None, source_sha256 = Some ''s''\<rparr>"

abbreviation ga_rewards :: reward_policy where
  "ga_rewards \<equiv> \<lparr>rp_benchmark = ''kernelbench'', rp_mapping = ''native-final-correctness-v1''\<rparr>"

definition ga_registration :: "registration result" where
  "ga_registration = GroupRegistration 3 [ga_plan 1, ga_plan 0] ga_policy (JStr ga_hex) (JStr ga_hex) ga_rewards"

lemma ga_receipt_ok:
  "case ga_registration of
     Inr reg \<Rightarrow> length (rg_plans reg) = 2 \<and>
       (case receipt_of (\<lambda>_. ga_hex) reg [ga_result 0 ''p'', ga_result 1 ''q''] of Inr (Ready g) \<Rightarrow> True | _ \<Rightarrow> False)
   | Inl _ \<Rightarrow> False"
  by code_simp


definition ga_open :: "assembler_op list" where
  "ga_open = [Register_group 3 [ga_plan 1, ga_plan 0] ga_policy (JStr ga_hex) (JStr ga_hex) ga_rewards]"

definition ga_empty :: assembler where
  "ga_empty = \<lparr>ga_max_groups = 1, ga_max_episodes = 2, ga_groups = [], ga_episodes = [], ga_last = - 1\<rparr>"

lemma ga_empty: "GroupAssembler 1 2 = Inr ga_empty"
  by (simp add: GroupAssembler_def ga_empty_def)

lemma assembler_bounded_witness:
  "int (length (ga_groups (fold (assembler_step (\<lambda>_. ga_hex)) ga_open ga_empty))) \<le> 1"
  using assembler_bounded [OF ga_empty refl] by blast

lemma ga_open_ok:
  "case map_of (ga_groups (fold (assembler_step (\<lambda>_. ga_hex)) ga_open ga_empty)) 3 of
     Some row \<Rightarrow> gr_results row = [] \<and> map plan_identity (rg_plans (gr_registration row)) = [plan_identity (ga_plan 0), plan_identity (ga_plan 1)]
   | None \<Rightarrow> False"
  by code_simp

lemma one_receipt_per_group_witness:
  "\<exists>x. fst (run_results (\<lambda>_. ga_hex) [ga_result 1 ''q'', ga_result 0 ''p''] (fold (assembler_step (\<lambda>_. ga_hex)) ga_open ga_empty)) = [Inr None, x]"
proof -
  obtain row where row: "map_of (ga_groups (fold (assembler_step (\<lambda>_. ga_hex)) ga_open ga_empty)) 3 = Some row" "gr_results row = []"
    and ids: "map plan_identity (rg_plans (gr_registration row)) = [plan_identity (ga_plan 0), plan_identity (ga_plan 1)]"
    using ga_open_ok by (auto split: option.splits)
  have "mset (map res_identity [ga_result 1 ''q'', ga_result 0 ''p'']) = mset (map plan_identity (rg_plans (gr_registration row)))"
    unfolding ids by (simp add: ga_result_def)
  from one_receipt_per_group [OF ga_empty refl row refl this] show ?thesis by simp
qed

end
