(* ===== verification/Training_Provider.thy ===== *)
theory Training_Provider
  imports Group_Assembler Coordinator
begin

text \<open>
  The benchmark training provider, the second half of \<^verbatim>\<open>rollout_manager/benchmark_training.py\<close>: a
  bounded mailbox of group packets between one coordinator stream and the learner, the pause, activate
  and resume barrier over an injected policy controller, and the recovery snapshot.

  The event loop makes the code between two awaits atomic: an operation that awaits is a step that begins
  it and a step that ends it, and any other operation may run in between. What the awaited parties return
  (the controller's acknowledgements, the plan factory, the stream's results) are inputs of the steps. The
  control lock is \<open>pv_control\<close>; \<open>pv_flight\<close> is what the producer task works on, so \<^verbatim>\<open>_active\<close> is
  \<open>pv_flight \<noteq> No_group\<close>. A caller whose wait times out is a step of its own, \<open>call_timeout\<close>; the operation
  that it waited for goes on. The time stamps of a packet and the worker's process identity are inputs.
\<close>

section \<open>Packets\<close>

record packet =
  pk_fields :: dict
  pk_group :: "training_group option"

text \<open>\<^verbatim>\<open>_encode\<close> and \<^verbatim>\<open>_decode\<close>; \<open>pk_fields\<close> are the entries but \<^verbatim>\<open>group\<close> and \<^verbatim>\<open>training_group\<close>. The
  \<^verbatim>\<open>AttributeError\<close> of an exclusion that is not a dictionary is a \<open>TypeError\<close>.\<close>

definition plain_fields :: "dict \<Rightarrow> dict" where
  "plain_fields d = filter (\<lambda>p. fst p \<notin> {''group'', ''training_group''}) d"

definition encode_packet :: "packet \<Rightarrow> dict" where
  "encode_packet p =
     plain_fields (pk_fields p) @ [(''training_group'', case pk_group p of None \<Rightarrow> JNull | Some g \<Rightarrow> group_to_dict g)]"

definition decode_packet :: "(string \<Rightarrow> string) \<Rightarrow> json \<Rightarrow> packet result" where
  "decode_packet sha v =
     bindE (as_dict v) (\<lambda>d.
     bindE (dlookup d ''training_group'') (\<lambda>t.
       if truthy t then
         bindE (group_from_dict sha t) (\<lambda>g.
         bindE (dlookup d ''group_id'') (\<lambda>i.
           if \<not> py_eq (JInt (tg_group_id g)) i
           then Inl (ValueError ''restored benchmark packet identity differs'')
           else Inr \<lparr>pk_fields = plain_fields d, pk_group = Some g\<rparr>))
       else
         case dget_default d ''exclusion'' (JObj []) of
           JObj x \<Rightarrow>
             bindE (dlookup d ''group_id'') (\<lambda>i.
               if \<not> py_eq (dget x ''group_id'') i
               then Inl (ValueError ''restored benchmark exclusion identity differs'')
               else Inr \<lparr>pk_fields = plain_fields d, pk_group = None\<rparr>)
         | _ \<Rightarrow> Inl (TypeError ''exclusion has no attribute get'')))"

section \<open>State\<close>

record provider_config =
  pc_temperature :: rat
  pc_queue_capacity :: int
  pc_groups_per_step :: int
  pc_group_size :: int

datatype flight = No_group | Planning | Executing registration

datatype provider_control = Free | Pause_waits | Activate_waits artifact policy_ref | Resume_waits

record provider_row =
  pr_packet :: packet
  pr_delivered :: bool

record provider =
  pv_artifact :: artifact
  pv_policy :: policy_ref
  pv_ack :: "dict option"
  pv_next :: int
  pv_committed :: int
  pv_dropped :: int
  pv_retained :: "(int \<times> provider_row) list"
  pv_assembler :: assembler
  pv_started :: bool
  pv_pump :: bool
  pv_flight :: flight
  pv_paused :: bool
  pv_closing :: bool
  pv_closed :: bool
  pv_error :: "exn option"
  pv_ready :: bool
  pv_timed_out :: bool
  pv_control :: provider_control
  pv_stream_open :: bool
  pv_stream_paused :: bool
  pv_stopped :: "string option"

definition bound_of :: "provider_config \<Rightarrow> int" where
  "bound_of cfg = pc_queue_capacity cfg + pc_groups_per_step cfg"

definition policy_ack :: "policy_ref \<Rightarrow> dict" where
  "policy_ack p = [(''version'', JInt (version p)), (''digest'', JStr (digest p)), (''lineage'', JStr (lineage p))]"

definition check_ack :: "policy_ref \<Rightarrow> json \<Rightarrow> dict result" where
  "check_ack p v =
     (case v of
        JObj d \<Rightarrow>
          if dget d ''version'' = JInt (version p) \<and> dget d ''digest'' = JStr (digest p) \<and> dget d ''lineage'' = JStr (lineage p)
          then Inr (policy_ack p)
          else Inl (ValueError ''controller acknowledgement differs from committed policy'')
      | _ \<Rightarrow> Inl (ValueError ''controller acknowledgement differs from committed policy''))"

section \<open>Construction and recovery\<close>

fun int_value_of :: "json \<Rightarrow> int result" where
  "int_value_of (JInt i) = Inr i"
| "int_value_of _ = Inl (TypeError ''an integer is required'')"

definition recovery_ok :: "policy_ref \<Rightarrow> dict \<Rightarrow> bool" where
  "recovery_ok p s \<longleftrightarrow>
     py_eq (dget s ''schema_version'') (JInt 1) \<and> dget s ''provider'' = JStr ''benchmark-training'' \<and>
     dget s ''pending_requests'' = JList [] \<and> truthy (dget s ''admission_paused'') \<and>
     dget (fields_of (dget_default s ''active_policy'' (JObj []))) ''lineage'' = JStr (lineage p)"

text \<open>A restored group was sampled under a policy of this run, of the same identities and sampling.\<close>

definition restorable :: "policy_ref \<Rightarrow> training_group option \<Rightarrow> bool" where
  "restorable p g \<longleftrightarrow>
     (case g of
        None \<Rightarrow> True
      | Some g \<Rightarrow> lineage (tg_policy g) = lineage p \<and> version (tg_policy g) \<le> version p \<and>
          py_eq (JObj (identities (tg_policy g))) (JObj (identities p)) \<and>
          py_eq (JObj (sampling (tg_policy g))) (JObj (sampling p)))"

fun restore_packets ::
  "(string \<Rightarrow> string) \<Rightarrow> policy_ref \<Rightarrow> json list \<Rightarrow> (int \<times> provider_row) list \<Rightarrow> (int \<times> provider_row) list result" where
  "restore_packets sha p [] rows = Inr rows"
| "restore_packets sha p (v # vs) rows =
     bindE (decode_packet sha v) (\<lambda>packet.
     bindE (int_value_of (dget (pk_fields packet) ''group_id'')) (\<lambda>g.
       if map_of rows g \<noteq> None then Inl (ValueError ''duplicate restored benchmark group'')
       else if \<not> restorable p (pk_group packet)
       then Inl (ValueError ''restored benchmark group differs from committed policy identity'')
       else restore_packets sha p vs (rows @ [(g, \<lparr>pr_packet = packet, pr_delivered = False\<rparr>)])))"

definition restore ::
  "(string \<Rightarrow> string) \<Rightarrow> int \<Rightarrow> policy_ref \<Rightarrow> dict \<Rightarrow> (int \<times> int \<times> int \<times> (int \<times> provider_row) list) result" where
  "restore sha bound p s =
     (if \<not> recovery_ok p s
      then Inl (ValueError ''benchmark recovery requires a drained, reconciled same-lineage boundary'')
      else bindE (bindE (dlookup s ''next_group_id'') int_value_of) (\<lambda>next_group.
      bindE (bindE (dlookup s ''committed_highwater'') int_value_of) (\<lambda>committed.
      bindE (bindE (dlookup s ''dropped_groups'') int_value_of) (\<lambda>dropped.
      bindE (bindE (dlookup s ''pending_packets'') iterate_values) (\<lambda>packets.
      bindE (restore_packets sha p packets []) (\<lambda>rows.
        if int (length rows) > bound \<or> sort (map fst rows) \<noteq> [committed .. next_group - 1]
        then Inl (ValueError ''benchmark recovery mailbox has a cursor gap or exceeds capacity'')
        else Inr (next_group, committed, dropped, rows)))))))"

definition BenchmarkTrainingProvider ::
  "(string \<Rightarrow> string) \<Rightarrow> (artifact \<Rightarrow> policy_ref result) \<Rightarrow> provider_config \<Rightarrow> artifact \<Rightarrow> int \<Rightarrow> dict option \<Rightarrow> provider result" where
  "BenchmarkTrainingProvider sha pf cfg a next_group recovery =
     bindE (pf a) (\<lambda>p.
       if \<not> py_eq (JFloat (Fin (pc_temperature cfg))) (dget (sampling p) ''temperature'')
       then Inl (ValueError ''learner and serving temperatures disagree'')
       else if bound_of cfg < 1 \<or> pc_group_size cfg < 2
       then Inl (ValueError ''benchmark training requires bounded mailbox capacity and G >= 2'')
       else bindE (GroupAssembler 1 (pc_group_size cfg)) (\<lambda>asm.
       bindE (case recovery of
            None \<Rightarrow> Inr (next_group, next_group, 0, [])
          | Some s \<Rightarrow> if s = [] then Inr (next_group, next_group, 0, []) else restore sha (bound_of cfg) p s)
         (\<lambda>(nxt, committed, dropped, rows).
           Inr \<lparr>pv_artifact = a, pv_policy = p, pv_ack = None, pv_next = nxt, pv_committed = committed,
                pv_dropped = dropped, pv_retained = rows, pv_assembler = asm, pv_started = False, pv_pump = False,
                pv_flight = No_group, pv_paused = False, pv_closing = False, pv_closed = False, pv_error = None,
                pv_ready = False, pv_timed_out = False, pv_control = Free, pv_stream_open = False,
                pv_stream_paused = False, pv_stopped = None\<rparr>)))"

section \<open>Start\<close>

definition raise_error :: "provider \<Rightarrow> exn" where
  "raise_error c = (case pv_error c of None \<Rightarrow> TypeError ''exceptions must derive from BaseException'' | Some e \<Rightarrow> e)"

text \<open>\<^verbatim>\<open>start\<close> up to its first await, and its end: the controller's reply, and what \<^verbatim>\<open>open_stream\<close> raises. After
  an error the code calls \<^verbatim>\<open>close\<close>, the operation below.\<close>

definition start_provider :: "provider \<Rightarrow> unit result \<times> provider" where
  "start_provider c =
     (if pv_started c \<or> pv_closed c then (Inl (ValueError ''benchmark provider start is single-use''), c)
      else (Inr (), c\<lparr>pv_started := True\<rparr>))"

definition started :: "json result \<Rightarrow> unit result \<Rightarrow> provider \<Rightarrow> dict result \<times> provider" where
  "started ack stream c =
     (case bindE ack (check_ack (pv_policy c)) of
        Inl e \<Rightarrow> (Inl e, c)
      | Inr a \<Rightarrow>
          let c = c\<lparr>pv_ack := Some a\<rparr> in
          if pv_timed_out c then (Inl (raise_error c), c)
          else case stream of
              Inl e \<Rightarrow> (Inl e, c)
            | Inr _ \<Rightarrow> (Inr a, c\<lparr>pv_stream_open := True, pv_pump := True\<rparr>))"

section \<open>The producer\<close>

definition produce_fail :: "exn \<Rightarrow> provider \<Rightarrow> provider" where
  "produce_fail e c = c\<lparr>pv_error := Some e, pv_paused := True, pv_flight := No_group, pv_pump := False\<rparr>"

definition produce_begin :: "provider_config \<Rightarrow> provider \<Rightarrow> provider" where
  "produce_begin cfg c =
     (if pv_pump c \<and> pv_flight c = No_group \<and> \<not> pv_paused c \<and> \<not> pv_closing c \<and> int (length (pv_retained c)) < bound_of cfg
      then c\<lparr>pv_flight := Planning\<rparr> else c)"

text \<open>The plan factory's registration, the backend's validation of its plans, and the assembler.\<close>

definition check_plans :: "provider_config \<Rightarrow> unit result \<Rightarrow> registration \<Rightarrow> provider \<Rightarrow> assembler result" where
  "check_plans cfg backend reg c =
     (if rg_group_id reg \<noteq> pv_next c \<or> \<not> policy_eq (rg_policy reg) (pv_policy c) \<or>
         int (length (rg_plans reg)) \<noteq> pc_group_size cfg
      then Inl (ValueError ''plan factory changed the declared semantic group or policy'')
      else if length (remdups (map group_of (rg_plans reg))) \<noteq> 1
      then Inl (ValueError ''stream plans require one admission group; Coordinator partitions its physical waves'')
      else bindE backend (\<lambda>_. register reg (pv_assembler c)))"

definition produce_plans :: "provider_config \<Rightarrow> registration result \<Rightarrow> unit result \<Rightarrow> provider \<Rightarrow> provider" where
  "produce_plans cfg plans backend c =
     (if pv_flight c \<noteq> Planning then c
      else case bindE plans (\<lambda>reg. bindE (check_plans cfg backend reg c) (\<lambda>asm. Inr (reg, asm))) of
          Inl e \<Rightarrow> produce_fail e c
        | Inr (reg, asm) \<Rightarrow> c\<lparr>pv_assembler := asm, pv_next := pv_next c + 1, pv_flight := Executing reg\<rparr>)"

fun complete_all :: "(string \<Rightarrow> string) \<Rightarrow> episode_result list \<Rightarrow> receipt option \<Rightarrow> assembler \<Rightarrow> receipt option result \<times> assembler" where
  "complete_all sha [] last_receipt a = (Inr last_receipt, a)"
| "complete_all sha (r # rs) last_receipt a =
     (case complete_result sha r a of
        (Inl e, a) \<Rightarrow> (Inl e, a)
      | (Inr x, a) \<Rightarrow> complete_all sha rs x a)"

definition result_json :: "episode_result \<Rightarrow> json" where
  "result_json r = JObj
     [(''identity'', identity_json (res_identity r)), (''execution_state'', JStr (execution_state r)),
      (''verification_state'', JStr (verification_state r)), (''score_eligible'', JBool (score_eligible r)),
      (''cleanup_state'', JStr (cleanup_state r)), (''native_outcome'', JObj (native_outcome r)),
      (''native_artifacts'', native_artifacts r), (''usage'', usage r), (''timings'', timings r),
      (''failure_category'', opt_str (failure_category r)), (''model_identity'', opt_str (model_identity r)),
      (''request_state'', request_state r), (''configuration_sha256'', opt_str (configuration_sha256 r)),
      (''source_sha256'', opt_str (source_sha256 r))]"

definition exclusion_to_dict :: "group_exclusion \<Rightarrow> json" where
  "exclusion_to_dict x = JObj
     [(''schema_version'', JInt 1), (''kind'', JStr ''excluded_training_group''), (''group_id'', JInt (ge_group_id x)),
      (''expected_size'', JInt (int (ge_expected_size x))), (''reasons'', JList (map JStr (ge_reasons x))),
      (''episodes'', JList (map result_json (ge_episodes x)))]"

record packet_times =
  pt_started :: flt
  pt_finished :: flt
  pt_pid :: int

definition make_packet :: "int \<Rightarrow> receipt \<Rightarrow> dict \<Rightarrow> packet_times \<Rightarrow> packet" where
  "make_packet g r ack t =
     (let base = [(''group_id'', JInt g), (''policy_ack'', JObj ack), (''started_at'', JFloat (pt_started t)),
        (''finished_at'', JFloat (pt_finished t)), (''engram_shared'', JBool False), (''worker_pid'', JInt (pt_pid t)),
        (''rng_state'', JNull)] in
      case r of
        Ready tg \<Rightarrow> \<lparr>pk_fields = base, pk_group = Some tg\<rparr>
      | Excluded x \<Rightarrow> \<lparr>pk_fields = base @ [(''exclusion'', exclusion_to_dict x)], pk_group = None\<rparr>)"

text \<open>The stream has returned: the results are completed in the assembler and the packet is retained.\<close>

definition produce_done ::
  "(string \<Rightarrow> string) \<Rightarrow> episode_result list result \<Rightarrow> packet_times \<Rightarrow> provider \<Rightarrow> provider" where
  "produce_done sha results stamps c =
     (case pv_flight c of
        Executing reg \<Rightarrow>
          (case results of
             Inl e \<Rightarrow> produce_fail e c
           | Inr rs \<Rightarrow>
               (case complete_all sha rs None (pv_assembler c) of
                  (Inl e, asm) \<Rightarrow> produce_fail e (c\<lparr>pv_assembler := asm\<rparr>)
                | (Inr None, asm) \<Rightarrow>
                    produce_fail (RuntimeError ''coordinator did not complete every registered sibling'') (c\<lparr>pv_assembler := asm\<rparr>)
                | (Inr (Some r), asm) \<Rightarrow>
                    (case pv_ack c of
                       None \<Rightarrow> produce_fail (TypeError ''NoneType object is not iterable'') (c\<lparr>pv_assembler := asm\<rparr>)
                     | Some ack \<Rightarrow>
                         let p = make_packet (rg_group_id reg) r ack stamps;
                             p = (case pv_stopped c of None \<Rightarrow> p
                                  | Some why \<Rightarrow> p\<lparr>pk_fields := dset (pk_fields p) ''admission_stopped'' (JStr why)\<rparr>)
                         in c\<lparr>pv_retained := pv_retained c @ [(rg_group_id reg, \<lparr>pr_packet = p, pr_delivered = False\<rparr>)],
                              pv_assembler := asm, pv_flight := No_group,
                              pv_paused := pv_paused c \<or> pv_stopped c \<noteq> None\<rparr>)))
      | _ \<Rightarrow> c)"


section \<open>The learner's calls\<close>

text \<open>\<^verbatim>\<open>_call\<close> refuses a provider that is not running; its waiter may time out while the operation goes on.\<close>

definition not_running :: exn where
  "not_running = RuntimeError ''benchmark provider is not running''"

definition running :: "provider \<Rightarrow> bool" where
  "running c \<longleftrightarrow> pv_started c \<and> \<not> pv_closed c"

definition call_timeout :: "provider \<Rightarrow> provider" where
  "call_timeout c =
     (if running c
      then c\<lparr>pv_timed_out := True, pv_paused := True, pv_ready := False,
        pv_error := Some (RuntimeError ''benchmark control acknowledgement timed out; reconciliation required'')\<rparr>
      else c)"

fun next_undelivered :: "(int \<times> provider_row) list \<Rightarrow> (int \<times> packet) option" where
  "next_undelivered [] = None"
| "next_undelivered ((g, r) # rows) = (if pr_delivered r then next_undelivered rows else Some (g, pr_packet r))"

definition deliver :: "int \<Rightarrow> (int \<times> provider_row) list \<Rightarrow> (int \<times> provider_row) list" where
  "deliver g rows = map (\<lambda>(k, r). if k = g then (k, r\<lparr>pr_delivered := True\<rparr>) else (k, r)) rows"

definition get_packet :: "provider \<Rightarrow> packet option result \<times> provider" where
  "get_packet c =
     (if \<not> running c then (Inl not_running, c)
      else case next_undelivered (pv_retained c) of
          Some (g, p) \<Rightarrow> (Inr (Some p), c\<lparr>pv_retained := deliver g (pv_retained c)\<rparr>)
        | None \<Rightarrow> if pv_error c \<noteq> None then (Inl (RuntimeError ''benchmark training producer failed''), c) else (Inr None, c))"

definition artifact_json :: "artifact \<Rightarrow> json" where
  "artifact_json a = JObj
     [(''version'', art_version a), (''digest'', art_digest a), (''lineage'', art_lineage a),
      (''identity'', JObj (art_identity a)), (''sampling'', art_sampling a)]"

definition snapshot :: "provider \<Rightarrow> dict result" where
  "snapshot c =
     (if pv_flight c \<noteq> No_group \<or> pv_error c \<noteq> None \<or> pv_stopped c \<noteq> None
      then Inl (RuntimeError ''benchmark recovery snapshot requires a proven, unquarantined boundary'')
      else case pv_ack c of
          None \<Rightarrow> Inl (TypeError ''NoneType object is not iterable'')
        | Some ack \<Rightarrow> Inr
            [(''schema_version'', JInt 1), (''provider'', JStr ''benchmark-training''), (''next_group_id'', JInt (pv_next c)),
             (''issued_highwater'', JInt (pv_next c)), (''committed_highwater'', JInt (pv_committed c)),
             (''dropped_groups'', JInt (pv_dropped c)), (''pending_requests'', JList []), (''rng_state'', JNull),
             (''pending_packets'', JList (map (\<lambda>r. JObj (encode_packet (pr_packet (snd r)))) (pv_retained c))),
             (''active_policy'', artifact_json (pv_artifact c)), (''policy_ack'', JObj ack), (''admission_paused'', JBool True)])"

definition pause_begin :: "provider \<Rightarrow> unit result \<times> provider" where
  "pause_begin c =
     (if \<not> running c then (Inl not_running, c)
      else if pv_control c \<noteq> Free then (Inr (), c)
      else (Inr (), c\<lparr>pv_ready := False, pv_paused := True, pv_control := Pause_waits\<rparr>))"

definition drained_proof :: "provider \<Rightarrow> json result \<Rightarrow> dict result" where
  "drained_proof c reply =
     bindE reply (\<lambda>v.
       if \<not> is_obj v \<or> dget (fields_of v) ''drain_complete'' \<noteq> JBool True
       then Inl (RuntimeError ''controller has not proven actual request drain'')
       else bindE (check_ack (pv_policy c) v) (\<lambda>_.
         if pv_error c \<noteq> None then Inl (RuntimeError ''benchmark producer has unresolved work'') else snapshot c))"

definition pause_end :: "json result \<Rightarrow> provider \<Rightarrow> dict result option \<times> provider" where
  "pause_end reply c =
     (if pv_control c \<noteq> Pause_waits \<or> pv_flight c \<noteq> No_group then (None, c)
      else let c = c\<lparr>pv_stream_paused := True, pv_control := Free\<rparr> in
        case drained_proof c reply of
          Inl e \<Rightarrow> (Some (Inl e), c)
        | Inr s \<Rightarrow> if pv_timed_out c then (Some (Inl (raise_error c)), c) else (Some (Inr s), c\<lparr>pv_ready := True\<rparr>))"

definition commit_ok :: "int list \<Rightarrow> int list \<Rightarrow> (int \<times> provider_row) list \<Rightarrow> bool" where
  "commit_ok consumed dropped rows \<longleftrightarrow>
     (let ids = sort (consumed @ dropped) in
      distinct ids \<and> ids = take (length ids) (sort (map fst rows)) \<and>
      list_all (\<lambda>i. case map_of rows i of None \<Rightarrow> False | Some r \<Rightarrow> pr_delivered r) ids)"

definition commit_groups :: "int list \<Rightarrow> int list \<Rightarrow> provider \<Rightarrow> dict result \<times> provider" where
  "commit_groups consumed dropped c =
     (let ids = sort (consumed @ dropped) in
      if \<not> running c then (Inl not_running, c)
      else if \<not> commit_ok consumed dropped (pv_retained c)
      then (Inl (ValueError ''commit requires a unique delivered oldest group prefix''), c)
      else if list_ex (\<lambda>i. case map_of (pv_retained c) i of None \<Rightarrow> True | Some r \<Rightarrow> pk_group (pr_packet r) = None) consumed
      then (Inl (ValueError ''excluded groups cannot be committed as optimizer input''), c)
      else let c = c\<lparr>pv_retained := filter (\<lambda>r. fst r \<notin> set ids) (pv_retained c),
                     pv_committed := (if ids = [] then pv_committed c else last ids + 1),
                     pv_dropped := pv_dropped c + int (length dropped)\<rparr>
        in (Inr [(''committed_highwater'', JInt (pv_committed c)), (''dropped_groups'', JInt (pv_dropped c))], c))"

definition successor :: "policy_ref \<Rightarrow> policy_ref \<Rightarrow> bool" where
  "successor p q \<longleftrightarrow> lineage q = lineage p \<and> version p < version q \<and>
     py_eq (JObj (sampling q)) (JObj (sampling p)) \<and> py_eq (JObj (identities q)) (JObj (identities p))"

definition activate_begin ::
  "(artifact \<Rightarrow> policy_ref result) \<Rightarrow> artifact \<Rightarrow> provider \<Rightarrow> unit result \<times> provider" where
  "activate_begin pf a c =
     (if \<not> running c then (Inl not_running, c)
      else if pv_control c \<noteq> Free then (Inr (), c)
      else if \<not> pv_ready c
      then (Inl (RuntimeError ''activation requires a verified controller drain receipt''), c)
      else let c = c\<lparr>pv_ready := False\<rparr> in
        if pv_closing c \<or> \<not> pv_paused c \<or> pv_flight c \<noteq> No_group \<or> \<not> pv_stream_paused c
        then (Inl (ValueError ''activation requires a proven pause and complete group drain''), c)
        else if pv_error c \<noteq> None \<or> pv_stopped c \<noteq> None
        then (Inl (RuntimeError ''uncertain or quarantined execution prevents policy activation''), c)
        else case pf a of
            Inl e \<Rightarrow> (Inl e, c)
          | Inr q \<Rightarrow>
              if \<not> successor (pv_policy c) q
              then (Inl (ValueError ''activation requires a newer same-lineage, same-sampling policy''), c)
              else (Inr (), c\<lparr>pv_policy := q, pv_control := Activate_waits a (pv_policy c)\<rparr>))"

definition activate_end :: "json result \<Rightarrow> provider \<Rightarrow> dict result option \<times> provider" where
  "activate_end reply c =
     (case pv_control c of
        Activate_waits a prior \<Rightarrow>
          (let c = c\<lparr>pv_control := Free\<rparr> in
           case (case bindE reply (check_ack (pv_policy c)) of
                   Inl e \<Rightarrow> Inl e
                 | Inr ack \<Rightarrow> if pv_timed_out c then Inl (raise_error c) else Inr ack) of
             Inl e \<Rightarrow> (Some (Inl e), c\<lparr>pv_policy := prior,
                 pv_error := Some (RuntimeError ''policy activation acknowledgement is unproven'')\<rparr>)
           | Inr ack \<Rightarrow> (Some (Inr ack), c\<lparr>pv_artifact := a, pv_ack := Some ack\<rparr>))
      | _ \<Rightarrow> (None, c))"

definition resume_begin :: "provider \<Rightarrow> unit result \<times> provider" where
  "resume_begin c =
     (if \<not> running c then (Inl not_running, c)
      else if pv_control c \<noteq> Free then (Inr (), c)
      else if pv_closing c \<or> pv_error c \<noteq> None \<or> pv_timed_out c
      then (Inl (RuntimeError ''provider requires reconciliation before resuming''), c)
      else (Inr (), c\<lparr>pv_control := Resume_waits\<rparr>))"

text \<open>The stream itself refuses to resume when it is closed or its admission is stopped.\<close>

definition resume_end :: "json result \<Rightarrow> provider \<Rightarrow> dict result option \<times> provider" where
  "resume_end reply c =
     (if pv_control c \<noteq> Resume_waits then (None, c)
      else let c = c\<lparr>pv_control := Free\<rparr> in
        case bindE reply (check_ack (pv_policy c)) of
          Inl e \<Rightarrow> (Some (Inl e), c)
        | Inr _ \<Rightarrow>
            if pv_timed_out c then (Some (Inl (raise_error c)), c)
            else if \<not> pv_stream_open c \<or> pv_stopped c \<noteq> None
            then (Some (Inl (RuntimeError ''stream is closed or admission is stopped'')), c)
            else case pv_ack c of
                None \<Rightarrow> (Some (Inl (TypeError ''NoneType object is not iterable'')),
                          c\<lparr>pv_stream_paused := False, pv_ready := False, pv_paused := False\<rparr>)
              | Some ack \<Rightarrow> (Some (Inr ack), c\<lparr>pv_stream_paused := False, pv_ready := False, pv_paused := False\<rparr>))"

definition close_begin :: "provider \<Rightarrow> provider" where
  "close_begin c =
     (if pv_closed c then c
      else if \<not> pv_started c then c\<lparr>pv_closed := True\<rparr>
      else c\<lparr>pv_closing := True, pv_paused := True\<rparr>)"

text \<open>The producer and the outstanding calls are awaited; then the stream and the controller are closed.\<close>

definition close_end :: "unit result \<Rightarrow> provider \<Rightarrow> unit result option \<times> provider" where
  "close_end outcome c =
     (if \<not> pv_closing c \<or> pv_closed c \<or> pv_flight c \<noteq> No_group \<or> pv_control c \<noteq> Free then (None, c)
      else let c = c\<lparr>pv_pump := False, pv_stream_open := False, pv_stream_paused := pv_stream_paused c \<or> pv_stream_open c\<rparr> in
        case outcome of
          Inl e \<Rightarrow> (Some (Inl e), c)
        | Inr _ \<Rightarrow> (Some (Inr ()), c\<lparr>pv_closed := True\<rparr>))"

section \<open>The provider as a system\<close>

datatype provider_op =
    Start_provider
  | Started "json result" "unit result"
  | Produce_begin
  | Produce_plans "registration result" "unit result"
  | Produce_done "episode_result list result" packet_times
  | Stream_stopped string
  | Call_timeout
  | Get_packet
  | Pause_begin
  | Pause_end "json result"
  | Commit_groups "int list" "int list"
  | Activate_begin artifact
  | Activate_end "json result"
  | Resume_begin
  | Resume_end "json result"
  | Close_begin
  | Close_end "unit result"

text \<open>The stream's cancellation token keeps its first reason.\<close>

definition stream_stopped :: "string \<Rightarrow> provider \<Rightarrow> provider" where
  "stream_stopped why c = (if pv_stopped c = None then c\<lparr>pv_stopped := Some why\<rparr> else c)"

fun provider_step ::
  "(string \<Rightarrow> string) \<Rightarrow> (artifact \<Rightarrow> policy_ref result) \<Rightarrow> provider_config \<Rightarrow> provider_op \<Rightarrow> provider \<Rightarrow> provider" where
  "provider_step sha pf cfg Start_provider c = snd (start_provider c)"
| "provider_step sha pf cfg (Started ack stream) c =
     (if running c \<and> pv_ack c = None then snd (started ack stream c) else c)"
| "provider_step sha pf cfg Produce_begin c = produce_begin cfg c"
| "provider_step sha pf cfg (Produce_plans plans backend) c = produce_plans cfg plans backend c"
| "provider_step sha pf cfg (Produce_done results stamps) c = produce_done sha results stamps c"
| "provider_step sha pf cfg (Stream_stopped why) c = stream_stopped why c"
| "provider_step sha pf cfg Call_timeout c = call_timeout c"
| "provider_step sha pf cfg Get_packet c = snd (get_packet c)"
| "provider_step sha pf cfg Pause_begin c = snd (pause_begin c)"
| "provider_step sha pf cfg (Pause_end reply) c = snd (pause_end reply c)"
| "provider_step sha pf cfg (Commit_groups consumed dropped) c = snd (commit_groups consumed dropped c)"
| "provider_step sha pf cfg (Activate_begin a) c = snd (activate_begin pf a c)"
| "provider_step sha pf cfg (Activate_end reply) c = snd (activate_end reply c)"
| "provider_step sha pf cfg Resume_begin c = snd (resume_begin c)"
| "provider_step sha pf cfg (Resume_end reply) c = snd (resume_end reply c)"
| "provider_step sha pf cfg Close_begin c = close_begin c"
| "provider_step sha pf cfg (Close_end outcome) c = snd (close_end outcome c)"


section \<open>Invariant\<close>

text \<open>
  The mailbox holds exactly the groups from the committed cursor up to the issued one; one group may be
  missing at the end, the one that the producer executes or that it failed on.
\<close>

definition cursor_ok :: "provider \<Rightarrow> int \<Rightarrow> bool" where
  "cursor_ok c h \<longleftrightarrow>
     sort (map fst (pv_retained c)) = [pv_committed c .. pv_next c - 1 - h] \<and> pv_committed c \<le> pv_next c - h \<and>
     (pv_flight c = No_group \<longrightarrow> h = 0 \<or> h = 1 \<and> pv_error c \<noteq> None) \<and> (pv_flight c = Planning \<longrightarrow> h = 0) \<and>
     (\<forall>reg. pv_flight c = Executing reg \<longrightarrow> h = 1 \<and> rg_group_id reg = pv_next c - 1)"

definition credit_ok :: "provider_config \<Rightarrow> provider \<Rightarrow> bool" where
  "credit_ok cfg c \<longleftrightarrow> int (length (pv_retained c)) \<le> bound_of cfg \<and>
     (pv_flight c \<noteq> No_group \<longrightarrow> int (length (pv_retained c)) < bound_of cfg)"

definition mailbox_ok :: "provider_config \<Rightarrow> provider \<Rightarrow> bool" where
  "mailbox_ok cfg c \<longleftrightarrow> (\<exists>h. cursor_ok c h) \<and> credit_ok cfg c"

definition lease_ok :: "provider \<Rightarrow> bool" where
  "lease_ok c \<longleftrightarrow>
     (\<forall>reg. pv_flight c = Executing reg \<longrightarrow> policy_eq (rg_policy reg) (pv_policy c)) \<and>
     (\<forall>a p. pv_control c = Activate_waits a p \<longrightarrow> pv_paused c \<and> pv_flight c = No_group)"

definition halted_ok :: "provider \<Rightarrow> bool" where
  "halted_ok c \<longleftrightarrow>
     (pv_flight c \<noteq> No_group \<longrightarrow> pv_pump c) \<and> (pv_pump c \<longrightarrow> pv_ack c \<noteq> None) \<and> (pv_ready c \<longrightarrow> pv_ack c \<noteq> None) \<and>
     (\<forall>a p. pv_control c = Activate_waits a p \<longrightarrow> pv_ack c \<noteq> None) \<and>
     (pv_error c \<noteq> None \<longrightarrow> (\<not> pv_pump c \<or> pv_paused c) \<and> (pv_ack c = None \<longrightarrow> pv_timed_out c) \<and>
        (pv_control c = Resume_waits \<longrightarrow> \<not> pv_pump c \<or> pv_timed_out c))"

definition served_ok :: "(artifact \<Rightarrow> policy_ref result) \<Rightarrow> provider \<Rightarrow> bool" where
  "served_ok pf c \<longleftrightarrow>
     (\<forall>a p. pv_control c = Activate_waits a p \<longrightarrow> pf (pv_artifact c) = Inr p \<and> pf a = Inr (pv_policy c)) \<and>
     ((\<forall>a p. pv_control c \<noteq> Activate_waits a p) \<longrightarrow> pf (pv_artifact c) = Inr (pv_policy c))"

definition provider_inv :: "(artifact \<Rightarrow> policy_ref result) \<Rightarrow> provider_config \<Rightarrow> provider \<Rightarrow> bool" where
  "provider_inv pf cfg c \<longleftrightarrow> mailbox_ok cfg c \<and> lease_ok c \<and> halted_ok c \<and> served_ok pf c"


lemma upto_snoc: "a \<le> b + 1 \<Longrightarrow> [a .. b] @ [b + 1] = [a .. b + 1]"
  by (simp add: upto_rec2)

lemma sort_snoc_last:
  assumes "\<And>y. y \<in> set xs \<Longrightarrow> y \<le> x"
  shows "sort (xs @ [x]) = sort xs @ [x :: int]"
  using assms by (intro properties_for_sort) (auto simp: sorted_append)

lemma sort_upto_append:
  assumes "sort xs = [a .. b]" "a \<le> b + 1"
  shows "sort (xs @ [b + 1]) = [a .. b + 1]"
proof -
  have "set xs = {a .. b}" using assms(1) by (metis set_sort set_upto)
  then show ?thesis using sort_snoc_last [of xs "b + 1"] assms by (simp add: upto_snoc)
qed

lemma drop_upto: "drop n [a .. b] = [a + int n .. b]"
proof (induction n arbitrary: a)
  case (Suc n)
  then show ?case by (cases "a \<le> b") (simp_all add: upto_rec1 [of a] algebra_simps)
qed simp

lemma take_upto_last: "n \<noteq> 0 \<Longrightarrow> n \<le> length [a .. b] \<Longrightarrow> last (take n [a .. b]) = a + int n - 1"
  by (simp add: last_conv_nth nth_upto)

lemma filter_not_take: "distinct ys \<Longrightarrow> filter (\<lambda>x. x \<notin> set (take n ys)) ys = drop n ys"
proof -
  assume d: "distinct ys"
  have "filter (\<lambda>x. x \<notin> set (take n ys)) (take n ys @ drop n ys) = drop n ys"
    using d by (simp only: filter_append) (auto intro!: filter_True simp: filter_empty_conv dest: in_set_dropD in_set_takeD
      set_take_disj_set_drop_if_distinct [of ys n n])
  then show ?thesis by simp
qed

lemma credit_simps [simp]:
  "credit_ok cfg (c\<lparr>pv_paused := a1\<rparr>) = credit_ok cfg c" "credit_ok cfg (c\<lparr>pv_ready := a2\<rparr>) = credit_ok cfg c"
  "credit_ok cfg (c\<lparr>pv_control := a3\<rparr>) = credit_ok cfg c" "credit_ok cfg (c\<lparr>pv_error := a4\<rparr>) = credit_ok cfg c"
  "credit_ok cfg (c\<lparr>pv_stream_paused := a5\<rparr>) = credit_ok cfg c" "credit_ok cfg (c\<lparr>pv_policy := a6\<rparr>) = credit_ok cfg c"
  "credit_ok cfg (c\<lparr>pv_ack := a7\<rparr>) = credit_ok cfg c" "credit_ok cfg (c\<lparr>pv_artifact := a8\<rparr>) = credit_ok cfg c"
  "credit_ok cfg (c\<lparr>pv_pump := a9\<rparr>) = credit_ok cfg c" "credit_ok cfg (c\<lparr>pv_stream_open := a10\<rparr>) = credit_ok cfg c"
  "credit_ok cfg (c\<lparr>pv_closing := a11\<rparr>) = credit_ok cfg c" "credit_ok cfg (c\<lparr>pv_closed := a12\<rparr>) = credit_ok cfg c"
  "credit_ok cfg (c\<lparr>pv_timed_out := a13\<rparr>) = credit_ok cfg c" "credit_ok cfg (c\<lparr>pv_started := a14\<rparr>) = credit_ok cfg c"
  "credit_ok cfg (c\<lparr>pv_stopped := a15\<rparr>) = credit_ok cfg c" "credit_ok cfg (c\<lparr>pv_assembler := a16\<rparr>) = credit_ok cfg c"
  by (simp_all add: credit_ok_def)

lemma cursor_simps [simp]:
  "cursor_ok (c\<lparr>pv_paused := a1\<rparr>) h = cursor_ok c h" "cursor_ok (c\<lparr>pv_ready := a2\<rparr>) h = cursor_ok c h"
  "cursor_ok (c\<lparr>pv_control := a3\<rparr>) h = cursor_ok c h"
  "cursor_ok (c\<lparr>pv_stream_paused := a5\<rparr>) h = cursor_ok c h" "cursor_ok (c\<lparr>pv_policy := a6\<rparr>) h = cursor_ok c h"
  "cursor_ok (c\<lparr>pv_ack := a7\<rparr>) h = cursor_ok c h" "cursor_ok (c\<lparr>pv_artifact := a8\<rparr>) h = cursor_ok c h"
  "cursor_ok (c\<lparr>pv_pump := a9\<rparr>) h = cursor_ok c h" "cursor_ok (c\<lparr>pv_stream_open := a10\<rparr>) h = cursor_ok c h"
  "cursor_ok (c\<lparr>pv_closing := a11\<rparr>) h = cursor_ok c h" "cursor_ok (c\<lparr>pv_closed := a12\<rparr>) h = cursor_ok c h"
  "cursor_ok (c\<lparr>pv_timed_out := a13\<rparr>) h = cursor_ok c h" "cursor_ok (c\<lparr>pv_started := a14\<rparr>) h = cursor_ok c h"
  "cursor_ok (c\<lparr>pv_stopped := a15\<rparr>) h = cursor_ok c h" "cursor_ok (c\<lparr>pv_assembler := a16\<rparr>) h = cursor_ok c h"
  by (simp_all add: cursor_ok_def)

lemma cursor_error: "cursor_ok c h \<Longrightarrow> cursor_ok (c\<lparr>pv_error := Some e\<rparr>) h"
  by (auto simp: cursor_ok_def split: flight.splits)

lemma cursor_fail: "cursor_ok c h \<Longrightarrow> cursor_ok (produce_fail e c) h"
  by (cases "pv_flight c") (auto simp: cursor_ok_def produce_fail_def)

lemma produce_fail_inv: "provider_inv pf cfg c \<Longrightarrow> pv_flight c \<noteq> No_group \<Longrightarrow> provider_inv pf cfg (produce_fail e c)"
  using cursor_fail by (auto simp: provider_inv_def mailbox_ok_def lease_ok_def halted_ok_def served_ok_def credit_ok_def produce_fail_def)

lemma assembler_only: "provider_inv pf cfg c \<Longrightarrow> provider_inv pf cfg (c\<lparr>pv_assembler := a\<rparr>)"
  by (auto simp: provider_inv_def mailbox_ok_def lease_ok_def halted_ok_def served_ok_def)

lemma produce_begin_inv: "provider_inv pf cfg c \<Longrightarrow> provider_inv pf cfg (produce_begin cfg c)"
proof -
  assume inv: "provider_inv pf cfg c"
  show ?thesis
  proof (cases "pv_pump c \<and> pv_flight c = No_group \<and> \<not> pv_paused c \<and> \<not> pv_closing c \<and> int (length (pv_retained c)) < bound_of cfg")
    case True
    with inv have "pv_error c = None" by (auto simp: provider_inv_def halted_ok_def)
    with True inv have "\<exists>h. cursor_ok (c\<lparr>pv_flight := Planning\<rparr>) h" by (auto simp: provider_inv_def mailbox_ok_def cursor_ok_def)
    with True inv show ?thesis
      by (auto simp: produce_begin_def provider_inv_def mailbox_ok_def lease_ok_def halted_ok_def served_ok_def credit_ok_def)
  qed (use inv in \<open>simp only: produce_begin_def if_False\<close>)
qed


lemma produce_plans_inv: "provider_inv pf cfg c \<Longrightarrow> provider_inv pf cfg (produce_plans cfg plans backend c)"
proof -
  assume inv: "provider_inv pf cfg c"
  show ?thesis
  proof (cases "pv_flight c = Planning")
    case True
    show ?thesis
    proof (cases "bindE plans (\<lambda>reg. bindE (check_plans cfg backend reg c) (\<lambda>asm. Inr (reg, asm)))")
      case (Inl e)
      with True produce_fail_inv [OF inv] show ?thesis by (simp add: produce_plans_def)
    next
      case (Inr r)
      obtain reg asm where r: "r = (reg, asm)" by (cases r)
      with Inr have "check_plans cfg backend reg c = Inr asm" by (auto simp: bindE_Inr_iff)
      then have g: "rg_group_id reg = pv_next c" "policy_eq (rg_policy reg) (pv_policy c)"
        by (auto simp: check_plans_def guard_Inr_iff)
      let ?d = "c\<lparr>pv_assembler := asm, pv_next := pv_next c + 1, pv_flight := Executing reg\<rparr>"
      have "cursor_ok ?d 1" using inv True g(1) by (auto simp: provider_inv_def mailbox_ok_def cursor_ok_def)
      moreover have "credit_ok cfg ?d" using inv True by (auto simp: provider_inv_def mailbox_ok_def credit_ok_def)
      ultimately have "mailbox_ok cfg ?d" unfolding mailbox_ok_def by blast
      moreover have "lease_ok ?d \<and> halted_ok ?d \<and> served_ok pf ?d"
        using inv True g(2) by (auto simp: provider_inv_def lease_ok_def halted_ok_def served_ok_def)
      moreover have "produce_plans cfg plans backend c = ?d" using True Inr r by (simp add: produce_plans_def)
      ultimately show ?thesis by (simp add: provider_inv_def)
    qed
  qed (use inv in \<open>simp only: produce_plans_def if_True\<close>, simp)
qed

lemma retain_inv:
  assumes inv: "provider_inv pf cfg c" and f: "pv_flight c = Executing reg"
  shows "provider_inv pf cfg (c\<lparr>pv_retained := pv_retained c @ [(rg_group_id reg, row)], pv_assembler := asm,
    pv_flight := No_group, pv_paused := pv_paused c \<or> b\<rparr>)" (is "provider_inv pf cfg ?d")
proof -
  from inv f obtain h where h: "cursor_ok c h" by (auto simp: provider_inv_def mailbox_ok_def)
  with f have k: "sort (map fst (pv_retained c)) = [pv_committed c .. pv_next c - 1 - 1]" "pv_committed c \<le> pv_next c - 1"
      "rg_group_id reg = pv_next c - 1" by (auto simp: cursor_ok_def)
  from sort_upto_append [OF k(1)] k(2) have "sort (map fst (pv_retained c) @ [pv_next c - 1]) = [pv_committed c .. pv_next c - 1]" by simp
  with k(2,3) have "cursor_ok ?d 0" by (simp add: cursor_ok_def)
  moreover have "credit_ok cfg ?d" using inv f by (auto simp: provider_inv_def mailbox_ok_def credit_ok_def)
  ultimately have "mailbox_ok cfg ?d" unfolding mailbox_ok_def by blast
  moreover have "lease_ok ?d \<and> halted_ok ?d \<and> served_ok pf ?d"
    using inv f by (auto simp: provider_inv_def lease_ok_def halted_ok_def served_ok_def)
  ultimately show ?thesis by (simp add: provider_inv_def)
qed

lemma produce_done_inv: "provider_inv pf cfg c \<Longrightarrow> provider_inv pf cfg (produce_done sha results stamps c)"
proof -
  assume inv: "provider_inv pf cfg c"
  have fail: "provider_inv pf cfg (produce_fail e (c\<lparr>pv_assembler := asm\<rparr>))" "provider_inv pf cfg (produce_fail e c)"
    if "pv_flight c = Executing reg" for e asm reg
    using produce_fail_inv [OF assembler_only [OF inv]] produce_fail_inv [OF inv] that by simp_all
  show ?thesis
    unfolding produce_done_def Let_def
    using inv fail retain_inv [OF inv] by (auto split: flight.split sum.split prod.split option.split)
qed


lemma mailbox_simps [simp]:
  "mailbox_ok cfg (c\<lparr>pv_paused := a1\<rparr>) = mailbox_ok cfg c" "mailbox_ok cfg (c\<lparr>pv_ready := a2\<rparr>) = mailbox_ok cfg c"
  "mailbox_ok cfg (c\<lparr>pv_control := a3\<rparr>) = mailbox_ok cfg c"
  "mailbox_ok cfg (c\<lparr>pv_stream_paused := a5\<rparr>) = mailbox_ok cfg c" "mailbox_ok cfg (c\<lparr>pv_policy := a6\<rparr>) = mailbox_ok cfg c"
  "mailbox_ok cfg (c\<lparr>pv_ack := a7\<rparr>) = mailbox_ok cfg c" "mailbox_ok cfg (c\<lparr>pv_artifact := a8\<rparr>) = mailbox_ok cfg c"
  "mailbox_ok cfg (c\<lparr>pv_pump := a9\<rparr>) = mailbox_ok cfg c" "mailbox_ok cfg (c\<lparr>pv_stream_open := a10\<rparr>) = mailbox_ok cfg c"
  "mailbox_ok cfg (c\<lparr>pv_closing := a11\<rparr>) = mailbox_ok cfg c" "mailbox_ok cfg (c\<lparr>pv_closed := a12\<rparr>) = mailbox_ok cfg c"
  "mailbox_ok cfg (c\<lparr>pv_timed_out := a13\<rparr>) = mailbox_ok cfg c" "mailbox_ok cfg (c\<lparr>pv_started := a14\<rparr>) = mailbox_ok cfg c"
  "mailbox_ok cfg (c\<lparr>pv_stopped := a15\<rparr>) = mailbox_ok cfg c"
  by (simp_all add: mailbox_ok_def)

lemma mailbox_error: "mailbox_ok cfg c \<Longrightarrow> mailbox_ok cfg (c\<lparr>pv_error := Some e\<rparr>)"
  using cursor_error by (auto simp: mailbox_ok_def)

lemmas barrier_defs = lease_ok_def halted_ok_def served_ok_def

lemma start_inv: "provider_inv pf cfg c \<Longrightarrow> provider_inv pf cfg (snd (start_provider c))"
  by (auto simp: start_provider_def provider_inv_def barrier_defs)

lemma started_inv: "provider_inv pf cfg c \<Longrightarrow> pv_ack c = None \<Longrightarrow> provider_inv pf cfg (snd (started ack stream c))"
proof -
  assume inv: "provider_inv pf cfg c" and a: "pv_ack c = None"
  have l: "pv_flight c = No_group" "\<not> pv_pump c" "\<forall>a p. pv_control c \<noteq> Activate_waits a p" "pv_error c \<noteq> None \<longrightarrow> pv_timed_out c"
    using inv a by (auto simp: provider_inv_def halted_ok_def)
  have "provider_inv pf cfg (c\<lparr>pv_ack := Some x\<rparr>)" for x
    using inv l by (auto simp: provider_inv_def barrier_defs)
  moreover have "provider_inv pf cfg (c\<lparr>pv_ack := Some x, pv_stream_open := True, pv_pump := True\<rparr>)" if "\<not> pv_timed_out c" for x
    using inv l that by (auto simp: provider_inv_def barrier_defs)
  ultimately show ?thesis using inv by (simp add: started_def Let_def split: sum.split)
qed

lemma timeout_inv: "provider_inv pf cfg c \<Longrightarrow> provider_inv pf cfg (call_timeout c)"
  using mailbox_error by (auto simp: call_timeout_def provider_inv_def barrier_defs)

lemma stopped_inv: "provider_inv pf cfg c \<Longrightarrow> provider_inv pf cfg (stream_stopped why c)"
  by (auto simp: stream_stopped_def provider_inv_def barrier_defs)

lemma deliver_keys [simp]: "map fst (deliver g rows) = map fst rows" "length (deliver g rows) = length rows"
  by (auto simp: deliver_def)

lemma deliver_mailbox: "mailbox_ok cfg (c\<lparr>pv_retained := deliver g (pv_retained c)\<rparr>) = mailbox_ok cfg c"
  by (simp add: mailbox_ok_def cursor_ok_def credit_ok_def)

lemma get_inv: "provider_inv pf cfg c \<Longrightarrow> provider_inv pf cfg (snd (get_packet c))"
  by (auto simp: get_packet_def provider_inv_def barrier_defs deliver_mailbox split: option.split)

lemma pause_begin_inv: "provider_inv pf cfg c \<Longrightarrow> provider_inv pf cfg (snd (pause_begin c))"
  by (auto simp: pause_begin_def provider_inv_def barrier_defs)

lemma snapshot_ack: "snapshot c = Inr s \<Longrightarrow> pv_ack c \<noteq> None"
  unfolding snapshot_def guard_Inr_iff option_Inr_iff by auto

lemma drained_ack: "drained_proof c reply = Inr s \<Longrightarrow> snapshot c = Inr s"
  unfolding drained_proof_def bindE_Inr_iff guard_Inr_iff by blast

lemma pause_end_inv: "provider_inv pf cfg c \<Longrightarrow> provider_inv pf cfg (snd (pause_end reply c))"
proof -
  assume inv: "provider_inv pf cfg c"
  let ?d = "c\<lparr>pv_stream_paused := True, pv_control := Free\<rparr>"
  have d: "provider_inv pf cfg ?d" if "pv_control c = Pause_waits" using inv that by (auto simp: provider_inv_def barrier_defs)
  moreover have "provider_inv pf cfg (?d\<lparr>pv_ready := True\<rparr>)" if "pv_control c = Pause_waits" "pv_ack c \<noteq> None"
    using d [OF that(1)] that(2) by (auto simp: provider_inv_def barrier_defs)
  moreover have "pv_ack c \<noteq> None" if "drained_proof ?d reply = Inr s" for s
    using snapshot_ack [OF drained_ack [OF that]] by simp
  ultimately show ?thesis using inv by (simp add: pause_end_def Let_def split: sum.split)
qed

lemma activate_begin_inv: "provider_inv pf cfg c \<Longrightarrow> provider_inv pf cfg (snd (activate_begin pf a c))"
proof -
  assume inv: "provider_inv pf cfg c"
  let ?d = "c\<lparr>pv_ready := False\<rparr>"
  have d: "provider_inv pf cfg ?d" using inv by (auto simp: provider_inv_def barrier_defs)
  have "provider_inv pf cfg (?d\<lparr>pv_policy := q, pv_control := Activate_waits a (pv_policy c)\<rparr>)"
    if "pv_control c = Free" "pv_ready c" "pv_paused c" "pv_flight c = No_group" "pf a = Inr q" for q
    using inv that by (auto simp: provider_inv_def barrier_defs)
  with d inv show ?thesis by (simp add: activate_begin_def Let_def split: sum.split)
qed

lemma activate_end_inv: "provider_inv pf cfg c \<Longrightarrow> provider_inv pf cfg (snd (activate_end reply c))"
proof (cases "pv_control c")
  case (Activate_waits a p)
  assume inv: "provider_inv pf cfg c"
  let ?bad = "c\<lparr>pv_control := Free, pv_policy := p,
    pv_error := Some (RuntimeError ''policy activation acknowledgement is unproven'')\<rparr>"
  have l: "pv_paused c" "pv_flight c = No_group" "pf (pv_artifact c) = Inr p" "pf a = Inr (pv_policy c)" "pv_ack c \<noteq> None"
    using inv Activate_waits by (auto simp: provider_inv_def barrier_defs)
  have "mailbox_ok cfg ?bad" using inv by (intro mailbox_error) (simp add: provider_inv_def)
  moreover have "lease_ok ?bad \<and> served_ok pf ?bad \<and> halted_ok ?bad" using inv l by (auto simp: provider_inv_def barrier_defs)
  ultimately have bad: "provider_inv pf cfg ?bad" by (simp add: provider_inv_def)
  have good: "provider_inv pf cfg (c\<lparr>pv_control := Free, pv_artifact := a, pv_ack := Some ack\<rparr>)" for ack
    using inv l by (auto simp: provider_inv_def barrier_defs)
  show ?thesis
    using Activate_waits bad good by (simp add: activate_end_def Let_def split: sum.split)
qed (simp_all add: activate_end_def)

lemma resume_begin_inv: "provider_inv pf cfg c \<Longrightarrow> provider_inv pf cfg (snd (resume_begin c))"
  by (auto simp: resume_begin_def provider_inv_def barrier_defs)

lemma resume_end_inv: "provider_inv pf cfg c \<Longrightarrow> provider_inv pf cfg (snd (resume_end reply c))"
proof -
  assume inv: "provider_inv pf cfg c"
  have a: "provider_inv pf cfg (c\<lparr>pv_control := Free\<rparr>)" if "pv_control c = Resume_waits"
    using inv that by (auto simp: provider_inv_def barrier_defs)
  have b: "provider_inv pf cfg (c\<lparr>pv_control := Free, pv_stream_paused := False, pv_ready := False, pv_paused := False\<rparr>)"
    if "pv_control c = Resume_waits" "\<not> pv_timed_out c"
    using inv that by (auto simp: provider_inv_def barrier_defs)
  show ?thesis using inv a b by (simp add: resume_end_def Let_def split: sum.split option.split)
qed

lemma close_inv: "provider_inv pf cfg c \<Longrightarrow> provider_inv pf cfg (close_begin c)"
  by (auto simp: close_begin_def provider_inv_def barrier_defs)

lemma close_end_inv: "provider_inv pf cfg c \<Longrightarrow> provider_inv pf cfg (snd (close_end outcome c))"
proof -
  assume inv: "provider_inv pf cfg c"
  let ?d = "c\<lparr>pv_pump := False, pv_stream_open := False, pv_stream_paused := b\<rparr>"
  have "provider_inv pf cfg (c\<lparr>pv_pump := False, pv_stream_open := False, pv_stream_paused := b\<rparr>)"
    "provider_inv pf cfg (c\<lparr>pv_pump := False, pv_stream_open := False, pv_stream_paused := b, pv_closed := True\<rparr>)"
    if "pv_flight c = No_group" for b
    using inv that by (auto simp: provider_inv_def barrier_defs)
  with inv show ?thesis by (simp add: close_end_def Let_def split: sum.split)
qed

text \<open>A commit removes the oldest groups: the cursor moves over exactly them.\<close>

lemma commit_rest:
  assumes k: "sort (map fst rows) = [lo .. hi]" and ids: "distinct ids" "ids = take (length ids) (sort (map fst rows))"
  shows "sort (map fst (filter (\<lambda>r. fst r \<notin> set ids) rows)) = [(if ids = [] then lo else last ids + 1) .. hi]"
proof -
  let ?n = "length ids"
  have n: "?n \<le> length [lo .. hi]" using arg_cong [OF ids(2), of length] k by simp
  have "map fst (filter (\<lambda>r. fst r \<notin> set ids) rows) = filter (\<lambda>x. x \<notin> set ids) (map fst rows)"
    by (simp add: filter_map comp_def)
  then have "sort (map fst (filter (\<lambda>r. fst r \<notin> set ids) rows)) = filter (\<lambda>x. x \<notin> set ids) (sort (map fst rows))"
    by (simp add: filter_sort)
  also have "\<dots> = filter (\<lambda>x. x \<notin> set (take ?n [lo .. hi])) [lo .. hi]" using k ids(2) by simp
  also have "\<dots> = [lo + int ?n .. hi]" using filter_not_take [of "[lo .. hi]" ?n] by (simp add: drop_upto)
  also have "lo + int ?n = (if ids = [] then lo else last ids + 1)"
    using take_upto_last [of ?n lo hi] n ids(2) k by (cases "ids = []") simp_all
  finally show ?thesis .
qed


lemma credit_shrink:
  assumes "credit_ok cfg c" "length (pv_retained d) \<le> length (pv_retained c)" "pv_flight d = pv_flight c"
  shows "credit_ok cfg d"
  using assms by (simp add: credit_ok_def) linarith

lemma commit_inv: "provider_inv pf cfg c \<Longrightarrow> provider_inv pf cfg (snd (commit_groups consumed dropped c))"
proof -
  assume inv: "provider_inv pf cfg c"
  let ?ids = "sort (consumed @ dropped)"
  let ?d = "c\<lparr>pv_retained := filter (\<lambda>r. fst r \<notin> set ?ids) (pv_retained c),
       pv_committed := (if ?ids = [] then pv_committed c else last ?ids + 1),
       pv_dropped := pv_dropped c + int (length dropped)\<rparr>"
  have "provider_inv pf cfg ?d" if ok: "commit_ok consumed dropped (pv_retained c)"
  proof -
    from ok have ids: "distinct ?ids" "?ids = take (length ?ids) (sort (map fst (pv_retained c)))"
      unfolding commit_ok_def Let_def by blast+
    from inv obtain h where h: "cursor_ok c h" unfolding provider_inv_def mailbox_ok_def by blast
    then have k: "sort (map fst (pv_retained c)) = [pv_committed c .. pv_next c - 1 - h]" by (simp add: cursor_ok_def)
    have "last ?ids \<le> pv_next c - 1 - h" if "?ids \<noteq> []"
    proof -
      have "last ?ids \<in> set (take (length ?ids) [pv_committed c .. pv_next c - 1 - h])" using that ids(2) k by (metis last_in_set)
      then show ?thesis using in_set_takeD by fastforce
    qed
    then have "?ids \<noteq> [] \<longrightarrow> last ?ids + 1 \<le> pv_next c - h" by force
    then have "cursor_ok ?d h" using h commit_rest [OF k ids] unfolding cursor_ok_def by simp
    moreover have "credit_ok cfg c" using inv by (simp add: provider_inv_def mailbox_ok_def)
    then have "credit_ok cfg ?d" by (rule credit_shrink) simp_all
    ultimately have "mailbox_ok cfg ?d" unfolding mailbox_ok_def by blast
    moreover have "lease_ok ?d \<and> halted_ok ?d \<and> served_ok pf ?d" using inv by (simp add: provider_inv_def barrier_defs)
    ultimately show ?thesis by (simp add: provider_inv_def)
  qed
  then show ?thesis using inv unfolding commit_groups_def Let_def by simp
qed

lemma provider_step_inv: "provider_inv pf cfg c \<Longrightarrow> provider_inv pf cfg (provider_step sha pf cfg op c)"
  by (cases op)
    (simp_all add: start_inv started_inv produce_begin_inv produce_plans_inv produce_done_inv stopped_inv timeout_inv get_inv
      pause_begin_inv pause_end_inv commit_inv activate_begin_inv activate_end_inv resume_begin_inv resume_end_inv close_inv close_end_inv)

interpretation provider_system: op_system "provider_step sha pf cfg" "provider_inv pf cfg" for sha pf cfg
  by unfold_locales (rule provider_step_inv)

lemma restore_Inr:
  assumes "restore sha bound p s = Inr (nxt, committed, dropped, rows)"
  shows "int (length rows) \<le> bound \<and> sort (map fst rows) = [committed .. nxt - 1]"
  using assms unfolding restore_def guard_Inr_iff bindE_Inr_iff by auto

lemma fresh_inv:
  assumes "pf a = Inr p" "int (length rows) \<le> bound_of cfg" "sort (map fst rows) = [committed .. nxt - 1]" "committed \<le> nxt"
  shows "provider_inv pf cfg \<lparr>pv_artifact = a, pv_policy = p, pv_ack = None, pv_next = nxt, pv_committed = committed,
                pv_dropped = dropped, pv_retained = rows, pv_assembler = asm, pv_started = False, pv_pump = False,
                pv_flight = No_group, pv_paused = False, pv_closing = False, pv_closed = False, pv_error = None,
                pv_ready = False, pv_timed_out = False, pv_control = Free, pv_stream_open = False,
                pv_stream_paused = False, pv_stopped = None\<rparr>"
  using assms by (simp add: provider_inv_def barrier_defs mailbox_ok_def cursor_ok_def credit_ok_def exI [of _ 0])

lemma BenchmarkTrainingProvider_Inr:
  assumes "BenchmarkTrainingProvider sha pf cfg a n recovery = Inr c"
  obtains p asm nxt committed dropped rows where "pf a = Inr p" "GroupAssembler 1 (pc_group_size cfg) = Inr asm"
    "py_eq (JFloat (Fin (pc_temperature cfg))) (dget (sampling p) ''temperature'')" "1 \<le> bound_of cfg" "2 \<le> pc_group_size cfg"
    "(case recovery of
            None \<Rightarrow> Inr (n, n, 0, [])
          | Some s \<Rightarrow> if s = [] then Inr (n, n, 0, []) else restore sha (bound_of cfg) p s) = Inr (nxt, committed, dropped, rows)"
    "c = \<lparr>pv_artifact = a, pv_policy = p, pv_ack = None, pv_next = nxt, pv_committed = committed,
                pv_dropped = dropped, pv_retained = rows, pv_assembler = asm, pv_started = False, pv_pump = False,
                pv_flight = No_group, pv_paused = False, pv_closing = False, pv_closed = False, pv_error = None,
                pv_ready = False, pv_timed_out = False, pv_control = Free, pv_stream_open = False,
                pv_stream_paused = False, pv_stopped = None\<rparr>"
  using assms unfolding BenchmarkTrainingProvider_def bindE_Inr_iff guard_Inr_iff split_paired_Ex prod.case sum.inject not_not de_Morgan_disj not_less
  by (elim exE conjE) (rule that, assumption+, rule sym, assumption)

lemma BenchmarkTrainingProvider_inv:
  assumes "BenchmarkTrainingProvider sha pf cfg a n recovery = Inr c" "pv_committed c \<le> pv_next c"
  shows "provider_inv pf cfg c"
  using assms(1)
proof (rule BenchmarkTrainingProvider_Inr)
  fix p asm nxt committed dropped rows
  assume a: "pf a = Inr p" "1 \<le> bound_of cfg"
    and r: "(case recovery of
            None \<Rightarrow> Inr (n, n, 0, [])
          | Some s \<Rightarrow> if s = [] then Inr (n, n, 0, []) else restore sha (bound_of cfg) p s) = Inr (nxt, committed, dropped, rows)"
    and c: "c = \<lparr>pv_artifact = a, pv_policy = p, pv_ack = None, pv_next = nxt, pv_committed = committed,
                pv_dropped = dropped, pv_retained = rows, pv_assembler = asm, pv_started = False, pv_pump = False,
                pv_flight = No_group, pv_paused = False, pv_closing = False, pv_closed = False, pv_error = None,
                pv_ready = False, pv_timed_out = False, pv_control = Free, pv_stream_open = False,
                pv_stream_paused = False, pv_stopped = None\<rparr>"
  have "int (length rows) \<le> bound_of cfg \<and> sort (map fst rows) = [committed .. nxt - 1]"
    using r restore_Inr [of sha "bound_of cfg" p _ nxt committed dropped rows] a(2) by (auto split: option.splits if_split_asm)
  with fresh_inv [of pf a p, OF a(1)] assms(2) show ?thesis unfolding c by simp
qed

lemma provider_reachable:
  "BenchmarkTrainingProvider sha pf cfg a n recovery = Inr c0 \<Longrightarrow> pv_committed c0 \<le> pv_next c0 \<Longrightarrow>
   provider_inv pf cfg (fold (provider_step sha pf cfg) ops c0)"
  by (rule provider_system.inv_run [OF BenchmarkTrainingProvider_inv])

section \<open>Properties\<close>

text \<open>
  C30. The mailbox never exceeds its credit and has no gap: whatever the learner, the producer, the controller
  and the stream do, it holds exactly the groups from the committed cursor on, each once; only the group in
  execution, or the one a failed producer was executing, may be missing at the end.
\<close>

theorem mailbox_bounded_no_gap:
  assumes "BenchmarkTrainingProvider sha pf cfg a n recovery = Inr c0" "pv_committed c0 \<le> pv_next c0"
    and "c = fold (provider_step sha pf cfg) ops c0"
  shows "int (length (pv_retained c)) \<le> pc_queue_capacity cfg + pc_groups_per_step cfg \<and>
    (\<exists>h\<in>{0, 1}. sort (map fst (pv_retained c)) = [pv_committed c .. pv_next c - 1 - h] \<and>
       (h = 1 \<longrightarrow> (\<exists>reg. pv_flight c = Executing reg) \<or> pv_error c \<noteq> None))"
proof -
  have inv: "provider_inv pf cfg c" using provider_reachable [OF assms(1,2)] assms(3) by simp
  then obtain h where "cursor_ok c h" unfolding provider_inv_def mailbox_ok_def by blast
  then have "h \<in> {0, 1}" "sort (map fst (pv_retained c)) = [pv_committed c .. pv_next c - 1 - h]"
    "h = 1 \<longrightarrow> (\<exists>reg. pv_flight c = Executing reg) \<or> pv_error c \<noteq> None"
    by (cases "pv_flight c"; auto simp: cursor_ok_def)+
  moreover have "int (length (pv_retained c)) \<le> pc_queue_capacity cfg + pc_groups_per_step cfg"
    using inv by (simp add: provider_inv_def mailbox_ok_def credit_ok_def bound_of_def)
  ultimately show ?thesis by blast
qed

text \<open>
  C31. The policy cannot change under a group: while a group executes, the provider's policy is the one its
  plans were registered under and no activation is in progress; and an activation that is acknowledged
  started from a drained pause with no group in execution and moved to a newer policy of the same lineage.
\<close>

theorem policy_lease_stable:
  assumes "BenchmarkTrainingProvider sha pf cfg a n recovery = Inr c0" "pv_committed c0 \<le> pv_next c0"
    and "c = fold (provider_step sha pf cfg) ops c0"
  shows "(\<forall>reg. pv_flight c = Executing reg \<longrightarrow> policy_eq (rg_policy reg) (pv_policy c) \<and>
       (\<forall>b p. pv_control c \<noteq> Activate_waits b p)) \<and>
    (\<forall>b d. activate_begin pf b c = (Inr (), d) \<longrightarrow> pv_control c = Free \<longrightarrow>
       pv_paused c \<and> pv_stream_paused c \<and> pv_flight c = No_group \<and> pv_error c = None \<and> pv_stopped c = None \<and>
       successor (pv_policy c) (pv_policy d) \<and> pv_control d = Activate_waits b (pv_policy c))"
proof -
  have inv: "lease_ok c" using provider_reachable [OF assms(1,2)] assms(3) by (simp add: provider_inv_def)
  then have "\<forall>reg. pv_flight c = Executing reg \<longrightarrow> policy_eq (rg_policy reg) (pv_policy c) \<and> (\<forall>b p. pv_control c \<noteq> Activate_waits b p)"
    by (auto simp: lease_ok_def)
  moreover have "pv_paused c \<and> pv_stream_paused c \<and> pv_flight c = No_group \<and> pv_error c = None \<and> pv_stopped c = None \<and>
       successor (pv_policy c) (pv_policy d) \<and> pv_control d = Activate_waits b (pv_policy c)"
    if "activate_begin pf b c = (Inr (), d)" "pv_control c = Free" for b d
    using that by (auto simp: activate_begin_def Let_def split: if_split_asm sum.splits)
  ultimately show ?thesis by blast
qed


section \<open>Recovery\<close>

text \<open>What the records of the mailbox are: a group or an exclusion, under the packet's own identity.\<close>

definition valid_row :: "(string \<Rightarrow> string) \<Rightarrow> policy_ref \<Rightarrow> int \<times> provider_row \<Rightarrow> bool" where
  "valid_row sha p r \<longleftrightarrow>
     (let packet = pr_packet (snd r) in
      plain_fields (pk_fields packet) = pk_fields packet \<and> map_of (pk_fields packet) ''group_id'' = Some (JInt (fst r)) \<and>
      (case pk_group packet of
         Some g \<Rightarrow> valid_group sha g \<and> tg_group_id g = fst r \<and> restorable p (Some g)
       | None \<Rightarrow> (case map_of (pk_fields packet) ''exclusion'' of
             Some (JObj x) \<Rightarrow> dget x ''group_id'' = JInt (fst r) | _ \<Rightarrow> False)))"

lemma map_of_append_other: "map_of (d @ [(k, v)]) j = (case map_of d j of Some x \<Rightarrow> Some x | None \<Rightarrow> if j = k then Some v else None)"
  by (induction d) auto

lemma plain_lookup:
  assumes "plain_fields d = d"
  shows "map_of d ''training_group'' = None"
proof -
  have "\<forall>x\<in>set d. fst x \<noteq> ''training_group''"
    using assms unfolding plain_fields_def filter_id_conv by simp
  then show ?thesis by (auto simp: map_of_eq_None_iff)
qed

lemma group_truthy: "truthy (group_to_dict g)"
  by (simp add: group_to_dict_def)

lemma decode_encode:
  assumes "valid_row sha p r"
  shows "decode_packet sha (JObj (encode_packet (pr_packet (snd r)))) = Inr (pr_packet (snd r))"
proof -
  obtain fields g where packet: "pr_packet (snd r) = \<lparr>pk_fields = fields, pk_group = g\<rparr>" by (cases "pr_packet (snd r)")
  have f: "plain_fields fields = fields" "map_of fields ''group_id'' = Some (JInt (fst r))"
    using assms by (simp_all add: valid_row_def packet Let_def)
  have t: "map_of fields ''training_group'' = None" by (rule plain_lookup [OF f(1)])
  let ?t = "case g of None \<Rightarrow> JNull | Some g \<Rightarrow> group_to_dict g"
  have enc: "encode_packet \<lparr>pk_fields = fields, pk_group = g\<rparr> = fields @ [(''training_group'', ?t)]"
    by (simp add: encode_packet_def f(1))
  have look: "dlookup (fields @ [(''training_group'', ?t)]) ''training_group'' = Inr ?t"
    "dlookup (fields @ [(''training_group'', ?t)]) ''group_id'' = Inr (JInt (fst r))"
    using f(2) t by (simp_all add: dlookup_def map_of_append_other del: map_of_append)
  have plain: "plain_fields (fields @ [(''training_group'', ?t)]) = fields" using f(1) by (simp add: plain_fields_def)
  show ?thesis
  proof (cases g)
    case None
    then obtain x where x: "map_of fields ''exclusion'' = Some (JObj x)" "dget x ''group_id'' = JInt (fst r)"
      using assms by (auto simp: valid_row_def packet Let_def split: option.splits json.splits)
    have "dget_default (fields @ [(''training_group'', ?t)]) ''exclusion'' (JObj []) = JObj x"
      using x(1) by (simp add: dget_default_def map_of_append_other del: map_of_append)
    with x(2) look plain show ?thesis unfolding packet by (simp add: decode_packet_def as_dict_def enc) (simp add: None)
  next
    case (Some y)
    then have "valid_group sha y" "tg_group_id y = fst r" using assms by (simp_all add: valid_row_def packet Let_def)
    with group_roundtrip [of sha y] look plain group_truthy [of y] show ?thesis
      unfolding packet by (simp add: decode_packet_def as_dict_def enc) (simp add: Some)
  qed
qed

definition redelivered :: "(int \<times> provider_row) list \<Rightarrow> (int \<times> provider_row) list" where
  "redelivered rows = map (\<lambda>r. (fst r, (snd r)\<lparr>pr_delivered := False\<rparr>)) rows"

lemma restore_encoded:
  assumes "\<forall>r\<in>set rows. valid_row sha p r" "distinct (map fst (old @ rows))"
  shows "restore_packets sha p (map (\<lambda>r. JObj (encode_packet (pr_packet (snd r)))) rows) old = Inr (old @ redelivered rows)"
  using assms
proof (induction rows arbitrary: old)
  case (Cons r rows)
  then have v: "valid_row sha p r" by simp
  have g: "dget (pk_fields (pr_packet (snd r))) ''group_id'' = JInt (fst r)" using v by (simp add: valid_row_def dget_def Let_def)
  have "fst r \<notin> fst ` set old" using Cons.prems(2) by auto
  then have "map_of old (fst r) = None" "\<And>y. (fst r, y) \<notin> set old" by (auto simp: map_of_eq_None_iff image_iff)
  moreover have "restorable p (pk_group (pr_packet (snd r)))"
    using v by (auto simp: valid_row_def Let_def restorable_def split: option.splits)
  moreover have "snd r\<lparr>pr_delivered := False\<rparr> = \<lparr>pr_packet = pr_packet (snd r), pr_delivered = False\<rparr>" by simp
  ultimately show ?case
    using Cons.IH [of "old @ [(fst r, \<lparr>pr_packet = pr_packet (snd r), pr_delivered = False\<rparr>)]"] Cons.prems decode_encode [OF v] g
    by (simp add: redelivered_def)
qed (simp add: redelivered_def)




section \<open>Witnesses\<close>

definition tp_artifact :: artifact where
  "tp_artifact = \<lparr>art_version = JInt 1, art_digest = JStr ga_hex, art_lineage = JStr ''l'', art_identity = [], art_sampling = JNull\<rparr>"

definition tp_factory :: "artifact \<Rightarrow> policy_ref result" where
  "tp_factory a = bindE (int_value_of (art_version a)) (\<lambda>v. Inr (ga_policy\<lparr>version := v\<rparr>))"

definition tp_config :: provider_config where
  "tp_config = \<lparr>pc_temperature = 1, pc_queue_capacity = 1, pc_groups_per_step = 1, pc_group_size = 2\<rparr>"

definition tp_new :: "provider result" where
  "tp_new = BenchmarkTrainingProvider (\<lambda>_. ga_hex) tp_factory tp_config tp_artifact 0 None"

definition tp_run :: "provider_op list \<Rightarrow> provider \<Rightarrow> provider" where
  "tp_run ops c = fold (provider_step (\<lambda>_. ga_hex) tp_factory tp_config) ops c"

definition tp_executing :: "provider_op list" where
  "tp_executing = [Start_provider, Started (Inr (JObj (policy_ack ga_policy))) (Inr ()), Produce_begin,
     Produce_plans (GroupRegistration 0 [ga_plan 1, ga_plan 0] ga_policy (JStr ga_hex) (JStr ga_hex) ga_rewards) (Inr ())]"

definition tp_excluded :: "provider_op list" where
  "tp_excluded = tp_executing @ [Produce_done (Inr [(ga_result 0 ''p'')\<lparr>score_eligible := False\<rparr>, ga_result 1 ''q''])
     \<lparr>pt_started = Fin 0, pt_finished = Fin 1, pt_pid = 7\<rparr>]"

lemma tp_new_ok: "case tp_new of Inr c \<Rightarrow> pv_committed c = 0 \<and> pv_next c = 0 | Inl _ \<Rightarrow> False"
  by code_simp

lemma tp_executing_ok:
  "case tp_new of Inr c \<Rightarrow> (case pv_flight (tp_run tp_executing c) of Executing reg \<Rightarrow> rg_group_id reg = 0 | _ \<Rightarrow> False) | Inl _ \<Rightarrow> False"
  by code_simp

definition excluded_row :: "int \<times> provider_row \<Rightarrow> bool" where
  "excluded_row r \<longleftrightarrow> (let d = pk_fields (pr_packet (snd r)) in
     (case pk_group (pr_packet (snd r)) of None \<Rightarrow> True | Some _ \<Rightarrow> False) \<and>
     plain_fields d = d \<and> map_of d ''group_id'' = Some (JInt (fst r)) \<and>
     (case map_of d ''exclusion'' of Some (JObj x) \<Rightarrow> dget x ''group_id'' = JInt (fst r) | _ \<Rightarrow> False))"

lemma excluded_row_valid: "excluded_row r \<Longrightarrow> valid_row sha p r"
  by (cases "pk_group (pr_packet (snd r))") (simp_all add: excluded_row_def valid_row_def Let_def)

lemma tp_excluded_ok:
  "case tp_new of
     Inr c \<Rightarrow> list_all excluded_row (pv_retained (tp_run tp_excluded c)) \<and> pv_retained (tp_run tp_excluded c) \<noteq> []
   | Inl _ \<Rightarrow> False"
  by code_simp

lemma tp_snapshot_ok:
  "case tp_new of
     Inr c \<Rightarrow> (case snapshot (tp_run tp_excluded c) of Inr _ \<Rightarrow> True | Inl _ \<Rightarrow> False) \<and>
       (case pv_control (tp_run tp_excluded c) of Free \<Rightarrow> True | _ \<Rightarrow> False) \<and>
       art_lineage (pv_artifact (tp_run tp_excluded c)) = JStr (lineage (pv_policy (tp_run tp_excluded c))) \<and>
       (case BenchmarkTrainingProvider (\<lambda>_. ga_hex) tp_factory tp_config (pv_artifact (tp_run tp_excluded c)) 0 None of
          Inr _ \<Rightarrow> True | Inl _ \<Rightarrow> False)
   | Inl _ \<Rightarrow> False"
  by code_simp

lemma tp_start:
  obtains c where "BenchmarkTrainingProvider (\<lambda>_. ga_hex) tp_factory tp_config tp_artifact 0 None = Inr c" "tp_new = Inr c"
    "pv_committed c \<le> pv_next c"
  using tp_new_ok by (auto simp: tp_new_def split: sum.splits)

lemma mailbox_bounded_no_gap_witness:
  "\<exists>c. tp_new = Inr c \<and> int (length (pv_retained (tp_run tp_excluded c))) \<le> 2"
proof -
  obtain c where c: "BenchmarkTrainingProvider (\<lambda>_. ga_hex) tp_factory tp_config tp_artifact 0 None = Inr c" "tp_new = Inr c"
    "pv_committed c \<le> pv_next c" by (rule tp_start)
  from mailbox_bounded_no_gap [OF c(1,3) tp_run_def] c(2) show ?thesis by (auto simp: tp_config_def)
qed

lemma policy_lease_stable_witness:
  "\<exists>c reg. tp_new = Inr c \<and> pv_flight (tp_run tp_executing c) = Executing reg \<and>
     policy_eq (rg_policy reg) (pv_policy (tp_run tp_executing c))"
proof -
  obtain c where c: "BenchmarkTrainingProvider (\<lambda>_. ga_hex) tp_factory tp_config tp_artifact 0 None = Inr c" "tp_new = Inr c"
    "pv_committed c \<le> pv_next c" by (rule tp_start)
  moreover obtain reg where "pv_flight (tp_run tp_executing c) = Executing reg"
    using tp_executing_ok unfolding c(2) by (auto split: flight.splits)
  ultimately show ?thesis using policy_lease_stable [OF c(1,3) tp_run_def] by blast
qed


end
