(* ===== verification/Serving_Contracts.thy ===== *)
theory Serving_Contracts
  imports Vllm_Controller
begin

text \<open>
  The proofs that a serving controller owns its model, \<^verbatim>\<open>rollout_manager/terminal_bench/serving_contracts.py\<close>:
  the identity a guard binds, the validation of a controller proof and of the vLLM engine inside it, and
  the guard gate that compares an operator's snapshot with the live controller. Documents are JSON values,
  times are exact rationals, and the current time is an argument.
\<close>

section \<open>Fields\<close>

text \<open>\<^verbatim>\<open>HASH.fullmatch(str(value))\<close>: a string, or an integer of 64 decimal digits, can match.\<close>

definition hash_text :: "json \<Rightarrow> bool" where
  "hash_text v = (case v of JStr s \<Rightarrow> is_hex 64 s | JInt i \<Rightarrow> is_hex 64 (show_int i) | _ \<Rightarrow> False)"

definition positive :: "json \<Rightarrow> string \<Rightarrow> rat result" where
  "positive v name =
     (case v of
        JInt i \<Rightarrow> bindE (float_of_int i) (\<lambda>_.
          if i \<le> 0 then Inl (ValueError (name @ '' must be finite and positive'')) else Inr (of_int i))
      | JFloat (Fin q) \<Rightarrow> if q \<le> 0 then Inl (ValueError (name @ '' must be finite and positive'')) else Inr q
      | _ \<Rightarrow> Inl (ValueError (name @ '' must be finite and positive'')))"

definition int_least :: "int \<Rightarrow> json \<Rightarrow> bool" where
  "int_least n v = (case v of JInt i \<Rightarrow> n \<le> i | _ \<Rightarrow> False)"

text \<open>\<^verbatim>\<open>{key: value[key] for key in keys}\<close>; \<open>None\<close> for the \<^verbatim>\<open>KeyError\<close> or \<^verbatim>\<open>TypeError\<close> that the code catches.\<close>

definition pick :: "json \<Rightarrow> string list \<Rightarrow> dict option" where
  "pick v keys =
     (case v of
        JObj d \<Rightarrow> if list_ex (\<lambda>k. map_of d k = None) keys then None else Some (map (\<lambda>k. (k, dget d k)) keys)
      | _ \<Rightarrow> None)"

fun pick_all :: "json list \<Rightarrow> string list \<Rightarrow> json list option" where
  "pick_all [] keys = Some []"
| "pick_all (v # vs) keys =
     (case (pick v keys, pick_all vs keys) of (Some d, Some ds) \<Rightarrow> Some (JObj d # ds) | _ \<Rightarrow> None)"

definition path_parts :: "string \<Rightarrow> string list" where
  "path_parts s = filter (\<lambda>w. w \<noteq> [] \<and> w \<noteq> ''.'') (split_on CHR ''/'' s)"

definition explicit_path :: "json \<Rightarrow> bool" where
  "explicit_path v =
     (case v of JStr (c # s) \<Rightarrow> c = CHR ''/'' \<and> ''..'' \<notin> set (path_parts (c # s)) | _ \<Rightarrow> False)"

definition file_name :: "string \<Rightarrow> string" where
  "file_name s = (if path_parts s = [] then [] else last (path_parts s))"

section \<open>Identity\<close>

definition native_static_keys :: "string list" where
  "native_static_keys = [''schema_version'', ''serving_profile'', ''served_model'', ''model_pid'', ''model_pid_start_ticks'',
     ''model_cmdline_sha256'', ''generation_slots'', ''started_unix'', ''expires_unix'', ''model_dir'', ''python_executable'',
     ''netns_inode'']"

definition engine_keys :: "string list" where
  "engine_keys = [''schema_version'', ''version'', ''serving_profile'', ''tensor_parallel_size'', ''logprobs_mode'',
     ''prefix_caching'', ''enforce_eager'', ''cudagraph_capture_sizes'', ''compilation_mode'', ''cudagraph_mode'',
     ''kv_cache_memory_bytes'', ''max_model_len'', ''gpu_memory_utilization'', ''kv_bytes_per_token'',
     ''full_context_raw_kv_bytes'', ''kernel_config'', ''startup_adapter'', ''worker_rpc_method'',
     ''insecure_serialization'', ''actor_process'']"

definition worker_keys :: "string list" where
  "worker_keys = [''pid'', ''start_ticks'', ''cmdline_sha256'', ''device'', ''device_uuid'', ''kernel_config'',
     ''startup_adapter'', ''worker_rpc_method'', ''insecure_serialization'', ''moe_implementations'']"

definition native_controller_identity :: "json \<Rightarrow> bool \<Rightarrow> dict result" where
  "native_controller_identity v include_policy =
     (case pick v (native_static_keys @ (if include_policy then [''policy'', ''policy_ack'', ''capabilities''] else [])) of
        None \<Rightarrow> Inl (ValueError ''Incomplete native controller identity'')
      | Some d \<Rightarrow> Inr d)"

definition engine_identity :: "json \<Rightarrow> bool \<Rightarrow> json option" where
  "engine_identity engine include_policy =
     (case (pick engine engine_keys, iterate_values (dget (fields_of engine) ''workers'')) of
        (Some d, Inr ws) \<Rightarrow>
          if map_of (fields_of engine) ''workers'' = None then None
          else (case (pick_all ws worker_keys,
                 if include_policy then pick engine [''loaded_policy_ack'', ''loaded_trainable_tensors''] else Some []) of
              (Some workers, Some policy) \<Rightarrow> Some (JObj (d @ [(''workers'', JList workers)] @ policy))
            | _ \<Rightarrow> None)
      | _ \<Rightarrow> None)"

definition training_controller_identity :: "json \<Rightarrow> bool \<Rightarrow> dict result" where
  "training_controller_identity v include_policy =
     bindE (native_controller_identity v include_policy) (\<lambda>d.
       if dget (fields_of v) ''serving_profile'' \<noteq> JStr ''vllm-training-v1'' then Inr d
       else case engine_identity (dget_default (fields_of v) ''vllm_engine'' (JObj [])) include_policy of
           None \<Rightarrow> Inl (ValueError ''Incomplete actual vLLM worker identity'')
         | Some e \<Rightarrow> Inr (d @ [(''vllm_engine'', e)]))"

section \<open>The engine\<close>

definition kernel_config :: dict where
  "kernel_config = [(''moe_backend'', JStr ''triton''), (''enable_jit_warmup'', JBool False),
     (''enable_cutedsl_warmup'', JBool False), (''enable_flashinfer_autotune'', JBool False)]"

definition validate_vllm_kernel_config :: "json \<Rightarrow> json result" where
  "validate_vllm_kernel_config v =
     (if \<not> is_obj v \<or> \<not> keys_are (fields_of v) (map fst kernel_config) \<or>
         list_ex (\<lambda>(k, x). dget (fields_of v) k \<noteq> x) kernel_config
      then Inl (ValueError ''vLLM actual kernel configuration differs from its bound profile'')
      else Inr v)"

definition startup_adapter :: dict where
  "startup_adapter = [(''profile'', JStr ''qwen3-moe-minimax-import-guard-v1''),
     (''stock_kernel_warmup_sha256'', JStr ''69d9f633e353d02898b0e0054613f10596747341ea23e4369c1cdfd88ec2cac5''),
     (''model_type'', JStr ''qwen3_moe''), (''preserves_original_warmup_body'', JBool True),
     (''bypassed_unrelated_minimax_import'', JBool True)]"

definition validate_vllm_startup_adapter :: "json \<Rightarrow> json result" where
  "validate_vllm_startup_adapter v =
     (if \<not> is_obj v \<or> \<not> keys_are (fields_of v) (''applied_count'' # map fst startup_adapter) \<or>
         \<not> int_least 1 (dget (fields_of v) ''applied_count'') \<or>
         list_ex (\<lambda>(k, x). dget (fields_of v) k \<noteq> x) startup_adapter
      then Inl (ValueError ''vLLM actual Qwen startup adapter application is unproven'')
      else Inr v)"

definition engine_profile_ok :: "dict \<Rightarrow> bool" where
  "engine_profile_ok e \<longleftrightarrow> dget e ''schema_version'' = JInt 1 \<and> dget e ''version'' = JStr ''0.31.0'' \<and>
     dget e ''serving_profile'' = JStr ''vllm-training-v1'' \<and> dget e ''tensor_parallel_size'' = JInt 1 \<and>
     dget e ''logprobs_mode'' = JStr ''processed_logprobs'' \<and> dget e ''prefix_caching'' = JBool False \<and>
     dget e ''enforce_eager'' = JBool False \<and> py_eq (dget e ''cudagraph_capture_sizes'') (JList [JInt 1]) \<and>
     dget e ''compilation_mode'' = JInt 0 \<and> dget e ''cudagraph_mode'' = JStr ''FULL_DECODE_ONLY''"

text \<open>The float \<^verbatim>\<open>.70\<close> and the bytes of one cached token.\<close>

definition gpu_memory_utilization :: rat where
  "gpu_memory_utilization = 3152519739159347 / 4503599627370496"

definition kv_bytes_per_token :: int where
  "kv_bytes_per_token = 98304"

definition engine_geometry_ok :: "policy_ref \<Rightarrow> dict \<Rightarrow> bool" where
  "engine_geometry_ok p e \<longleftrightarrow>
     (case (dget e ''max_model_len'', dget e ''full_context_raw_kv_bytes'') of
        (JInt n, JInt raw) \<Rightarrow> 1 \<le> n \<and> dget (identities p) ''vllm_max_model_len'' = JStr (show_int n) \<and>
          dget e ''kv_cache_memory_bytes'' = JInt vllm_kv_cache_memory_bytes \<and>
          dget e ''kv_bytes_per_token'' = JInt kv_bytes_per_token \<and>
          raw = n * kv_bytes_per_token \<and> raw \<le> vllm_kv_cache_memory_bytes \<and>
          dget e ''gpu_memory_utilization'' = JFloat (Fin gpu_memory_utilization)
      | _ \<Rightarrow> False)"

definition secure_rpc :: "dict \<Rightarrow> bool" where
  "secure_rpc e \<longleftrightarrow> dget e ''worker_rpc_method'' = JStr ''rollout_manager_owned_call'' \<and>
     dget e ''insecure_serialization'' = JBool False"

definition process_ok :: "dict \<Rightarrow> bool" where
  "process_ok d \<longleftrightarrow> int_least 1 (dget d ''pid'') \<and> int_least 1 (dget d ''start_ticks'') \<and> hash_text (dget d ''cmdline_sha256'')"

definition loaded_head_ok :: "policy_ref \<Rightarrow> dict \<Rightarrow> dict \<Rightarrow> bool" where
  "loaded_head_ok p e tensors \<longleftrightarrow>
     py_eq (dget e ''loaded_policy_ack'')
       (JObj [(''version'', JInt (version p)), (''digest'', JStr (digest p)), (''lineage'', JStr (lineage p))]) \<and>
     hash_text (dget tensors ''sha256'') \<and>
     dget tensors ''parameter_names'' = JList [JStr ''backend.lm_head.weight''] \<and>
     dget tensors ''dtype'' = JStr ''torch.bfloat16'' \<and>
     (case dget tensors ''shape'' of JList [a, b] \<Rightarrow> int_least 1 a \<and> int_least 1 b | _ \<Rightarrow> False)"

definition expert_class :: string where
  "expert_class = ''vllm.model_executor.layers.fused_moe.experts.triton_moe.TritonExperts''"

definition expert_ok :: "json \<Rightarrow> bool" where
  "expert_ok v \<longleftrightarrow> is_obj v \<and>
     keys_are (fields_of v) [''module'', ''backend'', ''selected_experts_class'', ''experts_class''] \<and>
     is_str (dget (fields_of v) ''module'') \<and> truthy (dget (fields_of v) ''module'') \<and>
     dget (fields_of v) ''backend'' = JStr ''TRITON'' \<and>
     dget (fields_of v) ''selected_experts_class'' = JStr expert_class \<and>
     dget (fields_of v) ''experts_class'' = JStr expert_class"

definition experts_ok :: "json \<Rightarrow> bool" where
  "experts_ok v =
     (case v of
        JList xs \<Rightarrow> xs \<noteq> [] \<and> list_all expert_ok xs \<and> distinct (map (\<lambda>x. dget (fields_of x) ''module'') xs)
      | _ \<Rightarrow> False)"

definition device_ok :: "dict \<Rightarrow> bool" where
  "device_ok w \<longleftrightarrow>
     (case dget w ''device'' of JStr s \<Rightarrow> prefix ''cuda:'' s | _ \<Rightarrow> False) \<and>
     (case dget w ''device_uuid'' of JStr s \<Rightarrow> s \<noteq> [] | _ \<Rightarrow> False)"

definition graph_ok :: "dict \<Rightarrow> bool" where
  "graph_ok g \<longleftrightarrow> int_least 0 (dget g ''captured_graph_count'') \<and> int_least 0 (dget g ''replay_calls'')"

definition validate_worker :: "dict \<Rightarrow> json \<Rightarrow> unit result" where
  "validate_worker e v =
     (let w = fields_of v in
      if \<not> is_obj v then Inl (ValueError ''Invalid vLLM worker receipt'')
      else bindE (validate_vllm_kernel_config (dget w ''kernel_config'')) (\<lambda>_.
        bindE (validate_vllm_startup_adapter (dget w ''startup_adapter'')) (\<lambda>_.
        if \<not> secure_rpc w then Inl (ValueError ''vLLM actual worker must use the secure named RPC'')
        else if \<not> py_eq (dget w ''startup_adapter'') (dget e ''startup_adapter'')
        then Inl (ValueError ''vLLM startup adapter proof differs from its actual worker'')
        else if \<not> experts_ok (dget w ''moe_implementations'')
        then Inl (ValueError ''vLLM actual instantiated Triton experts are unproven'')
        else if \<not> is_obj (dget_default w ''graph'' (JObj [])) then Inl (ValueError ''Invalid vLLM graph receipt'')
        else if \<not> process_ok w \<or> \<not> device_ok w \<or> \<not> graph_ok (fields_of (dget_default w ''graph'' (JObj [])))
        then Inl (ValueError ''vLLM worker ownership or graph counters are unproven'')
        else Inr ())))"

definition one_worker :: "json \<Rightarrow> json option" where
  "one_worker v = (case v of JList [w] \<Rightarrow> Some w | _ \<Rightarrow> None)"

definition validate_vllm_engine :: "json \<Rightarrow> policy_ref \<Rightarrow> json result" where
  "validate_vllm_engine v p =
     (let e = fields_of v in
      if \<not> is_obj v \<or> \<not> engine_profile_ok e
      then Inl (ValueError ''vLLM engine configuration is outside the qualified training profile'')
      else if \<not> profile_matches (identities p) vllm_fixed_identities
      then Inl (ValueError ''vLLM worker proof differs from the bound actor/learner identity'')
      else if \<not> engine_geometry_ok p e
      then Inl (ValueError ''vLLM context/cache geometry differs from the original mounted model profile'')
      else bindE (validate_vllm_kernel_config (dget e ''kernel_config'')) (\<lambda>_.
        bindE (validate_vllm_startup_adapter (dget e ''startup_adapter'')) (\<lambda>_.
        if \<not> secure_rpc e then Inl (ValueError ''vLLM engine must use the secure named worker RPC'')
        else let actor = dget_default e ''actor_process'' (JObj []);
                 tensors = dget_default e ''loaded_trainable_tensors'' (JObj []) in
        if \<not> is_obj actor \<or> \<not> process_ok (fields_of actor)
        then Inl (ValueError ''vLLM actual actor process identity is unproven'')
        else if \<not> is_obj tensors then Inl (ValueError ''vLLM actual loaded head is missing'')
        else if \<not> loaded_head_ok p e (fields_of tensors)
        then Inl (ValueError ''vLLM actual loaded head or artifact acknowledgement is unproven'')
        else case one_worker (dget e ''workers'') of
            None \<Rightarrow> Inl (ValueError ''vLLM profile requires one actual tensor-parallel worker'')
          | Some w \<Rightarrow> bindE (validate_worker e w) (\<lambda>_. Inr v))))"

section \<open>The controller proof\<close>

definition controller_profile_ok :: "dict \<Rightarrow> string \<Rightarrow> string \<Rightarrow> bool" where
  "controller_profile_ok d model profile \<longleftrightarrow> dget d ''schema_version'' = JInt 1 \<and>
     dget d ''serving_profile'' = JStr profile \<and> dget d ''served_model'' = JStr model"

definition native_process_ok :: "dict \<Rightarrow> bool" where
  "native_process_ok d \<longleftrightarrow> dget d ''generation_slots'' = JInt 1 \<and> int_least 1 (dget d ''model_pid'') \<and>
     int_least 1 (dget d ''model_pid_start_ticks'') \<and> int_least 1 (dget d ''netns_inode'') \<and>
     hash_text (dget d ''model_cmdline_sha256'')"

definition python_name :: "json \<Rightarrow> bool" where
  "python_name v = (case v of JStr s \<Rightarrow> prefix ''python'' (file_name s) | _ \<Rightarrow> False)"

record lifetime =
  lt_started :: rat
  lt_expires :: rat
  lt_observed :: rat

definition service_lifetime :: "dict \<Rightarrow> lifetime result" where
  "service_lifetime d =
     bindE (positive (dget d ''started_unix'') ''native service start'') (\<lambda>s.
     bindE (positive (dget d ''expires_unix'') ''native service expiry'') (\<lambda>x.
     bindE (positive (dget d ''observed_unix'') ''native service observation'') (\<lambda>ob.
       Inr \<lparr>lt_started = s, lt_expires = x, lt_observed = ob\<rparr>)))"

definition lifetime_ok :: "rat \<Rightarrow> rat \<Rightarrow> bool \<Rightarrow> lifetime \<Rightarrow> bool" where
  "lifetime_ok now needed fresh t \<longleftrightarrow> lt_started t \<le> lt_observed t \<and> lt_observed t \<le> now + 1 \<and>
     0 < lt_expires t - lt_started t \<and> lt_expires t - lt_started t \<le> 43200 \<and> needed \<le> lt_expires t - now \<and>
     now < lt_expires t \<and> (fresh \<longrightarrow> now - lt_observed t \<le> 15)"

definition sampler_state_ok :: "bool \<Rightarrow> dict \<Rightarrow> bool" where
  "sampler_state_ok must_run d \<longleftrightarrow>
     (dget d ''controller_state'' = JStr ''running'' \<or> \<not> must_run \<and> dget d ''controller_state'' = JStr ''paused'') \<and>
     (dget d ''active_generations'' = JInt 0 \<or> dget d ''active_generations'' = JInt 1)"

definition expected_lease :: "policy_ref \<Rightarrow> policy_arg option \<Rightarrow> unit result" where
  "expected_lease p expected =
     (case expected of
        None \<Rightarrow> Inr ()
      | Some arg \<Rightarrow> bindE (case arg of Ref q \<Rightarrow> Inr q | Raw v \<Rightarrow> policy_from_dict v) (\<lambda>q.
          if \<not> policy_eq p q then Inl (ValueError ''Native loaded policy differs from the admitted group lease'') else Inr ()))"

record controller_check =
  cc_now :: rat
  cc_required :: rat
  cc_expected :: "policy_arg option"
  cc_running :: bool
  cc_fresh :: bool

definition validate_training_controller :: "controller_check \<Rightarrow> json \<Rightarrow> string \<Rightarrow> string \<Rightarrow> json result" where
  "validate_training_controller k v model profile =
     (let d = fields_of v in
      if profile \<notin> {''native-pytorch-v1'', ''vllm-training-v1''}
      then Inl (ValueError ''Unsupported owned training controller profile'')
      else bindE (training_controller_identity v True) (\<lambda>_.
      if \<not> controller_profile_ok d model profile
      then Inl (ValueError ''Native controller profile or served model differs'')
      else if \<not> native_process_ok d
      then Inl (ValueError ''Invalid native process identity or serial generation capacity'')
      else if \<not> explicit_path (dget d ''model_dir'') \<or> \<not> explicit_path (dget d ''python_executable'')
      then Inl (ValueError ''Native controller requires explicit mounted model and Python paths'')
      else if \<not> python_name (dget d ''python_executable'')
      then Inl (ValueError ''Native controller process must use the verified Python executable'')
      else bindE (service_lifetime d) (\<lambda>t.
      if \<not> lifetime_ok (cc_now k) (cc_required k) (cc_fresh k) t
      then Inl (ValueError ''Native controller observation is stale or lifetime is insufficient'')
      else if \<not> sampler_state_ok (cc_running k) d
      then Inl (ValueError ''Native controller is not ready or sampler ownership is invalid'')
      else bindE (policy_from_dict (dget_default d ''policy'' (JObj []))) (\<lambda>p.
      if \<not> py_eq (dget d ''policy_ack'')
           (JObj [(''version'', JInt (version p)), (''digest'', JStr (digest p)), (''lineage'', JStr (lineage p))])
      then Inl (ValueError ''Native loaded artifact acknowledgement differs from its policy'')
      else bindE (TrainingGenerationContract (Ref p) (dget d ''capabilities'')) (\<lambda>_.
      bindE (if profile \<noteq> ''vllm-training-v1'' then Inr ()
             else bindE (bindE (dlookup d ''vllm_engine'') (\<lambda>e. validate_vllm_engine e p)) (\<lambda>_.
               if dget (fields_of (dget d ''capabilities'')) ''serving_profile'' \<noteq> JStr profile \<or>
                  dget (identities p) ''rollout_engine'' \<noteq> JStr ''vllm''
               then Inl (ValueError ''vLLM behavior identity or serving capabilities differ'') else Inr ())) (\<lambda>_.
      bindE (expected_lease p (cc_expected k)) (\<lambda>_. Inr v)))))))"

definition validate_native_controller :: "controller_check \<Rightarrow> json \<Rightarrow> string \<Rightarrow> json result" where
  "validate_native_controller k v model = validate_training_controller k v model ''native-pytorch-v1''"

section \<open>The guard gate\<close>

definition served_model_name :: string where
  "served_model_name = ''deepseek-ai/DeepSeek-V4.1-Flash''"

definition controller_key :: "string \<Rightarrow> string" where
  "controller_key profile = (if profile = ''native-pytorch-v1'' then ''native_controller'' else ''training_controller'')"

record guard_receipt =
  gu_expires :: rat
  gu_remaining :: rat
  gu_ack :: json

definition training_guard ::
  "dict \<Rightarrow> dict \<Rightarrow> rat \<Rightarrow> rat \<Rightarrow> string \<Rightarrow> string \<Rightarrow> policy_arg option \<Rightarrow> guard_receipt result" where
  "training_guard snap gpu needed now profile model expected =
     (if \<not> py_eq (dget snap ''schema_version'') (JInt 2) \<or> dget snap ''serving_profile'' \<noteq> JStr profile \<or>
         dget snap ''model'' \<noteq> JStr model
      then Inl (ValueError ''Invalid native model guard snapshot'')
      else bindE (validate_training_controller \<lparr>cc_now = now, cc_required = needed, cc_expected = expected, cc_running = True,
               cc_fresh = True\<rparr> (dget gpu (controller_key profile)) model profile) (\<lambda>live.
      bindE (validate_training_controller \<lparr>cc_now = now, cc_required = needed, cc_expected = expected, cc_running = False,
               cc_fresh = False\<rparr> (dget snap (controller_key profile)) model profile) (\<lambda>old.
      bindE (training_controller_identity old True) (\<lambda>a.
      bindE (training_controller_identity live True) (\<lambda>b.
      if \<not> py_eq (JObj a) (JObj b)
      then Inl (ValueError ''Native model guard differs from freshly paired process or loaded policy'')
      else bindE (positive (dget (fields_of live) ''expires_unix'') ''native service expiry'') (\<lambda>x.
        Inr \<lparr>gu_expires = x, gu_remaining = x - now, gu_ack = dget (fields_of live) ''policy_ack''\<rparr>))))))"

definition observed_guard_ok :: "dict \<Rightarrow> bool" where
  "observed_guard_ok e \<longleftrightarrow> int_least 1 (dget e ''model_pid'') \<and> int_least 1 (dget e ''model_pid_start_ticks'') \<and>
     int_least 1 (dget e ''guard_pid'') \<and> int_least 1 (dget e ''guard_pid_start_ticks'') \<and> int_least 1 (dget e ''guard_max_seconds'')"

definition paired_identity :: "dict \<Rightarrow> dict \<Rightarrow> bool" where
  "paired_identity e gpu \<longleftrightarrow>
     list_all (\<lambda>k. py_eq (dget e k) (dget gpu k) \<and> map_of e k \<noteq> None)
       [''model_pid'', ''model_pid_start_ticks'', ''model_cmdline_sha256'']"

fun seconds_of :: "json \<Rightarrow> int" where
  "seconds_of (JInt i) = i"
| "seconds_of _ = 0"

definition observed_guard :: "dict \<Rightarrow> dict \<Rightarrow> rat \<Rightarrow> rat \<Rightarrow> guard_receipt result" where
  "observed_guard e gpu needed now =
     (if \<not> py_eq (dget e ''schema_version'') (JInt 1) \<or> dget e ''model'' \<noteq> JStr served_model_name
      then Inl (ValueError ''Invalid model guard observation'')
      else if \<not> paired_identity e gpu
      then Inl (ValueError ''Model guard observation does not match live paired API identity'')
      else if \<not> hash_text (dget e ''model_cmdline_sha256'') then Inl (ValueError ''Invalid model command hash'')
      else if \<not> observed_guard_ok e then Inl (ValueError ''Invalid observed guard process identity'')
      else bindE (positive (dget e ''guard_started_unix'') ''guard start'') (\<lambda>s.
      bindE (positive (dget e ''observed_unix'') ''guard observation'') (\<lambda>ob.
      let maximum = of_int (seconds_of (dget e ''guard_max_seconds'')); expires = s + maximum in
      if maximum < 1 \<or> maximum > 86400 \<or> ob < s \<or> now + 1 < ob \<or> 86400 < now - ob
      then Inl (ValueError ''Invalid observed guard lifetime'')
      else if expires - now < needed
      then Inl (ValueError ''Model guard remaining lifetime cannot cover unchanged task budgets'')
      else Inr \<lparr>gu_expires = expires, gu_remaining = expires - now, gu_ack = JNull\<rparr>)))"

definition guard_gate ::
  "dict \<Rightarrow> dict \<Rightarrow> rat \<Rightarrow> rat \<Rightarrow> string \<Rightarrow> string \<Rightarrow> policy_arg option \<Rightarrow> guard_receipt result" where
  "guard_gate e gpu needed now profile model expected =
     (if profile \<in> {''native-pytorch-v1'', ''vllm-training-v1''}
      then training_guard e gpu needed now profile model expected
      else if profile \<noteq> ''vllm-v1'' \<or> model \<noteq> served_model_name
      then Inl (ValueError ''Unsupported model guard profile'')
      else observed_guard e gpu needed now)"


section \<open>Properties\<close>

lemma identity_obj: "training_controller_identity v b = Inr d \<Longrightarrow> is_obj v"
  by (cases v) (simp_all add: training_controller_identity_def native_controller_identity_def pick_def)

definition proven_engine :: "policy_ref \<Rightarrow> dict \<Rightarrow> bool" where
  "proven_engine p e \<longleftrightarrow> engine_profile_ok e \<and> engine_geometry_ok p e \<and> secure_rpc e \<and>
     loaded_head_ok p e (fields_of (dget_default e ''loaded_trainable_tensors'' (JObj []))) \<and>
     (\<exists>w. dget e ''workers'' = JList [w] \<and> experts_ok (dget (fields_of w) ''moe_implementations'') \<and>
        process_ok (fields_of w) \<and> py_eq (dget (fields_of w) ''startup_adapter'') (dget e ''startup_adapter''))"

lemma one_worker_Some: "one_worker v = Some w \<Longrightarrow> v = JList [w]"
  by (auto simp: one_worker_def split: json.splits list.splits)

lemma validate_worker_proves:
  "validate_worker e w = Inr x \<Longrightarrow> experts_ok (dget (fields_of w) ''moe_implementations'') \<and> process_ok (fields_of w) \<and>
     py_eq (dget (fields_of w) ''startup_adapter'') (dget e ''startup_adapter'')"
  unfolding validate_worker_def Let_def guard_Inr_iff bindE_Inr_iff de_Morgan_disj not_not by blast

lemma validate_vllm_engine_proves:
  assumes "validate_vllm_engine v p = Inr x"
  shows "x = v \<and> is_obj v \<and> proven_engine p (fields_of v)"
proof -
  obtain w u where w: "one_worker (dget (fields_of v) ''workers'') = Some w" "validate_worker (fields_of v) w = Inr u"
    and r: "is_obj v" "engine_profile_ok (fields_of v)" "engine_geometry_ok p (fields_of v)" "secure_rpc (fields_of v)"
      "loaded_head_ok p (fields_of v) (fields_of (dget_default (fields_of v) ''loaded_trainable_tensors'' (JObj [])))"
      "Inr v = (Inr x :: json result)"
    using assms unfolding validate_vllm_engine_def Let_def guard_Inr_iff bindE_Inr_iff option_Inr_iff de_Morgan_disj not_not
    by - (elim exE conjE, rule that, assumption+)
  with validate_worker_proves [OF w(2)] one_worker_Some [OF w(1)] show ?thesis
    unfolding proven_engine_def by (simp only: sum.inject) blast
qed

text \<open>What a validated proof contains.\<close>

definition proven_controller :: "controller_check \<Rightarrow> string \<Rightarrow> string \<Rightarrow> dict \<Rightarrow> policy_ref \<Rightarrow> lifetime \<Rightarrow> bool" where
  "proven_controller k model profile d p t \<longleftrightarrow>
     controller_profile_ok d model profile \<and> native_process_ok d \<and> explicit_path (dget d ''model_dir'') \<and>
     python_name (dget d ''python_executable'') \<and> service_lifetime d = Inr t \<and> lifetime_ok (cc_now k) (cc_required k) (cc_fresh k) t \<and>
     sampler_state_ok (cc_running k) d \<and> policy_from_dict (dget_default d ''policy'' (JObj [])) = Inr p \<and>
     py_eq (dget d ''policy_ack'') (JObj [(''version'', JInt (version p)), (''digest'', JStr (digest p)), (''lineage'', JStr (lineage p))]) \<and>
     (\<exists>c. TrainingGenerationContract (Ref p) (dget d ''capabilities'') = Inr c) \<and>
     (profile = ''vllm-training-v1'' \<longrightarrow> proven_engine p (fields_of (dget d ''vllm_engine''))) \<and>
     expected_lease p (cc_expected k) = Inr ()"

lemma validate_training_controller_proves:
  assumes "validate_training_controller k v model profile = Inr x"
  shows "x = v \<and> is_obj v \<and> (\<exists>p t. proven_controller k model profile (fields_of v) p t)"
proof -
  obtain i t p c u u' where i: "training_controller_identity v True = Inr i"
    and r: "controller_profile_ok (fields_of v) model profile" "native_process_ok (fields_of v)" "explicit_path (dget (fields_of v) ''model_dir'')"
      "python_name (dget (fields_of v) ''python_executable'')" "service_lifetime (fields_of v) = Inr t"
      "lifetime_ok (cc_now k) (cc_required k) (cc_fresh k) t" "sampler_state_ok (cc_running k) (fields_of v)"
      "policy_from_dict (dget_default (fields_of v) ''policy'' (JObj [])) = Inr p"
      "py_eq (dget (fields_of v) ''policy_ack'') (JObj [(''version'', JInt (version p)), (''digest'', JStr (digest p)), (''lineage'', JStr (lineage p))])"
      "TrainingGenerationContract (Ref p) (dget (fields_of v) ''capabilities'') = Inr c"
    and e: "(if profile \<noteq> ''vllm-training-v1'' then Inr ()
             else bindE (bindE (dlookup (fields_of v) ''vllm_engine'') (\<lambda>e. validate_vllm_engine e p)) (\<lambda>_.
               if dget (fields_of (dget (fields_of v) ''capabilities'')) ''serving_profile'' \<noteq> JStr profile \<or>
                  dget (identities p) ''rollout_engine'' \<noteq> JStr ''vllm''
               then Inl (ValueError ''vLLM behavior identity or serving capabilities differ'') else Inr ())) = Inr u"
    and l: "expected_lease p (cc_expected k) = Inr u'" "Inr v = (Inr x :: json result)"
    using assms unfolding validate_training_controller_def Let_def guard_Inr_iff bindE_Inr_iff de_Morgan_disj not_not
    by - (elim exE conjE, rule that, assumption+)
  have "proven_engine p (fields_of (dget (fields_of v) ''vllm_engine''))" if "profile = ''vllm-training-v1''"
  proof -
    from e that obtain w x where "dlookup (fields_of v) ''vllm_engine'' = Inr w" "validate_vllm_engine w p = Inr x"
      by (auto simp only: bindE_Inr_iff if_not_P not_not simp_thms if_False)
    with validate_vllm_engine_proves [of w p x] dlookup_dget show ?thesis by metis
  qed
  moreover have "x = v" "expected_lease p (cc_expected k) = Inr ()" using l by simp_all
  ultimately have "proven_controller k model profile (fields_of v) p t" using r unfolding proven_controller_def by blast
  with \<open>x = v\<close> identity_obj [OF i] show ?thesis by blast
qed



lemma positive_pos: "positive v n = Inr q \<Longrightarrow> 0 < q"
  by (cases v rule: json.exhaust; cases "case v of JFloat f \<Rightarrow> f | _ \<Rightarrow> NaN")
    (auto simp: positive_def bindE_Inr_iff split: if_split_asm)

text \<open>
  The guard gate admits work only when the guard covers it: whatever the profile, an accepted guard
  lives at least the required seconds; and under a training profile the
  operator's snapshot and the live controller are both validated against the expected lease and have the
  same identity, process, policy and engine included.
\<close>

theorem guard_gate_covers:
  assumes "guard_gate e gpu needed now profile model expected = Inr r"
  shows "needed \<le> gu_remaining r \<and> gu_expires r = now + gu_remaining r \<and>
    (profile \<in> {''native-pytorch-v1'', ''vllm-training-v1''} \<longrightarrow>
      (\<exists>live old a b p q t s. validate_training_controller \<lparr>cc_now = now, cc_required = needed, cc_expected = expected,
           cc_running = True, cc_fresh = True\<rparr> (dget gpu (controller_key profile)) model profile = Inr live \<and>
         proven_controller \<lparr>cc_now = now, cc_required = needed, cc_expected = expected, cc_running = True, cc_fresh = True\<rparr>
           model profile (fields_of live) p t \<and>
         proven_controller \<lparr>cc_now = now, cc_required = needed, cc_expected = expected, cc_running = False, cc_fresh = False\<rparr>
           model profile (fields_of old) q s \<and> old = dget e (controller_key profile) \<and>
         training_controller_identity old True = Inr a \<and> training_controller_identity live True = Inr b \<and>
         py_eq (JObj a) (JObj b)))"
proof (cases "profile \<in> {''native-pytorch-v1'', ''vllm-training-v1''}")
  case True
  let ?k = "\<lparr>cc_now = now, cc_required = needed, cc_expected = expected, cc_running = True, cc_fresh = True\<rparr>"
  let ?k' = "\<lparr>cc_now = now, cc_required = needed, cc_expected = expected, cc_running = False, cc_fresh = False\<rparr>"
  from assms True have g: "training_guard e gpu needed now profile model expected = Inr r" by (simp only: guard_gate_def if_True)
  then obtain live old a b x where v: "validate_training_controller ?k (dget gpu (controller_key profile)) model profile = Inr live"
    "validate_training_controller ?k' (dget e (controller_key profile)) model profile = Inr old"
    "training_controller_identity old True = Inr a" "training_controller_identity live True = Inr b" "py_eq (JObj a) (JObj b)"
    "positive (dget (fields_of live) ''expires_unix'') ''native service expiry'' = Inr x"
    "Inr \<lparr>gu_expires = x, gu_remaining = x - now, gu_ack = dget (fields_of live) ''policy_ack''\<rparr> = (Inr r :: guard_receipt result)"
    unfolding training_guard_def guard_Inr_iff bindE_Inr_iff de_Morgan_disj not_not by - (elim exE conjE, rule that, assumption+)
  from validate_training_controller_proves [OF v(1)] validate_training_controller_proves [OF v(2)]
  obtain p t q s where pr: "live = dget gpu (controller_key profile)" "proven_controller ?k model profile (fields_of live) p t"
    "old = dget e (controller_key profile)" "proven_controller ?k' model profile (fields_of old) q s" by metis
  from pr(2) have l: "service_lifetime (fields_of live) = Inr t" "lifetime_ok now needed True t"
    unfolding proven_controller_def by simp_all
  have "lt_expires t = x" using l(1) v(6) by (auto simp: service_lifetime_def bindE_Inr_iff)
  then have "needed \<le> gu_remaining r \<and> gu_expires r = now + gu_remaining r" using l(2) v(7) by (auto simp: lifetime_ok_def)
  with v(1,3,4,5) pr show ?thesis by blast
next
  case False
  then have "observed_guard e gpu needed now = Inr r" using assms unfolding guard_gate_def if_not_P [OF False] guard_Inr_iff by blast
  then have "needed \<le> gu_remaining r \<and> gu_expires r = now + gu_remaining r"
    unfolding observed_guard_def guard_Inr_iff bindE_Inr_iff Let_def by (elim exE conjE) auto
  with False show ?thesis by blast
qed


section \<open>Witnesses\<close>

definition sv_hex :: json where
  "sv_hex = JStr (replicate 64 CHR ''0'')"

definition sv_policy :: "dict \<Rightarrow> json" where
  "sv_policy idents = JObj [(''version'', JInt 1), (''digest'', sv_hex), (''lineage'', JStr ''l''),
     (''identities'', JObj ([(''tokenizer_sha256'', sv_hex), (''chat_template_sha256'', sv_hex)] @ idents)),
     (''sampling'', JObj (full_sampling 1))]"

definition sv_ack :: json where
  "sv_ack = JObj [(''version'', JInt 1), (''digest'', sv_hex), (''lineage'', JStr ''l'')]"

definition sv_controller :: "string \<Rightarrow> dict \<Rightarrow> dict \<Rightarrow> json" where
  "sv_controller profile idents engine = JObj
     ([(''schema_version'', JInt 1), (''serving_profile'', JStr profile), (''served_model'', JStr ''m''), (''model_pid'', JInt 9),
       (''model_pid_start_ticks'', JInt 8), (''model_cmdline_sha256'', sv_hex), (''generation_slots'', JInt 1),
       (''started_unix'', JInt 100), (''expires_unix'', JInt 1000), (''observed_unix'', JInt 110), (''model_dir'', JStr ''/models/q''),
       (''python_executable'', JStr ''/usr/bin/python3''), (''netns_inode'', JInt 7), (''controller_state'', JStr ''running''),
       (''active_generations'', JInt 0), (''policy'', sv_policy idents), (''policy_ack'', sv_ack),
       (''capabilities'', JObj [(''schema_version'', JInt 1), (''token_ids'', JBool True), (''sampled_token_logprobs'', JBool True),
          (''loaded_policy_identity'', JBool True), (''request_response_binding'', JBool True), (''full_categorical'', JBool True),
          (''logprob_convention'', JStr ''sampled_distribution''), (''policy'', sv_policy idents), (''serving_profile'', JStr profile)])]
      @ engine)"

definition sv_adapter :: json where
  "sv_adapter = JObj ((''applied_count'', JInt 1) # startup_adapter)"

definition sv_worker :: json where
  "sv_worker = JObj [(''pid'', JInt 5), (''start_ticks'', JInt 6), (''cmdline_sha256'', sv_hex), (''device'', JStr ''cuda:0''),
     (''device_uuid'', JStr ''u''), (''kernel_config'', JObj kernel_config), (''startup_adapter'', sv_adapter),
     (''worker_rpc_method'', JStr ''rollout_manager_owned_call''), (''insecure_serialization'', JBool False),
     (''moe_implementations'', JList [JObj [(''module'', JStr ''x''), (''backend'', JStr ''TRITON''),
        (''selected_experts_class'', JStr expert_class), (''experts_class'', JStr expert_class)]]),
     (''graph'', JObj [(''captured_graph_count'', JInt 1), (''replay_calls'', JInt 0)])]"

definition sv_engine :: json where
  "sv_engine = JObj [(''schema_version'', JInt 1), (''version'', JStr ''0.31.0''), (''serving_profile'', JStr ''vllm-training-v1''),
     (''tensor_parallel_size'', JInt 1), (''logprobs_mode'', JStr ''processed_logprobs''), (''prefix_caching'', JBool False),
     (''enforce_eager'', JBool False), (''cudagraph_capture_sizes'', JList [JInt 1]), (''compilation_mode'', JInt 0),
     (''cudagraph_mode'', JStr ''FULL_DECODE_ONLY''), (''kv_cache_memory_bytes'', JInt vllm_kv_cache_memory_bytes),
     (''max_model_len'', JInt 16), (''gpu_memory_utilization'', JFloat (Fin gpu_memory_utilization)),
     (''kv_bytes_per_token'', JInt kv_bytes_per_token), (''full_context_raw_kv_bytes'', JInt (16 * kv_bytes_per_token)),
     (''kernel_config'', JObj kernel_config), (''startup_adapter'', sv_adapter),
     (''worker_rpc_method'', JStr ''rollout_manager_owned_call''), (''insecure_serialization'', JBool False),
     (''actor_process'', JObj [(''pid'', JInt 3), (''start_ticks'', JInt 4), (''cmdline_sha256'', sv_hex)]),
     (''loaded_policy_ack'', sv_ack),
     (''loaded_trainable_tensors'', JObj [(''sha256'', sv_hex), (''parameter_names'', JList [JStr ''backend.lm_head.weight'']),
        (''dtype'', JStr ''torch.bfloat16''), (''shape'', JList [JInt 2, JInt 3])]),
     (''workers'', JList [sv_worker])]"

definition sv_vllm :: json where
  "sv_vllm = sv_controller ''vllm-training-v1'' (vllm_fixed_identities @ [(''vllm_max_model_len'', JStr ''16'')])
     [(''vllm_engine'', sv_engine)]"

definition sv_check :: controller_check where
  "sv_check = \<lparr>cc_now = 115, cc_required = 60, cc_expected = None, cc_running = True, cc_fresh = True\<rparr>"

lemma sv_vllm_ok: "case validate_training_controller sv_check sv_vllm ''m'' ''vllm-training-v1'' of Inr _ \<Rightarrow> True | Inl _ \<Rightarrow> False"
  by code_simp


definition sv_native :: json where
  "sv_native = sv_controller ''native-pytorch-v1'' [] []"

definition sv_evidence :: dict where
  "sv_evidence = [(''schema_version'', JInt 2), (''serving_profile'', JStr ''native-pytorch-v1''), (''model'', JStr ''m''),
     (''native_controller'', sv_native)]"

lemma sv_guard_ok:
  "case guard_gate sv_evidence [(''native_controller'', sv_native)] 60 115 ''native-pytorch-v1'' ''m'' None of
     Inr r \<Rightarrow> True | Inl _ \<Rightarrow> False"
  by code_simp

lemma guard_gate_covers_witness:
  "\<exists>r. guard_gate sv_evidence [(''native_controller'', sv_native)] 60 115 ''native-pytorch-v1'' ''m'' None = Inr r \<and>
     60 \<le> gu_remaining r"
proof -
  obtain r where r: "guard_gate sv_evidence [(''native_controller'', sv_native)] 60 115 ''native-pytorch-v1'' ''m'' None = Inr r"
    using sv_guard_ok by (auto split: sum.splits)
  from guard_gate_covers [OF r] r show ?thesis by blast
qed

end
