(* ===== verification/Coordinator_Stream.thy ===== *)
theory Coordinator_Stream
  imports Coordinator_Run Transition
begin

text \<open>
  The persistent stream of \<^verbatim>\<open>rollout_manager/coordinator.py\<close>: \<^verbatim>\<open>open_stream\<close>, \<^verbatim>\<open>pause_stream\<close>,
  \<^verbatim>\<open>resume_stream\<close>, \<^verbatim>\<open>execute_stream_group\<close> and \<^verbatim>\<open>close_stream\<close>. Calls of
  \<^verbatim>\<open>execute_stream_group\<close> overlap, and every group runs one task per episode, so the coroutines are
  cut at their suspension points: each step is the code between two awaits, and any order of steps
  is a run of the event loop. A group task is its stage, an episode task its phase, and the two
  semaphores are counters of what is left; an unlocked semaphore may go to any waiter. Waiting on
  the condition is a step that leaves the state as it is while the awaited test fails. What a
  backend or a cancelling caller decides is the argument of the step.
\<close>

section \<open>State\<close>

datatype episode_phase =
    Ep_waiting
  | Ep_worker
  | Ep_running
  | Ep_result episode_result
  | Ep_raised string string

text \<open>\<open>Wave_ready off done\<close> is the head of the wave loop; \<open>Episodes None\<close> is a group without wave
  hooks, \<open>Episodes (Some (off, done))\<close> a wave whose capacity the group holds.\<close>

datatype group_stage =
    Queued
  | Wave_ready nat "episode_result list"
  | Wave_admitting nat "episode_plan list" "episode_result list"
  | Episodes "(nat \<times> episode_result list) option" "episode_plan list" "episode_phase list"
  | Wave_closing nat "episode_plan list" "episode_result list" "episode_result list"
  | Group_done "episode_result list result"

record stream_group =
  sg_sequence :: int
  sg_plans :: "episode_plan list"
  sg_stage :: group_stage

record stream =
  sco :: coordinator
  st_opened :: bool
  st_token :: cancellation_token
  st_pending_limit :: int
  st_pending :: int
  st_workers :: int
  st_groups :: int
  st_tasks :: "stream_group list"
  st_started :: "nat list"
  st_stage_owners :: "string \<rightharpoonup> nat"
  st_paused :: bool
  st_closed :: bool
  st_sequence :: int
  st_run_id :: "string option"
  st_log :: "(string \<times> episode_identity option) list"
  st_written :: "episode_result list"

text \<open>The backend mapping in its order, an object being a number, and whether a backend has a
  callable \<^verbatim>\<open>admit_group\<close>.\<close>

record stream_env =
  backend_items :: "(string \<times> nat) list"
  has_admit_group :: "nat \<Rightarrow> bool"

definition plan_res :: "episode_plan \<Rightarrow> resources" where
  "plan_res p = ts_resources (plan_task p)"

definition stream_event :: "string \<Rightarrow> episode_plan option \<Rightarrow> stream \<Rightarrow> stream" where
  "stream_event name p s = s\<lparr>st_log := st_log s @ [(name, map_option plan_identity p)]\<rparr>"

definition cancel_stream :: "string \<Rightarrow> stream \<Rightarrow> stream" where
  "cancel_stream why s = s\<lparr>st_token := cancel why (st_token s)\<rparr>"

definition stream_stopped :: "stream \<Rightarrow> bool" where
  "stream_stopped s \<longleftrightarrow> cancelled (st_token s)"

definition find_group :: "int \<Rightarrow> stream \<Rightarrow> stream_group option" where
  "find_group q s = find (\<lambda>g. sg_sequence g = q) (st_tasks s)"

definition set_stage :: "int \<Rightarrow> group_stage \<Rightarrow> stream \<Rightarrow> stream" where
  "set_stage q st s =
     s\<lparr>st_tasks := map (\<lambda>g. if sg_sequence g = q then g\<lparr>sg_stage := st\<rparr> else g) (st_tasks s)\<rparr>"

definition charge_all :: "rat \<Rightarrow> episode_plan list \<Rightarrow> coordinator \<Rightarrow> coordinator" where
  "charge_all x ps c = foldl (\<lambda>c p. charge x (plan_res p) c) c ps"

definition quarantine_all :: "episode_plan list \<Rightarrow> coordinator \<Rightarrow> coordinator" where
  "quarantine_all ps c = foldl (\<lambda>c p. quarantine (plan_res p) c) c ps"

section \<open>Opening, pausing and ending\<close>

datatype open_outcome =
    Opened
  | Open_refused exn
  | Start_raised string string
  | Start_cancelled
  | Start_unclosed "string list"

definition fresh_stream :: "coordinator \<Rightarrow> int \<Rightarrow> cancellation_token \<Rightarrow> stream" where
  "fresh_stream c limit tok =
     \<lparr>sco = c\<lparr>coordinator_used := True\<rparr>, st_opened = True, st_token = tok, st_pending_limit = limit,
      st_pending = 0, st_workers = max_workers c, st_groups = max_groups c, st_tasks = [],
      st_started = [], st_stage_owners = Map.empty, st_paused = False, st_closed = False,
      st_sequence = -1, st_run_id = None, st_log = [], st_written = []\<rparr>"

text \<open>A coordinator that was never opened as a stream.\<close>

definition unopened :: "coordinator \<Rightarrow> stream" where
  "unopened c = (fresh_stream c 0 new_token)\<lparr>sco := c, st_opened := False\<rparr>"

fun start_stream :: "(nat \<Rightarrow> hook_outcome) \<Rightarrow> (string \<times> nat) list \<Rightarrow> stream \<Rightarrow> stream \<times> hook_outcome" where
  "start_stream hook [] s = (s, Hook_ok)"
| "start_stream hook ((name, b) # bs) s =
     (if b \<in> set (st_started s) then start_stream hook bs s
      else let s = s\<lparr>st_started := st_started s @ [b]\<rparr> in
        case hook b of Hook_ok \<Rightarrow> start_stream hook bs s | failure \<Rightarrow> (s, failure))"

definition pause_begin :: "stream \<Rightarrow> stream" where
  "pause_begin s = s\<lparr>st_paused := True\<rparr>"

definition pause_end :: "stream \<Rightarrow> stream" where
  "pause_end s = (if st_tasks s = [] then stream_event ''stream_paused'' None s else s)"

definition pause_waiter_cancelled :: "stream \<Rightarrow> stream" where
  "pause_waiter_cancelled s =
     (if st_tasks s = [] then s else cancel_stream ''stream_pause_waiter_cancelled'' s)"

definition resume_stream :: "stream \<Rightarrow> stream \<times> unit result" where
  "resume_stream s =
     (if st_closed s \<or> stream_stopped s
      then (s, Inl (RuntimeError ''stream is closed or admission is stopped''))
      else (stream_event ''stream_resumed'' None (s\<lparr>st_paused := False\<rparr>), Inr ()))"

text \<open>One backend's \<^verbatim>\<open>close\<close>: whether the waiter was cancelled meanwhile, and how the hook ended. A
  cancelled hook also reaches the waiter as a cancellation.\<close>

definition close_one :: "bool \<times> hook_outcome \<Rightarrow> stream \<Rightarrow> stream \<times> string option" where
  "close_one wh s =
     (let s = (if fst wh \<or> snd wh = Hook_cancelled then cancel_stream ''stream_close_waiter_cancelled'' s else s)
      in (s, case snd wh of
               Hook_ok \<Rightarrow> None
             | Hook_raised ty msg \<Rightarrow> Some (ty @ '': '' @ msg)
             | Hook_cancelled \<Rightarrow> Some ''CancelledError: ''))"

fun close_started :: "(nat \<Rightarrow> bool \<times> hook_outcome) \<Rightarrow> nat list \<Rightarrow> stream \<Rightarrow> stream \<times> string list" where
  "close_started ending [] s = (s, [])"
| "close_started ending (b # bs) s =
     (case close_one (ending b) s of (s, failure) \<Rightarrow>
      case close_started ending bs s of (s, failures) \<Rightarrow>
        (s, (case failure of None \<Rightarrow> failures | Some f \<Rightarrow> f # failures)))"

definition close_begin :: "stream \<Rightarrow> stream" where
  "close_begin s = (if \<not> st_opened s \<or> st_closed s then s else pause_begin s)"

definition close_end :: "(nat \<Rightarrow> bool \<times> hook_outcome) \<Rightarrow> stream \<Rightarrow> stream \<times> string list" where
  "close_end ending s =
     (if st_tasks s \<noteq> [] then (s, [])
      else case close_started ending (rev (st_started s)) ((pause_end s)\<lparr>st_closed := True\<rparr>) of
        (s, failures) \<Rightarrow>
          if failures = [] then (stream_event ''stream_closed'' None s, [])
          else (s\<lparr>sco := (sco s)\<lparr>lifecycle_failures := lifecycle_failures (sco s) @ failures\<rparr>\<rparr>, failures))"

definition open_stream ::
  "stream_env \<Rightarrow> coordinator \<Rightarrow> json \<Rightarrow> cancellation_token \<Rightarrow> (nat \<Rightarrow> hook_outcome) \<Rightarrow>
   (nat \<Rightarrow> bool \<times> hook_outcome) \<Rightarrow> stream \<times> open_outcome" where
  "open_stream env c max_pending tok hook ending =
     (case max_pending of
        JInt n \<Rightarrow>
          if coordinator_used c \<or> n < 1
          then (unopened c, Open_refused (ValueError ''coordinator is single-use and stream capacity must be positive''))
          else (case start_stream hook (backend_items env) (fresh_stream c n tok) of
            (s, Hook_ok) \<Rightarrow> (stream_event ''stream_started'' None s, Opened)
          | (s, failure) \<Rightarrow>
              (case close_end ending (close_begin s) of (s, failures) \<Rightarrow>
                (s, if failures \<noteq> [] then Start_unclosed failures
                    else case failure of Hook_raised ty msg \<Rightarrow> Start_raised ty msg | _ \<Rightarrow> Start_cancelled)))
      | _ \<Rightarrow> (unopened c, Open_refused (ValueError ''coordinator is single-use and stream capacity must be positive'')))"

section \<open>Submitting a group\<close>

text \<open>The loop over the plans. The owner of a backend-stage executor is recorded as the loop goes,
  so a refused group leaves what it recorded before the refusal.\<close>

fun check_stream_plans ::
  "stream_env \<Rightarrow> coordinator \<Rightarrow> episode_plan list \<Rightarrow> (string \<rightharpoonup> nat) \<Rightarrow> (string \<rightharpoonup> nat) \<times> unit result" where
  "check_stream_plans env c [] owners = (owners, Inr ())"
| "check_stream_plans env c (p # ps) owners =
     (case map_of (backend_items env) (ts_benchmark (plan_task p)) of
        None \<Rightarrow> (owners, Inl (ValueError (''no backend registered for '' @ ts_benchmark (plan_task p))))
      | Some b \<Rightarrow>
          let r = plan_res p;
              owner = (case owners (executor r) of None \<Rightarrow> b | Some o' \<Rightarrow> o');
              owners = (if backend_stage r then owners(executor r \<mapsto> owner) else owners)
          in if backend_stage r \<and> owner \<noteq> b
             then (owners, Inl (ValueError ''backend-stage executor requires one authoritative backend owner''))
             else if exceeds_capacity c r
             then (owners, Inl (ValueError ''episode exceeds executor capacity''))
             else check_stream_plans env c ps owners)"

definition submit_group ::
  "stream_env \<Rightarrow> episode_plan list \<Rightarrow> json \<Rightarrow> stream \<Rightarrow> stream \<times> unit result" where
  "submit_group env plans seq s =
     (if \<not> st_opened s \<or> st_closed s \<or> st_paused s
      then (s, Inl (ValueError ''stream admission is unavailable''))
      else case seq of
        JInt q \<Rightarrow>
          if q \<le> st_sequence s \<or> plans = [] \<or> \<not> distinct (map plan_identity plans) \<or>
             length (remdups (map group_of plans)) \<noteq> 1
          then (s, Inl (ValueError ''stream requires a new monotonic sequence and one unique complete group''))
          else if list_ex (\<lambda>p. run_id (plan_identity p) \<noteq> run_id (plan_identity (hd plans))) plans \<or>
             st_run_id s \<notin> {None, Some (run_id (plan_identity (hd plans)))}
          then (s, Inl (ValueError ''a stream cannot combine run identities''))
          else if st_pending s + int (length plans) > st_pending_limit s
          then (s, Inl (ValueError ''bounded stream input credit exhausted''))
          else (case check_stream_plans env (sco s) plans (st_stage_owners s) of
            (owners, Inl e) \<Rightarrow> (s\<lparr>st_stage_owners := owners\<rparr>, Inl e)
          | (owners, Inr _) \<Rightarrow>
              (s\<lparr>st_stage_owners := owners, st_sequence := q,
                 st_run_id := Some (run_id (plan_identity (hd plans))),
                 st_pending := st_pending s + int (length plans),
                 st_tasks := st_tasks s @ [\<lparr>sg_sequence = q, sg_plans = plans, sg_stage = Queued\<rparr>]\<rparr>, Inr ()))
      | _ \<Rightarrow> (s, Inl (ValueError ''stream requires a new monotonic sequence and one unique complete group'')))"

section \<open>The group task\<close>

definition finish_stream_group :: "int \<Rightarrow> episode_result list result \<Rightarrow> stream \<Rightarrow> stream" where
  "finish_stream_group q out s =
     (set_stage q (Group_done out) s)
       \<lparr>st_groups := st_groups s + 1,
        st_written := (case out of Inl _ \<Rightarrow> st_written s | Inr rs \<Rightarrow> st_written s @ rs)\<rparr>"

definition wave_hooks :: "stream_env \<Rightarrow> coordinator \<Rightarrow> string \<Rightarrow> bool" where
  "wave_hooks env c bench \<longleftrightarrow> policy c = ''terminal-waves'' \<or>
     (case map_of (backend_items env) bench of None \<Rightarrow> False | Some b \<Rightarrow> has_admit_group env b)"

definition begin_group :: "stream_env \<Rightarrow> int \<Rightarrow> stream \<Rightarrow> stream" where
  "begin_group env q s =
     (case find_group q s of
        None \<Rightarrow> s
      | Some g \<Rightarrow> (case sg_stage g of Queued \<Rightarrow>
          if st_groups s < 1 then s
          else let s = s\<lparr>st_groups := st_groups s - 1\<rparr>; bench = ts_benchmark (plan_task (hd (sg_plans g))) in
            if list_ex (\<lambda>p. ts_benchmark (plan_task p) \<noteq> bench) (sg_plans g)
            then finish_stream_group q (Inl (ValueError ''one streamed semantic group requires one backend'')) s
            else if wave_hooks env (sco s) bench then set_stage q (Wave_ready 0 []) s
            else set_stage q (Episodes None (sg_plans g) (replicate (length (sg_plans g)) Ep_waiting)) s
      | _ \<Rightarrow> s))"

fun select_wave :: "coordinator \<Rightarrow> episode_plan list \<Rightarrow> episode_plan list \<Rightarrow> episode_plan list" where
  "select_wave c sel [] = sel"
| "select_wave c sel (p # ps) =
     (if fits_capacity c (map plan_res (sel @ [p])) then select_wave c (sel @ [p]) ps else sel)"

text \<open>The head of the wave loop up to the admission hook. The selection only depends on the
  capacities, so a pass that waits and comes back makes it again.\<close>

definition next_wave :: "int \<Rightarrow> stream \<Rightarrow> stream" where
  "next_wave q s =
     (case find_group q s of
        None \<Rightarrow> s
      | Some g \<Rightarrow> (case sg_stage g of Wave_ready off rs \<Rightarrow>
          if off \<ge> length (sg_plans g) then finish_stream_group q (Inr rs) s
          else if stream_stopped s
          then finish_stream_group q
                 (Inr (rs @ map (\<lambda>p. not_admitted p (or_else (reason (st_token s)) ''cancelled'')) (drop off (sg_plans g)))) s
          else let sel = select_wave (sco s) [] (take (nat (max_workers (sco s))) (drop off (sg_plans g))) in
            if sel = []
            then finish_stream_group q (Inl (ValueError ''one streamed episode exceeds physical wave capacity'')) s
            else if \<not> wave_fits (sco s) (map plan_res sel) then s
            else set_stage q (Wave_admitting off sel rs) (s\<lparr>sco := charge_all 1 sel (sco s)\<rparr>)
      | _ \<Rightarrow> s))"

definition reopened_result :: "json \<Rightarrow> episode_result \<Rightarrow> episode_result" where
  "reopened_result closure r =
     r\<lparr>cleanup_state := ''unknown'', score_eligible := False,
       request_state := JObj [(''state'', JStr ''group_closure_unknown''), (''original'', request_state r),
                              (''closure'', closure)],
       native_outcome := dset (native_outcome r) ''group_closure'' closure\<rparr>"

text \<open>The end of a wave, from the observed results and the closure.\<close>

definition settle_wave ::
  "int \<Rightarrow> nat \<Rightarrow> episode_plan list \<Rightarrow> episode_result list \<Rightarrow> episode_result list \<Rightarrow> json \<Rightarrow> stream \<Rightarrow> stream" where
  "settle_wave q off sel observed rs closure s =
     (let safe = (list_all safe_result observed \<and> \<not> request_uncertain closure);
          s = s\<lparr>sco := (if safe then charge_all (- 1) sel (sco s) else quarantine_all sel (sco s))\<rparr>;
          s = (if safe then s else cancel_stream ''stream_group_closure_unproven'' s);
          observed = (if safe then observed else map (reopened_result closure) observed)
      in set_stage q (Wave_ready (off + length sel) (rs @ observed))
           (stream_event ''group_finished'' (Some (hd sel)) s))"

definition hook_error :: "hook_outcome \<Rightarrow> string" where
  "hook_error h = (case h of Hook_raised ty msg \<Rightarrow> ty | _ \<Rightarrow> ''CancelledError'')"

definition wave_admitted :: "int \<Rightarrow> hook_outcome \<Rightarrow> stream \<Rightarrow> stream" where
  "wave_admitted q hook s =
     (case find_group q s of
        None \<Rightarrow> s
      | Some g \<Rightarrow> (case sg_stage g of Wave_admitting off sel rs \<Rightarrow>
          if hook = Hook_ok
          then set_stage q (Episodes (Some (off, rs)) sel (replicate (length sel) Ep_waiting)) s
          else settle_wave q off sel (map (\<lambda>p. unresolved p (''group admission: '' @ hook_error hook)) sel) rs
                 (closure_value (Closure_raised (hook_error hook)))
                 (cancel_stream ''stream_group_admission_failure'' s)
      | _ \<Rightarrow> s))"

definition wave_closed :: "int \<Rightarrow> closure_outcome \<Rightarrow> stream \<Rightarrow> stream" where
  "wave_closed q closure s =
     (case find_group q s of
        None \<Rightarrow> s
      | Some g \<Rightarrow> (case sg_stage g of Wave_closing off sel observed rs \<Rightarrow>
          settle_wave q off sel observed rs (closure_value closure) s
      | _ \<Rightarrow> s))"

section \<open>The episode tasks\<close>

definition set_phase ::
  "int \<Rightarrow> (nat \<times> episode_result list) option \<Rightarrow> episode_plan list \<Rightarrow> episode_phase list \<Rightarrow>
   nat \<Rightarrow> episode_phase \<Rightarrow> stream \<Rightarrow> stream" where
  "set_phase q w sel phases i ph s = set_stage q (Episodes w sel (phases[i := ph])) s"

definition take_worker :: "int \<Rightarrow> nat \<Rightarrow> stream \<Rightarrow> stream" where
  "take_worker q i s =
     (case find_group q s of
        None \<Rightarrow> s
      | Some g \<Rightarrow> (case sg_stage g of Episodes w sel phases \<Rightarrow>
          if i < length phases \<and> phases ! i = Ep_waiting \<and> st_workers s \<ge> 1
          then (set_phase q w sel phases i Ep_worker s)\<lparr>st_workers := st_workers s - 1\<rparr>
          else s
      | _ \<Rightarrow> s))"

definition admit_episode :: "int \<Rightarrow> nat \<Rightarrow> stream \<Rightarrow> stream" where
  "admit_episode q i s =
     (case find_group q s of
        None \<Rightarrow> s
      | Some g \<Rightarrow> (case sg_stage g of Episodes w sel phases \<Rightarrow>
          if \<not> (i < length phases \<and> phases ! i = Ep_worker) then s
          else if stream_stopped s
          then (set_phase q w sel phases i (Ep_result (not_admitted (sel ! i) ''stream admission stopped'')) s)
                 \<lparr>st_workers := st_workers s + 1\<rparr>
          else if w = None \<and> \<not> fits (sco s) (plan_res (sel ! i)) then s
          else set_phase q w sel phases i Ep_running
                 (stream_event ''episode_admitted'' (Some (sel ! i))
                   (if w = None then s\<lparr>sco := charge 1 (plan_res (sel ! i)) (sco s)\<rparr> else s))
      | _ \<Rightarrow> s))"

text \<open>A finished backend call: the ledger, the token, the log and the worker. \<open>log_error\<close> is the
  exception of a failing event store, raised after the ledger was settled.\<close>

definition settle_episode ::
  "bool \<Rightarrow> episode_plan \<Rightarrow> episode_result \<Rightarrow> stream \<Rightarrow> stream" where
  "settle_episode owned p r s =
     (let s = (if safe_result r
               then (if owned then s else s\<lparr>sco := charge (- 1) (plan_res p) (sco s)\<rparr>)
               else cancel_stream ''stream_cleanup_or_request_unproven''
                      (if owned then s else s\<lparr>sco := quarantine (plan_res p) (sco s)\<rparr>));
          s = (if failure_category r \<in> {Some ''infrastructure'', Some ''infrastructure_error''}
               then cancel_stream ''stream_infrastructure_failure'' s else s)
      in if verification_state r = ''review_required''
         then cancel_stream ''stream_verifier_review_required'' s else s)"

definition finish_episode ::
  "int \<Rightarrow> nat \<Rightarrow> exec_outcome \<Rightarrow> (string \<times> string) option \<Rightarrow> stream \<Rightarrow> stream" where
  "finish_episode q i out log_error s =
     (case find_group q s of
        None \<Rightarrow> s
      | Some g \<Rightarrow> (case sg_stage g of Episodes w sel phases \<Rightarrow>
          if \<not> (i < length phases \<and> phases ! i = Ep_running) then s
          else let r = execute_episode (sel ! i) out;
                   s = settle_episode (w \<noteq> None) (sel ! i) r s;
                   s = s\<lparr>st_workers := st_workers s + 1\<rparr>
            in (case log_error of
                  None \<Rightarrow> set_phase q w sel phases i (Ep_result r)
                            (stream_event ''episode_finished'' (Some (sel ! i)) s)
                | Some (ty, msg) \<Rightarrow> set_phase q w sel phases i (Ep_raised ty msg) s)
      | _ \<Rightarrow> s))"

fun phase_done :: "episode_phase \<Rightarrow> bool" where
  "phase_done (Ep_result r) = True"
| "phase_done (Ep_raised ty msg) = True"
| "phase_done _ = False"

fun collected :: "episode_plan \<Rightarrow> episode_phase \<Rightarrow> episode_result" where
  "collected p (Ep_result r) = r"
| "collected p (Ep_raised ty msg) = unresolved p (ty @ '': '' @ msg)"
| "collected p _ = unresolved p []"

text \<open>\<^verbatim>\<open>collect\<close>: the gathered outcomes of all episode tasks, in the order of the plans.\<close>

definition collect_group :: "int \<Rightarrow> stream \<Rightarrow> stream" where
  "collect_group q s =
     (case find_group q s of
        None \<Rightarrow> s
      | Some g \<Rightarrow> (case sg_stage g of Episodes w sel phases \<Rightarrow>
          if \<not> list_all phase_done phases then s
          else let observed = map2 collected sel phases;
                   s = (if list_ex (\<lambda>ph. case ph of Ep_raised _ _ \<Rightarrow> True | _ \<Rightarrow> False) phases
                        then cancel_stream ''stream_infrastructure_failure'' s else s)
            in (case w of
                  None \<Rightarrow> finish_stream_group q (Inr observed) s
                | Some (off, rs) \<Rightarrow> set_stage q (Wave_closing off sel observed rs) s)
      | _ \<Rightarrow> s))"

section \<open>The waiting caller\<close>

definition waiter_cancelled :: "int \<Rightarrow> stream \<Rightarrow> stream" where
  "waiter_cancelled q s =
     (case find_group q s of None \<Rightarrow> s | Some g \<Rightarrow> cancel_stream ''stream_waiter_cancelled'' s)"

definition return_group :: "int \<Rightarrow> stream \<Rightarrow> stream \<times> episode_result list result option" where
  "return_group q s =
     (case find_group q s of
        None \<Rightarrow> (s, None)
      | Some g \<Rightarrow> (case sg_stage g of Group_done out \<Rightarrow>
          (s\<lparr>st_tasks := filter (\<lambda>g. sg_sequence g \<noteq> q) (st_tasks s),
             st_pending := st_pending s - int (length (sg_plans g))\<rparr>, Some out)
      | _ \<Rightarrow> (s, None)))"

section \<open>Runs of the stream\<close>

datatype stream_op =
    Submit "episode_plan list" json
  | Begin int
  | Next_wave int
  | Wave_admitted int hook_outcome
  | Take_worker int nat
  | Admit_episode int nat
  | Finish_episode int nat exec_outcome "(string \<times> string) option"
  | Collect int
  | Wave_closed int closure_outcome
  | Waiter_cancelled int
  | Return_group int
  | Cancel string
  | Pause_begin
  | Pause_cancelled
  | Pause_end
  | Resume
  | Close_begin
  | Close_end "nat \<Rightarrow> bool \<times> hook_outcome"

fun stream_step :: "stream_env \<Rightarrow> stream_op \<Rightarrow> stream \<Rightarrow> stream" where
  "stream_step env (Submit plans seq) s = fst (submit_group env plans seq s)"
| "stream_step env (Begin q) s = begin_group env q s"
| "stream_step env (Next_wave q) s = next_wave q s"
| "stream_step env (Wave_admitted q h) s = wave_admitted q h s"
| "stream_step env (Take_worker q i) s = take_worker q i s"
| "stream_step env (Admit_episode q i) s = admit_episode q i s"
| "stream_step env (Finish_episode q i out e) s = finish_episode q i out e s"
| "stream_step env (Collect q) s = collect_group q s"
| "stream_step env (Wave_closed q c) s = wave_closed q c s"
| "stream_step env (Waiter_cancelled q) s = waiter_cancelled q s"
| "stream_step env (Return_group q) s = fst (return_group q s)"
| "stream_step env (Cancel why) s = cancel_stream why s"
| "stream_step env Pause_begin s = pause_begin s"
| "stream_step env Pause_cancelled s = pause_waiter_cancelled s"
| "stream_step env Pause_end s = pause_end s"
| "stream_step env Resume s = fst (resume_stream s)"
| "stream_step env Close_begin s = close_begin s"
| "stream_step env (Close_end ending) s = fst (close_end ending s)"

end
