(* ===== verification/Coordinator_Stream_Safety.thy ===== *)
theory Coordinator_Stream_Safety
  imports Coordinator_Stream Coordinator_Ledger
begin

text \<open>
  The stream under every interleaving of its steps. The invariant ties the ledger to what the open
  groups hold, the two semaphores and the input credit to the open groups, and every collected
  result to the plan at its position; each step changes the stage of one group, so one lemma on a
  change of stage carries all of them. The reservation of a whole wave is a second interpretation
  of the ledger contract.
\<close>

declare split_paired_All [simp del]

section \<open>The ledger of a wave\<close>

definition wave_need :: "episode_plan list \<Rightarrow> string \<times> qkey \<Rightarrow> rat" where
  "wave_need ps ek = sum_list (map (\<lambda>p. need (plan_res p) ek) ps)"

definition nonneg_plan :: "episode_plan \<Rightarrow> bool" where
  "nonneg_plan p \<longleftrightarrow> nonneg_resources (plan_res p)"

lemma wave_need_simps [simp]:
  "wave_need [] ek = 0" "wave_need (p # ps) ek = need (plan_res p) ek + wave_need ps ek"
  by (simp_all add: wave_need_def)

lemma wave_need_nonneg: "list_all nonneg_plan ps \<Longrightarrow> 0 \<le> wave_need ps ek"
  by (induction ps) (simp_all add: nonneg_plan_def need_nonneg)

lemma charge_all_simps [simp]:
  "charge_all x [] c = c" "charge_all x (p # ps) c = charge_all x ps (charge x (plan_res p) c)"
  "quarantine_all [] c = c" "quarantine_all (p # ps) c = quarantine_all ps (quarantine (plan_res p) c)"
  by (simp_all add: charge_all_def quarantine_all_def)

lemma reserved_charge_all: "reserved_amount (charge_all x ps c) ek = reserved_amount c ek + x * wave_need ps ek"
  by (induction ps arbitrary: c) (simp_all add: reserved_charge algebra_simps)

lemma charge_all_frame [simp]:
  "quarantined_amount (charge_all x ps c) = quarantined_amount c"
  "capacity_limit (charge_all x ps c) = capacity_limit c"
  "max_workers (charge_all x ps c) = max_workers c" "max_groups (charge_all x ps c) = max_groups c"
  "policy (charge_all x ps c) = policy c"
  by (induction ps arbitrary: c) simp_all

lemma quarantined_quarantine_all:
  "quarantined_amount (quarantine_all ps c) ek = quarantined_amount c ek + wave_need ps ek"
  by (induction ps arbitrary: c) (simp_all add: quarantined_quarantine)

lemma quarantine_all_frame [simp]:
  "reserved_amount (quarantine_all ps c) = reserved_amount c"
  "capacity_limit (quarantine_all ps c) = capacity_limit c"
  "max_workers (quarantine_all ps c) = max_workers c" "max_groups (quarantine_all ps c) = max_groups c"
  "policy (quarantine_all ps c) = policy c"
  by (induction ps arbitrary: c) simp_all

lemma wave_need_limit:
  assumes "wave_fits c (map plan_res ps)" "capacity_limit c ek = Some q" "wave_need ps ek \<noteq> 0"
  shows "reserved_amount c ek + wave_need ps ek \<le> q"
proof -
  have "\<exists>p \<in> set ps. need (plan_res p) ek \<noteq> 0"
    using assms(3) by (induction ps) auto
  then obtain p where "p \<in> set ps" "need (plan_res p) ek \<noteq> 0" by blast
  with wave_fits_limit [OF assms(1,2), of "plan_res p"] show ?thesis
    by (simp add: wave_need_def comp_def)
qed

interpretation wave_ledger: capacity_ledger reserved_amount capacity_limit wave_need
  "\<lambda>c ps. wave_fits c (map plan_res ps)" "\<lambda>c ps. charge_all 1 ps c" "list_all nonneg_plan"
  "\<lambda>c ps. charge_all (- 1) ps c"
  by unfold_locales (simp_all add: wave_need_limit wave_need_nonneg reserved_charge_all)

lemma in_limits_quarantine_all [simp]:
  "executor_ledger.in_limits (quarantine_all ps c) = executor_ledger.in_limits c"
  by (rule in_limits_cong) simp_all

section \<open>What a group holds\<close>

fun working :: "episode_phase \<Rightarrow> bool" where
  "working Ep_worker = True"
| "working Ep_running = True"
| "working _ = False"

definition running_need :: "episode_plan list \<Rightarrow> episode_phase list \<Rightarrow> string \<times> qkey \<Rightarrow> rat" where
  "running_need sel phases ek =
     sum_list (map2 (\<lambda>p ph. if ph = Ep_running then need (plan_res p) ek else 0) sel phases)"

fun stage_need :: "group_stage \<Rightarrow> string \<times> qkey \<Rightarrow> rat" where
  "stage_need (Wave_admitting off sel rs) ek = wave_need sel ek"
| "stage_need (Episodes None sel phases) ek = running_need sel phases ek"
| "stage_need (Episodes (Some w) sel phases) ek = wave_need sel ek"
| "stage_need (Wave_closing off sel observed rs) ek = wave_need sel ek"
| "stage_need _ ek = 0"

fun stage_workers :: "group_stage \<Rightarrow> int" where
  "stage_workers (Episodes w sel phases) = int (length (filter working phases))"
| "stage_workers _ = 0"

fun stage_slot :: "group_stage \<Rightarrow> int" where
  "stage_slot Queued = 0"
| "stage_slot (Group_done out) = 0"
| "stage_slot _ = 1"

definition phases_ok :: "episode_plan list \<Rightarrow> episode_phase list \<Rightarrow> bool" where
  "phases_ok = list_all2 (\<lambda>p ph. \<forall>r. ph = Ep_result r \<longrightarrow> res_identity r = plan_identity p)"

definition results_for :: "episode_plan list \<Rightarrow> episode_result list \<Rightarrow> bool" where
  "results_for ps rs \<longleftrightarrow> map res_identity rs = map plan_identity ps"

text \<open>The wave at an offset, with the results of the plans before it.\<close>

definition wave_at :: "episode_plan list \<Rightarrow> nat \<Rightarrow> episode_plan list \<Rightarrow> episode_result list \<Rightarrow> bool" where
  "wave_at plans off sel rs \<longleftrightarrow>
     results_for (take off plans) rs \<and> sel \<noteq> [] \<and> off + length sel \<le> length plans \<and>
     sel = take (length sel) (drop off plans)"

fun stage_ok :: "episode_plan list \<Rightarrow> group_stage \<Rightarrow> bool" where
  "stage_ok plans Queued = True"
| "stage_ok plans (Wave_ready off rs) = results_for (take off plans) rs"
| "stage_ok plans (Wave_admitting off sel rs) = wave_at plans off sel rs"
| "stage_ok plans (Episodes None sel phases) = (sel = plans \<and> phases_ok sel phases)"
| "stage_ok plans (Episodes (Some (off, rs)) sel phases) = (wave_at plans off sel rs \<and> phases_ok sel phases)"
| "stage_ok plans (Wave_closing off sel observed rs) = (wave_at plans off sel rs \<and> results_for sel observed)"
| "stage_ok plans (Group_done (Inl e)) = True"
| "stage_ok plans (Group_done (Inr rs)) = results_for plans rs"

text \<open>Whether wave hooks are used for every backend, or for none.\<close>

definition all_waves :: "stream_env \<Rightarrow> coordinator \<Rightarrow> bool" where
  "all_waves env c \<longleftrightarrow> policy c = ''terminal-waves'' \<or> (\<forall>b \<in> set (backend_items env). has_admit_group env (snd b))"

definition no_waves :: "stream_env \<Rightarrow> coordinator \<Rightarrow> bool" where
  "no_waves env c \<longleftrightarrow> policy c \<noteq> ''terminal-waves'' \<and> (\<forall>b \<in> set (backend_items env). \<not> has_admit_group env (snd b))"

fun in_wave :: "group_stage \<Rightarrow> bool" where
  "in_wave (Wave_ready off rs) = True"
| "in_wave (Wave_admitting off sel rs) = True"
| "in_wave (Episodes (Some w) sel phases) = True"
| "in_wave (Wave_closing off sel observed rs) = True"
| "in_wave _ = False"

fun in_native :: "group_stage \<Rightarrow> bool" where
  "in_native (Episodes None sel phases) = True"
| "in_native _ = False"

definition kind_ok :: "stream_env \<Rightarrow> coordinator \<Rightarrow> group_stage \<Rightarrow> bool" where
  "kind_ok env c st \<longleftrightarrow> (no_waves env c \<longrightarrow> \<not> in_wave st) \<and> (all_waves env c \<longrightarrow> \<not> in_native st)"

text \<open>What \<open>ResourceRequirements\<close> guarantees of a plan's request.\<close>

definition valid_plan :: "episode_plan \<Rightarrow> bool" where
  "valid_plan p \<longleftrightarrow> nonneg_plan p \<and> accounting (plan_res p) \<in> {''episode'', ''backend-stage''}"

definition plan_fits :: "stream_env \<Rightarrow> coordinator \<Rightarrow> episode_plan \<Rightarrow> bool" where
  "plan_fits env c p \<longleftrightarrow> valid_plan p \<and> \<not> exceeds_capacity c (plan_res p) \<and>
     map_of (backend_items env) (ts_benchmark (plan_task p)) \<noteq> None"

definition group_ok :: "stream_env \<Rightarrow> coordinator \<Rightarrow> stream_group \<Rightarrow> bool" where
  "group_ok env c g \<longleftrightarrow> sg_plans g \<noteq> [] \<and> list_all (plan_fits env c) (sg_plans g) \<and>
     stage_ok (sg_plans g) (sg_stage g) \<and> kind_ok env c (sg_stage g)"

definition over_tasks :: "(stream_group \<Rightarrow> 'a::ab_group_add) \<Rightarrow> stream \<Rightarrow> 'a" where
  "over_tasks f s = sum_list (map f (st_tasks s))"

definition tasks_inv :: "stream_env \<Rightarrow> stream \<Rightarrow> bool" where
  "tasks_inv env s \<longleftrightarrow> distinct (map sg_sequence (st_tasks s)) \<and>
     (\<forall>g \<in> set (st_tasks s). sg_sequence g \<le> st_sequence s \<and> group_ok env (sco s) g) \<and>
     (st_closed s \<longrightarrow> st_tasks s = [])"

definition credit_inv :: "stream \<Rightarrow> bool" where
  "credit_inv s \<longleftrightarrow>
     st_pending s = over_tasks (\<lambda>g. int (length (sg_plans g))) s \<and> st_pending s \<le> st_pending_limit s \<and>
     st_workers s + over_tasks (\<lambda>g. stage_workers (sg_stage g)) s = max_workers (sco s) \<and> 0 \<le> st_workers s \<and>
     st_groups s + over_tasks (\<lambda>g. stage_slot (sg_stage g)) s = max_groups (sco s) \<and> 0 \<le> st_groups s \<and>
     1 \<le> max_workers (sco s) \<and> 1 \<le> max_groups (sco s)"

definition stream_ledger :: "stream \<Rightarrow> bool" where
  "stream_ledger s \<longleftrightarrow>
     (\<forall>ek. reserved_amount (sco s) ek =
        quarantined_amount (sco s) ek + over_tasks (\<lambda>g. stage_need (sg_stage g) ek) s) \<and>
     executor_ledger.in_limits (sco s) \<and>
     (\<not> stream_stopped s \<longrightarrow> (\<forall>ek. quarantined_amount (sco s) ek = 0))"

definition stream_inv :: "stream_env \<Rightarrow> stream \<Rightarrow> bool" where
  "stream_inv env s \<longleftrightarrow> tasks_inv env s \<and> credit_inv s \<and> stream_ledger s"

section \<open>Changing the stage of one group\<close>

lemma update_frame [simp]:
  "sco (set_stage q st s) = sco s" "st_token (set_stage q st s) = st_token s"
  "st_pending (set_stage q st s) = st_pending s" "st_pending_limit (set_stage q st s) = st_pending_limit s"
  "st_workers (set_stage q st s) = st_workers s" "st_groups (set_stage q st s) = st_groups s"
  "st_sequence (set_stage q st s) = st_sequence s" "st_closed (set_stage q st s) = st_closed s"
  "st_paused (set_stage q st s) = st_paused s" "st_log (set_stage q st s) = st_log s"
  "sco (stream_event n p s) = sco s" "st_token (stream_event n p s) = st_token s"
  "st_pending (stream_event n p s) = st_pending s" "st_pending_limit (stream_event n p s) = st_pending_limit s"
  "st_workers (stream_event n p s) = st_workers s" "st_groups (stream_event n p s) = st_groups s"
  "st_sequence (stream_event n p s) = st_sequence s" "st_closed (stream_event n p s) = st_closed s"
  "st_paused (stream_event n p s) = st_paused s" "st_tasks (stream_event n p s) = st_tasks s"
  "sco (cancel_stream w s) = sco s" "st_log (cancel_stream w s) = st_log s"
  "st_pending (cancel_stream w s) = st_pending s" "st_pending_limit (cancel_stream w s) = st_pending_limit s"
  "st_workers (cancel_stream w s) = st_workers s" "st_groups (cancel_stream w s) = st_groups s"
  "st_sequence (cancel_stream w s) = st_sequence s" "st_closed (cancel_stream w s) = st_closed s"
  "st_paused (cancel_stream w s) = st_paused s" "st_tasks (cancel_stream w s) = st_tasks s"
  "stream_stopped (cancel_stream w s)"
  "st_log (stream_event n p s) = st_log s @ [(n, map_option plan_identity p)]"
  by (simp_all add: set_stage_def stream_event_def cancel_stream_def stream_stopped_def)

lemma stopped_frame [simp]:
  "stream_stopped (set_stage q st s) = stream_stopped s" "stream_stopped (stream_event n p s) = stream_stopped s"
  "stream_stopped (s\<lparr>sco := c\<rparr>) = stream_stopped s" "stream_stopped (s\<lparr>st_workers := w\<rparr>) = stream_stopped s"
  "stream_stopped (s\<lparr>st_groups := w\<rparr>) = stream_stopped s" "stream_stopped (s\<lparr>st_written := rs\<rparr>) = stream_stopped s"
  by (simp_all add: stream_stopped_def)

lemma find_group_SomeD: "find_group q s = Some g \<Longrightarrow> g \<in> set (st_tasks s) \<and> sg_sequence g = q"
  by (auto simp: find_group_def find_Some_iff)

lemma find_group_in: "distinct (map sg_sequence (st_tasks s)) \<Longrightarrow> g \<in> set (st_tasks s) \<Longrightarrow> find_group (sg_sequence g) s = Some g"
  unfolding find_group_def by (induction "st_tasks s" arbitrary: s rule: list.induct) (auto simp: image_iff find_Some_iff in_set_conv_nth distinct_conv_nth)

lemma sum_list_update_stage:
  fixes f :: "stream_group \<Rightarrow> 'a::ab_group_add"
  assumes "distinct (map sg_sequence gs)" "g \<in> set gs" "sg_sequence g = q"
  shows "sum_list (map f (map (\<lambda>h. if sg_sequence h = q then h\<lparr>sg_stage := st\<rparr> else h) gs)) =
    sum_list (map f gs) - f g + f (g\<lparr>sg_stage := st\<rparr>)"
  using assms
proof (induction gs)
  case (Cons h gs)
  show ?case
  proof (cases "h = g")
    case True
    with Cons.prems have "map (\<lambda>h. if sg_sequence h = q then h\<lparr>sg_stage := st\<rparr> else h) gs = gs"
      by (intro map_idI) (auto simp: image_iff)
    with True Cons.prems show ?thesis by (simp add: algebra_simps cong: map_cong)
  next
    case False
    with Cons.prems have "g \<in> set gs" "sg_sequence h \<noteq> q" by (auto simp: image_iff)
    with Cons show ?thesis by (simp add: algebra_simps)
  qed
qed simp

lemma over_tasks_set_stage:
  fixes f :: "stream_group \<Rightarrow> 'a::ab_group_add"
  assumes "distinct (map sg_sequence (st_tasks s))" "find_group q s = Some g"
    "st_tasks t = st_tasks (set_stage q st s)"
  shows "over_tasks f t = over_tasks f s - f g + f (g\<lparr>sg_stage := st\<rparr>)"
  using sum_list_update_stage [of "st_tasks s" g q f st] assms find_group_SomeD [OF assms(2)]
  by (simp add: over_tasks_def set_stage_def)

definition same_config :: "coordinator \<Rightarrow> coordinator \<Rightarrow> bool" where
  "same_config c d \<longleftrightarrow> capacities c = capacities d \<and> policy c = policy d \<and>
     max_workers c = max_workers d \<and> max_groups c = max_groups d"

lemma same_config_simps [simp]:
  "same_config c c" "same_config (charge x r c) d = same_config c d"
  "same_config (quarantine r c) d = same_config c d" "same_config (charge_all x ps c) d = same_config c d"
  "same_config (quarantine_all ps c) d = same_config c d"
proof -
  show a: "same_config c c" "same_config (charge x r c) d = same_config c d"
    "same_config (quarantine r c) d = same_config c d" for c r
    by (simp_all add: same_config_def charge_def quarantine_def Let_def)
  show "same_config (charge_all x ps c) d = same_config c d" by (induction ps arbitrary: c) (simp_all add: a)
  show "same_config (quarantine_all ps c) d = same_config c d" by (induction ps arbitrary: c) (simp_all add: a)
qed

lemma exceeds_config: "same_config c d \<Longrightarrow> exceeds_capacity c r = exceeds_capacity d r"
  by (simp add: same_config_def exceeds_capacity_def)

lemma plan_fits_config: "same_config c d \<Longrightarrow> plan_fits env c p = plan_fits env d p"
  using exceeds_config [of c d "plan_res p"] by (simp add: plan_fits_def)

lemma group_ok_config:
  assumes "same_config c d"
  shows "group_ok env c g = group_ok env d g"
proof -
  have "list_all (plan_fits env c) ps = list_all (plan_fits env d) ps" for ps
    using plan_fits_config [OF assms] by (simp add: list_all_iff)
  then show ?thesis
    using assms by (simp add: group_ok_def kind_ok_def no_waves_def all_waves_def same_config_def)
qed

text \<open>The bookkeeping that a step changing one group's stage to \<open>st\<close> has to get right.\<close>

definition stage_move :: "stream \<Rightarrow> group_stage \<Rightarrow> group_stage \<Rightarrow> stream \<Rightarrow> bool" where
  "stage_move s old new t \<longleftrightarrow>
     same_config (sco t) (sco s) \<and> st_sequence t = st_sequence s \<and> st_closed t = st_closed s \<and>
     st_pending t = st_pending s \<and> st_pending_limit t = st_pending_limit s \<and>
     st_workers t = st_workers s + stage_workers old - stage_workers new \<and> 0 \<le> st_workers t \<and>
     st_groups t = st_groups s + stage_slot old - stage_slot new \<and> 0 \<le> st_groups t \<and>
     (\<forall>ek. reserved_amount (sco t) ek - quarantined_amount (sco t) ek =
        reserved_amount (sco s) ek - quarantined_amount (sco s) ek + stage_need new ek - stage_need old ek) \<and>
     executor_ledger.in_limits (sco t) \<and>
     (\<not> stream_stopped t \<longrightarrow> \<not> stream_stopped s \<and> (\<forall>ek. quarantined_amount (sco t) ek = quarantined_amount (sco s) ek))"

lemma stage_move_inv:
  assumes "stream_inv env s" "find_group q s = Some g" "st_tasks t = st_tasks (set_stage q st s)"
    "stage_ok (sg_plans g) st" "kind_ok env (sco s) st" "stage_move s (sg_stage g) st t"
  shows "stream_inv env t"
proof -
  note g = find_group_SomeD [OF assms(2)]
  have inv: "tasks_inv env s" "credit_inv s" "stream_ledger s" using assms(1) by (simp_all add: stream_inv_def)
  have d: "distinct (map sg_sequence (st_tasks s))" using inv(1) by (simp add: tasks_inv_def)
  have m: "same_config (sco t) (sco s)" "st_sequence t = st_sequence s" "st_closed t = st_closed s"
    using assms(6) by (simp_all add: stage_move_def)
  have seqs: "map sg_sequence (st_tasks t) = map sg_sequence (st_tasks s)"
    unfolding assms(3) by (simp add: set_stage_def comp_def if_distrib cong: if_cong)
  have nonempty: "st_tasks s \<noteq> []" using g by auto
  have gk: "group_ok env (sco s) g" using g inv(1) by (auto simp: tasks_inv_def)
  have gk': "group_ok env (sco t) (h\<lparr>sg_stage := st\<rparr>)" if "h \<in> set (st_tasks s)" "sg_sequence h = q" for h
  proof -
    have "h = g" using d that g by (simp add: eq_key_imp_eq_value distinct_map inj_on_def)
    moreover have "group_ok env (sco s) (g\<lparr>sg_stage := st\<rparr>)" using gk assms(4,5) by (simp add: group_ok_def)
    ultimately show ?thesis using group_ok_config [OF m(1)] by simp
  qed
  have "\<forall>h \<in> set (st_tasks t). sg_sequence h \<le> st_sequence t \<and> group_ok env (sco t) h"
    unfolding assms(3) using inv(1) gk' group_ok_config [OF m(1)] m(2)
    by (auto simp: set_stage_def tasks_inv_def)
  then have "tasks_inv env t"
    using inv(1) seqs m(3) nonempty by (simp add: tasks_inv_def)
  moreover have "credit_inv t"
    using inv(2) assms(6)
    by (simp add: credit_inv_def stage_move_def same_config_def over_tasks_set_stage [OF d assms(2,3)])
  moreover have "stream_ledger t"
  proof -
    have "reserved_amount (sco t) ek = quarantined_amount (sco t) ek + over_tasks (\<lambda>g. stage_need (sg_stage g) ek) t" for ek
    proof -
      have "reserved_amount (sco t) ek - quarantined_amount (sco t) ek =
          reserved_amount (sco s) ek - quarantined_amount (sco s) ek + stage_need st ek - stage_need (sg_stage g) ek"
        using assms(6) by (simp add: stage_move_def)
      moreover have "reserved_amount (sco s) ek =
          quarantined_amount (sco s) ek + over_tasks (\<lambda>g. stage_need (sg_stage g) ek) s"
        using inv(3) by (simp add: stream_ledger_def)
      ultimately show ?thesis by (simp add: over_tasks_set_stage [OF d assms(2,3)])
    qed
    then show ?thesis using inv(3) assms(6) by (simp add: stream_ledger_def stage_move_def)
  qed
  ultimately show ?thesis by (simp add: stream_inv_def)
qed

lemma stage_moveI:
  assumes "same_config (sco t) (sco s)" "st_sequence t = st_sequence s" "st_closed t = st_closed s"
    "st_pending t = st_pending s" "st_pending_limit t = st_pending_limit s"
    "st_workers t = st_workers s + stage_workers old - stage_workers new" "0 \<le> st_workers t"
    "st_groups t = st_groups s + stage_slot old - stage_slot new" "0 \<le> st_groups t"
    "\<And>ek. reserved_amount (sco t) ek - quarantined_amount (sco t) ek =
        reserved_amount (sco s) ek - quarantined_amount (sco s) ek + stage_need new ek - stage_need old ek"
    "executor_ledger.in_limits (sco t)"
    "\<not> stream_stopped t \<Longrightarrow> \<not> stream_stopped s \<and> (\<forall>ek. quarantined_amount (sco t) ek = quarantined_amount (sco s) ek)"
  shows "stage_move s old new t"
  using assms by (simp add: stage_move_def)

section \<open>Episode results and waves\<close>

lemma wave_at_plans: "wave_at plans off sel rs \<Longrightarrow> set sel \<subseteq> set plans"
proof -
  assume w: "wave_at plans off sel rs"
  have "set (take (length sel) (drop off plans)) \<subseteq> set plans"
    by (meson order_trans set_drop_subset set_take_subset)
  with w show ?thesis by (simp add: wave_at_def)
qed

lemma results_for_append:
  "results_for ps rs \<Longrightarrow> results_for ps' rs' \<Longrightarrow> results_for (ps @ ps') (rs @ rs')"
  by (simp add: results_for_def)

lemma take_wave: "wave_at plans off sel rs \<Longrightarrow> take (off + length sel) plans = take off plans @ sel"
  by (simp add: wave_at_def take_add)

lemma results_for_not_admitted [simp]: "results_for ps (map (\<lambda>p. not_admitted p why) ps)"
  by (simp add: results_for_def)

lemma results_for_unresolved [simp]: "results_for ps (map (\<lambda>p. unresolved p why) ps)"
  by (simp add: results_for_def)

lemma results_for_reopened [simp]: "results_for ps (map (reopened_result closure) rs) = results_for ps rs"
proof -
  have "res_identity (reopened_result closure r) = res_identity r" for r by (simp add: reopened_result_def)
  then show ?thesis by (simp add: results_for_def comp_def)
qed

lemma collected_identity:
  "\<forall>r. ph = Ep_result r \<longrightarrow> res_identity r = plan_identity p \<Longrightarrow> res_identity (collected p ph) = plan_identity p"
  by (cases ph) simp_all

lemma results_for_collected: "phases_ok sel phases \<Longrightarrow> results_for sel (map2 collected sel phases)"
  unfolding phases_ok_def results_for_def
  by (induction sel phases rule: list_all2_induct) (simp_all add: collected_identity)

lemma phases_ok_length: "phases_ok sel phases \<Longrightarrow> length phases = length sel"
  by (simp add: phases_ok_def list_all2_lengthD)

lemma phases_ok_waiting [simp]: "phases_ok sel (replicate (length sel) Ep_waiting)"
  by (simp add: phases_ok_def list_all2_conv_all_nth)

lemma phases_ok_update:
  "phases_ok sel phases \<Longrightarrow> \<forall>r. ph = Ep_result r \<longrightarrow> res_identity r = plan_identity (sel ! i) \<Longrightarrow>
   phases_ok sel (phases[i := ph])"
proof -
  assume ok: "phases_ok sel phases" and ph: "\<forall>r. ph = Ep_result r \<longrightarrow> res_identity r = plan_identity (sel ! i)"
  have "\<forall>r. phases[i := ph] ! j = Ep_result r \<longrightarrow> res_identity r = plan_identity (sel ! j)"
    if "j < length sel" for j
  proof (cases "j = i")
    case True
    then show ?thesis using ok ph that by (simp add: phases_ok_length)
  next
    case False
    then show ?thesis using ok that by (simp add: phases_ok_def list_all2_conv_all_nth)
  qed
  then show ?thesis using phases_ok_length [OF ok] by (simp add: phases_ok_def list_all2_conv_all_nth)
qed

lemma length_filter_update:
  "i < length xs \<Longrightarrow> int (length (filter P (xs[i := y]))) =
     int (length (filter P xs)) - (if P (xs ! i) then 1 else 0) + (if P y then 1 else 0)"
proof (induction xs arbitrary: i)
  case (Cons x xs)
  show ?case
  proof (cases i)
    case (Suc j)
    then show ?thesis using Cons.IH [of j] Cons.prems
      by (cases "P (xs ! j)"; cases "P y"; simp)
  qed simp
qed simp

lemma running_need_update:
  assumes "i < length phases" "length phases = length sel"
  shows "running_need sel (phases[i := ph]) ek = running_need sel phases ek
    - (if phases ! i = Ep_running then need (plan_res (sel ! i)) ek else 0)
    + (if ph = Ep_running then need (plan_res (sel ! i)) ek else 0)"
  using assms(2,1) unfolding running_need_def
proof (induction phases sel arbitrary: i rule: list_induct2)
  case (Cons x xs y ys)
  show ?case
  proof (cases i)
    case (Suc j)
    then show ?thesis using Cons.IH [of j] Cons.prems by simp
  qed (simp add: algebra_simps)
qed simp

lemma running_need_none: "\<forall>ph \<in> set phases. ph \<noteq> Ep_running \<Longrightarrow> running_need sel phases ek = 0"
  unfolding running_need_def
proof (induction phases arbitrary: sel)
  case (Cons x xs)
  then show ?case by (cases sel) simp_all
qed simp

lemma workers_none: "\<forall>ph \<in> set phases. \<not> working ph \<Longrightarrow> stage_workers (Episodes w sel phases) = 0"
  by simp

lemma phase_done_idle: "list_all phase_done phases \<Longrightarrow> ph \<in> set phases \<Longrightarrow> ph \<noteq> Ep_running \<and> \<not> working ph"
  by (cases ph) (auto simp: list_all_iff)

lemma stage_need_episodes:
  "stage_need (Episodes w sel phases) ek = (if w = None then running_need sel phases ek else wave_need sel ek)"
  by (cases w) simp_all

lemma stage_ok_episodes:
  "stage_ok plans (Episodes w sel phases) \<longleftrightarrow> phases_ok sel phases \<and>
     (case w of None \<Rightarrow> sel = plans | Some (off, rs) \<Rightarrow> wave_at plans off sel rs)"
  by (cases w) auto

lemma episodes_plans:
  "(case w of None \<Rightarrow> sel = plans | Some (off, rs) \<Rightarrow> wave_at plans off sel rs) \<Longrightarrow> set sel \<subseteq> set plans"
  using wave_at_plans by (cases w) (simp_all add: split_beta)

lemma kind_ok_episodes: "kind_ok env c (Episodes w sel phases) = kind_ok env c (Episodes w sel phases')"
  by (cases w) (simp_all add: kind_ok_def)

section \<open>Every step keeps the invariant\<close>

lemma inv_parts:
  assumes "stream_inv env s" "find_group q s = Some g"
  shows "sg_plans g \<noteq> []" "list_all (plan_fits env (sco s)) (sg_plans g)" "stage_ok (sg_plans g) (sg_stage g)"
    "kind_ok env (sco s) (sg_stage g)" "0 \<le> st_workers s" "0 \<le> st_groups s" "executor_ledger.in_limits (sco s)"
    "distinct (map sg_sequence (st_tasks s))"
  using assms find_group_SomeD [OF assms(2)]
  by (auto simp: stream_inv_def tasks_inv_def credit_inv_def stream_ledger_def group_ok_def)

lemma plans_nonneg: "list_all (plan_fits env c) ps \<Longrightarrow> set sel \<subseteq> set ps \<Longrightarrow> list_all nonneg_plan sel"
  by (auto simp: list_all_iff plan_fits_def valid_plan_def)

lemma finish_frame [simp]:
  "sco (finish_stream_group q out s) = sco s" "st_token (finish_stream_group q out s) = st_token s"
  "st_pending (finish_stream_group q out s) = st_pending s" "st_pending_limit (finish_stream_group q out s) = st_pending_limit s"
  "st_workers (finish_stream_group q out s) = st_workers s" "st_groups (finish_stream_group q out s) = st_groups s + 1"
  "st_sequence (finish_stream_group q out s) = st_sequence s" "st_closed (finish_stream_group q out s) = st_closed s"
  "st_paused (finish_stream_group q out s) = st_paused s" "st_log (finish_stream_group q out s) = st_log s"
  "st_tasks (finish_stream_group q out s) = st_tasks (set_stage q (Group_done out) s)"
  "stream_stopped (finish_stream_group q out s) = stream_stopped s"
  by (simp_all add: finish_stream_group_def set_stage_def stream_stopped_def)

lemma set_stage_tasks [simp]:
  "st_tasks (set_stage q st (s\<lparr>sco := c\<rparr>)) = st_tasks (set_stage q st s)"
  "st_tasks (set_stage q st (s\<lparr>st_workers := w\<rparr>)) = st_tasks (set_stage q st s)"
  "st_tasks (set_stage q st (s\<lparr>st_groups := w\<rparr>)) = st_tasks (set_stage q st s)"
  "st_tasks (set_stage q st (stream_event n p s)) = st_tasks (set_stage q st s)"
  "st_tasks (set_stage q st (cancel_stream why s)) = st_tasks (set_stage q st s)"
  by (simp_all add: set_stage_def stream_event_def cancel_stream_def)

lemma kind_ok_done [simp]: "kind_ok env c (Group_done out)" "kind_ok env c Queued"
  by (simp_all add: kind_ok_def)

lemma kind_ok_wave: "kind_ok env c st \<Longrightarrow> in_wave st \<Longrightarrow> in_wave st' \<Longrightarrow> \<not> in_native st' \<Longrightarrow> kind_ok env c st'"
  by (auto simp: kind_ok_def)

lemma begin_group_inv [inv_intros]:
  assumes "stream_inv env s"
  shows "stream_inv env (begin_group env q s)"
proof (cases "find_group q s")
  case (Some g)
  note p = inv_parts [OF assms Some]
  let ?bench = "ts_benchmark (plan_task (hd (sg_plans g)))"
  show ?thesis
  proof (cases "sg_stage g = Queued \<and> 1 \<le> st_groups s")
    case q: True
    have hd: "plan_fits env (sco s) (hd (sg_plans g))" using p(1,2) by (simp add: list_all_iff)
    then obtain b where b: "map_of (backend_items env) ?bench = Some b" by (auto simp: plan_fits_def)
    then have hooked: "all_waves env (sco s) \<Longrightarrow> wave_hooks env (sco s) ?bench"
      "no_waves env (sco s) \<Longrightarrow> \<not> wave_hooks env (sco s) ?bench"
      using map_of_SomeD [OF b] by (force simp: all_waves_def no_waves_def wave_hooks_def)+
    let ?s = "s\<lparr>st_groups := st_groups s - 1\<rparr>"
    have "stream_inv env (finish_stream_group q (Inl e) ?s)" for e
      by (rule stage_move_inv [OF assms Some]) (use q p in \<open>auto intro!: stage_moveI simp: set_stage_def\<close>)
    moreover have "stream_inv env (set_stage q (Wave_ready 0 []) ?s)" if "wave_hooks env (sco s) ?bench"
      by (rule stage_move_inv [OF assms Some])
        (use q p hooked that in \<open>auto intro!: stage_moveI simp: kind_ok_def results_for_def\<close>)
    moreover have "stream_inv env (set_stage q (Episodes None (sg_plans g) (replicate (length (sg_plans g)) Ep_waiting)) ?s)"
      if "\<not> wave_hooks env (sco s) ?bench"
      by (rule stage_move_inv [OF assms Some])
        (use q p hooked that in \<open>auto intro!: stage_moveI simp: kind_ok_def running_need_none\<close>)
    ultimately show ?thesis using Some q by (simp add: begin_group_def Let_def)
  next
    case False
    then have "begin_group env q s = s"
      using Some by (cases "sg_stage g") (auto simp: begin_group_def)
    then show ?thesis using assms by simp
  qed
qed (simp add: begin_group_def assms)

text \<open>One episode task of a group moves to the phase \<open>ph\<close>.\<close>

definition phase_move :: "stream \<Rightarrow> bool \<Rightarrow> resources \<Rightarrow> episode_phase \<Rightarrow> episode_phase \<Rightarrow> stream \<Rightarrow> bool" where
  "phase_move s owned r old new t \<longleftrightarrow>
     same_config (sco t) (sco s) \<and> st_sequence t = st_sequence s \<and> st_closed t = st_closed s \<and>
     st_pending t = st_pending s \<and> st_pending_limit t = st_pending_limit s \<and> st_groups t = st_groups s \<and>
     st_workers t = st_workers s + (if working old then 1 else 0) - (if working new then 1 else 0) \<and>
     0 \<le> st_workers t \<and> executor_ledger.in_limits (sco t) \<and>
     (\<forall>ek. reserved_amount (sco t) ek - quarantined_amount (sco t) ek =
        reserved_amount (sco s) ek - quarantined_amount (sco s) ek +
        (if owned then 0 else (if new = Ep_running then need r ek else 0) - (if old = Ep_running then need r ek else 0))) \<and>
     (\<not> stream_stopped t \<longrightarrow> \<not> stream_stopped s \<and> (\<forall>ek. quarantined_amount (sco t) ek = quarantined_amount (sco s) ek))"

lemma phase_move_inv:
  assumes "stream_inv env s" "find_group q s = Some g" "sg_stage g = Episodes w sel phases" "i < length phases"
    "\<forall>r. ph = Ep_result r \<longrightarrow> res_identity r = plan_identity (sel ! i)"
    "st_tasks t = st_tasks (set_phase q w sel phases i ph s)"
    "phase_move s (w \<noteq> None) (plan_res (sel ! i)) (phases ! i) ph t"
  shows "stream_inv env t"
proof (rule stage_move_inv [OF assms(1,2)])
  note p = inv_parts [OF assms(1,2)]
  let ?st = "Episodes w sel (phases[i := ph])"
  have ok: "phases_ok sel phases" using p(3) assms(3) by (simp add: stage_ok_episodes)
  show "st_tasks t = st_tasks (set_stage q ?st s)" using assms(6) by (simp add: set_phase_def)
  show "stage_ok (sg_plans g) ?st"
    using p(3) assms(3,5) phases_ok_update [OF ok] by (simp add: stage_ok_episodes)
  show "kind_ok env (sco s) ?st" using p(4) assms(3) kind_ok_episodes by metis
  show "stage_move s (sg_stage g) ?st t"
    using assms(3,4,7) p(6) phases_ok_length [OF ok] unfolding phase_move_def
    by (cases w; intro stage_moveI) (simp_all add: running_need_update length_filter_update)
qed

lemma take_worker_inv [inv_intros]:
  assumes "stream_inv env s"
  shows "stream_inv env (take_worker q i s)"
proof (cases "find_group q s")
  case (Some g)
  note p = inv_parts [OF assms Some]
  show ?thesis
  proof (cases "sg_stage g")
    case (Episodes w sel phases)
    show ?thesis
    proof (cases "i < length phases \<and> phases ! i = Ep_waiting \<and> st_workers s \<ge> 1")
      case True
      have "stream_inv env ((set_phase q w sel phases i Ep_worker s)\<lparr>st_workers := st_workers s - 1\<rparr>)"
        by (rule phase_move_inv [OF assms Some Episodes]) (use True p in \<open>auto simp: phase_move_def set_phase_def\<close>)
      then show ?thesis using Some Episodes True by (simp add: take_worker_def)
    qed (use Some Episodes assms in \<open>auto simp: take_worker_def\<close>)
  qed (use Some assms in \<open>simp_all add: take_worker_def\<close>)
qed (simp add: take_worker_def assms)

lemma admit_episode_inv [inv_intros]:
  assumes "stream_inv env s"
  shows "stream_inv env (admit_episode q i s)"
proof (cases "find_group q s")
  case (Some g)
  note p = inv_parts [OF assms Some]
  show ?thesis
  proof (cases "sg_stage g")
    case (Episodes w sel phases)
    show ?thesis
    proof (cases "i < length phases \<and> phases ! i = Ep_worker")
      case True
      let ?p = "sel ! i"
      let ?c = "if w = None then s\<lparr>sco := charge 1 (plan_res ?p) (sco s)\<rparr> else s"
      let ?n = "(set_phase q w sel phases i (Ep_result (not_admitted ?p ''stream admission stopped'')) s)
                 \<lparr>st_workers := st_workers s + 1\<rparr>"
      let ?a = "set_phase q w sel phases i Ep_running (stream_event ''episode_admitted'' (Some ?p) ?c)"
      have "stream_inv env ?n"
        by (rule phase_move_inv [OF assms Some Episodes]) (use True p in \<open>auto simp: phase_move_def set_phase_def\<close>)
      moreover have "stream_inv env ?a" if f: "w \<noteq> None \<or> fits (sco s) (plan_res ?p)"
      proof (rule phase_move_inv [OF assms Some Episodes])
        show "st_tasks ?a = st_tasks (set_phase q w sel phases i Ep_running s)" by (simp add: set_phase_def)
        show "phase_move s (w \<noteq> None) (plan_res ?p) (phases ! i) Ep_running ?a"
          using True p f executor_ledger.in_limits_admit [OF p(7)]
          by (auto simp: phase_move_def set_phase_def reserved_charge)
      qed (use True in auto)
      ultimately show ?thesis using Some Episodes True assms by (auto simp: admit_episode_def)
    qed (use Some Episodes assms in \<open>auto simp: admit_episode_def\<close>)
  qed (use Some assms in \<open>simp_all add: admit_episode_def\<close>)
qed (simp add: admit_episode_def assms)

text \<open>What the settlement of one episode does to the ledger and to the token.\<close>

lemma settle_episode_frame [simp]:
  "st_tasks (settle_episode owned p r s) = st_tasks s" "st_sequence (settle_episode owned p r s) = st_sequence s"
  "st_closed (settle_episode owned p r s) = st_closed s" "st_pending (settle_episode owned p r s) = st_pending s"
  "st_pending_limit (settle_episode owned p r s) = st_pending_limit s"
  "st_workers (settle_episode owned p r s) = st_workers s" "st_groups (settle_episode owned p r s) = st_groups s"
  "st_paused (settle_episode owned p r s) = st_paused s" "st_log (settle_episode owned p r s) = st_log s"
  by (simp_all add: settle_episode_def Let_def)

lemma settle_episode_co:
  "sco (settle_episode owned p r s) =
     (if owned then sco s else if safe_result r then charge (- 1) (plan_res p) (sco s)
      else quarantine (plan_res p) (sco s))"
  by (simp add: settle_episode_def Let_def)

lemma settle_episode_stopped:
  "\<not> stream_stopped (settle_episode owned p r s) \<Longrightarrow> \<not> stream_stopped s \<and> safe_result r"
  by (auto simp: settle_episode_def Let_def split: if_splits)

lemma finish_episode_inv [inv_intros]:
  assumes "stream_inv env s"
  shows "stream_inv env (finish_episode q i out err s)"
proof (cases "find_group q s")
  case (Some g)
  note p = inv_parts [OF assms Some]
  show ?thesis
  proof (cases "sg_stage g")
    case (Episodes w sel phases)
    show ?thesis
    proof (cases "i < length phases \<and> phases ! i = Ep_running")
      case True
      let ?p = "sel ! i"
      let ?r = "execute_episode ?p out"
      let ?s = "(settle_episode (w \<noteq> None) ?p ?r s)\<lparr>st_workers := st_workers s + 1\<rparr>"
      have ok: "phases_ok sel phases" "set sel \<subseteq> set (sg_plans g)"
        using p(3) [unfolded Episodes stage_ok_episodes] episodes_plans [where w = w and sel = sel and plans = "sg_plans g"] by blast+
      have "nonneg_resources (plan_res ?p)"
        using plans_nonneg [OF p(2) ok(2)] True phases_ok_length [OF ok(1)]
        by (simp add: list_all_iff nonneg_plan_def)
      note free = executor_ledger.in_limits_free [OF p(7) this]
      have move: "phase_move s (w \<noteq> None) (plan_res ?p) (phases ! i) ph t"
        if "\<not> working ph" "sco t = sco ?s" "st_token t = st_token ?s" "st_workers t = st_workers s + 1"
          "st_sequence t = st_sequence s" "st_closed t = st_closed s" "st_pending t = st_pending s"
          "st_pending_limit t = st_pending_limit s" "st_groups t = st_groups s" for ph t
      proof -
        have "stream_stopped t = stream_stopped (settle_episode (w \<noteq> None) ?p ?r s)"
          using that by (simp add: stream_stopped_def)
        with that True p free show ?thesis
          using settle_episode_stopped [of "w \<noteq> None" ?p ?r s]
          by (auto simp: phase_move_def settle_episode_co reserved_charge quarantined_quarantine)
      qed
      have "stream_inv env (set_phase q w sel phases i (Ep_raised ty msg) ?s)" for ty msg
        by (rule phase_move_inv [OF assms Some Episodes, of _ "Ep_raised ty msg"])
          (use True move in \<open>auto simp: set_phase_def set_stage_def\<close>)
      moreover have "stream_inv env (set_phase q w sel phases i (Ep_result ?r) (stream_event ''episode_finished'' (Some ?p) ?s))"
        by (rule phase_move_inv [OF assms Some Episodes, of _ "Ep_result ?r"])
          (use True move in \<open>auto simp: set_phase_def set_stage_def\<close>)
      ultimately show ?thesis using Some Episodes True by (auto simp: finish_episode_def Let_def split: option.splits)
    qed (use Some Episodes assms in \<open>auto simp: finish_episode_def\<close>)
  qed (use Some assms in \<open>simp_all add: finish_episode_def\<close>)
qed (simp add: finish_episode_def assms)

lemma collect_group_inv [inv_intros]:
  assumes "stream_inv env s"
  shows "stream_inv env (collect_group q s)"
proof (cases "find_group q s")
  case (Some g)
  note p = inv_parts [OF assms Some]
  show ?thesis
  proof (cases "sg_stage g")
    case (Episodes w sel phases)
    show ?thesis
    proof (cases "list_all phase_done phases")
      case True
      let ?raised = "list_ex (\<lambda>ph. case ph of Ep_raised _ _ \<Rightarrow> True | _ \<Rightarrow> False) phases"
      let ?s = "if ?raised then cancel_stream ''stream_infrastructure_failure'' s else s"
      let ?obs = "map2 collected sel phases"
      have ok: "phases_ok sel phases" using p(3) Episodes by (simp add: stage_ok_episodes)
      have idle: "filter working phases = []" "running_need sel phases ek = 0" for ek
        using phase_done_idle [OF True] running_need_none by (auto simp: filter_empty_conv)
      have obs: "results_for sel ?obs" using results_for_collected [OF ok] .
      show ?thesis
      proof (cases w)
        case None
        have "stream_inv env (finish_stream_group q (Inr ?obs) ?s)"
          by (rule stage_move_inv [OF assms Some, of _ "Group_done (Inr ?obs)"])
            (use None Episodes p idle obs in \<open>auto intro!: stage_moveI simp: stage_ok_episodes\<close>)
        then show ?thesis using Some Episodes True None by (simp add: collect_group_def Let_def)
      next
        case (Some w')
        obtain off rs where w: "w = Some (off, rs)" using Some by (cases w') auto
        let ?st = "Wave_closing off sel ?obs rs"
        have "stream_inv env (set_stage q ?st ?s)"
          by (rule stage_move_inv [OF assms \<open>find_group q s = Some g\<close>, of _ ?st])
            (use w Episodes p idle obs in \<open>auto intro!: stage_moveI simp: stage_ok_episodes kind_ok_def\<close>)
        then show ?thesis using \<open>find_group q s = Some g\<close> Episodes True w by (simp add: collect_group_def Let_def)
      qed
    qed (use Some Episodes assms in \<open>simp add: collect_group_def\<close>)
  qed (use Some assms in \<open>simp_all add: collect_group_def\<close>)
qed (simp add: collect_group_def assms)

text \<open>A wave is settled from the stage \<open>old\<close>, in which its whole request is reserved.\<close>

lemma settle_wave_inv:
  assumes "stream_inv env s" "find_group q s = Some g" "sg_stage g = old" "wave_at (sg_plans g) off sel rs"
    "stage_need old = wave_need sel" "stage_workers old = 0" "stage_slot old = 1" "in_wave old"
    "results_for sel observed"
    "sco t = sco s" "st_tasks t = st_tasks s" "st_workers t = st_workers s" "st_groups t = st_groups s"
    "st_sequence t = st_sequence s" "st_closed t = st_closed s" "st_pending t = st_pending s"
    "st_pending_limit t = st_pending_limit s" "\<not> stream_stopped t \<Longrightarrow> \<not> stream_stopped s"
  shows "stream_inv env (settle_wave q off sel observed rs closure t)"
proof -
  note p = inv_parts [OF assms(1,2)]
  let ?safe = "list_all safe_result observed \<and> \<not> request_uncertain closure"
  let ?obs = "if ?safe then observed else map (reopened_result closure) observed"
  let ?st = "Wave_ready (off + length sel) (rs @ ?obs)"
  let ?t = "settle_wave q off sel observed rs closure t"
  have free: "wave_ledger.in_limits (charge_all (- 1) sel (sco s))"
    using wave_ledger.in_limits_free [OF p(7)] plans_nonneg [OF p(2) wave_at_plans [OF assms(4)]] by blast
  have res: "results_for (take (off + length sel) (sg_plans g)) (rs @ ?obs)"
    unfolding take_wave [OF assms(4)] using assms(4,9) by (intro results_for_append) (simp_all add: wave_at_def)
  show ?thesis
  proof (rule stage_move_inv [OF assms(1,2), of _ ?st])
    show "st_tasks ?t = st_tasks (set_stage q ?st s)"
      using assms(11) by (simp add: settle_wave_def Let_def set_stage_def)
    show "stage_ok (sg_plans g) ?st" using res by simp
    show "kind_ok env (sco s) ?st" using p(4) assms(3,8) by (auto intro: kind_ok_wave)
    show "stage_move s (sg_stage g) ?st ?t"
      using assms p free
      by (intro stage_moveI) (auto simp: settle_wave_def Let_def reserved_charge_all quarantined_quarantine_all)
  qed
qed

lemma wave_admitted_inv [inv_intros]:
  assumes "stream_inv env s"
  shows "stream_inv env (wave_admitted q hook s)"
proof (cases "find_group q s")
  case (Some g)
  note p = inv_parts [OF assms Some]
  show ?thesis
  proof (cases "sg_stage g")
    case (Wave_admitting off sel rs)
    let ?st = "Episodes (Some (off, rs)) sel (replicate (length sel) Ep_waiting)"
    have "stream_inv env (set_stage q ?st s)"
      by (rule stage_move_inv [OF assms Some, of _ ?st])
        (use Wave_admitting p in \<open>auto intro!: stage_moveI simp: kind_ok_def\<close>)
    moreover have "stream_inv env (settle_wave q off sel (map (\<lambda>p. unresolved p why) sel) rs closure
        (cancel_stream reason' s))" for why closure reason'
      by (rule settle_wave_inv [OF assms Some Wave_admitting]) (use Wave_admitting p in auto)
    ultimately show ?thesis using Some Wave_admitting by (simp add: wave_admitted_def)
  qed (use Some assms in \<open>simp_all add: wave_admitted_def\<close>)
qed (simp add: wave_admitted_def assms)

lemma wave_closed_inv [inv_intros]:
  assumes "stream_inv env s"
  shows "stream_inv env (wave_closed q closure s)"
proof (cases "find_group q s")
  case (Some g)
  note p = inv_parts [OF assms Some]
  show ?thesis
  proof (cases "sg_stage g")
    case (Wave_closing off sel observed rs)
    have "stream_inv env (settle_wave q off sel observed rs (closure_value closure) s)"
      by (rule settle_wave_inv [OF assms Some Wave_closing]) (use Wave_closing p in auto)
    then show ?thesis using Some Wave_closing by (simp add: wave_closed_def)
  qed (use Some assms in \<open>simp_all add: wave_closed_def\<close>)
qed (simp add: wave_closed_def assms)

lemma select_wave_prefix:
  "\<exists>n \<le> length ps. select_wave c sel ps = sel @ take n ps"
proof (induction ps arbitrary: sel)
  case (Cons p ps)
  obtain n where "n \<le> length ps" "select_wave c (sel @ [p]) ps = (sel @ [p]) @ take n ps" using Cons by blast
  then show ?case
    by (cases "fits_capacity c (map plan_res (sel @ [p]))") (auto intro: exI [of _ "Suc n"] exI [of _ 0])
qed simp

lemma select_wave_wave_at:
  assumes "results_for (take off plans) rs" "sel = select_wave c [] (take n (drop off plans))" "sel \<noteq> []"
    "off < length plans"
  shows "wave_at plans off sel rs"
proof -
  obtain m where m: "m \<le> length (take n (drop off plans))" "sel = take m (take n (drop off plans))"
    using select_wave_prefix [of "take n (drop off plans)" c "[]"] assms(2) by auto
  then have len: "length sel = m" by simp
  have "sel = take m (drop off plans)" using m by (simp add: min_def split: if_splits)
  moreover have "m \<le> length plans - off" using m(1) by simp
  then have "off + m \<le> length plans" using assms(4) by simp
  ultimately show ?thesis using assms(1,3) len by (simp add: wave_at_def)
qed

lemma next_wave_inv [inv_intros]:
  assumes "stream_inv env s"
  shows "stream_inv env (next_wave q s)"
proof (cases "find_group q s")
  case (Some g)
  note p = inv_parts [OF assms Some]
  show ?thesis
  proof (cases "sg_stage g")
    case (Wave_ready off rs)
    let ?plans = "sg_plans g"
    let ?sel = "select_wave (sco s) [] (take (nat (max_workers (sco s))) (drop off ?plans))"
    have rs: "results_for (take off ?plans) rs" using p(3) Wave_ready by simp
    have fin: "stream_inv env (finish_stream_group q out s)" if "stage_ok ?plans (Group_done out)" for out
      by (rule stage_move_inv [OF assms Some, of _ "Group_done out"])
        (use Wave_ready p that in \<open>auto intro!: stage_moveI\<close>)
    have "stream_inv env (finish_stream_group q (Inr rs) s)" if "length ?plans \<le> off"
      by (rule fin) (use rs that in simp)
    moreover have "stream_inv env (finish_stream_group q (Inr (rs @ map (\<lambda>p. not_admitted p why) (drop off ?plans))) s)" for why
      by (rule fin) (use results_for_append [OF rs results_for_not_admitted, of "drop off ?plans"] in simp)
    moreover have "stream_inv env (finish_stream_group q (Inl e) s)" for e by (rule fin) simp
    moreover have "stream_inv env (set_stage q (Wave_admitting off ?sel rs) (s\<lparr>sco := charge_all 1 ?sel (sco s)\<rparr>))"
      if "off < length ?plans" "?sel \<noteq> []" "wave_fits (sco s) (map plan_res ?sel)"
      by (rule stage_move_inv [OF assms Some, of _ "Wave_admitting off ?sel rs"])
        (use Wave_ready p that select_wave_wave_at [OF rs refl that(2,1)] wave_ledger.in_limits_admit [OF p(7) that(3)] in
          \<open>auto intro!: stage_moveI simp: kind_ok_def reserved_charge_all\<close>)
    ultimately show ?thesis using Some Wave_ready assms by (auto simp: next_wave_def Let_def)
  qed (use Some assms in \<open>simp_all add: next_wave_def\<close>)
qed (simp add: next_wave_def assms)

section \<open>Submitting, returning, pausing and closing\<close>

text \<open>A step that changes neither the tasks nor the ledger, the credits or the sequence.\<close>

lemma stream_inv_cong:
  assumes "st_tasks t = st_tasks s" "sco t = sco s" "st_pending t = st_pending s" "st_workers t = st_workers s"
    "st_groups t = st_groups s" "st_pending_limit t = st_pending_limit s" "st_sequence t = st_sequence s"
    "st_closed t \<Longrightarrow> st_closed s \<or> st_tasks s = []" "\<not> stream_stopped t \<Longrightarrow> \<not> stream_stopped s"
  shows "stream_inv env s \<Longrightarrow> stream_inv env t"
  using assms by (auto simp: stream_inv_def tasks_inv_def credit_inv_def stream_ledger_def over_tasks_def)

lemma cancel_stream_inv [inv_intros]: "stream_inv env s \<Longrightarrow> stream_inv env (cancel_stream why s)"
  by (rule stream_inv_cong) simp_all

lemma event_inv [inv_intros]: "stream_inv env s \<Longrightarrow> stream_inv env (stream_event n p s)"
  by (rule stream_inv_cong) simp_all

lemma pause_inv [inv_intros]:
  "stream_inv env s \<Longrightarrow> stream_inv env (pause_begin s)" "stream_inv env s \<Longrightarrow> stream_inv env (close_begin s)"
  "stream_inv env s \<Longrightarrow> stream_inv env (pause_end s)" "stream_inv env s \<Longrightarrow> stream_inv env (pause_waiter_cancelled s)"
  "stream_inv env s \<Longrightarrow> stream_inv env (waiter_cancelled q s)" "stream_inv env s \<Longrightarrow> stream_inv env (fst (resume_stream s))"
proof -
  assume i: "stream_inv env s"
  show p: "stream_inv env (pause_begin s)"
    by (rule stream_inv_cong [OF _ _ _ _ _ _ _ _ _ i]) (simp_all add: pause_begin_def stream_stopped_def)
  show "stream_inv env (close_begin s)" using i p by (simp add: close_begin_def)
  show "stream_inv env (pause_end s)" using i by (simp add: pause_end_def event_inv)
  show "stream_inv env (pause_waiter_cancelled s)" using i by (simp add: pause_waiter_cancelled_def cancel_stream_inv)
  show "stream_inv env (waiter_cancelled q s)"
    using i by (simp add: waiter_cancelled_def cancel_stream_inv split: option.splits)
  have "stream_inv env (s\<lparr>st_paused := False\<rparr>)"
    by (rule stream_inv_cong [OF _ _ _ _ _ _ _ _ _ i]) (simp_all add: stream_stopped_def)
  then show "stream_inv env (fst (resume_stream s))" using i by (simp add: resume_stream_def event_inv)
qed

lemma check_stream_plans_fit:
  "check_stream_plans env c plans owners = (owners', Inr u) \<Longrightarrow> list_all valid_plan plans \<Longrightarrow>
   list_all (plan_fits env c) plans"
  by (induction env c plans owners rule: check_stream_plans.induct)
    (auto simp: plan_fits_def Let_def split: option.splits if_splits)

text \<open>An accepted submission appends one queued group under a new sequence.\<close>

lemma submit_group_cases:
  obtains (refused) owners e where "submit_group env plans seq s = (s\<lparr>st_stage_owners := owners\<rparr>, Inl e)"
  | (accepted) q owners where "seq = JInt q" "st_sequence s < q" "st_opened s" "\<not> st_closed s" "\<not> st_paused s"
      "plans \<noteq> []" "distinct (map plan_identity plans)" "length (remdups (map group_of plans)) = 1"
      "st_pending s + int (length plans) \<le> st_pending_limit s"
      "check_stream_plans env (sco s) plans (st_stage_owners s) = (owners, Inr ())"
      "submit_group env plans seq s =
        (s\<lparr>st_stage_owners := owners, st_sequence := q, st_run_id := Some (run_id (plan_identity (hd plans))),
           st_pending := st_pending s + int (length plans),
           st_tasks := st_tasks s @ [\<lparr>sg_sequence = q, sg_plans = plans, sg_stage = Queued\<rparr>]\<rparr>, Inr ())"
proof -
  have same: "s = s\<lparr>st_stage_owners := st_stage_owners s\<rparr>" by simp
  have no: thesis if "submit_group env plans seq s = (s, Inl e)" for e
    using refused [of "st_stage_owners s" e] that same by simp
  show thesis
  proof (cases "\<exists>q. seq = JInt q")
    case False
    then show thesis
      using no [of "ValueError ''stream admission is unavailable''"]
        no [of "ValueError ''stream requires a new monotonic sequence and one unique complete group''"]
      by (cases seq; cases "\<not> st_opened s \<or> st_closed s \<or> st_paused s") (simp_all add: submit_group_def)
  next
    case True
    then obtain q where q: "seq = JInt q" by blast
    obtain owners out where c: "check_stream_plans env (sco s) plans (st_stage_owners s) = (owners, out)"
      by (cases "check_stream_plans env (sco s) plans (st_stage_owners s)")
    note d = submit_group_def [of env plans seq s, unfolded q json.case c prod.case]
    show thesis
    proof (cases "\<not> st_opened s \<or> st_closed s \<or> st_paused s")
      case True
      then show thesis using no d q by simp
    next
      case a: False
      show thesis
      proof (cases "q \<le> st_sequence s \<or> plans = [] \<or> \<not> distinct (map plan_identity plans) \<or>
          length (remdups (map group_of plans)) \<noteq> 1")
        case True
        then show thesis using no d q a by (simp only: if_True if_False simp_thms)
      next
        case b: False
        show thesis
        proof (cases "list_ex (\<lambda>p. run_id (plan_identity p) \<noteq> run_id (plan_identity (hd plans))) plans \<or>
            st_run_id s \<notin> {None, Some (run_id (plan_identity (hd plans)))}")
          case True
          then show thesis using no d q a b by (simp only: if_True if_False simp_thms)
        next
          case run: False
          show thesis
          proof (cases "st_pending s + int (length plans) > st_pending_limit s")
            case True
            then show thesis using no d q a b run by (simp only: if_True if_False simp_thms)
          next
            case limit: False
            note d' = d [simplified if_not_P [OF a] if_not_P [OF b] if_not_P [OF run] if_not_P [OF limit]]
            show thesis
            proof (cases out)
              case (Inl e)
              then show thesis using refused [of owners e] d' q by simp
            next
              case (Inr u)
              show thesis
                by (rule accepted [of q owners]) (use a b limit d' q c Inr in \<open>simp_all add: not_le\<close>)
            qed
          qed
        qed
      qed
    qed
  qed
qed

lemma submit_inv [inv_intros]:
  assumes "stream_inv env s" "list_all valid_plan plans"
  shows "stream_inv env (fst (submit_group env plans seq s))"
proof (cases rule: submit_group_cases [of env plans seq s])
  case (refused owners e)
  then show ?thesis
    using assms(1) by (auto intro: stream_inv_cong [of "s\<lparr>st_stage_owners := owners\<rparr>" s] simp: stream_stopped_def)
next
  case (accepted q owners)
  let ?t = "fst (submit_group env plans seq s)"
  let ?g = "\<lparr>sg_sequence = q, sg_plans = plans, sg_stage = Queued\<rparr>"
  have fit: "list_all (plan_fits env (sco s)) plans"
    using check_stream_plans_fit accepted(10) assms(2) by blast
  have t: "st_tasks ?t = st_tasks s @ [?g]" "sco ?t = sco s" "st_sequence ?t = q" "st_closed ?t = st_closed s"
    "stream_stopped ?t = stream_stopped s" "st_workers ?t = st_workers s" "st_groups ?t = st_groups s"
    "st_pending ?t = st_pending s + int (length plans)" "st_pending_limit ?t = st_pending_limit s"
    unfolding accepted(11) by (simp_all add: stream_stopped_def)
  have "tasks_inv env ?t"
    using assms(1) accepted(2,4,6) fit by (force simp: stream_inv_def tasks_inv_def t group_ok_def)
  moreover have "credit_inv ?t"
    using assms(1) accepted(9) by (simp add: stream_inv_def credit_inv_def t over_tasks_def)
  moreover have "stream_ledger ?t"
    using assms(1) by (simp add: stream_inv_def stream_ledger_def t over_tasks_def)
  ultimately show ?thesis by (simp add: stream_inv_def)
qed

lemma over_tasks_remove:
  fixes f :: "stream_group \<Rightarrow> 'a::ab_group_add"
  assumes "distinct (map sg_sequence gs)" "g \<in> set gs"
  shows "sum_list (map f (filter (\<lambda>h. sg_sequence h \<noteq> sg_sequence g) gs)) = sum_list (map f gs) - f g"
  using assms
proof (induction gs)
  case (Cons h gs)
  show ?case
  proof (cases "h = g")
    case True
    with Cons.prems have "filter (\<lambda>h. sg_sequence h \<noteq> sg_sequence g) gs = gs"
      by (intro filter_True) (auto simp: image_iff)
    with True show ?thesis by simp
  next
    case False
    with Cons.prems have "g \<in> set gs" "sg_sequence h \<noteq> sg_sequence g" by (auto simp: image_iff)
    with Cons show ?thesis by (simp add: algebra_simps)
  qed
qed simp

lemma return_inv [inv_intros]:
  assumes "stream_inv env s"
  shows "stream_inv env (fst (return_group q s))"
proof (cases "find_group q s")
  case (Some g)
  note p = inv_parts [OF assms Some]
  have q: "sg_sequence g = q" "g \<in> set (st_tasks s)" using find_group_SomeD [OF Some] by simp_all
  show ?thesis
  proof (cases "sg_stage g")
    case (Group_done out)
    let ?t = "s\<lparr>st_tasks := filter (\<lambda>g. sg_sequence g \<noteq> q) (st_tasks s),
      st_pending := st_pending s - int (length (sg_plans g))\<rparr>"
    have sums: "over_tasks f (s\<lparr>st_tasks := filter (\<lambda>g. sg_sequence g \<noteq> q) (st_tasks s), st_pending := n\<rparr>) =
      over_tasks f s - f g" for f :: "stream_group \<Rightarrow> 'a::ab_group_add" and n
      using over_tasks_remove [OF p(8) q(2), of f] q(1) by (simp add: over_tasks_def)
    have "tasks_inv env ?t"
      using assms by (auto simp: stream_inv_def tasks_inv_def intro: distinct_map_filter)
    moreover have "credit_inv ?t"
      using assms Group_done by (simp add: stream_inv_def credit_inv_def sums)
    moreover have "stream_ledger ?t"
      using assms Group_done by (simp add: stream_inv_def stream_ledger_def sums stream_stopped_def)
    ultimately have "stream_inv env ?t" by (simp add: stream_inv_def)
    then show ?thesis using Some Group_done by (simp add: return_group_def)
  qed (use Some assms in \<open>simp_all add: return_group_def\<close>)
qed (simp add: return_group_def assms)

lemma close_started_frame:
  "close_started ending bs s = (t, fs) \<Longrightarrow> st_tasks t = st_tasks s \<and> sco t = sco s \<and> st_pending t = st_pending s \<and>
   st_workers t = st_workers s \<and> st_groups t = st_groups s \<and> st_pending_limit t = st_pending_limit s \<and>
   st_sequence t = st_sequence s \<and> st_closed t = st_closed s \<and> st_log t = st_log s \<and> st_paused t = st_paused s \<and>
   (stream_stopped s \<longrightarrow> stream_stopped t)"
proof (induction bs arbitrary: s t fs)
  case (Cons b bs)
  obtain u f where u: "close_one (ending b) s = (u, f)" by (cases "close_one (ending b) s")
  obtain v gs where v: "close_started ending bs u = (v, gs)" by (cases "close_started ending bs u")
  have "t = v" using Cons.prems u v by simp
  moreover have "u = s \<or> u = cancel_stream ''stream_close_waiter_cancelled'' s"
    using u by (auto simp: close_one_def Let_def split: if_splits)
  ultimately show ?case using Cons.IH [OF v] by auto
qed simp

text \<open>A failed close leaves its failures in the coordinator; the ledger does not see them.\<close>

lemma failures_inv:
  assumes "stream_inv env s"
  shows "stream_inv env (s\<lparr>sco := (sco s)\<lparr>lifecycle_failures := fs\<rparr>\<rparr>)"
proof -
  let ?c = "(sco s)\<lparr>lifecycle_failures := fs\<rparr>"
  have r: "reserved_amount ?c = reserved_amount (sco s)" "quarantined_amount ?c = quarantined_amount (sco s)"
    "capacity_limit ?c = capacity_limit (sco s)"
    by (simp_all add: fun_eq_iff reserved_amount_def quarantined_amount_def capacity_limit_def)
  have "same_config ?c (sco s)" by (simp add: same_config_def)
  note g = group_ok_config [OF this]
  show ?thesis
    using assms in_limits_cong [OF r(1,3)]
    by (simp add: stream_inv_def tasks_inv_def credit_inv_def stream_ledger_def over_tasks_def r g)
qed

lemma close_stream_inv [inv_intros]:
  assumes "stream_inv env s"
  shows "stream_inv env (fst (close_end ending s))"
proof (cases "st_tasks s = []")
  case True
  obtain t fs where t: "close_started ending (rev (st_started s)) ((pause_end s)\<lparr>st_closed := True\<rparr>) = (t, fs)"
    by (cases "close_started ending (rev (st_started s)) ((pause_end s)\<lparr>st_closed := True\<rparr>)")
  have "stream_inv env t"
    by (rule stream_inv_cong [OF _ _ _ _ _ _ _ _ _ assms])
      (use close_started_frame [OF t] True in \<open>auto simp: pause_end_def stream_stopped_def\<close>)
  then show ?thesis using True t by (simp add: close_end_def event_inv failures_inv)
qed (simp add: close_end_def assms)

fun valid_op :: "stream_op \<Rightarrow> bool" where
  "valid_op (Submit plans seq) = list_all valid_plan plans"
| "valid_op op = True"

lemma stream_step_inv: "stream_inv env s \<Longrightarrow> valid_op op \<Longrightarrow> stream_inv env (stream_step env op s)"
  by (cases op) (simp_all add: inv_intros)

section \<open>Reachable streams\<close>

inductive stream_reach :: "stream_env \<Rightarrow> coordinator \<Rightarrow> stream \<Rightarrow> bool" for env c where
  opened: "stream_reach env c (fst (open_stream env c limit tok hook ending))"
| stepped: "stream_reach env c s \<Longrightarrow> valid_op op \<Longrightarrow> stream_reach env c (stream_step env op s)"

definition nonneg_capacities :: "(string \<rightharpoonup> resources) \<Rightarrow> bool" where
  "nonneg_capacities caps \<longleftrightarrow> (\<forall>e r. caps e = Some r \<longrightarrow> nonneg_resources r)"

lemma fresh_stream_inv:
  assumes "Coordinator w g caps dt pol = Inr c" "nonneg_capacities caps" "0 \<le> n"
  shows "stream_inv env (fresh_stream c n tok)" "stream_inv env (unopened c)"
proof -
  have c: "reserved c = Map.empty" "quarantined c = Map.empty" "capacities c = caps" "1 \<le> max_workers c" "1 \<le> max_groups c"
    using assms(1) by (auto simp: Coordinator_def split: if_splits)
  have lim: "executor_ledger.in_limits d" if "reserved d = Map.empty" "capacities d = caps" for d
    using assms(2) that by (auto simp: executor_ledger.in_limits_def capacity_limit_def reserved_amount_def
        nonneg_capacities_def nonneg_resources_def)
  show "stream_inv env (fresh_stream c n tok)" "stream_inv env (unopened c)"
    using c assms(3) lim
    by (simp_all add: stream_inv_def tasks_inv_def credit_inv_def stream_ledger_def over_tasks_def fresh_stream_def
        unopened_def reserved_amount_def quarantined_amount_def)
qed

lemma start_stream_frame:
  "start_stream hook bs s = (t, out) \<Longrightarrow> \<exists>st. t = s\<lparr>st_started := st\<rparr>"
proof (induction hook bs s rule: start_stream.induct)
  case (2 hook name b bs s)
  then show ?case by (fastforce split: if_splits hook_outcome.splits simp: Let_def)
next
  case (1 hook s)
  then show ?case by (intro exI [of _ "st_started s"]) simp
qed

lemma open_stream_inv:
  assumes "Coordinator w g caps dt pol = Inr c" "nonneg_capacities caps"
  shows "stream_inv env (fst (open_stream env c limit tok hook ending))"
proof (cases "\<exists>n. limit = JInt n \<and> 1 \<le> n")
  case True
  then obtain n where n: "limit = JInt n" "1 \<le> n" by blast
  obtain s out where s: "start_stream hook (backend_items env) (fresh_stream c n tok) = (s, out)"
    by (cases "start_stream hook (backend_items env) (fresh_stream c n tok)")
  obtain st where "s = (fresh_stream c n tok)\<lparr>st_started := st\<rparr>" using start_stream_frame [OF s] by blast
  moreover have "stream_inv env (fresh_stream c n tok)" using fresh_stream_inv(1) [OF assms] n(2) by simp
  ultimately have "stream_inv env s"
    by (intro stream_inv_cong [of s "fresh_stream c n tok"]) (simp_all add: stream_stopped_def)
  moreover have "\<not> coordinator_used c" using assms(1) by (auto simp: Coordinator_def split: if_splits)
  ultimately show ?thesis
    using n s close_stream_inv [OF pause_inv(2), of env s ending]
    by (cases out; cases "close_end ending (close_begin s)") (auto simp: open_stream_def event_inv)
next
  case False
  then have "fst (open_stream env c limit tok hook ending) = unopened c"
    by (cases limit) (auto simp: open_stream_def)
  then show ?thesis using fresh_stream_inv(2) [OF assms order_refl] by simp
qed

lemma reach_inv:
  assumes "Coordinator w g caps dt pol = Inr c" "nonneg_capacities caps" "stream_reach env c s"
  shows "stream_inv env s"
  using assms(3) by induction (simp_all add: open_stream_inv [OF assms(1,2)] stream_step_inv)

lemma over_tasks_zero: "(\<And>g. g \<in> set (st_tasks s) \<Longrightarrow> f g = 0) \<Longrightarrow> over_tasks f s = 0"
  unfolding over_tasks_def by (induction "st_tasks s" arbitrary: s) (simp_all add: sum_list_eq_0_iff cong: map_cong)

section \<open>Progress\<close>

text \<open>An episode or a wave hook runs outside the coordinator.\<close>

fun outside :: "group_stage \<Rightarrow> bool" where
  "outside (Wave_admitting off sel rs) = True"
| "outside (Wave_closing off sel observed rs) = True"
| "outside (Episodes w sel phases) = (Ep_running \<in> set phases)"
| "outside _ = False"

definition internal_ops :: "int \<Rightarrow> nat \<Rightarrow> stream_op set" where
  "internal_ops q i = {Begin q, Next_wave q, Take_worker q i, Admit_episode q i, Collect q, Return_group q}"

definition can_move :: "stream_env \<Rightarrow> stream \<Rightarrow> bool" where
  "can_move env s \<longleftrightarrow> (\<exists>q i. \<exists>op \<in> internal_ops q i. stream_step env op s \<noteq> s)"

lemma find_updated:
  "find (\<lambda>g. sg_sequence g = q) gs = Some g \<Longrightarrow>
   find (\<lambda>g. sg_sequence g = q) (map (\<lambda>g. if sg_sequence g = q then g\<lparr>sg_stage := st\<rparr> else g) gs) =
     Some (g\<lparr>sg_stage := st\<rparr>)"
  by (induction gs) (auto split: if_splits)

lemma stage_moved:
  assumes "find_group q s = Some g" "st_tasks t = st_tasks (set_stage q st s)" "sg_stage g \<noteq> st"
  shows "t \<noteq> s"
proof
  assume "t = s"
  moreover have "find_group q t = Some (g\<lparr>sg_stage := st\<rparr>)"
    using assms(1,2) find_updated [of q "st_tasks s" g st] by (simp add: find_group_def set_stage_def)
  ultimately have "g = g\<lparr>sg_stage := st\<rparr>" using assms(1) by simp
  then have "sg_stage g = sg_stage (g\<lparr>sg_stage := st\<rparr>)" by (rule arg_cong)
  then show False using assms(3) by simp
qed

lemma moveI: "op \<in> internal_ops q i \<Longrightarrow> stream_step env op s \<noteq> s \<Longrightarrow> can_move env s"
  by (auto simp: can_move_def)

lemma fits_empty:
  assumes "\<not> exceeds_capacity c r" "accounting r \<in> {''episode'', ''backend-stage''}" "\<And>ek. reserved_amount c ek = 0"
  shows "fits c r"
proof -
  have "qvec_of (reserved c (executor r)) k = 0" for k
    using assms(3) [of "(executor r, k)"] by (simp add: reserved_amount_def)
  then show ?thesis
    using assms(1,2)
    by (auto simp: fits_def exceeds_capacity_def backend_stage_def Let_def list_all_iff list_ex_iff not_less split: option.splits)
qed

lemma wave_fits_empty:
  assumes "fits_capacity c rs" "\<And>ek. reserved_amount c ek = 0"
  shows "wave_fits c rs"
proof -
  have "qvec_of (reserved c e) k = 0" for e k
    using assms(2) [of "(e, k)"] by (simp add: reserved_amount_def)
  then show ?thesis
    using assms(1) by (auto simp: wave_fits_def fits_capacity_def list_all_iff list_ex_iff not_less split: option.splits)
qed

lemma select_wave_fits:
  "fits_capacity c (map plan_res sel) \<Longrightarrow> fits_capacity c (map plan_res (select_wave c sel ps))"
  by (induction c sel ps rule: select_wave.induct) simp_all

lemma move_waiting:
  assumes "find_group q s = Some g" "sg_stage g = Episodes w sel phases" "i < length phases" "phases ! i = Ep_waiting"
    "1 \<le> st_workers s"
  shows "can_move env s"
proof (rule moveI)
  show "Take_worker q i \<in> internal_ops q i" by (simp add: internal_ops_def)
  have "phases[i := Ep_worker] \<noteq> phases" using assms(3,4) by (metis episode_phase.distinct(1) nth_list_update_eq)
  then show "stream_step env (Take_worker q i) s \<noteq> s"
    using stage_moved [OF assms(1), of _ "Episodes w sel (phases[i := Ep_worker])"] assms
    by (simp add: take_worker_def set_phase_def)
qed

lemma move_worker:
  assumes "find_group q s = Some g" "sg_stage g = Episodes w sel phases" "i < length phases" "phases ! i = Ep_worker"
    "stream_stopped s \<or> w \<noteq> None \<or> fits (sco s) (plan_res (sel ! i))"
  shows "can_move env s"
proof (rule moveI)
  show "Admit_episode q i \<in> internal_ops q i" by (simp add: internal_ops_def)
  have ne: "phases \<noteq> phases[i := ph]" if "ph \<noteq> Ep_worker" for ph using assms(3,4) that by (metis nth_list_update_eq)
  have "t \<noteq> s" if "st_tasks t = st_tasks (set_stage q (Episodes w sel (phases[i := ph])) s)" "ph \<noteq> Ep_worker" for ph t
    by (rule stage_moved [OF assms(1) that(1)]) (use assms(2) ne [OF that(2)] in simp)
  note m = this [of _ "Ep_running"] this [of _ "Ep_result _"]
  show "stream_step env (Admit_episode q i) s \<noteq> s"
  proof (cases "stream_stopped s")
    case True
    then show ?thesis using assms by (simp add: admit_episode_def set_phase_def m(2))
  next
    case False
    let ?a = "set_phase q w sel phases i Ep_running (stream_event ''episode_admitted'' (Some (sel ! i))
        (if w = None then s\<lparr>sco := charge 1 (plan_res (sel ! i)) (sco s)\<rparr> else s))"
    have "stream_step env (Admit_episode q i) s = ?a" using False assms by (auto simp: admit_episode_def)
    moreover have "?a \<noteq> s" by (rule m(1)) (simp_all add: set_phase_def)
    ultimately show ?thesis by simp
  qed
qed

lemma move_done:
  assumes "find_group q s = Some g" "sg_stage g = Episodes w sel phases" "list_all phase_done phases"
  shows "can_move env s"
proof (rule moveI)
  show "Collect q \<in> internal_ops q 0" by (simp add: internal_ops_def)
  have m: "t \<noteq> s" if "st_tasks t = st_tasks (set_stage q st s)" "\<forall>w sel phases. st \<noteq> Episodes w sel phases" for st t
    by (rule stage_moved [OF assms(1) that(1)]) (use assms(2) that(2) in auto)
  show "stream_step env (Collect q) s \<noteq> s"
  proof (cases w)
    case None
    show ?thesis
      using assms None by (simp add: collect_group_def Let_def) (intro conjI impI; rule m [of _ "Group_done _"]; simp)
  next
    case (Some w')
    obtain off rs where "w = Some (off, rs)" using Some by (cases w') auto
    then show ?thesis
      using assms by (simp add: collect_group_def Let_def) (intro conjI impI; rule m [of _ "Wave_closing _ _ _ _"]; simp)
  qed
qed

lemma move_ready:
  assumes "find_group q s = Some g" "sg_stage g = Wave_ready off rs" "\<And>ek. reserved_amount (sco s) ek = 0"
  shows "can_move env s"
proof (rule moveI)
  show "Next_wave q \<in> internal_ops q 0" by (simp add: internal_ops_def)
  have m: "t \<noteq> s" if "st_tasks t = st_tasks (set_stage q st s)" "\<forall>off rs. st \<noteq> Wave_ready off rs" for st t
    by (rule stage_moved [OF assms(1) that(1)]) (use assms(2) that(2) in auto)
  have f: "finish_stream_group q out s \<noteq> s" for out by (rule m [of _ "Group_done out"]) simp_all
  let ?sel = "select_wave (sco s) [] (take (nat (max_workers (sco s))) (drop off (sg_plans g)))"
  have "fits_capacity (sco s) (map plan_res [])" by (simp add: fits_capacity_def)
  then have "wave_fits (sco s) (map plan_res ?sel)" by (intro wave_fits_empty select_wave_fits assms(3))
  moreover have "set_stage q (Wave_admitting off ?sel rs) (s\<lparr>sco := charge_all 1 ?sel (sco s)\<rparr>) \<noteq> s"
    by (rule m [of _ "Wave_admitting off ?sel rs"]) simp_all
  ultimately show "stream_step env (Next_wave q) s \<noteq> s"
    using assms(1,2) f by (simp add: next_wave_def Let_def)
qed

lemma move_ready_stopped:
  assumes "find_group q s = Some g" "sg_stage g = Wave_ready off rs" "stream_stopped s"
  shows "can_move env s"
proof (rule moveI)
  show "Next_wave q \<in> internal_ops q 0" by (simp add: internal_ops_def)
  have "finish_stream_group q out s \<noteq> s" for out
    by (rule stage_moved [OF assms(1), of _ "Group_done out"]) (use assms(2) in simp_all)
  then show "stream_step env (Next_wave q) s \<noteq> s" using assms by (simp add: next_wave_def)
qed

lemma move_queued:
  assumes "find_group q s = Some g" "sg_stage g = Queued" "1 \<le> st_groups s"
  shows "can_move env s"
proof (rule moveI)
  show "Begin q \<in> internal_ops q 0" by (simp add: internal_ops_def)
  have m: "t \<noteq> s" if "st_tasks t = st_tasks (set_stage q st s)" "st \<noteq> Queued" for st t
    by (rule stage_moved [OF assms(1) that(1)]) (use assms(2) that(2) in auto)
  have f: "set_stage q st (s\<lparr>st_groups := n\<rparr>) \<noteq> s" if "st \<noteq> Queued" for st n
    by (rule m [of _ st]) (use that in simp_all)
  have d: "finish_stream_group q out (s\<lparr>st_groups := n\<rparr>) \<noteq> s" for out n
    by (rule m [of _ "Group_done out"]) simp_all
  show "stream_step env (Begin q) s \<noteq> s"
    using assms f d by (simp add: begin_group_def Let_def)
qed

lemma move_done_group:
  assumes "find_group q s = Some g" "sg_stage g = Group_done out"
  shows "can_move env s"
proof (rule moveI)
  show "Return_group q \<in> internal_ops q 0" by (simp add: internal_ops_def)
  have g: "g \<in> set (st_tasks s)" "sg_sequence g = q" using find_group_SomeD [OF assms(1)] by simp_all
  have "filter (\<lambda>g. sg_sequence g \<noteq> q) (st_tasks s) \<noteq> st_tasks s" using g by (auto simp: filter_id_conv)
  moreover have "st_tasks (stream_step env (Return_group q) s) = filter (\<lambda>g. sg_sequence g \<noteq> q) (st_tasks s)"
    using assms by (simp add: return_group_def)
  ultimately show "stream_step env (Return_group q) s \<noteq> s" by metis
qed

lemma not_done_phase: "\<not> phase_done ph \<Longrightarrow> ph = Ep_waiting \<or> ph = Ep_worker \<or> ph = Ep_running"
  by (cases ph) simp_all

lemma stream_moves:
  assumes "stream_inv env s" "all_waves env (sco s) \<or> no_waves env (sco s)" "st_tasks s \<noteq> []"
    "\<forall>g \<in> set (st_tasks s). \<not> outside (sg_stage g)"
  shows "can_move env s"
proof -
  have inv: "tasks_inv env s" "credit_inv s" "stream_ledger s" using assms(1) by (simp_all add: stream_inv_def)
  have found: "find_group (sg_sequence g) s = Some g" if "g \<in> set (st_tasks s)" for g
    using find_group_in that inv(1) by (simp add: tasks_inv_def)
  have ok: "stage_ok (sg_plans g) (sg_stage g)" "kind_ok env (sco s) (sg_stage g)" "list_all (plan_fits env (sco s)) (sg_plans g)"
    if "g \<in> set (st_tasks s)" for g
    using inv(1) that by (simp_all add: tasks_inv_def group_ok_def)
  have empty: "reserved_amount (sco s) ek = 0"
    if "\<not> stream_stopped s" "\<And>g. g \<in> set (st_tasks s) \<Longrightarrow> stage_need (sg_stage g) ek = 0" for ek
    using inv(3) that over_tasks_zero [of s "\<lambda>g. stage_need (sg_stage g) ek"] by (simp add: stream_ledger_def)
  consider (returned) g out where "g \<in> set (st_tasks s)" "sg_stage g = Group_done out"
    | (episodes) g w sel phases where "g \<in> set (st_tasks s)" "sg_stage g = Episodes w sel phases"
    | (ready) g off rs where "g \<in> set (st_tasks s)" "sg_stage g = Wave_ready off rs"
        "\<forall>h \<in> set (st_tasks s). \<forall>w sel phases. sg_stage h \<noteq> Episodes w sel phases"
    | (queued) "\<forall>h \<in> set (st_tasks s). sg_stage h = Queued"
  proof -
    have k: "sg_stage g = Queued \<or> (\<exists>off rs. sg_stage g = Wave_ready off rs) \<or>
        (\<exists>w sel phases. sg_stage g = Episodes w sel phases) \<or> (\<exists>out. sg_stage g = Group_done out)"
      if "g \<in> set (st_tasks s)" for g
      using assms(4) that by (cases "sg_stage g") auto
    show thesis
    proof (cases "\<exists>g \<in> set (st_tasks s). \<exists>out. sg_stage g = Group_done out")
      case no_done: False
      show thesis
      proof (cases "\<exists>g \<in> set (st_tasks s). \<exists>w sel phases. sg_stage g = Episodes w sel phases")
        case no_episodes: False
        show thesis
        proof (cases "\<exists>g \<in> set (st_tasks s). \<exists>off rs. sg_stage g = Wave_ready off rs")
          case True
          then show thesis using that(3) no_episodes by blast
        next
          case False
          then show thesis using that(4) no_done no_episodes k by blast
        qed
      qed (use that(2) in blast)
    qed (use that(1) in blast)
  qed
  then show ?thesis
  proof cases
    case returned
    then show ?thesis using move_done_group found by blast
  next
    case queued
    obtain g where g: "g \<in> set (st_tasks s)" using assms(3) by (cases "st_tasks s") auto
    have "st_groups s = max_groups (sco s)"
      using inv(2) over_tasks_zero [of s "\<lambda>g. stage_slot (sg_stage g)"] queued by (simp add: credit_inv_def)
    then show ?thesis using move_queued [OF found [OF g]] queued g inv(2) by (simp add: credit_inv_def)
  next
    case ready
    have zero: "stage_need (sg_stage h) ek = 0" if "h \<in> set (st_tasks s)" for h ek
      using assms(4) ready(3) that by (cases "sg_stage h") auto
    show ?thesis
    proof (cases "stream_stopped s")
      case True
      then show ?thesis using found [OF ready(1)] ready(2) move_ready_stopped by blast
    next
      case False
      then show ?thesis
        using move_ready [OF found [OF ready(1)] ready(2)] empty zero by blast
    qed
  next
    case episodes
    note running = assms(4)
    show ?thesis
    proof (cases "\<exists>h \<in> set (st_tasks s). \<exists>w sel phases. sg_stage h = Episodes w sel phases \<and> Ep_worker \<in> set phases")
      case True
      then obtain h w sel phases where h: "h \<in> set (st_tasks s)" "sg_stage h = Episodes w sel phases" "Ep_worker \<in> set phases"
        by blast
      then obtain i where i: "i < length phases" "phases ! i = Ep_worker" by (auto simp: in_set_conv_nth)
      have "fits (sco s) (plan_res (sel ! i))" if "\<not> stream_stopped s" "w = None"
      proof -
        have nw: "\<not> all_waves env (sco s)" using ok(2) [OF h(1)] h(2) that(2) by (auto simp: kind_ok_def)
        have zero: "stage_need (sg_stage k) ek = 0" if "k \<in> set (st_tasks s)" for k ek
        proof (cases "sg_stage k")
          case (Episodes w' sel' phases')
          have "w' = None" using ok(2) [OF that] nw assms(2) Episodes by (cases w') (auto simp: kind_ok_def)
          moreover have "\<forall>ph \<in> set phases'. ph \<noteq> Ep_running" using running that Episodes by fastforce
          ultimately show ?thesis using Episodes running_need_none by simp
        qed (use ok(2) [OF that] nw assms(2) in \<open>auto simp: kind_ok_def\<close>)
        have "sel = sg_plans h" "phases_ok sel phases" using ok(1) [OF h(1)] unfolding h(2) that(2) by auto
        then have "plan_fits env (sco s) (sel ! i)"
          using ok(3) [OF h(1)] i(1) phases_ok_length by (simp add: list_all_length)
        then show ?thesis using fits_empty empty [OF that(1) zero] by (simp add: plan_fits_def valid_plan_def)
      qed
      then show ?thesis using move_worker [OF found [OF h(1)] h(2) i] by blast
    next
      case no_worker: False
      have idle: "stage_workers (sg_stage h) = 0" if "h \<in> set (st_tasks s)" for h
      proof (cases "sg_stage h")
        case (Episodes w' sel' phases')
        have "\<not> working ph" if "ph \<in> set phases'" for ph
          using no_worker running \<open>h \<in> set (st_tasks s)\<close> Episodes that by (cases ph) fastforce+
        then show ?thesis using Episodes by (simp add: filter_empty_conv)
      qed simp_all
      have w: "1 \<le> st_workers s"
        using inv(2) over_tasks_zero [of s "\<lambda>g. stage_workers (sg_stage g)"] idle by (simp add: credit_inv_def)
      show ?thesis
      proof (cases "list_all phase_done phases")
        case True
        then show ?thesis using move_done [OF found [OF episodes(1)] episodes(2)] by blast
      next
        case False
        then obtain i where i: "i < length phases" "\<not> phase_done (phases ! i)" by (auto simp: list_all_length)
        then have "phases ! i = Ep_waiting"
          using not_done_phase [OF i(2)] no_worker running episodes nth_mem [OF i(1)] by fastforce
        then show ?thesis using move_waiting [OF found [OF episodes(1)] episodes(2) i(1) _ w] by blast
      qed
    qed
  qed
qed

end
