(* ===== verification/Coordinator_Stream_Properties.thy ===== *)
theory Coordinator_Stream_Properties
  imports Coordinator_Stream_Safety Coordinator_Witness
begin

text \<open>
  The properties of the stream, over every reachable state, with the runs on which they are
  applied. The last section records two corner cases: groups with and without wave hooks that
  share an executor can block each other, and a refused group keeps the executor it named.
\<close>

section \<open>What no step undoes\<close>

definition admissions :: "stream \<Rightarrow> (string \<times> episode_identity option) list" where
  "admissions s = filter (\<lambda>e. fst e = ''episode_admitted'') (st_log s)"

definition onward :: "stream \<Rightarrow> stream \<Rightarrow> bool" where
  "onward s t \<longleftrightarrow> st_sequence s \<le> st_sequence t \<and>
     (stream_stopped s \<longrightarrow> stream_stopped t \<and> admissions t = admissions s \<and>
        (\<forall>ek. reserved_amount (sco t) ek \<le> reserved_amount (sco s) ek))"

lemma onwardI:
  "st_sequence t = st_sequence s \<Longrightarrow> (stream_stopped s \<Longrightarrow> stream_stopped t) \<Longrightarrow>
   (stream_stopped s \<Longrightarrow> admissions t = admissions s) \<Longrightarrow>
   (\<And>ek. stream_stopped s \<Longrightarrow> reserved_amount (sco t) ek \<le> reserved_amount (sco s) ek) \<Longrightarrow> onward s t"
  by (simp add: onward_def)

lemma onward_refl [simp]: "onward s s"
  by (simp add: onward_def)

lemma onward_trans: "onward s t \<Longrightarrow> onward t u \<Longrightarrow> onward s u"
  unfolding onward_def by (metis order_trans)

lemma admissions_frame [simp]:
  "admissions (set_stage q st s) = admissions s" "admissions (cancel_stream why s) = admissions s"
  "admissions (finish_stream_group q out s) = admissions s" "admissions (settle_episode owned p r s) = admissions s"
  "n \<noteq> ''episode_admitted'' \<Longrightarrow> admissions (stream_event n po s) = admissions s"
  "admissions (s\<lparr>sco := c\<rparr>) = admissions s" "admissions (s\<lparr>st_workers := w\<rparr>) = admissions s"
  "admissions (s\<lparr>st_groups := w\<rparr>) = admissions s" "admissions (set_phase q wv sel phases i ph s) = admissions s"
  by (simp_all add: admissions_def set_phase_def)

lemma set_phase_frame [simp]:
  "sco (set_phase q w sel phases i ph s) = sco s" "st_sequence (set_phase q w sel phases i ph s) = st_sequence s"
  "stream_stopped (set_phase q w sel phases i ph s) = stream_stopped s"
  by (simp_all add: set_phase_def)

lemma settle_episode_stops: "stream_stopped s \<Longrightarrow> stream_stopped (settle_episode owned p r s)"
  by (simp add: settle_episode_def Let_def)

lemma settle_wave_frame:
  "sco (settle_wave q off sel observed rs closure s) =
     (if list_all safe_result observed \<and> \<not> request_uncertain closure then charge_all (- 1) sel (sco s)
      else quarantine_all sel (sco s))"
  "st_sequence (settle_wave q off sel observed rs closure s) = st_sequence s"
  "admissions (settle_wave q off sel observed rs closure s) = admissions s"
  "stream_stopped s \<Longrightarrow> stream_stopped (settle_wave q off sel observed rs closure s)"
  by (simp_all add: settle_wave_def Let_def)

lemma settle_wave_onward:
  "list_all nonneg_plan sel \<Longrightarrow> st_sequence t = st_sequence s \<Longrightarrow> sco t = sco s \<Longrightarrow> admissions t = admissions s \<Longrightarrow>
   (stream_stopped s \<Longrightarrow> stream_stopped t) \<Longrightarrow> onward s (settle_wave q off sel observed rs closure t)"
  by (rule onwardI) (simp_all add: settle_wave_frame reserved_charge_all wave_need_nonneg)

lemma group_onward:
  "onward s (begin_group env q s)" "onward s (take_worker q i s)" "onward s (collect_group q s)"
  "onward s (waiter_cancelled q s)" "onward s (fst (return_group q s))" "onward s (next_wave q s)"
  "onward s (admit_episode q i s)"
proof -
  note splits = option.splits group_stage.splits
  show "onward s (begin_group env q s)"
    by (auto simp: begin_group_def Let_def intro!: onwardI split: splits)
  show "onward s (take_worker q i s)"
    by (auto simp: take_worker_def intro!: onwardI split: splits)
  show "onward s (collect_group q s)"
    by (auto simp: collect_group_def Let_def intro!: onwardI split: splits)
  show "onward s (waiter_cancelled q s)"
    by (auto simp: waiter_cancelled_def intro!: onwardI split: splits)
  show "onward s (fst (return_group q s))"
    by (auto simp: return_group_def admissions_def stream_stopped_def intro!: onwardI split: splits)
  show "onward s (next_wave q s)"
    by (auto simp: next_wave_def Let_def intro!: onwardI split: splits)
  show "onward s (admit_episode q i s)"
    by (auto simp: admit_episode_def intro!: onwardI split: splits)
qed

lemma hook_onward:
  assumes "stream_inv env s"
  shows "onward s (wave_admitted q hook s)" "onward s (wave_closed q closure s)" "onward s (finish_episode q i out err s)"
proof -
  have nonneg: "list_all nonneg_plan sel"
    if "find_group q s = Some g" "stage_ok (sg_plans g) (sg_stage g) \<Longrightarrow> set sel \<subseteq> set (sg_plans g)" for g sel
    using inv_parts(2,3) [OF assms that(1)] that(2) plans_nonneg by blast
  have waves: "sg_stage g = Wave_admitting off sel rs \<Longrightarrow> list_all nonneg_plan sel"
    "sg_stage g = Wave_closing off sel observed rs \<Longrightarrow> list_all nonneg_plan sel"
    if "find_group q s = Some g" for g off sel observed rs
    using nonneg [OF that, of sel] wave_at_plans [of "sg_plans g" off sel rs] by auto
  show "onward s (wave_admitted q hook s)"
    using waves
    by (auto simp: wave_admitted_def split: option.splits group_stage.splits intro!: onwardI [of "set_stage _ _ _"] settle_wave_onward)
  show "onward s (wave_closed q closure s)"
    using waves
    by (auto simp: wave_closed_def split: option.splits group_stage.splits intro!: settle_wave_onward)
  show "onward s (finish_episode q i out err s)"
  proof (cases "find_group q s")
    case (Some g)
    show ?thesis
    proof (cases "sg_stage g")
      case (Episodes w sel phases)
      have ok: "phases_ok sel phases" "set sel \<subseteq> set (sg_plans g)"
        using inv_parts(3) [OF assms Some, unfolded Episodes stage_ok_episodes]
          episodes_plans [where w = w and sel = sel and plans = "sg_plans g"] by blast+
      have "0 \<le> need (plan_res (sel ! i)) ek" if "i < length phases" for ek
        using nonneg [OF Some] ok that phases_ok_length [OF ok(1)]
        by (auto simp: list_all_iff nonneg_plan_def intro: need_nonneg)
      then show ?thesis
        using Some Episodes settle_episode_stops
        by (auto simp: finish_episode_def Let_def settle_episode_co reserved_charge intro!: onwardI split: option.splits)
    qed (use Some in \<open>simp_all add: finish_episode_def\<close>)
  qed (simp add: finish_episode_def)
qed

lemma submit_onward: "onward s (fst (submit_group env plans seq s))"
proof (cases rule: submit_group_cases [of env plans seq s])
  case (refused owners e)
  then show ?thesis by (simp add: onward_def admissions_def stream_stopped_def)
next
  case (accepted q owners)
  have "fst (submit_group env plans seq s) = (s\<lparr>st_stage_owners := owners, st_sequence := q,
      st_run_id := Some (run_id (plan_identity (hd plans))), st_pending := st_pending s + int (length plans),
      st_tasks := st_tasks s @ [\<lparr>sg_sequence = q, sg_plans = plans, sg_stage = Queued\<rparr>]\<rparr>)"
    unfolding accepted(11) by simp
  then show ?thesis using accepted(2) by (simp add: onward_def admissions_def stream_stopped_def)
qed

lemma control_onward:
  "onward s (cancel_stream why s)" "onward s (pause_begin s)" "onward s (pause_waiter_cancelled s)"
  "onward s (pause_end s)" "onward s (fst (resume_stream s))" "onward s (close_begin s)"
  "onward s (fst (close_end ending s))"
proof -
  show "onward s (cancel_stream why s)" "onward s (pause_waiter_cancelled s)"
    by (auto simp: pause_waiter_cancelled_def intro!: onwardI)
  show p: "onward s (pause_begin s)" "onward s (close_begin s)"
    by (auto simp: close_begin_def pause_begin_def onward_def admissions_def stream_stopped_def)
  show "onward s (pause_end s)" by (auto simp: pause_end_def intro!: onwardI)
  show "onward s (fst (resume_stream s))" by (auto simp: resume_stream_def onward_def)
  obtain t fs where t: "close_started ending (rev (st_started s)) ((pause_end s)\<lparr>st_closed := True\<rparr>) = (t, fs)"
    by (cases "close_started ending (rev (st_started s)) ((pause_end s)\<lparr>st_closed := True\<rparr>)")
  note f = close_started_frame [OF t]
  have "onward s t"
    using f by (intro onwardI) (simp_all add: pause_end_def admissions_def stream_stopped_def)
  moreover have "onward t (stream_event ''stream_closed'' None t)" by (rule onwardI) simp_all
  moreover have "onward t (t\<lparr>sco := (sco t)\<lparr>lifecycle_failures := lifecycle_failures (sco t) @ fs\<rparr>\<rparr>)"
    by (rule onwardI) (simp_all add: reserved_amount_def)
  ultimately have "onward s (stream_event ''stream_closed'' None t)"
    "onward s (t\<lparr>sco := (sco t)\<lparr>lifecycle_failures := lifecycle_failures (sco t) @ fs\<rparr>\<rparr>)"
    by (blast intro: onward_trans)+
  then show "onward s (fst (close_end ending s))" using t by (simp add: close_end_def)
qed

lemma step_onward: "stream_inv env s \<Longrightarrow> onward s (stream_step env op s)"
  by (cases op) (simp_all add: group_onward hook_onward submit_onward control_onward)

lemma run_onward:
  "stream_inv env s \<Longrightarrow> list_all valid_op ops \<Longrightarrow> stream_inv env (fold (stream_step env) ops s) \<and> onward s (fold (stream_step env) ops s)"
proof (induction ops arbitrary: s)
  case (Cons op ops)
  have "stream_inv env (stream_step env op s)" using Cons.prems stream_step_inv by simp
  with Cons show ?case using step_onward [OF Cons.prems(1), of op] onward_trans by auto
qed simp

section \<open>Properties of every reachable stream\<close>

text \<open>C3. Along every interleaving of submissions, episodes, waves, cancellations, pauses and
  closing, what an executor has reserved is what the running episodes and held waves of the open
  groups need plus what is quarantined, and stays within the executor's capacity; the submitted
  episodes stay within the input credit, the episodes at work within the workers and the groups in
  progress within the group limit.\<close>

theorem stream_capacity:
  assumes "Coordinator w g caps dt pol = Inr c" "nonneg_capacities caps" "stream_reach env c s"
  shows "reserved_amount (sco s) ek =
      quarantined_amount (sco s) ek + sum_list (map (\<lambda>h. stage_need (sg_stage h) ek) (st_tasks s)) \<and>
    (\<forall>q. capacity_limit (sco s) ek = Some q \<longrightarrow> reserved_amount (sco s) ek \<le> q) \<and>
    sum_list (map (\<lambda>h. int (length (sg_plans h))) (st_tasks s)) \<le> st_pending_limit s \<and>
    sum_list (map (\<lambda>h. stage_workers (sg_stage h)) (st_tasks s)) \<le> max_workers (sco s) \<and>
    sum_list (map (\<lambda>h. stage_slot (sg_stage h)) (st_tasks s)) \<le> max_groups (sco s)"
proof (intro conjI)
  note i = reach_inv [OF assms, unfolded stream_inv_def]
  show "reserved_amount (sco s) ek =
      quarantined_amount (sco s) ek + sum_list (map (\<lambda>h. stage_need (sg_stage h) ek) (st_tasks s))"
    using i by (simp add: stream_ledger_def over_tasks_def)
  show "\<forall>q. capacity_limit (sco s) ek = Some q \<longrightarrow> reserved_amount (sco s) ek \<le> q"
    using i unfolding stream_ledger_def executor_ledger.in_limits_def by blast
qed (use reach_inv [OF assms] in \<open>simp_all add: stream_inv_def credit_inv_def over_tasks_def\<close>)

text \<open>C5. A group that returns results returns exactly one per submitted plan, in the order of the
  plans and with their identities, whatever the episodes, the hooks and the cancellations did; the
  return gives back the input credit of all its plans and closes the group.\<close>

theorem stream_results_in_order:
  assumes "Coordinator w g caps dt pol = Inr c" "nonneg_capacities caps" "stream_reach env c s"
    "return_group q s = (t, Some (Inr rs))"
  shows "\<exists>h. find_group q s = Some h \<and> map res_identity rs = map plan_identity (sg_plans h) \<and>
    st_pending t = st_pending s - int (length rs) \<and> find_group q t = None"
proof (cases "find_group q s")
  case (Some h)
  note p = inv_parts [OF reach_inv [OF assms(1-3)] Some]
  have st: "sg_stage h = Group_done (Inr rs)"
    and t: "t = s\<lparr>st_tasks := filter (\<lambda>g. sg_sequence g \<noteq> q) (st_tasks s), st_pending := st_pending s - int (length (sg_plans h))\<rparr>"
    using assms(4) Some by (auto simp: return_group_def split: group_stage.splits)
  have ids: "map res_identity rs = map plan_identity (sg_plans h)" using p(3) st by (simp add: results_for_def)
  then have "length rs = length (sg_plans h)" by (metis length_map)
  moreover have "find_group q t = None" unfolding t find_group_def by (auto simp: find_None_iff)
  ultimately show ?thesis using Some ids t by simp
qed (use assms(4) in \<open>simp add: return_group_def\<close>)

text \<open>C18. Once the stream's token is cancelled it stays cancelled, and whatever follows, submissions
  and attempts to resume included, no further episode is admitted and no executor's reservation
  grows; every resumption is refused.\<close>

theorem stream_stop_final:
  assumes "Coordinator w g caps dt pol = Inr c" "nonneg_capacities caps" "stream_reach env c s" "stream_stopped s"
    "list_all valid_op ops"
  shows "let t = fold (stream_step env) ops s in
    stream_stopped t \<and> admissions t = admissions s \<and>
    reserved_amount (sco t) ek \<le> reserved_amount (sco s) ek \<and> snd (resume_stream t) \<noteq> Inr ()"
  using run_onward [OF reach_inv [OF assms(1-3)] assms(5)] assms(4)
  by (simp add: onward_def Let_def resume_stream_def)

text \<open>No replay: an accepted group has a sequence above every earlier one and belongs to no open
  group, and at any later moment a submission with this or a smaller sequence is refused.\<close>

theorem stream_no_replay:
  assumes "Coordinator w g caps dt pol = Inr c" "nonneg_capacities caps" "stream_reach env c s"
    "list_all valid_plan plans" "submit_group env plans (JInt q) s = (t, Inr u)" "list_all valid_op ops" "q' \<le> q"
  shows "st_sequence s < q \<and> find_group q s = None \<and> map sg_plans (st_tasks t) = map sg_plans (st_tasks s) @ [plans] \<and>
    snd (submit_group env plans' (JInt q') (fold (stream_step env) ops t)) \<noteq> Inr ()"
proof -
  note inv = reach_inv [OF assms(1-3)]
  show ?thesis
  proof (cases rule: submit_group_cases [of env plans "JInt q" s])
    case (refused owners e)
    then show ?thesis using assms(5) by simp
  next
    case (accepted r owners)
    have t: "st_sequence t = q" "map sg_plans (st_tasks t) = map sg_plans (st_tasks s) @ [plans]"
      using accepted(1,11) assms(5) by auto
    have "stream_inv env t" using submit_inv [OF inv assms(4), of "JInt q"] assms(5) by simp
    then have "q \<le> st_sequence (fold (stream_step env) ops t)"
      using run_onward assms(6) t(1) unfolding onward_def by blast
    then have "snd (submit_group env plans' (JInt q') (fold (stream_step env) ops t)) \<noteq> Inr ()"
      using assms(7) by (auto simp: submit_group_def)
    moreover have "find_group q s = None"
      using inv accepted(1,2) by (auto simp: stream_inv_def tasks_inv_def find_group_def find_None_iff)
    ultimately show ?thesis using accepted(1,2) t(2) by simp
  qed
qed

text \<open>C17. Where wave hooks are used for every backend or for none, a stream with open groups is never
  stuck: as long as no episode and no wave hook is running outside, some internal step (a start of
  a group, a wave, a worker, an admission, a collection or a return) changes the state.\<close>

theorem stream_not_stuck:
  assumes "Coordinator w g caps dt pol = Inr c" "nonneg_capacities caps" "stream_reach env c s"
    "all_waves env (sco s) \<or> no_waves env (sco s)" "st_tasks s \<noteq> []"
    "list_all (\<lambda>h. \<not> outside (sg_stage h)) (st_tasks s)"
  shows "\<exists>q i. \<exists>op \<in> internal_ops q i. stream_step env op s \<noteq> s"
  using stream_moves [OF reach_inv [OF assms(1-3)] assms(4,5)] assms(6)
  by (simp add: can_move_def list_all_iff)

section \<open>A run\<close>

text \<open>Two episodes of one group on an executor with room for one, and a backend without wave hooks.\<close>

definition demo_senv :: stream_env where
  "demo_senv = \<lparr>backend_items = [(''cuda-agent'', 0)], has_admit_group = (\<lambda>b. False)\<rparr>"

definition demo_stream :: "stream_op list \<Rightarrow> stream" where
  "demo_stream ops = fold (stream_step demo_senv) ops
     (fst (open_stream demo_senv demo_co (JInt 2) new_token (\<lambda>b. Hook_ok) (\<lambda>b. (False, Hook_ok))))"

definition demo_outcome :: "nat \<Rightarrow> exec_outcome" where
  "demo_outcome i = Returned ((blank_result (demo_plans ! i))\<lparr>execution_state := ''completed'', cleanup_state := ''verified''\<rparr>)"

definition demo_start :: "stream_op list" where
  "demo_start = [Submit demo_plans (JInt 0), Begin 0, Take_worker 0 0, Take_worker 0 1, Admit_episode 0 0, Admit_episode 0 1]"

definition demo_rest :: "stream_op list" where
  "demo_rest = [Finish_episode 0 0 (demo_outcome 0) None, Admit_episode 0 1, Finish_episode 0 1 (Raised ''OSError'' ''gone'') None,
     Collect 0]"

lemma demo_reach: "list_all valid_op ops \<Longrightarrow> stream_reach demo_senv demo_co (demo_stream ops)"
proof -
  have "stream_reach demo_senv demo_co s \<Longrightarrow> list_all valid_op ops \<Longrightarrow>
      stream_reach demo_senv demo_co (fold (stream_step demo_senv) ops s)" for s
    by (induction ops arbitrary: s) (simp_all add: stream_reach.stepped)
  then show "list_all valid_op ops \<Longrightarrow> ?thesis" unfolding demo_stream_def using stream_reach.opened by blast
qed

lemma demo_nonneg_caps: "nonneg_capacities demo_caps"
  using demo_nonneg(2) by (simp add: nonneg_capacities_def)

lemma demo_plans_valid: "list_all valid_plan demo_plans"
  by (simp add: valid_plan_def nonneg_plan_def nonneg_resources_def plan_res_def demo_plans_def demo_plan_def demo_resources_def)

lemma demo_ops_valid: "list_all valid_op demo_start" "list_all valid_op demo_rest"
  using demo_plans_valid by (simp_all add: demo_start_def demo_rest_def)

theorem stream_capacity_witness:
  "reserved_amount (sco (demo_stream demo_start)) (''box'', Cpu) = 1 \<and>
   quarantined_amount (sco (demo_stream demo_start)) (''box'', Cpu) = 0 \<and>
   reserved_amount (sco (demo_stream demo_start)) (''box'', Cpu) =
     sum_list (map (\<lambda>h. stage_need (sg_stage h) (''box'', Cpu)) (st_tasks (demo_stream demo_start)))"
proof -
  have "reserved_amount (sco (demo_stream demo_start)) (''box'', Cpu) = 1 \<and>
    quarantined_amount (sco (demo_stream demo_start)) (''box'', Cpu) = 0" by code_simp
  with stream_capacity [OF demo_coordinator demo_nonneg_caps demo_reach [OF demo_ops_valid(1)], of "(''box'', Cpu)"]
  show ?thesis by simp
qed

lemma demo_returned:
  "case return_group 0 (demo_stream (demo_start @ demo_rest)) of
     (t, Some (Inr rs)) \<Rightarrow> map execution_state rs = [''completed'', ''failed''] | _ \<Rightarrow> False"
  by code_simp

theorem stream_results_in_order_witness:
  "\<exists>t rs. return_group 0 (demo_stream (demo_start @ demo_rest)) = (t, Some (Inr rs)) \<and>
     map execution_state rs = [''completed'', ''failed''] \<and> find_group 0 t = None"
proof -
  obtain t rs where r: "return_group 0 (demo_stream (demo_start @ demo_rest)) = (t, Some (Inr rs))"
    "map execution_state rs = [''completed'', ''failed'']"
    using demo_returned by (auto split: prod.splits option.splits sum.splits)
  have "list_all valid_op (demo_start @ demo_rest)" using demo_ops_valid by simp
  from stream_results_in_order [OF demo_coordinator demo_nonneg_caps demo_reach [OF this] r(1)]
  have "find_group 0 t = None" by blast
  then show ?thesis using r by (intro exI conjI)
qed

theorem stream_stop_final_witness:
  "stream_stopped (demo_stream (demo_start @ demo_rest)) \<and>
   admissions (fold (stream_step demo_senv) [Resume, Submit demo_plans (JInt 7), Begin 7] (demo_stream (demo_start @ demo_rest))) =
     admissions (demo_stream (demo_start @ demo_rest))"
proof -
  have s: "stream_stopped (demo_stream (demo_start @ demo_rest))" by code_simp
  have v: "list_all valid_op (demo_start @ demo_rest)" "list_all valid_op [Resume, Submit demo_plans (JInt 7), Begin 7]"
    using demo_ops_valid demo_plans_valid by simp_all
  from stream_stop_final [OF demo_coordinator demo_nonneg_caps demo_reach [OF v(1)] s v(2)] s
  show ?thesis unfolding Let_def by blast
qed

theorem stream_no_replay_witness:
  "\<exists>t. submit_group demo_senv demo_plans (JInt 3) (demo_stream []) = (t, Inr ()) \<and>
     snd (submit_group demo_senv demo_plans (JInt 3) (fold (stream_step demo_senv) [Begin 3] t)) \<noteq> Inr ()"
proof -
  have "snd (submit_group demo_senv demo_plans (JInt 3) (demo_stream [])) = Inr ()" by code_simp
  then obtain t where t: "submit_group demo_senv demo_plans (JInt 3) (demo_stream []) = (t, Inr ())" by (metis prod.collapse)
  have v: "list_all valid_op []" "list_all valid_op [Begin 3]" by simp_all
  from stream_no_replay [OF demo_coordinator demo_nonneg_caps demo_reach [OF v(1)] demo_plans_valid t v(2) order_refl]
    t show ?thesis by blast
qed

theorem stream_not_stuck_witness:
  "\<exists>q i. \<exists>op \<in> internal_ops q i. stream_step demo_senv op (demo_stream [Submit demo_plans (JInt 0)]) \<noteq>
     demo_stream [Submit demo_plans (JInt 0)]"
proof (rule stream_not_stuck [OF demo_coordinator demo_nonneg_caps demo_reach])
  show "list_all valid_op [Submit demo_plans (JInt 0)]" using demo_plans_valid by simp
  have "policy (sco (demo_stream [Submit demo_plans (JInt 0)])) \<noteq> ''terminal-waves''" by code_simp
  then show "all_waves demo_senv (sco (demo_stream [Submit demo_plans (JInt 0)])) \<or>
      no_waves demo_senv (sco (demo_stream [Submit demo_plans (JInt 0)]))"
    by (simp add: no_waves_def demo_senv_def)
  show "st_tasks (demo_stream [Submit demo_plans (JInt 0)]) \<noteq> []" by code_simp
  show "list_all (\<lambda>h. \<not> outside (sg_stage h)) (st_tasks (demo_stream [Submit demo_plans (JInt 0)]))" by code_simp
qed

section \<open>Two corner cases\<close>

text \<open>A group without wave hooks and a group with them share an executor. The wave holds the
  executor and needs the only worker; the episode of the other group holds the worker and needs the
  executor. No internal step can change the state, and nothing runs outside.\<close>

definition mixed_co :: coordinator where
  "mixed_co = demo_co\<lparr>max_workers := 1, max_groups := 2\<rparr>"

definition mixed_env :: stream_env where
  "mixed_env = \<lparr>backend_items = [(''cuda-agent'', 0), (''terminal-bench'', 1)], has_admit_group = (\<lambda>b. b = 1)\<rparr>"

definition mixed_plan :: episode_plan where
  "mixed_plan = (demo_plan 0)\<lparr>plan_task := (plan_task (demo_plan 0))\<lparr>ts_benchmark := ''terminal-bench''\<rparr>\<rparr>"

definition mixed_ops :: "stream_op list" where
  "mixed_ops = [Submit [mixed_plan] (JInt 0), Submit [demo_plan 1] (JInt 1), Begin 0, Next_wave 0, Begin 1,
     Take_worker 1 0, Wave_admitted 0 Hook_ok]"

definition mixed_stream :: stream where
  "mixed_stream = fold (stream_step mixed_env) mixed_ops
     (fst (open_stream mixed_env mixed_co (JInt 2) new_token (\<lambda>b. Hook_ok) (\<lambda>b. (False, Hook_ok))))"

fun blocked :: "coordinator \<Rightarrow> group_stage list \<Rightarrow> bool" where
  "blocked c [Episodes (Some w) [p] [Ep_waiting], Episodes None [r] [Ep_worker]] = (\<not> fits c (plan_res r))"
| "blocked c _ = False"

lemma mixed_state:
  "map sg_sequence (st_tasks mixed_stream) = [0, 1]" "st_workers mixed_stream = 0" "\<not> stream_stopped mixed_stream"
  "blocked (sco mixed_stream) (map sg_stage (st_tasks mixed_stream))"
  by code_simp+

lemma mixed_reach: "stream_reach mixed_env mixed_co mixed_stream"
proof -
  have "stream_reach mixed_env mixed_co s \<Longrightarrow> list_all valid_op ops \<Longrightarrow>
      stream_reach mixed_env mixed_co (fold (stream_step mixed_env) ops s)" for s ops
    by (induction ops arbitrary: s) (simp_all add: stream_reach.stepped)
  moreover have "list_all valid_op mixed_ops"
    by (simp add: mixed_ops_def valid_plan_def nonneg_plan_def nonneg_resources_def plan_res_def mixed_plan_def
        demo_plan_def demo_resources_def)
  ultimately show ?thesis unfolding mixed_stream_def using stream_reach.opened by blast
qed

theorem mixed_groups_deadlock:
  "Coordinator 1 2 demo_caps (Fin 30) ''native-groups'' = Inr mixed_co \<and> stream_reach mixed_env mixed_co mixed_stream \<and>
   st_tasks mixed_stream \<noteq> [] \<and> \<not> stream_stopped mixed_stream \<and>
   list_all (\<lambda>h. \<not> outside (sg_stage h)) (st_tasks mixed_stream) \<and> \<not> can_move mixed_env mixed_stream"
proof -
  obtain g h w p r where st: "st_tasks mixed_stream = [g, h]" "sg_sequence g = 0" "sg_sequence h = 1"
    "st_workers mixed_stream = 0" "\<not> stream_stopped mixed_stream" "sg_stage g = Episodes (Some w) [p] [Ep_waiting]"
    "sg_stage h = Episodes None [r] [Ep_worker]" "\<not> fits (sco mixed_stream) (plan_res r)"
    using mixed_state by (elim blocked.elims(2)) (auto simp: map_eq_Cons_conv)
  have found: "find_group 0 mixed_stream = Some g" "find_group 1 mixed_stream = Some h"
    "q \<noteq> 0 \<Longrightarrow> q \<noteq> 1 \<Longrightarrow> find_group q mixed_stream = None" for q
    using st(1-3) by (auto simp: find_group_def)
  have "stream_step mixed_env op mixed_stream = mixed_stream" if "op \<in> internal_ops q i" for op q i
  proof -
    consider "q = 0" | "q = 1" | "q \<noteq> 0" "q \<noteq> 1" by blast
    then show ?thesis
    proof cases
      case 1
      then show ?thesis using that found(1) st
        by (cases i) (auto simp: internal_ops_def begin_group_def next_wave_def take_worker_def admit_episode_def collect_group_def return_group_def)
    next
      case 2
      then show ?thesis using that found(2) st
        by (cases i) (auto simp: internal_ops_def begin_group_def next_wave_def take_worker_def admit_episode_def collect_group_def return_group_def)
    next
      case 3
      then show ?thesis using that found(3) [OF 3]
        by (auto simp: internal_ops_def begin_group_def next_wave_def take_worker_def admit_episode_def collect_group_def return_group_def)
    qed
  qed
  then have "\<not> can_move mixed_env mixed_stream" by (auto simp: can_move_def)
  moreover have "Coordinator 1 2 demo_caps (Fin 30) ''native-groups'' = Inr mixed_co"
    by (simp add: Coordinator_def mixed_co_def demo_co_def)
  ultimately show ?thesis using mixed_reach st by simp
qed

text \<open>A refused group has claimed its backend-stage executor: the group of another backend that comes
  after it is refused for an owner that never ran an episode.\<close>

definition stage_plan :: "string \<Rightarrow> string \<Rightarrow> int \<Rightarrow> episode_plan" where
  "stage_plan exec bench n = (demo_plan n)\<lparr>plan_task := (plan_task (demo_plan n))
     \<lparr>ts_benchmark := bench, ts_resources := demo_resources\<lparr>executor := exec, accounting := ''backend-stage''\<rparr>\<rparr>\<rparr>"

definition claiming :: "stream" where
  "claiming = fst (open_stream mixed_env mixed_co (JInt 2) new_token (\<lambda>b. Hook_ok) (\<lambda>b. (False, Hook_ok)))"

theorem refused_group_claims_executor:
  "let refused = [stage_plan ''gpu'' ''cuda-agent'' 0, stage_plan ''gpu'' ''unknown'' 1];
       good = [stage_plan ''gpu'' ''terminal-bench'' 0];
       s = fst (submit_group mixed_env refused (JInt 0) claiming)
   in snd (submit_group mixed_env refused (JInt 0) claiming) = Inl (ValueError ''no backend registered for unknown'') \<and>
      snd (submit_group mixed_env good (JInt 0) claiming) = Inr () \<and>
      snd (submit_group mixed_env good (JInt 0) s) =
        Inl (ValueError ''backend-stage executor requires one authoritative backend owner'')"
  by code_simp

end
