(* ===== verification/Manager.thy ===== *)
theory Manager
  imports Training_Provider
begin

text \<open>
  \<^verbatim>\<open>dsv41_train/rl/manager.py\<close>: the process that owns the sampling backend (\<^verbatim>\<open>_serve\<close>) and the
  learner's handle on it (\<^verbatim>\<open>RolloutManager\<close>). The retained groups with their cursors are the
  \<open>mailbox\<close>; around it stands the command loop with its waiters and replies. The loop is cut into
  the handling of one received command and the rest of its body (\<open>serve_tick\<close>): any sequence of the
  two is a run. What the backend and the stream answer are arguments of the steps. \<^verbatim>\<open>dataclasses.asdict\<close>
  of a group is the record of its fields.
\<close>

section \<open>Packets\<close>

record manager_packet =
  mp_fields :: dict
  mp_group :: rollout_group
  mp_trace :: training_group

record encoded_packet =
  en_fields :: dict
  en_group :: rollout_group
  en_trace :: json

definition encode_manager_packet :: "manager_packet \<Rightarrow> encoded_packet" where
  "encode_manager_packet p =
     \<lparr>en_fields = mp_fields p, en_group = mp_group p, en_trace = group_to_dict (mp_trace p)\<rparr>"

definition sample_again :: "sample \<Rightarrow> sample result" where
  "sample_again s =
     Sample (s_prompt_ids s) (s_response_ids s) (map Fin (s_behavior_log_probs s)) (Fin (s_reward s))
       (s_policy_version s) (s_finish_reason s) (s_stop_token_count s) (Some (Fin (s_raw_reward s)))"

definition decode_manager_packet :: "(string \<Rightarrow> string) \<Rightarrow> encoded_packet \<Rightarrow> manager_packet result" where
  "decode_manager_packet sha e =
     bindE (mapE sample_again (samples (en_group e))) (\<lambda>ss.
     bindE (RolloutGroup ss (g_group_id (en_group e)) (g_policy_version (en_group e))) (\<lambda>g.
     bindE (group_from_dict sha (en_trace e)) (\<lambda>tg.
     bindE (to_rollout_group tg) (\<lambda>native.
     bindE (dlookup (en_fields e) ''policy_ack'') (\<lambda>ack.
       if native \<noteq> g \<or> \<not> py_eq (JObj (policy_ack (tg_policy tg))) ack
       then Inl (ValueError ''restored training trace, native group and policy acknowledgement disagree'')
       else Inr \<lparr>mp_fields = en_fields e, mp_group = g, mp_trace = tg\<rparr>)))))"

section \<open>The mailbox\<close>

record mailbox =
  mb_next :: int
  mb_committed :: int
  mb_dropped :: int
  mb_retained :: "(int \<times> manager_packet \<times> bool) list"
  mb_active :: "int option"

definition mailbox_rows :: "mailbox \<Rightarrow> (int \<times> manager_packet \<times> bool) list" where
  "mailbox_rows b = sort_key fst (mb_retained b)"

definition queued_groups :: "mailbox \<Rightarrow> nat" where
  "queued_groups b = length (filter (\<lambda>r. \<not> snd (snd r)) (mb_retained b))"

fun first_undelivered :: "(int \<times> manager_packet \<times> bool) list \<Rightarrow> (int \<times> manager_packet) option" where
  "first_undelivered [] = None"
| "first_undelivered ((g, p, delivered) # rows) = (if delivered then first_undelivered rows else Some (g, p))"

definition mailbox_get :: "mailbox \<Rightarrow> manager_packet option \<times> mailbox" where
  "mailbox_get b =
     (case first_undelivered (mailbox_rows b) of
        None \<Rightarrow> (None, b)
      | Some (g, p) \<Rightarrow>
          (Some p, b\<lparr>mb_retained := map (\<lambda>r. if fst r = g then (g, fst (snd r), True) else r) (mb_retained b)\<rparr>))"

definition mailbox_commit :: "int list \<Rightarrow> int list \<Rightarrow> mailbox \<Rightarrow> mailbox result" where
  "mailbox_commit consumed rejected b =
     (let ids = sort (consumed @ rejected) in
      if \<not> distinct ids \<or> ids \<noteq> take (length ids) (map fst (mailbox_rows b)) \<or>
         list_ex (\<lambda>g. map_option snd (map_of (mb_retained b) g) \<noteq> Some True) ids
      then Inl (ValueError ''commit requires the delivered oldest group prefix without duplicates'')
      else Inr (b\<lparr>mb_retained := filter (\<lambda>r. fst r \<notin> set ids) (mb_retained b),
                  mb_committed := (if ids = [] then mb_committed b else last ids + 1),
                  mb_dropped := mb_dropped b + int (length rejected)\<rparr>))"

definition mailbox_reserve :: "mailbox \<Rightarrow> mailbox" where
  "mailbox_reserve b = b\<lparr>mb_next := mb_next b + 1, mb_active := Some (mb_next b)\<rparr>"

definition mailbox_produced :: "manager_packet \<Rightarrow> mailbox \<Rightarrow> mailbox" where
  "mailbox_produced p b =
     (case mb_active b of
        None \<Rightarrow> b
      | Some g \<Rightarrow> b\<lparr>mb_retained := mb_retained b @ [(g, p, False)], mb_active := None\<rparr>)"

section \<open>Recovery\<close>

record serve_config =
  sv_queue_capacity :: int
  sv_groups_per_step :: int
  sv_group_size :: int
  sv_records :: "json list"
  sv_resume_epoch :: string
  sv_vllm :: bool
  sv_can_evaluate :: bool
  sv_lineage :: json
  sv_evidence :: bool

text \<open>A recovery document; an absent entry is \<open>None\<close>, and the entries that a restart does not read are
  those of the snapshot. The constant entries \<^verbatim>\<open>pending_requests\<close> (empty) and \<^verbatim>\<open>admission_paused\<close> (true) are
  left out.\<close>

record recovery_state =
  rc_schema_version :: "json option"
  rc_next_group_id :: "int option"
  rc_issued_highwater :: "int option"
  rc_committed_highwater :: "int option"
  rc_dropped_groups :: "int option"
  rc_rng_state :: "json option"
  rc_pending_packets :: "encoded_packet list"
  rc_active_policy :: dict
  rc_policy_ack :: dict
  rc_queue_capacity :: int
  rc_retained_capacity :: int
  rc_resume_epoch :: string

definition mailbox_bound :: "serve_config \<Rightarrow> int" where
  "mailbox_bound cfg = sv_queue_capacity cfg + sv_groups_per_step cfg"

fun restore_mailbox_rows ::
  "(string \<Rightarrow> string) \<Rightarrow> int \<Rightarrow> int \<Rightarrow> encoded_packet list \<Rightarrow> (int \<times> manager_packet \<times> bool) list \<Rightarrow>
   (int \<times> manager_packet \<times> bool) list result" where
  "restore_mailbox_rows sha lo hi [] rows = Inr rows"
| "restore_mailbox_rows sha lo hi (e # es) rows =
     bindE (decode_manager_packet sha e) (\<lambda>p.
       let g = g_group_id (mp_group p) in
       if g \<in> set (map fst rows) \<or> \<not> (lo \<le> g \<and> g < hi)
       then Inl (ValueError ''invalid or duplicate restored group cursor'')
       else restore_mailbox_rows sha lo hi es (rows @ [(g, p, False)]))"

definition check_recovery :: "serve_config \<Rightarrow> recovery_state option \<Rightarrow> unit result" where
  "check_recovery cfg recovery =
     (case recovery of
        None \<Rightarrow> Inr ()
      | Some r \<Rightarrow>
          if \<not> py_eq (case rc_schema_version r of None \<Rightarrow> JNull | Some v \<Rightarrow> v) (JInt 1) \<or>
             \<not> py_eq (dget (rc_active_policy r) ''lineage'') (sv_lineage cfg)
          then Inl (ValueError ''manager recovery schema or policy lineage differs'')
          else Inr ())"

definition or_default :: "'a option \<Rightarrow> 'a \<Rightarrow> 'a" where
  "or_default x d = (case x of None \<Rightarrow> d | Some v \<Rightarrow> v)"

definition restore_mailbox ::
  "(string \<Rightarrow> string) \<Rightarrow> serve_config \<Rightarrow> int \<Rightarrow> recovery_state option \<Rightarrow> mailbox result" where
  "restore_mailbox sha cfg first_group recovery =
     bindE (check_recovery cfg recovery) (\<lambda>_.
       let nxt = or_default (Option.bind recovery rc_next_group_id) first_group;
           committed = or_default (Option.bind recovery rc_committed_highwater) nxt;
           dropped = or_default (Option.bind recovery rc_dropped_groups) 0;
           packets = (case recovery of None \<Rightarrow> [] | Some r \<Rightarrow> rc_pending_packets r)
       in bindE (restore_mailbox_rows sha committed nxt packets []) (\<lambda>rows.
         if int (length rows) > mailbox_bound cfg \<or> sort (map fst rows) \<noteq> [committed .. nxt - 1]
         then Inl (ValueError ''restored mailbox exceeds capacity or has a cursor gap'')
         else if sv_vllm cfg \<and> \<not> sv_evidence cfg
         then Inl (ValueError ''owned vLLM sampling requires an evidence directory'')
         else Inr \<lparr>mb_next = nxt, mb_committed = committed, mb_dropped = dropped, mb_retained = rows,
                   mb_active = None\<rparr>))"

section \<open>The command loop\<close>

datatype manager_reply =
    Reply_null
  | Reply_packet encoded_packet
  | Reply_snapshot recovery_state
  | Reply_cleanup recovery_state
  | Reply_committed int int
  | Reply_value json

record backend_state =
  bk_ack :: dict
  bk_artifact :: dict
  bk_rng :: json
  bk_busy :: bool

record manager =
  mg_box :: mailbox
  mg_backend :: backend_state
  mg_paused :: bool
  mg_closing :: bool
  mg_pause_waiters :: "int list"
  mg_close_waiters :: "int list"
  mg_stream_paused :: bool
  mg_stream_open :: bool
  mg_replies :: "(int \<times> manager_reply) list"
  mg_failed :: "exn option"
  mg_finished :: bool

definition start_manager ::
  "bool \<Rightarrow> backend_state \<Rightarrow> mailbox \<Rightarrow> unit result \<Rightarrow> manager" where
  "start_manager start_paused backend b pause_reply =
     (let m = \<lparr>mg_box = b, mg_backend = backend, mg_paused = start_paused, mg_closing = False, mg_pause_waiters = [],
           mg_close_waiters = [], mg_stream_paused = start_paused, mg_stream_open = True,
           mg_replies = [], mg_failed = None, mg_finished = False\<rparr>
      in case (if start_paused then pause_reply else Inr ()) of
           Inl e \<Rightarrow> m\<lparr>mg_failed := Some e, mg_stream_open := False\<rparr>
         | Inr _ \<Rightarrow> m\<lparr>mg_replies := [(0, Reply_value (JObj (bk_ack backend)))]\<rparr>)"

definition send_reply :: "int \<Rightarrow> manager_reply \<Rightarrow> manager \<Rightarrow> manager" where
  "send_reply i v m = m\<lparr>mg_replies := mg_replies m @ [(i, v)]\<rparr>"

text \<open>An exception leaves the loop: the group in flight is awaited and the stream closed.\<close>

definition fail_manager :: "exn \<Rightarrow> manager \<Rightarrow> manager" where
  "fail_manager e m = m\<lparr>mg_failed := Some e, mg_stream_open := False\<rparr>"

definition manager_live :: "manager \<Rightarrow> bool" where
  "manager_live m \<longleftrightarrow> mg_failed m = None \<and> \<not> mg_finished m"

definition manager_snapshot :: "serve_config \<Rightarrow> manager \<Rightarrow> recovery_state result" where
  "manager_snapshot cfg m =
     (if mb_active (mg_box m) \<noteq> None \<or> bk_busy (mg_backend m)
      then Inl (RuntimeError ''recovery snapshot requires an actual drained group boundary'')
      else Inr \<lparr>rc_schema_version = Some (JInt 1), rc_next_group_id = Some (mb_next (mg_box m)),
             rc_issued_highwater = Some (mb_next (mg_box m)),
             rc_committed_highwater = Some (mb_committed (mg_box m)),
             rc_dropped_groups = Some (mb_dropped (mg_box m)), rc_rng_state = Some (bk_rng (mg_backend m)),
             rc_pending_packets = map (\<lambda>r. encode_manager_packet (fst (snd r))) (mailbox_rows (mg_box m)),
             rc_active_policy = bk_artifact (mg_backend m), rc_policy_ack = bk_ack (mg_backend m),
             rc_queue_capacity = sv_queue_capacity cfg, rc_retained_capacity = mailbox_bound cfg,
             rc_resume_epoch = sv_resume_epoch cfg\<rparr>)"

datatype command =
    Cmd_get
  | Cmd_pause
  | Cmd_commit "int list" "int list"
  | Cmd_activate "json result" backend_state
  | Cmd_evaluate "json result"
  | Cmd_resume "unit result" "unit result" backend_state
  | Cmd_close
  | Cmd_unknown string

text \<open>One received request. \<^verbatim>\<open>activate\<close>, \<^verbatim>\<open>evaluate\<close> and \<^verbatim>\<open>resume\<close> carry what the backend (and for
  \<^verbatim>\<open>resume\<close> the stream) answers and the backend's state after the call.\<close>

definition drained_paused :: "manager \<Rightarrow> bool" where
  "drained_paused m \<longleftrightarrow> mg_paused m \<and> mb_active (mg_box m) = None"

fun handle_command :: "serve_config \<Rightarrow> int \<Rightarrow> command \<Rightarrow> manager \<Rightarrow> manager" where
  "handle_command cfg i Cmd_get m =
     (case mailbox_get (mg_box m) of
        (None, b) \<Rightarrow> send_reply i Reply_null m
      | (Some p, b) \<Rightarrow> send_reply i (Reply_packet (encode_manager_packet p)) (m\<lparr>mg_box := b\<rparr>))"
| "handle_command cfg i Cmd_pause m = m\<lparr>mg_paused := True, mg_pause_waiters := mg_pause_waiters m @ [i]\<rparr>"
| "handle_command cfg i (Cmd_commit consumed rejected) m =
     (case mailbox_commit consumed rejected (mg_box m) of
        Inl e \<Rightarrow> fail_manager e m
      | Inr b \<Rightarrow> send_reply i (Reply_committed (mb_committed b) (mb_dropped b)) (m\<lparr>mg_box := b\<rparr>))"
| "handle_command cfg i (Cmd_activate reply after) m =
     (if \<not> drained_paused m then fail_manager (ValueError ''activation requires pause() to finish draining'') m
      else case reply of
          Inl e \<Rightarrow> fail_manager e (m\<lparr>mg_backend := after\<rparr>)
        | Inr v \<Rightarrow> send_reply i (Reply_value v) (m\<lparr>mg_backend := after\<rparr>))"
| "handle_command cfg i (Cmd_evaluate reply) m =
     (if \<not> drained_paused m \<or> \<not> sv_can_evaluate cfg
      then fail_manager (ValueError ''actor evaluation requires a drained paused vLLM manager'') m
      else case reply of Inl e \<Rightarrow> fail_manager e m | Inr v \<Rightarrow> send_reply i (Reply_value v) m)"
| "handle_command cfg i (Cmd_resume reply stream after) m =
     (if mg_closing m then fail_manager (ValueError ''manager is closing'') m
      else let m = m\<lparr>mg_backend := after\<rparr> in
        case bindE reply (\<lambda>_. stream) of
          Inl e \<Rightarrow> fail_manager e m
        | Inr _ \<Rightarrow> send_reply i (Reply_value (JObj (bk_ack after))) (m\<lparr>mg_stream_paused := False, mg_paused := False\<rparr>))"
| "handle_command cfg i Cmd_close m =
     m\<lparr>mg_closing := True, mg_paused := True, mg_close_waiters := mg_close_waiters m @ [i]\<rparr>"
| "handle_command cfg i (Cmd_unknown name) m = fail_manager (ValueError (''unknown manager command: '' @ name)) m"

definition receive_eof :: "manager \<Rightarrow> manager" where
  "receive_eof m = m\<lparr>mg_closing := True, mg_paused := True\<rparr>"

text \<open>The outcome of the group in flight, once its task is done: what the stream returned, and the packet
  that the backend hands out.\<close>

definition finish_active ::
  "episode_result list result \<Rightarrow> manager_packet result \<Rightarrow> manager \<Rightarrow> manager" where
  "finish_active results packet m =
     (case results of
        Inl e \<Rightarrow> fail_manager e m
      | Inr rs \<Rightarrow>
          (case rs of
             [] \<Rightarrow> fail_manager IndexError m
           | [r] \<Rightarrow>
               if \<not> score_eligible r \<or> \<not> safe_result r then fail_manager (RuntimeError ''manager group failed'') m
               else (case packet of
                       Inl e \<Rightarrow> fail_manager e m
                     | Inr p \<Rightarrow> m\<lparr>mg_box := mailbox_produced p (mg_box m)\<rparr>)
           | _ \<Rightarrow> fail_manager (RuntimeError ''manager group failed'') m))"

text \<open>The pause boundary: the stream is paused, the backend too when somebody waits for it, and the
  waiters get the snapshot; when closing, the loop ends with the cleanup receipts.\<close>

definition answer_all :: "(recovery_state \<Rightarrow> manager_reply) \<Rightarrow> serve_config \<Rightarrow> int list \<Rightarrow> manager \<Rightarrow> manager" where
  "answer_all f cfg ids m =
     (if ids = [] then m
      else case manager_snapshot cfg m of
          Inl e \<Rightarrow> fail_manager e m
        | Inr s \<Rightarrow> foldl (\<lambda>m i. send_reply i (f s) m) m ids)"

definition pause_boundary :: "serve_config \<Rightarrow> unit result \<Rightarrow> manager \<Rightarrow> manager" where
  "pause_boundary cfg pause_reply m =
     (if \<not> drained_paused m then m
      else let m = m\<lparr>mg_stream_paused := True\<rparr> in
        case (if mg_pause_waiters m = [] then Inr () else pause_reply) of
          Inl e \<Rightarrow> fail_manager e m
        | Inr _ \<Rightarrow>
            let m = answer_all Reply_snapshot cfg (mg_pause_waiters m) m in
            if mg_failed m \<noteq> None then m
            else let m = m\<lparr>mg_pause_waiters := []\<rparr> in
              if \<not> mg_closing m then m
              else let m = answer_all Reply_cleanup cfg (mg_close_waiters m) (m\<lparr>mg_stream_open := False\<rparr>) in
                if mg_failed m \<noteq> None then m else m\<lparr>mg_finished := True\<rparr>)"

section \<open>Dispatch\<close>

definition group_task ::
  "(json \<Rightarrow> string result) \<Rightarrow> serve_config \<Rightarrow> dict \<Rightarrow> int \<Rightarrow> (dict \<times> task_spec) result" where
  "group_task dump_digest cfg ack g =
     (let index = g mod int (length (sv_records cfg));
          rec = sv_records cfg ! nat index;
          payload = [(''record'', rec), (''group_id'', JInt g), (''policy'', JObj ack)]
      in bindE (dump_digest rec) (\<lambda>source.
         bindE (ResourceRequirements (if sv_vllm cfg then ''vllm-policy'' else ''pytorch-policy'')
                  (JInt 0) (JInt 0) (JInt 0) (JInt 0) ''backend-stage'') (\<lambda>res.
         bindE (TaskSpec \<lparr>ts_benchmark = ''prompt-response'', ts_task_id = ''prompt-response/'' @ show_int index,
                  ts_source_sha256 = source, ts_payload = [(''prompt_response'', JObj payload)], ts_resources = res,
                  ts_budgets = [(''group_size'', JInt (sv_group_size cfg))],
                  ts_provenance = [(''record_index'', JInt index)]\<rparr>) (\<lambda>t. Inr (payload, t)))))"

definition string_entry :: "dict \<Rightarrow> string \<Rightarrow> string result" where
  "string_entry d k = bindE (dlookup d k) (\<lambda>v. case v of JStr s \<Rightarrow> Inr s | _ \<Rightarrow> Inl (TypeError k))"

definition group_plan ::
  "(json \<Rightarrow> string result) \<Rightarrow> (string \<Rightarrow> string) \<Rightarrow> serve_config \<Rightarrow> dict \<Rightarrow> int \<Rightarrow> episode_plan result" where
  "group_plan dump_digest sha cfg ack g =
     bindE (group_task dump_digest cfg ack g) (\<lambda>(payload, t).
     bindE (string_entry ack ''lineage'') (\<lambda>lin.
     bindE (EpisodeIdentity \<lparr>run_id = lin, benchmark = ''prompt-response'', task_id = ts_task_id t,
              group_id = show_int g, sample_index = 0, pass_index = 0,
              trial_id = Some (take 32 (sha (lin @ '':'' @ sv_resume_epoch cfg @ '':'' @ show_int g))),
              sampling_seed = None\<rparr>) (\<lambda>i. EpisodePlan i t (Some payload))))"

definition may_dispatch :: "serve_config \<Rightarrow> manager \<Rightarrow> bool" where
  "may_dispatch cfg m \<longleftrightarrow> \<not> mg_paused m \<and> mb_active (mg_box m) = None \<and>
     int (length (mb_retained (mg_box m))) < mailbox_bound cfg \<and>
     int (queued_groups (mg_box m)) < sv_queue_capacity cfg"

definition dispatch_group ::
  "(json \<Rightarrow> string result) \<Rightarrow> (string \<Rightarrow> string) \<Rightarrow> serve_config \<Rightarrow> manager \<Rightarrow> episode_plan option \<times> manager" where
  "dispatch_group dump_digest sha cfg m =
     (if \<not> may_dispatch cfg m then (None, m)
      else case group_plan dump_digest sha cfg (bk_ack (mg_backend m)) (mb_next (mg_box m)) of
          Inl e \<Rightarrow> (None, fail_manager e m)
        | Inr plan \<Rightarrow> (Some plan, m\<lparr>mg_box := mailbox_reserve (mg_box m)\<rparr>))"

text \<open>The body of the loop after the poll. \<open>flight\<close> is \<open>None\<close> while the group in flight is not done.\<close>

record tick_input =
  ti_flight :: "(episode_result list result \<times> manager_packet result) option"
  ti_pause :: "unit result"
  ti_backend :: backend_state

definition serve_tick ::
  "(json \<Rightarrow> string result) \<Rightarrow> (string \<Rightarrow> string) \<Rightarrow> serve_config \<Rightarrow> tick_input \<Rightarrow> manager \<Rightarrow> manager" where
  "serve_tick dump_digest sha cfg inp m =
     (let m = m\<lparr>mg_backend := ti_backend inp\<rparr>;
          m = (case (mb_active (mg_box m), ti_flight inp) of
                 (Some g, Some (results, packet)) \<Rightarrow> finish_active results packet m
               | _ \<Rightarrow> m)
      in if mg_failed m \<noteq> None then m
         else let m = pause_boundary cfg (ti_pause inp) m in
           if mg_failed m \<noteq> None \<or> mg_finished m then m
           else snd (dispatch_group dump_digest sha cfg m))"

datatype manager_op =
    Command int command
  | Eof
  | Tick tick_input

fun manager_step ::
  "(json \<Rightarrow> string result) \<Rightarrow> (string \<Rightarrow> string) \<Rightarrow> serve_config \<Rightarrow> manager_op \<Rightarrow> manager \<Rightarrow> manager" where
  "manager_step dump_digest sha cfg (Command i c) m = (if manager_live m then handle_command cfg i c m else m)"
| "manager_step dump_digest sha cfg Eof m = (if manager_live m then receive_eof m else m)"
| "manager_step dump_digest sha cfg (Tick inp) m =
     (if manager_live m then serve_tick dump_digest sha cfg inp m else m)"

section \<open>The learner's handle\<close>

datatype channel_event =
    Response int manager_reply
  | Fatal string
  | Channel_eof
  | Process_exited
  | Deadline

record handle =
  hd_started :: bool
  hd_request :: int
  hd_closed :: bool
  hd_failed :: bool

definition RolloutManager :: "json list \<Rightarrow> handle result" where
  "RolloutManager records =
     (if records = [] then Inl (ValueError ''manager requires at least one prompt record'')
      else Inr \<lparr>hd_started = False, hd_request = 0, hd_closed = False, hd_failed = False\<rparr>)"

text \<open>\<^verbatim>\<open>_receive\<close>, from the first event of the channel that ends its wait.\<close>

definition receive_response :: "int \<Rightarrow> channel_event \<Rightarrow> handle \<Rightarrow> manager_reply result \<times> handle" where
  "receive_response i ev h =
     (case ev of
        Response j v \<Rightarrow>
          if j \<noteq> i then (Inl (RuntimeError ''rollout worker failed: manager command identity differs''), h\<lparr>hd_failed := True\<rparr>)
          else (Inr v, h)
      | Fatal trace \<Rightarrow> (Inl (RuntimeError (''rollout worker failed: '' @ trace)), h\<lparr>hd_failed := True\<rparr>)
      | Channel_eof \<Rightarrow> (Inl (RuntimeError ''rollout worker failed: manager process closed its channel''), h\<lparr>hd_failed := True\<rparr>)
      | Process_exited \<Rightarrow> (Inl (RuntimeError ''rollout worker failed: manager process exited''), h\<lparr>hd_failed := True\<rparr>)
      | Deadline \<Rightarrow> (Inl (RuntimeError ''rollout worker failed: manager command acknowledgement timed out''), h\<lparr>hd_failed := True\<rparr>))"

definition start_handle :: "channel_event \<Rightarrow> handle \<Rightarrow> manager_reply result \<times> handle" where
  "start_handle ev h =
     (if hd_started h \<or> hd_closed h then (Inl (ValueError ''manager start is single-use''), h)
      else receive_response 0 ev (h\<lparr>hd_started := True\<rparr>))"

text \<open>\<^verbatim>\<open>_rpc\<close>: \<open>sent\<close> tells whether the request could be written, \<open>readable\<close> whether a broken channel
  still has something to read.\<close>

definition rpc :: "bool \<Rightarrow> bool \<Rightarrow> channel_event \<Rightarrow> handle \<Rightarrow> manager_reply result \<times> handle" where
  "rpc sent readable ev h =
     (if \<not> hd_started h \<or> hd_closed h \<or> hd_failed h then (Inl (RuntimeError ''manager is not running''), h)
      else let h = h\<lparr>hd_request := hd_request h + 1\<rparr> in
        if sent \<or> readable then receive_response (hd_request h) ev h
        else (Inl (RuntimeError ''rollout worker failed: manager command channel closed''), h\<lparr>hd_failed := True\<rparr>))"

text \<open>\<^verbatim>\<open>get\<close>: one event per poll; the list of events ends when the deadline has passed.\<close>

fun get_loop :: "(string \<Rightarrow> string) \<Rightarrow> (bool \<times> bool \<times> channel_event) list \<Rightarrow> handle \<Rightarrow> manager_packet option result \<times> handle" where
  "get_loop sha [] h = (Inr None, h)"
| "get_loop sha ((sent, readable, ev) # evs) h =
     (case rpc sent readable ev h of
        (Inl e, h) \<Rightarrow> (Inl e, h)
      | (Inr Reply_null, h) \<Rightarrow> get_loop sha evs h
      | (Inr (Reply_packet p), h) \<Rightarrow> (bindE (decode_manager_packet sha p) (\<lambda>p. Inr (Some p)), h)
      | (Inr v, h) \<Rightarrow> (Inl (TypeError ''packet is not a mapping''), h))"

text \<open>\<^verbatim>\<open>close\<close>: whether the process is alive and the request can be sent, how the channel answers, whether
  the process had to be stopped, and what stopping an owned actor reports.\<close>

definition close_handle ::
  "bool \<Rightarrow> bool \<Rightarrow> bool \<Rightarrow> channel_event \<Rightarrow> bool \<Rightarrow> exn option \<Rightarrow> handle \<Rightarrow> unit result \<times> handle" where
  "close_handle alive sent readable ev stopped_by_force actor h =
     (if hd_closed h then (Inr (), h)
      else
        let prior = hd_failed h;
            (reply, h) = (if hd_started h \<and> \<not> prior
                          then if alive then rpc sent readable ev h else receive_response (hd_request h) ev h
                          else (Inr Reply_null, h));
            failure = (case reply of Inl e \<Rightarrow> Some e | Inr _ \<Rightarrow> None);
            failure = (if failure = None \<and> hd_started h \<and> stopped_by_force
                       then Some (RuntimeError ''manager cleanup failed to drain its sampler'') else failure);
            failure = (if failure = None then actor else failure);
            h = h\<lparr>hd_closed := True\<rparr>
        in (case failure of Some e \<Rightarrow> if prior then (Inr (), h) else (Inl e, h) | None \<Rightarrow> (Inr (), h)))"

end
