(* ===== verification/Manager_Mailbox.thy ===== *)
theory Manager_Mailbox
  imports Manager Coordinator_Witness
begin

text \<open>
  The manager's mailbox implements a queue: the abstract state is the list of uncommitted packets in
  the order of their groups, with the cursor of its first group and how many of them were handed out.
  The dictionary with its delivered flags refines it, for every sequence of deliveries, commits,
  reservations and productions. The manager touches the mailbox through these operations only, so what
  the queue promises holds along every run of its command loop; a snapshot carries it over a restart.
\<close>

section \<open>The abstract queue\<close>

record fifo =
  ff_base :: int
  ff_packets :: "manager_packet list"
  ff_read :: nat
  ff_open :: bool
  ff_dropped :: int

datatype mailbox_op =
    Box_get
  | Box_commit "int list" "int list"
  | Box_reserve
  | Box_produced manager_packet

definition fifo_get :: "fifo \<Rightarrow> manager_packet option" where
  "fifo_get q = (if ff_read q < length (ff_packets q) then Some (ff_packets q ! ff_read q) else None)"

definition fifo_accepts :: "int list \<Rightarrow> int list \<Rightarrow> fifo \<Rightarrow> bool" where
  "fifo_accepts consumed rejected q \<longleftrightarrow>
     (let n = length (consumed @ rejected) in
      sort (consumed @ rejected) = [ff_base q .. ff_base q + int n - 1] \<and> n \<le> ff_read q)"

fun fifo_step :: "mailbox_op \<Rightarrow> fifo \<Rightarrow> fifo" where
  "fifo_step Box_get q = (if fifo_get q = None then q else q\<lparr>ff_read := ff_read q + 1\<rparr>)"
| "fifo_step (Box_commit consumed rejected) q =
     (if fifo_accepts consumed rejected q
      then let n = length (consumed @ rejected) in
        q\<lparr>ff_base := ff_base q + int n, ff_packets := drop n (ff_packets q), ff_read := ff_read q - n,
          ff_dropped := ff_dropped q + int (length rejected)\<rparr>
      else q)"
| "fifo_step Box_reserve q = q\<lparr>ff_open := True\<rparr>"
| "fifo_step (Box_produced p) q =
     (if ff_open q then q\<lparr>ff_packets := ff_packets q @ [p], ff_open := False\<rparr> else q)"

fun mailbox_step :: "mailbox_op \<Rightarrow> mailbox \<Rightarrow> mailbox" where
  "mailbox_step Box_get b = snd (mailbox_get b)"
| "mailbox_step (Box_commit consumed rejected) b =
     (case mailbox_commit consumed rejected b of Inl e \<Rightarrow> b | Inr b' \<Rightarrow> b')"
| "mailbox_step Box_reserve b = (if mb_active b = None then mailbox_reserve b else b)"
| "mailbox_step (Box_produced p) b = mailbox_produced p b"

abbreviation delivered :: "int \<times> manager_packet \<times> bool \<Rightarrow> bool" where
  "delivered r \<equiv> snd (snd r)"

definition fifo_of :: "mailbox \<Rightarrow> fifo" where
  "fifo_of b =
     \<lparr>ff_base = mb_committed b, ff_packets = map (\<lambda>r. fst (snd r)) (mailbox_rows b),
      ff_read = length (takeWhile delivered (mailbox_rows b)), ff_open = (mb_active b \<noteq> None),
      ff_dropped = mb_dropped b\<rparr>"

text \<open>The keys have no gap up to the group in flight, and what was delivered is a prefix.\<close>

definition mailbox_inv :: "mailbox \<Rightarrow> bool" where
  "mailbox_inv b \<longleftrightarrow>
     (let h = (if mb_active b = None then 0 else 1) in
      map fst (mailbox_rows b) = [mb_committed b .. mb_next b - 1 - h] \<and> mb_committed b \<le> mb_next b - h \<and>
      mb_active b \<in> {None, Some (mb_next b - 1)} \<and>
      list_all (\<lambda>r. \<not> delivered r) (dropWhile delivered (mailbox_rows b)))"

section \<open>Sorted rows\<close>

lemma insort_map: "(\<And>x. f (g x) = f x) \<Longrightarrow> insort_key f (g x) (map g xs) = map g (insort_key f x xs)"
  by (induction xs) simp_all

lemma sort_key_map_same: "(\<And>x. f (g x) = f x) \<Longrightarrow> sort_key f (map g xs) = map g (sort_key f xs)"
  by (induction xs) (simp_all add: insort_map)

lemma sort_key_snoc:
  assumes "\<And>y. y \<in> set xs \<Longrightarrow> f y < f x"
  shows "sort_key f (xs @ [x]) = sort_key f xs @ [x]"
  using assms
proof (induction xs)
  case (Cons a xs)
  have "sort_key f ((a # xs) @ [x]) = insort_key f a (sort_key f xs @ [x])" using Cons by simp
  also have "insort_key f a (ys @ [x]) = insort_key f a ys @ [x]" for ys
    using Cons.prems [of a] by (induction ys) auto
  finally show ?case by simp
qed simp

lemma map_fst_rows: "map fst (mailbox_rows b) = sort (map fst (mb_retained b))"
  unfolding mailbox_rows_def by (rule sym, rule properties_for_sort) simp_all

lemma length_rows: "length (mailbox_rows b) = length (mb_retained b)"
  by (simp add: mailbox_rows_def)

lemma set_rows: "set (mailbox_rows b) = set (mb_retained b)"
  by (simp add: mailbox_rows_def)

lemma inv_distinct: "mailbox_inv b \<Longrightarrow> distinct (map fst (mailbox_rows b))"
  by (simp add: mailbox_inv_def Let_def)

lemma inv_distinct_retained: "mailbox_inv b \<Longrightarrow> distinct (map fst (mb_retained b))"
  using inv_distinct [of b] by (simp add: map_fst_rows)

lemma first_undelivered_Some:
  "first_undelivered rs = Some (g, p) \<Longrightarrow> \<exists>xs ys. rs = xs @ (g, p, False) # ys \<and> list_all delivered xs"
proof (induction rs rule: first_undelivered.induct)
  case (2 g' p' d rows)
  show ?case
  proof (cases d)
    case True
    with 2 obtain xs ys where "rows = xs @ (g, p, False) # ys" "list_all delivered xs" by auto
    with True show ?thesis by (intro exI [of _ "(g', p', d) # xs"] exI [of _ ys]) simp
  next
    case False
    with 2 show ?thesis by (intro exI [of _ "[]"] exI [of _ rows]) simp
  qed
qed simp

lemma first_undelivered_None: "first_undelivered rs = None \<longleftrightarrow> list_all delivered rs"
  by (induction rs rule: first_undelivered.induct) simp_all

lemma takeWhile_delivered: "list_all delivered xs \<Longrightarrow> takeWhile delivered (xs @ ys) = xs @ takeWhile delivered ys"
  by (simp add: list_all_iff)

lemma dropWhile_delivered: "list_all delivered xs \<Longrightarrow> dropWhile delivered (xs @ ys) = dropWhile delivered ys"
  by (simp add: list_all_iff)

section \<open>Delivery\<close>

lemma get_None: "first_undelivered (mailbox_rows b) = None \<Longrightarrow> mailbox_get b = (None, b) \<and> fifo_get (fifo_of b) = None"
proof -
  assume none: "first_undelivered (mailbox_rows b) = None"
  then have "takeWhile delivered (mailbox_rows b) = mailbox_rows b"
    by (simp add: first_undelivered_None takeWhile_eq_all_conv list_all_iff)
  then have "length (takeWhile delivered (mailbox_rows b)) = length (mailbox_rows b)" by (rule arg_cong)
  with none show ?thesis by (simp add: mailbox_get_def fifo_get_def fifo_of_def)
qed

lemma get_Some:
  assumes "mailbox_inv b" "first_undelivered (mailbox_rows b) = Some (g, p)"
  obtains b' xs ys where "mailbox_get b = (Some p, b')" "mailbox_rows b = xs @ (g, p, False) # ys"
    "mailbox_rows b' = xs @ (g, p, True) # ys" "list_all delivered xs" "list_all (\<lambda>r. \<not> delivered r) ys"
    "mb_committed b' = mb_committed b" "mb_next b' = mb_next b" "mb_active b' = mb_active b" "mb_dropped b' = mb_dropped b"
    "length (mb_retained b') = length (mb_retained b)"
proof -
  obtain xs ys where rows: "mailbox_rows b = xs @ (g, p, False) # ys" "list_all delivered xs"
    using first_undelivered_Some [OF assms(2)] by blast
  let ?u = "\<lambda>r. if fst r = g then (g, fst (snd r), True) else r"
  let ?b = "b\<lparr>mb_retained := map ?u (mb_retained b)\<rparr>"
  have "list_all (\<lambda>r. \<not> delivered r) ys"
    using assms(1) rows by (simp add: mailbox_inv_def Let_def dropWhile_delivered)
  moreover have "mailbox_rows ?b = map ?u (mailbox_rows b)"
    unfolding mailbox_rows_def by (simp add: sort_key_map_same)
  moreover have "map ?u (mailbox_rows b) = xs @ (g, p, True) # ys"
  proof -
    have "g \<notin> fst ` set xs" "g \<notin> fst ` set ys"
      using inv_distinct [OF assms(1)] rows(1) by auto
    then have "map ?u xs = xs" "map ?u ys = ys" by (force intro!: map_idI)+
    then show ?thesis using rows(1) by simp
  qed
  moreover have "mailbox_get b = (Some p, ?b)" using assms(2) by (simp add: mailbox_get_def)
  ultimately show thesis using that [of ?b] rows by simp
qed

lemma takeWhile_none: "list_all (\<lambda>r. \<not> delivered r) ys \<Longrightarrow> takeWhile delivered ys = [] \<and> dropWhile delivered ys = ys"
  by (cases ys) simp_all

lemma mailbox_get_inv: "mailbox_inv b \<Longrightarrow> mailbox_inv (snd (mailbox_get b))"
proof (cases "first_undelivered (mailbox_rows b)")
  case (Some gp)
  assume inv: "mailbox_inv b"
  obtain g p where gp: "gp = (g, p)" by (cases gp)
  show ?thesis
  proof (rule get_Some [OF inv])
    show "first_undelivered (mailbox_rows b) = Some (g, p)" using Some gp by simp
    fix b' xs ys
    assume "mailbox_get b = (Some p, b')" "mailbox_rows b = xs @ (g, p, False) # ys"
      "mailbox_rows b' = xs @ (g, p, True) # ys" "list_all delivered xs" "list_all (\<lambda>r. \<not> delivered r) ys"
      "mb_committed b' = mb_committed b" "mb_next b' = mb_next b" "mb_active b' = mb_active b"
    then show ?thesis using inv by (simp add: mailbox_inv_def Let_def dropWhile_delivered takeWhile_none)
  qed
qed (simp add: get_None)

lemma get_refines:
  assumes "mailbox_inv b"
  shows "fst (mailbox_get b) = fifo_get (fifo_of b) \<and> fifo_of (snd (mailbox_get b)) = fifo_step Box_get (fifo_of b)"
proof (cases "first_undelivered (mailbox_rows b)")
  case None
  then show ?thesis using get_None by simp
next
  case (Some gp)
  obtain g p where gp: "gp = (g, p)" by (cases gp)
  show ?thesis
  proof (rule get_Some [OF assms])
    show "first_undelivered (mailbox_rows b) = Some (g, p)" using Some gp by simp
    fix b' xs ys
    assume "mailbox_get b = (Some p, b')" "mailbox_rows b = xs @ (g, p, False) # ys"
      "mailbox_rows b' = xs @ (g, p, True) # ys" "list_all delivered xs" "list_all (\<lambda>r. \<not> delivered r) ys"
      "mb_committed b' = mb_committed b" "mb_active b' = mb_active b" "mb_dropped b' = mb_dropped b"
    then show ?thesis
      by (simp add: fifo_of_def fifo_get_def takeWhile_delivered takeWhile_none nth_append)
  qed
qed

section \<open>Commit\<close>

lemma take_undelivered:
  "list_all (\<lambda>r. \<not> delivered r) ys \<Longrightarrow> 0 < m \<Longrightarrow> list_all delivered (take m ys) \<longleftrightarrow> ys = []"
  by (cases ys; cases m) auto

lemma delivered_prefix:
  assumes "list_all (\<lambda>r. \<not> delivered r) (dropWhile delivered rs)"
  shows "list_all delivered (take n rs) \<longleftrightarrow> n \<le> length (takeWhile delivered rs) \<or> list_all delivered rs"
proof -
  let ?xs = "takeWhile delivered rs" and ?ys = "dropWhile delivered rs"
  have rs: "rs = ?xs @ ?ys" by simp
  have xs: "list_all delivered ?xs" by (auto simp: list_all_iff dest: set_takeWhileD)
  show ?thesis
  proof (cases "n \<le> length ?xs")
    case True
    then have "take n rs = take n ?xs" by (subst rs) (simp del: takeWhile_dropWhile_id)
    then show ?thesis using True xs by (auto simp: list_all_iff dest: in_set_takeD)
  next
    case False
    then have "take n rs = ?xs @ take (n - length ?xs) ?ys" by (subst rs) (simp del: takeWhile_dropWhile_id)
    moreover have "list_all delivered (take (n - length ?xs) ?ys) \<longleftrightarrow> ?ys = []"
      using take_undelivered [OF assms, of "n - length ?xs"] False by (simp only: not_le zero_less_diff)
    moreover have "list_all delivered rs \<longleftrightarrow> ?ys = []" by (simp add: list_all_iff dropWhile_eq_Nil_conv)
    moreover have "list_all delivered (take n rs) \<longleftrightarrow> list_all delivered (take (n - length ?xs) ?ys)"
      using xs calculation(1) by (simp add: list_all_append)
    ultimately show ?thesis using False by blast
  qed
qed

lemma take_upto: "n \<le> length [a .. b] \<Longrightarrow> take n [a .. b] = [a .. a + int n - 1]"
  by (rule nth_equalityI) (auto simp: nth_upto)

lemma commit_accepts:
  assumes "mailbox_inv b"
  shows "(\<exists>b'. mailbox_commit consumed rejected b = Inr b') \<longleftrightarrow> fifo_accepts consumed rejected (fifo_of b)"
proof -
  let ?ids = "sort (consumed @ rejected)"
  let ?n = "length (consumed @ rejected)"
  let ?rows = "mailbox_rows b"
  obtain hi where keys: "map fst ?rows = [mb_committed b .. hi]" using assms by (auto simp: mailbox_inv_def Let_def)
  have prefix: "list_all (\<lambda>r. \<not> delivered r) (dropWhile delivered ?rows)" using assms by (simp add: mailbox_inv_def Let_def)
  have d: "distinct (map fst (mb_retained b))" using inv_distinct_retained [OF assms] .
  have look: "map_of (mb_retained b) g = map_of ?rows g" for g
    using d set_rows map_of_eqI [of "mb_retained b" ?rows] inv_distinct [OF assms]
    by (metis map_of_eq_Some_iff not_Some_eq)
  have len: "length ?ids = ?n" by simp
  have flags: "list_ex (\<lambda>g. map_option snd (map_of (mb_retained b) g) \<noteq> Some True) (take ?n (map fst ?rows)) \<longleftrightarrow>
      \<not> list_all delivered (take ?n ?rows)"
  proof -
    have "map_of ?rows (fst r) = Some (snd r)" if "r \<in> set ?rows" for r
      using map_of_is_SomeI [of ?rows "fst r" "snd r"] inv_distinct [OF assms] that by (simp del: map_of_eq_Some_iff)
    then have m: "map_option snd (map_of ?rows (fst r)) = Some (delivered r)" if "r \<in> set ?rows" for r
      using that by simp
    have "list_all delivered (take ?n ?rows) \<longleftrightarrow> (\<forall>r \<in> set (take ?n ?rows). map_option snd (map_of ?rows (fst r)) = Some True)"
      unfolding list_all_iff
    proof (rule ball_cong)
      fix r
      assume "r \<in> set (take ?n ?rows)"
      from m [OF in_set_takeD [OF this]]
      have e: "map_option snd (map_of ?rows (fst r)) = Some (delivered r)" .
      show "delivered r = (map_option snd (map_of ?rows (fst r)) = Some True)" unfolding e by simp
    qed simp
    then show ?thesis unfolding look by (simp add: take_map list_ex_iff)
  qed
  have keys_n: "?ids = take ?n (map fst ?rows) \<longleftrightarrow> ?ids = [mb_committed b .. mb_committed b + int ?n - 1] \<and> ?n \<le> length ?rows"
  proof
    assume a: "?ids = take ?n (map fst ?rows)"
    have "?n = min (length ?rows) ?n"
      using arg_cong [OF a, of length] by (simp only: length_sort length_take length_map)
    then have n: "?n \<le> length ?rows" by linarith
    have "take ?n [mb_committed b .. hi] = [mb_committed b .. mb_committed b + int ?n - 1]"
      using n arg_cong [OF keys, of length] by (intro take_upto) simp
    then show "?ids = [mb_committed b .. mb_committed b + int ?n - 1] \<and> ?n \<le> length ?rows" using a keys n by simp
  next
    assume a: "?ids = [mb_committed b .. mb_committed b + int ?n - 1] \<and> ?n \<le> length ?rows"
    then have "take ?n [mb_committed b .. hi] = [mb_committed b .. mb_committed b + int ?n - 1]"
      using arg_cong [OF keys, of length] by (intro take_upto) simp
    then show "?ids = take ?n (map fst ?rows)" using a keys by simp
  qed
  have "(\<exists>b'. mailbox_commit consumed rejected b = Inr b') \<longleftrightarrow>
      distinct ?ids \<and> ?ids = take ?n (map fst ?rows) \<and> list_all delivered (take ?n ?rows)"
    unfolding mailbox_commit_def Let_def len using flags by auto
  also have "\<dots> \<longleftrightarrow> ?ids = [mb_committed b .. mb_committed b + int ?n - 1] \<and> ?n \<le> length (takeWhile delivered ?rows)"
  proof -
    have dist: "?ids = [mb_committed b .. mb_committed b + int ?n - 1] \<Longrightarrow> distinct ?ids" by (simp only: distinct_upto)
    have le: "?n \<le> length (takeWhile delivered ?rows) \<Longrightarrow> ?n \<le> length ?rows"
      using length_takeWhile_le [of delivered ?rows] by linarith
    have all: "length (takeWhile delivered ?rows) = length ?rows" if "list_all delivered ?rows"
      using takeWhile_eq_all_conv [of delivered ?rows] that unfolding list_all_iff by metis
    show ?thesis unfolding keys_n delivered_prefix [OF prefix] using dist le all by metis
  qed
  finally show ?thesis by (simp add: fifo_accepts_def fifo_of_def Let_def)
qed

lemma filter_not_first:
  assumes "distinct (map fst rows)"
  shows "filter (\<lambda>r. fst r \<notin> set (take n (map fst rows))) rows = drop n rows"
proof -
  have "distinct (map fst (take n rows) @ map fst (drop n rows))"
    using assms by (metis append_take_drop_id map_append)
  then have disj: "set (map fst (take n rows)) \<inter> set (map fst (drop n rows)) = {}" by simp
  have "filter (\<lambda>r. fst r \<notin> set (take n (map fst rows))) (take n rows @ drop n rows) = drop n rows"
    unfolding filter_append take_map
    using disj by (auto simp: filter_empty_conv intro!: filter_True)
  then show ?thesis by simp
qed

lemma commit_rows:
  assumes "mailbox_inv b" "mailbox_commit consumed rejected b = Inr b'"
  defines "n \<equiv> length (consumed @ rejected)"
  shows "mailbox_rows b' = drop n (mailbox_rows b)" "mb_committed b' = mb_committed b + int n"
    "mb_dropped b' = mb_dropped b + int (length rejected)" "mb_next b' = mb_next b" "mb_active b' = mb_active b"
    "n \<le> length (takeWhile delivered (mailbox_rows b))"
proof -
  let ?ids = "sort (consumed @ rejected)"
  have len: "length ?ids = n" by (simp add: n_def)
  have acc: "fifo_accepts consumed rejected (fifo_of b)" using commit_accepts [OF assms(1)] assms(2) by blast
  then have ids: "?ids = [mb_committed b .. mb_committed b + int n - 1]"
    and n: "n \<le> length (takeWhile delivered (mailbox_rows b))"
    by (simp_all add: fifo_accepts_def fifo_of_def Let_def n_def)
  have take: "?ids = take n (map fst (mailbox_rows b))"
    and b': "b' = b\<lparr>mb_retained := filter (\<lambda>r. fst r \<notin> set ?ids) (mb_retained b),
                  mb_committed := (if ?ids = [] then mb_committed b else last ?ids + 1),
                  mb_dropped := mb_dropped b + int (length rejected)\<rparr>"
    using assms(2) len unfolding mailbox_commit_def Let_def guard_Inr_iff by (metis, metis sum.inject(2))
  have "mailbox_rows b' = filter (\<lambda>r. fst r \<notin> set ?ids) (mailbox_rows b)"
    unfolding b' mailbox_rows_def by (simp add: filter_sort)
  also have "\<dots> = drop n (mailbox_rows b)"
    unfolding take by (rule filter_not_first [OF inv_distinct [OF assms(1)]])
  finally show "mailbox_rows b' = drop n (mailbox_rows b)" .
  have "(if ?ids = [] then mb_committed b else last ?ids + 1) = mb_committed b + int n"
  proof (cases "n = 0")
    case True
    then have "?ids = []" using len by simp
    then show ?thesis using True by (simp only: if_True) simp
  next
    case False
    then have "last [mb_committed b .. mb_committed b + int n - 1] = mb_committed b + int n - 1"
      using take_upto_last [of n "mb_committed b" "mb_committed b + int n - 1"] by simp
    moreover have "?ids \<noteq> []" using False len by (metis list.size(3))
    ultimately show ?thesis using ids by (simp only: if_False)
  qed
  then show "mb_committed b' = mb_committed b + int n" unfolding b' by simp
  show "mb_dropped b' = mb_dropped b + int (length rejected)" "mb_next b' = mb_next b" "mb_active b' = mb_active b"
    unfolding b' by simp_all
  show "n \<le> length (takeWhile delivered (mailbox_rows b))" by (rule n)
qed

lemma drop_takeWhile:
  "n \<le> length (takeWhile P xs) \<Longrightarrow> takeWhile P (drop n xs) = drop n (takeWhile P xs) \<and> dropWhile P (drop n xs) = dropWhile P xs"
proof (induction n arbitrary: xs)
  case (Suc n)
  then obtain x ys where "xs = x # ys" "P x" by (cases xs) (auto split: if_splits)
  then show ?case using Suc by simp
qed simp

lemma commit_inv_refines:
  assumes "mailbox_inv b" "mailbox_commit consumed rejected b = Inr b'"
  shows "mailbox_inv b' \<and> fifo_of b' = fifo_step (Box_commit consumed rejected) (fifo_of b)"
proof -
  let ?n = "length (consumed @ rejected)"
  note c = commit_rows [OF assms]
  have acc: "fifo_accepts consumed rejected (fifo_of b)" using commit_accepts [OF assms(1)] assms(2) by blast
  note dt = drop_takeWhile [OF c(6)]
  let ?h = "if mb_active b = None then 0 else 1 :: int"
  have inv: "map fst (mailbox_rows b) = [mb_committed b .. mb_next b - 1 - ?h]" "mb_committed b \<le> mb_next b - ?h"
    "mb_active b \<in> {None, Some (mb_next b - 1)}" "list_all (\<lambda>r. \<not> delivered r) (dropWhile delivered (mailbox_rows b))"
    using assms(1) unfolding mailbox_inv_def Let_def by blast+
  have "?n \<le> length (mailbox_rows b)" using c(6) length_takeWhile_le [of delivered "mailbox_rows b"] by linarith
  then have "mb_committed b + int ?n \<le> mb_next b - ?h" using arg_cong [OF inv(1), of length] inv(2) by simp
  moreover have "map fst (drop ?n (mailbox_rows b)) = [mb_committed b + int ?n .. mb_next b - 1 - ?h]"
    using inv(1) by (simp add: drop_map [symmetric] drop_upto del: drop_map) 
  ultimately have "mailbox_inv b'"
    unfolding mailbox_inv_def Let_def c(1,2,4,5) using inv(3,4) dt by metis
  moreover have "fifo_of b' = fifo_step (Box_commit consumed rejected) (fifo_of b)"
    using acc dt unfolding fifo_of_def c(1-5) fifo_step.simps Let_def by (simp add: drop_map)
  ultimately show ?thesis ..
qed

section \<open>Reservation and production\<close>

lemma reserve_inv_refines:
  assumes "mailbox_inv b" "mb_active b = None"
  shows "mailbox_inv (mailbox_reserve b) \<and> fifo_of (mailbox_reserve b) = fifo_step Box_reserve (fifo_of b)"
  using assms by (simp add: mailbox_inv_def mailbox_reserve_def fifo_of_def mailbox_rows_def Let_def)

lemma produced_rows:
  assumes "mailbox_inv b" "mb_active b = Some g"
  shows "mailbox_rows (mailbox_produced p b) = mailbox_rows b @ [(g, p, False)]"
proof -
  have g: "g = mb_next b - 1" "map fst (mailbox_rows b) = [mb_committed b .. mb_next b - 1 - 1]"
    using assms by (simp_all add: mailbox_inv_def Let_def)
  have "fst r < g" if "r \<in> set (mb_retained b)" for r
  proof -
    have "fst r \<in> set (map fst (mailbox_rows b))" using that set_rows [of b] by simp
    then show ?thesis unfolding g(2) using g(1) by simp
  qed
  then show ?thesis using assms(2) unfolding mailbox_rows_def mailbox_produced_def by (simp add: sort_key_snoc)
qed

lemma produced_inv_refines:
  assumes "mailbox_inv b"
  shows "mailbox_inv (mailbox_produced p b) \<and> fifo_of (mailbox_produced p b) = fifo_step (Box_produced p) (fifo_of b)"
proof (cases "mb_active b")
  case None
  then show ?thesis using assms by (simp add: mailbox_produced_def fifo_of_def)
next
  case (Some g)
  let ?b = "mailbox_produced p b"
  have f: "mb_committed ?b = mb_committed b" "mb_next ?b = mb_next b" "mb_active ?b = None" "mb_dropped ?b = mb_dropped b"
    using Some by (simp_all add: mailbox_produced_def)
  have inv: "map fst (mailbox_rows b) = [mb_committed b .. mb_next b - 1 - 1]" "mb_committed b \<le> mb_next b - 1" "g = mb_next b - 1"
    "list_all (\<lambda>r. \<not> delivered r) (dropWhile delivered (mailbox_rows b))"
    using assms Some by (simp_all add: mailbox_inv_def Let_def)
  have keys: "map fst (mailbox_rows ?b) = [mb_committed b .. mb_next b - 1]"
    using inv upto_snoc [of "mb_committed b" "mb_next b - 1 - 1"] by (simp add: produced_rows [OF assms Some])
  have flags: "list_all (\<lambda>r. \<not> delivered r) (dropWhile delivered (mailbox_rows ?b)) \<and>
      takeWhile delivered (mailbox_rows ?b) = takeWhile delivered (mailbox_rows b)"
  proof (cases "list_all delivered (mailbox_rows b)")
    case True
    then have all: "takeWhile delivered (mailbox_rows b) = mailbox_rows b"
      unfolding list_all_iff by (rule takeWhile_eq_all_conv [THEN iffD2])
    show ?thesis
      unfolding produced_rows [OF assms Some] takeWhile_delivered [OF True] dropWhile_delivered [OF True] all by simp
  next
    case False
    then obtain r where "r \<in> set (mailbox_rows b)" "\<not> delivered r" by (auto simp: list_all_iff)
    then have "takeWhile delivered (mailbox_rows b @ [(g, p, False)]) = takeWhile delivered (mailbox_rows b)"
      "dropWhile delivered (mailbox_rows b @ [(g, p, False)]) = dropWhile delivered (mailbox_rows b) @ [(g, p, False)]"
      by (simp_all add: takeWhile_append dropWhile_append) blast+
    then show ?thesis using inv(4) unfolding produced_rows [OF assms Some] by simp
  qed
  have "mailbox_inv ?b" using keys flags inv(2) by (simp add: mailbox_inv_def Let_def f)
  moreover have "fifo_of ?b = fifo_step (Box_produced p) (fifo_of b)"
    using flags Some by (simp add: fifo_of_def f produced_rows [OF assms Some])
  ultimately show ?thesis ..
qed

lemma commit_refused:
  "mailbox_inv b \<Longrightarrow> mailbox_commit consumed rejected b = Inl e \<Longrightarrow>
   fifo_step (Box_commit consumed rejected) (fifo_of b) = fifo_of b"
  using commit_accepts [of b consumed rejected] by simp

lemma mailbox_step_simulates:
  assumes "mailbox_inv b"
  shows "mailbox_inv (mailbox_step op b) \<and> fifo_of (mailbox_step op b) = fifo_step op (fifo_of b)"
proof (cases op)
  case Box_get
  then show ?thesis using mailbox_get_inv get_refines assms by simp
next
  case (Box_commit consumed rejected)
  show ?thesis
  proof (cases "mailbox_commit consumed rejected b")
    case (Inl e)
    then show ?thesis using Box_commit assms commit_refused [OF assms Inl] by simp
  next
    case (Inr b')
    then show ?thesis using Box_commit commit_inv_refines [OF assms Inr] by simp
  qed
next
  case Box_reserve
  show ?thesis
  proof (cases "mb_active b = None")
    case True
    then show ?thesis using Box_reserve reserve_inv_refines [OF assms] by simp
  next
    case False
    then obtain g where "mb_active b = Some g" by blast
    then show ?thesis using Box_reserve assms by (simp add: fifo_of_def)
  qed
next
  case (Box_produced p)
  then show ?thesis using produced_inv_refines [OF assms] by simp
qed

interpretation mailbox_refinement: op_refinement mailbox_step mailbox_inv fifo_step fifo_of
  by unfold_locales (simp_all add: mailbox_step_simulates)

text \<open>A restored mailbox, whose packets are all to be delivered again.\<close>

lemma restore_rows_undelivered:
  "restore_mailbox_rows sha lo hi es rows = Inr rows' \<Longrightarrow> list_all (\<lambda>r. \<not> delivered r) rows \<Longrightarrow>
   list_all (\<lambda>r. \<not> delivered r) rows'"
proof (induction es arbitrary: rows)
  case (Cons e es)
  then show ?case unfolding restore_mailbox_rows.simps bindE_Inr_iff Let_def guard_Inr_iff by fastforce
qed simp

lemma restore_mailbox_inv:
  assumes "restore_mailbox sha cfg first recovery = Inr b" "mb_committed b \<le> mb_next b"
  shows "mailbox_inv b" "int (length (mb_retained b)) \<le> mailbox_bound cfg" "mb_active b = None" "ff_read (fifo_of b) = 0"
proof -
  have b: "\<exists>lo hi es. restore_mailbox_rows sha lo hi es [] = Inr (mb_retained b)"
    "sort (map fst (mb_retained b)) = [mb_committed b .. mb_next b - 1]" "int (length (mb_retained b)) \<le> mailbox_bound cfg"
    "mb_active b = None"
    using assms(1) unfolding restore_mailbox_def Let_def bindE_Inr_iff guard_Inr_iff de_Morgan_disj not_not not_less
    by (elim exE conjE; clarsimp; blast)+
  obtain lo hi es where "restore_mailbox_rows sha lo hi es [] = Inr (mb_retained b)" using b(1) by blast
  then have "list_all (\<lambda>r. \<not> delivered r) (mb_retained b)" by (rule restore_rows_undelivered) simp
  then have "list_all (\<lambda>r. \<not> delivered r) (mailbox_rows b)" unfolding list_all_iff set_rows .
  note u = takeWhile_none [OF this]
  show "mailbox_inv b"
    using b assms(2) u \<open>list_all _ (mailbox_rows b)\<close> by (simp add: mailbox_inv_def Let_def map_fst_rows)
  show "int (length (mb_retained b)) \<le> mailbox_bound cfg" "mb_active b = None" "ff_read (fifo_of b) = 0"
    using b u by (simp_all add: fifo_of_def)
qed

section \<open>The command loop\<close>

definition in_flight :: "mailbox \<Rightarrow> int" where
  "in_flight b = (if mb_active b = None then 0 else 1)"

definition mailbox_bounded :: "serve_config \<Rightarrow> mailbox \<Rightarrow> bool" where
  "mailbox_bounded cfg b \<longleftrightarrow> mailbox_inv b \<and> int (length (mb_retained b)) + in_flight b \<le> mailbox_bound cfg"

definition manager_inv :: "serve_config \<Rightarrow> manager \<Rightarrow> bool" where
  "manager_inv cfg m \<longleftrightarrow> mailbox_bounded cfg (mg_box m)"

lemma reply_frame [simp]:
  "mg_box (send_reply i v m) = mg_box m" "mg_box (fail_manager e m) = mg_box m" "mg_box (receive_eof m) = mg_box m"
  "mg_failed (send_reply i v m) = mg_failed m" "mg_failed (fail_manager e m) = Some e"
  by (simp_all add: send_reply_def fail_manager_def receive_eof_def)

lemma foldl_reply [simp]:
  "mg_box (foldl (\<lambda>m i. send_reply i v m) m ids) = mg_box m"
  "mg_failed (foldl (\<lambda>m i. send_reply i v m) m ids) = mg_failed m"
  by (induction ids arbitrary: m) simp_all

lemma answer_all_box [simp]: "mg_box (answer_all f cfg ids m) = mg_box m"
  by (simp add: answer_all_def split: sum.split)

lemma pause_boundary_box [simp]: "mg_box (pause_boundary cfg reply m) = mg_box m"
  by (simp add: pause_boundary_def Let_def split: sum.split)

lemma get_bounded: "mailbox_bounded cfg b \<Longrightarrow> mailbox_bounded cfg (snd (mailbox_get b))"
proof -
  assume b: "mailbox_bounded cfg b"
  have "length (mb_retained (snd (mailbox_get b))) = length (mb_retained b) \<and> in_flight (snd (mailbox_get b)) = in_flight b"
    by (simp add: mailbox_get_def in_flight_def split: option.split)
  then show ?thesis using b mailbox_get_inv by (simp add: mailbox_bounded_def)
qed

lemma commit_bounded:
  assumes "mailbox_bounded cfg b" "mailbox_commit consumed rejected b = Inr b'"
  shows "mailbox_bounded cfg b'"
proof -
  have inv: "mailbox_inv b" using assms(1) by (simp add: mailbox_bounded_def)
  have "length (mb_retained b') \<le> length (mb_retained b)"
    using commit_rows(1) [OF inv assms(2)] length_rows [of b] length_rows [of b'] by simp
  then show ?thesis
    using assms(1) commit_inv_refines [OF inv assms(2)] commit_rows(5) [OF inv assms(2)]
    by (simp add: mailbox_bounded_def in_flight_def)
qed

lemma produced_bounded: "mailbox_bounded cfg b \<Longrightarrow> mailbox_bounded cfg (mailbox_produced p b)"
  using produced_inv_refines [of b p]
  by (cases "mb_active b") (simp_all add: mailbox_bounded_def in_flight_def mailbox_produced_def)

lemma reserve_bounded:
  "mailbox_bounded cfg b \<Longrightarrow> mb_active b = None \<Longrightarrow> int (length (mb_retained b)) < mailbox_bound cfg \<Longrightarrow>
   mailbox_bounded cfg (mailbox_reserve b)"
  using reserve_inv_refines [of b] by (simp add: mailbox_bounded_def in_flight_def mailbox_reserve_def)

lemma handle_command_inv:
  assumes "manager_inv cfg m"
  shows "manager_inv cfg (handle_command cfg i c m)"
proof (cases c)
  case Cmd_get
  obtain p b where g: "mailbox_get (mg_box m) = (p, b)" by (cases "mailbox_get (mg_box m)")
  have "mailbox_bounded cfg b" using get_bounded [of cfg "mg_box m"] assms g by (simp add: manager_inv_def)
  then show ?thesis using Cmd_get g assms by (cases p) (simp_all add: manager_inv_def)
next
  case (Cmd_commit consumed rejected)
  show ?thesis
  proof (cases "mailbox_commit consumed rejected (mg_box m)")
    case (Inr b)
    then show ?thesis using Cmd_commit commit_bounded [OF _ Inr] assms by (simp add: manager_inv_def)
  qed (use Cmd_commit assms in \<open>simp add: manager_inv_def\<close>)
qed (use assms in \<open>auto simp: manager_inv_def Let_def split: sum.split\<close>)

lemma serve_tick_inv:
  assumes "manager_inv cfg m"
  shows "manager_inv cfg (serve_tick dd sha cfg inp m)"
proof -
  have fin: "manager_inv cfg (finish_active results packet m')" if "manager_inv cfg m'" for results packet m'
    using that produced_bounded by (simp add: finish_active_def manager_inv_def split: sum.split list.split)
  have disp: "manager_inv cfg (snd (dispatch_group dd sha cfg m'))" if "manager_inv cfg m'" for m'
    using that reserve_bounded by (auto simp: dispatch_group_def manager_inv_def may_dispatch_def split: sum.split)
  have pb: "manager_inv cfg (pause_boundary cfg reply m')" if "manager_inv cfg m'" for reply m'
    using that by (simp add: manager_inv_def)
  have "manager_inv cfg (m\<lparr>mg_backend := ti_backend inp\<rparr>)" using assms by (simp add: manager_inv_def)
  then show ?thesis
    unfolding serve_tick_def Let_def using fin disp pb by (simp split: option.split prod.split)
qed

lemma manager_step_inv: "manager_inv cfg m \<Longrightarrow> manager_inv cfg (manager_step dd sha cfg op m)"
  by (cases op) (simp_all add: handle_command_inv serve_tick_inv, simp add: manager_inv_def)

interpretation manager_system: op_system "manager_step dd sha cfg" "manager_inv cfg" for dd sha cfg
  by unfold_locales (rule manager_step_inv)

lemma start_manager_inv:
  assumes "restore_mailbox sha cfg first recovery = Inr b" "mb_committed b \<le> mb_next b"
  shows "manager_inv cfg (start_manager sp bk b reply)"
  using restore_mailbox_inv [OF assms]
  by (simp add: manager_inv_def mailbox_bounded_def in_flight_def start_manager_def Let_def split: sum.split)

lemma manager_reachable:
  assumes "restore_mailbox sha cfg first recovery = Inr b" "mb_committed b \<le> mb_next b"
  shows "manager_inv cfg (fold (manager_step dd sha cfg) ops (start_manager sp bk b reply))"
  by (rule manager_system.inv_run [OF start_manager_inv [OF assms]])

section \<open>A snapshot restores the queue\<close>

definition valid_packet :: "(string \<Rightarrow> string) \<Rightarrow> int \<times> manager_packet \<times> bool \<Rightarrow> bool" where
  "valid_packet sha r \<longleftrightarrow>
     (let p = fst (snd r) in
      valid_group sha (mp_trace p) \<and> to_rollout_group (mp_trace p) = Inr (mp_group p) \<and> g_group_id (mp_group p) = fst r \<and>
      map_of (mp_fields p) ''policy_ack'' = Some (JObj (policy_ack (tg_policy (mp_trace p)))))"

lemma RolloutGroup_again:
  assumes "RolloutGroup ss i v = Inr g"
  shows "RolloutGroup (samples g) (g_group_id g) (g_policy_version g) = Inr g \<and> samples g = ss"
proof -
  have "g = \<lparr>samples = ss, g_group_id = i, g_policy_version = v\<rparr>"
    using assms unfolding RolloutGroup_def guard_Inr_iff by (elim conjE) (simp only: sum.inject)
  with assms show ?thesis by simp
qed

lemma samples_again:
  assumes "to_rollout_group tg = Inr g"
  shows "mapE sample_again (samples g) = Inr (samples g)"
proof -
  obtain ss where ss: "mapE legacy_sample (tg_samples tg) = Inr ss" "RolloutGroup ss (tg_group_id tg) (version (tg_policy tg)) = Inr g"
    using assms unfolding to_rollout_group_def bindE_Inr_iff by blast
  have "constructed s" if mem: "s \<in> set ss" for s
  proof -
    obtain i where i: "i < length ss" "ss ! i = s" using mem by (auto simp: in_set_conv_nth)
    obtain t where "legacy_sample t = Inr s"
      using list_all2_nthD2 [OF ss(1) [unfolded mapE_Inr_list_all2] i(1)] i(2) by blast
    then show ?thesis
      unfolding legacy_sample_def bindE_Inr_iff guard_Inr_iff option_Inr_iff constructed_def
      by - (elim exE conjE, intro exI, assumption)
  qed
  then have "sample_again s = Inr s" if "s \<in> set ss" for s using that Sample_again by (simp add: sample_again_def)
  then have "mapE sample_again ss = Inr (map (\<lambda>s. s) ss)" by (rule mapE_all_Inr)
  then show ?thesis using RolloutGroup_again [OF ss(2)] by simp
qed

lemma decode_encode_manager:
  assumes "valid_packet sha r"
  shows "decode_manager_packet sha (encode_manager_packet (fst (snd r))) = Inr (fst (snd r))"
proof -
  let ?p = "fst (snd r)"
  have v: "valid_group sha (mp_trace ?p)" "to_rollout_group (mp_trace ?p) = Inr (mp_group ?p)"
    "dlookup (mp_fields ?p) ''policy_ack'' = Inr (JObj (policy_ack (tg_policy (mp_trace ?p))))"
    using assms by (simp_all add: valid_packet_def Let_def dlookup_def)
  obtain ss where "RolloutGroup ss (tg_group_id (mp_trace ?p)) (version (tg_policy (mp_trace ?p))) = Inr (mp_group ?p)"
    using v(2) unfolding to_rollout_group_def bindE_Inr_iff by blast
  note g = conjunct1 [OF RolloutGroup_again [OF this]]
  show ?thesis
    unfolding decode_manager_packet_def encode_manager_packet_def encoded_packet.simps samples_again [OF v(2)]
      bindE_simps g group_roundtrip [OF v(1)] v(2,3)
    by (simp add: policy_ack_def)
qed

lemma restore_encoded_rows:
  assumes "list_all (valid_packet sha) rows" "\<forall>r \<in> set rows. lo \<le> fst r \<and> fst r < hi" "distinct (map fst (pre @ rows))"
  shows "restore_mailbox_rows sha lo hi (map (\<lambda>r. encode_manager_packet (fst (snd r))) rows) pre =
    Inr (pre @ map (\<lambda>r. (fst r, fst (snd r), False)) rows)"
  using assms
proof (induction rows arbitrary: pre)
  case (Cons r rows)
  let ?r = "(fst r, fst (snd r), False)"
  have "restore_mailbox_rows sha lo hi (map (\<lambda>r. encode_manager_packet (fst (snd r))) rows) (pre @ [?r]) =
      Inr ((pre @ [?r]) @ map (\<lambda>r. (fst r, fst (snd r), False)) rows)"
    using Cons.prems by (intro Cons.IH) simp_all
  moreover have "g_group_id (mp_group (fst (snd r))) = fst r" using Cons.prems(1) by (simp add: valid_packet_def Let_def)
  moreover have "decode_manager_packet sha (encode_manager_packet (fst (snd r))) = Inr (fst (snd r))"
    using Cons.prems(1) decode_encode_manager by simp
  moreover have "fst r \<notin> set (map fst pre)" "lo \<le> fst r" "fst r < hi" using Cons.prems(2,3) by auto
  ultimately show ?case by simp
qed simp

section \<open>Properties\<close>

text \<open>C4. The mailbox of groups refines a queue: after any sequence of deliveries, commits,
  reservations and productions on a restored mailbox its abstraction is the queue that made the same
  steps, a delivery hands out the queue's next packet, and a commit is accepted exactly when the queue
  accepts it: when it names, in any order, the oldest groups, all of them delivered.\<close>

theorem mailbox_refines_queue:
  assumes "restore_mailbox sha cfg first recovery = Inr b0" "mb_committed b0 \<le> mb_next b0"
    and "b = fold mailbox_step ops b0" and "q = fold fifo_step ops (fifo_of b0)"
  shows "fifo_of b = q \<and> fst (mailbox_get b) = fifo_get q \<and>
    ((\<exists>b'. mailbox_commit consumed rejected b = Inr b') \<longleftrightarrow> fifo_accepts consumed rejected q)"
proof -
  note inv = restore_mailbox_inv(1) [OF assms(1,2)]
  have "mailbox_inv b" "fifo_of b = q"
    using mailbox_refinement.inv_run [OF inv] mailbox_refinement.abs_run [OF inv] assms(3,4) by simp_all
  then show ?thesis using get_refines [of b] commit_accepts [of b] by simp
qed

text \<open>C20. Under any sequence of commands and loop passes the manager's mailbox, with the group in
  flight, stays within its credit, and it holds exactly the groups from the committed cursor up to the
  last one dispatched, each once, the group in flight excepted.\<close>

theorem manager_mailbox_bounded:
  assumes "restore_mailbox sha cfg first recovery = Inr b0" "mb_committed b0 \<le> mb_next b0"
    and "m = fold (manager_step dd sha cfg) ops (start_manager sp bk b0 reply)"
  shows "int (length (mb_retained (mg_box m))) + in_flight (mg_box m) \<le> sv_queue_capacity cfg + sv_groups_per_step cfg \<and>
    sort (map fst (mb_retained (mg_box m))) =
      [mb_committed (mg_box m) .. mb_next (mg_box m) - 1 - in_flight (mg_box m)] \<and>
    mb_active (mg_box m) \<in> {None, Some (mb_next (mg_box m) - 1)}"
proof -
  have inv: "mailbox_inv (mg_box m)" "int (length (mb_retained (mg_box m))) + in_flight (mg_box m) \<le> mailbox_bound cfg"
    using manager_reachable [OF assms(1,2)] assms(3) by (simp_all add: manager_inv_def mailbox_bounded_def)
  have "sort (map fst (mb_retained (mg_box m))) = [mb_committed (mg_box m) .. mb_next (mg_box m) - 1 - in_flight (mg_box m)]"
    "mb_active (mg_box m) \<in> {None, Some (mb_next (mg_box m) - 1)}"
    using inv(1) unfolding mailbox_inv_def Let_def map_fst_rows in_flight_def by blast+
  then show ?thesis using inv(2) unfolding mailbox_bound_def by blast
qed

text \<open>C21. A restart loses nothing: the snapshot that a running manager takes at a drained boundary
  restores a mailbox with the same cursors and the same uncommitted packets in the same order, all to
  be delivered again.\<close>

theorem manager_snapshot_restores:
  assumes "restore_mailbox sha cfg first recovery = Inr b0" "mb_committed b0 \<le> mb_next b0"
    and "m = fold (manager_step dd sha cfg) ops (start_manager sp bk b0 reply)"
    and "manager_snapshot cfg m = Inr s" and "list_all (valid_packet sha) (mb_retained (mg_box m))"
    and "py_eq (dget (bk_artifact (mg_backend m)) ''lineage'') (sv_lineage cfg)"
    and "sv_vllm cfg \<longrightarrow> sv_evidence cfg"
  shows "\<exists>b. restore_mailbox sha cfg n (Some s) = Inr b \<and> fifo_of b = (fifo_of (mg_box m))\<lparr>ff_read := 0\<rparr> \<and>
    mb_next b = mb_next (mg_box m)"
proof -
  let ?b = "mg_box m" and ?rows = "mailbox_rows (mg_box m)"
  have inv: "mailbox_inv ?b" "int (length (mb_retained ?b)) + in_flight ?b \<le> mailbox_bound cfg"
    using manager_reachable [OF assms(1,2)] assms(3) by (simp_all add: manager_inv_def mailbox_bounded_def)
  have idle: "mb_active ?b = None" using assms(4) by (simp add: manager_snapshot_def split: if_splits)
  have keys: "map fst ?rows = [mb_committed ?b .. mb_next ?b - 1]" using inv(1) idle by (simp add: mailbox_inv_def)
  have s: "rc_schema_version s = Some (JInt 1)" "rc_next_group_id s = Some (mb_next ?b)"
    "rc_committed_highwater s = Some (mb_committed ?b)" "rc_dropped_groups s = Some (mb_dropped ?b)"
    "rc_pending_packets s = map (\<lambda>r. encode_manager_packet (fst (snd r))) ?rows"
    "rc_active_policy s = bk_artifact (mg_backend m)"
    using assms(4) by (auto simp: manager_snapshot_def split: if_splits)
  let ?new = "map (\<lambda>r. (fst r, fst (snd r), False)) ?rows"
  have range: "\<forall>r \<in> set ?rows. mb_committed ?b \<le> fst r \<and> fst r < mb_next ?b"
  proof
    fix r
    assume "r \<in> set ?rows"
    then have "fst r \<in> set (map fst ?rows)" by simp
    then show "mb_committed ?b \<le> fst r \<and> fst r < mb_next ?b" unfolding keys by simp
  qed
  have rows: "restore_mailbox_rows sha (mb_committed ?b) (mb_next ?b) (rc_pending_packets s) [] = Inr ?new"
    unfolding s(5) using restore_encoded_rows [of sha ?rows "mb_committed ?b" "mb_next ?b" "[]"] range inv_distinct [OF inv(1)] assms(5) set_rows [of ?b]
    by (simp add: list_all_iff)
  have k: "map fst ?new = [mb_committed ?b .. mb_next ?b - 1]" using keys by (simp add: comp_def)
  let ?r = "\<lparr>mb_next = mb_next ?b, mb_committed = mb_committed ?b, mb_dropped = mb_dropped ?b, mb_retained = ?new, mb_active = None\<rparr>"
  have sorted: "sort_key fst ?new = ?new" using k by (intro sort_key_id_if_sorted) simp
  have len: "int (length ?new) \<le> mailbox_bound cfg" using inv(2) idle length_rows [of ?b] by (simp add: in_flight_def)
  have srt: "sort (map fst ?new) = [mb_committed ?b .. mb_next ?b - 1]" unfolding k by (simp add: sorted_sort_id)
  have chk: "check_recovery cfg (Some s) = Inr ()" using assms(6) by (simp add: check_recovery_def s py_eq_refl)
  have "restore_mailbox sha cfg n (Some s) = Inr ?r"
    unfolding restore_mailbox_def chk bindE_simps Let_def option.case bind.bind_lunit s(2,3,4) or_default_def rows
    using len srt assms(7) by (simp del: map_map)
  moreover have "fifo_of ?r = (fifo_of ?b)\<lparr>ff_read := 0\<rparr>"
  proof -
    have "mailbox_rows ?r = ?new" unfolding mailbox_rows_def [of ?r] by (simp only: mailbox.select_convs sorted)
    moreover have "takeWhile delivered ?new = []" by (cases ?rows) simp_all
    ultimately show ?thesis using idle by (simp add: fifo_of_def comp_def)
  qed
  ultimately show ?thesis by (intro exI [of _ ?r]) simp
qed

text \<open>Any use of the handle.\<close>

datatype handle_op =
    Start_handle channel_event
  | Call bool bool channel_event
  | Close_handle bool bool bool channel_event bool "exn option"

fun handle_step :: "handle_op \<Rightarrow> handle \<Rightarrow> handle" where
  "handle_step (Start_handle ev) h = snd (start_handle ev h)"
| "handle_step (Call sent readable ev) h = snd (rpc sent readable ev h)"
| "handle_step (Close_handle alive sent readable ev forced actor) h =
     snd (close_handle alive sent readable ev forced actor h)"

definition handle_over :: "handle \<Rightarrow> handle \<Rightarrow> bool" where
  "handle_over h0 h \<longleftrightarrow> (hd_failed h \<or> hd_closed h) \<and> hd_request h = hd_request h0"

lemma receive_frame: "receive_response i ev h = (r, h') \<Longrightarrow> hd_request h' = hd_request h \<and> hd_closed h' = hd_closed h \<and>
  (hd_failed h \<longrightarrow> hd_failed h')"
  by (auto simp: receive_response_def split: channel_event.splits if_splits)

lemma handle_step_over:
  assumes "handle_over h0 h"
  shows "handle_over h0 (handle_step op h)"
proof (cases op)
  case (Start_handle ev)
  obtain r h' where "receive_response 0 ev (h\<lparr>hd_started := True\<rparr>) = (r, h')"
    by (cases "receive_response 0 ev (h\<lparr>hd_started := True\<rparr>)")
  then show ?thesis using Start_handle assms receive_frame by (fastforce simp: start_handle_def handle_over_def)
next
  case (Call sent readable ev)
  then show ?thesis using assms by (auto simp: rpc_def handle_over_def)
next
  case (Close_handle alive sent readable ev forced actor)
  then show ?thesis using assms
    by (auto simp: close_handle_def handle_over_def Let_def rpc_def split: option.split)
qed

interpretation handle_system: op_system handle_step "handle_over h0" for h0
  by unfold_locales (rule handle_step_over)


section \<open>A run\<close>

definition demo_packet :: "training_group \<Rightarrow> manager_packet" where
  "demo_packet tg = \<lparr>mp_fields = [(''policy_ack'', JObj (policy_ack demo_policy))], mp_group = demo_rollout, mp_trace = tg\<rparr>"

definition demo_serve :: serve_config where
  "demo_serve = \<lparr>sv_queue_capacity = 1, sv_groups_per_step = 1, sv_group_size = 2, sv_records = [JObj [(''prompt'', JStr ''p'')]],
     sv_resume_epoch = ''e'', sv_vllm = False, sv_can_evaluate = False, sv_lineage = JStr ''run'', sv_evidence = False\<rparr>"

definition demo_backend :: backend_state where
  "demo_backend = \<lparr>bk_ack = policy_ack demo_policy, bk_artifact = [(''lineage'', JStr ''run'')], bk_rng = JNull, bk_busy = False\<rparr>"

definition demo_box :: mailbox where
  "demo_box = \<lparr>mb_next = 4, mb_committed = 4, mb_dropped = 0, mb_retained = [], mb_active = None\<rparr>"

definition demo_finished :: episode_result where
  "demo_finished = (blank_result (demo_plan 0))\<lparr>score_eligible := True, cleanup_state := ''verified''\<rparr>"

definition demo_tick :: "(episode_result list result \<times> manager_packet result) option \<Rightarrow> manager_op" where
  "demo_tick flight = Tick \<lparr>ti_flight = flight, ti_pause = Inr (), ti_backend = demo_backend\<rparr>"

definition demo_ops :: "training_group \<Rightarrow> manager_op list" where
  "demo_ops tg = [demo_tick None, Command 1 Cmd_pause, demo_tick (Some (Inr [demo_finished], Inr (demo_packet tg)))]"

definition demo_manager :: "training_group \<Rightarrow> manager" where
  "demo_manager tg = fold (manager_step (\<lambda>_. Inr ''digest'') demo_sha demo_serve) (demo_ops tg)
     (start_manager False demo_backend demo_box (Inr ()))"

lemma demo_restored: "restore_mailbox demo_sha demo_serve 4 None = Inr demo_box"
  by (simp add: restore_mailbox_def check_recovery_def demo_serve_def mailbox_bound_def demo_box_def or_default_def)

lemma demo_manager_box:
  "mg_box (demo_manager tg) =
     \<lparr>mb_next = 5, mb_committed = 4, mb_dropped = 0, mb_retained = [(4, demo_packet tg, False)], mb_active = None\<rparr>"
  "mg_backend (demo_manager tg) = demo_backend"
  by code_simp+

lemma demo_cursors: "mb_committed demo_box \<le> mb_next demo_box"
  by (simp add: demo_box_def)

theorem mailbox_refines_queue_witness:
  "\<forall>tg. \<exists>b q. b = fold mailbox_step [Box_reserve, Box_produced (demo_packet tg), Box_get] demo_box \<and> fifo_of b = q \<and>
     ff_read q = 1 \<and> fifo_accepts [4] [] q \<and> (\<exists>b'. mailbox_commit [4] [] b = Inr b')"
proof
  fix tg
  let ?ops = "[Box_reserve, Box_produced (demo_packet tg), Box_get]"
  let ?q = "fold fifo_step ?ops (fifo_of demo_box)"
  have q: "?q = \<lparr>ff_base = 4, ff_packets = [demo_packet tg], ff_read = 1, ff_open = False, ff_dropped = 0\<rparr>"
    by (simp add: fifo_of_def demo_box_def mailbox_rows_def fifo_get_def)
  show "\<exists>b q. b = fold mailbox_step ?ops demo_box \<and> fifo_of b = q \<and> ff_read q = 1 \<and> fifo_accepts [4] [] q \<and>
     (\<exists>b'. mailbox_commit [4] [] b = Inr b')"
    using mailbox_refines_queue [OF demo_restored demo_cursors refl refl, of ?ops "[4]" "[]"] q
    by (simp add: fifo_accepts_def)
qed

theorem manager_mailbox_bounded_witness:
  "\<forall>tg. int (length (mb_retained (mg_box (demo_manager tg)))) + in_flight (mg_box (demo_manager tg)) \<le> 2 \<and>
   sort (map fst (mb_retained (mg_box (demo_manager tg)))) = [4]"
  using manager_mailbox_bounded [OF demo_restored demo_cursors demo_manager_def]
  by (simp add: demo_manager_box demo_serve_def in_flight_def)

lemma demo_trace:
  obtains tg where "demo_group = Inr tg" "valid_group demo_sha tg" "to_rollout_group tg = Inr demo_rollout"
    "policy_ack (tg_policy tg) = policy_ack demo_policy"
proof -
  obtain tg where tg: "demo_group = Inr tg" using demo_group_ok by blast
  have "case demo_group of Inl e \<Rightarrow> False
    | Inr tg \<Rightarrow> (case group_from_dict demo_sha (group_to_dict tg) of Inl e \<Rightarrow> False | Inr tg' \<Rightarrow> tg' = tg)" by code_simp
  then have "group_from_dict demo_sha (group_to_dict tg) = Inr tg" unfolding tg by (simp split: sum.splits)
  moreover have "case demo_group of Inl e \<Rightarrow> False | Inr tg \<Rightarrow> unique_keys (group_to_dict tg)" by code_simp
  moreover have "case demo_group of Inl e \<Rightarrow> False
    | Inr tg \<Rightarrow> (case to_rollout_group tg of Inl e \<Rightarrow> False | Inr g \<Rightarrow> g = demo_rollout)" by code_simp
  moreover have "case demo_group of Inl e \<Rightarrow> False | Inr tg \<Rightarrow> policy_ack (tg_policy tg) = policy_ack demo_policy" by code_simp
  ultimately show thesis using that [OF tg] group_from_dict_valid unfolding tg by (simp split: sum.splits)
qed

theorem manager_snapshot_restores_witness:
  "\<exists>tg s b. manager_snapshot demo_serve (demo_manager tg) = Inr s \<and> restore_mailbox demo_sha demo_serve 0 (Some s) = Inr b \<and>
     fst (mailbox_get b) = Some (demo_packet tg) \<and> mb_next b = 5"
proof -
  obtain tg where tg: "valid_group demo_sha tg" "to_rollout_group tg = Inr demo_rollout"
    "policy_ack (tg_policy tg) = policy_ack demo_policy" by (rule demo_trace)
  have v: "list_all (valid_packet demo_sha) (mb_retained (mg_box (demo_manager tg)))"
    using tg by (simp add: demo_manager_box valid_packet_def demo_packet_def demo_rollout_def)
  have "\<exists>s. manager_snapshot demo_serve (demo_manager tg) = Inr s"
    by (simp add: manager_snapshot_def demo_manager_box demo_backend_def)
  then obtain s where s: "manager_snapshot demo_serve (demo_manager tg) = Inr s" ..
  have l: "py_eq (dget (bk_artifact (mg_backend (demo_manager tg))) ''lineage'') (sv_lineage demo_serve)"
    by (simp add: demo_manager_box demo_backend_def demo_serve_def dget_def)
  have e: "sv_vllm demo_serve \<longrightarrow> sv_evidence demo_serve" by (simp add: demo_serve_def)
  obtain b where b: "restore_mailbox demo_sha demo_serve 0 (Some s) = Inr b"
      "fifo_of b = (fifo_of (mg_box (demo_manager tg)))\<lparr>ff_read := 0\<rparr>" "mb_next b = mb_next (mg_box (demo_manager tg))"
    using manager_snapshot_restores [OF demo_restored demo_cursors demo_manager_def s v l e, of 0] by blast
  have "mb_committed b \<le> mb_next b"
    using arg_cong [OF b(2), of ff_base] b(3) by (simp add: fifo_of_def demo_manager_box)
  then have "fst (mailbox_get b) = fifo_get (fifo_of b)"
    using restore_mailbox_inv(1) [OF b(1)] get_refines by blast
  then have "fst (mailbox_get b) = Some (demo_packet tg)"
    unfolding b(2) by (simp add: fifo_get_def fifo_of_def demo_manager_box mailbox_rows_def)
  then show ?thesis using s b(1,3) by (auto simp: demo_manager_box)
qed

definition demo_handle :: handle where
  "demo_handle = \<lparr>hd_started = True, hd_request = 1, hd_closed = False, hd_failed = False\<rparr>"


end
