(* ===== verification/Collective.thy ===== *)
theory Collective
  imports Prelude
begin

text \<open>
  What the token dispatchers use of torch, over lists: a tensor of rows is the list of its rows, a
  two-dimensional tensor of ids or weights its row-major entries. \<open>argsort\<close> is the stable one;
  indexing by a tensor is \<open>gather\<close>. The exchange between the ranks is a parameter with the documented
  contract of \<^verbatim>\<open>all_to_all_single\<close>: rank \<open>r\<close> receives, in the order of the ranks, the segment that each
  of them addressed to it.
\<close>

section \<open>Tensor operations\<close>

definition argsort :: "'a::linorder list \<Rightarrow> nat list" where
  "argsort xs = sort_key (\<lambda>i. xs ! i) [0 ..< length xs]"

definition gather :: "'a list \<Rightarrow> nat list \<Rightarrow> 'a list" where
  "gather xs is = map (\<lambda>i. xs ! i) is"

definition bincount :: "nat \<Rightarrow> nat list \<Rightarrow> nat list" where
  "bincount n xs = map (\<lambda>r. length (filter (\<lambda>x. x = r) xs)) [0 ..< n]"

definition repeat_rows :: "nat \<Rightarrow> 'a list \<Rightarrow> 'a list" where
  "repeat_rows k xs = concat (map (replicate k) xs)"

text \<open>\<^verbatim>\<open>view(n, k, ...)\<close>: \<open>n\<close> rows of \<open>k\<close> entries.\<close>

definition in_rows :: "nat \<Rightarrow> nat \<Rightarrow> 'a list \<Rightarrow> 'a list list" where
  "in_rows n k xs = map (\<lambda>t. take k (drop (t * k) xs)) [0 ..< n]"

definition segment :: "nat list \<Rightarrow> nat \<Rightarrow> 'a list \<Rightarrow> 'a list" where
  "segment splits r xs = take (splits ! r) (drop (sum_list (take r splits)) xs)"

section \<open>The exchange\<close>

type_synonym 'a exchange = "'a list list \<Rightarrow> nat list list \<Rightarrow> nat list list \<Rightarrow> 'a list list"

definition splits_match :: "nat \<Rightarrow> 'a list list \<Rightarrow> nat list list \<Rightarrow> nat list list \<Rightarrow> bool" where
  "splits_match n bufs ins outs \<longleftrightarrow>
     length bufs = n \<and> length ins = n \<and> outs = map (\<lambda>r. map (\<lambda>s. ins ! s ! r) [0 ..< n]) [0 ..< n] \<and>
     list_all (\<lambda>s. length (ins ! s) = n \<and> sum_list (ins ! s) = length (bufs ! s)) [0 ..< n]"

definition exchange_segments :: "nat \<Rightarrow> 'a exchange" where
  "exchange_segments n bufs ins outs =
     map (\<lambda>r. concat (map (\<lambda>s. segment (ins ! s) r (bufs ! s)) [0 ..< n])) [0 ..< n]"

definition collective :: "nat \<Rightarrow> 'a exchange \<Rightarrow> bool" where
  "collective n x \<longleftrightarrow>
     (\<forall>bufs ins outs. splits_match n bufs ins outs \<longrightarrow> x bufs ins outs = exchange_segments n bufs ins outs)"

section \<open>Sorting and gathering\<close>

lemma gather_simps [simp]: "gather xs [] = []" "length (gather xs is) = length is"
  "gather xs (i # is) = xs ! i # gather xs is" "gather xs (is @ js) = gather xs is @ gather xs js"
  by (simp_all add: gather_def)

lemma gather_concat: "gather xs (concat iss) = concat (map (gather xs) iss)"
  by (induction iss) simp_all

lemma gather_all: "length xs = m \<Longrightarrow> gather xs [0 ..< m] = xs"
  unfolding gather_def using map_nth [of xs] by simp

lemma gather_map: "\<forall>i \<in> set is. i < length xs \<Longrightarrow> gather (map f xs) is = map f (gather xs is)"
  by (simp add: gather_def)

lemma sort_key_buckets:
  fixes h :: "nat \<Rightarrow> 'b::linorder"
  assumes "strict_mono h" "\<forall>x \<in> set xs. \<exists>r < n. k x = h r"
  shows "sort_key k xs = concat (map (\<lambda>r. filter (\<lambda>x. k x = h r) xs) [0 ..< n])"
proof -
  let ?c = "\<lambda>n. concat (map (\<lambda>r. filter (\<lambda>x. k x = h r) xs) [0 ..< n])"
  have h: "h a = h b \<longleftrightarrow> a = b" for a b using assms(1) by (simp add: strict_mono_eq)
  have keys: "set (map k (?c n)) \<subseteq> h ` {..< n}" for n by auto
  have sorted: "sorted (map k (?c n))" for n
  proof (induction n)
    case (Suc n)
    have "sorted (map k (filter (\<lambda>x. k x = h n) xs))" by (induction xs) auto
    moreover have "a \<le> h n" if "a \<in> h ` {..< n}" for a
      using that assms(1) by (auto simp: strict_mono_less_eq)
    ultimately show ?case using Suc keys [of n] by (auto simp: sorted_append)
  qed simp
  have same: "filter (\<lambda>y. k y = h v) (?c n) = (if v < n then filter (\<lambda>x. k x = h v) xs else [])" for v n
  proof (induction n)
    case (Suc n)
    have "filter (\<lambda>y. k y = h v \<and> k y = h n) xs = (if v = n then filter (\<lambda>x. k x = h v) xs else [])"
      by (auto simp: filter_empty_conv h)
    then show ?case using Suc by (auto simp: conj_commute)
  qed simp
  have "filter (\<lambda>y. k v = k y) (?c n) = filter (\<lambda>y. k v = k y) xs" if v: "v \<in> set (?c n)" for v
  proof -
    obtain r where "r < n" "k v = h r" using v by auto
    then show ?thesis using same [of r n] by (simp add: eq_commute [of "h r"])
  qed
  moreover have "mset (?c n) = mset (filter (\<lambda>x. \<exists>r < n. k x = h r) xs)" for n
  proof (induction n)
    case (Suc n)
    have "mset (filter (\<lambda>x. \<exists>r < Suc n. k x = h r) xs) =
        mset (filter (\<lambda>x. \<exists>r < n. k x = h r) xs) + mset (filter (\<lambda>x. k x = h n) xs)"
      by (induction xs) (auto simp: less_Suc_eq h)
    then show ?case using Suc by simp
  qed simp
  moreover have "mset (filter (\<lambda>x. \<exists>r < n. k x = h r) xs) = mset xs" using assms(2) by (simp only: filter_True)
  ultimately show ?thesis using sorted [of n] by (intro properties_for_sort_key) (simp_all del: mset_filter)
qed

lemma argsort_buckets:
  assumes "\<forall>x \<in> set xs. x < n"
  shows "argsort xs = concat (map (\<lambda>r. filter (\<lambda>i. xs ! i = r) [0 ..< length xs]) [0 ..< n])"
  unfolding argsort_def using assms by (intro sort_key_buckets [where h = "\<lambda>r. r"]) (simp_all add: strict_mono_def)

lemma argsort_buckets_int:
  assumes "\<forall>x \<in> set xs. 0 \<le> x \<and> x < int n"
  shows "argsort xs = concat (map (\<lambda>r. filter (\<lambda>i. xs ! i = int r) [0 ..< length xs]) [0 ..< n])"
proof -
  have "\<exists>r < n. xs ! i = int r" if "i < length xs" for i
    using assms nth_mem [OF that] by (intro exI [of _ "nat (xs ! i)"]) auto
  then show ?thesis
    unfolding argsort_def by (intro sort_key_buckets [where h = int]) (simp_all add: strict_mono_def)
qed

lemma argsort_permutes [simp]: "set (argsort xs) = {..< length xs}" "length (argsort xs) = length xs"
  "mset (argsort xs) = mset [0 ..< length xs]"
  by (auto simp: argsort_def)

text \<open>Indexing by a permutation and then by its \<^verbatim>\<open>argsort\<close> is the identity.\<close>

lemma gather_inverse:
  assumes "mset p = mset [0 ..< m]" "length ys = m"
  shows "gather (gather ys p) (argsort p) = ys"
proof -
  let ?q = "argsort p"
  have len: "length p = m" using arg_cong [OF assms(1), of size] by simp
  have "map (\<lambda>i. p ! i) ?q = sort (map (\<lambda>i. p ! i) [0 ..< length p])"
    unfolding argsort_def by (rule sym, rule properties_for_sort) simp_all
  also have "\<dots> = sort p" by (simp only: map_nth)
  also have "\<dots> = [0 ..< m]" using assms(1) by (intro properties_for_sort) simp_all
  finally have pq: "map (\<lambda>i. p ! i) ?q = [0 ..< m]" .
  have "gather (gather ys p) ?q = gather ys (map (\<lambda>i. p ! i) ?q)" unfolding gather_def by (simp add: len)
  then show ?thesis unfolding pq using gather_all [OF assms(2)] by simp
qed

section \<open>Segments and the exchange\<close>

lemma segment_concat:
  "r < length bs \<Longrightarrow> segment (map length bs) r (concat bs) = bs ! r"
proof (induction bs arbitrary: r)
  case (Cons b bs)
  then show ?case by (cases r) (simp_all add: segment_def)
qed simp

text \<open>Buffers that are cut into blocks are exchanged block by block.\<close>

lemma exchange_blocks:
  assumes "collective n x"
  shows "x (map (\<lambda>s. concat (map (blk s) [0 ..< n])) [0 ..< n]) (map (\<lambda>s. map (\<lambda>r. length (blk s r)) [0 ..< n]) [0 ..< n])
      (map (\<lambda>r. map (\<lambda>s. length (blk s r)) [0 ..< n]) [0 ..< n]) =
    map (\<lambda>r. concat (map (\<lambda>s. blk s r) [0 ..< n])) [0 ..< n]" (is "x ?b ?i ?o = ?res")
proof -
  have "splits_match n ?b ?i ?o"
    by (simp add: splits_match_def list_all_iff length_concat comp_def)
  then have "x ?b ?i ?o = exchange_segments n ?b ?i ?o" using assms by (simp add: collective_def)
  also have "\<dots> = ?res"
  proof -
    have "segment (map (\<lambda>r. length (blk s r)) [0 ..< n]) r (concat (map (blk s) [0 ..< n])) = blk s r" if "r < n" for s r
      using segment_concat [of r "map (blk s) [0 ..< n]"] that by (simp add: comp_def)
    then show ?thesis unfolding exchange_segments_def by (intro map_cong arg_cong [of _ _ concat] refl) simp
  qed
  finally show ?thesis .
qed

lemma exchange_segments_collective: "collective n (exchange_segments n)"
  by (simp add: collective_def)

end
