(* ===== verification/Token_Dispatch.thy ===== *)
theory Token_Dispatch
  imports Collective
begin

text \<open>
  \<^verbatim>\<open>dsv41_train/dispatch.py\<close>: routing of token assignments to the ranks that own the experts, and the
  return of what the experts computed. The dispatcher of every rank of the group runs the same code; the
  phases between the collectives are functions of one rank, and a run of the group applies them to every
  rank. A failed \<^verbatim>\<open>assert\<close> is shown as \<open>RuntimeError\<close>. A rank that raises before the exchange leaves its
  peers in the collective: the run of the group is that error. Main result: for every expert function
  the distributed path returns on every rank exactly what the local dispatcher computes there.
\<close>

section \<open>Batches and metadata\<close>

text \<open>The rows of the hidden states, and the ids and weights of shape (tokens, \<open>bt_topk\<close>), flattened.\<close>

record ('v, 'w) batch =
  bt_hidden :: "'v list"
  bt_topk :: nat
  bt_ids :: "int list"
  bt_weights :: "'w list"

record dispatch_metadata =
  dm_token_count :: nat
  dm_topk :: nat
  dm_inverse_order :: "nat list option"
  dm_send_splits :: "nat list option"
  dm_recv_splits :: "nat list option"

text \<open>What an expert module gets.\<close>

record ('v, 'w) assignments =
  as_tokens :: "'v list"
  as_ids :: "int list"
  as_weights :: "'w list"

section \<open>The local dispatcher\<close>

definition local_expert_range :: "int \<Rightarrow> int \<times> int" where
  "local_expert_range num_experts = (0, num_experts)"

definition local_dispatch :: "('v, 'w) batch \<Rightarrow> ('v, 'w) assignments \<times> dispatch_metadata" where
  "local_dispatch b =
     (\<lparr>as_tokens = repeat_rows (bt_topk b) (bt_hidden b), as_ids = bt_ids b, as_weights = bt_weights b\<rparr>,
      \<lparr>dm_token_count = length (bt_hidden b), dm_topk = bt_topk b, dm_inverse_order = None,
       dm_send_splits = None, dm_recv_splits = None\<rparr>)"

text \<open>\<^verbatim>\<open>view(token_count, topk, -1).sum(dim=1)\<close>: the width is ambiguous when the other two sizes give
  no entry. \<open>vsum\<close> adds the rows of one token.\<close>

definition view_sum :: "('v list \<Rightarrow> 'v) \<Rightarrow> nat \<Rightarrow> nat \<Rightarrow> 'v list \<Rightarrow> 'v list result" where
  "view_sum vsum n k xs =
     (if n * k = 0 \<or> length xs \<noteq> n * k then Inl (RuntimeError ''view'')
      else Inr (map vsum (in_rows n k xs)))"

definition local_combine :: "('v list \<Rightarrow> 'v) \<Rightarrow> 'v list \<Rightarrow> dispatch_metadata \<Rightarrow> 'v list result" where
  "local_combine vsum hidden m = view_sum vsum (dm_token_count m) (dm_topk m) hidden"

section \<open>The dispatcher of one rank of the group\<close>

record dispatcher =
  td_size :: nat
  td_rank :: nat
  td_num_experts :: "int option"

definition AllToAllTokenDispatcher :: "nat \<Rightarrow> nat \<Rightarrow> nat \<Rightarrow> dispatcher result" where
  "AllToAllTokenDispatcher ndim ranks rank =
     (if ndim \<noteq> 1 then Inl (ValueError ''the EP mesh must be one-dimensional'')
      else Inr \<lparr>td_size = ranks, td_rank = rank, td_num_experts = None\<rparr>)"

definition expert_range :: "int \<Rightarrow> dispatcher \<Rightarrow> ((int \<times> int) \<times> dispatcher) result" where
  "expert_range num_experts d =
     (if num_experts < 1 then Inl (ValueError ''num_experts must be positive'')
      else if num_experts mod int (td_size d) \<noteq> 0 then Inl (ValueError ''num_experts must divide EP size'')
      else let local = num_experts div int (td_size d); start = int (td_rank d) * local
        in Inr ((start, start + local), d\<lparr>td_num_experts := Some num_experts\<rparr>))"

text \<open>\<^verbatim>\<open>dispatch\<close> up to the first collective.\<close>

record ('v, 'w) routed =
  ro_start :: int
  ro_order :: "nat list"
  ro_send_counts :: "nat list"
  ro_tokens :: "'v list"
  ro_ids :: "int list"
  ro_weights :: "'w list"
  ro_token_count :: nat
  ro_topk :: nat

definition out_of_range :: "int \<Rightarrow> int list \<Rightarrow> bool" where
  "out_of_range n ids \<longleftrightarrow> list_ex (\<lambda>e. e < 0 \<or> e \<ge> n) ids"

definition route :: "dispatcher \<Rightarrow> ('v, 'w) batch \<Rightarrow> ('v, 'w) routed result" where
  "route d b =
     (case td_num_experts d of
        None \<Rightarrow> Inl (RuntimeError ''attach the dispatcher to an expert module before use'')
      | Some n \<Rightarrow>
          bindE (expert_range n d) (\<lambda>((start, stop), d).
            if out_of_range n (bt_ids b) then Inl (ValueError ''expert ids are outside the configured expert range'')
            else let owners = map (\<lambda>e. nat (e div (stop - start))) (bt_ids b); order = argsort owners
              in Inr \<lparr>ro_start = start, ro_order = order, ro_send_counts = bincount (td_size d) owners,
                      ro_tokens = gather (repeat_rows (bt_topk b) (bt_hidden b)) order,
                      ro_ids = gather (bt_ids b) order, ro_weights = gather (bt_weights b) order,
                      ro_token_count = length (bt_hidden b), ro_topk = bt_topk b\<rparr>))"

section \<open>The group\<close>

text \<open>\<^verbatim>\<open>all_to_all_single\<close> without splits sends one entry to every rank.\<close>

definition exchange_counts :: "'a exchange \<Rightarrow> 'a list list \<Rightarrow> 'a list list" where
  "exchange_counts x counts =
     (let ones = map (\<lambda>c. map (\<lambda>_. 1) counts) counts in x counts ones ones)"

definition dispatch_group_ranks ::
  "nat exchange \<Rightarrow> int exchange \<Rightarrow> 'v exchange \<Rightarrow> 'w exchange \<Rightarrow> dispatcher list \<Rightarrow> ('v, 'w) batch list \<Rightarrow>
   (('v, 'w) assignments \<times> dispatch_metadata) list result" where
  "dispatch_group_ranks xc xi xv xw ds bs =
     bindE (mapE (\<lambda>(d, b). route d b) (zip ds bs)) (\<lambda>rs.
       let sends = map ro_send_counts rs; recvs = exchange_counts xc sends;
           ids = xi (map ro_ids rs) sends recvs;
           tokens = xv (map ro_tokens rs) sends recvs;
           weights = xw (map ro_weights rs) sends recvs
       in Inr (map (\<lambda>i. let r = rs ! i in
            (\<lparr>as_tokens = tokens ! i, as_ids = map (\<lambda>e. e - ro_start r) (ids ! i), as_weights = weights ! i\<rparr>,
             \<lparr>dm_token_count = ro_token_count r, dm_topk = ro_topk r, dm_inverse_order = Some (argsort (ro_order r)),
              dm_send_splits = Some (sends ! i), dm_recv_splits = Some (recvs ! i)\<rparr>)) [0 ..< length rs]))"

definition combine_rank :: "('v list \<Rightarrow> 'v) \<Rightarrow> 'v list \<Rightarrow> dispatch_metadata \<Rightarrow> 'v list result" where
  "combine_rank vsum returned m =
     (case dm_inverse_order m of
        None \<Rightarrow> Inl (RuntimeError ''assert'')
      | Some order \<Rightarrow> view_sum vsum (dm_token_count m) (dm_topk m) (gather returned order))"

definition combine_group_ranks ::
  "('v list \<Rightarrow> 'v) \<Rightarrow> 'v exchange \<Rightarrow> 'v list list \<Rightarrow> dispatch_metadata list \<Rightarrow> 'v list result list" where
  "combine_group_ranks vsum xv hiddens ms =
     (if list_ex (\<lambda>m. dm_send_splits m = None \<or> dm_recv_splits m = None) ms
      then map (\<lambda>m. Inl (RuntimeError ''assert'')) ms
      else map2 (combine_rank vsum) (xv hiddens (map (\<lambda>m. the (dm_recv_splits m)) ms) (map (\<lambda>m. the (dm_send_splits m)) ms)) ms)"

text \<open>The experts of a rank, from their first global id: any function of expert, weight and row.\<close>

definition apply_experts :: "(int \<Rightarrow> 'w \<Rightarrow> 'v \<Rightarrow> 'v) \<Rightarrow> int \<Rightarrow> ('v, 'w) assignments \<Rightarrow> 'v list" where
  "apply_experts f start a =
     map (\<lambda>i. f (start + as_ids a ! i) (as_weights a ! i) (as_tokens a ! i)) [0 ..< length (as_tokens a)]"

section \<open>Correctness\<close>

definition well_shaped :: "('v, 'w) batch \<Rightarrow> bool" where
  "well_shaped b \<longleftrightarrow>
     length (bt_ids b) = length (bt_hidden b) * bt_topk b \<and> length (bt_weights b) = length (bt_ids b)"

definition attach :: "int \<Rightarrow> nat \<Rightarrow> nat \<Rightarrow> dispatcher result" where
  "attach num_experts n r =
     bindE (AllToAllTokenDispatcher 1 n r) (\<lambda>d. bindE (expert_range num_experts d) (\<lambda>(_, d). Inr d))"

lemma attach_Inr:
  "attach E n r = Inr d \<longleftrightarrow> 1 \<le> E \<and> E mod int n = 0 \<and> d = \<lparr>td_size = n, td_rank = r, td_num_experts = Some E\<rparr>"
  by (auto simp: attach_def AllToAllTokenDispatcher_def expert_range_def Let_def)

lemma length_repeat_rows [simp]: "length (repeat_rows k xs) = length xs * k"
  by (induction xs) (simp_all add: repeat_rows_def)

text \<open>What rank \<open>s\<close> addresses to rank \<open>r\<close>, as positions of its flattened assignments.\<close>

definition addressed :: "int \<Rightarrow> int list \<Rightarrow> nat \<Rightarrow> nat list" where
  "addressed local ids r = filter (\<lambda>i. nat (ids ! i div local) = r) [0 ..< length ids]"

lemma addressed_less: "i \<in> set (addressed local ids r) \<Longrightarrow> i < length ids"
  by (simp add: addressed_def)


lemma length_filter_nth: "length (filter P xs) = length (filter (\<lambda>i. P (xs ! i)) [0 ..< length xs])"
proof -
  have "filter P (map (\<lambda>i. xs ! i) [0 ..< length xs]) = map (\<lambda>i. xs ! i) (filter (\<lambda>i. P (xs ! i)) [0 ..< length xs])"
    by (simp add: filter_map comp_def)
  then show ?thesis unfolding map_nth by simp
qed

lemma owner_less:
  assumes "0 \<le> e" "e < E" "E mod int n = 0" "1 \<le> E"
  shows "0 < E div int n" "0 \<le> e div (E div int n)" "nat (e div (E div int n)) < n"
proof -
  let ?l = "E div int n"
  have E: "E = int n * ?l" using assms(3) mult_div_mod_eq [of "int n" E] by simp
  then show l: "0 < ?l" using assms(4) zero_less_mult_iff [of "int n" ?l] by linarith
  then show "0 \<le> e div ?l" using assms(1) by (simp add: pos_imp_zdiv_nonneg_iff)
  have "(e div ?l) * ?l \<le> e" using l pos_mod_sign [of ?l e] div_mult_mod_eq [of e ?l] by linarith
  then have "(e div ?l) * ?l < int n * ?l" using assms(2) E by linarith
  then have "e div ?l < int n" using l by (simp only: mult_less_cancel_right_pos)
  then show "nat (e div ?l) < n" using \<open>0 \<le> e div ?l\<close> by simp
qed

text \<open>The flattened assignments of a batch.\<close>

definition tokens_of :: "('v, 'w) batch \<Rightarrow> 'v list" where
  "tokens_of b = repeat_rows (bt_topk b) (bt_hidden b)"

definition result_of :: "(int \<Rightarrow> 'w \<Rightarrow> 'v \<Rightarrow> 'v) \<Rightarrow> ('v, 'w) batch \<Rightarrow> 'v list" where
  "result_of f b = map (\<lambda>i. f (bt_ids b ! i) (bt_weights b ! i) (tokens_of b ! i)) [0 ..< length (bt_ids b)]"

lemma local_result:
  "well_shaped b \<Longrightarrow> apply_experts f 0 (fst (local_dispatch b)) = result_of f b"
  by (simp add: apply_experts_def local_dispatch_def result_of_def tokens_of_def well_shaped_def)

text \<open>One rank up to the exchange: every buffer is cut into the blocks for the ranks.\<close>

definition routed_as :: "int \<Rightarrow> nat \<Rightarrow> nat \<Rightarrow> ('v, 'w) batch \<Rightarrow> ('v, 'w) routed \<Rightarrow> bool" where
  "routed_as E n k b r \<longleftrightarrow>
     ro_start r = int k * (E div int n) \<and> ro_topk r = bt_topk b \<and> ro_token_count r = length (bt_hidden b) \<and>
     ro_order r = concat (map (addressed (E div int n) (bt_ids b)) [0 ..< n]) \<and>
     mset (ro_order r) = mset [0 ..< length (bt_ids b)] \<and>
     ro_send_counts r = map (\<lambda>q. length (addressed (E div int n) (bt_ids b) q)) [0 ..< n] \<and>
     ro_tokens r = gather (tokens_of b) (ro_order r) \<and> ro_ids r = gather (bt_ids b) (ro_order r) \<and>
     ro_weights r = gather (bt_weights b) (ro_order r)"

lemma routed_blocks:
  assumes "1 \<le> E" "E mod int n = 0" "\<not> out_of_range E (bt_ids b)"
  shows "\<exists>r. route \<lparr>td_size = n, td_rank = k, td_num_experts = Some E\<rparr> b = Inr r \<and> routed_as E n k b r"
proof -
  let ?l = "E div int n" and ?ids = "bt_ids b"
  let ?owners = "map (\<lambda>e. nat (e div ?l)) ?ids"
  have "\<forall>x \<in> set ?owners. x < n"
    using assms(3) owner_less(3) [OF _ _ assms(2,1)] by (auto simp: out_of_range_def list_ex_iff)
  then have "argsort ?owners = concat (map (\<lambda>q. filter (\<lambda>i. ?owners ! i = q) [0 ..< length ?owners]) [0 ..< n])"
    by (rule argsort_buckets)
  moreover have "filter (\<lambda>i. ?owners ! i = q) [0 ..< length ?owners] = addressed ?l ?ids q" for q
    unfolding addressed_def by (rule filter_cong) simp_all
  ultimately have order: "argsort ?owners = concat (map (addressed ?l ?ids) [0 ..< n])" by simp
  have "length (filter (\<lambda>x. x = q) ?owners) = length (addressed ?l ?ids q)" for q
    using length_filter_nth [of "\<lambda>e. nat (e div ?l) = q" ?ids] by (simp add: addressed_def filter_map comp_def)
  then have counts: "bincount n ?owners = map (\<lambda>q. length (addressed ?l ?ids q)) [0 ..< n]" by (simp add: bincount_def)
  have "route \<lparr>td_size = n, td_rank = k, td_num_experts = Some E\<rparr> b = Inr
     \<lparr>ro_start = int k * ?l, ro_order = argsort ?owners, ro_send_counts = bincount n ?owners,
      ro_tokens = gather (tokens_of b) (argsort ?owners), ro_ids = gather ?ids (argsort ?owners),
      ro_weights = gather (bt_weights b) (argsort ?owners), ro_token_count = length (bt_hidden b), ro_topk = bt_topk b\<rparr>"
    using assms by (simp add: route_def expert_range_def Let_def tokens_of_def)
  then show ?thesis using order counts argsort_permutes(3) [of ?owners] by (simp add: routed_as_def)
qed

lemma gather_blocks: "gather xs (concat (map a [0 ..< n])) = concat (map (\<lambda>q. gather xs (a q)) [0 ..< n])"
  by (simp add: gather_concat comp_def)

text \<open>Lists that were received block by block, read position by position.\<close>

lemma received_positions:
  "concat (map (\<lambda>s. gather (X s) (a s)) ss) = map (\<lambda>(s, i). X s ! i) (concat (map (\<lambda>s. map (Pair s) (a s)) ss))"
  by (induction ss) (simp_all add: gather_def comp_def)

lemma experts_received:
  fixes a :: "nat \<Rightarrow> nat list"
  assumes "\<And>s i. s \<in> set ss \<Longrightarrow> i \<in> set (a s) \<Longrightarrow> i < length (bt_ids (B s))"
  shows "apply_experts f st
      \<lparr>as_tokens = concat (map (\<lambda>s. gather (tokens_of (B s)) (a s)) ss),
       as_ids = map (\<lambda>e. e - st) (concat (map (\<lambda>s. gather (bt_ids (B s)) (a s)) ss)),
       as_weights = concat (map (\<lambda>s. gather (bt_weights (B s)) (a s)) ss)\<rparr> =
    concat (map (\<lambda>s. gather (result_of f (B s)) (a s)) ss)"
proof -
  let ?P = "concat (map (\<lambda>s. map (Pair s) (a s)) ss)"
  have "map (\<lambda>j. f (st + (map (\<lambda>e. e - st) (map (\<lambda>(s, i). bt_ids (B s) ! i) ?P)) ! j)
        (map (\<lambda>(s, i). bt_weights (B s) ! i) ?P ! j) (map (\<lambda>(s, i). tokens_of (B s) ! i) ?P ! j)) [0 ..< length ?P] =
      map (\<lambda>j. (\<lambda>(s, i). f (bt_ids (B s) ! i) (bt_weights (B s) ! i) (tokens_of (B s) ! i)) (?P ! j)) [0 ..< length ?P]"
    by (rule map_cong) (simp_all split: prod.split)
  also have "\<dots> = map (\<lambda>(s, i). f (bt_ids (B s) ! i) (bt_weights (B s) ! i) (tokens_of (B s) ! i)) ?P"
    by (rule nth_equalityI) simp_all
  also have "\<dots> = map (\<lambda>(s, i). result_of f (B s) ! i) ?P"
    using assms by (auto simp: result_of_def)
  finally show ?thesis unfolding received_positions apply_experts_def by (simp del: map_map length_concat)
qed


lemma exchange_counts_blocks:
  fixes c :: "nat \<Rightarrow> nat \<Rightarrow> 'a"
  assumes "collective n x"
  shows "exchange_counts x (map (\<lambda>s. map (c s) [0 ..< n]) [0 ..< n]) = map (\<lambda>r. map (\<lambda>s. c s r) [0 ..< n]) [0 ..< n]"
proof -
  have "concat (map (\<lambda>s. [h s]) xs) = map h xs" for h :: "nat \<Rightarrow> 'a" and xs by (induction xs) simp_all
  then show ?thesis using exchange_blocks [OF assms, of "\<lambda>s r. [c s r]"] by (simp add: exchange_counts_def comp_def map_replicate_const)
qed

abbreviation (input) ranked :: "int \<Rightarrow> nat \<Rightarrow> nat \<Rightarrow> dispatcher" where
  "ranked E n s \<equiv> \<lparr>td_size = n, td_rank = s, td_num_experts = Some E\<rparr>"

lemma attached_ranks:
  assumes "mapE (attach E n) [0 ..< n] = Inr ds" "0 < n"
  shows "1 \<le> E" "E mod int n = 0" "ds = map (ranked E n) [0 ..< n]"
proof -
  have all: "list_all2 (\<lambda>r d. attach E n r = Inr d) [0 ..< n] ds" using assms(1) by (simp add: mapE_Inr_list_all2)
  then have len: "length ds = n" by (simp add: list_all2_lengthD [symmetric])
  show "1 \<le> E" "E mod int n = 0" using list_all2_nthD2 [OF all, of 0] assms(2) len by (simp_all add: attach_Inr)
  show "ds = map (ranked E n) [0 ..< n]"
    using list_all2_nthD2 [OF all] len by (intro nth_equalityI) (simp_all add: attach_Inr)
qed

lemma mapE_ranks:
  assumes "length bs = n" "\<And>s. s < n \<Longrightarrow> \<exists>r. g (d s) (bs ! s) = Inr r \<and> P s r"
  obtains R where "mapE (\<lambda>(d, b). g d b) (zip (map d [0 ..< n]) bs) = Inr (map R [0 ..< n])" "\<And>s. s < n \<Longrightarrow> P s (R s)"
proof -
  obtain R where R: "\<And>s. s < n \<Longrightarrow> g (d s) (bs ! s) = Inr (R s) \<and> P s (R s)" using assms(2) by metis
  have "mapE (\<lambda>(d, b). g d b) (zip (map d [0 ..< n]) bs) = Inr (map R [0 ..< n])"
    using R assms(1) by (simp add: mapE_Inr_list_all2 list_all2_conv_all_nth)
  then show thesis by (rule that) (use R in simp)
qed

lemma route_ranks:
  assumes "mapE (attach E n) [0 ..< n] = Inr ds" "length bs = n" "\<forall>b \<in> set bs. \<not> out_of_range E (bt_ids b)" "0 < n"
  obtains R where "mapE (\<lambda>(d, b). route d b) (zip ds bs) = Inr (map R [0 ..< n])" "1 \<le> E" "E mod int n = 0"
    "\<And>s. s < n \<Longrightarrow> routed_as E n s (bs ! s) (R s)"
proof -
  note at = attached_ranks [OF assms(1,4)]
  have "\<exists>r. route (ranked E n s) (bs ! s) = Inr r \<and> routed_as E n s (bs ! s) r" if "s < n" for s
    using assms(2,3) that by (intro routed_blocks [OF at(1,2)]) simp
  from mapE_ranks [OF assms(2), of route "ranked E n", OF this] that [OF _ at(1,2)] show thesis unfolding at(3) by blast
qed

section \<open>The group computes what the local dispatcher computes\<close>

definition addressed_of :: "int \<Rightarrow> nat \<Rightarrow> ('v, 'w) batch list \<Rightarrow> nat \<Rightarrow> nat \<Rightarrow> nat list" where
  "addressed_of E n bs s r = addressed (E div int n) (bt_ids (bs ! s)) r"

lemma dispatched:
  assumes "collective n xc" "collective n xi" "collective n xv" "collective n xw"
    and "mapE (attach E n) [0 ..< n] = Inr ds" "length bs = n" "\<forall>b \<in> set bs. \<not> out_of_range E (bt_ids b)" "0 < n"
  shows "dispatch_group_ranks xc xi xv xw ds bs = Inr (map (\<lambda>r.
     (\<lparr>as_tokens = concat (map (\<lambda>s. gather (tokens_of (bs ! s)) (addressed_of E n bs s r)) [0 ..< n]),
       as_ids = map (\<lambda>e. e - int r * (E div int n))
          (concat (map (\<lambda>s. gather (bt_ids (bs ! s)) (addressed_of E n bs s r)) [0 ..< n])),
       as_weights = concat (map (\<lambda>s. gather (bt_weights (bs ! s)) (addressed_of E n bs s r)) [0 ..< n])\<rparr>,
      \<lparr>dm_token_count = length (bt_hidden (bs ! r)), dm_topk = bt_topk (bs ! r),
       dm_inverse_order = Some (argsort (concat (map (addressed_of E n bs r) [0 ..< n]))),
       dm_send_splits = Some (map (\<lambda>q. length (addressed_of E n bs r q)) [0 ..< n]),
       dm_recv_splits = Some (map (\<lambda>s. length (addressed_of E n bs s r)) [0 ..< n])\<rparr>)) [0 ..< n])"
proof -
  let ?a = "addressed_of E n bs"
  obtain R where R: "mapE (\<lambda>(d, b). route d b) (zip ds bs) = Inr (map R [0 ..< n])"
    "\<And>s. s < n \<Longrightarrow> routed_as E n s (bs ! s) (R s)" by (rule route_ranks [OF assms(5-8)], rule that, assumption+)
  have a: "addressed (E div int n) (bt_ids (bs ! s)) = ?a s" for s by (rule ext) (simp add: addressed_of_def)
  note r = R(2) [unfolded routed_as_def a]
  have sends: "map (ro_send_counts \<circ> R) [0 ..< n] = map (\<lambda>s. map (\<lambda>q. length (?a s q)) [0 ..< n]) [0 ..< n]"
    by (intro map_cong refl) (simp add: r)
  have bufs:
    "map (ro_tokens \<circ> R) [0 ..< n] = map (\<lambda>s. concat (map (\<lambda>q. gather (tokens_of (bs ! s)) (?a s q)) [0 ..< n])) [0 ..< n]"
    "map (ro_ids \<circ> R) [0 ..< n] = map (\<lambda>s. concat (map (\<lambda>q. gather (bt_ids (bs ! s)) (?a s q)) [0 ..< n])) [0 ..< n]"
    "map (ro_weights \<circ> R) [0 ..< n] = map (\<lambda>s. concat (map (\<lambda>q. gather (bt_weights (bs ! s)) (?a s q)) [0 ..< n])) [0 ..< n]"
    by (intro map_cong refl; simp add: r gather_blocks)+
  note received = exchange_blocks [where blk = "\<lambda>s q. gather (X s) (?a s q)" for X, simplified gather_simps]
  show ?thesis
    unfolding dispatch_group_ranks_def R(1) bindE_simps Let_def map_map sends exchange_counts_blocks [OF assms(1)] bufs
      received [OF assms(2)] received [OF assms(3)] received [OF assms(4)]
    by (simp add: r)
qed

lemma map2_upt: "map2 g [0 ..< n] (map h [0 ..< n]) = map (\<lambda>r. g r (h r)) [0 ..< n]"
  by (rule nth_equalityI) simp_all

lemma map2_maps: "map2 g (map k xs) (map h xs) = map (\<lambda>x. g (k x) (h x)) xs"
  by (induction xs) simp_all

lemma addressed_local:
  assumes "i \<in> set (addressed (E div int n) ids r)" "\<not> out_of_range E ids" "1 \<le> E" "E mod int n = 0"
  shows "0 \<le> ids ! i - int r * (E div int n)" "ids ! i - int r * (E div int n) < E div int n"
proof -
  let ?l = "E div int n"
  have i: "i < length ids" "nat (ids ! i div ?l) = r" using assms(1) by (simp_all add: addressed_def)
  have e: "0 \<le> ids ! i" "ids ! i < E" using assms(2) nth_mem [OF i(1)] by (auto simp: out_of_range_def list_ex_iff not_le not_less)
  note o' = owner_less [OF e assms(4,3)]
  have "int r = ids ! i div ?l" using i(2) o'(2) by simp
  then have "ids ! i - int r * ?l = ids ! i mod ?l" by (simp add: minus_div_mult_eq_mod)
  then show "0 \<le> ids ! i - int r * ?l" "ids ! i - int r * ?l < ?l" using o'(1) by simp_all
qed

text \<open>C10. Expert parallelism computes what one process computes: for any expert function and any sum,
  dispatching the assignments of all ranks to the owners of their experts, applying there the owned
  experts, and combining returns on every rank what the local dispatcher returns for its batch; and a
  rank receives assignments to its own experts only. This rests on nothing of the exchange but that it
  hands each segment to the rank it is addressed to, in the order of the ranks.\<close>

theorem expert_parallel_equals_local:
  assumes "collective n xc" "collective n xi" "collective n xv" "collective n xw"
    and "mapE (attach E n) [0 ..< n] = Inr ds" "length bs = n" "0 < n"
    and "\<forall>b \<in> set bs. well_shaped b \<and> \<not> out_of_range E (bt_ids b)"
  shows "\<exists>out. dispatch_group_ranks xc xi xv xw ds bs = Inr out \<and>
    combine_group_ranks vsum xv (map2 (\<lambda>r o'. apply_experts f (int r * (E div int n)) (fst o')) [0 ..< n] out) (map snd out) =
      map (\<lambda>b. local_combine vsum (apply_experts f 0 (fst (local_dispatch b))) (snd (local_dispatch b))) bs \<and>
    (\<forall>r < n. \<forall>e \<in> set (as_ids (fst (out ! r))). 0 \<le> e \<and> e < E div int n)"
proof -
  let ?a = "addressed_of E n bs" and ?B = "\<lambda>s. bs ! s"
  have B: "well_shaped (?B s)" "\<not> out_of_range E (bt_ids (?B s))" if "s < n" for s using assms(6,8) that by simp_all
  have ids: "\<forall>b \<in> set bs. \<not> out_of_range E (bt_ids b)" using assms(8) by blast
  note d = dispatched [OF assms(1-6) this assms(7)]
  obtain R where E: "1 \<le> E" "E mod int n = 0" and order: "\<And>s. s < n \<Longrightarrow> routed_as E n s (?B s) (R s)"
    by (rule route_ranks [OF assms(5,6) ids assms(7)], rule that, assumption+)
  have a: "addressed (E div int n) (bt_ids (?B s)) = ?a s" for s by (rule ext) (simp add: addressed_of_def)
  have perm: "mset (concat (map (?a s) [0 ..< n])) = mset [0 ..< length (bt_ids (?B s))]" if "s < n" for s
    using order [OF that, unfolded routed_as_def a] by metis
  have less: "i < length (bt_ids (?B s))" if "i \<in> set (?a s r)" for s r i
    using that addressed_less by (simp add: addressed_of_def)
  have experts: "apply_experts f (int r * (E div int n))
      \<lparr>as_tokens = concat (map (\<lambda>s. gather (tokens_of (?B s)) (?a s r)) [0 ..< n]),
       as_ids = map (\<lambda>e. e - int r * (E div int n)) (concat (map (\<lambda>s. gather (bt_ids (?B s)) (?a s r)) [0 ..< n])),
       as_weights = concat (map (\<lambda>s. gather (bt_weights (?B s)) (?a s r)) [0 ..< n])\<rparr> =
      concat (map (\<lambda>s. gather (result_of f (?B s)) (?a s r)) [0 ..< n])" for r
    using less by (intro experts_received) simp
  have home: "gather (concat (map (\<lambda>r. gather (result_of f (?B s)) (?a s r)) [0 ..< n])) (argsort (concat (map (?a s) [0 ..< n]))) =
      result_of f (?B s)" if "s < n" for s
    unfolding gather_blocks [symmetric] by (rule gather_inverse [OF perm [OF that]]) (simp add: result_of_def)
  have loc: "map (\<lambda>b. local_combine vsum (apply_experts f 0 (fst (local_dispatch b))) (snd (local_dispatch b))) bs =
      map (\<lambda>s. view_sum vsum (length (bt_hidden (?B s))) (bt_topk (?B s)) (result_of f (?B s))) [0 ..< n]"
    by (rule nth_equalityI) (simp_all add: assms(6) local_result B(1), simp add: local_combine_def local_dispatch_def)
  have returned: "xv (map (\<lambda>r. concat (map (\<lambda>s. gather (result_of f (?B s)) (?a s r)) [0 ..< n])) [0 ..< n])
      (map (\<lambda>r. map (\<lambda>s. length (?a s r)) [0 ..< n]) [0 ..< n]) (map (\<lambda>s. map (\<lambda>r. length (?a s r)) [0 ..< n]) [0 ..< n]) =
      map (\<lambda>s. concat (map (\<lambda>r. gather (result_of f (?B s)) (?a s r)) [0 ..< n])) [0 ..< n]"
    using exchange_blocks [OF assms(3), of "\<lambda>r s. gather (result_of f (?B s)) (?a s r)"] by simp
  let ?out = "\<lambda>r. (\<lparr>as_tokens = concat (map (\<lambda>s. gather (tokens_of (?B s)) (?a s r)) [0 ..< n]),
       as_ids = map (\<lambda>e. e - int r * (E div int n)) (concat (map (\<lambda>s. gather (bt_ids (?B s)) (?a s r)) [0 ..< n])),
       as_weights = concat (map (\<lambda>s. gather (bt_weights (?B s)) (?a s r)) [0 ..< n])\<rparr>,
      \<lparr>dm_token_count = length (bt_hidden (?B r)), dm_topk = bt_topk (?B r),
       dm_inverse_order = Some (argsort (concat (map (?a r) [0 ..< n]))),
       dm_send_splits = Some (map (\<lambda>q. length (?a r q)) [0 ..< n]),
       dm_recv_splits = Some (map (\<lambda>s. length (?a s r)) [0 ..< n])\<rparr>)"
  show ?thesis
    unfolding d
  proof (intro exI conjI allI impI ballI, rule refl)
    show "combine_group_ranks vsum xv (map2 (\<lambda>r o'. apply_experts f (int r * (E div int n)) (fst o')) [0 ..< n] (map (\<lambda>r. ?out r) [0 ..< n]))
        (map snd (map ?out [0 ..< n])) = map (\<lambda>b. local_combine vsum (apply_experts f 0 (fst (local_dispatch b))) (snd (local_dispatch b))) bs"
      unfolding map2_upt experts map_map comp_def snd_conv fst_conv combine_group_ranks_def dispatch_metadata.select_convs
        option.sel returned loc
      by (simp add: list_ex_iff map2_maps combine_rank_def home)
  next
    fix r e
    assume r: "r < n" and "e \<in> set (as_ids (fst (map ?out [0 ..< n] ! r)))"
    then obtain s i where "s < n" "i \<in> set (?a s r)" "e = bt_ids (?B s) ! i - int r * (E div int n)"
      by (auto simp: gather_def)
    then show "0 \<le> e" "e < E div int n"
      using addressed_local [OF _ B(2) E] by (auto simp: addressed_of_def)
  qed
qed

section \<open>A run\<close>

definition demo_batches :: "(int, int) batch list" where
  "demo_batches =
     [\<lparr>bt_hidden = [10, 20], bt_topk = 2, bt_ids = [3, 0, 1, 3], bt_weights = [1, 2, 3, 4]\<rparr>,
      \<lparr>bt_hidden = [30], bt_topk = 2, bt_ids = [2, 1], bt_weights = [5, 6]\<rparr>]"

definition demo_expert :: "int \<Rightarrow> int \<Rightarrow> int \<Rightarrow> int" where
  "demo_expert e w v = w * (v + e)"

definition demo_ranks :: "dispatcher list" where
  "demo_ranks = map (\<lambda>r. \<lparr>td_size = 2, td_rank = r, td_num_experts = Some 4\<rparr>) [0, 1]"

lemma demo_attached: "mapE (attach 4 2) [0 ..< 2] = Inr demo_ranks"
  by code_simp

lemma demo_shaped: "length demo_batches = 2" "\<forall>b \<in> set demo_batches. well_shaped b \<and> \<not> out_of_range 4 (bt_ids b)"
  by (simp_all add: demo_batches_def well_shaped_def out_of_range_def)

theorem expert_parallel_equals_local_witness:
  "\<exists>out. dispatch_group_ranks (exchange_segments 2) (exchange_segments 2) (exchange_segments 2) (exchange_segments 2)
      demo_ranks demo_batches = Inr out \<and>
    combine_group_ranks sum_list (exchange_segments 2) (map2 (\<lambda>r o'. apply_experts demo_expert (int r * 2) (fst o')) [0 ..< 2] out)
      (map snd out) = [Inr [33, 155], Inr [346]]"
proof -
  have "map (\<lambda>b. local_combine sum_list (apply_experts demo_expert 0 (fst (local_dispatch b))) (snd (local_dispatch b))) demo_batches =
      [Inr [33, 155], Inr [346]]" by code_simp
  then show ?thesis
    using expert_parallel_equals_local [OF exchange_segments_collective exchange_segments_collective exchange_segments_collective
      exchange_segments_collective demo_attached demo_shaped(1) _ demo_shaped(2), of sum_list demo_expert] by auto
qed

end
