(* ===== verification/Expert_Dispatch.thy ===== *)
theory Expert_Dispatch
  imports Token_Dispatch
begin

text \<open>
  \<^verbatim>\<open>dsv41_train/models/dsv4/moe/dispatch.py\<close>: the dispatchers of the DeepSeek experts. Assignments are
  sorted by global expert, exchanged by owner, and brought from the order of the source ranks into the
  order of the owned experts by an index computation over the matrix of counts; grouped experts then
  work on consecutive segments. The model follows the index arithmetic of the code; the main result is
  again that every rank gets back what the local dispatcher computes there. Batches, the dispatcher of
  a rank and its \<open>expert_range\<close> are those of \<open>Token_Dispatch\<close>, whose code is the same.
\<close>

section \<open>The local dispatcher\<close>

record expert_metadata =
  em_token_count :: nat
  em_token_indices :: "nat list"
  em_rank_major_order :: "nat list option"
  em_send_splits :: "nat list option"
  em_recv_splits :: "nat list option"
  em_topk :: nat
  em_inverse_order :: "nat list option"

record ('v, 'w) segments =
  ex_tokens :: "'v list"
  ex_counts :: "nat list"
  ex_weights :: "'w list"

definition sorted_expert_range :: "int \<Rightarrow> (int \<times> int) result" where
  "sorted_expert_range num_experts =
     (if num_experts < 1 then Inl (ValueError ''num_experts must be positive'') else Inr (0, num_experts))"

text \<open>\<^verbatim>\<open>torch.bincount\<close> with a least length; negative entries are refused.\<close>

definition bincount_ids :: "nat \<Rightarrow> int list \<Rightarrow> nat list result" where
  "bincount_ids n ids =
     (if list_ex (\<lambda>e. e < 0) ids then Inl (RuntimeError ''bincount'')
      else let xs = map nat ids in Inr (bincount (Max (set (n # map Suc xs))) xs))"

definition sorted_dispatch ::
  "int option \<Rightarrow> ('v, 'w) batch \<Rightarrow> (('v, 'w) segments \<times> expert_metadata) result" where
  "sorted_dispatch num_experts b =
     (case num_experts of
        None \<Rightarrow> Inl (RuntimeError ''attach the dispatcher to an expert module before use'')
      | Some n \<Rightarrow>
          let order = argsort (bt_ids b); indices = map (\<lambda>i. i div bt_topk b) order
          in bindE (bincount_ids (nat n) (bt_ids b)) (\<lambda>counts. Inr
               (\<lparr>ex_tokens = gather (bt_hidden b) indices, ex_counts = counts, ex_weights = gather (bt_weights b) order\<rparr>,
                \<lparr>em_token_count = length (bt_hidden b), em_token_indices = indices, em_rank_major_order = None,
                 em_send_splits = None, em_recv_splits = None, em_topk = bt_topk b,
                 em_inverse_order = Some (argsort order)\<rparr>)))"

definition reshape_sum :: "('v list \<Rightarrow> 'v) \<Rightarrow> nat \<Rightarrow> nat \<Rightarrow> 'v list \<Rightarrow> 'v list result" where
  "reshape_sum vsum n k xs =
     (if length xs \<noteq> n * k then Inl (RuntimeError ''reshape'') else Inr (map vsum (in_rows n k xs)))"

definition sorted_combine :: "('v list \<Rightarrow> 'v) \<Rightarrow> 'v list \<Rightarrow> expert_metadata \<Rightarrow> 'v list result" where
  "sorted_combine vsum hidden m =
     (case em_inverse_order m of
        None \<Rightarrow> Inl (RuntimeError ''assert'')
      | Some order \<Rightarrow> reshape_sum vsum (em_token_count m) (em_topk m) (gather hidden order))"

section \<open>Expert-major order\<close>

definition cumsum :: "nat list \<Rightarrow> nat list" where
  "cumsum xs = map (\<lambda>j. sum_list (take (Suc j) xs)) [0 ..< length xs]"

definition starts :: "nat list \<Rightarrow> nat list" where
  "starts xs = map2 (-) (cumsum xs) xs"

definition columns :: "'a list list \<Rightarrow> 'a list list" where
  "columns m = (case m of [] \<Rightarrow> [] | row # _ \<Rightarrow> map (\<lambda>e. map (\<lambda>row. row ! e) m) [0 ..< length row])"

definition repeat_interleave :: "'a list \<Rightarrow> nat list \<Rightarrow> 'a list" where
  "repeat_interleave xs ls = concat (map2 (\<lambda>x c. replicate c x) xs ls)"

definition expert_major_order :: "nat list list \<Rightarrow> nat \<Rightarrow> nat list" where
  "expert_major_order counts rows_total =
     (let flat = concat counts;
          input_starts = in_rows (length counts) (length (hd counts)) (starts flat);
          segment_lengths = concat (columns counts);
          input_starts = concat (columns input_starts);
          segment_ids = repeat_interleave [0 ..< length segment_lengths] segment_lengths;
          output_starts = starts segment_lengths
      in map (\<lambda>p. input_starts ! (segment_ids ! p) + p - output_starts ! (segment_ids ! p)) [0 ..< rows_total])"

section \<open>The group\<close>

record ('v, 'w) sorted_routed =
  sr_order :: "nat list"
  sr_indices :: "nat list"
  sr_counts :: "nat list list"
  sr_tokens :: "'v list"
  sr_weights :: "'w list"
  sr_token_count :: nat
  sr_topk :: nat

definition sorted_route :: "dispatcher \<Rightarrow> ('v, 'w) batch \<Rightarrow> ('v, 'w) sorted_routed result" where
  "sorted_route d b =
     (case td_num_experts d of
        None \<Rightarrow> Inl (RuntimeError ''attach the dispatcher to an expert module before use'')
      | Some n \<Rightarrow>
          bindE (expert_range n d) (\<lambda>((start, stop), d).
            if out_of_range n (bt_ids b) then Inl (ValueError ''expert ids are outside the configured expert range'')
            else let order = argsort (bt_ids b); indices = map (\<lambda>i. i div bt_topk b) order;
                     counts = bincount (nat n) (map nat (bt_ids b))
              in Inr \<lparr>sr_order = order, sr_indices = indices,
                      sr_counts = in_rows (td_size d) (nat (stop - start)) counts,
                      sr_tokens = gather (bt_hidden b) indices, sr_weights = gather (bt_weights b) order,
                      sr_token_count = length (bt_hidden b), sr_topk = bt_topk b\<rparr>))"

definition sorted_dispatch_ranks ::
  "nat list exchange \<Rightarrow> 'v exchange \<Rightarrow> 'w exchange \<Rightarrow> dispatcher list \<Rightarrow> ('v, 'w) batch list \<Rightarrow>
   (('v, 'w) segments \<times> expert_metadata) list result" where
  "sorted_dispatch_ranks xc xv xw ds bs =
     bindE (mapE (\<lambda>(d, b). sorted_route d b) (zip ds bs)) (\<lambda>rs.
       let recv_counts = exchange_counts xc (map sr_counts rs);
           sends = map (\<lambda>r. map sum_list (sr_counts r)) rs; recvs = map (map sum_list) recv_counts;
           tokens = xv (map sr_tokens rs) sends recvs;
           weights = xw (map sr_weights rs) sends recvs
       in Inr (map (\<lambda>i. let r = rs ! i; order = expert_major_order (recv_counts ! i) (length (tokens ! i)) in
            (\<lparr>ex_tokens = gather (tokens ! i) order, ex_counts = map sum_list (columns (recv_counts ! i)),
              ex_weights = gather (weights ! i) order\<rparr>,
             \<lparr>em_token_count = sr_token_count r, em_token_indices = sr_indices r, em_rank_major_order = Some (argsort order),
              em_send_splits = Some (sends ! i), em_recv_splits = Some (recvs ! i), em_topk = sr_topk r,
              em_inverse_order = Some (argsort (sr_order r))\<rparr>)) [0 ..< length rs]))"

definition sorted_combine_ranks ::
  "('v list \<Rightarrow> 'v) \<Rightarrow> 'v exchange \<Rightarrow> 'v list list \<Rightarrow> expert_metadata list \<Rightarrow> 'v list result list" where
  "sorted_combine_ranks vsum xv hiddens ms =
     (if list_ex (\<lambda>m. em_rank_major_order m = None \<or> em_send_splits m = None \<or> em_recv_splits m = None) ms
      then map (\<lambda>m. Inl (RuntimeError ''assert'')) ms
      else map2 (sorted_combine vsum)
             (xv (map2 (\<lambda>h m. gather h (the (em_rank_major_order m))) hiddens ms)
                (map (\<lambda>m. the (em_recv_splits m)) ms) (map (\<lambda>m. the (em_send_splits m)) ms)) ms)"

text \<open>Grouped experts: the owned expert \<open>e\<close> works on the \<open>e\<close>-th segment.\<close>

definition apply_grouped :: "(int \<Rightarrow> 'w \<Rightarrow> 'v \<Rightarrow> 'v) \<Rightarrow> int \<Rightarrow> ('v, 'w) segments \<Rightarrow> 'v list" where
  "apply_grouped f start a =
     concat (map (\<lambda>e. map2 (f (start + int e)) (segment (ex_counts a) e (ex_weights a)) (segment (ex_counts a) e (ex_tokens a)))
       [0 ..< length (ex_counts a)])"

section \<open>The index arithmetic\<close>

lemma length_starts [simp]: "length (starts xs) = length xs"
  by (simp add: starts_def cumsum_def)

lemma nth_starts: "j < length xs \<Longrightarrow> starts xs ! j = sum_list (take j xs)"
  by (simp add: starts_def cumsum_def take_Suc_conv_app_nth)

lemma starts_snoc: "starts (xs @ [c]) = starts xs @ [sum_list xs]"
  by (rule nth_equalityI) (auto simp: nth_starts nth_append less_Suc_eq)

text \<open>Position \<open>p\<close> of the output lies in a segment; moving it by the distance of the starts of its
  segment lists the segments one after another.\<close>

lemma interleaved_ranges:
  assumes "length ss = length ls"
  shows "map (\<lambda>p. ss ! (repeat_interleave [0 ..< length ls] ls ! p) + p - starts ls ! (repeat_interleave [0 ..< length ls] ls ! p))
      [0 ..< sum_list ls] = concat (map2 (\<lambda>a c. [a ..< a + c]) ss ls)"
  using assms
proof (induction ls arbitrary: ss rule: rev_induct)
  case (snoc c ls)
  then obtain ss' a where ss: "ss = ss' @ [a]" "length ss' = length ls" by (metis append_butlast_last_id length_append_singleton length_butlast list.size(3) nat.simps(3) diff_Suc_1)
  let ?seg = "repeat_interleave [0 ..< length ls] ls"
  have seg: "repeat_interleave [0 ..< length (ls @ [c])] (ls @ [c]) = ?seg @ replicate c (length ls)"
    by (simp add: repeat_interleave_def)
  have len: "length ?seg = sum_list ls"
  proof -
    have "length (repeat_interleave xs ls) = sum_list ls" if "length xs = length ls" for xs :: "nat list"
      using that by (induction xs ls rule: list_induct2) (simp_all add: repeat_interleave_def)
    then show ?thesis by simp
  qed
  have less: "?seg ! p < length ls" if "p < sum_list ls" for p
  proof -
    have "set ?seg \<subseteq> {..< length ls}" by (auto simp: repeat_interleave_def dest: set_zip_leftD)
    then show ?thesis using nth_mem [of p ?seg] that len by (metis lessThan_iff subsetD)
  qed
  have "map (\<lambda>p. ss ! ((?seg @ replicate c (length ls)) ! p) + p - starts (ls @ [c]) ! ((?seg @ replicate c (length ls)) ! p)) [0 ..< sum_list ls] =
      map (\<lambda>p. ss' ! (?seg ! p) + p - starts ls ! (?seg ! p)) [0 ..< sum_list ls]"
    using less ss by (intro map_cong refl) (simp add: nth_append len starts_snoc)
  moreover have "map (\<lambda>p. ss ! ((?seg @ replicate c (length ls)) ! p) + p - starts (ls @ [c]) ! ((?seg @ replicate c (length ls)) ! p))
      [sum_list ls ..< sum_list ls + c] = [a ..< a + c]"
    by (rule nth_equalityI) (simp_all add: nth_append len starts_snoc ss)
  ultimately show ?case
    using snoc.IH [OF ss(2)] ss seg by (simp add: upt_add_eq_append [of 0 "sum_list ls" c])
qed (simp add: repeat_interleave_def)

text \<open>A matrix of blocks, row-major and column-major.\<close>

definition by_rows :: "nat \<Rightarrow> nat \<Rightarrow> (nat \<Rightarrow> nat \<Rightarrow> 'a list) \<Rightarrow> 'a list" where
  "by_rows n l G = concat (map (\<lambda>s. concat (map (G s) [0 ..< l])) [0 ..< n])"

definition by_columns :: "nat \<Rightarrow> nat \<Rightarrow> (nat \<Rightarrow> nat \<Rightarrow> 'a list) \<Rightarrow> 'a list" where
  "by_columns n l G = concat (map (\<lambda>e. concat (map (\<lambda>s. G s e) [0 ..< n])) [0 ..< l])"

definition block_counts :: "nat \<Rightarrow> nat \<Rightarrow> (nat \<Rightarrow> nat \<Rightarrow> 'a list) \<Rightarrow> nat list list" where
  "block_counts n l G = map (\<lambda>s. map (\<lambda>e. length (G s e)) [0 ..< l]) [0 ..< n]"

lemma upt_product: "concat (map (\<lambda>s. map (h s) [0 ..< l]) [0 ..< n]) = map (\<lambda>j. h (j div l) (j mod l)) [0 ..< n * l]"
proof (induction n)
  case (Suc n)
  have "map (\<lambda>j. h (j div l) (j mod l)) [n * l ..< n * l + l] = map (h n) [0 ..< l]"
    by (rule nth_equalityI) (simp_all add: div_mult_self3 [of l] )
  moreover have "[0 ..< Suc n * l] = [0 ..< n * l] @ [n * l ..< n * l + l]"
    using upt_add_eq_append [of 0 "n * l" l] by (simp add: add.commute)
  ultimately show ?case using Suc by simp
qed simp

lemma in_rows_map: "in_rows n l (map h [0 ..< n * l]) = map (\<lambda>s. map (\<lambda>e. h (s * l + e)) [0 ..< l]) [0 ..< n]"
proof (rule nth_equalityI)
  fix s
  assume "s < length (in_rows n l (map h [0 ..< n * l]))"
  then have s: "s < n" by (simp add: in_rows_def)
  then have "s * l + l \<le> n * l" using mult_le_mono1 [of "Suc s" n l] by simp
  then show "in_rows n l (map h [0 ..< n * l]) ! s = map (\<lambda>s. map (\<lambda>e. h (s * l + e)) [0 ..< l]) [0 ..< n] ! s"
    using s by (intro nth_equalityI) (auto simp: in_rows_def)
qed (simp add: in_rows_def)

lemma columns_nonempty: "m \<noteq> [] \<Longrightarrow> columns m = map (\<lambda>e. map (\<lambda>row. row ! e) m) [0 ..< length (hd m)]"
  by (cases m) (simp_all add: columns_def)

lemma columns_map: "0 < n \<Longrightarrow> columns (map (\<lambda>s. map (h s) [0 ..< l]) [0 ..< n]) = map (\<lambda>e. map (\<lambda>s. h s e) [0 ..< n]) [0 ..< l]"
  using columns_nonempty [of "map (\<lambda>s. map (h s) [0 ..< l]) [0 ..< n]"] by (simp add: hd_map)

lemma mset_transpose: "mset (by_columns n l G) = mset (by_rows n l G)"
proof -
  have c: "mset (concat (map h [0 ..< k])) = (\<Sum>i < k. mset (h i))" for h :: "nat \<Rightarrow> 'a list" and k
    by (induction k) simp_all
  show ?thesis unfolding by_rows_def by_columns_def c by (rule sum.swap)
qed

lemma gather_range: "gather xs [a ..< a + c] = take c (drop a xs)" if "length (take c (drop a xs)) = c"
  using that by (intro nth_equalityI) (simp_all add: gather_def)

lemma sum_list_concats: "sum_list (concat xss) = sum_list (map sum_list xss)" for xss :: "nat list list"
  by (induction xss) simp_all

lemma by_rows_flat: "by_rows n l G = concat (map (\<lambda>j. G (j div l) (j mod l)) [0 ..< n * l])"
proof -
  have "concat (map (\<lambda>s. concat (h s)) xs) = concat (concat (map h xs))" for h :: "nat \<Rightarrow> 'a list list" and xs
    by (induction xs) simp_all
  then show ?thesis unfolding by_rows_def upt_product [symmetric] .
qed

lemma ranges_concat:
  "concat (map (\<lambda>j. [starts ls ! j ..< starts ls ! j + ls ! j]) [0 ..< length ls]) = [0 ..< sum_list ls]"
proof (induction ls rule: rev_induct)
  case (snoc c ls)
  have "map (\<lambda>j. [starts (ls @ [c]) ! j ..< starts (ls @ [c]) ! j + (ls @ [c]) ! j]) [0 ..< length ls] =
      map (\<lambda>j. [starts ls ! j ..< starts ls ! j + ls ! j]) [0 ..< length ls]"
    by (intro map_cong refl) (simp add: starts_snoc nth_append)
  moreover have "[0 ..< length (ls @ [c])] = [0 ..< length ls] @ [length ls]" by simp
  moreover have "starts (ls @ [c]) ! length ls = sum_list ls" "(ls @ [c]) ! length ls = c"
    using starts_snoc [of ls c] by (simp_all add: nth_append)
  ultimately show ?case
    using snoc by (simp only: map_append concat_append list.map concat.simps append_Nil2 sum_list_append sum_list.Cons
      sum_list.Nil add_0_right upt_add_eq_append [of 0 "sum_list ls" c])
qed simp

text \<open>The index computation turns the row-major order into the column-major one.\<close>

lemma expert_major_order_ranges:
  assumes "0 < n" "rows_total = length (by_rows n l G)"
  shows "expert_major_order (block_counts n l G) rows_total =
    by_columns n l (\<lambda>s e. let a = starts (concat (block_counts n l G)) ! (s * l + e) in [a ..< a + length (G s e)])"
proof -
  let ?flat = "concat (block_counts n l G)"
  have flat: "?flat = map (\<lambda>j. length (G (j div l) (j mod l))) [0 ..< n * l]"
    by (simp add: block_counts_def upt_product)
  then have st: "starts ?flat = map (\<lambda>j. starts ?flat ! j) [0 ..< n * l]" by (intro nth_equalityI) simp_all
  have rows: "in_rows n l (starts ?flat) = map (\<lambda>s. map (\<lambda>e. starts ?flat ! (s * l + e)) [0 ..< l]) [0 ..< n]"
    by (subst st) (rule in_rows_map)
  have hd: "length (block_counts n l G) = n" "length (hd (block_counts n l G)) = l"
    using assms(1) by (simp_all add: block_counts_def hd_map)
  let ?ls = "concat (map (\<lambda>e. map (\<lambda>s. length (G s e)) [0 ..< n]) [0 ..< l])"
  let ?ss = "concat (map (\<lambda>e. map (\<lambda>s. starts ?flat ! (s * l + e)) [0 ..< n]) [0 ..< l])"
  have cols: "concat (columns (block_counts n l G)) = ?ls" "concat (columns (in_rows n l (starts ?flat))) = ?ss"
    unfolding rows by (simp_all only: block_counts_def columns_map [OF assms(1)])
  have len: "length ?ss = length ?ls" by (simp add: length_concat comp_def)
  have "sum_list ?ls = length (by_columns n l G)"
    by (simp add: by_columns_def length_concat sum_list_concats comp_def)
  also have "\<dots> = rows_total" using arg_cong [OF mset_transpose [of n l G], of size] assms(2) by simp
  finally have sum: "rows_total = sum_list ?ls" by simp
  have "concat (map2 (\<lambda>a c. [a ..< a + c]) ?ss ?ls) =
      by_columns n l (\<lambda>s e. let a = starts ?flat ! (s * l + e) in [a ..< a + length (G s e)])"
  proof -
    have "concat (map2 (\<lambda>a c. [a ..< a + c]) (concat (map (\<lambda>e. map (A e) ns) es)) (concat (map (\<lambda>e. map (C e) ns) es))) =
        concat (map (\<lambda>e. concat (map (\<lambda>s. [A e s ..< A e s + C e s]) ns)) es)" for A C :: "nat \<Rightarrow> nat \<Rightarrow> nat" and ns es
      by (induction es) (simp_all add: map2_maps zip_append)
    then show ?thesis by (simp add: by_columns_def Let_def)
  qed
  then show ?thesis
    unfolding expert_major_order_def Let_def hd cols sum using interleaved_ranges [OF len] by simp
qed

lemma gather_expert_major:
  fixes G :: "nat \<Rightarrow> nat \<Rightarrow> 'a list"
  assumes "0 < n"
  shows "gather (by_rows n l G) (expert_major_order (block_counts n l G) (length (by_rows n l G))) = by_columns n l G"
    "mset (expert_major_order (block_counts n l G) (length (by_rows n l G))) = mset [0 ..< length (by_rows n l G)]"
proof -
  let ?B = "map (\<lambda>j. G (j div l) (j mod l)) [0 ..< n * l]"
  let ?flat = "concat (block_counts n l G)"
  let ?range = "\<lambda>s e. [starts ?flat ! (s * l + e) ..< starts ?flat ! (s * l + e) + length (G s e)]"
  have flat: "?flat = map length ?B" by (simp add: block_counts_def upt_product comp_def)
  have order: "expert_major_order (block_counts n l G) (length (by_rows n l G)) = by_columns n l ?range"
    using expert_major_order_ranges [OF assms refl, of l G] by (simp add: Let_def)
  have "gather (by_rows n l G) (?range s e) = G s e" if "s < n" "e < l" for s e
  proof -
    have "s * l + l \<le> n * l" using that(1) mult_le_mono1 [of "Suc s" n l] by simp
    then have j: "s * l + e < length ?B" using that(2) by simp
    then have "segment (map length ?B) (s * l + e) (concat ?B) = ?B ! (s * l + e)" by (rule segment_concat)
    also have "?B ! (s * l + e) = G s e" using j that(2) by (simp del: map_map)
    finally have "take (length (G s e)) (drop (starts ?flat ! (s * l + e)) (by_rows n l G)) = G s e"
      using j that(2) by (simp add: segment_def flat nth_starts by_rows_flat)
    then show ?thesis using gather_range [of "length (G s e)" "starts ?flat ! (s * l + e)" "by_rows n l G"] by simp
  qed
  then show "gather (by_rows n l G) (expert_major_order (block_counts n l G) (length (by_rows n l G))) = by_columns n l G"
    unfolding order by_columns_def gather_concat map_map comp_def
    by (intro arg_cong [of _ _ concat] map_cong refl) (simp add: comp_def cong: map_cong)
  have "by_rows n l ?range = concat (map (\<lambda>j. [starts ?flat ! j ..< starts ?flat ! j + ?flat ! j]) [0 ..< length ?flat])"
    unfolding by_rows_flat by (intro arg_cong [of _ _ concat] map_cong) (simp_all add: flat)
  also have "\<dots> = [0 ..< sum_list ?flat]" by (rule ranges_concat)
  also have "sum_list ?flat = length (by_rows n l G)" by (simp add: flat by_rows_flat length_concat)
  finally show "mset (expert_major_order (block_counts n l G) (length (by_rows n l G))) = mset [0 ..< length (by_rows n l G)]"
    unfolding order mset_transpose by simp
qed

section \<open>One rank\<close>

definition positions :: "int list \<Rightarrow> nat \<Rightarrow> nat list" where
  "positions ids g = filter (\<lambda>i. ids ! i = int g) [0 ..< length ids]"

definition owned :: "nat \<Rightarrow> int list \<Rightarrow> nat \<Rightarrow> nat \<Rightarrow> nat list" where
  "owned l ids r e = positions ids (r * l + e)"

lemma owned_less: "i \<in> set (owned l ids r e) \<Longrightarrow> i < length ids \<and> ids ! i = int (r * l + e)"
  by (simp add: owned_def positions_def)

lemma order_by_rows:
  assumes "\<not> out_of_range (int (n * l)) ids"
  shows "argsort ids = by_rows n l (owned l ids)"
proof -
  have "\<forall>x \<in> set ids. 0 \<le> x \<and> x < int (n * l)" using assms by (auto simp: out_of_range_def list_ex_iff)
  then have "argsort ids = concat (map (positions ids) [0 ..< n * l])"
    unfolding positions_def by (rule argsort_buckets_int)
  also have "\<dots> = by_rows n l (owned l ids)"
    unfolding by_rows_flat owned_def by (intro arg_cong [of _ _ concat] map_cong) simp_all
  finally show ?thesis .
qed

lemma bincount_positions:
  assumes "\<not> out_of_range E ids"
  shows "bincount m (map nat ids) = map (\<lambda>g. length (positions ids g)) [0 ..< m]"
proof -
  have "length (filter (\<lambda>x. x = g) (map nat ids)) = length (positions ids g)" for g
  proof -
    have "filter (\<lambda>i. nat (ids ! i) = g) [0 ..< length ids] = positions ids g"
      unfolding positions_def
    proof (rule filter_cong)
      fix i
      assume "i \<in> set [0 ..< length ids]"
      then have "0 \<le> ids ! i" using assms nth_mem [of i ids] by (auto simp: out_of_range_def list_ex_iff not_less)
      then show "(nat (ids ! i) = g) = (ids ! i = int g)" by auto
    qed simp
    then show ?thesis using length_filter_nth [of "\<lambda>e. nat e = g" ids] by (simp add: filter_map comp_def)
  qed
  then show ?thesis by (simp add: bincount_def)
qed

lemma nth_repeat_rows: "i < length xs * k \<Longrightarrow> repeat_rows k xs ! i = xs ! (i div k)"
proof -
  assume i: "i < length xs * k"
  have "repeat_rows k xs = concat (map (\<lambda>s. map (\<lambda>_. xs ! s) [0 ..< k]) [0 ..< length xs])"
  proof -
    have "map (replicate k) xs = map (replicate k) (map ((!) xs) [0 ..< length xs])" by (simp only: map_nth)
    then show ?thesis unfolding repeat_rows_def by (simp add: comp_def map_replicate_const)
  qed
  also have "\<dots> = map (\<lambda>j. xs ! (j div k)) [0 ..< length xs * k]" by (rule upt_product)
  finally show ?thesis using i by simp
qed

lemma gather_tokens:
  assumes "well_shaped b" "\<forall>i \<in> set is. i < length (bt_ids b)"
  shows "gather (bt_hidden b) (map (\<lambda>i. i div bt_topk b) is) = gather (tokens_of b) is"
  using assms unfolding gather_def tokens_of_def map_map
  by (intro map_cong refl) (simp add: nth_repeat_rows well_shaped_def)

definition sorted_routed_as :: "nat \<Rightarrow> nat \<Rightarrow> ('v, 'w) batch \<Rightarrow> ('v, 'w) sorted_routed \<Rightarrow> bool" where
  "sorted_routed_as n l b r \<longleftrightarrow>
     sr_order r = by_rows n l (owned l (bt_ids b)) \<and> sr_indices r = map (\<lambda>i. i div bt_topk b) (sr_order r) \<and>
     mset (sr_order r) = mset [0 ..< length (bt_ids b)] \<and>
     sr_counts r = block_counts n l (owned l (bt_ids b)) \<and> sr_tokens r = gather (tokens_of b) (sr_order r) \<and>
     sr_weights r = gather (bt_weights b) (sr_order r) \<and> sr_token_count r = length (bt_hidden b) \<and> sr_topk r = bt_topk b"

lemma sorted_routed_blocks:
  assumes "1 \<le> E" "E = int (n * l)" "well_shaped b" "\<not> out_of_range E (bt_ids b)" "0 < n"
  shows "\<exists>r. sorted_route \<lparr>td_size = n, td_rank = k, td_num_experts = Some E\<rparr> b = Inr r \<and> sorted_routed_as n l b r"
proof -
  let ?ids = "bt_ids b"
  have order: "argsort ?ids = by_rows n l (owned l ?ids)" using assms(2,4) by (intro order_by_rows) simp
  have E: "E mod int n = 0" "nat E = n * l" "E div int n = int l" using assms(2,5) by (simp_all add: nat_mult_distrib)
  have counts: "in_rows n l (bincount (n * l) (map nat ?ids)) = block_counts n l (owned l ?ids)"
    unfolding bincount_positions [OF assms(4)] in_rows_map block_counts_def owned_def by simp
  have tokens: "gather (bt_hidden b) (map (\<lambda>i. i div bt_topk b) (argsort ?ids)) = gather (tokens_of b) (argsort ?ids)"
    using assms(3) by (intro gather_tokens) simp_all
  have "sorted_route \<lparr>td_size = n, td_rank = k, td_num_experts = Some E\<rparr> b = Inr
      \<lparr>sr_order = argsort ?ids, sr_indices = map (\<lambda>i. i div bt_topk b) (argsort ?ids),
       sr_counts = in_rows n l (bincount (n * l) (map nat ?ids)),
       sr_tokens = gather (bt_hidden b) (map (\<lambda>i. i div bt_topk b) (argsort ?ids)),
       sr_weights = gather (bt_weights b) (argsort ?ids), sr_token_count = length (bt_hidden b), sr_topk = bt_topk b\<rparr>"
    using assms(1,4) E by (simp add: sorted_route_def expert_range_def Let_def)
  then show ?thesis using argsort_permutes(3) [of ?ids] by (simp add: sorted_routed_as_def order counts tokens [unfolded order])
qed

section \<open>The group computes what the local dispatcher computes\<close>

definition own :: "nat \<Rightarrow> ('v, 'w) batch list \<Rightarrow> nat \<Rightarrow> nat \<Rightarrow> nat \<Rightarrow> nat list" where
  "own l bs r s = owned l (bt_ids (bs ! s)) r"

text \<open>What rank \<open>r\<close> received of a per-assignment quantity, in the order of its experts.\<close>

abbreviation (input) received_by :: "nat \<Rightarrow> nat \<Rightarrow> ('v, 'w) batch list \<Rightarrow> (nat \<Rightarrow> 'a list) \<Rightarrow> nat \<Rightarrow> 'a list" where
  "received_by n l bs X r \<equiv> by_columns n l (\<lambda>s e. gather (X s) (own l bs r s e))"

abbreviation (input) major_order :: "nat \<Rightarrow> nat \<Rightarrow> ('v, 'w) batch list \<Rightarrow> nat \<Rightarrow> nat list" where
  "major_order n l bs r \<equiv> expert_major_order (block_counts n l (own l bs r)) (length (by_rows n l (own l bs r)))"

lemma gathered_sizes [simp]:
  "block_counts n l (\<lambda>s e. gather (X s) (G s e)) = block_counts n l G"
  "length (by_rows n l (\<lambda>s e. gather (X s) (G s e))) = length (by_rows n l G)"
  by (simp_all add: block_counts_def by_rows_def length_concat comp_def)

lemma gather_major:
  fixes X :: "nat \<Rightarrow> 'a list"
  assumes "0 < n"
  shows "gather (by_rows n l (\<lambda>s e. gather (X s) (G s e))) (expert_major_order (block_counts n l G) (length (by_rows n l G))) =
    by_columns n l (\<lambda>s e. gather (X s) (G s e))"
  using gather_expert_major(1) [OF assms, of l "\<lambda>s e. gather (X s) (G s e)"] by simp

lemma sorted_dispatched:
  assumes "collective n xc" "collective n xv" "collective n xw"
    and "mapE (attach E n) [0 ..< n] = Inr ds" "length bs = n" "0 < n" "E = int (n * l)"
    and "\<forall>b \<in> set bs. well_shaped b \<and> \<not> out_of_range E (bt_ids b)"
  shows "sorted_dispatch_ranks xc xv xw ds bs = Inr (map (\<lambda>r.
     (\<lparr>ex_tokens = received_by n l bs (\<lambda>s. tokens_of (bs ! s)) r,
       ex_counts = map (\<lambda>e. sum_list (map (\<lambda>s. length (own l bs r s e)) [0 ..< n])) [0 ..< l],
       ex_weights = received_by n l bs (\<lambda>s. bt_weights (bs ! s)) r\<rparr>,
      \<lparr>em_token_count = length (bt_hidden (bs ! r)),
       em_token_indices = map (\<lambda>i. i div bt_topk (bs ! r)) (by_rows n l (\<lambda>q. own l bs q r)),
       em_rank_major_order = Some (argsort (major_order n l bs r)),
       em_send_splits = Some (map (\<lambda>q. sum_list (map (\<lambda>e. length (own l bs q r e)) [0 ..< l])) [0 ..< n]),
       em_recv_splits = Some (map (\<lambda>s. sum_list (map (\<lambda>e. length (own l bs r s e)) [0 ..< l])) [0 ..< n]),
       em_topk = bt_topk (bs ! r), em_inverse_order = Some (argsort (by_rows n l (\<lambda>q. own l bs q r)))\<rparr>)) [0 ..< n])"
proof -
  note at = attached_ranks [OF assms(4,6)]
  have "\<exists>r. sorted_route (ranked E n s) (bs ! s) = Inr r \<and> sorted_routed_as n l (bs ! s) r" if "s < n" for s
    using assms(5-8) that by (intro sorted_routed_blocks [OF at(1)]) simp_all
  from mapE_ranks [OF assms(5), of sorted_route "ranked E n", OF this]
  obtain R where R: "mapE (\<lambda>(d, b). sorted_route d b) (zip ds bs) = Inr (map R [0 ..< n])"
    "\<And>s. s < n \<Longrightarrow> sorted_routed_as n l (bs ! s) (R s)" unfolding at(3) by blast
  have o': "owned l (bt_ids (bs ! s)) = (\<lambda>q. own l bs q s)" for s by (rule ext) (simp add: own_def)
  note r = R(2) [unfolded sorted_routed_as_def o']
  let ?blk = "\<lambda>X s q. concat (map (\<lambda>e. gather (X s) (own l bs q s e)) [0 ..< l])"
  have counts: "map (sr_counts \<circ> R) [0 ..< n] = map (\<lambda>s. map (\<lambda>q. map (\<lambda>e. length (own l bs q s e)) [0 ..< l]) [0 ..< n]) [0 ..< n]"
    by (intro map_cong refl) (simp add: r block_counts_def)
  have bufs: "map (sr_tokens \<circ> R) [0 ..< n] = map (\<lambda>s. concat (map (?blk (\<lambda>s. tokens_of (bs ! s)) s) [0 ..< n])) [0 ..< n]"
    "map (sr_weights \<circ> R) [0 ..< n] = map (\<lambda>s. concat (map (?blk (\<lambda>s. bt_weights (bs ! s)) s) [0 ..< n])) [0 ..< n]"
    by (intro map_cong refl; simp add: r by_rows_def gather_concat comp_def)+
  have sends: "map ((\<lambda>r. map sum_list (sr_counts r)) \<circ> R) [0 ..< n] =
      map (\<lambda>s. map (\<lambda>q. sum_list (map (\<lambda>e. length (own l bs q s e)) [0 ..< l])) [0 ..< n]) [0 ..< n]"
    by (intro map_cong refl) (simp add: r block_counts_def comp_def)
  have received: "x (map (\<lambda>s. concat (map (?blk X s) [0 ..< n])) [0 ..< n])
      (map (\<lambda>s. map (\<lambda>q. sum_list (map (\<lambda>e. length (own l bs q s e)) [0 ..< l])) [0 ..< n]) [0 ..< n])
      (map (\<lambda>q. map (\<lambda>s. sum_list (map (\<lambda>e. length (own l bs q s e)) [0 ..< l])) [0 ..< n]) [0 ..< n]) =
      map (\<lambda>q. by_rows n l (\<lambda>s e. gather (X s) (own l bs q s e))) [0 ..< n]" if "collective n x" for x :: "'z exchange" and X
    using exchange_blocks [OF that, of "?blk X"] by (simp add: by_rows_def length_concat comp_def)
  have recvs: "map (map sum_list) (map (\<lambda>q. map (\<lambda>s. map (\<lambda>e. length (own l bs q s e)) [0 ..< l]) [0 ..< n]) [0 ..< n]) =
      map (\<lambda>q. map (\<lambda>s. sum_list (map (\<lambda>e. length (own l bs q s e)) [0 ..< l])) [0 ..< n]) [0 ..< n]"
    by (simp add: comp_def)
  have cols: "columns (map (\<lambda>s. map (\<lambda>e. length (own l bs q s e)) [0 ..< l]) [0 ..< n]) =
      map (\<lambda>e. map (\<lambda>s. length (own l bs q s e)) [0 ..< n]) [0 ..< l]" for q
    using assms(6) by (rule columns_map)
  have major: "map (\<lambda>s. map (\<lambda>e. length (own l bs q s e)) [0 ..< l]) [0 ..< n] = block_counts n l (own l bs q)" for q
    by (simp add: block_counts_def)
  show ?thesis
    unfolding sorted_dispatch_ranks_def R(1) bindE_simps Let_def map_map [of _ R] counts exchange_counts_blocks [OF assms(1)] sends recvs bufs
      received [OF assms(2)] received [OF assms(3)]
  proof (intro arg_cong [of _ _ Inr] map_cong, goal_cases)
    case 1
    then show ?case by simp
  next
    case (2 i)
    then have i: "i < n" by simp
    then show ?case by (simp add: r major cols [unfolded major] gather_major [OF assms(6)] comp_def)
  qed
qed

lemma map2_concat:
  "(\<And>s. s \<in> set ss \<Longrightarrow> length (W s) = length (T s)) \<Longrightarrow>
   map2 g (concat (map W ss)) (concat (map T ss)) = concat (map (\<lambda>s. map2 g (W s) (T s)) ss)"
  by (induction ss) simp_all

lemma grouped_columns:
  assumes "\<And>s e. length (W s e) = length (T s e)"
  shows "apply_grouped f st
      \<lparr>ex_tokens = by_columns n l T, ex_counts = map (\<lambda>e. sum_list (map (\<lambda>s. length (T s e)) [0 ..< n])) [0 ..< l],
       ex_weights = by_columns n l W\<rparr> =
    by_columns n l (\<lambda>s e. map2 (f (st + int e)) (W s e) (T s e))"
proof -
  have seg: "segment (map (\<lambda>e. sum_list (map (\<lambda>s. length (T s e)) [0 ..< n])) [0 ..< l]) e (by_columns n l V) =
      concat (map (\<lambda>s. V s e) [0 ..< n])" if "e < l" "\<And>s e. length (V s e) = length (T s e)" for V :: "nat \<Rightarrow> nat \<Rightarrow> 'z list" and e
    using segment_concat [of e "map (\<lambda>e. concat (map (\<lambda>s. V s e) [0 ..< n])) [0 ..< l]"] that
    by (simp add: by_columns_def length_concat comp_def)
  show ?thesis
    unfolding apply_grouped_def segments.select_convs by_columns_def [of n l "\<lambda>s e. map2 (f (st + int e)) (W s e) (T s e)"]
    by (intro arg_cong [of _ _ concat] map_cong) (simp_all add: seg assms map2_concat)
qed

lemma gathered_results:
  assumes "\<forall>i \<in> set is. i < length (bt_ids b) \<and> bt_ids b ! i = e"
  shows "map2 (f e) (gather (bt_weights b) is) (gather (tokens_of b) is) = gather (result_of f b) is"
  unfolding gather_def map2_maps using assms by (intro map_cong refl) (simp add: result_of_def)

text \<open>The layer as one formula: every token is the sum over its slots of what the chosen expert makes
  of it.\<close>

definition moe_reference :: "('v list \<Rightarrow> 'v) \<Rightarrow> (int \<Rightarrow> 'w \<Rightarrow> 'v \<Rightarrow> 'v) \<Rightarrow> ('v, 'w) batch \<Rightarrow> 'v list" where
  "moe_reference vsum f b =
     map (\<lambda>t. vsum (map (\<lambda>j. let i = t * bt_topk b + j in f (bt_ids b ! i) (bt_weights b ! i) (bt_hidden b ! t)) [0 ..< bt_topk b]))
       [0 ..< length (bt_hidden b)]"

lemma reshape_reference:
  assumes "well_shaped b"
  shows "reshape_sum vsum (length (bt_hidden b)) (bt_topk b) (result_of f b) = Inr (moe_reference vsum f b)"
proof -
  let ?n = "length (bt_hidden b)" and ?k = "bt_topk b"
  have n: "length (bt_ids b) = ?n * ?k" using assms by (simp add: well_shaped_def)
  have "tokens_of b ! (t * ?k + j) = bt_hidden b ! t" if "t < ?n" "j < ?k" for t j
  proof -
    have "t * ?k + ?k \<le> ?n * ?k" using mult_le_mono1 [of "Suc t" ?n ?k] that(1) by simp
    then show ?thesis unfolding tokens_of_def using that(2) by (subst nth_repeat_rows) simp_all
  qed
  then have "in_rows ?n ?k (result_of f b) =
      map (\<lambda>t. map (\<lambda>j. let i = t * ?k + j in f (bt_ids b ! i) (bt_weights b ! i) (bt_hidden b ! t)) [0 ..< ?k]) [0 ..< ?n]"
    unfolding result_of_def n in_rows_map by (simp add: Let_def)
  moreover have "length (result_of f b) = ?n * ?k" by (simp add: result_of_def n)
  ultimately show ?thesis by (simp add: reshape_sum_def moe_reference_def comp_def)
qed

lemma sorted_local:
  assumes "well_shaped b" "\<not> out_of_range E (bt_ids b)" "1 \<le> E"
  shows "bindE (sorted_dispatch (Some E) b) (\<lambda>(a, m). sorted_combine vsum (apply_grouped f 0 a) m) = Inr (moe_reference vsum f b)"
proof -
  let ?ids = "bt_ids b" and ?l = "nat E"
  let ?G = "\<lambda>s e. positions (bt_ids b) e" and ?order = "argsort (bt_ids b)"
  have order: "?order = by_columns 1 ?l ?G" 
    using order_by_rows [of ?l 1 ?ids] assms(2,3) by (simp add: by_rows_flat by_columns_def owned_def)
  have range: "0 \<le> e \<and> e < E" if "e \<in> set ?ids" for e using assms(2) that by (auto simp: out_of_range_def list_ex_iff not_le)
  have "Max (set (?l # map Suc (map nat ?ids))) = ?l"
    using range assms(3) by (intro Max_eqI) (auto simp: Suc_le_eq nat_less_iff)
  moreover have "\<not> list_ex (\<lambda>e. e < 0) ?ids" using range by (fastforce simp: list_ex_iff)
  ultimately have counts: "bincount_ids ?l ?ids = Inr (map (\<lambda>g. length (positions ?ids g)) [0 ..< ?l])"
    unfolding bincount_ids_def Let_def using bincount_positions [OF assms(2)] by simp
  have tokens: "gather (bt_hidden b) (map (\<lambda>i. i div bt_topk b) ?order) = gather (tokens_of b) ?order"
    using assms(1) by (intro gather_tokens) simp_all
  have g: "gather X (by_columns 1 ?l ?G) = by_columns 1 ?l (\<lambda>s e. gather X (?G s e))" for X :: "'z list"
    by (simp add: by_columns_def gather_concat comp_def)
  have res: "map2 (f (int e)) (gather (bt_weights b) (?G s e)) (gather (tokens_of b) (?G s e)) = gather (result_of f b) (?G s e)" for s e
    by (rule gathered_results) (simp add: positions_def)
  have experts: "apply_grouped f 0 \<lparr>ex_tokens = gather (tokens_of b) ?order,
      ex_counts = map (\<lambda>e. length (positions ?ids e)) [0 ..< ?l], ex_weights = gather (bt_weights b) ?order\<rparr> = gather (result_of f b) ?order"
    unfolding order g using grouped_columns [of "\<lambda>s e. gather (bt_weights b) (?G s e)" "\<lambda>s e. gather (tokens_of b) (?G s e)" f 0 1 ?l]
    by (simp add: res)
  have home: "gather (gather (result_of f b) ?order) (argsort ?order) = result_of f b"
    by (rule gather_inverse) (simp_all add: result_of_def argsort_permutes(3))
  show ?thesis
    unfolding sorted_dispatch_def option.case Let_def counts bindE_simps prod.case tokens experts sorted_combine_def
      expert_metadata.select_convs home by (rule reshape_reference [OF assms(1)])
qed

text \<open>The grouped experts of a rank, and the way back of their results.\<close>

lemma grouped_results:
  "apply_grouped f (int r * int l)
     \<lparr>ex_tokens = received_by n l bs (\<lambda>s. tokens_of (bs ! s)) r,
      ex_counts = map (\<lambda>e. sum_list (map (\<lambda>s. length (own l bs r s e)) [0 ..< n])) [0 ..< l],
      ex_weights = received_by n l bs (\<lambda>s. bt_weights (bs ! s)) r\<rparr> =
   received_by n l bs (\<lambda>s. result_of f (bs ! s)) r"
proof -
  have "map2 (f (int r * int l + int e)) (gather (bt_weights (bs ! s)) (own l bs r s e)) (gather (tokens_of (bs ! s)) (own l bs r s e)) =
      gather (result_of f (bs ! s)) (own l bs r s e)" for s e
    using owned_less by (intro gathered_results) (fastforce simp: own_def)
  then show ?thesis
    using grouped_columns [of "\<lambda>s e. gather (bt_weights (bs ! s)) (own l bs r s e)"
        "\<lambda>s e. gather (tokens_of (bs ! s)) (own l bs r s e)" f "int r * int l" n l] by simp
qed

lemma back_to_rank_major:
  assumes "0 < n"
  shows "gather (received_by n l bs X r) (argsort (major_order n l bs r)) = by_rows n l (\<lambda>s e. gather (X s) (own l bs r s e))"
  unfolding gather_major [OF assms, symmetric]
  by (rule gather_inverse [OF gather_expert_major(2) [OF assms]]) simp

lemma returned_results:
  assumes "collective n x"
  shows "x (map (\<lambda>r. by_rows n l (\<lambda>s e. gather (X s) (own l bs r s e))) [0 ..< n])
      (map (\<lambda>r. map (\<lambda>s. sum_list (map (\<lambda>e. length (own l bs r s e)) [0 ..< l])) [0 ..< n]) [0 ..< n])
      (map (\<lambda>s. map (\<lambda>r. sum_list (map (\<lambda>e. length (own l bs r s e)) [0 ..< l])) [0 ..< n]) [0 ..< n]) =
    map (\<lambda>s. gather (X s) (by_rows n l (\<lambda>q. own l bs q s))) [0 ..< n]"
  using exchange_blocks [OF assms, of "\<lambda>r s. concat (map (\<lambda>e. gather (X s) (own l bs r s e)) [0 ..< l])"]
  by (simp add: by_rows_def length_concat comp_def gather_concat)

lemma order_permutes:
  assumes "\<not> out_of_range (int (n * l)) (bt_ids (bs ! s))"
  shows "mset (by_rows n l (\<lambda>q. own l bs q s)) = mset [0 ..< length (bt_ids (bs ! s))]"
  using order_by_rows [OF assms] argsort_permutes(3) [of "bt_ids (bs ! s)"] by (simp add: own_def)

text \<open>C9. The expert-major dispatch computes the layer: after dispatching the assignments of all ranks to
  the owners of their experts, regrouping them by expert with the index arithmetic over the counts,
  applying the owned experts to consecutive segments and combining, every rank holds for each of its
  tokens the sum over the token's slots of what the chosen expert makes of it; the local dispatcher
  computes the same. Nothing is lost, duplicated or swapped, however the experts are chosen.\<close>

theorem grouped_experts_compute_layer:
  assumes "collective n xc" "collective n xv" "collective n xw"
    and "mapE (attach E n) [0 ..< n] = Inr ds" "length bs = n" "0 < n"
    and "\<forall>b \<in> set bs. well_shaped b \<and> \<not> out_of_range E (bt_ids b)"
  shows "\<exists>out. sorted_dispatch_ranks xc xv xw ds bs = Inr out \<and>
    sorted_combine_ranks vsum xv (map2 (\<lambda>r o'. apply_grouped f (int r * (E div int n)) (fst o')) [0 ..< n] out) (map snd out) =
      map (\<lambda>b. Inr (moe_reference vsum f b)) bs \<and>
    (\<forall>b \<in> set bs. bindE (sorted_dispatch (Some E) b) (\<lambda>(a, m). sorted_combine vsum (apply_grouped f 0 a) m) =
       Inr (moe_reference vsum f b))"
proof -
  let ?B = "\<lambda>s. bs ! s"
  define l where "l = nat (E div int n)"
  note at = attached_ranks [OF assms(4,6)]
  have E: "E = int (n * l)" "E div int n = int l"
    using at(1,2) assms(6) mult_div_mod_eq [of "int n" E] by (simp_all add: l_def pos_imp_zdiv_nonneg_iff)
  have B: "well_shaped (?B s)" "\<not> out_of_range E (bt_ids (?B s))" if "s < n" for s using assms(5,7) that by simp_all
  note d = sorted_dispatched [OF assms(1-6) E(1) assms(7)]
  have loc: "\<forall>b \<in> set bs. bindE (sorted_dispatch (Some E) b) (\<lambda>(a, m). sorted_combine vsum (apply_grouped f 0 a) m) =
      Inr (moe_reference vsum f b)" using assms(7) sorted_local [OF _ _ at(1)] by blast
  have back_home: "gather (gather (result_of f (?B s)) (by_rows n l (\<lambda>q. own l bs q s))) (argsort (by_rows n l (\<lambda>q. own l bs q s))) =
      result_of f (?B s)" if "s < n" for s
    using B(2) [OF that] E(1) by (intro gather_inverse [OF order_permutes]) (simp_all add: result_of_def)
  have "sorted_combine_ranks vsum xv (map2 (\<lambda>r o'. apply_grouped f (int r * (E div int n)) (fst o')) [0 ..< n] out) (map snd out) =
      map (\<lambda>s. Inr (moe_reference vsum f (?B s))) [0 ..< n]"
    if out: "sorted_dispatch_ranks xc xv xw ds bs = Inr out" for out
  proof -
    note o' = out [unfolded d, simplified sum.inject, symmetric]
    show ?thesis
      unfolding o' map2_upt map_map comp_def fst_conv snd_conv E(2) grouped_results sorted_combine_ranks_def map2_maps
        expert_metadata.select_convs option.sel back_to_rank_major [OF assms(6)] returned_results [OF assms(2)]
      by (simp add: list_ex_iff sorted_combine_def back_home reshape_reference B(1))
  qed
  moreover have "map (\<lambda>s. Inr (moe_reference vsum f (?B s)) :: 'a list result) [0 ..< n] = map (\<lambda>b. Inr (moe_reference vsum f b)) bs"
    by (rule nth_equalityI) (simp_all add: assms(5))
  ultimately show ?thesis using d loc by auto
qed

theorem grouped_experts_compute_layer_witness:
  "\<exists>out. sorted_dispatch_ranks (exchange_segments 2) (exchange_segments 2) (exchange_segments 2) demo_ranks demo_batches = Inr out \<and>
    sorted_combine_ranks sum_list (exchange_segments 2) (map2 (\<lambda>r o'. apply_grouped demo_expert (int r * 2) (fst o')) [0 ..< 2] out)
      (map snd out) = [Inr [33, 155], Inr [346]]"
proof -
  have "map (\<lambda>b. Inr (moe_reference sum_list demo_expert b) :: int list result) demo_batches = [Inr [33, 155], Inr [346]]"
    by code_simp
  then show ?thesis
    using grouped_experts_compute_layer [OF exchange_segments_collective exchange_segments_collective exchange_segments_collective
      demo_attached demo_shaped(1) _ demo_shaped(2), of sum_list demo_expert] by auto
qed

end
