(* ===== verification/Context_Parallel.thy ===== *)
theory Context_Parallel
  imports Collective
begin

text \<open>
  \<^verbatim>\<open>dsv41_train/cp.py\<close>: sharding of a sequence over the ranks of a context-parallel group, the gathering
  of what a sequence module needs (everything, or the tail of the previous rank), and the attention
  indices and masks of a packed batch. A tensor is the list of its slices along the sharded
  dimension; \<open>build_row\<close> is one row of the batch. The collectives are arguments under their contracts:
  \<open>collective\<close> for \<^verbatim>\<open>all_to_all_single\<close> and \<open>gathers\<close> for \<^verbatim>\<open>all_gather\<close>. The backward passes are left out; sums of the mean loss are exact. Main
  result: with any number of ranks every query sees exactly the keys and the mask of one process.
\<close>

section \<open>Sharding and gathering\<close>

definition shard :: "nat \<Rightarrow> nat \<Rightarrow> 'a list \<Rightarrow> 'a list result" where
  "shard n rank xs =
     (if n \<le> 1 then Inr xs
      else if length xs mod n \<noteq> 0 then Inl (ValueError ''tensor dimension must divide CP size'')
      else let l = length xs div n in Inr (take l (drop (rank * l) xs)))"

type_synonym 'a all_gather = "'a list list \<Rightarrow> 'a list list list"

definition gathers :: "nat \<Rightarrow> 'a all_gather \<Rightarrow> bool" where
  "gathers n ag \<longleftrightarrow> (\<forall>parts. length parts = n \<longrightarrow> ag parts = replicate n parts)"

text \<open>Every rank of the group calls the operation with its own slice.\<close>

definition gather_ranks :: "nat \<Rightarrow> 'a all_gather \<Rightarrow> 'a list list \<Rightarrow> 'a list list" where
  "gather_ranks n ag locals = (if n \<le> 1 then locals else map concat (ag locals))"

definition ring_exchange :: "nat \<Rightarrow> 'a exchange \<Rightarrow> (nat \<Rightarrow> nat) \<Rightarrow> (nat \<Rightarrow> nat) \<Rightarrow> 'a list list \<Rightarrow> 'a list list" where
  "ring_exchange n x send_rank recv_rank tensors =
     x tensors
       (map (\<lambda>r. (replicate n 0)[send_rank r := length (tensors ! r)]) [0 ..< n])
       (map (\<lambda>r. (replicate n 0)[recv_rank r := length (tensors ! r)]) [0 ..< n])"

definition halo_forward :: "nat \<Rightarrow> 'a exchange \<Rightarrow> nat \<Rightarrow> 'a list list \<Rightarrow> 'a list list" where
  "halo_forward n x len locals =
     (let tails = map (\<lambda>t. drop (length t - len) t) locals;
          prefixes = ring_exchange n x (\<lambda>r. (r + 1) mod n) (\<lambda>r. (r + (n - 1)) mod n) tails
      in map (\<lambda>r. if r = 0 then locals ! 0 else prefixes ! r @ locals ! r) [0 ..< n])"

definition left_halo_ranks :: "nat \<Rightarrow> 'a exchange \<Rightarrow> int \<Rightarrow> 'a list list \<Rightarrow> 'a list list result" where
  "left_halo_ranks n x len locals =
     (if n \<le> 1 \<or> len = 0 then Inr locals
      else if list_ex (\<lambda>t. len < 0 \<or> len > int (length t)) locals then Inl (ValueError ''halo length out of range'')
      else Inr (halo_forward n x (nat len) locals))"

section \<open>The context of one row\<close>

record row_context =
  rw_input_ids :: "int list"
  rw_positions :: "nat list"
  rw_token_mask :: "bool list"
  rw_sequence_ids :: "int list"
  rw_attention_indices :: "int list list"
  rw_attention_mask :: "bool list list"
  rw_halo_length :: nat

fun cummax :: "nat \<Rightarrow> nat list \<Rightarrow> nat list" where
  "cummax m [] = []"
| "cummax m (x # xs) = max m x # cummax (max m x) xs"

definition sequence_starts :: "bool list \<Rightarrow> int list \<Rightarrow> bool list" where
  "sequence_starts tmask ids = map2 (\<and>) tmask (map2 (\<noteq>) ids (butlast (-1 # ids)))"

definition row_positions :: "bool list \<Rightarrow> int list \<Rightarrow> nat list" where
  "row_positions tmask ids =
     (let firsts = map2 (\<lambda>s i. if s then i else 0) (sequence_starts tmask ids) [0 ..< length ids]
      in map2 (\<lambda>m p. if m then p else 0) tmask (map2 (-) [0 ..< length ids] (cummax 0 firsts)))"

definition key_indices :: "nat \<Rightarrow> nat \<Rightarrow> int list" where
  "key_indices window q = map (\<lambda>k. int q - int k) (rev [0 ..< window])"

definition build_row :: "nat \<Rightarrow> nat \<Rightarrow> nat \<Rightarrow> int list \<Rightarrow> bool list \<Rightarrow> int list \<Rightarrow> row_context result" where
  "build_row n rank window input_ids tmask ids =
     bindE (shard n rank [0 ..< length input_ids]) (\<lambda>local_indices.
     bindE (shard n rank input_ids) (\<lambda>local_input.
     bindE (shard n rank (row_positions tmask ids)) (\<lambda>local_positions.
     bindE (shard n rank tmask) (\<lambda>local_mask.
     bindE (shard n rank ids) (\<lambda>local_ids.
       let global_keys = map (key_indices window) local_indices;
           valid = map (map (\<lambda>k. k \<ge> 0)) global_keys;
           clamped = map (map nat) global_keys;
           local_length = length local_input;
           halo = (if n > 1 \<and> window - 1 \<le> local_length then window - 1 else 0);
           indices = (if halo > 0
                      then map (map (\<lambda>k. int k - int (rank * local_length) + int (if rank = 0 then 0 else halo))) clamped
                      else map (map int) clamped);
           attention_mask = map2 (\<lambda>(m, s) (vs, ks). map2 (\<lambda>v k. v \<and> tmask ! k \<and> m \<and> s = ids ! k) vs ks)
                              (zip local_mask local_ids) (zip valid clamped)
       in Inr \<lparr>rw_input_ids = local_input, rw_positions = local_positions, rw_token_mask = local_mask, rw_sequence_ids = local_ids,
               rw_attention_indices = indices, rw_attention_mask = attention_mask, rw_halo_length = halo\<rparr>)))))"

text \<open>\<^verbatim>\<open>gather_attention\<close> on every rank; the contexts of the ranks agree on the halo.\<close>

definition gather_attention_ranks ::
  "nat \<Rightarrow> 'a exchange \<Rightarrow> 'a all_gather \<Rightarrow> nat \<Rightarrow> 'a list list \<Rightarrow> 'a list list result" where
  "gather_attention_ranks n x ag halo locals =
     (if halo > 0 then left_halo_ranks n x (int halo) locals else Inr (gather_ranks n ag locals))"

definition pack_sequences :: "'a list list \<Rightarrow> 'a list \<times> nat list" where
  "pack_sequences rows =
     (concat rows, concat (map2 (\<lambda>i row. replicate (length row) i) [0 ..< length rows] rows))"

section \<open>The mean loss\<close>

text \<open>What one rank returns, given the sums over all ranks: the value, and the part that carries the
  gradient.\<close>

definition mean_loss :: "nat \<Rightarrow> rat \<Rightarrow> rat \<Rightarrow> rat \<Rightarrow> rat \<Rightarrow> rat \<times> rat" where
  "mean_loss n local_sum local_count all_sum all_count =
     (if n \<le> 1 then (local_sum / max local_count 1, local_sum / max local_count 1)
      else let c = max all_count 1; backward = local_sum * (of_nat n / c); value = all_sum / c
        in (backward + (value - backward), backward))"

section \<open>Slices\<close>

lemma shard_slice:
  assumes "r < n" "length xs mod n = 0"
  shows "shard n r xs = Inr (take (length xs div n) (drop (r * (length xs div n)) xs))"
  using assms by (cases "n = 1") (simp_all add: shard_def Let_def)

lemma slice_bound: "r < n \<Longrightarrow> m mod n = 0 \<Longrightarrow> r * (m div n) + m div n \<le> m" for m :: nat
  using mult_le_mono1 [of "Suc r" n "m div n"] by (auto simp: mult.commute)

lemma slice_facts:
  assumes "r < n" "length xs mod n = 0"
  shows "length (take (length xs div n) (drop (r * (length xs div n)) xs)) = length xs div n"
    "i < length xs div n \<Longrightarrow> take (length xs div n) (drop (r * (length xs div n)) xs) ! i = xs ! (r * (length xs div n) + i)"
  using slice_bound [OF assms] by simp_all

lemma slices_concat:
  assumes "length xs mod n = 0" "0 < n"
  shows "concat (map (\<lambda>r. take (length xs div n) (drop (r * (length xs div n)) xs)) [0 ..< n]) = xs"
proof -
  let ?l = "length xs div n"
  have "concat (map (\<lambda>r. take ?l (drop (r * ?l) xs)) [0 ..< m]) = take (m * ?l) xs" for m
  proof (induction m)
    case (Suc m)
    have "take (m * ?l + ?l) xs = take (m * ?l) xs @ take ?l (drop (m * ?l) xs)" by (rule take_add)
    then show ?case using Suc by (simp add: add.commute)
  qed simp
  from this [of n] show ?thesis using assms by auto
qed

section \<open>The ring\<close>

lemma concat_single:
  assumes "p < n"
  shows "concat (map (\<lambda>i. if i = p then v i else []) [0 ..< n]) = v p"
proof -
  have "[0 ..< n] = [0 ..< p] @ p # [Suc p ..< n]" using assms upt_add_eq_append [of 0 p "n - p"] by (simp add: upt_conv_Cons)
  note split = this
  have e: "concat (map (\<lambda>i. if i = p then v i else []) [0 ..< p]) = []"
    "concat (map (\<lambda>i. if i = p then v i else []) [Suc p ..< n]) = []" by auto
  show ?thesis unfolding split map_append concat_append list.map concat.simps e by simp
qed

lemma ring_inverse:
  fixes n :: nat
  assumes "1 < n" "r < n" "s < n"
  shows "r = (s + 1) mod n \<longleftrightarrow> s = (r + (n - 1)) mod n"
proof -
  have "(s + 1) mod n = (if s = n - 1 then 0 else s + 1)" using assms by auto
  moreover have "(r + (n - 1)) mod n = (if r = 0 then n - 1 else r - 1)"
  proof (cases "r = 0")
    case False
    then have "r + (n - 1) = (r - 1) + n" using assms(1) by simp
    then have "(r + (n - 1)) mod n = (r - 1) mod n" by (simp only: mod_add_self2)
    then show ?thesis using False assms(2) by simp
  qed (use assms in simp)
  ultimately show ?thesis using assms by auto
qed

lemma one_split: "p < n \<Longrightarrow> (replicate n 0)[p := h] = map (\<lambda>q. if q = p then h else 0) [0 ..< n]"
  by (rule nth_equalityI) (simp_all add: nth_list_update)

lemma ring_blocks:
  assumes "collective n x" "1 < n" "length ts = n" "\<forall>r < n. length (ts ! r) = h"
  shows "ring_exchange n x (\<lambda>r. (r + 1) mod n) (\<lambda>r. (r + (n - 1)) mod n) ts = map (\<lambda>r. ts ! ((r + (n - 1)) mod n)) [0 ..< n]"
proof -
  let ?blk = "\<lambda>s r. if r = (s + 1) mod n then ts ! s else []"
  have bufs: "map (\<lambda>s. concat (map (?blk s) [0 ..< n])) [0 ..< n] = ts"
    using concat_single [of "(s + 1) mod n" n "\<lambda>_. ts ! s" for s] assms(2,3) by (intro nth_equalityI) simp_all
  have ins: "map (\<lambda>s. map (\<lambda>r. length (?blk s r)) [0 ..< n]) [0 ..< n] =
      map (\<lambda>r. (replicate n 0)[(r + 1) mod n := length (ts ! r)]) [0 ..< n]"
    using assms(2) by (intro map_cong refl) (simp add: one_split if_distrib cong: if_cong)
  have outs: "map (\<lambda>r. map (\<lambda>s. length (?blk s r)) [0 ..< n]) [0 ..< n] =
      map (\<lambda>r. (replicate n 0)[(r + (n - 1)) mod n := length (ts ! r)]) [0 ..< n]"
  proof (rule map_cong)
    fix r
    assume "r \<in> set [0 ..< n]"
    then have r: "r < n" by simp
    have "length (?blk s r) = (if s = (r + (n - 1)) mod n then length (ts ! r) else 0)" if "s < n" for s
      using ring_inverse [OF assms(2) r that] assms(4) r that by simp
    then show "map (\<lambda>s. length (?blk s r)) [0 ..< n] = (replicate n 0)[(r + (n - 1)) mod n := length (ts ! r)]"
      using assms(2) by (simp add: one_split)
  qed simp
  have "concat (map (\<lambda>s. ?blk s r) [0 ..< n]) = ts ! ((r + (n - 1)) mod n)" if "r < n" for r
  proof -
    have "map (\<lambda>s. ?blk s r) [0 ..< n] = map (\<lambda>s. if s = (r + (n - 1)) mod n then ts ! s else []) [0 ..< n]"
      using ring_inverse [OF assms(2) that] by (intro map_cong refl) simp
    then show ?thesis using concat_single [of "(r + (n - 1)) mod n" n "\<lambda>s. ts ! s"] assms(2) by (simp only: mod_less_divisor)
  qed
  then show ?thesis
    unfolding ring_exchange_def using exchange_blocks [OF assms(1), of ?blk] unfolding bufs ins outs by simp
qed

section \<open>Keys under a halo or a full gather\<close>

lemma halo_ranks:
  fixes K :: "'a list"
  assumes "collective n x" "1 < n" "length K mod n = 0" "0 < h" "h \<le> length K div n"
  defines "l \<equiv> length K div n"
  defines "slice \<equiv> \<lambda>r. take l (drop (r * l) K)"
  shows "left_halo_ranks n x (int h) (map slice [0 ..< n]) =
    Inr (map (\<lambda>r. if r = 0 then take l K else drop (r * l - h) (take (r * l + l) K)) [0 ..< n])"
proof -
  have len: "length (slice r) = l" if "r < n" for r
    using slice_facts(1) [OF that assms(3)] by (simp add: slice_def l_def)
  have tails: "map (\<lambda>t. drop (length t - h) t) (map slice [0 ..< n]) = map (\<lambda>r. drop (l - h) (slice r)) [0 ..< n]"
    using len by simp
  have ring: "ring_exchange n x (\<lambda>r. (r + 1) mod n) (\<lambda>r. (r + (n - 1)) mod n) (map (\<lambda>r. drop (l - h) (slice r)) [0 ..< n]) =
      map (\<lambda>r. drop (l - h) (slice ((r + (n - 1)) mod n))) [0 ..< n]"
    using ring_blocks [OF assms(1,2), of "map (\<lambda>r. drop (l - h) (slice r)) [0 ..< n]" h] len assms(2,5)
    by (simp add: l_def)
  have "drop (l - h) (slice ((r + (n - 1)) mod n)) @ slice r = drop (r * l - h) (take (r * l + l) K)" if r: "r < n" "r \<noteq> 0" for r
  proof -
    have "r + (n - 1) = (r - 1) + n" using r(2) assms(2) by simp
    then have prev: "(r + (n - 1)) mod n = r - 1" using r by (simp only: mod_add_self2) simp
    obtain p where p: "r = Suc p" using r(2) by (cases r) auto
    have "drop (l - h) (slice p) = drop (p * l + l - h) (take (r * l) K)"
      using assms(5) by (simp add: slice_def drop_take p l_def add.commute)
    moreover have "drop (r * l - h) (take (r * l + l) K) = drop (r * l - h) (take (r * l) K) @ slice r"
    proof -
      have "take (r * l + l) K = take (r * l) K @ take l (drop (r * l) K)" by (rule take_add)
      moreover have "r * l - h \<le> length (take (r * l) K)" using slice_bound [OF r(1) assms(3)] by (simp add: l_def)
      ultimately show ?thesis by (simp add: slice_def)
    qed
    ultimately show ?thesis unfolding prev using p by (simp add: add.commute)
  qed
  then show ?thesis
    unfolding left_halo_ranks_def halo_forward_def Let_def nat_int tails ring
    using assms(2,4,5) len by (auto simp: list_ex_iff slice_def l_def)
qed

lemma nth_halo:
  assumes "r < n" "0 < r" "length K mod n = 0" "h \<le> length K div n" "r * (length K div n) - h \<le> k" "k < r * (length K div n) + length K div n"
  shows "drop (r * (length K div n) - h) (take (r * (length K div n) + length K div n) K) ! (k + h - r * (length K div n)) = K ! k"
    "k + h - r * (length K div n) < length (drop (r * (length K div n) - h) (take (r * (length K div n) + length K div n) K))"
proof -
  let ?l = "length K div n"
  have "?l \<le> r * ?l" using assms(2) by simp
  then have "h \<le> r * ?l" using assms(4) by linarith
  then show "drop (r * ?l - h) (take (r * ?l + ?l) K) ! (k + h - r * ?l) = K ! k"
    "k + h - r * ?l < length (drop (r * ?l - h) (take (r * ?l + ?l) K))"
    using slice_bound [OF assms(1,3)] assms(5,6) by simp_all
qed

section \<open>Every rank sees what one process sees\<close>

definition slice_of :: "nat \<Rightarrow> nat \<Rightarrow> 'a list \<Rightarrow> 'a list" where
  "slice_of l r xs = take l (drop (r * l) xs)"

definition clamped_keys :: "nat \<Rightarrow> nat \<Rightarrow> nat list list" where
  "clamped_keys window len = map (\<lambda>q. map nat (key_indices window q)) [0 ..< len]"

definition full_mask :: "nat \<Rightarrow> bool list \<Rightarrow> int list \<Rightarrow> bool list list" where
  "full_mask window tmask ids =
     map2 (\<lambda>(m, s) (vs, ks). map2 (\<lambda>v k. v \<and> tmask ! k \<and> m \<and> s = ids ! k) vs ks) (zip tmask ids)
       (zip (map (\<lambda>q. map (\<lambda>k. k \<ge> 0) (key_indices window q)) [0 ..< length ids]) (clamped_keys window (length ids)))"

definition halo_of :: "nat \<Rightarrow> nat \<Rightarrow> nat \<Rightarrow> nat" where
  "halo_of n window l = (if n > 1 \<and> window - 1 \<le> l then window - 1 else 0)"

definition key_shift :: "nat \<Rightarrow> nat \<Rightarrow> nat \<Rightarrow> int" where
  "key_shift halo l r = (if halo > 0 then int (r * l) - int (if r = 0 then 0 else halo) else 0)"

lemma length_row_positions: "length tmask = length ids \<Longrightarrow> length (row_positions tmask ids) = length ids"
proof -
  have "length (cummax m xs) = length xs" for m xs by (induction xs arbitrary: m) simp_all
  then show "length tmask = length ids \<Longrightarrow> length (row_positions tmask ids) = length ids"
    by (simp add: row_positions_def sequence_starts_def Let_def)
qed

lemma build_row_slice:
  assumes "r < n" "length toks = len" "length tmask = len" "length ids = len" "len mod n = 0"
  defines "l \<equiv> len div n"
  shows "build_row n r window toks tmask ids =
    Inr \<lparr>rw_input_ids = slice_of l r toks, rw_positions = slice_of l r (row_positions tmask ids),
         rw_token_mask = slice_of l r tmask, rw_sequence_ids = slice_of l r ids,
         rw_attention_indices = map (map (\<lambda>k. int k - key_shift (halo_of n window l) l r)) (slice_of l r (clamped_keys window len)),
         rw_attention_mask = slice_of l r (full_mask window tmask ids), rw_halo_length = halo_of n window l\<rparr>"
proof -
  have cut: "shard n r xs = Inr (slice_of l r xs)" if "length xs = len" for xs :: "'b list"
    using shard_slice [OF assms(1), of xs] assms(5) that by (simp add: slice_of_def l_def)
  have len: "length (slice_of l r toks) = l"
    using slice_facts(1) [OF assms(1), of toks] assms(2,5) by (simp add: slice_of_def l_def)
  have mapped: "map f (slice_of l r xs) = slice_of l r (map f xs)" for f :: "'c \<Rightarrow> 'd" and xs
    by (simp add: slice_of_def take_map drop_map)
  have zipped: "zip (slice_of l r xs) (slice_of l r ys) = slice_of l r (zip xs ys)" for xs :: "'e list" and ys :: "'f list"
    by (simp add: slice_of_def take_zip drop_zip)
  show ?thesis
    using cut [of "[0 ..< length toks]"] cut [of toks] cut [of tmask] cut [of ids] cut [of "row_positions tmask ids"]
      assms(2-4) length_row_positions [of tmask ids]
    by (simp add: build_row_def Let_def len halo_of_def key_shift_def mapped zipped full_mask_def clamped_keys_def comp_def
        algebra_simps)
qed

text \<open>What a query of a row reads: the keys at its indices, which lie inside the gathered keys.\<close>

definition attended :: "'a list \<Rightarrow> row_context \<Rightarrow> 'a list list" where
  "attended ks ctx = map (map (\<lambda>k. ks ! nat k)) (rw_attention_indices ctx)"

definition indices_inside :: "'a list \<Rightarrow> row_context \<Rightarrow> bool" where
  "indices_inside ks ctx = list_all (list_all (\<lambda>k. 0 \<le> k \<and> k < int (length ks))) (rw_attention_indices ctx)"

definition rank_keys :: "nat \<Rightarrow> nat \<Rightarrow> nat \<Rightarrow> 'a list \<Rightarrow> 'a list" where
  "rank_keys halo l r ks =
     (if halo = 0 then ks else if r = 0 then take l ks else drop (r * l - halo) (take (r * l + l) ks))"

lemma gathered_keys:
  assumes "collective n x" "gathers n ag" "0 < n" "length ks mod n = 0"
  defines "l \<equiv> length ks div n"
  shows "gather_attention_ranks n x ag (halo_of n window l) (map (\<lambda>r. slice_of l r ks) [0 ..< n]) =
    Inr (map (\<lambda>r. rank_keys (halo_of n window l) l r ks) [0 ..< n])"
proof (cases "halo_of n window l = 0")
  case True
  have all: "concat (map (\<lambda>r. slice_of l r ks) [0 ..< n]) = ks"
    using slices_concat [OF assms(4,3)] by (simp add: slice_of_def l_def)
  show ?thesis
  proof (cases "n = 1")
    case False
    have "ag (map (\<lambda>r. slice_of l r ks) [0 ..< n]) = replicate n (map (\<lambda>r. slice_of l r ks) [0 ..< n])"
      using assms(2) by (simp add: gathers_def)
    then show ?thesis
      using True False assms(3) all
      by (simp add: gather_attention_ranks_def gather_ranks_def rank_keys_def map_replicate_const)
  qed (use True all in \<open>simp add: gather_attention_ranks_def gather_ranks_def rank_keys_def\<close>)
next
  case False
  then have n: "1 < n" "0 < halo_of n window l" "halo_of n window l \<le> l" by (auto simp: halo_of_def split: if_splits)
  then show ?thesis
    using halo_ranks [OF assms(1) n(1) assms(4) n(2), folded l_def]
    by (simp add: gather_attention_ranks_def rank_keys_def slice_of_def)
qed

lemma shifted_key:
  assumes "r < n" "length ks mod n = 0" "i < length ks div n" "k \<in> set (clamped_keys window (length ks) ! (r * (length ks div n) + i))"
  defines "l \<equiv> length ks div n"
  defines "halo \<equiv> halo_of n window l"
  shows "0 \<le> int k - key_shift halo l r \<and> nat (int k - key_shift halo l r) < length (rank_keys halo l r ks) \<and>
    rank_keys halo l r ks ! nat (int k - key_shift halo l r) = ks ! k"
proof -
  have bound: "r * l + l \<le> length ks" using slice_bound [OF assms(1,2)] by (simp add: l_def)
  then have "r * l + i < length ks" using assms(3) by (simp add: l_def)
  then obtain j where j: "j < window" "k = nat (int (r * l + i) - int j)"
    using assms(4) by (auto simp: clamped_keys_def key_indices_def l_def)
  have k: "k \<le> r * l + i" "r * l + i \<le> k + (window - 1)" "i < l" using j assms(3) unfolding l_def by linarith+
  consider "halo = 0" | "0 < halo" "r = 0" | "0 < halo" "0 < r" by auto
  then show ?thesis
  proof cases
    case 1
    then show ?thesis using k bound by (simp add: key_shift_def rank_keys_def)
  next
    case 2
    then show ?thesis using k bound by (simp add: key_shift_def rank_keys_def)
  next
    case 3
    have h: "halo = window - 1" "halo \<le> l" using 3(1) by (auto simp: halo_def halo_of_def split: if_splits)
    have "l \<le> r * l" using 3(2) by simp
    then have le: "halo \<le> r * l" "r * l - halo \<le> k" using h k by linarith+
    have "k < r * l + l" using k by simp
    note facts = nth_halo [OF assms(1) 3(2) assms(2), of halo k, folded l_def, OF h(2) le(2) this]
    have shift: "int k - key_shift halo l r = int (k + halo - r * l)" using 3 le k by (simp add: key_shift_def of_nat_diff)
    show ?thesis unfolding shift using facts 3 by (simp add: rank_keys_def)
  qed
qed

text \<open>
  C11. Context parallelism is transparent. For any number of ranks that divides the sequence and any
  window, when \<^verbatim>\<open>all_to_all_single\<close> and \<^verbatim>\<open>all_gather\<close> do what they document, \<open>ModelContext.build\<close>
  succeeds on every rank with one common halo, \<open>gather_attention\<close> succeeds, every attention index of
  every rank lies inside the keys that rank gathered, and the keys read, the masks, the positions and
  the ids of the ranks, put one after the other, are those of a single process.
\<close>
theorem context_parallel_attention:
  assumes "collective n x" "gathers n ag" "0 < n" "0 < window" "length toks = length ks" "length tmask = length ks"
    "length ids = length ks" "length ks mod n = 0"
  shows "\<exists>one ctxs gathered. build_row 1 0 window toks tmask ids = Inr one \<and> rw_halo_length one = 0 \<and>
    length ctxs = n \<and> length gathered = n \<and>
    (\<forall>r \<in> {0 ..< n}. build_row n r window toks tmask ids = Inr (ctxs ! r) \<and>
       rw_halo_length (ctxs ! r) = rw_halo_length (ctxs ! 0) \<and> indices_inside (gathered ! r) (ctxs ! r)) \<and>
    gather_attention_ranks n x ag (rw_halo_length (ctxs ! 0))
      (map (\<lambda>r. take (length ks div n) (drop (r * (length ks div n)) ks)) [0 ..< n]) = Inr gathered \<and>
    concat (map2 attended gathered ctxs) = attended ks one \<and>
    concat (map rw_attention_mask ctxs) = rw_attention_mask one \<and>
    concat (map rw_positions ctxs) = rw_positions one \<and>
    concat (map rw_input_ids ctxs) = toks"
proof -
  define l where "l = length ks div n"
  define halo where "halo = halo_of n window l"
  define row where "row r = \<lparr>rw_input_ids = slice_of l r toks, rw_positions = slice_of l r (row_positions tmask ids),
     rw_token_mask = slice_of l r tmask, rw_sequence_ids = slice_of l r ids,
     rw_attention_indices = map (map (\<lambda>k. int k - key_shift halo l r)) (slice_of l r (clamped_keys window (length ks))),
     rw_attention_mask = slice_of l r (full_mask window tmask ids), rw_halo_length = halo\<rparr>" for r
  define one where "one = \<lparr>rw_input_ids = toks, rw_positions = row_positions tmask ids, rw_token_mask = tmask, rw_sequence_ids = ids,
     rw_attention_indices = map (map int) (clamped_keys window (length ks)),
     rw_attention_mask = full_mask window tmask ids, rw_halo_length = 0\<rparr>"
  let ?ctxs = "map row [0 ..< n]" and ?keys = "map (\<lambda>r. rank_keys halo l r ks) [0 ..< n]"
  have built: "build_row n r window toks tmask ids = Inr (row r)" if "r < n" for r
    using build_row_slice [OF that assms(5-8)] by (simp add: row_def l_def halo_def)
  have single: "build_row 1 0 window toks tmask ids = Inr one"
    using build_row_slice [of 0 1 toks "length ks" tmask ids window] assms(5-7) length_row_positions [of tmask ids]
    by (simp add: one_def slice_of_def halo_of_def key_shift_def clamped_keys_def full_mask_def)
  have all: "concat (map (\<lambda>r. slice_of l r xs) [0 ..< n]) = xs" if "length xs = length ks" for xs :: "'b list"
    using slices_concat [of xs n] assms(3,8) that by (simp add: slice_of_def l_def)
  have keys: "gather_attention_ranks n x ag halo (map (\<lambda>r. take l (drop (r * l) ks)) [0 ..< n]) = Inr ?keys"
    using gathered_keys [OF assms(1-3,8), of window] by (simp add: slice_of_def l_def halo_def)
  have slices: "\<exists>i < l. row_keys = clamped_keys window (length ks) ! (r * l + i)"
    if "r < n" "row_keys \<in> set (slice_of l r (clamped_keys window (length ks)))" for r row_keys
  proof -
    have "length (clamped_keys window (length ks)) = length ks" by (simp add: clamped_keys_def)
    then show ?thesis
      using that slice_facts [OF that(1), of "clamped_keys window (length ks)"] assms(8)
      by (fastforce simp: slice_of_def l_def in_set_conv_nth)
  qed
  have shifted: "0 \<le> int k - key_shift halo l r \<and> nat (int k - key_shift halo l r) < length (rank_keys halo l r ks) \<and>
      rank_keys halo l r ks ! nat (int k - key_shift halo l r) = ks ! k"
    if "r < n" "row_keys \<in> set (slice_of l r (clamped_keys window (length ks)))" "k \<in> set row_keys" for r row_keys k
    using slices [OF that(1,2)] shifted_key [OF that(1) assms(8)] that(3) by (auto simp: l_def halo_def)
  have inside: "indices_inside (rank_keys halo l r ks) (row r)" if "r < n" for r
    using shifted [OF that] by (fastforce simp: indices_inside_def row_def list_all_iff)
  have "attended (rank_keys halo l r ks) (row r) = slice_of l r (attended ks one)" if "r < n" for r
    using shifted [OF that]
    by (simp add: attended_def row_def one_def comp_def slice_of_def take_map drop_map cong: map_cong)
  then have "concat (map (\<lambda>r. attended (rank_keys halo l r ks) (row r)) [0 ..< n]) = concat (map (\<lambda>r. slice_of l r (attended ks one)) [0 ..< n])"
    by (intro arg_cong [where f = concat] map_cong) simp_all
  then have seen: "concat (map2 attended ?keys ?ctxs) = attended ks one"
    using all [of "attended ks one"] by (simp add: attended_def one_def clamped_keys_def zip_map_map zip_same_conv_map comp_def)
  show ?thesis
    using built single keys inside seen assms(3,5-7) length_row_positions [of tmask ids] all [of toks]
      all [of "row_positions tmask ids"] all [of "full_mask window tmask ids"]
    apply (intro exI [of _ one] exI [of _ ?ctxs] exI [of _ ?keys])
    apply (simp add: row_def one_def comp_def full_mask_def clamped_keys_def l_def)
    done
qed

lemma context_parallel_attention_witness:
  "\<exists>one ctxs gathered. build_row 1 0 2 [5, 6, 7, 8] [True, True, True, False] [0, 0, 1, 1] = Inr one \<and> length ctxs = 2 \<and>
    gather_attention_ranks 2 (exchange_segments 2) (\<lambda>parts. replicate 2 parts) (rw_halo_length (ctxs ! 0)) [[10, 11], [12, 13 :: nat]] =
      Inr gathered \<and> concat (map2 attended gathered ctxs) = attended [10, 11, 12, 13] one \<and>
    concat (map rw_attention_mask ctxs) = rw_attention_mask one"
proof -
  have ag: "gathers 2 (\<lambda>parts :: nat list list. replicate 2 parts)" by (simp add: gathers_def)
  have parts: "map (\<lambda>r. take (length [10, 11, 12, 13 :: nat] div 2) (drop (r * (length [10, 11, 12, 13 :: nat] div 2)) [10, 11, 12, 13])) [0 ..< 2] =
    [[10, 11], [12, 13]]" by (simp add: upt_rec)
  have "\<exists>one ctxs gathered. build_row 1 0 2 [5, 6, 7, 8] [True, True, True, False] [0, 0, 1, 1] = Inr one \<and> rw_halo_length one = 0 \<and>
      length ctxs = 2 \<and> length gathered = 2 \<and>
      (\<forall>r \<in> {0 ..< 2}. build_row 2 r 2 [5, 6, 7, 8] [True, True, True, False] [0, 0, 1, 1] = Inr (ctxs ! r) \<and>
        rw_halo_length (ctxs ! r) = rw_halo_length (ctxs ! 0) \<and> indices_inside (gathered ! r) (ctxs ! r)) \<and>
      gather_attention_ranks 2 (exchange_segments 2) (\<lambda>parts. replicate 2 parts) (rw_halo_length (ctxs ! 0))
        [[10, 11], [12, 13 :: nat]] = Inr gathered \<and>
      concat (map2 attended gathered ctxs) = attended [10, 11, 12, 13] one \<and>
      concat (map rw_attention_mask ctxs) = rw_attention_mask one \<and>
      concat (map rw_positions ctxs) = rw_positions one \<and> concat (map rw_input_ids ctxs) = [5, 6, 7, 8]"
    using context_parallel_attention [OF exchange_segments_collective [of 2] ag, of 2 "[5, 6, 7, 8]" "[10, 11, 12, 13 :: nat]"
      "[True, True, True, False]" "[0, 0, 1, 1]", unfolded parts] by simp
  then show ?thesis by blast
qed

section \<open>The mean over the ranks\<close>

text \<open>Every rank reports the global mean, and the average that FSDP takes of the parts that carry the
  gradient is that mean too (exact arithmetic in place of floats).\<close>

lemma mean_loss_ranks:
  assumes "length ss = n" "length cs = n" "1 < n"
  defines "out \<equiv> map (\<lambda>r. mean_loss n (ss ! r) (cs ! r) (sum_list ss) (sum_list cs)) [0 ..< n]"
  shows "list_all (\<lambda>(value, _). value = sum_list ss / max (sum_list cs) 1) out"
    "sum_list (map snd out) / of_nat n = sum_list ss / max (sum_list cs) 1"
proof -
  show "list_all (\<lambda>(value, _). value = sum_list ss / max (sum_list cs) 1) out"
    using assms(3) by (auto simp: out_def list_all_iff mean_loss_def Let_def)
  let ?c = "max (sum_list cs) 1"
  have "map snd out = map (\<lambda>s. s * (of_nat n / ?c)) ss"
    using assms(1,3) by (intro nth_equalityI) (simp_all add: out_def mean_loss_def Let_def)
  then have "sum_list (map snd out) = sum_list ss * (of_nat n / ?c)" by (simp only: sum_list_mult_const list.map_ident)
  then show "sum_list (map snd out) / of_nat n = sum_list ss / ?c" using assms(3) by simp
qed

lemma mean_loss_single: "mean_loss 1 s c total_sum total_count = (s / max c 1, s / max c 1)"
  by (simp add: mean_loss_def)

end
