(* ===== verification/Chat_Encoding.thy ===== *)
theory Chat_Encoding
  imports Training
begin

text \<open>
  \<^verbatim>\<open>dsv41_train/rl/tokenizer.py\<close>: which prompts, conversations and tool definitions are turned into
  tokens. The check of a conversation is a state machine over its messages whose state is the set of
  tool calls that still wait for a result; the main result is that it accepts exactly the
  conversations of a grammar of turns. The tokenizer library (\<open>ck_apply\<close>, \<open>ck_encode\<close>) and the JSON
  reader are arguments. Objects have string keys. Loading the tokenizer files is left out.
\<close>

section \<open>Checkpoint tokens\<close>

record chat_tokenizer =
  ck_template :: "string option"
  ck_vocabulary :: "int list"
  ck_eos :: "int list"
  ck_apply :: "json list \<Rightarrow> json \<Rightarrow> bool \<Rightarrow> dict \<Rightarrow> json result"
  ck_encode :: "string \<Rightarrow> int list result"

definition token_ids :: "string \<Rightarrow> json \<Rightarrow> int list result" where
  "token_ids name value =
     (let values = (case value of JList xs \<Rightarrow> xs | v \<Rightarrow> [v]) in
      if values = [] \<or> list_ex (\<lambda>v. case v of JInt i \<Rightarrow> i < 0 | _ \<Rightarrow> True) values
      then Inl (ValueError (name @ '' must be a nonnegative integer or a nonempty list of them''))
      else Inr (rev (remdups (rev (map (\<lambda>v. case v of JInt i \<Rightarrow> i | _ \<Rightarrow> 0) values)))))"

definition text_config :: "dict \<Rightarrow> dict result" where
  "text_config config =
     (case dget_default config ''text_config'' (JObj []) of
        JObj d \<Rightarrow> Inr d
      | _ \<Rightarrow> Inl (ValueError ''config.json text_config must be an object''))"

definition read_eos_token_ids :: "dict \<Rightarrow> dict \<Rightarrow> json \<Rightarrow> int list result" where
  "read_eos_token_ids generation config fallback =
     bindE (text_config config) (\<lambda>inner.
       case find (\<lambda>src. dget src ''eos_token_id'' \<noteq> JNull) [generation, config, inner] of
         Some src \<Rightarrow> token_ids ''eos_token_id'' (dget src ''eos_token_id'')
       | None \<Rightarrow> if fallback = JNull then Inr [] else token_ids ''eos_token_id'' fallback)"

definition validate_ids :: "chat_tokenizer \<Rightarrow> json list \<Rightarrow> int list result" where
  "validate_ids tk xs =
     mapE (\<lambda>v. case v of
        JInt i \<Rightarrow> if i \<in> set (ck_vocabulary tk) then Inr i
                  else Inl (ValueError ''chat template token IDs contains an ID outside the tokenizer vocabulary'')
      | _ \<Rightarrow> Inl (ValueError ''chat template token IDs contains an ID outside the tokenizer vocabulary'')) xs"

definition encode_template :: "chat_tokenizer \<Rightarrow> json list \<Rightarrow> json \<Rightarrow> bool \<Rightarrow> dict \<Rightarrow> int list result" where
  "encode_template tk messages tools add_generation_prompt options =
     (case ck_apply tk messages tools add_generation_prompt options of
        Inl e \<Rightarrow> Inl (ValueError ''cannot render checkpoint chat template'')
      | Inr (JList (v # vs)) \<Rightarrow> validate_ids tk (v # vs)
      | Inr _ \<Rightarrow> Inl (ValueError ''chat template must produce a nonempty flat list of token IDs''))"

section \<open>Messages\<close>

definition blank :: "string \<Rightarrow> bool" where
  "blank s \<longleftrightarrow> strip s = []"

fun text_of :: "json \<Rightarrow> string option" where
  "text_of (JStr s) = Some s"
| "text_of _ = None"

definition blank_text :: "json \<Rightarrow> bool" where
  "blank_text v \<longleftrightarrow> (case v of JStr s \<Rightarrow> blank s | _ \<Rightarrow> True)"

text \<open>\<^verbatim>\<open>_chat_template\<close>: the text of the template file, or what the tokenizer's configuration names.\<close>

fun template_choices :: "json list \<Rightarrow> dict \<Rightarrow> dict result" where
  "template_choices [] chosen = Inr chosen"
| "template_choices (entry # entries) chosen =
     (case (entry, dget (fields_of entry) ''name'', map_of (fields_of entry) ''template'') of
        (JObj d, JStr name, Some t) \<Rightarrow>
          if name \<in> set (map fst chosen) then Inl (ValueError ''chat template list must contain unique named templates'')
          else template_choices entries (chosen @ [(name, t)])
      | _ \<Rightarrow> Inl (ValueError ''chat template list must contain unique named templates''))"

definition default_template :: "dict \<Rightarrow> json result" where
  "default_template d =
     (case map_of d ''default'' of
        None \<Rightarrow> Inl (ValueError ''named chat templates require an unambiguous default chat template'')
      | Some t \<Rightarrow>
          if list_ex (\<lambda>p. \<not> is_str (snd p)) d
          then Inl (ValueError ''named chat templates require an unambiguous default chat template'')
          else Inr t)"

definition template_text :: "json \<Rightarrow> string option result" where
  "template_text v = (if blank_text v then Inl (ValueError ''chat template must be a nonempty string'') else Inr (text_of v))"

definition chat_template :: "string option \<Rightarrow> dict \<Rightarrow> string option result" where
  "chat_template file config =
     (case file of
        Some t \<Rightarrow> template_text (JStr t)
      | None \<Rightarrow>
          (case dget config ''chat_template'' of
             JNull \<Rightarrow> Inr None
           | JList entries \<Rightarrow> bindE (template_choices entries []) (\<lambda>d. bindE (default_template d) template_text)
           | JObj d \<Rightarrow> bindE (default_template d) template_text
           | v \<Rightarrow> template_text v))"

definition extra_keys :: "dict \<Rightarrow> string list \<Rightarrow> bool" where
  "extra_keys d allowed \<longleftrightarrow> list_ex (\<lambda>p. fst p \<notin> set allowed) d"

definition json_copy :: "string \<Rightarrow> json \<Rightarrow> json result" where
  "json_copy name v = (if finite_json v then Inr v else Inl (ValueError (name @ '' must contain finite JSON values'')))"

definition prompt_message :: "json \<Rightarrow> unit result" where
  "prompt_message m =
     (case m of
        JObj d \<Rightarrow>
          if \<not> keys_are d [''role'', ''content'']
          then Inl (ValueError ''messages support only role and content; tools and other message fields are unsupported'')
          else if dget d ''role'' \<notin> {JStr ''system'', JStr ''user'', JStr ''assistant''}
          then Inl (ValueError ''message role must be system, user, or assistant; tool messages are unsupported'')
          else if blank_text (dget d ''content'')
          then Inl (ValueError ''message content must be nonempty text; multimodal content is unsupported'')
          else Inr ()
      | _ \<Rightarrow> Inl (ValueError ''messages support only role and content; tools and other message fields are unsupported''))"

definition role_of :: "json \<Rightarrow> json" where
  "role_of m = dget (fields_of m) ''role''"

definition encode_prompt :: "chat_tokenizer \<Rightarrow> json \<Rightarrow> json \<Rightarrow> int list result" where
  "encode_prompt tk prompt messages =
     (if (prompt = JNull) = (messages = JNull) then Inl (ValueError ''provide exactly one of prompt or messages'')
      else if prompt \<noteq> JNull \<and> blank_text prompt then Inl (ValueError ''prompt must be a nonempty string'')
      else if prompt \<noteq> JNull \<and> ck_template tk = None
      then ck_encode tk (the (text_of prompt))
      else let messages = (if prompt \<noteq> JNull then JList [JObj [(''role'', JStr ''user''), (''content'', prompt)]] else messages) in
        if ck_template tk = None then Inl (ValueError ''messages require a checkpoint chat template'')
        else case messages of
          JList (m # ms) \<Rightarrow>
            bindE (mapE prompt_message (m # ms)) (\<lambda>_.
              if role_of (last (m # ms)) \<noteq> JStr ''user''
              then Inl (ValueError ''messages must end with a user message for generation'')
              else encode_template tk (m # ms) JNull True [])
        | _ \<Rightarrow> Inl (ValueError ''messages must be a nonempty list''))"

section \<open>Tools\<close>

definition unless_absent :: "dict \<Rightarrow> string \<Rightarrow> (json \<Rightarrow> bool) \<Rightarrow> bool" where
  "unless_absent d k bad = (case map_of d k of None \<Rightarrow> False | Some v \<Rightarrow> bad v)"

definition tool_name :: "string list \<Rightarrow> json \<Rightarrow> string result" where
  "tool_name seen tool =
     (case tool of
        JObj d \<Rightarrow>
          if \<not> keys_are d [''type'', ''function''] \<or> dget d ''type'' \<noteq> JStr ''function''
          then Inl (ValueError ''tools support only function definitions'')
          else (case dget d ''function'' of
            JObj f \<Rightarrow>
              if extra_keys f [''name'', ''description'', ''parameters'', ''strict'']
              then Inl (ValueError ''unsupported function definition fields'')
              else (case dget f ''name'' of
                JStr name \<Rightarrow>
                  if blank name \<or> name \<in> set seen then Inl (ValueError ''function names must be nonempty and unique'')
                  else if unless_absent f ''description'' (\<lambda>v. \<not> is_str v) \<or> unless_absent f ''parameters'' (\<lambda>v. \<not> is_obj v) \<or>
                     unless_absent f ''strict'' (\<lambda>v. case v of JBool _ \<Rightarrow> False | _ \<Rightarrow> True)
                  then Inl (ValueError ''function description, parameters, or strict has an invalid type'')
                  else Inr name
              | _ \<Rightarrow> Inl (ValueError ''function names must be nonempty and unique''))
          | _ \<Rightarrow> Inl (ValueError ''unsupported function definition fields''))
      | _ \<Rightarrow> Inl (ValueError ''tools support only function definitions''))"

fun tool_names :: "string list \<Rightarrow> json list \<Rightarrow> string list result" where
  "tool_names seen [] = Inr seen"
| "tool_names seen (t # ts) = bindE (tool_name seen t) (\<lambda>name. tool_names (name # seen) ts)"

definition known_tools :: "json \<Rightarrow> string list option result" where
  "known_tools tools =
     (case tools of
        JNull \<Rightarrow> Inr None
      | JList ts \<Rightarrow> bindE (tool_names [] ts) (\<lambda>names. Inr (Some names))
      | _ \<Rightarrow> Inl (ValueError ''tools must be a list of function definitions''))"

section \<open>Conversations\<close>

text \<open>The shape of one message: its role, once the fields and the content fit the role.\<close>

definition allowed_fields :: "string \<Rightarrow> string list" where
  "allowed_fields role = [''role'', ''content''] @
     (if role = ''assistant'' then [''tool_calls'', ''reasoning_content''] else if role = ''tool'' then [''tool_call_id''] else [])"

definition message_role :: "nat \<Rightarrow> json \<Rightarrow> (string \<times> dict) result" where
  "message_role index m =
     (case m of
        JObj d \<Rightarrow>
          (case dget d ''role'' of
            JStr role \<Rightarrow>
              let content = dget d ''content'' in
              if role \<notin> {''assistant'', ''tool'', ''system'', ''user''}
              then Inl (ValueError ''message role must be system, user, assistant, or tool'')
              else if extra_keys d (allowed_fields role) then Inl (ValueError ''unsupported message fields'')
              else if role = ''system'' \<and> index \<noteq> 0 then Inl (ValueError ''system message must be first'')
              else if role = ''assistant'' \<and> content \<noteq> JNull \<and> \<not> is_str content
              then Inl (ValueError ''assistant content must be text or null'')
              else if role = ''assistant'' \<and> unless_absent d ''reasoning_content'' (\<lambda>v. \<not> is_str v)
              then Inl (ValueError ''assistant reasoning_content must be text'')
              else if role \<noteq> ''assistant'' \<and> (\<not> is_str content \<or> role \<noteq> ''tool'' \<and> blank_text content)
              then Inl (ValueError ''message content must be text; system/user text must be nonempty'')
              else Inr (role, d)
          | _ \<Rightarrow> Inl (ValueError ''message role must be text''))
      | _ \<Rightarrow> Inl (ValueError ''messages must contain objects''))"

definition tool_call :: "(string \<Rightarrow> json result) \<Rightarrow> string list option \<Rightarrow> json \<Rightarrow> string result" where
  "tool_call reads known call =
     (case call of
        JObj d \<Rightarrow>
          if \<not> keys_are d [''id'', ''type'', ''function''] \<or> dget d ''type'' \<noteq> JStr ''function''
          then Inl (ValueError ''assistant tool_calls support only identified function calls'')
          else (case dget d ''id'' of
            JStr identity \<Rightarrow>
              if blank identity then Inl (ValueError ''assistant tool call IDs must be nonempty and unique within a turn'')
              else (case dget d ''function'' of
                JObj f \<Rightarrow>
                  if \<not> keys_are f [''name'', ''arguments''] then Inl (ValueError ''tool calls require function name and arguments'')
                  else if blank_text (dget f ''name'') \<or>
                     (case known of None \<Rightarrow> False | Some names \<Rightarrow> dget f ''name'' \<notin> JStr ` set names)
                  then Inl (ValueError ''tool call must name an available function'')
                  else (case (case dget f ''arguments'' of JStr s \<Rightarrow> reads s | v \<Rightarrow> Inr v) of
                      Inl e \<Rightarrow> Inl (ValueError ''invalid JSON tool arguments'')
                    | Inr v \<Rightarrow>
                        if \<not> finite_json v then Inl (ValueError ''invalid JSON tool arguments'')
                        else if \<not> is_obj v then Inl (ValueError ''tool arguments must be a JSON object or its JSON string'')
                        else Inr identity)
              | _ \<Rightarrow> Inl (ValueError ''tool calls require function name and arguments''))
          | _ \<Rightarrow> Inl (ValueError ''assistant tool call IDs must be nonempty and unique within a turn''))
      | _ \<Rightarrow> Inl (ValueError ''assistant tool_calls support only identified function calls''))"

text \<open>The state is the set of calls that wait for a result, here a list without repetition.\<close>

fun open_calls :: "(string \<Rightarrow> json result) \<Rightarrow> string list option \<Rightarrow> json list \<Rightarrow> string list \<Rightarrow> string list result" where
  "open_calls reads known [] waiting = Inr waiting"
| "open_calls reads known (c # cs) waiting =
     bindE (tool_call reads known c) (\<lambda>identity.
       if identity \<in> set waiting then Inl (ValueError ''assistant tool call IDs must be nonempty and unique within a turn'')
       else open_calls reads known cs (waiting @ [identity]))"

definition message_step ::
  "(string \<Rightarrow> json result) \<Rightarrow> string list option \<Rightarrow> nat \<Rightarrow> json \<Rightarrow> string list \<Rightarrow> string list result" where
  "message_step reads known index m waiting =
     bindE (message_role index m) (\<lambda>(role, d).
       if role = ''tool'' then
         (case dget d ''tool_call_id'' of
            JStr identity \<Rightarrow>
              if identity \<in> set waiting then Inr (remove1 identity waiting)
              else Inl (ValueError ''tool_call_id must match an unanswered assistant tool call'')
          | _ \<Rightarrow> Inl (ValueError ''tool_call_id must match an unanswered assistant tool call''))
       else if waiting \<noteq> [] then Inl (ValueError ''assistant tool calls must receive results before the next message'')
       else if role \<noteq> ''assistant'' then Inr waiting
       else case dget_default d ''tool_calls'' (JList []) of
           JList calls \<Rightarrow>
             if calls = [] \<and> blank_text (dget d ''content'')
             then Inl (ValueError ''assistant messages require content or tool calls'')
             else open_calls reads known calls waiting
         | _ \<Rightarrow> Inl (ValueError ''assistant tool_calls must be a list''))"

fun check_messages ::
  "(string \<Rightarrow> json result) \<Rightarrow> string list option \<Rightarrow> nat \<Rightarrow> json list \<Rightarrow> string list \<Rightarrow> string list result" where
  "check_messages reads known index [] waiting = Inr waiting"
| "check_messages reads known index (m # ms) waiting =
     bindE (message_step reads known index m waiting) (check_messages reads known (Suc index) ms)"

definition template_options :: "json \<Rightarrow> dict result" where
  "template_options v =
     (case v of
        JNull \<Rightarrow> Inr []
      | JObj d \<Rightarrow>
          if extra_keys d [''enable_thinking''] then Inl (ValueError ''chat_template_kwargs support only enable_thinking'')
          else if unless_absent d ''enable_thinking'' (\<lambda>v. case v of JBool _ \<Rightarrow> False | _ \<Rightarrow> True)
          then Inl (ValueError ''enable_thinking must be a boolean'')
          else Inr d
      | _ \<Rightarrow> Inl (ValueError ''chat_template_kwargs support only enable_thinking''))"

definition encode_conversation ::
  "chat_tokenizer \<Rightarrow> (string \<Rightarrow> json result) \<Rightarrow> json \<Rightarrow> json \<Rightarrow> json \<Rightarrow> int list result" where
  "encode_conversation tk reads messages tools options =
     (if ck_template tk = None then Inl (ValueError ''conversations require a checkpoint chat template'')
      else case messages of
        JList (m # ms) \<Rightarrow>
          bindE (template_options options) (\<lambda>opts.
          bindE (json_copy ''messages'' messages) (\<lambda>_.
          bindE (json_copy ''tools'' tools) (\<lambda>_.
          bindE (known_tools tools) (\<lambda>known.
          bindE (check_messages reads known 0 (m # ms) []) (\<lambda>waiting.
            if waiting \<noteq> [] \<or> role_of (last (m # ms)) \<notin> {JStr ''user'', JStr ''tool''}
            then Inl (ValueError ''conversations must end with a user message or completed tool results'')
            else encode_template tk (m # ms) tools True opts)))))
      | _ \<Rightarrow> Inl (ValueError ''messages must be a nonempty list''))"

definition assistant_message :: "string \<Rightarrow> json" where
  "assistant_message answer = JObj [(''role'', JStr ''assistant''), (''content'', JStr answer)]"

definition encode_completion ::
  "chat_tokenizer \<Rightarrow> (string \<Rightarrow> json result) \<Rightarrow> json \<Rightarrow> json \<Rightarrow> json \<Rightarrow> (int list \<times> int list) result" where
  "encode_completion tk reads messages answer options =
     (case answer of
        JStr a \<Rightarrow>
          if blank a then Inl (ValueError ''answer must be a nonempty string'')
          else bindE (encode_conversation tk reads messages JNull options) (\<lambda>prompt_ids.
            bindE (encode_template tk ((case messages of JList ms \<Rightarrow> ms | _ \<Rightarrow> []) @ [assistant_message a]) JNull False (fields_of options))
              (\<lambda>full_ids.
                if take (length prompt_ids) full_ids \<noteq> prompt_ids
                then Inl (ValueError ''completed conversation does not preserve the generation prompt token prefix'')
                else Inr (prompt_ids, full_ids)))
      | _ \<Rightarrow> Inl (ValueError ''answer must be a nonempty string''))"

section \<open>The grammar of a conversation\<close>

definition plain_message :: "nat \<Rightarrow> json \<Rightarrow> bool" where
  "plain_message i m \<longleftrightarrow>
     (case message_role i m of
        Inl e \<Rightarrow> False
      | Inr (role, d) \<Rightarrow>
          role \<noteq> ''tool'' \<and>
          (role = ''assistant'' \<longrightarrow> dget_default d ''tool_calls'' (JList []) = JList [] \<and> \<not> blank_text (dget d ''content'')))"

definition calling_message ::
  "(string \<Rightarrow> json result) \<Rightarrow> string list option \<Rightarrow> nat \<Rightarrow> json \<Rightarrow> string list \<Rightarrow> bool" where
  "calling_message reads known i m ids \<longleftrightarrow>
     (\<exists>d calls. message_role i m = Inr (''assistant'', d) \<and> dget_default d ''tool_calls'' (JList []) = JList calls \<and>
        calls \<noteq> [] \<and> mapE (tool_call reads known) calls = Inr ids \<and> distinct ids)"

definition tool_result :: "json \<Rightarrow> string \<Rightarrow> bool" where
  "tool_result m identity \<longleftrightarrow>
     (\<exists>d. message_role 1 m = Inr (''tool'', d) \<and> dget d ''tool_call_id'' = JStr identity)"

text \<open>A conversation is a sequence of system, user and answering assistant messages and of assistant
  turns with calls, each directly followed by one result for every call, in any order.\<close>

inductive conversation :: "(string \<Rightarrow> json result) \<Rightarrow> string list option \<Rightarrow> nat \<Rightarrow> json list \<Rightarrow> bool"
  for reads known where
  empty: "conversation reads known i []"
| plain: "plain_message i m \<Longrightarrow> conversation reads known (Suc i) ms \<Longrightarrow> conversation reads known i (m # ms)"
| calls: "calling_message reads known i m ids \<Longrightarrow> list_all2 tool_result rs answers \<Longrightarrow> mset answers = mset ids \<Longrightarrow>
    conversation reads known (Suc i + length rs) ms \<Longrightarrow> conversation reads known i (m # rs @ ms)"

lemma message_role_index: "message_role (Suc i) m = message_role 1 m"
  by (cases m; cases "dget (fields_of m) ''role''") (simp_all add: message_role_def Let_def)

lemma open_calls_iff:
  "distinct w \<Longrightarrow> open_calls reads known cs w = Inr w' \<longleftrightarrow>
     (\<exists>ids. mapE (tool_call reads known) cs = Inr ids \<and> w' = w @ ids \<and> distinct (w @ ids))"
proof (induction cs arbitrary: w)
  case (Cons c cs)
  show ?case
  proof (cases "tool_call reads known c")
    case (Inr k)
    then show ?thesis using Cons.IH [of "w @ [k]"] Cons.prems by (auto simp: bindE_Inr_iff)
  qed simp
qed auto

lemma step_waiting:
  assumes "w \<noteq> []"
  shows "message_step reads known (Suc i) m w = Inr w' \<longleftrightarrow> (\<exists>k. tool_result m k \<and> k \<in> set w \<and> w' = remove1 k w)"
proof (cases "message_role 1 m")
  case (Inr rd)
  obtain role d where rd: "rd = (role, d)" by (cases rd)
  show ?thesis
  proof (cases "role = ''tool''")
    case True
    then show ?thesis
      unfolding message_step_def message_role_index tool_result_def Inr rd by (cases "dget d ''tool_call_id''") auto
  next
    case False
    then show ?thesis using assms unfolding message_step_def message_role_index tool_result_def Inr rd by simp
  qed
qed (simp add: message_step_def message_role_index [of i] tool_result_def)

lemma waiting_results:
  "distinct w \<Longrightarrow> check_messages reads known (Suc i) ms w = Inr [] \<longleftrightarrow>
     (\<exists>rs rest answers. ms = rs @ rest \<and> list_all2 tool_result rs answers \<and> mset answers = mset w \<and>
        check_messages reads known (Suc i + length rs) rest [] = Inr [])"
proof (induction ms arbitrary: i w)
  case Nil
  show ?case by (cases "w = []") auto
next
  case (Cons m ms)
  show ?case
  proof (cases "w = []")
    case True
    then show ?thesis by (auto simp: list_all2_Cons1 intro!: exI [of _ "[]"])
  next
    case False
    have "check_messages reads known (Suc i) (m # ms) w = Inr [] \<longleftrightarrow>
        (\<exists>k. tool_result m k \<and> k \<in> set w \<and> check_messages reads known (Suc (Suc i)) ms (remove1 k w) = Inr [])"
      by (auto simp: bindE_Inr_iff step_waiting [OF False])
    also have "\<dots> \<longleftrightarrow> (\<exists>k rs rest answers. tool_result m k \<and> k \<in> set w \<and> ms = rs @ rest \<and> list_all2 tool_result rs answers \<and>
        mset answers = mset (remove1 k w) \<and> check_messages reads known (Suc (Suc i) + length rs) rest [] = Inr [])"
      using Cons.IH [of "remove1 k w" "Suc i" for k] Cons.prems by (simp add: distinct_remove1)
    also have "\<dots> \<longleftrightarrow> (\<exists>rs rest answers. m # ms = rs @ rest \<and> list_all2 tool_result rs answers \<and> mset answers = mset w \<and>
        check_messages reads known (Suc i + length rs) rest [] = Inr [])" (is "?A \<longleftrightarrow> ?B")
    proof
      assume ?A
      then obtain k rs rest answers where a: "tool_result m k" "k \<in> set w" "ms = rs @ rest" "list_all2 tool_result rs answers"
        "mset answers = mset (remove1 k w)" "check_messages reads known (Suc (Suc i) + length rs) rest [] = Inr []" by blast
      then have "mset (k # answers) = mset w" by simp
      with a show ?B by (intro exI [of _ "m # rs"] exI [of _ rest] exI [of _ "k # answers"]) simp
    next
      assume ?B
      then obtain rs rest answers where b: "m # ms = rs @ rest" "list_all2 tool_result rs answers" "mset answers = mset w"
        "check_messages reads known (Suc i + length rs) rest [] = Inr []" by blast
      then obtain rs' k answers' where c: "rs = m # rs'" "answers = k # answers'"
        using False by (cases rs; cases answers) auto
      have k: "k \<in> set w" using mset_eq_setD [OF b(3)] c(2) by auto
      have "mset answers' = mset (remove1 k w)" using b(3) c(2) by (simp flip: b(3))
      moreover have "tool_result m k" "ms = rs' @ rest" "list_all2 tool_result rs' answers'"
        "check_messages reads known (Suc (Suc i) + length rs') rest [] = Inr []" using b c by simp_all
      ultimately show ?A using k by blast
    qed
    finally show ?thesis .
  qed
qed

lemma mapE_Inr_Nil [simp]: "mapE f xs = Inr [] \<longleftrightarrow> xs = []"
  by (cases xs) (auto simp: bindE_Inr_iff)

lemma step_ready:
  "message_step reads known i m [] = Inr w \<longleftrightarrow> w = [] \<and> plain_message i m \<or> w \<noteq> [] \<and> calling_message reads known i m w"
proof (cases "message_role i m")
  case (Inr rd)
  obtain role d where rd: "rd = (role, d)" by (cases rd)
  consider "role = ''tool''" | "role \<noteq> ''tool''" "role \<noteq> ''assistant''" | "role = ''assistant''" by blast
  then show ?thesis
  proof cases
    case 1
    then show ?thesis using Inr rd
      by (cases "dget d ''tool_call_id''") (simp_all add: message_step_def plain_message_def calling_message_def)
  next
    case 2
    then show ?thesis using Inr rd by (auto simp: message_step_def plain_message_def calling_message_def)
  next
    case 3
    then show ?thesis using Inr rd open_calls_iff [of "[]" reads known]
      by (cases "dget_default d ''tool_calls'' (JList [])"; cases w)
        (auto simp: message_step_def plain_message_def calling_message_def)
  qed
qed (simp add: message_step_def plain_message_def calling_message_def)

lemma check_conversation: "check_messages reads known i ms [] = Inr [] \<longleftrightarrow> conversation reads known i ms"
proof
  assume "check_messages reads known i ms [] = Inr []"
  then show "conversation reads known i ms"
  proof (induction ms arbitrary: i rule: length_induct)
    case (1 ms)
    show ?case
    proof (cases ms)
      case (Cons m rest)
      with 1(2) obtain w where w: "message_step reads known i m [] = Inr w" "check_messages reads known (Suc i) rest w = Inr []"
        by (simp only: check_messages.simps bindE_Inr_iff) blast
      show ?thesis
      proof (cases "w = []")
        case True
        then have "plain_message i m" using w(1) by (simp add: step_ready)
        then show ?thesis unfolding Cons using 1(1) [rule_format, of rest "Suc i"] w(2) True Cons by (simp add: conversation.plain)
      next
        case False
        with w(1) have c: "calling_message reads known i m w" by (simp add: step_ready)
        then have "distinct w" by (auto simp: calling_message_def)
        with w(2) obtain rs more answers where r: "rest = rs @ more" "list_all2 tool_result rs answers" "mset answers = mset w"
          "check_messages reads known (Suc i + length rs) more [] = Inr []" unfolding waiting_results [OF \<open>distinct w\<close>] by blast
        then have "conversation reads known (Suc i + length rs) more" using 1(1) [rule_format, of more "Suc i + length rs"] Cons by simp
        then show ?thesis unfolding Cons r(1) by (rule conversation.calls [OF c r(2,3)])
      qed
    qed (simp add: conversation.empty)
  qed
next
  assume "conversation reads known i ms"
  then show "check_messages reads known i ms [] = Inr []"
  proof induction
    case (plain i m ms)
    then show ?case using step_ready [of reads known i m "[]"] by simp
  next
    case (calls i m ids rs answers ms)
    have w: "ids \<noteq> []" "distinct ids" using calls.hyps(1) by (auto simp: calling_message_def bindE_Inr_iff neq_Nil_conv)
    then have "message_step reads known i m [] = Inr ids" using calls.hyps(1) by (simp add: step_ready)
    moreover have "check_messages reads known (Suc i) (rs @ ms) ids = Inr []"
      using waiting_results [OF w(2)] calls by blast
    ultimately show ?case by simp
  qed simp
qed

section \<open>Properties\<close>

text \<open>C23. A conversation is encoded exactly when it follows the grammar: every assistant turn with tool
  calls is directly followed by exactly one result for each of its calls, in any order, a system message
  stands only at the front, and the last message is the user's or a tool's; and when the template, the
  options and the tool definitions are valid. The tokens are those of the template for these messages.\<close>

theorem conversation_encoded_iff:
  "encode_conversation tk reads messages tools options = Inr ids \<longleftrightarrow>
     (\<exists>m ms opts known. messages = JList (m # ms) \<and> ck_template tk \<noteq> None \<and> template_options options = Inr opts \<and>
        finite_json messages \<and> finite_json tools \<and> known_tools tools = Inr known \<and> conversation reads known 0 (m # ms) \<and>
        role_of (last (m # ms)) \<in> {JStr ''user'', JStr ''tool''} \<and> encode_template tk (m # ms) tools True opts = Inr ids)"
proof (cases "\<exists>m ms. messages = JList (m # ms)")
  case True
  then obtain m ms where m: "messages = JList (m # ms)" by blast
  let ?last = "role_of (last (m # ms)) \<in> {JStr ''user'', JStr ''tool''}"
  have "encode_conversation tk reads (JList (m # ms)) tools options = Inr ids \<longleftrightarrow>
      ck_template tk \<noteq> None \<and> (\<exists>opts. template_options options = Inr opts \<and> finite_json (JList (m # ms)) \<and> finite_json tools \<and>
        (\<exists>known. known_tools tools = Inr known \<and> (\<exists>w. check_messages reads known 0 (m # ms) [] = Inr w \<and> w = [] \<and> ?last \<and>
           encode_template tk (m # ms) tools True opts = Inr ids)))"
    unfolding encode_conversation_def json_copy_def json.case list.case bindE_Inr_iff guard_Inr_iff de_Morgan_disj not_not
    by (simp del: check_messages.simps finite_json.simps last.simps insert_iff)
  then show ?thesis unfolding m json.inject list.inject using check_conversation [of reads _ 0 "m # ms"] by blast
next
  case False
  then show ?thesis by (auto simp: encode_conversation_def split: json.split list.split)
qed

text \<open>A completion extends its prompt.\<close>

lemma encode_completion_prefix:
  "encode_completion tk reads messages answer options = Inr (p, ids) \<Longrightarrow> prefix p ids"
proof -
  assume "encode_completion tk reads messages answer options = Inr (p, ids)"
  then have "take (length p) ids = p" by (auto simp: encode_completion_def bindE_Inr_iff split: json.splits if_splits)
  then show ?thesis using take_is_prefix [of "length p" ids] by simp
qed

end
