(* ===== verification/Sft_Data.thy ===== *)
theory Sft_Data
  imports Chat_Encoding
begin

text \<open>
  \<^verbatim>\<open>dsv41_train/sft_data.py\<close>: supervised examples from prompt/answer records, the JSONL reader and the
  padding of a batch. A tensor of shape (rows, length) is the list of its rows. The main results say
  which positions are supervised and that padding loses nothing.
\<close>

section \<open>Examples\<close>

record sft_example =
  se_input_ids :: "int list"
  se_labels :: "int list"
  se_attention_mask :: "int list"
  se_prompt_ids :: "int list"

definition sft_message :: "json \<Rightarrow> bool" where
  "sft_message m \<longleftrightarrow>
     (case m of
        JObj d \<Rightarrow> keys_are d [''role'', ''content''] \<and>
          dget d ''role'' \<in> {JStr ''system'', JStr ''user'', JStr ''assistant''} \<and> \<not> blank_text (dget d ''content'')
      | _ \<Rightarrow> False)"

definition first_eos :: "int list \<Rightarrow> nat \<Rightarrow> int list \<Rightarrow> nat option" where
  "first_eos eos p ids = find (\<lambda>i. ids ! i \<in> set eos) [p ..< length ids]"

definition answer_labels :: "nat \<Rightarrow> nat \<Rightarrow> int list \<Rightarrow> int list" where
  "answer_labels p e ids = replicate p (- 100) @ take (e + 1 - p) (drop p ids) @ replicate (length ids - (e + 1)) (- 100)"

definition sft_messages :: "dict \<Rightarrow> json" where
  "sft_messages d =
     (case map_of d ''prompt'' of
        None \<Rightarrow> dget d ''messages''
      | Some p \<Rightarrow> JList [JObj [(''role'', JStr ''user''), (''content'', p)]])"

definition encode_example ::
  "chat_tokenizer \<Rightarrow> (string \<Rightarrow> json result) \<Rightarrow> json \<Rightarrow> bool \<Rightarrow> json \<Rightarrow> sft_example result" where
  "encode_example tk reads max_length enable_thinking rec =
     (case max_length of
        JInt n \<Rightarrow>
          if n < 2 then Inl (ValueError ''max_length must be an integer of at least 2'')
          else (case rec of
            JObj d \<Rightarrow>
              if \<not> keys_are d [''prompt'', ''answer''] \<and> \<not> keys_are d [''messages'', ''answer'']
              then Inl (ValueError ''SFT records require exactly prompt/answer or messages/answer'')
              else (case sft_messages d of
                JList (m # ms) \<Rightarrow>
                  if \<not> list_all sft_message (m # ms)
                  then Inl (ValueError ''SFT messages support only system/user/assistant roles with nonempty text content'')
                  else if role_of (last (m # ms)) \<noteq> JStr ''user''
                  then Inl (ValueError ''SFT messages must end with a user message'')
                  else bindE (encode_completion tk reads (JList (m # ms)) (dget d ''answer'')
                      (JObj [(''enable_thinking'', JBool enable_thinking)])) (\<lambda>(prompt_ids, input_ids).
                    if int (length input_ids) > n then Inl (ValueError ''SFT example exceeds max_length; truncation is disabled'')
                    else case first_eos (ck_eos tk) (length prompt_ids) input_ids of
                      None \<Rightarrow> Inl (ValueError ''completed SFT answer must contain a checkpoint EOS token'')
                    | Some e \<Rightarrow>
                        if e = length prompt_ids then Inl (ValueError ''SFT answer must contain at least one token before EOS'')
                        else Inr \<lparr>se_input_ids = input_ids, se_labels = answer_labels (length prompt_ids) e input_ids,
                               se_attention_mask = replicate (length input_ids) 1, se_prompt_ids = prompt_ids\<rparr>)
              | _ \<Rightarrow> Inl (ValueError ''SFT messages must be a nonempty list''))
          | _ \<Rightarrow> Inl (ValueError ''SFT records require exactly prompt/answer or messages/answer''))
      | _ \<Rightarrow> Inl (ValueError ''max_length must be an integer of at least 2''))"

text \<open>Blank lines are skipped; the line number of a failing record goes into the message. Other
  exceptions pass.\<close>

fun sft_lines :: "(string \<Rightarrow> json result) \<Rightarrow> (json \<Rightarrow> sft_example result) \<Rightarrow> nat \<Rightarrow> string list \<Rightarrow> sft_example list result" where
  "sft_lines reads enc n [] = Inr []"
| "sft_lines reads enc n (l # ls) =
     (if blank l then sft_lines reads enc (Suc n) ls
      else case bindE (reads l) enc of
          Inl (ValueError e) \<Rightarrow> Inl (ValueError (show_nat n @ '': '' @ e))
        | Inl e \<Rightarrow> Inl e
        | Inr x \<Rightarrow> bindE (sft_lines reads enc (Suc n) ls) (\<lambda>xs. Inr (x # xs)))"

definition load_sft_jsonl ::
  "chat_tokenizer \<Rightarrow> (string \<Rightarrow> json result) \<Rightarrow> json \<Rightarrow> bool \<Rightarrow> string list \<Rightarrow> sft_example list result" where
  "load_sft_jsonl tk reads max_length enable_thinking ls =
     bindE (sft_lines reads (encode_example tk reads max_length enable_thinking) 1 ls) (\<lambda>xs.
       if xs = [] then Inl (ValueError ''SFT dataset must contain at least one example'') else Inr xs)"

section \<open>Batches\<close>

record sft_batch =
  sb_input_ids :: "int list list"
  sb_labels :: "int list list"
  sb_attention_mask :: "int list list"

definition pad_row :: "nat \<Rightarrow> 'a \<Rightarrow> 'a list \<Rightarrow> 'a list" where
  "pad_row width pad xs = xs @ replicate (width - length xs) pad"

definition batch_width :: "nat \<Rightarrow> sft_example list \<Rightarrow> nat" where
  "batch_width multiple xs =
     (let n = Max (set (map (\<lambda>x. length (se_input_ids x)) xs)) in (n + multiple - 1) div multiple * multiple)"

definition collate_examples :: "json \<Rightarrow> json \<Rightarrow> sft_example list \<Rightarrow> sft_batch result" where
  "collate_examples pad_token_id pad_to_multiple_of xs =
     (if xs = [] then Inl (ValueError ''cannot collate an empty SFT batch'')
      else case pad_token_id of
        JInt pad \<Rightarrow>
          if pad < 0 then Inl (ValueError ''pad_token_id must be a nonnegative integer'')
          else (case pad_to_multiple_of of
            JInt multiple \<Rightarrow>
              if multiple \<le> 0 then Inl (ValueError ''pad_to_multiple_of must be a positive integer'')
              else if list_ex (\<lambda>x. se_input_ids x = [] \<or> length (se_labels x) \<noteq> length (se_input_ids x) \<or>
                 length (se_attention_mask x) \<noteq> length (se_input_ids x)) xs
              then Inl (ValueError ''SFT input_ids, labels and attention_mask must have the same nonzero length'')
              else let w = batch_width (nat multiple) xs in
                Inr \<lparr>sb_input_ids = map (\<lambda>x. pad_row w pad (se_input_ids x)) xs,
                     sb_labels = map (\<lambda>x. pad_row w (- 100) (se_labels x)) xs,
                     sb_attention_mask = map (\<lambda>x. pad_row w 0 (se_attention_mask x)) xs\<rparr>
          | _ \<Rightarrow> Inl (ValueError ''pad_to_multiple_of must be a positive integer''))
      | _ \<Rightarrow> Inl (ValueError ''pad_token_id must be a nonnegative integer''))"

section \<open>Properties\<close>

lemma first_eos_Some:
  assumes "first_eos eos p ids = Some e"
  shows "p \<le> e" "e < length ids" "ids ! e \<in> set eos" "\<And>i. p \<le> i \<Longrightarrow> i < e \<Longrightarrow> ids ! i \<notin> set eos"
proof -
  obtain k where k: "k < length [p ..< length ids]" "ids ! ([p ..< length ids] ! k) \<in> set eos" "e = [p ..< length ids] ! k"
    "\<forall>j < k. ids ! ([p ..< length ids] ! j) \<notin> set eos"
    using assms unfolding first_eos_def find_Some_iff by blast
  then show "p \<le> e" "e < length ids" "ids ! e \<in> set eos" by simp_all
  fix i
  assume "p \<le> i" "i < e"
  then show "ids ! i \<notin> set eos" using k(1,3) spec [OF k(4), of "i - p"] by simp
qed

lemma nth_answer_labels:
  assumes "p \<le> e" "e < length ids" "i < length ids"
  shows "answer_labels p e ids ! i = (if p \<le> i \<and> i \<le> e then ids ! i else - 100)" "length (answer_labels p e ids) = length ids"
  using assms by (auto simp: answer_labels_def nth_append)

text \<open>C24. Supervision covers the answer and nothing else: in an accepted example the prompt is a prefix
  of the input, the input fits the limit, and a label equals its token exactly from the first token of
  the answer through its first end-of-sequence token, with at least one token before it; every other
  label is masked.\<close>

theorem sft_labels_exact:
  assumes "encode_example tk reads (JInt n) thinking rec = Inr x"
  shows "prefix (se_prompt_ids x) (se_input_ids x) \<and> int (length (se_input_ids x)) \<le> n \<and>
    length (se_labels x) = length (se_input_ids x) \<and> se_attention_mask x = replicate (length (se_input_ids x)) 1 \<and>
    (\<exists>e. length (se_prompt_ids x) < e \<and> e < length (se_input_ids x) \<and> se_input_ids x ! e \<in> set (ck_eos tk) \<and>
      (\<forall>i. length (se_prompt_ids x) \<le> i \<and> i < e \<longrightarrow> se_input_ids x ! i \<notin> set (ck_eos tk)) \<and>
      (\<forall>i < length (se_input_ids x). se_labels x ! i =
         (if length (se_prompt_ids x) \<le> i \<and> i \<le> e then se_input_ids x ! i else - 100)))"
proof -
  obtain p ids e ms ans opts where x: "int (length ids) \<le> n" "first_eos (ck_eos tk) (length p) ids = Some e" "e \<noteq> length p"
    "encode_completion tk reads ms ans opts = Inr (p, ids)"
    "x = \<lparr>se_input_ids = ids, se_labels = answer_labels (length p) e ids, se_attention_mask = replicate (length ids) 1, se_prompt_ids = p\<rparr>"
    using assms by (auto simp: encode_example_def bindE_Inr_iff split: json.splits list.splits option.splits if_splits)
  note e = first_eos_Some [OF x(2)]
  have "length p < e" using e(1) x(3) by simp
  moreover have "\<forall>i < length ids. answer_labels (length p) e ids ! i = (if length p \<le> i \<and> i \<le> e then ids ! i else - 100)"
    "length (answer_labels (length p) e ids) = length ids" using nth_answer_labels [OF e(1,2)] e(2) by blast+
  ultimately show ?thesis
    unfolding x(5) sft_example.select_convs using x(1) e(2-4) encode_completion_prefix [OF x(4)] by blast
qed

lemma batch_width_least:
  assumes "0 < m" "xs \<noteq> []"
  shows "m dvd batch_width m xs" "\<And>x. x \<in> set xs \<Longrightarrow> length (se_input_ids x) \<le> batch_width m xs"
    "\<And>v. m dvd v \<Longrightarrow> \<forall>x \<in> set xs. length (se_input_ids x) \<le> v \<Longrightarrow> batch_width m xs \<le> v"
proof -
  let ?n = "Max (set (map (\<lambda>x. length (se_input_ids x)) xs))"
  let ?q = "(?n + m - 1) div m"
  have w: "batch_width m xs = ?q * m" by (simp add: batch_width_def Let_def)
  then show "m dvd batch_width m xs" by simp
  have "?n + m - 1 = ?q * m + (?n + m - 1) mod m" by simp
  moreover have "(?n + m - 1) mod m < m" using assms(1) by simp
  ultimately have "?n \<le> ?q * m" by linarith
  moreover have "length (se_input_ids x) \<le> ?n" if "x \<in> set xs" for x using that by simp
  ultimately show "length (se_input_ids x) \<le> batch_width m xs" if "x \<in> set xs" for x
    unfolding w using that by (meson le_trans)
  fix v
  assume v: "m dvd v" "\<forall>x \<in> set xs. length (se_input_ids x) \<le> v"
  then obtain k where k: "v = m * k" by blast
  have "?n \<le> v" using v(2) assms(2) by simp
  then have "?q \<le> (m * k + (m - 1)) div m" using assms(1) unfolding k by (intro div_le_mono) simp
  also have "\<dots> = k" by (rule div_nat_eqI) (use assms(1) in simp_all)
  finally show "batch_width m xs \<le> v" unfolding w k by (simp add: mult.commute)
qed

text \<open>C40. Padding loses nothing: a batch has one row per example, all rows have the same width, the
  least multiple of the requested number that holds the longest example, and cutting a row at the
  length of its example gives back the example's ids, labels and mask; the rest is padding that is
  neither attended nor supervised.\<close>

theorem collate_restores:
  assumes "collate_examples (JInt pad) (JInt m) xs = Inr b"
  shows "length (sb_input_ids b) = length xs \<and> length (sb_labels b) = length xs \<and> length (sb_attention_mask b) = length xs \<and>
    (\<exists>w. nat m dvd w \<and> (\<forall>v. nat m dvd v \<and> (\<forall>x \<in> set xs. length (se_input_ids x) \<le> v) \<longrightarrow> w \<le> v) \<and>
      (\<forall>i < length xs. let n = length (se_input_ids (xs ! i)) in n \<le> w \<and>
         sb_input_ids b ! i = se_input_ids (xs ! i) @ replicate (w - n) pad \<and>
         sb_labels b ! i = se_labels (xs ! i) @ replicate (w - n) (- 100) \<and>
         sb_attention_mask b ! i = se_attention_mask (xs ! i) @ replicate (w - n) 0))"
proof -
  let ?w = "batch_width (nat m) xs"
  have m: "0 < nat m" "xs \<noteq> []" and len: "\<forall>x \<in> set xs. length (se_labels x) = length (se_input_ids x) \<and>
      length (se_attention_mask x) = length (se_input_ids x)"
    and b: "b = \<lparr>sb_input_ids = map (\<lambda>x. pad_row ?w pad (se_input_ids x)) xs,
      sb_labels = map (\<lambda>x. pad_row ?w (- 100) (se_labels x)) xs, sb_attention_mask = map (\<lambda>x. pad_row ?w 0 (se_attention_mask x)) xs\<rparr>"
    using assms by (auto simp: collate_examples_def list_ex_iff Let_def split: if_splits)
  note w = batch_width_least [OF m]
  show ?thesis
  proof (intro conjI exI [of _ ?w] allI impI)
    fix i
    assume "i < length xs"
    then show "let n = length (se_input_ids (xs ! i)) in n \<le> ?w \<and> sb_input_ids b ! i = se_input_ids (xs ! i) @ replicate (?w - n) pad \<and>
         sb_labels b ! i = se_labels (xs ! i) @ replicate (?w - n) (- 100) \<and>
         sb_attention_mask b ! i = se_attention_mask (xs ! i) @ replicate (?w - n) 0"
      using w(2) len by (simp add: b pad_row_def Let_def)
  qed (use w in \<open>simp_all add: b\<close>)
qed

section \<open>A run\<close>

text \<open>A tokenizer over three tokens: the prompt is \<open>[1, 2]\<close>, the answer adds \<open>[3, 4, 9, 7]\<close> with \<open>9\<close> the
  end of sequence.\<close>

definition demo_tokenizer :: chat_tokenizer where
  "demo_tokenizer =
     \<lparr>ck_template = Some ''t'', ck_vocabulary = [1, 2, 3, 4, 7, 9], ck_eos = [9],
      ck_apply = (\<lambda>ms tools gen opts. Inr (JList (map JInt (if gen then [1, 2] else [1, 2, 3, 4, 9, 7])))),
      ck_encode = (\<lambda>s. Inr [1])\<rparr>"

definition demo_record :: json where
  "demo_record = JObj [(''prompt'', JStr ''q''), (''answer'', JStr ''a'')]"

definition demo_example :: sft_example where
  "demo_example = \<lparr>se_input_ids = [1, 2, 3, 4, 9, 7], se_labels = [- 100, - 100, 3, 4, 9, - 100],
     se_attention_mask = [1, 1, 1, 1, 1, 1], se_prompt_ids = [1, 2]\<rparr>"

lemma demo_encoded: "encode_example demo_tokenizer (\<lambda>_. Inl (ValueError [])) (JInt 8) False demo_record = Inr demo_example"
  by code_simp

theorem sft_labels_exact_witness:
  "\<exists>x. encode_example demo_tokenizer (\<lambda>_. Inl (ValueError [])) (JInt 8) False demo_record = Inr x \<and>
     prefix (se_prompt_ids x) (se_input_ids x) \<and> se_labels x = [- 100, - 100, 3, 4, 9, - 100]"
  using sft_labels_exact [OF demo_encoded] demo_encoded by (auto simp: demo_example_def)

theorem collate_restores_witness:
  "\<exists>b. collate_examples (JInt 0) (JInt 4) [demo_example] = Inr b \<and> length (sb_input_ids b) = 1 \<and>
     sb_labels b = [[- 100, - 100, 3, 4, 9, - 100, - 100, - 100]]"
proof -
  let ?rows = "[[- 100, - 100, 3, 4, 9, - 100, - 100, - 100]] :: int list list"
  have "case collate_examples (JInt 0) (JInt 4) [demo_example] of Inl e \<Rightarrow> False | Inr b \<Rightarrow> sb_labels b = ?rows" by code_simp
  then obtain b where b: "collate_examples (JInt 0) (JInt 4) [demo_example] = Inr b" "sb_labels b = ?rows"
    by (auto split: sum.splits)
  then show ?thesis using collate_restores [OF b(1)] by auto
qed

end
