(* ===== verification/Artifact_Queue.thy ===== *)
theory Artifact_Queue
  imports Transition "HOL-Library.List_Lexorder" "HOL-Library.Char_ord"
begin

text \<open>
  \<^verbatim>\<open>rollout_manager/terminal_bench/browser_relay/artifacts.py\<close>: durable files that cross the browser relay
  in chunks. A queue directory is a record of two association lists, from the identity of an artifact
  to what its directory holds; a rename makes an entry appear as a whole. A chunk file is created before
  it is written, so \<open>receive_chunk_with\<close> has what reaches the disk as an argument: all of it in
  \<open>receive_chunk\<close>, a prefix when the process dies meanwhile (\<open>receive_torn\<close>).
  Base64 is modelled; SHA-256, the JSON text and the decimal text of a float are the fields of a
  \<open>codec\<close>. Ownership and mode checks of paths, the file lock and the temporary files are left out; a
  missing file is shown as \<open>KeyError\<close>. This theory holds the operations and the invariant of one queue;
  \<open>Artifact_Link\<close> composes a sender and a receiver.
\<close>

section \<open>Base64\<close>

definition b64_alphabet :: string where
  "b64_alphabet = ''ABCDEFGHIJKLMNOPQRSTUVWXYZabcdefghijklmnopqrstuvwxyz0123456789+/''"

definition b64_char :: "nat \<Rightarrow> char" where
  "b64_char n = b64_alphabet ! n"

definition b64_value :: "char \<Rightarrow> nat option" where
  "b64_value c = (let i = length (takeWhile (\<lambda>d. d \<noteq> c) b64_alphabet) in if i < 64 then Some i else None)"

fun b64encode :: "string \<Rightarrow> string" where
  "b64encode [] = []"
| "b64encode [a] = (let x = of_char a :: nat in [b64_char (x div 4), b64_char (x mod 4 * 16), CHR ''='', CHR ''=''])"
| "b64encode [a, b] =
     (let x = of_char a :: nat; y = of_char b :: nat
      in [b64_char (x div 4), b64_char (x mod 4 * 16 + y div 16), b64_char (y mod 16 * 4), CHR ''=''])"
| "b64encode (a # b # c # s) =
     (let x = of_char a :: nat; y = of_char b :: nat; z = of_char c :: nat
      in b64_char (x div 4) # b64_char (x mod 4 * 16 + y div 16) # b64_char (y mod 16 * 4 + z div 64) #
         b64_char (z mod 64) # b64encode s)"

text \<open>\<^verbatim>\<open>b64decode(data, validate=True)\<close>; bits that the padding leaves over are dropped.\<close>

fun b64decode :: "string \<Rightarrow> string result" where
  "b64decode [] = Inr []"
| "b64decode (p # q # r # s # t) =
     (case (b64_value p, b64_value q, b64_value r, b64_value s) of
        (Some x, Some y, Some z, Some w) \<Rightarrow>
          bindE (b64decode t) (\<lambda>u. Inr (char_of (x * 4 + y div 16) # char_of (y mod 16 * 16 + z div 4) #
            char_of (z mod 4 * 64 + w) # u))
      | (Some x, Some y, Some z, None) \<Rightarrow>
          if s = CHR ''='' \<and> t = [] then Inr [char_of (x * 4 + y div 16), char_of (y mod 16 * 16 + z div 4)]
          else Inl (ValueError ''invalid base64'')
      | (Some x, Some y, None, None) \<Rightarrow>
          if r = CHR ''='' \<and> s = CHR ''='' \<and> t = [] then Inr [char_of (x * 4 + y div 16)]
          else Inl (ValueError ''invalid base64'')
      | _ \<Rightarrow> Inl (ValueError ''invalid base64''))"
| "b64decode _ = Inl (ValueError ''invalid base64'')"

lemma b64_value_char: "n < 64 \<Longrightarrow> b64_value (b64_char n) = Some n"
proof -
  have "list_all (\<lambda>n. b64_value (b64_char n) = Some n) [0 ..< 64]" by code_simp
  then show "n < 64 \<Longrightarrow> b64_value (b64_char n) = Some n" by (simp add: list_all_iff)
qed

lemma b64_value_pad: "b64_value (CHR ''='') = None" by code_simp

lemma byte_bound: "(of_char c :: nat) < 256"
  using of_char_mod_256 [of c, where 'a = nat] by (metis mod_less_divisor zero_less_numeral)

lemma digit_parts: "b < m \<Longrightarrow> (a * m + b) div m = a" "b < m \<Longrightarrow> (a * m + b) mod m = b" for a b m :: nat
  by simp_all

lemma byte_parts:
  fixes x y z :: nat
  assumes "x < 256" "y < 256" "z < 256"
  shows "x div 4 < 64" "x mod 4 * 16 + y div 16 < 64" "x mod 4 * 16 < 64" "y mod 16 * 4 + z div 64 < 64" "y mod 16 * 4 < 64"
    "z mod 64 < 64"
    "x div 4 * 4 + (x mod 4 * 16 + y div 16) div 16 = x" "x div 4 * 4 + x mod 4 * 16 div 16 = x"
    "(x mod 4 * 16 + y div 16) mod 16 * 16 + (y mod 16 * 4 + z div 64) div 4 = y"
    "(x mod 4 * 16 + y div 16) mod 16 * 16 + y mod 16 * 4 div 4 = y"
    "(y mod 16 * 4 + z div 64) mod 4 * 64 + z mod 64 = z"
proof -
  have b: "x mod 4 < 4" "y mod 16 < 16" "y div 16 < 16" "z div 64 < 4" using assms by simp_all
  have parts: "(x mod 4 * 16 + y div 16) div 16 = x mod 4" "(x mod 4 * 16 + y div 16) mod 16 = y div 16"
    "(y mod 16 * 4 + z div 64) div 4 = y mod 16" "(y mod 16 * 4 + z div 64) mod 4 = z div 64"
    using b by simp_all
  show "x div 4 < 64" "z mod 64 < 64" using assms by simp_all
  show "x mod 4 * 16 + y div 16 < 64" "x mod 4 * 16 < 64" "y mod 16 * 4 + z div 64 < 64" "y mod 16 * 4 < 64"
    using b by linarith+
  show "x div 4 * 4 + (x mod 4 * 16 + y div 16) div 16 = x" "x div 4 * 4 + x mod 4 * 16 div 16 = x"
    "(x mod 4 * 16 + y div 16) mod 16 * 16 + (y mod 16 * 4 + z div 64) div 4 = y"
    "(x mod 4 * 16 + y div 16) mod 16 * 16 + y mod 16 * 4 div 4 = y"
    "(y mod 16 * 4 + z div 64) mod 4 * 64 + z mod 64 = z"
    unfolding parts by simp_all
qed

lemma b64_roundtrip: "b64decode (b64encode s) = Inr s"
proof (induction s rule: b64encode.induct)
  case (2 a)
  show ?case using byte_parts [OF byte_bound [of a] byte_bound [of a] byte_bound [of a]]
    by (simp add: Let_def b64_value_char b64_value_pad)
next
  case (3 a b)
  show ?case using byte_parts [OF byte_bound [of a] byte_bound [of b] byte_bound [of b]]
    by (simp add: Let_def b64_value_char b64_value_pad)
next
  case (4 a b c s)
  then show ?case using byte_parts [OF byte_bound [of a] byte_bound [of b] byte_bound [of c]]
    by (simp add: Let_def b64_value_char)
qed simp

lemma length_b64encode: "length (b64encode s) = (length s + 2) div 3 * 4"
proof (induction s rule: b64encode.induct)
  case (4 a b c s)
  have "(length (a # b # c # s) + 2) div 3 = (length s + 2) div 3 + 1" by simp
  then show ?case using 4 by (simp add: Let_def)
qed (simp_all add: Let_def)

section \<open>Manifests\<close>

definition CHUNK_BYTES :: nat where
  "CHUNK_BYTES = 128 * 1024"

definition MAX_BYTES :: nat where
  "MAX_BYTES = 512 * 1024 ^ 2"

definition MAX_ARTIFACTS :: nat where
  "MAX_ARTIFACTS = 1024"

definition MAX_QUEUE_BYTES :: nat where
  "MAX_QUEUE_BYTES = 4 * 1024 ^ 3"

record codec =
  cd_sha :: "string \<Rightarrow> string"
  cd_dumps :: "json \<Rightarrow> string"
  cd_float :: "flt \<Rightarrow> string"

definition is_alnum :: "char \<Rightarrow> bool" where
  "is_alnum c = (c \<in> set ''ABCDEFGHIJKLMNOPQRSTUVWXYZabcdefghijklmnopqrstuvwxyz0123456789'')"

definition HASH :: "string \<Rightarrow> bool" where
  "HASH = is_hex 64"

definition KEY :: "string \<Rightarrow> bool" where
  "KEY s = (case s of [] \<Rightarrow> False
     | c # cs \<Rightarrow> is_alnum c \<and> length cs \<le> 99 \<and> list_all (\<lambda>c. is_alnum c \<or> c \<in> set ''_.-'') cs)"

definition KINDS :: "string list" where
  "KINDS = [''policy_lease'', ''sealed_group'', ''public_capsule'']"

text \<open>\<^verbatim>\<open>str(value)\<close>; of the text of a list or dictionary only the bracket matters to the two patterns.\<close>

fun py_str :: "codec \<Rightarrow> json \<Rightarrow> string" where
  "py_str cd JNull = ''None''"
| "py_str cd (JBool b) = (if b then ''True'' else ''False'')"
| "py_str cd (JInt i) = show_int i"
| "py_str cd (JFloat f) = cd_float cd f"
| "py_str cd (JStr s) = s"
| "py_str cd (JList _) = ''[''"
| "py_str cd (JObj _) = ''{''"

record art_manifest =
  am_id :: string
  am_kind :: string
  am_key :: json
  am_bytes :: nat
  am_sha256 :: json

text \<open>The document without and with its identity, keys sorted as \<^verbatim>\<open>encoded\<close> writes them.\<close>

definition manifest_body :: "art_manifest \<Rightarrow> json" where
  "manifest_body m =
     JObj [(''bytes'', JInt (int (am_bytes m))), (''chunk_bytes'', JInt (int CHUNK_BYTES)), (''key'', am_key m),
           (''kind'', JStr (am_kind m)), (''schema_version'', JInt 1), (''sha256'', am_sha256 m)]"

definition manifest_json :: "art_manifest \<Rightarrow> json" where
  "manifest_json m =
     JObj [(''bytes'', JInt (int (am_bytes m))), (''chunk_bytes'', JInt (int CHUNK_BYTES)), (''id'', JStr (am_id m)),
           (''key'', am_key m), (''kind'', JStr (am_kind m)), (''schema_version'', JInt 1), (''sha256'', am_sha256 m)]"

definition finite_scalar :: "json \<Rightarrow> bool" where
  "finite_scalar v = (case v of JFloat f \<Rightarrow> isfinite f | _ \<Rightarrow> True)"

definition encoded_body :: "codec \<Rightarrow> art_manifest \<Rightarrow> string result" where
  "encoded_body cd m =
     (if finite_scalar (am_key m) \<and> finite_scalar (am_sha256 m) then Inr (cd_dumps cd (manifest_body m))
      else Inl (ValueError ''Out of range float values are not JSON compliant''))"

definition invalid_manifest :: exn where
  "invalid_manifest = ValueError ''invalid bounded artifact manifest''"

definition manifest_fields :: "codec \<Rightarrow> dict \<Rightarrow> art_manifest result" where
  "manifest_fields cd d =
     (case (dget d ''kind'', dget d ''bytes'', dget d ''chunk_bytes'', dget d ''schema_version'') of
        (JStr kind, JInt n, JInt c, JInt v) \<Rightarrow>
          if v = 1 \<and> kind \<in> set KINDS \<and> KEY (py_str cd (dget d ''key'')) \<and> HASH (py_str cd (dget d ''id'')) \<and>
             HASH (py_str cd (dget d ''sha256'')) \<and> 0 < n \<and> n \<le> int MAX_BYTES \<and> c = int CHUNK_BYTES
          then Inr \<lparr>am_id = py_str cd (dget d ''id''), am_kind = kind, am_key = dget d ''key'', am_bytes = nat n,
                    am_sha256 = dget d ''sha256''\<rparr>
          else Inl invalid_manifest
      | _ \<Rightarrow> Inl invalid_manifest)"

definition validate_manifest :: "codec \<Rightarrow> json \<Rightarrow> art_manifest result" where
  "validate_manifest cd v =
     (if is_obj v \<and> keys_are (fields_of v) [''schema_version'', ''id'', ''kind'', ''key'', ''bytes'', ''sha256'', ''chunk_bytes'']
      then bindE (manifest_fields cd (fields_of v)) (\<lambda>m.
           bindE (encoded_body cd m) (\<lambda>text.
             if dget (fields_of v) ''id'' \<noteq> JStr (cd_sha cd text)
             then Inl (ValueError ''artifact identity does not bind metadata and content'')
             else if am_kind m \<in> {''policy_lease'', ''public_capsule''} \<and> am_bytes m > 1024 ^ 2
             then Inl (ValueError ''policy/public capsule exceeds 1 MiB'')
             else Inr m))
      else Inl invalid_manifest)"

text \<open>Equality of two manifests as Python compares the dictionaries.\<close>

definition same_slot :: "art_manifest \<Rightarrow> art_manifest \<Rightarrow> bool" where
  "same_slot a b \<longleftrightarrow> am_kind a = am_kind b \<and> py_eq (am_key a) (am_key b)"

definition manifest_eq :: "art_manifest \<Rightarrow> art_manifest \<Rightarrow> bool" where
  "manifest_eq a b \<longleftrightarrow> py_eq (manifest_json a) (manifest_json b)"

section \<open>Queues\<close>

record art_entry =
  ae_manifest :: art_manifest
  ae_blob :: "string option"
  ae_chunks :: "(nat \<times> string) list"
  ae_receipt :: "json option"
  ae_delivery :: "json option"

record art_queue =
  aq_role :: "string option"
  aq_outgoing :: "(string \<times> art_entry) list"
  aq_incoming :: "(string \<times> art_entry) list"

definition new_entry :: "art_manifest \<Rightarrow> string option \<Rightarrow> art_entry" where
  "new_entry m blob = \<lparr>ae_manifest = m, ae_blob = blob, ae_chunks = [], ae_receipt = None, ae_delivery = None\<rparr>"

definition ArtifactQueue :: "string option \<Rightarrow> art_queue" where
  "ArtifactQueue role = \<lparr>aq_role = role, aq_outgoing = [], aq_incoming = []\<rparr>"

definition content_pinned :: "codec \<Rightarrow> art_manifest \<Rightarrow> string \<Rightarrow> bool" where
  "content_pinned cd m raw \<longleftrightarrow> length raw = am_bytes m \<and> py_eq (JStr (cd_sha cd raw)) (am_sha256 m)"

text \<open>\<^verbatim>\<open>entry(direction, id)\<close> and the reading of its manifest.\<close>

definition entry_name :: "codec \<Rightarrow> json \<Rightarrow> string result" where
  "entry_name cd v =
     (if \<not> HASH (py_str cd v) then Inl (ValueError ''invalid artifact id'')
      else case v of JStr s \<Rightarrow> Inr s | _ \<Rightarrow> Inl (TypeError ''unsupported operand type''))"

definition read_entry :: "codec \<Rightarrow> (string \<times> art_entry) list \<Rightarrow> string \<Rightarrow> art_entry result" where
  "read_entry cd es name =
     (case map_of es name of None \<Rightarrow> Inl (KeyError ''manifest.json'')
      | Some e \<Rightarrow> bindE (validate_manifest cd (manifest_json (ae_manifest e))) (\<lambda>_. Inr e))"

definition bounded :: "codec \<Rightarrow> nat \<Rightarrow> art_queue \<Rightarrow> unit result" where
  "bounded cd extra q =
     (let entries = aq_incoming q @ aq_outgoing q in
      bindE (mapE (\<lambda>(_, e). validate_manifest cd (manifest_json (ae_manifest e))) entries) (\<lambda>ms.
        if length entries \<ge> MAX_ARTIFACTS \<or> sum_list (map am_bytes ms) + extra > MAX_QUEUE_BYTES
        then Inl (ValueError ''artifact evidence storage bound reached; no deletion or replay'') else Inr ()))"

definition publish_manifest :: "codec \<Rightarrow> string \<Rightarrow> json \<Rightarrow> string \<Rightarrow> art_manifest result" where
  "publish_manifest cd kind key source =
     (let m = \<lparr>am_id = [], am_kind = kind, am_key = key, am_bytes = length source, am_sha256 = JStr (cd_sha cd source)\<rparr>
      in bindE (encoded_body cd m) (\<lambda>text. validate_manifest cd (manifest_json (m\<lparr>am_id := cd_sha cd text\<rparr>))))"

definition publish_artifact :: "codec \<Rightarrow> string \<Rightarrow> json \<Rightarrow> string \<Rightarrow> art_queue \<Rightarrow> art_manifest result \<times> art_queue" where
  "publish_artifact cd kind key source q =
     (case publish_manifest cd kind key source of Inl e \<Rightarrow> (Inl e, q)
      | Inr m \<Rightarrow>
          (case find (\<lambda>(_, e). same_slot (ae_manifest e) m) (aq_outgoing q) of
             Some (_, e) \<Rightarrow>
               (if manifest_eq (ae_manifest e) m then Inr m
                else Inl (ValueError ''artifact key already binds different immutable content''), q)
           | None \<Rightarrow>
               (case bounded cd (am_bytes m) q of Inl x \<Rightarrow> (Inl x, q)
                | Inr _ \<Rightarrow>
                    if map_of (aq_outgoing q) (am_id m) \<noteq> None then (Inl FileExistsError, q)
                    else (Inr m, q\<lparr>aq_outgoing := aq_outgoing q @ [(am_id m, new_entry m (Some source))]\<rparr>))))"

definition next_artifact :: "codec \<Rightarrow> art_queue \<Rightarrow> art_manifest option result" where
  "next_artifact cd q =
     (case find (\<lambda>(_, e). ae_delivery e = None) (sort_key fst (aq_outgoing q)) of None \<Rightarrow> Inr None
      | Some (_, e) \<Rightarrow> bindE (validate_manifest cd (manifest_json (ae_manifest e))) (\<lambda>m. Inr (Some m)))"

definition artifact_status :: "art_queue \<Rightarrow> nat \<times> nat" where
  "artifact_status q =
     (length (filter (\<lambda>(_, e). ae_delivery e = None) (aq_outgoing q)),
      length (filter (\<lambda>(_, e). ae_receipt e = None) (aq_incoming q)))"

definition chunk_count :: "nat \<Rightarrow> nat" where
  "chunk_count n = (n + CHUNK_BYTES - 1) div CHUNK_BYTES"

definition chunk_of :: "string \<Rightarrow> nat \<Rightarrow> string" where
  "chunk_of blob i = take CHUNK_BYTES (drop (i * CHUNK_BYTES) blob)"

definition send_chunk :: "codec \<Rightarrow> json \<Rightarrow> json \<Rightarrow> art_queue \<Rightarrow> json result" where
  "send_chunk cd identity index q =
     bindE (entry_name cd identity) (\<lambda>name.
     bindE (read_entry cd (aq_outgoing q) name) (\<lambda>e.
       case index of
         JInt i \<Rightarrow>
           if 0 \<le> i \<and> i < int (chunk_count (am_bytes (ae_manifest e)))
           then (case ae_blob e of None \<Rightarrow> Inl (KeyError ''blob'')
                 | Some blob \<Rightarrow>
                     let raw = chunk_of blob (nat i) in
                     Inr (JObj [(''id'', identity), (''index'', index), (''data'', JStr (b64encode raw)),
                                (''sha256'', JStr (cd_sha cd raw))]))
           else Inl (ValueError ''invalid artifact chunk index'')
       | _ \<Rightarrow> Inl (ValueError ''invalid artifact chunk index'')))"

definition role_admits :: "string option \<Rightarrow> string \<Rightarrow> bool" where
  "role_admits role kind \<longleftrightarrow>
     \<not> (role = Some ''cpu'' \<and> kind \<noteq> ''policy_lease'' \<or> role = Some ''gpu'' \<and> kind = ''policy_lease'')"

fun first_gap :: "nat \<Rightarrow> nat \<Rightarrow> (nat \<times> string) list \<Rightarrow> nat" where
  "first_gap fuel i cs = (case fuel of 0 \<Rightarrow> i | Suc f \<Rightarrow> if map_of cs i = None then i else first_gap f (Suc i) cs)"

definition start_reply :: "art_entry \<Rightarrow> json" where
  "start_reply e =
     JObj [(''id'', JStr (am_id (ae_manifest e))),
           (''next_index'', JInt (int (first_gap (length (ae_chunks e)) 0 (ae_chunks e)))),
           (''committed'', JBool (ae_receipt e \<noteq> None))]"

definition start_artifact :: "codec \<Rightarrow> json \<Rightarrow> art_queue \<Rightarrow> json result \<times> art_queue" where
  "start_artifact cd v q =
     (case validate_manifest cd v of Inl x \<Rightarrow> (Inl x, q)
      | Inr m \<Rightarrow>
          if \<not> role_admits (aq_role q) (am_kind m)
          then (Inl (ValueError ''artifact kind is not admitted for this relay role''), q)
          else if list_ex (\<lambda>(_, e). same_slot (ae_manifest e) m \<and> \<not> manifest_eq (ae_manifest e) m) (aq_incoming q)
          then (Inl (ValueError ''received artifact key already has different content''), q)
          else (case map_of (aq_incoming q) (am_id m) of
             Some e \<Rightarrow> (if manifest_eq (ae_manifest e) m then Inr (start_reply e)
                        else Inl (ValueError ''artifact manifest conflict''), q)
           | None \<Rightarrow>
               (case bounded cd (am_bytes m) q of Inl x \<Rightarrow> (Inl x, q)
                | Inr _ \<Rightarrow> (Inr (start_reply (new_entry m None)),
                    q\<lparr>aq_incoming := aq_incoming q @ [(am_id m, new_entry m None)]\<rparr>))))"

definition update_entry :: "string \<Rightarrow> (art_entry \<Rightarrow> art_entry) \<Rightarrow> (string \<times> art_entry) list \<Rightarrow> (string \<times> art_entry) list" where
  "update_entry name f es = map (\<lambda>(k, e). (k, if k = name then f e else e)) es"

definition chunk_packet :: "dict \<Rightarrow> (int \<times> string) result" where
  "chunk_packet d =
     (if \<not> keys_are d [''id'', ''index'', ''data'', ''sha256''] then Inl (ValueError ''invalid artifact chunk'')
      else case dget d ''index'' of
        JInt i \<Rightarrow>
          (case dget d ''data'' of
             JStr text \<Rightarrow>
               if length text > (CHUNK_BYTES + 2) div 3 * 4 then Inl (ValueError ''artifact chunk exceeds bound'')
               else bindE (b64decode text) (\<lambda>raw. Inr (i, raw))
           | _ \<Rightarrow> Inl (ValueError ''artifact chunk exceeds bound''))
      | _ \<Rightarrow> Inl (ValueError ''invalid artifact chunk''))"

definition chunk_reply :: "dict \<Rightarrow> json" where
  "chunk_reply d = JObj [(''id'', dget d ''id''), (''index'', dget d ''index''), (''sha256'', dget d ''sha256''), (''durable'', JBool True)]"

definition receive_chunk_with :: "(string \<Rightarrow> string) \<Rightarrow> codec \<Rightarrow> dict \<Rightarrow> art_queue \<Rightarrow> json result \<times> art_queue" where
  "receive_chunk_with written cd d q =
     (case chunk_packet d of Inl x \<Rightarrow> (Inl x, q)
      | Inr (i, raw) \<Rightarrow>
          if \<not> py_eq (JStr (cd_sha cd raw)) (dget d ''sha256'') then (Inl (ValueError ''artifact chunk hash mismatch''), q)
          else case bindE (entry_name cd (dget d ''id'')) (\<lambda>name. bindE (read_entry cd (aq_incoming q) name) (\<lambda>e. Inr (name, e))) of
            Inl x \<Rightarrow> (Inl x, q)
          | Inr (name, e) \<Rightarrow>
              let remaining = int (am_bytes (ae_manifest e)) - i * int CHUNK_BYTES in
              if i < 0 \<or> remaining \<le> 0 \<or> int (length raw) \<noteq> min (int CHUNK_BYTES) remaining
              then (Inl (ValueError ''artifact chunk length or index differs from manifest''), q)
              else if i \<noteq> 0 \<and> map_of (ae_chunks e) (nat i - 1) = None
              then (Inl (ValueError ''artifact chunk is out of order''), q)
              else (case map_of (ae_chunks e) (nat i) of
                 Some old \<Rightarrow>
                   (if old \<noteq> raw then Inl (ValueError ''artifact chunk conflicts with durable bytes'') else Inr (chunk_reply d), q)
               | None \<Rightarrow>
                   (Inr (chunk_reply d),
                    q\<lparr>aq_incoming := update_entry name (\<lambda>e. e\<lparr>ae_chunks := (nat i, written raw) # ae_chunks e\<rparr>) (aq_incoming q)\<rparr>)))"

definition receive_chunk :: "codec \<Rightarrow> dict \<Rightarrow> art_queue \<Rightarrow> json result \<times> art_queue" where
  "receive_chunk = receive_chunk_with id"

definition receive_torn :: "nat \<Rightarrow> codec \<Rightarrow> dict \<Rightarrow> art_queue \<Rightarrow> art_queue" where
  "receive_torn k cd d q = snd (receive_chunk_with (take k) cd d q)"

definition receipt_json :: "art_manifest \<Rightarrow> json" where
  "receipt_json m =
     JObj [(''schema_version'', JInt 1), (''id'', JStr (am_id m)), (''bytes'', JInt (int (am_bytes m))),
           (''sha256'', am_sha256 m), (''durable'', JBool True)]"

definition reconstruct :: "art_entry \<Rightarrow> string result" where
  "reconstruct e =
     bindE (mapE (\<lambda>i. case map_of (ae_chunks e) i of None \<Rightarrow> Inl (KeyError ''chunk'') | Some raw \<Rightarrow> Inr raw)
              [0 ..< chunk_count (am_bytes (ae_manifest e))]) (\<lambda>raws. Inr (concat raws))"

definition commit_artifact :: "codec \<Rightarrow> json \<Rightarrow> art_queue \<Rightarrow> json result \<times> art_queue" where
  "commit_artifact cd identity q =
     (case bindE (entry_name cd identity) (\<lambda>name. bindE (read_entry cd (aq_incoming q) name) (\<lambda>e. Inr (name, e))) of
        Inl x \<Rightarrow> (Inl x, q)
      | Inr (name, e) \<Rightarrow>
          let receipt = receipt_json (ae_manifest e) in
          (case ae_receipt e of
             Some old \<Rightarrow> (if py_eq old receipt then Inr receipt else Inl (ValueError ''artifact commit conflicts''), q)
           | None \<Rightarrow>
               (case reconstruct e of Inl x \<Rightarrow> (Inl x, q)
                | Inr blob \<Rightarrow>
                    if \<not> content_pinned cd (ae_manifest e) blob then (Inl (ValueError ''artifact final hash mismatch''), q)
                    else (Inr receipt,
                      q\<lparr>aq_incoming := update_entry name (\<lambda>e. e\<lparr>ae_blob := Some blob, ae_receipt := Some receipt\<rparr>) (aq_incoming q)\<rparr>))))"

definition acknowledge_artifact :: "codec \<Rightarrow> json \<Rightarrow> art_queue \<Rightarrow> json result \<times> art_queue" where
  "acknowledge_artifact cd receipt q =
     (if \<not> is_obj receipt then (Inl (TypeError ''object has no attribute get''), q)
      else case bindE (entry_name cd (dget (fields_of receipt) ''id''))
          (\<lambda>name. bindE (read_entry cd (aq_outgoing q) name) (\<lambda>e. Inr (name, e))) of
        Inl x \<Rightarrow> (Inl x, q)
      | Inr (name, e) \<Rightarrow>
          if \<not> py_eq receipt (receipt_json (ae_manifest e))
          then (Inl (ValueError ''artifact delivery acknowledgement is not content-bound''), q)
          else (case ae_delivery e of
             Some old \<Rightarrow> (if py_eq old receipt then Inr receipt else Inl (ValueError ''artifact delivery acknowledgement changed''), q)
           | None \<Rightarrow> (Inr receipt, q\<lparr>aq_outgoing := update_entry name (\<lambda>e. e\<lparr>ae_delivery := Some receipt\<rparr>) (aq_outgoing q)\<rparr>)))"

fun received_scan :: "codec \<Rightarrow> string \<Rightarrow> json \<Rightarrow> (string \<times> art_entry) list \<Rightarrow> (art_manifest \<times> string) option result" where
  "received_scan cd kind key [] = Inr None"
| "received_scan cd kind key ((_, e) # es) =
     bindE (validate_manifest cd (manifest_json (ae_manifest e))) (\<lambda>m.
       if am_kind m = kind \<and> py_eq (am_key m) key \<and> ae_receipt e \<noteq> None
       then (case ae_blob e of None \<Rightarrow> Inl (KeyError ''blob'')
             | Some blob \<Rightarrow> if content_pinned cd m blob then Inr (Some (m, blob)) else Inl (ValueError ''committed artifact bytes changed''))
       else received_scan cd kind key es)"

definition received_artifact :: "codec \<Rightarrow> string \<Rightarrow> json \<Rightarrow> art_queue \<Rightarrow> (art_manifest \<times> string) option result" where
  "received_artifact cd kind key q =
     (if kind \<notin> set KINDS \<or> \<not> KEY (py_str cd key) then Inl (ValueError ''invalid artifact lookup'')
      else received_scan cd kind key (aq_incoming q))"

definition artifact_api :: "codec \<Rightarrow> string \<Rightarrow> dict \<Rightarrow> art_queue \<Rightarrow> json result \<times> art_queue" where
  "artifact_api cd route d q =
     (if route = ''/api/artifact-next'' \<and> d = []
      then (map_sum id (\<lambda>m. case m of None \<Rightarrow> JNull | Some m \<Rightarrow> manifest_json m) (next_artifact cd q), q)
      else if route = ''/api/artifact-read'' \<and> keys_are d [''id'', ''index'']
      then (send_chunk cd (dget d ''id'') (dget d ''index'') q, q)
      else if route = ''/api/artifact-start'' then start_artifact cd (JObj d) q
      else if route = ''/api/artifact-chunk'' then receive_chunk cd d q
      else if route = ''/api/artifact-commit'' \<and> keys_are d [''id''] then commit_artifact cd (dget d ''id'') q
      else if route = ''/api/artifact-ack'' then acknowledge_artifact cd (JObj d) q
      else (Inl (ValueError ''invalid artifact operation''), q))"

section \<open>Manifests stay valid\<close>

lemma wf_scalar: "finite_scalar v \<Longrightarrow> KEY (py_str cd v) \<or> HASH (py_str cd v) \<Longrightarrow> wf_json v"
  by (cases v) (auto simp: finite_scalar_def KEY_def HASH_def is_hex_def is_alnum_def split: flt.splits)

lemma manifest_fields_facts:
  assumes "manifest_fields cd d = Inr m"
  shows "am_id m = py_str cd (dget d ''id'')" "dget d ''kind'' = JStr (am_kind m)" "am_key m = dget d ''key''"
    "dget d ''bytes'' = JInt (int (am_bytes m))" "am_sha256 m = dget d ''sha256''" "am_kind m \<in> set KINDS"
    "KEY (py_str cd (am_key m))" "HASH (am_id m)" "HASH (py_str cd (am_sha256 m))" "0 < am_bytes m" "am_bytes m \<le> MAX_BYTES"
  using assms by (auto simp: manifest_fields_def split: json.splits if_splits)

lemma validate_facts:
  assumes "validate_manifest cd v = Inr m"
  shows "manifest_fields cd (fields_of v) = Inr m" "finite_scalar (am_key m)" "finite_scalar (am_sha256 m)"
    "am_id m = cd_sha cd (cd_dumps cd (manifest_body m))"
    "am_kind m \<in> {''policy_lease'', ''public_capsule''} \<Longrightarrow> am_bytes m \<le> 1024 ^ 2"
proof -
  show f: "manifest_fields cd (fields_of v) = Inr m" "finite_scalar (am_key m)" "finite_scalar (am_sha256 m)"
    "am_kind m \<in> {''policy_lease'', ''public_capsule''} \<Longrightarrow> am_bytes m \<le> 1024 ^ 2"
    using assms by (auto simp: validate_manifest_def encoded_body_def result_simps split: if_splits)
  have "dget (fields_of v) ''id'' = JStr (cd_sha cd (cd_dumps cd (manifest_body m)))"
    using assms by (auto simp: validate_manifest_def encoded_body_def result_simps split: if_splits)
  then show "am_id m = cd_sha cd (cd_dumps cd (manifest_body m))" using manifest_fields_facts(1) [OF f(1)] by simp
qed

lemma validate_again:
  assumes "validate_manifest cd v = Inr m"
  shows "validate_manifest cd (manifest_json m) = Inr m"
proof -
  note v = validate_facts [OF assms] and f = manifest_fields_facts [OF validate_facts(1) [OF assms]]
  have "manifest_fields cd (fields_of (manifest_json m)) = Inr m"
    using f by (simp add: manifest_fields_def manifest_json_def)
  moreover have "keys_are (fields_of (manifest_json m)) [''schema_version'', ''id'', ''kind'', ''key'', ''bytes'', ''sha256'', ''chunk_bytes'']"
    by (auto simp: keys_are_def manifest_json_def)
  ultimately show ?thesis
    using v by (auto simp: validate_manifest_def encoded_body_def manifest_json_def)
qed

lemma manifest_refl:
  assumes "validate_manifest cd v = Inr m"
  shows "manifest_eq m m" "same_slot m m" "py_eq (receipt_json m) (receipt_json m)"
proof -
  note v = validate_facts [OF assms] and f = manifest_fields_facts [OF validate_facts(1) [OF assms]]
  have wf: "wf_json (am_key m)" "wf_json (am_sha256 m)" using v f wf_scalar by blast+
  then show "manifest_eq m m" "same_slot m m" "py_eq (receipt_json m) (receipt_json m)"
    unfolding manifest_eq_def same_slot_def
    by (auto intro!: py_eq_refl simp: manifest_json_def receipt_json_def)
qed

section \<open>Directories\<close>

lemma update_entry_facts:
  "map fst (update_entry n f es) = map fst es"
  "(k, e') \<in> set (update_entry n f es) \<longleftrightarrow> (\<exists>e. (k, e) \<in> set es \<and> e' = (if k = n then f e else e))"
  "map_of (update_entry n f es) k = map_option (\<lambda>e. if k = n then f e else e) (map_of es k)"
proof -
  show "map fst (update_entry n f es) = map fst es" by (simp add: update_entry_def split_def comp_def)
  show "(k, e') \<in> set (update_entry n f es) \<longleftrightarrow> (\<exists>e. (k, e) \<in> set es \<and> e' = (if k = n then f e else e))"
    by (force simp: update_entry_def)
  show "map_of (update_entry n f es) k = map_option (\<lambda>e. if k = n then f e else e) (map_of es k)"
    by (induction es) (auto simp: update_entry_def)
qed

definition valid_entries :: "codec \<Rightarrow> (string \<times> art_entry) list \<Rightarrow> bool" where
  "valid_entries cd es \<longleftrightarrow> distinct (map fst es) \<and>
     (\<forall>(n, e) \<in> set es. am_id (ae_manifest e) = n \<and> validate_manifest cd (manifest_json (ae_manifest e)) = Inr (ae_manifest e))"

definition chunks_ok :: "nat \<Rightarrow> (nat \<times> string) list \<Rightarrow> bool" where
  "chunks_ok n cs \<longleftrightarrow> distinct (map fst cs) \<and>
     (\<forall>(i, raw) \<in> set cs. i < chunk_count n \<and> length raw \<le> min CHUNK_BYTES (n - i * CHUNK_BYTES) \<and>
        (0 < i \<longrightarrow> i - 1 \<in> fst ` set cs))"

definition sent_ok :: "codec \<Rightarrow> art_entry \<Rightarrow> bool" where
  "sent_ok cd e \<longleftrightarrow> (\<exists>blob. ae_blob e = Some blob \<and> content_pinned cd (ae_manifest e) blob) \<and>
     (ae_delivery e \<noteq> None \<longrightarrow> (\<exists>r. ae_delivery e = Some r \<and> py_eq r (receipt_json (ae_manifest e))))"

definition received_ok :: "codec \<Rightarrow> art_entry \<Rightarrow> bool" where
  "received_ok cd e \<longleftrightarrow> chunks_ok (am_bytes (ae_manifest e)) (ae_chunks e) \<and>
     (ae_receipt e \<noteq> None \<longrightarrow> ae_receipt e = Some (receipt_json (ae_manifest e)) \<and>
        (\<exists>blob. ae_blob e = Some blob \<and> content_pinned cd (ae_manifest e) blob))"

definition stored_bytes :: "(string \<times> art_entry) list \<Rightarrow> nat" where
  "stored_bytes es = sum_list (map (\<lambda>(_, e). am_bytes (ae_manifest e)) es)"

definition within_storage :: "art_queue \<Rightarrow> bool" where
  "within_storage q \<longleftrightarrow> length (aq_incoming q @ aq_outgoing q) \<le> MAX_ARTIFACTS \<and>
     stored_bytes (aq_incoming q @ aq_outgoing q) \<le> MAX_QUEUE_BYTES"

definition queue_inv :: "codec \<Rightarrow> art_queue \<Rightarrow> bool" where
  "queue_inv cd q \<longleftrightarrow> valid_entries cd (aq_incoming q) \<and> valid_entries cd (aq_outgoing q) \<and>
     (\<forall>(n, e) \<in> set (aq_outgoing q). sent_ok cd e) \<and> (\<forall>(n, e) \<in> set (aq_incoming q). received_ok cd e) \<and> within_storage q"

lemma queue_invI:
  "valid_entries cd (aq_incoming q) \<Longrightarrow> valid_entries cd (aq_outgoing q) \<Longrightarrow> (\<And>n e. (n, e) \<in> set (aq_outgoing q) \<Longrightarrow> sent_ok cd e) \<Longrightarrow>
    (\<And>n e. (n, e) \<in> set (aq_incoming q) \<Longrightarrow> received_ok cd e) \<Longrightarrow> within_storage q \<Longrightarrow> queue_inv cd q"
  by (auto simp: queue_inv_def)

lemma valid_update:
  "valid_entries cd es \<Longrightarrow> (\<And>e. ae_manifest (f e) = ae_manifest e) \<Longrightarrow> valid_entries cd (update_entry n f es)"
  unfolding valid_entries_def update_entry_facts(1) by (fastforce simp: update_entry_facts(2))

lemma stored_update: "(\<And>e. ae_manifest (f e) = ae_manifest e) \<Longrightarrow> stored_bytes (update_entry n f es) = stored_bytes es"
  by (induction es) (auto simp: update_entry_def stored_bytes_def)

lemma length_update [simp]: "length (update_entry n f es) = length es"
  by (simp add: update_entry_def)

lemma stored_append: "stored_bytes (xs @ ys) = stored_bytes xs + stored_bytes ys"
  by (simp add: stored_bytes_def)

lemma read_entry_Inr:
  "read_entry cd es n = Inr e \<longleftrightarrow> map_of es n = Some e \<and> (\<exists>m. validate_manifest cd (manifest_json (ae_manifest e)) = Inr m)"
  by (auto simp: read_entry_def bindE_def split: option.splits sum.splits)

lemma bounded_Inr:
  assumes "valid_entries cd (aq_incoming q)" "valid_entries cd (aq_outgoing q)" "bounded cd extra q = Inr u"
  shows "length (aq_incoming q @ aq_outgoing q) < MAX_ARTIFACTS"
    "stored_bytes (aq_incoming q @ aq_outgoing q) + extra \<le> MAX_QUEUE_BYTES"
proof -
  have "mapE (\<lambda>(_, e). validate_manifest cd (manifest_json (ae_manifest e))) (aq_incoming q @ aq_outgoing q) =
      Inr (map (\<lambda>(_, e). ae_manifest e) (aq_incoming q @ aq_outgoing q))"
    using assms(1,2) by (intro mapE_all_Inr) (auto simp: valid_entries_def)
  then show "length (aq_incoming q @ aq_outgoing q) < MAX_ARTIFACTS"
    "stored_bytes (aq_incoming q @ aq_outgoing q) + extra \<le> MAX_QUEUE_BYTES"
    using assms(3) by (auto simp: bounded_def Let_def stored_bytes_def comp_def split_def split: if_splits)
qed

section \<open>Every operation keeps the invariant\<close>

lemma publish_manifest_facts:
  assumes "publish_manifest cd kind key source = Inr m"
  shows "validate_manifest cd (manifest_json m) = Inr m" "am_kind m = kind" "am_key m = key" "content_pinned cd m source"
proof -
  obtain body where v: "validate_manifest cd (manifest_json \<lparr>am_id = cd_sha cd body, am_kind = kind, am_key = key,
      am_bytes = length source, am_sha256 = JStr (cd_sha cd source)\<rparr>) = Inr m"
    using assms by (auto simp: publish_manifest_def Let_def)
  show "validate_manifest cd (manifest_json m) = Inr m" by (rule validate_again [OF v])
  note f = manifest_fields_facts [OF validate_facts(1) [OF v]]
  show "am_kind m = kind" "am_key m = key" "content_pinned cd m source"
    using f(2-5) by (auto simp: manifest_json_def content_pinned_def)
qed

lemma publish_cases:
  assumes "publish_artifact cd kind key source q = (r, q')"
  obtains "q' = q"
  | m where "r = Inr m" "publish_manifest cd kind key source = Inr m" "bounded cd (am_bytes m) q = Inr ()"
    "map_of (aq_outgoing q) (am_id m) = None" "q' = q\<lparr>aq_outgoing := aq_outgoing q @ [(am_id m, new_entry m (Some source))]\<rparr>"
proof (cases "publish_manifest cd kind key source")
  case (Inl x)
  then show thesis using assms that(1) by (simp add: publish_artifact_def)
next
  case (Inr m)
  note m = this
  show thesis
  proof (cases "find (\<lambda>(_, e). same_slot (ae_manifest e) m) (aq_outgoing q)")
    case None
    show thesis
    proof (cases "bounded cd (am_bytes m) q")
      case (Inl x)
      then show thesis using assms m None that(1) by (simp add: publish_artifact_def)
    next
      case (Inr u)
      then show thesis
        using assms m None that(1) that(2) [OF _ m] by (simp add: publish_artifact_def split: if_splits)
    qed
  next
    case (Some p)
    then show thesis using assms m that(1) by (cases p) (simp add: publish_artifact_def)
  qed
qed

lemma start_cases:
  assumes "start_artifact cd v q = (r, q')"
  obtains "q' = q"
  | m where "validate_manifest cd v = Inr m" "bounded cd (am_bytes m) q = Inr ()" "role_admits (aq_role q) (am_kind m)"
    "map_of (aq_incoming q) (am_id m) = None" "q' = q\<lparr>aq_incoming := aq_incoming q @ [(am_id m, new_entry m None)]\<rparr>"
proof (cases "validate_manifest cd v")
  case (Inl x)
  then show thesis using assms that(1) by (simp add: start_artifact_def)
next
  case (Inr m)
  note m = this
  show thesis
  proof (cases "map_of (aq_incoming q) (am_id m) = None \<and> role_admits (aq_role q) (am_kind m)")
    case True
    show thesis
    proof (cases "bounded cd (am_bytes m) q")
      case (Inl x)
      then show thesis using assms m True that(1) by (simp add: start_artifact_def split: if_splits)
    next
      case (Inr u)
      then show thesis using assms m True that(1) that(2) [OF m] by (simp add: start_artifact_def split: if_splits)
    qed
  next
    case False
    then show thesis using assms m that(1) by (auto simp: start_artifact_def split: if_splits option.splits sum.splits)
  qed
qed

lemma receive_cases:
  assumes "receive_chunk_with w cd d q = (r, q')"
  obtains "q' = q"
  | name e i raw where "dget d ''id'' = JStr name" "map_of (aq_incoming q) name = Some e" "chunk_packet d = Inr (int i, raw)"
    "i * CHUNK_BYTES < am_bytes (ae_manifest e)" "length raw = min CHUNK_BYTES (am_bytes (ae_manifest e) - i * CHUNK_BYTES)"
    "map_of (ae_chunks e) i = None" "0 < i \<Longrightarrow> map_of (ae_chunks e) (i - 1) \<noteq> None" "r = Inr (chunk_reply d)"
    "q' = q\<lparr>aq_incoming := update_entry name (\<lambda>e. e\<lparr>ae_chunks := (i, w raw) # ae_chunks e\<rparr>) (aq_incoming q)\<rparr>"
proof (cases "q' = q")
  case False
  obtain i raw where p: "chunk_packet d = Inr (i, raw)"
    using assms False by (cases "chunk_packet d") (auto simp: receive_chunk_with_def)
  obtain name e where n: "bindE (entry_name cd (dget d ''id'')) (\<lambda>name. bindE (read_entry cd (aq_incoming q) name) (\<lambda>e. Inr (name, e))) = Inr (name, e)"
    using assms False p
    by (cases "bindE (entry_name cd (dget d ''id'')) (\<lambda>name. bindE (read_entry cd (aq_incoming q) name) (\<lambda>e. Inr (name, e)))")
      (auto simp: receive_chunk_with_def split: if_splits)
  have f: "0 \<le> i" "0 < int (am_bytes (ae_manifest e)) - i * int CHUNK_BYTES"
      "int (length raw) = min (int CHUNK_BYTES) (int (am_bytes (ae_manifest e)) - i * int CHUNK_BYTES)"
      "i \<noteq> 0 \<Longrightarrow> map_of (ae_chunks e) (nat i - 1) \<noteq> None" "map_of (ae_chunks e) (nat i) = None" "r = Inr (chunk_reply d)"
      "q' = q\<lparr>aq_incoming := update_entry name (\<lambda>e. e\<lparr>ae_chunks := (nat i, w raw) # ae_chunks e\<rparr>) (aq_incoming q)\<rparr>"
    using assms False by (auto simp: receive_chunk_with_def p n Let_def split: if_splits option.splits)
  obtain j where j: "i = int j" using f(1) nonneg_int_cases by blast
  have "int j * int CHUNK_BYTES = int (j * CHUNK_BYTES)" by simp
  then have len: "j * CHUNK_BYTES < am_bytes (ae_manifest e)"
    "length raw = min CHUNK_BYTES (am_bytes (ae_manifest e) - j * CHUNK_BYTES)"
    using f(2,3) unfolding j by linarith+
  show thesis
    using that(2) [of name e j raw] f(4-7) p n len unfolding j
    by (auto simp: entry_name_def bindE_Inr_iff read_entry_Inr split: if_splits json.splits)
qed (use that(1) in blast)

lemma pinned_iff: "content_pinned cd m raw \<longleftrightarrow> length raw = am_bytes m \<and> am_sha256 m = JStr (cd_sha cd raw)"
  by (auto simp: content_pinned_def split: json.splits)

lemma named_entry:
  "bindE (entry_name cd v) (\<lambda>name. bindE (read_entry cd es name) (\<lambda>e. Inr (name, e))) = Inr (name, e) \<Longrightarrow>
     v = JStr name \<and> map_of es name = Some e"
  by (auto simp: entry_name_def bindE_Inr_iff read_entry_Inr split: if_splits json.splits)

lemma commit_cases:
  assumes "commit_artifact cd v q = (r, q')"
  obtains x where "q' = q" "r = Inl x"
  | name e old where "q' = q" "v = JStr name" "map_of (aq_incoming q) name = Some e" "ae_receipt e = Some old"
    "r = Inr (receipt_json (ae_manifest e))"
  | name e blob where "v = JStr name" "map_of (aq_incoming q) name = Some e" "ae_receipt e = None" "reconstruct e = Inr blob"
    "content_pinned cd (ae_manifest e) blob" "r = Inr (receipt_json (ae_manifest e))"
    "q' = q\<lparr>aq_incoming := update_entry name
        (\<lambda>e'. e'\<lparr>ae_blob := Some blob, ae_receipt := Some (receipt_json (ae_manifest e))\<rparr>) (aq_incoming q)\<rparr>"
proof (cases "bindE (entry_name cd v) (\<lambda>name. bindE (read_entry cd (aq_incoming q) name) (\<lambda>e. Inr (name, e)))")
  case (Inl x)
  then show thesis using assms that(1) [of x] by (simp add: commit_artifact_def)
next
  case (Inr ne)
  obtain name e where ne: "ne = (name, e)" by (cases ne)
  note n = Inr [unfolded ne]
  note f = named_entry [OF n] and a = assms [unfolded commit_artifact_def n sum.case prod.case Let_def]
  show thesis
  proof (cases "ae_receipt e")
    case None
    show thesis
    proof (cases "reconstruct e")
      case (Inr blob)
      then show thesis
        using a None f that(1) that(3) [OF _ _ None Inr] by (auto split: if_splits)
    qed (use a None that(1) in auto)
  next
    case (Some old)
    then show thesis
      using a f that(1) that(2) [OF _ _ _ Some] by (auto split: if_splits)
  qed
qed

lemma acknowledge_cases:
  assumes "acknowledge_artifact cd v q = (r, q')"
  obtains "q' = q"
  | name e where "dget (fields_of v) ''id'' = JStr name" "map_of (aq_outgoing q) name = Some e" "py_eq v (receipt_json (ae_manifest e))"
    "q' = q\<lparr>aq_outgoing := update_entry name (\<lambda>e. e\<lparr>ae_delivery := Some v\<rparr>) (aq_outgoing q)\<rparr>"
proof (cases "bindE (entry_name cd (dget (fields_of v) ''id'')) (\<lambda>name. bindE (read_entry cd (aq_outgoing q) name) (\<lambda>e. Inr (name, e)))")
  case (Inl x)
  then show thesis using assms that(1) by (simp add: acknowledge_artifact_def split: if_splits)
next
  case (Inr ne)
  obtain name e where ne: "ne = (name, e)" by (cases ne)
  note n = Inr [unfolded ne]
  note f = named_entry [OF n] and a = assms [unfolded acknowledge_artifact_def n sum.case prod.case]
  show thesis
  proof (cases "is_obj v \<and> py_eq v (receipt_json (ae_manifest e)) \<and> ae_delivery e = None")
    case True
    then show thesis using a f that(2) [of name e] by simp
  next
    case False
    then have "q' = q" using a by (auto split: if_splits option.splits)
    then show thesis by (rule that(1))
  qed
qed

lemma valid_append:
  "valid_entries cd es \<Longrightarrow> map_of es (am_id m) = None \<Longrightarrow> validate_manifest cd (manifest_json m) = Inr m \<Longrightarrow>
    valid_entries cd (es @ [(am_id m, new_entry m blob)])"
  by (auto simp: valid_entries_def new_entry_def map_of_eq_None_iff)

lemma valid_lookup:
  assumes "valid_entries cd es" "map_of es n = Some e"
  shows "validate_manifest cd (manifest_json (ae_manifest e)) = Inr (ae_manifest e)" "am_id (ae_manifest e) = n"
  using assms map_of_SomeD [OF assms(2)] by (auto simp: valid_entries_def)

lemma valid_member: "valid_entries cd es \<Longrightarrow> (n, e) \<in> set es \<longleftrightarrow> map_of es n = Some e"
  by (auto simp: valid_entries_def)

lemma publish_artifact_inv:
  assumes "queue_inv cd q"
  shows "queue_inv cd (snd (publish_artifact cd kind key source q))"
proof -
  obtain r q' where e: "publish_artifact cd kind key source q = (r, q')" by (cases "publish_artifact cd kind key source q")
  have "queue_inv cd q'"
  proof (rule publish_cases [OF e])
    fix m
    assume m: "publish_manifest cd kind key source = Inr m" "bounded cd (am_bytes m) q = Inr ()" "map_of (aq_outgoing q) (am_id m) = None"
      "q' = q\<lparr>aq_outgoing := aq_outgoing q @ [(am_id m, new_entry m (Some source))]\<rparr>"
    note p = publish_manifest_facts [OF m(1)]
    have v: "valid_entries cd (aq_incoming q)" "valid_entries cd (aq_outgoing q)" using assms by (simp_all add: queue_inv_def)
    have "within_storage q'"
      using bounded_Inr [OF v m(2)] by (simp add: m(4) within_storage_def stored_append stored_bytes_def new_entry_def)
    then show ?thesis
      using assms valid_append [OF v(2) m(3) p(1)] p(4)
      by (auto simp: queue_inv_def m(4) sent_ok_def new_entry_def)
  qed (use assms in simp)
  then show ?thesis by (simp add: e)
qed

lemma start_artifact_inv:
  assumes "queue_inv cd q"
  shows "queue_inv cd (snd (start_artifact cd v q))"
proof -
  obtain r q' where e: "start_artifact cd v q = (r, q')" by (cases "start_artifact cd v q")
  have "queue_inv cd q'"
  proof (rule start_cases [OF e])
    fix m
    assume m: "validate_manifest cd v = Inr m" "bounded cd (am_bytes m) q = Inr ()" "map_of (aq_incoming q) (am_id m) = None"
      "q' = q\<lparr>aq_incoming := aq_incoming q @ [(am_id m, new_entry m None)]\<rparr>"
    have v: "valid_entries cd (aq_incoming q)" "valid_entries cd (aq_outgoing q)" using assms by (simp_all add: queue_inv_def)
    have "within_storage q'"
      using bounded_Inr [OF v m(2)] by (simp add: m(4) within_storage_def stored_append stored_bytes_def new_entry_def)
    then show ?thesis
      using assms valid_append [OF v(1) m(3) validate_again [OF m(1)]]
      by (auto simp: queue_inv_def m(4) received_ok_def new_entry_def chunks_ok_def)
  qed (use assms in simp)
  then show ?thesis by (simp add: e)
qed

lemma chunk_index: "i * CHUNK_BYTES < n \<longleftrightarrow> i < chunk_count n"
proof -
  have "i < chunk_count n \<longleftrightarrow> Suc i * CHUNK_BYTES \<le> n + CHUNK_BYTES - 1"
    unfolding chunk_count_def by (simp only: Suc_le_eq [symmetric] less_eq_div_iff_mult_less_eq CHUNK_BYTES_def)
  then show ?thesis by (auto simp: CHUNK_BYTES_def)
qed

lemma chunks_ok_Cons:
  assumes "chunks_ok n cs" "map_of cs i = None" "i * CHUNK_BYTES < n" "length raw \<le> min CHUNK_BYTES (n - i * CHUNK_BYTES)"
    "0 < i \<Longrightarrow> map_of cs (i - 1) \<noteq> None"
  shows "chunks_ok n ((i, raw) # cs)"
  using assms by (auto simp: chunks_ok_def chunk_index map_of_eq_None_iff)

lemma within_update:
  assumes "within_storage q" "\<And>e. ae_manifest (f e) = ae_manifest e"
  shows "within_storage (q\<lparr>aq_incoming := update_entry n f (aq_incoming q)\<rparr>)" "within_storage (q\<lparr>aq_outgoing := update_entry n f (aq_outgoing q)\<rparr>)"
  using assms by (simp_all add: within_storage_def stored_append stored_update)

lemma change_received:
  assumes "queue_inv cd q" "map_of (aq_incoming q) name = Some e" "received_ok cd (f e)" "\<And>e. ae_manifest (f e) = ae_manifest e"
  shows "queue_inv cd (q\<lparr>aq_incoming := update_entry name f (aq_incoming q)\<rparr>)"
proof (rule queue_invI)
  have v: "valid_entries cd (aq_incoming q)" "valid_entries cd (aq_outgoing q)" "within_storage q" using assms(1) by (simp_all add: queue_inv_def)
  show "within_storage (q\<lparr>aq_incoming := update_entry name f (aq_incoming q)\<rparr>)" by (rule within_update [OF v(3) assms(4)])
  show "received_ok cd e'" if "(n, e') \<in> set (aq_incoming (q\<lparr>aq_incoming := update_entry name f (aq_incoming q)\<rparr>))" for n e'
  proof (cases "n = name")
    case True
    then show ?thesis using that assms(2,3) valid_member [OF v(1)] by (auto simp: update_entry_facts)
  next
    case False
    then show ?thesis using that assms(1) by (auto simp: update_entry_facts queue_inv_def)
  qed
qed (use assms(1) valid_update [OF _ assms(4)] in \<open>auto simp: queue_inv_def\<close>)

lemma change_sent:
  assumes "queue_inv cd q" "map_of (aq_outgoing q) name = Some e" "sent_ok cd (f e)" "\<And>e. ae_manifest (f e) = ae_manifest e"
  shows "queue_inv cd (q\<lparr>aq_outgoing := update_entry name f (aq_outgoing q)\<rparr>)"
proof (rule queue_invI)
  have v: "valid_entries cd (aq_incoming q)" "valid_entries cd (aq_outgoing q)" "within_storage q" using assms(1) by (simp_all add: queue_inv_def)
  show "within_storage (q\<lparr>aq_outgoing := update_entry name f (aq_outgoing q)\<rparr>)" by (rule within_update [OF v(3) assms(4)])
  show "sent_ok cd e'" if "(n, e') \<in> set (aq_outgoing (q\<lparr>aq_outgoing := update_entry name f (aq_outgoing q)\<rparr>))" for n e'
  proof (cases "n = name")
    case True
    then show ?thesis using that assms(2,3) valid_member [OF v(2)] by (auto simp: update_entry_facts)
  next
    case False
    then show ?thesis using that assms(1) by (auto simp: update_entry_facts queue_inv_def)
  qed
qed (use assms(1) valid_update [OF _ assms(4)] in \<open>auto simp: queue_inv_def\<close>)

lemma receive_artifact_inv:
  assumes "queue_inv cd q" "\<And>raw. length (w raw) \<le> length raw"
  shows "queue_inv cd (snd (receive_chunk_with w cd d q))"
proof -
  obtain r q' where x: "receive_chunk_with w cd d q = (r, q')" by (cases "receive_chunk_with w cd d q")
  have "queue_inv cd q'"
  proof (rule receive_cases [OF x])
    fix name e i raw
    assume m: "map_of (aq_incoming q) name = Some e" "i * CHUNK_BYTES < am_bytes (ae_manifest e)"
      "length raw = min CHUNK_BYTES (am_bytes (ae_manifest e) - i * CHUNK_BYTES)" "map_of (ae_chunks e) i = None"
      "0 < i \<Longrightarrow> map_of (ae_chunks e) (i - 1) \<noteq> None"
      "q' = q\<lparr>aq_incoming := update_entry name (\<lambda>e. e\<lparr>ae_chunks := (i, w raw) # ae_chunks e\<rparr>) (aq_incoming q)\<rparr>"
    have old: "received_ok cd e" using assms(1) map_of_SomeD [OF m(1)] by (auto simp: queue_inv_def)
    have "received_ok cd (e\<lparr>ae_chunks := (i, w raw) # ae_chunks e\<rparr>)"
      using old chunks_ok_Cons [OF _ m(4,2) _ m(5), of "w raw"] assms(2) [of raw] m(3) by (auto simp: received_ok_def)
    then show ?thesis unfolding m(6) by (intro change_received [OF assms(1) m(1)]) simp_all
  qed (use assms in simp)
  then show ?thesis by (simp add: x)
qed

lemma commit_artifact_inv:
  assumes "queue_inv cd q"
  shows "queue_inv cd (snd (commit_artifact cd v q))"
proof -
  obtain r q' where x: "commit_artifact cd v q = (r, q')" by (cases "commit_artifact cd v q")
  have "queue_inv cd q'"
  proof (rule commit_cases [OF x])
    fix name e blob
    assume m: "map_of (aq_incoming q) name = Some e" "content_pinned cd (ae_manifest e) blob"
      "q' = q\<lparr>aq_incoming := update_entry name
        (\<lambda>e'. e'\<lparr>ae_blob := Some blob, ae_receipt := Some (receipt_json (ae_manifest e))\<rparr>) (aq_incoming q)\<rparr>"
    have "received_ok cd e" using assms(1) map_of_SomeD [OF m(1)] by (auto simp: queue_inv_def)
    then have "received_ok cd (e\<lparr>ae_blob := Some blob, ae_receipt := Some (receipt_json (ae_manifest e))\<rparr>)"
      using m(2) by (auto simp: received_ok_def)
    then show ?thesis unfolding m(3) by (intro change_received [OF assms(1) m(1)]) simp_all
  qed (use assms in simp_all)
  then show ?thesis by (simp add: x)
qed

lemma acknowledge_artifact_inv:
  assumes "queue_inv cd q"
  shows "queue_inv cd (snd (acknowledge_artifact cd v q))"
proof -
  obtain r q' where x: "acknowledge_artifact cd v q = (r, q')" by (cases "acknowledge_artifact cd v q")
  have "queue_inv cd q'"
  proof (rule acknowledge_cases [OF x])
    fix name e
    assume m: "map_of (aq_outgoing q) name = Some e" "py_eq v (receipt_json (ae_manifest e))"
      "q' = q\<lparr>aq_outgoing := update_entry name (\<lambda>e. e\<lparr>ae_delivery := Some v\<rparr>) (aq_outgoing q)\<rparr>"
    have "sent_ok cd e" using assms(1) map_of_SomeD [OF m(1)] by (auto simp: queue_inv_def)
    then have "sent_ok cd (e\<lparr>ae_delivery := Some v\<rparr>)" using m(2) by (auto simp: sent_ok_def)
    then show ?thesis unfolding m(3) by (intro change_sent [OF assms(1) m(1)]) simp_all
  qed (use assms in simp)
  then show ?thesis by (simp add: x)
qed

section \<open>Any sequence of requests\<close>

datatype queue_op =
    Queue_publish string json string
  | Queue_api string dict
  | Queue_torn nat dict

fun queue_step :: "codec \<Rightarrow> queue_op \<Rightarrow> art_queue \<Rightarrow> art_queue" where
  "queue_step cd (Queue_publish kind key source) q = snd (publish_artifact cd kind key source q)"
| "queue_step cd (Queue_api route d) q = snd (artifact_api cd route d q)"
| "queue_step cd (Queue_torn k d) q = receive_torn k cd d q"

lemma queue_start: "queue_inv cd (ArtifactQueue role)"
  by (simp add: queue_inv_def ArtifactQueue_def valid_entries_def within_storage_def stored_bytes_def)

interpretation queue_system: op_system "queue_step cd" "queue_inv cd" for cd
proof
  fix q op
  assume i: "queue_inv cd q"
  show "queue_inv cd (queue_step cd op q)"
    using publish_artifact_inv [OF i] start_artifact_inv [OF i] receive_artifact_inv [OF i, of id] receive_artifact_inv [OF i, of "take k" for k] commit_artifact_inv [OF i]
      acknowledge_artifact_inv [OF i] i
    by (cases op) (simp_all add: artifact_api_def receive_chunk_def receive_torn_def)
qed


end
