(* ===== verification/Artifact_Link.thy ===== *)
theory Artifact_Link
  imports Artifact_Queue
begin

text \<open>
  The two ends of an artifact transfer: the queue that publishes and the queue that receives, with the
  requests that the browser carries between them (\<^verbatim>\<open>artifact-next\<close>, \<^verbatim>\<open>-start\<close>, \<^verbatim>\<open>-read\<close>, \<^verbatim>\<open>-chunk\<close>, \<^verbatim>\<open>-commit\<close>
  and \<^verbatim>\<open>-ack\<close>). A run is any list of such requests, so they may be repeated, reordered, lost or cut by a
  crash. What arrives is what was published, byte for byte, whatever the hash; without a crash in the
  middle of a chunk the transfer completes; after one it never can (\<open>torn_chunk_blocks\<close>).
\<close>

section \<open>The link\<close>

datatype link_op =
    Link_publish string json string
  | Link_start string
  | Link_chunk string nat
  | Link_torn string nat nat
  | Link_commit string
  | Link_ack string

type_synonym link = "art_queue \<times> art_queue"

definition carry_chunk :: "(string \<Rightarrow> string) \<Rightarrow> codec \<Rightarrow> string \<Rightarrow> nat \<Rightarrow> link \<Rightarrow> link" where
  "carry_chunk w cd n i s =
     (case send_chunk cd (JStr n) (JInt (int i)) (fst s) of Inl x \<Rightarrow> s
      | Inr v \<Rightarrow> (fst s, snd (receive_chunk_with w cd (fields_of v) (snd s))))"

fun link_step :: "codec \<Rightarrow> link_op \<Rightarrow> link \<Rightarrow> link" where
  "link_step cd (Link_publish kind key source) s = (snd (publish_artifact cd kind key source (fst s)), snd s)"
| "link_step cd (Link_start n) s =
     (case map_of (aq_outgoing (fst s)) n of None \<Rightarrow> s
      | Some e \<Rightarrow> (fst s, snd (start_artifact cd (manifest_json (ae_manifest e)) (snd s))))"
| "link_step cd (Link_chunk n i) s = carry_chunk id cd n i s"
| "link_step cd (Link_torn n i k) s = carry_chunk (take k) cd n i s"
| "link_step cd (Link_commit n) s = (fst s, snd (commit_artifact cd (JStr n) (snd s)))"
| "link_step cd (Link_ack n) s =
     (case commit_artifact cd (JStr n) (snd s) of (Inl x, q) \<Rightarrow> (fst s, q)
      | (Inr receipt, q) \<Rightarrow> (snd (acknowledge_artifact cd receipt (fst s)), q))"

definition link_start :: "string option \<Rightarrow> string option \<Rightarrow> link" where
  "link_start sender receiver = (ArtifactQueue sender, ArtifactQueue receiver)"

definition copied_ok :: "art_entry \<Rightarrow> art_entry \<Rightarrow> bool" where
  "copied_ok e e' \<longleftrightarrow> ae_manifest e' = ae_manifest e \<and>
     (\<exists>b. ae_blob e = Some b \<and> (\<forall>(i, raw) \<in> set (ae_chunks e'). \<exists>k. raw = take k (chunk_of b i)) \<and>
          (ae_receipt e' \<noteq> None \<longrightarrow> ae_blob e' = Some b))"

definition link_inv :: "codec \<Rightarrow> link \<Rightarrow> bool" where
  "link_inv cd s \<longleftrightarrow> queue_inv cd (fst s) \<and> queue_inv cd (snd s) \<and>
     (\<forall>n e'. map_of (aq_incoming (snd s)) n = Some e' \<longrightarrow> (\<exists>e. map_of (aq_outgoing (fst s)) n = Some e \<and> copied_ok e e')) \<and>
     (\<forall>n e. map_of (aq_outgoing (fst s)) n = Some e \<and> ae_delivery e \<noteq> None \<longrightarrow>
        (\<exists>e'. map_of (aq_incoming (snd s)) n = Some e' \<and> ae_receipt e' \<noteq> None))"

section \<open>Chunks of a file\<close>

lemma chunks_take: "concat (map (chunk_of b) [0 ..< m]) = take (m * CHUNK_BYTES) b"
proof (induction m)
  case (Suc m)
  have "take (m * CHUNK_BYTES + CHUNK_BYTES) b = take (m * CHUNK_BYTES) b @ chunk_of b m"
    unfolding chunk_of_def by (rule take_add)
  then show ?case using Suc by (simp add: add.commute)
qed simp

lemma chunk_count_covers: "n \<le> chunk_count n * CHUNK_BYTES"
  using chunk_index [of "chunk_count n" n] by auto

lemma file_chunks_concat: "concat (map (chunk_of b) [0 ..< chunk_count (length b)]) = b"
  using chunk_count_covers [of "length b"] by (simp add: chunks_take)

lemma length_chunk: "length (chunk_of b i) = min CHUNK_BYTES (length b - i * CHUNK_BYTES)"
  by (simp add: chunk_of_def)

text \<open>Prefixes of the chunks that add up to the length of the file are the chunks.\<close>

lemma prefixes_whole:
  "list_all2 (\<lambda>raw c. \<exists>k. raw = take k c) raws cs \<Longrightarrow> length (concat cs) \<le> length (concat raws) \<Longrightarrow> raws = cs"
proof -
  have shorter: "length (concat raws) \<le> length (concat cs)"
    if "list_all2 (\<lambda>raw c. \<exists>k. raw = take k c) raws cs" for raws cs :: "'a list list"
    using that by (induction rule: list_all2_induct) auto
  show "list_all2 (\<lambda>raw c. \<exists>k. raw = take k c) raws cs \<Longrightarrow> length (concat cs) \<le> length (concat raws) \<Longrightarrow> raws = cs"
  proof (induction rule: list_all2_induct)
    case (Cons raw raws c cs)
    obtain k where k: "raw = take k c" using Cons by blast
    have "length raw = length c" "length (concat cs) \<le> length (concat raws)" using Cons(4) shorter [OF Cons(2)] k by auto
    then show ?case using Cons(3) k by simp
  qed simp
qed

lemma reconstruct_exact:
  assumes "reconstruct e = Inr blob" "length blob = length b" "am_bytes (ae_manifest e) = length b"
    "\<forall>(i, raw) \<in> set (ae_chunks e). \<exists>k. raw = take k (chunk_of b i)"
  shows "blob = b" "i < chunk_count (length b) \<Longrightarrow> map_of (ae_chunks e) i = Some (chunk_of b i)"
proof -
  let ?m = "chunk_count (length b)"
  obtain raws where raws: "list_all2 (\<lambda>i raw. (case map_of (ae_chunks e) i of None \<Rightarrow> Inl (KeyError ''chunk'') | Some raw \<Rightarrow> Inr raw) = Inr raw)
      [0 ..< ?m] raws" and blob: "blob = concat raws"
    using assms(1) unfolding reconstruct_def assms(3) by (auto simp: mapE_Inr_list_all2)
  have "list_all2 (\<lambda>raw c. \<exists>k. raw = take k c) raws (map (chunk_of b) [0 ..< ?m])"
    using raws assms(4) map_of_SomeD
    by (fastforce simp: list_all2_conv_all_nth split: option.splits)
  then have whole: "raws = map (chunk_of b) [0 ..< ?m]"
    using prefixes_whole [of raws "map (chunk_of b) [0 ..< ?m]"] assms(2) blob by (simp only: file_chunks_concat)
  then show "blob = b" by (simp only: blob file_chunks_concat)
  show "i < ?m \<Longrightarrow> map_of (ae_chunks e) i = Some (chunk_of b i)"
    using list_all2_nthD [OF raws, of i] unfolding whole by (simp split: option.splits)
qed

lemma reconstruct_whole:
  assumes "am_bytes (ae_manifest e) = length b" "\<forall>i < chunk_count (length b). map_of (ae_chunks e) i = Some (chunk_of b i)"
  shows "reconstruct e = Inr b"
proof -
  have "mapE (\<lambda>i. case map_of (ae_chunks e) i of None \<Rightarrow> Inl (KeyError ''chunk'') | Some raw \<Rightarrow> Inr raw) [0 ..< chunk_count (length b)] =
      Inr (map (chunk_of b) [0 ..< chunk_count (length b)])"
    using assms(2) by (intro mapE_all_Inr) simp
  then show ?thesis by (simp add: reconstruct_def assms(1) file_chunks_concat)
qed

section \<open>Every request keeps the link consistent\<close>

lemma send_chunk_facts:
  assumes "send_chunk cd (JStr n) (JInt (int i)) q = Inr v"
  obtains e b where "map_of (aq_outgoing q) n = Some e" "ae_blob e = Some b" "i < chunk_count (am_bytes (ae_manifest e))"
    "chunk_packet (fields_of v) = Inr (int i, chunk_of b i)" "dget (fields_of v) ''id'' = JStr n"
    "dget (fields_of v) ''sha256'' = JStr (cd_sha cd (chunk_of b i))"
proof -
  obtain e b where f: "map_of (aq_outgoing q) n = Some e" "ae_blob e = Some b" "i < chunk_count (am_bytes (ae_manifest e))"
      "v = JObj [(''id'', JStr n), (''index'', JInt (int i)), (''data'', JStr (b64encode (chunk_of b i))), (''sha256'', JStr (cd_sha cd (chunk_of b i)))]"
    using assms
    by (auto simp: send_chunk_def entry_name_def bindE_Inr_iff read_entry_Inr Let_def split: if_splits option.splits)
  have "(length (chunk_of b i) + 2) div 3 * 4 \<le> (CHUNK_BYTES + 2) div 3 * 4"
    by (intro mult_le_mono1 div_le_mono) (simp add: length_chunk)
  moreover have "keys_are (fields_of v) [''id'', ''index'', ''data'', ''sha256'']" by (auto simp: f(4) keys_are_def)
  ultimately have "chunk_packet (fields_of v) = Inr (int i, chunk_of b i)"
    by (simp add: chunk_packet_def f(4) length_b64encode b64_roundtrip)
  then show thesis using that f by simp
qed

lemma link_invI:
  assumes "queue_inv cd tx" "queue_inv cd rx"
    "\<And>n e'. map_of (aq_incoming rx) n = Some e' \<Longrightarrow> \<exists>e. map_of (aq_outgoing tx) n = Some e \<and> copied_ok e e'"
    "\<And>n e. map_of (aq_outgoing tx) n = Some e \<Longrightarrow> ae_delivery e \<noteq> None \<Longrightarrow>
      \<exists>e'. map_of (aq_incoming rx) n = Some e' \<and> ae_receipt e' \<noteq> None"
  shows "link_inv cd (tx, rx)"
  using assms by (simp add: link_inv_def)

lemma link_copied:
  "link_inv cd s \<Longrightarrow> map_of (aq_incoming (snd s)) n = Some e' \<Longrightarrow> \<exists>e. map_of (aq_outgoing (fst s)) n = Some e \<and> copied_ok e e'"
  unfolding link_inv_def by blast

lemma link_delivered:
  "link_inv cd s \<Longrightarrow> map_of (aq_outgoing (fst s)) n = Some e \<Longrightarrow> ae_delivery e \<noteq> None \<Longrightarrow>
    \<exists>e'. map_of (aq_incoming (snd s)) n = Some e' \<and> ae_receipt e' \<noteq> None"
  unfolding link_inv_def by blast

lemma publish_link:
  assumes "link_inv cd (tx, rx)"
  shows "link_inv cd (snd (publish_artifact cd kind key source tx), rx)"
proof -
  obtain r tx' where x: "publish_artifact cd kind key source tx = (r, tx')" by (cases "publish_artifact cd kind key source tx")
  have "queue_inv cd tx'" using publish_artifact_inv [of cd tx kind key source] assms x by (simp add: link_inv_def)
  have "link_inv cd (tx', rx)"
  proof (rule publish_cases [OF x])
    fix m
    assume m: "map_of (aq_outgoing tx) (am_id m) = None" "tx' = tx\<lparr>aq_outgoing := aq_outgoing tx @ [(am_id m, new_entry m (Some source))]\<rparr>"
    show ?thesis
      using assms \<open>queue_inv cd tx'\<close> m(1)
      by (intro link_invI) (fastforce simp: link_inv_def m(2) map_add_def new_entry_def split: option.splits if_splits)+
  qed (use assms in simp)
  then show ?thesis by (simp add: x)
qed

lemma start_link:
  assumes "link_inv cd (tx, rx)" "map_of (aq_outgoing tx) n = Some e"
  shows "link_inv cd (tx, snd (start_artifact cd (manifest_json (ae_manifest e)) rx))"
proof -
  let ?v = "manifest_json (ae_manifest e)"
  obtain r rx' where x: "start_artifact cd ?v rx = (r, rx')" by (cases "start_artifact cd ?v rx")
  have i: "queue_inv cd tx" "queue_inv cd rx'" using start_artifact_inv [of cd rx ?v] assms x by (simp_all add: link_inv_def)
  have e: "validate_manifest cd ?v = Inr (ae_manifest e)" "am_id (ae_manifest e) = n"
    using valid_lookup [of cd, OF _ assms(2)] i(1) by (auto simp: queue_inv_def)
  have blob: "sent_ok cd e" using i(1) map_of_SomeD [OF assms(2)] by (auto simp: queue_inv_def)
  have "link_inv cd (tx, rx')"
  proof (rule start_cases [OF x])
    fix m
    assume m: "validate_manifest cd ?v = Inr m" "map_of (aq_incoming rx) (am_id m) = None"
      "rx' = rx\<lparr>aq_incoming := aq_incoming rx @ [(am_id m, new_entry m None)]\<rparr>"
    have "m = ae_manifest e" using m(1) e(1) by simp
    then have "copied_ok e (new_entry m None)" using blob by (auto simp: copied_ok_def new_entry_def sent_ok_def)
    then show ?thesis
      using assms(1) i e(2) m(2) \<open>m = ae_manifest e\<close> assms(2)
      by (intro link_invI) (fastforce simp: link_inv_def m(3) map_add_def split: option.splits if_splits)+
  qed (use assms in simp)
  then show ?thesis by (simp add: x)
qed

lemma change_received_link:
  assumes "link_inv cd (tx, rx)" "queue_inv cd (rx\<lparr>aq_incoming := update_entry n f (aq_incoming rx)\<rparr>)"
    "map_of (aq_outgoing tx) n = Some e" "map_of (aq_incoming rx) n = Some e'" "copied_ok e (f e')"
    "ae_receipt e' \<noteq> None \<Longrightarrow> ae_receipt (f e') \<noteq> None"
  shows "link_inv cd (tx, rx\<lparr>aq_incoming := update_entry n f (aq_incoming rx)\<rparr>)"
proof (rule link_invI)
  show "queue_inv cd tx" using assms(1) by (simp add: link_inv_def)
  show "\<exists>e. map_of (aq_outgoing tx) k = Some e \<and> copied_ok e e2"
    if "map_of (aq_incoming (rx\<lparr>aq_incoming := update_entry n f (aq_incoming rx)\<rparr>)) k = Some e2" for k e2
    using that assms(1,3-5) by (cases "k = n") (auto simp: update_entry_facts link_inv_def)
  show "\<exists>e2. map_of (aq_incoming (rx\<lparr>aq_incoming := update_entry n f (aq_incoming rx)\<rparr>)) k = Some e2 \<and> ae_receipt e2 \<noteq> None"
    if del: "map_of (aq_outgoing tx) k = Some e1" "ae_delivery e1 \<noteq> None" for k e1
  proof -
    obtain e2 where "map_of (aq_incoming rx) k = Some e2" "ae_receipt e2 \<noteq> None"
      using link_delivered [OF assms(1), of k e1] del by auto
    then show ?thesis using assms(4,6) by (cases "k = n") (auto simp: update_entry_facts)
  qed
qed (rule assms(2))

lemma chunk_link:
  assumes "link_inv cd s" "w = id \<or> w = take k"
  shows "link_inv cd (carry_chunk w cd n i s)"
proof (cases "send_chunk cd (JStr n) (JInt (int i)) (fst s)")
  case (Inl x)
  then show ?thesis using assms(1) by (simp add: carry_chunk_def)
next
  case (Inr v)
  obtain e b where e: "map_of (aq_outgoing (fst s)) n = Some e" "ae_blob e = Some b"
      "chunk_packet (fields_of v) = Inr (int i, chunk_of b i)" "dget (fields_of v) ''id'' = JStr n"
    using send_chunk_facts [OF Inr] by metis
  obtain r rx' where x: "receive_chunk_with w cd (fields_of v) (snd s) = (r, rx')" by (cases "receive_chunk_with w cd (fields_of v) (snd s)")
  have q: "queue_inv cd rx'" using receive_artifact_inv [of cd "snd s" w "fields_of v"] assms x by (auto simp: link_inv_def)
  have "link_inv cd (fst s, rx')"
  proof (rule receive_cases [OF x])
    fix name e' j raw
    assume m: "dget (fields_of v) ''id'' = JStr name" "map_of (aq_incoming (snd s)) name = Some e'"
      "chunk_packet (fields_of v) = Inr (int j, raw)"
      "rx' = (snd s)\<lparr>aq_incoming := update_entry name (\<lambda>e. e\<lparr>ae_chunks := (j, w raw) # ae_chunks e\<rparr>) (aq_incoming (snd s))\<rparr>"
    have eq: "name = n" "j = i" "raw = chunk_of b i" using m(1,3) e(3,4) by auto
    have "copied_ok e e'" using link_copied [OF assms(1) m(2)] e(1) by (simp add: eq)
    moreover have "\<exists>k. w (chunk_of b i) = take k (chunk_of b i)"
      using assms(2) by (auto intro: exI [of _ "length (chunk_of b i)"])
    ultimately have "copied_ok e (e'\<lparr>ae_chunks := (i, w (chunk_of b i)) # ae_chunks e'\<rparr>)"
      using e(2) by (auto simp: copied_ok_def)
    then show ?thesis
      using change_received_link [of cd "fst s" "snd s" n "\<lambda>e. e\<lparr>ae_chunks := (i, w (chunk_of b i)) # ae_chunks e\<rparr>" e e']
        assms(1) q e(1) m(2) unfolding m(4) eq by simp
  qed (use assms(1) in simp)
  then show ?thesis by (simp add: carry_chunk_def Inr x)
qed

lemma commit_link:
  assumes "link_inv cd s"
  shows "link_inv cd (fst s, snd (commit_artifact cd v (snd s)))"
proof -
  obtain r rx' where x: "commit_artifact cd v (snd s) = (r, rx')" by (cases "commit_artifact cd v (snd s)")
  have q: "queue_inv cd rx'" using commit_artifact_inv [of cd "snd s" v] assms x by (simp add: link_inv_def)
  have "link_inv cd (fst s, rx')"
  proof (rule commit_cases [OF x])
    fix name e' blob
    assume m: "map_of (aq_incoming (snd s)) name = Some e'" "reconstruct e' = Inr blob" "content_pinned cd (ae_manifest e') blob"
      "rx' = (snd s)\<lparr>aq_incoming := update_entry name
        (\<lambda>e. e\<lparr>ae_blob := Some blob, ae_receipt := Some (receipt_json (ae_manifest e'))\<rparr>) (aq_incoming (snd s))\<rparr>"
    obtain e where e: "map_of (aq_outgoing (fst s)) name = Some e" "copied_ok e e'" using link_copied [OF assms m(1)] by blast
    have "sent_ok cd e" using assms map_of_SomeD [OF e(1)] by (auto simp: link_inv_def queue_inv_def)
    then obtain b where b: "ae_blob e = Some b" "content_pinned cd (ae_manifest e) b" unfolding sent_ok_def by blast
    have same: "ae_manifest e' = ae_manifest e" "\<forall>(i, raw) \<in> set (ae_chunks e'). \<exists>k. raw = take k (chunk_of b i)"
      using e(2) b(1) unfolding copied_ok_def by auto
    have len: "length blob = length b" "am_bytes (ae_manifest e') = length b"
      using b(2) m(3) unfolding pinned_iff same(1) by simp_all
    have "blob = b" by (rule reconstruct_exact(1) [OF m(2) len same(2)])
    then have "copied_ok e (e'\<lparr>ae_blob := Some blob, ae_receipt := Some (receipt_json (ae_manifest e'))\<rparr>)"
      using same b(1) by (simp add: copied_ok_def)
    then show ?thesis
      unfolding m(4) using assms q [unfolded m(4)]
      by (intro change_received_link [OF _ _ e(1) m(1)]) simp_all
  qed (use assms in simp_all)
  then show ?thesis by (simp add: x)
qed

lemma commit_receipt:
  assumes "queue_inv cd q" "commit_artifact cd (JStr n) q = (Inr receipt, q')"
  shows "\<exists>e. map_of (aq_incoming q') n = Some e \<and> ae_receipt e \<noteq> None \<and> receipt = receipt_json (ae_manifest e)"
proof (rule commit_cases [OF assms(2)])
  fix name e blob
  assume "JStr n = JStr name" "map_of (aq_incoming q) name = Some e" "Inr receipt = Inr (receipt_json (ae_manifest e))"
    "q' = q\<lparr>aq_incoming := update_entry name
        (\<lambda>e'. e'\<lparr>ae_blob := Some blob, ae_receipt := Some (receipt_json (ae_manifest e))\<rparr>) (aq_incoming q)\<rparr>"
  then show ?thesis by (simp add: update_entry_facts)
qed auto

lemma acknowledge_link:
  assumes "link_inv cd (tx, rx)" "map_of (aq_incoming rx) n = Some e'" "ae_receipt e' \<noteq> None"
  shows "link_inv cd (snd (acknowledge_artifact cd (receipt_json (ae_manifest e')) tx), rx)"
proof -
  let ?v = "receipt_json (ae_manifest e')"
  obtain r tx' where x: "acknowledge_artifact cd ?v tx = (r, tx')" by (cases "acknowledge_artifact cd ?v tx")
  have q: "queue_inv cd tx'" using acknowledge_artifact_inv [of cd tx ?v] assms(1) x by (simp add: link_inv_def)
  have id: "am_id (ae_manifest e') = n" using assms(1) valid_lookup(2) [of cd, OF _ assms(2)] by (auto simp: link_inv_def queue_inv_def)
  have "link_inv cd (tx', rx)"
  proof (rule acknowledge_cases [OF x])
    fix name e
    assume m: "dget (fields_of ?v) ''id'' = JStr name" "map_of (aq_outgoing tx) name = Some e"
      "tx' = tx\<lparr>aq_outgoing := update_entry name (\<lambda>e. e\<lparr>ae_delivery := Some ?v\<rparr>) (aq_outgoing tx)\<rparr>"
    have n: "name = n" using m(1) id by (simp add: receipt_json_def)
    show ?thesis
    proof (rule link_invI [OF q])
      show "queue_inv cd rx" using assms(1) by (simp add: link_inv_def)
      show "\<exists>e. map_of (aq_outgoing tx') k = Some e \<and> copied_ok e e2" if inc: "map_of (aq_incoming rx) k = Some e2" for k e2
      proof -
        obtain e1 where e1: "map_of (aq_outgoing tx) k = Some e1" "copied_ok e1 e2" using link_copied [OF assms(1), of k e2] inc by auto
        then have "copied_ok (e1\<lparr>ae_delivery := Some ?v\<rparr>) e2" by (simp add: copied_ok_def)
        then show ?thesis using e1 by (simp add: m(3) update_entry_facts)
      qed
      show "\<exists>e2. map_of (aq_incoming rx) k = Some e2 \<and> ae_receipt e2 \<noteq> None"
        if "map_of (aq_outgoing tx') k = Some e1" "ae_delivery e1 \<noteq> None" for k e1
        using link_delivered [OF assms(1), of k] that assms(2,3) n by (cases "k = n") (auto simp: m(3) update_entry_facts)
    qed
  qed (use assms in simp)
  then show ?thesis by (simp add: x)
qed

interpretation link_system: op_system "link_step cd" "link_inv cd" for cd
proof
  fix s op
  assume i: "link_inv cd s"
  have pair: "link_inv cd (fst s, snd s)" using i by simp
  show "link_inv cd (link_step cd op s)"
  proof (cases op)
    case (Link_ack n)
    obtain r q where c: "commit_artifact cd (JStr n) (snd s) = (r, q)" by (cases "commit_artifact cd (JStr n) (snd s)")
    have committed: "link_inv cd (fst s, q)" using commit_link [OF i, of "JStr n"] by (simp add: c)
    show ?thesis
    proof (cases r)
      case (Inr receipt)
      have "queue_inv cd (snd s)" using i by (simp add: link_inv_def)
      from commit_receipt [OF this c [unfolded Inr]] acknowledge_link [OF committed]
      show ?thesis by (auto simp: Link_ack c Inr)
    qed (use committed in \<open>simp add: Link_ack c\<close>)
  next
    case (Link_start n)
    then show ?thesis using i start_link [OF pair] by (auto split: option.splits)
  qed (use publish_link [OF pair] chunk_link [OF i, of id] chunk_link [OF i disjI2 [OF refl]] commit_link [OF i] in \<open>simp_all\<close>)
qed

lemma link_begins: "link_inv cd (link_start a b)"
  by (simp add: link_inv_def link_start_def queue_start) (simp add: ArtifactQueue_def)

lemma link_run: "link_inv cd (fold (link_step cd) ops (link_start a b))"
  by (rule link_system.inv_run [OF link_begins])

section \<open>What arrives is what was sent\<close>

lemma received_scan_entry:
  "received_scan cd kind key es = Inr (Some (m, blob)) \<Longrightarrow> valid_entries cd es \<Longrightarrow>
     \<exists>e. map_of es (am_id m) = Some e \<and> ae_manifest e = m \<and> am_kind m = kind \<and> ae_receipt e \<noteq> None \<and> ae_blob e = Some blob"
proof (induction cd kind key es rule: received_scan.induct)
  case (2 cd kind key n e es)
  have v: "validate_manifest cd (manifest_json (ae_manifest e)) = Inr (ae_manifest e)" "am_id (ae_manifest e) = n"
    using 2(3) by (auto simp: valid_entries_def)
  have rest: "valid_entries cd es" "n \<notin> fst ` set es" using 2(3) by (auto simp: valid_entries_def)
  show ?case
  proof (cases "am_kind (ae_manifest e) = kind \<and> py_eq (am_key (ae_manifest e)) key \<and> ae_receipt e \<noteq> None")
    case True
    then show ?thesis using 2(2) v by (auto split: option.splits if_splits)
  next
    case False
    then have "received_scan cd kind key es = Inr (Some (m, blob))" using 2(2) v(1) by auto
    then obtain e2 where "map_of es (am_id m) = Some e2" "ae_manifest e2 = m \<and> am_kind m = kind \<and> ae_receipt e2 \<noteq> None \<and> ae_blob e2 = Some blob"
      using 2(1) [OF v(1) False _ rest(1)] by blast
    moreover from this have "am_id m \<noteq> n" using rest(2) by (metis map_of_eq_None_iff option.distinct(1))
    ultimately show ?thesis by auto
  qed
qed simp

text \<open>
  C12. Delivery is exact. For every sequence of publications and carried requests, repeated, reordered,
  lost or cut by a crash in the middle of a chunk: what a receiver looks up is the file that the sender
  holds under that identity, byte for byte, whatever the hash function; and a sender records a delivery
  only when the receiver holds the committed file.
\<close>

theorem artifact_delivery_exact:
  assumes "fold (link_step cd) ops (link_start a b) = (tx, rx)"
  shows "(received_artifact cd kind key rx = Inr (Some (m, blob)) \<longrightarrow>
      (\<exists>e. map_of (aq_outgoing tx) (am_id m) = Some e \<and> ae_manifest e = m \<and> am_kind m = kind \<and> ae_blob e = Some blob)) \<and>
    (map_of (aq_outgoing tx) n = Some sent \<and> ae_delivery sent \<noteq> None \<longrightarrow>
      (\<exists>got. map_of (aq_incoming rx) n = Some got \<and> ae_receipt got \<noteq> None \<and> ae_manifest got = ae_manifest sent \<and>
         ae_blob got = ae_blob sent \<and> ae_blob sent \<noteq> None))"
proof (intro conjI impI)
  have i: "link_inv cd (tx, rx)" using link_run [of cd ops a b] assms by simp
  have whole: "ae_manifest got = ae_manifest sent \<and> ae_blob got = ae_blob sent \<and> ae_blob sent \<noteq> None"
    if "map_of (aq_incoming rx) n = Some got" "ae_receipt got \<noteq> None" "map_of (aq_outgoing tx) n = Some sent" for n got sent
    using link_copied [OF i, of n got] that by (auto simp: copied_ok_def)
  show "\<exists>e. map_of (aq_outgoing tx) (am_id m) = Some e \<and> ae_manifest e = m \<and> am_kind m = kind \<and> ae_blob e = Some blob"
    if found: "received_artifact cd kind key rx = Inr (Some (m, blob))"
  proof -
    have "valid_entries cd (aq_incoming rx)" using i by (simp add: link_inv_def queue_inv_def)
    then obtain got where got: "map_of (aq_incoming rx) (am_id m) = Some got" "ae_manifest got = m" "am_kind m = kind"
        "ae_receipt got \<noteq> None" "ae_blob got = Some blob"
      using received_scan_entry [of cd kind key "aq_incoming rx" m blob] found by (auto simp: received_artifact_def split: if_splits)
    then obtain sent where "map_of (aq_outgoing tx) (am_id m) = Some sent" using link_copied [OF i, of "am_id m" got] by auto
    then show ?thesis using whole [OF got(1,4)] got by auto
  qed
  show "\<exists>got. map_of (aq_incoming rx) n = Some got \<and> ae_receipt got \<noteq> None \<and> ae_manifest got = ae_manifest sent \<and>
      ae_blob got = ae_blob sent \<and> ae_blob sent \<noteq> None" if del: "map_of (aq_outgoing tx) n = Some sent \<and> ae_delivery sent \<noteq> None"
  proof -
    obtain got where got: "map_of (aq_incoming rx) n = Some got" "ae_receipt got \<noteq> None"
      using link_delivered [OF i, of n sent] del by auto
    show ?thesis using got whole [OF got] del by (intro exI [of _ got]) blast
  qed
qed

section \<open>Without a torn chunk the transfer completes\<close>

definition intact :: "link \<Rightarrow> bool" where
  "intact s \<longleftrightarrow> (\<forall>n e' i raw. map_of (aq_incoming (snd s)) n = Some e' \<and> (i, raw) \<in> set (ae_chunks e') \<longrightarrow>
     (\<exists>e b. map_of (aq_outgoing (fst s)) n = Some e \<and> ae_blob e = Some b \<and> raw = chunk_of b i))"

fun torn :: "link_op \<Rightarrow> bool" where
  "torn (Link_torn _ _ _) = True"
| "torn _ = False"

lemma intact_grow:
  assumes "intact s" "\<And>n e b. map_of (aq_outgoing (fst s)) n = Some e \<Longrightarrow> ae_blob e = Some b \<Longrightarrow>
      \<exists>e2. map_of (aq_outgoing (fst s')) n = Some e2 \<and> ae_blob e2 = Some b"
    "\<And>n e'. map_of (aq_incoming (snd s')) n = Some e' \<Longrightarrow>
      ae_chunks e' = [] \<or> (\<exists>e. map_of (aq_incoming (snd s)) n = Some e \<and> ae_chunks e' = ae_chunks e)"
  shows "intact s'"
  unfolding intact_def
proof (intro allI impI)
  fix n e' i raw
  assume h: "map_of (aq_incoming (snd s')) n = Some e' \<and> (i, raw) \<in> set (ae_chunks e')"
  then obtain e where "map_of (aq_incoming (snd s)) n = Some e" "(i, raw) \<in> set (ae_chunks e)" using assms(3) [of n e'] by auto
  then obtain e0 b where "map_of (aq_outgoing (fst s)) n = Some e0" "ae_blob e0 = Some b" "raw = chunk_of b i"
    using assms(1) unfolding intact_def by blast
  then show "\<exists>e b. map_of (aq_outgoing (fst s')) n = Some e \<and> ae_blob e = Some b \<and> raw = chunk_of b i" using assms(2) by blast
qed

lemma intact_chunk:
  assumes "link_inv cd s" "intact s"
  shows "intact (carry_chunk id cd n i s)"
proof (cases "send_chunk cd (JStr n) (JInt (int i)) (fst s)")
  case (Inl x)
  then show ?thesis using assms(2) by (simp add: carry_chunk_def)
next
  case (Inr v)
  obtain e b where e: "map_of (aq_outgoing (fst s)) n = Some e" "ae_blob e = Some b"
      "chunk_packet (fields_of v) = Inr (int i, chunk_of b i)" "dget (fields_of v) ''id'' = JStr n"
    using send_chunk_facts [OF Inr] by metis
  obtain r rx' where x: "receive_chunk_with id cd (fields_of v) (snd s) = (r, rx')" by (cases "receive_chunk_with id cd (fields_of v) (snd s)")
  have "intact (fst s, rx')"
  proof (rule receive_cases [OF x])
    fix name e' j raw
    assume m: "dget (fields_of v) ''id'' = JStr name" "map_of (aq_incoming (snd s)) name = Some e'"
      "chunk_packet (fields_of v) = Inr (int j, raw)"
      "rx' = (snd s)\<lparr>aq_incoming := update_entry name (\<lambda>e. e\<lparr>ae_chunks := (j, id raw) # ae_chunks e\<rparr>) (aq_incoming (snd s))\<rparr>"
    have eq: "name = n" "j = i" "raw = chunk_of b i" using m(1,3) e(3,4) by auto
    show ?thesis
      unfolding intact_def
    proof (intro allI impI)
      fix k e2 l c
      assume h: "map_of (aq_incoming (snd (fst s, rx'))) k = Some e2 \<and> (l, c) \<in> set (ae_chunks e2)"
      obtain e3 where e3: "map_of (aq_incoming (snd s)) k = Some e3"
          "e2 = (if k = n then e3\<lparr>ae_chunks := (i, chunk_of b i) # ae_chunks e3\<rparr> else e3)"
        using h by (auto simp: m(4) update_entry_facts eq)
      show "\<exists>e b. map_of (aq_outgoing (fst (fst s, rx'))) k = Some e \<and> ae_blob e = Some b \<and> c = chunk_of b l"
      proof (cases "k = n \<and> (l, c) = (i, chunk_of b i)")
        case True
        then show ?thesis using e(1,2) by simp
      next
        case False
        then have "(l, c) \<in> set (ae_chunks e3)" using h e3(2) by (auto split: if_splits)
        then show ?thesis using assms(2) e3(1) unfolding intact_def by simp
      qed
    qed
  qed (use assms in simp)
  then show ?thesis by (simp add: carry_chunk_def Inr x)
qed

lemma intact_commit:
  assumes "intact s"
  shows "intact (fst s, snd (commit_artifact cd v (snd s)))"
proof -
  obtain r rx' where x: "commit_artifact cd v (snd s) = (r, rx')" by (cases "commit_artifact cd v (snd s)")
  have "intact (fst s, rx')"
    by (rule commit_cases [OF x]; rule intact_grow [OF assms]) (auto simp: update_entry_facts)
  then show ?thesis by (simp add: x)
qed

lemma intact_acknowledge:
  assumes "intact (tx, rx)"
  shows "intact (snd (acknowledge_artifact cd v tx), rx)"
proof -
  obtain r tx' where x: "acknowledge_artifact cd v tx = (r, tx')" by (cases "acknowledge_artifact cd v tx")
  have "intact (tx', rx)"
    by (rule acknowledge_cases [OF x]; rule intact_grow [OF assms]) (auto simp: update_entry_facts)
  then show ?thesis by (simp add: x)
qed

lemma intact_publish:
  assumes "intact (tx, rx)"
  shows "intact (snd (publish_artifact cd kind key source tx), rx)"
proof -
  obtain r tx' where x: "publish_artifact cd kind key source tx = (r, tx')" by (cases "publish_artifact cd kind key source tx")
  have "intact (tx', rx)"
    by (rule publish_cases [OF x]; rule intact_grow [OF assms]) (auto simp: map_add_def split: option.splits)
  then show ?thesis by (simp add: x)
qed

lemma intact_start:
  assumes "intact (tx, rx)"
  shows "intact (tx, snd (start_artifact cd v rx))"
proof -
  obtain r rx' where x: "start_artifact cd v rx = (r, rx')" by (cases "start_artifact cd v rx")
  have "intact (tx, rx')"
    by (rule start_cases [OF x]; rule intact_grow [OF assms]) (auto simp: map_add_def new_entry_def split: option.splits if_splits)
  then show ?thesis by (simp add: x)
qed

lemma intact_step:
  assumes "link_inv cd s" "intact s" "\<not> torn op"
  shows "intact (link_step cd op s)"
proof (cases op)
  case (Link_ack n)
  have "intact (fst s, snd (commit_artifact cd (JStr n) (snd s)))" by (rule intact_commit [OF assms(2)])
  then show ?thesis
    using intact_acknowledge by (auto simp: Link_ack split: prod.splits sum.splits)
qed (use assms intact_chunk intact_commit [OF assms(2)] intact_publish [of "fst s" "snd s"] intact_start [of "fst s" "snd s"]
    in \<open>auto split: option.splits\<close>)

lemma intact_run: "link_inv cd s \<Longrightarrow> intact s \<Longrightarrow> list_all (\<lambda>op. \<not> torn op) ops \<Longrightarrow> intact (fold (link_step cd) ops s)"
  by (induction ops arbitrary: s) (simp_all add: intact_step link_system.inv_step)

text \<open>The stored indices of an artifact are an initial segment, so the first gap is their number.\<close>

lemma chunks_initial:
  assumes "chunks_ok n cs"
  shows "fst ` set cs = {0 ..< length cs}"
proof -
  let ?S = "fst ` set cs"
  have closed: "j \<in> ?S" if "i \<in> ?S" "j \<le> i" for i j
    using that
  proof (induction i)
    case (Suc i)
    obtain raw where "(Suc i, raw) \<in> set cs" using Suc(2) by force
    from bspec [OF conjunct2 [OF assms [unfolded chunks_ok_def]] this]
    have "i \<in> ?S" by (simp only: prod.case diff_Suc_1 zero_less_Suc simp_thms)
    then show ?case using Suc by (cases "j = Suc i") auto
  qed simp
  have "finite ?S" by simp
  then obtain b where b: "b \<notin> ?S" using ex_new_if_finite [of ?S] infinite_UNIV_nat by blast
  define m where "m = (LEAST b. b \<notin> ?S)"
  have "m \<notin> ?S" unfolding m_def by (rule LeastI [of "\<lambda>b. b \<notin> ?S", OF b])
  moreover have "j \<in> ?S" if "j < m" for j using that not_less_Least [of j "\<lambda>b. b \<notin> ?S"] unfolding m_def by blast
  moreover have "j < m" if "j \<in> ?S" for j using closed [OF that, of m] \<open>m \<notin> ?S\<close> by (meson not_le)
  ultimately have S: "?S = {0 ..< m}" by (intro set_eqI iffI) simp_all
  have "card ?S = length cs" using assms distinct_card [of "map fst cs"] by (simp add: chunks_ok_def)
  then show ?thesis using S by simp
qed

lemma first_gap_present: "\<forall>j < f. map_of cs (i + j) \<noteq> None \<Longrightarrow> first_gap f i cs = i + f"
proof (induction f arbitrary: i)
  case (Suc f)
  have "map_of cs i \<noteq> None" using Suc(2) by force
  moreover have "first_gap f (Suc i) cs = Suc i + f" using Suc(2) by (intro Suc(1)) force
  ultimately show ?case by simp
qed simp

lemma first_gap_chunks:
  assumes "chunks_ok n cs"
  shows "first_gap (length cs) 0 cs = length cs" "map_of cs i = None \<longleftrightarrow> length cs \<le> i" "length cs \<le> chunk_count n"
proof -
  show none: "map_of cs i = None \<longleftrightarrow> length cs \<le> i" for i
    using chunks_initial [OF assms] by (simp add: map_of_eq_None_iff not_less)
  show "first_gap (length cs) 0 cs = length cs" using first_gap_present [of "length cs" cs 0] none by simp
  have "j < chunk_count n" if "j < length cs" for j
  proof -
    have "j \<in> fst ` set cs" using that chunks_initial [OF assms] by simp
    then show ?thesis using assms by (auto simp: chunks_ok_def)
  qed
  then show "length cs \<le> chunk_count n" by (meson not_le less_irrefl)
qed

text \<open>One chunk, then all that are missing.\<close>

lemma feed_one:
  assumes "link_inv cd (tx, rx)" "map_of (aq_outgoing tx) n = Some e" "map_of (aq_incoming rx) n = Some e'"
    "length (ae_chunks e') = i" "i < chunk_count (am_bytes (ae_manifest e))"
  shows "\<exists>raw. link_step cd (Link_chunk n i) (tx, rx) =
    (tx, rx\<lparr>aq_incoming := update_entry n (\<lambda>e. e\<lparr>ae_chunks := (i, raw) # ae_chunks e\<rparr>) (aq_incoming rx)\<rparr>)"
proof -
  have inv: "queue_inv cd tx" "queue_inv cd rx" using assms(1) by (simp_all add: link_inv_def)
  have v: "validate_manifest cd (manifest_json (ae_manifest e)) = Inr (ae_manifest e)" "am_id (ae_manifest e) = n"
    using valid_lookup [of cd, OF _ assms(2)] inv(1) by (auto simp: queue_inv_def)
  have "HASH n" using manifest_fields_facts(8) [OF validate_facts(1) [OF v(1)]] v(2) by simp
  then have name: "entry_name cd (JStr n) = Inr n" by (simp add: entry_name_def)
  obtain b where b: "ae_blob e = Some b" "ae_manifest e' = ae_manifest e" using link_copied [OF assms(1), of n e'] assms(2,3) by (auto simp: copied_ok_def)
  have "sent_ok cd e" using inv(1) map_of_SomeD [OF assms(2)] by (auto simp: queue_inv_def)
  then have len: "length b = am_bytes (ae_manifest e)" using b(1) by (auto simp: sent_ok_def pinned_iff)
  have reads: "read_entry cd (aq_outgoing tx) n = Inr e" "read_entry cd (aq_incoming rx) n = Inr e'"
    using assms(2,3) v b(2) by (simp_all add: read_entry_Inr)
  define w where "w = JObj [(''id'', JStr n), (''index'', JInt (int i)), (''data'', JStr (b64encode (chunk_of b i))),
    (''sha256'', JStr (cd_sha cd (chunk_of b i)))]"
  have sent: "send_chunk cd (JStr n) (JInt (int i)) tx = Inr w"
    using assms(5) by (simp add: send_chunk_def name reads b(1) w_def Let_def)
  have p: "chunk_packet (fields_of w) = Inr (int i, chunk_of b i)" "dget (fields_of w) ''id'' = JStr n"
    "dget (fields_of w) ''sha256'' = JStr (cd_sha cd (chunk_of b i))"
    using send_chunk_facts [OF sent] assms(2) b(1) by (metis option.inject)+
  have cs: "chunks_ok (am_bytes (ae_manifest e)) (ae_chunks e')"
    using inv(2) map_of_SomeD [OF assms(3)] b(2) by (auto simp: queue_inv_def received_ok_def)
  have bound: "i * CHUNK_BYTES < am_bytes (ae_manifest e)" using assms(5) by (simp add: chunk_index)
  have num: "int (length (chunk_of b i)) = min (int CHUNK_BYTES) (int (am_bytes (ae_manifest e)) - int i * int CHUNK_BYTES)"
  proof -
    have "length (chunk_of b i) = min CHUNK_BYTES (am_bytes (ae_manifest e) - i * CHUNK_BYTES)" by (simp add: length_chunk len)
    moreover have "int (am_bytes (ae_manifest e) - i * CHUNK_BYTES) = int (am_bytes (ae_manifest e)) - int i * int CHUNK_BYTES"
      using bound by (simp add: of_nat_diff)
    ultimately show ?thesis by (simp only: of_nat_min)
  qed
  have room: "0 < int (am_bytes (ae_manifest e)) - int i * int CHUNK_BYTES" using bound by (simp flip: of_nat_mult)
  have present: "map_of (ae_chunks e') i = None" "i = 0 \<or> map_of (ae_chunks e') (i - 1) \<noteq> None"
    using assms(4) first_gap_chunks(2) [OF cs, of i] first_gap_chunks(2) [OF cs, of "i - 1"] by linarith+
  have "snd (receive_chunk_with id cd (fields_of w) rx) =
      rx\<lparr>aq_incoming := update_entry n (\<lambda>e. e\<lparr>ae_chunks := (i, chunk_of b i) # ae_chunks e\<rparr>) (aq_incoming rx)\<rparr>"
    using num room present
    by (cases "i = 0"; cases "map_of (ae_chunks e') (i - 1)") (simp_all add: receive_chunk_with_def p name reads b(2) Let_def)
  then show ?thesis by (simp add: carry_chunk_def sent) blast
qed

lemma feed_all:
  assumes "link_inv cd (tx, rx)" "intact (tx, rx)" "map_of (aq_outgoing tx) n = Some e" "map_of (aq_incoming rx) n = Some e'"
    "length (ae_chunks e') = k" "k \<le> m" "m \<le> chunk_count (am_bytes (ae_manifest e))"
  shows "\<exists>rx' e''. fold (link_step cd) (map (Link_chunk n) [k ..< m]) (tx, rx) = (tx, rx') \<and> link_inv cd (tx, rx') \<and> intact (tx, rx') \<and>
    map_of (aq_incoming rx') n = Some e'' \<and> length (ae_chunks e'') = m \<and> ae_receipt e'' = ae_receipt e' \<and> ae_blob e'' = ae_blob e'"
  using assms(6,7)
proof (induction m)
  case 0
  then show ?case using assms by auto
next
  case (Suc m)
  show ?case
  proof (cases "k = Suc m")
    case True
    then show ?thesis using assms by auto
  next
    case False
    then have km: "k \<le> m" "m \<le> chunk_count (am_bytes (ae_manifest e))" using Suc.prems by auto
    obtain rx' e'' where ih: "fold (link_step cd) (map (Link_chunk n) [k ..< m]) (tx, rx) = (tx, rx')" "link_inv cd (tx, rx')"
        "intact (tx, rx')" "map_of (aq_incoming rx') n = Some e''" "length (ae_chunks e'') = m" "ae_receipt e'' = ae_receipt e'"
        "ae_blob e'' = ae_blob e'"
      using Suc.IH [OF km] by blast
    obtain raw where step: "link_step cd (Link_chunk n m) (tx, rx') =
        (tx, rx'\<lparr>aq_incoming := update_entry n (\<lambda>e. e\<lparr>ae_chunks := (m, raw) # ae_chunks e\<rparr>) (aq_incoming rx')\<rparr>)"
      using feed_one [OF ih(2) assms(3) ih(4,5)] Suc.prems(2) by auto
    have next_ok: "link_inv cd (link_step cd (Link_chunk n m) (tx, rx'))" "intact (link_step cd (Link_chunk n m) (tx, rx'))"
      by (rule link_system.inv_step [OF ih(2)], rule intact_step [OF ih(2,3)]) simp
    have "[k ..< Suc m] = [k ..< m] @ [m]" using km(1) by simp
    then have "fold (link_step cd) (map (Link_chunk n) [k ..< Suc m]) (tx, rx) = link_step cd (Link_chunk n m) (tx, rx')" by (simp add: ih(1))
    then show ?thesis using next_ok ih(4-7) unfolding step by (simp add: update_entry_facts)
  qed
qed

lemma ack_delivers:
  assumes "link_inv cd (tx, rx)" "intact (tx, rx)" "map_of (aq_outgoing tx) n = Some e" "map_of (aq_incoming rx) n = Some e'"
    "ae_receipt e' \<noteq> None \<or> length (ae_chunks e') = chunk_count (am_bytes (ae_manifest e))"
  shows "\<exists>e1. map_of (aq_outgoing (fst (link_step cd (Link_ack n) (tx, rx)))) n = Some e1 \<and> ae_delivery e1 \<noteq> None"
proof -
  have inv: "queue_inv cd tx" "queue_inv cd rx" using assms(1) by (simp_all add: link_inv_def)
  have v: "validate_manifest cd (manifest_json (ae_manifest e)) = Inr (ae_manifest e)" "am_id (ae_manifest e) = n"
    using valid_lookup [of cd, OF _ assms(3)] inv(1) by (auto simp: queue_inv_def)
  have "HASH n" using manifest_fields_facts(8) [OF validate_facts(1) [OF v(1)]] v(2) by simp
  then have name: "entry_name cd (JStr n) = Inr n" by (simp add: entry_name_def)
  obtain b where b: "ae_blob e = Some b" "ae_manifest e' = ae_manifest e" using link_copied [OF assms(1), of n e'] assms(3,4) by (auto simp: copied_ok_def)
  have se: "sent_ok cd e" using inv(1) map_of_SomeD [OF assms(3)] by (auto simp: queue_inv_def)
  then have pin: "content_pinned cd (ae_manifest e) b" using b(1) by (auto simp: sent_ok_def)
  have reads: "read_entry cd (aq_outgoing tx) n = Inr e" "read_entry cd (aq_incoming rx) n = Inr e'"
    using assms(3,4) v b(2) by (simp_all add: read_entry_Inr)
  let ?r = "receipt_json (ae_manifest e)"
  have refl: "py_eq ?r ?r" by (rule manifest_refl(3) [OF v(1)])
  have re: "received_ok cd e'" using inv(2) map_of_SomeD [OF assms(4)] by (auto simp: queue_inv_def)
  obtain rx' where commit: "commit_artifact cd (JStr n) rx = (Inr ?r, rx')"
  proof (cases "ae_receipt e'")
    case (Some old)
    then have "old = ?r" using re b(2) by (simp add: received_ok_def)
    then show thesis using that Some refl by (simp add: commit_artifact_def name reads b(2) Let_def)
  next
    case None
    have cs: "chunks_ok (length b) (ae_chunks e')" using re b(2) pin by (simp add: received_ok_def pinned_iff)
    have "map_of (ae_chunks e') i = Some (chunk_of b i)" if i: "i < chunk_count (length b)" for i
    proof -
      have "length (ae_chunks e') = chunk_count (length b)" using None assms(5) pin by (simp add: pinned_iff)
      then have "map_of (ae_chunks e') i \<noteq> None" using first_gap_chunks(2) [OF cs, of i] i by simp
      then obtain raw where raw: "map_of (ae_chunks e') i = Some raw" by blast
      have "raw = chunk_of b i"
        using assms(2) [unfolded intact_def, rule_format, of n e' i raw] assms(3,4) b(1) map_of_SomeD [OF raw] by simp
      then show ?thesis using raw by simp
    qed
    then have "reconstruct e' = Inr b" using reconstruct_whole [of e' b] b(2) pin by (simp add: pinned_iff)
    then show thesis using that None pin by (simp add: commit_artifact_def name reads b(2) Let_def)
  qed
  have id: "dget (fields_of ?r) ''id'' = JStr n" "is_obj ?r" using v(2) by (simp_all add: receipt_json_def)
  show ?thesis
  proof (cases "ae_delivery e")
    case None
    then show ?thesis
      using assms(3) by (simp add: commit acknowledge_artifact_def id name reads refl update_entry_facts)
  next
    case (Some old)
    then have "py_eq old ?r" using se by (auto simp: sent_ok_def)
    then show ?thesis using Some assms(3) by (simp add: commit acknowledge_artifact_def id name reads refl)
  qed
qed

text \<open>
  C13. The transfer completes. After any history without a crash inside a chunk write, for any published
  artifact that the receiver admits: start, the chunks from the index it replies, and the acknowledgment
  end with the delivery recorded at the sender (and so, by the previous property, with the file at the
  receiver), however much of it had arrived before.
\<close>

theorem artifact_transfer_completes:
  assumes "list_all (\<lambda>op. \<not> torn op) ops" "fold (link_step cd) ops (link_start a b) = (tx, rx)"
    "map_of (aq_outgoing tx) n = Some e" "fst (start_artifact cd (manifest_json (ae_manifest e)) rx) = Inr reply"
    "dget (fields_of reply) ''next_index'' = JInt (int k)"
  shows "\<exists>tx' rx' e1. fold (link_step cd)
      (Link_start n # map (Link_chunk n) [k ..< chunk_count (am_bytes (ae_manifest e))] @ [Link_ack n]) (tx, rx) = (tx', rx') \<and>
    map_of (aq_outgoing tx') n = Some e1 \<and> ae_delivery e1 \<noteq> None"
proof -
  have i: "link_inv cd (tx, rx)" using link_run [of cd ops a b] assms(2) by simp
  have "intact (link_start a b)" by (simp add: intact_def link_start_def ArtifactQueue_def)
  then have t: "intact (tx, rx)" using intact_run [OF link_begins _ assms(1)] assms(2) by metis
  let ?m = "chunk_count (am_bytes (ae_manifest e))"
  obtain rx1 where s: "start_artifact cd (manifest_json (ae_manifest e)) rx = (Inr reply, rx1)"
    using assms(4) by (metis prod.collapse)
  have step: "link_step cd (Link_start n) (tx, rx) = (tx, rx1)" using s assms(3) by simp
  have i1: "link_inv cd (tx, rx1)" and t1: "intact (tx, rx1)"
    using link_system.inv_step [OF i, of "Link_start n"] intact_step [OF i t, of "Link_start n"] unfolding step by simp_all
  have v: "validate_manifest cd (manifest_json (ae_manifest e)) = Inr (ae_manifest e)" "am_id (ae_manifest e) = n"
    using valid_lookup [of cd, OF _ assms(3)] i by (auto simp: link_inv_def queue_inv_def)
  obtain e' where e': "map_of (aq_incoming rx1) n = Some e'" "reply = start_reply e'"
    using s v by (auto simp: start_artifact_def map_add_def split: if_splits option.splits sum.splits)
  have cs: "chunks_ok (am_bytes (ae_manifest e)) (ae_chunks e')"
  proof -
    have "received_ok cd e'" using i1 map_of_SomeD [OF e'(1)] by (auto simp: link_inv_def queue_inv_def)
    moreover have "ae_manifest e' = ae_manifest e" using link_copied [OF i1, of n e'] e'(1) assms(3) by (auto simp: copied_ok_def)
    ultimately show ?thesis by (simp add: received_ok_def)
  qed
  have k: "length (ae_chunks e') = k" using assms(5) first_gap_chunks(1) [OF cs] by (simp add: e'(2) start_reply_def)
  obtain rx2 e2 where fed: "fold (link_step cd) (map (Link_chunk n) [k ..< ?m]) (tx, rx1) = (tx, rx2)" "link_inv cd (tx, rx2)"
      "intact (tx, rx2)" "map_of (aq_incoming rx2) n = Some e2" "length (ae_chunks e2) = ?m"
    using feed_all [OF i1 t1 assms(3) e'(1) k _ order_refl] first_gap_chunks(3) [OF cs] k by blast
  obtain e1 where "map_of (aq_outgoing (fst (link_step cd (Link_ack n) (tx, rx2)))) n = Some e1" "ae_delivery e1 \<noteq> None"
    using ack_delivers [OF fed(2,3) assms(3) fed(4)] fed(5) by blast
  moreover have "fold (link_step cd) (Link_start n # map (Link_chunk n) [k ..< ?m] @ [Link_ack n]) (tx, rx) = link_step cd (Link_ack n) (tx, rx2)"
    by (simp only: fold.simps fold_append o_apply step fed(1) id_apply)
  ultimately show ?thesis by (metis prod.collapse)
qed

section \<open>After a torn chunk it cannot\<close>

definition damaged :: "string \<Rightarrow> nat \<Rightarrow> string \<Rightarrow> link \<Rightarrow> bool" where
  "damaged n i source s \<longleftrightarrow> (\<exists>e e' raw. map_of (aq_outgoing (fst s)) n = Some e \<and> ae_blob e = Some source \<and>
     map_of (aq_incoming (snd s)) n = Some e' \<and> ae_receipt e' = None \<and> map_of (ae_chunks e') i = Some raw \<and> raw \<noteq> chunk_of source i)"

lemma damagedI:
  "damaged n i source s \<Longrightarrow>
    (\<And>e. map_of (aq_outgoing (fst s)) n = Some e \<Longrightarrow> \<exists>e2. map_of (aq_outgoing (fst s')) n = Some e2 \<and> ae_blob e2 = ae_blob e) \<Longrightarrow>
    (\<And>e'. map_of (aq_incoming (snd s)) n = Some e' \<Longrightarrow> ae_receipt e' = None \<Longrightarrow> \<exists>e2. map_of (aq_incoming (snd s')) n = Some e2 \<and>
        ae_receipt e2 = None \<and> (\<forall>raw. map_of (ae_chunks e') i = Some raw \<longrightarrow> map_of (ae_chunks e2) i = Some raw)) \<Longrightarrow>
    damaged n i source s'"
  unfolding damaged_def by metis

lemma damaged_commit:
  assumes "link_inv cd s" "damaged n i source s" "commit_artifact cd v (snd s) = (r, rx')"
  shows "damaged n i source (fst s, rx')" "v = JStr n \<Longrightarrow> \<exists>x. r = Inl x"
proof -
  obtain e e' raw where d: "map_of (aq_outgoing (fst s)) n = Some e" "ae_blob e = Some source"
      "map_of (aq_incoming (snd s)) n = Some e'" "ae_receipt e' = None" "map_of (ae_chunks e') i = Some raw" "raw \<noteq> chunk_of source i"
    using assms(2) unfolding damaged_def by blast
  have same: "ae_manifest e' = ae_manifest e" "\<forall>(i, raw) \<in> set (ae_chunks e'). \<exists>k. raw = take k (chunk_of source i)"
    using link_copied [OF assms(1) d(3)] d(1,2) by (auto simp: copied_ok_def)
  have "sent_ok cd e" using assms(1) map_of_SomeD [OF d(1)] by (auto simp: link_inv_def queue_inv_def)
  then have pin: "content_pinned cd (ae_manifest e) source" using d(2) by (auto simp: sent_ok_def)
  have "received_ok cd e'" using assms(1) map_of_SomeD [OF d(3)] by (auto simp: link_inv_def queue_inv_def)
  then have bound: "i < chunk_count (length source)"
    using map_of_SomeD [OF d(5)] same(1) pin by (auto simp: received_ok_def chunks_ok_def pinned_iff)
  have no: False if "reconstruct e' = Inr blob" "content_pinned cd (ae_manifest e') blob" for blob
  proof -
    have "length blob = length source" "am_bytes (ae_manifest e') = length source" using pin that(2) unfolding pinned_iff same(1) by simp_all
    then show False using reconstruct_exact(2) [OF that(1) _ _ same(2) bound] d(5,6) by simp
  qed
  show "damaged n i source (fst s, rx')"
  proof (rule commit_cases [OF assms(3)])
    fix name e2 blob
    assume m: "map_of (aq_incoming (snd s)) name = Some e2" "reconstruct e2 = Inr blob" "content_pinned cd (ae_manifest e2) blob"
      "rx' = (snd s)\<lparr>aq_incoming := update_entry name
        (\<lambda>e'. e'\<lparr>ae_blob := Some blob, ae_receipt := Some (receipt_json (ae_manifest e2))\<rparr>) (aq_incoming (snd s))\<rparr>"
    have "name \<noteq> n" using m(1-3) d(3) no by auto
    then show ?thesis by (intro damagedI [OF assms(2)]) (auto simp: m(4) update_entry_facts)
  qed (use assms(2) in simp_all)
  show "\<exists>x. r = Inl x" if "v = JStr n"
    by (rule commit_cases [OF assms(3)]) (use that d(3,4) no in auto)
qed

lemma damaged_chunk:
  assumes "damaged n i source s"
  shows "damaged n i source (carry_chunk w cd m j s)"
proof (cases "send_chunk cd (JStr m) (JInt (int j)) (fst s)")
  case (Inl x)
  then show ?thesis using assms by (simp add: carry_chunk_def)
next
  case (Inr v)
  obtain r rx' where x: "receive_chunk_with w cd (fields_of v) (snd s) = (r, rx')" by (cases "receive_chunk_with w cd (fields_of v) (snd s)")
  have "damaged n i source (fst s, rx')"
  proof (rule receive_cases [OF x])
    fix name e' l raw
    assume m: "map_of (aq_incoming (snd s)) name = Some e'" "map_of (ae_chunks e') l = None"
      "rx' = (snd s)\<lparr>aq_incoming := update_entry name (\<lambda>e. e\<lparr>ae_chunks := (l, w raw) # ae_chunks e\<rparr>) (aq_incoming (snd s))\<rparr>"
    show ?thesis by (rule damagedI [OF assms]) (use m(1,2) in \<open>auto simp: m(3) update_entry_facts\<close>)
  qed (use assms in simp)
  then show ?thesis by (simp add: carry_chunk_def Inr x)
qed

lemma damaged_step:
  assumes "link_inv cd s" "damaged n i source s"
  shows "damaged n i source (link_step cd op s)"
proof (cases op)
  case (Link_publish kind key content)
  obtain r tx' where x: "publish_artifact cd kind key content (fst s) = (r, tx')" by (cases "publish_artifact cd kind key content (fst s)")
  have "damaged n i source (tx', snd s)"
    by (rule publish_cases [OF x]; rule damagedI [OF assms(2)]) (auto simp: map_add_def split: option.splits)
  then show ?thesis by (simp add: Link_publish x)
next
  case (Link_start m)
  have "damaged n i source (fst s, snd (start_artifact cd v (snd s)))" for v
  proof -
    obtain r rx' where x: "start_artifact cd v (snd s) = (r, rx')" by (cases "start_artifact cd v (snd s)")
    have "damaged n i source (fst s, rx')"
      by (rule start_cases [OF x]; rule damagedI [OF assms(2)]) (auto simp: map_add_def split: option.splits)
    then show ?thesis by (simp add: x)
  qed
  then show ?thesis using assms(2) by (auto simp: Link_start split: option.splits)
next
  case (Link_commit m)
  then show ?thesis using damaged_commit(1) [OF assms, of "JStr m"] by (cases "commit_artifact cd (JStr m) (snd s)") simp
next
  case (Link_ack m)
  obtain r rx' where c: "commit_artifact cd (JStr m) (snd s) = (r, rx')" by (cases "commit_artifact cd (JStr m) (snd s)")
  note d = damaged_commit(1) [OF assms c]
  show ?thesis
  proof (cases r)
    case (Inr receipt)
    obtain r2 tx' where x: "acknowledge_artifact cd receipt (fst s) = (r2, tx')" by (cases "acknowledge_artifact cd receipt (fst s)")
    have "damaged n i source (tx', rx')"
      by (rule acknowledge_cases [OF x]; rule damagedI [OF d]) (auto simp: update_entry_facts)
    then show ?thesis by (simp add: Link_ack c Inr x)
  qed (use d in \<open>simp add: Link_ack c\<close>)
qed (use damaged_chunk [OF assms(2)] in simp_all)

text \<open>
  C29. A torn chunk blocks its artifact for good. Once a chunk file of an artifact without a receipt differs
  from the chunk that the sender holds, no sequence of further requests, retransmission of that chunk
  included, commits the artifact or records its delivery.
\<close>

theorem torn_chunk_blocks:
  assumes "fold (link_step cd) ops (link_start a b) = (tx, rx)" "map_of (aq_outgoing tx) n = Some e" "ae_blob e = Some source"
    "map_of (aq_incoming rx) n = Some e'" "ae_receipt e' = None" "map_of (ae_chunks e') i = Some raw" "raw \<noteq> chunk_of source i"
  shows "\<exists>sent got. map_of (aq_outgoing (fst (fold (link_step cd) later (tx, rx)))) n = Some sent \<and> ae_delivery sent = None \<and>
    map_of (aq_incoming (snd (fold (link_step cd) later (tx, rx)))) n = Some got \<and> ae_receipt got = None"
proof -
  have "link_inv cd (tx, rx)" using link_run [of cd ops a b] assms(1) by simp
  moreover have "damaged n i source (tx, rx)" unfolding damaged_def using assms by auto
  ultimately have "link_inv cd (fold (link_step cd) later (tx, rx)) \<and> damaged n i source (fold (link_step cd) later (tx, rx))"
  proof (induction later arbitrary: tx rx)
    case (Cons op later)
    have "link_inv cd (link_step cd op (tx, rx))" "damaged n i source (link_step cd op (tx, rx))"
      using link_system.inv_step [OF Cons(2)] damaged_step [OF Cons(2,3)] by blast+
    then show ?case using Cons.IH [of "fst (link_step cd op (tx, rx))" "snd (link_step cd op (tx, rx))"] by simp
  qed simp
  then show ?thesis using link_delivered [of cd "fold (link_step cd) later (tx, rx)" n] unfolding damaged_def by fastforce
qed

section \<open>A concrete transfer\<close>

definition demo_hash :: string where
  "demo_hash = replicate 64 (CHR ''a'')"

definition demo_codec :: codec where
  "demo_codec = \<lparr>cd_sha = \<lambda>_. demo_hash, cd_dumps = \<lambda>_. [], cd_float = \<lambda>_. []\<rparr>"

definition demo_manifest :: art_manifest where
  "demo_manifest = \<lparr>am_id = demo_hash, am_kind = ''sealed_group'', am_key = JStr ''g0'', am_bytes = 3, am_sha256 = JStr demo_hash\<rparr>"

lemma demo_manifest_valid: "validate_manifest demo_codec (manifest_json demo_manifest) = Inr demo_manifest"
proof -
  have "keys_are (fields_of (manifest_json demo_manifest)) [''schema_version'', ''id'', ''kind'', ''key'', ''bytes'', ''sha256'', ''chunk_bytes'']"
    by (auto simp: keys_are_def manifest_json_def)
  moreover have "HASH demo_hash" by (simp add: HASH_def is_hex_def demo_hash_def list_all_iff)
  moreover have "KEY ''g0''" by code_simp
  ultimately show ?thesis
    by (simp add: validate_manifest_def manifest_fields_def encoded_body_def finite_scalar_def demo_codec_def)
      (simp add: manifest_json_def demo_manifest_def KINDS_def MAX_BYTES_def)
qed

lemma demo_publish:
  "publish_artifact demo_codec ''sealed_group'' (JStr ''g0'') ''abc'' (ArtifactQueue r) =
    (Inr demo_manifest, (ArtifactQueue r)\<lparr>aq_outgoing := [(demo_hash, new_entry demo_manifest (Some ''abc''))]\<rparr>)"
proof -
  have "publish_manifest demo_codec ''sealed_group'' (JStr ''g0'') ''abc'' = Inr demo_manifest"
    using demo_manifest_valid by (simp add: publish_manifest_def encoded_body_def finite_scalar_def demo_codec_def demo_manifest_def Let_def flip: numeral_3_eq_3)
  moreover have "am_id demo_manifest = demo_hash" "am_bytes demo_manifest = 3" by (simp_all add: demo_manifest_def)
  ultimately show ?thesis by (simp add: publish_artifact_def ArtifactQueue_def bounded_def MAX_ARTIFACTS_def MAX_QUEUE_BYTES_def)
qed

definition demo_tx :: art_queue where
  "demo_tx = (ArtifactQueue None)\<lparr>aq_outgoing := [(demo_hash, new_entry demo_manifest (Some ''abc''))]\<rparr>"

lemma demo_published_run:
  "fold (link_step demo_codec) [Link_publish ''sealed_group'' (JStr ''g0'') ''abc''] (link_start None (Some ''gpu'')) = (demo_tx, ArtifactQueue (Some ''gpu''))"
  by (simp add: link_start_def demo_publish demo_tx_def)

lemma demo_start:
  "start_artifact demo_codec (manifest_json demo_manifest) (ArtifactQueue (Some ''gpu'')) =
    (Inr (start_reply (new_entry demo_manifest None)), (ArtifactQueue (Some ''gpu''))\<lparr>aq_incoming := [(demo_hash, new_entry demo_manifest None)]\<rparr>)"
  using demo_manifest_valid
  by (simp add: start_artifact_def ArtifactQueue_def role_admits_def bounded_def MAX_ARTIFACTS_def MAX_QUEUE_BYTES_def)
    (simp add: demo_manifest_def)

lemma demo_chunks: "chunk_count (am_bytes demo_manifest) = 1" "chunk_of ''abc'' 0 = ''abc''"
  by (simp_all add: chunk_count_def chunk_of_def CHUNK_BYTES_def demo_manifest_def)

lemma artifact_transfer_completes_witness:
  "\<exists>tx rx sent. fold (link_step demo_codec) [Link_start demo_hash, Link_chunk demo_hash 0, Link_ack demo_hash]
     (demo_tx, ArtifactQueue (Some ''gpu'')) = (tx, rx) \<and> map_of (aq_outgoing tx) demo_hash = Some sent \<and> ae_delivery sent \<noteq> None"
proof -
  have s: "map_of (aq_outgoing demo_tx) demo_hash = Some (new_entry demo_manifest (Some ''abc''))" by (simp add: demo_tx_def)
  have m: "ae_manifest (new_entry demo_manifest (Some ''abc'')) = demo_manifest" by (simp add: new_entry_def)
  have k: "dget (fields_of (start_reply (new_entry demo_manifest None))) ''next_index'' = JInt (int 0)"
    by (simp add: start_reply_def new_entry_def)
  from artifact_transfer_completes [OF _ demo_published_run s _ k, unfolded m demo_start demo_chunks(1)]
  show ?thesis by simp
qed

definition demo_rx :: "(nat \<times> string) list \<Rightarrow> art_queue" where
  "demo_rx cs = (ArtifactQueue (Some ''gpu''))\<lparr>aq_incoming := [(demo_hash, (new_entry demo_manifest None)\<lparr>ae_chunks := cs\<rparr>)]\<rparr>"

lemma demo_started:
  "fold (link_step demo_codec) [Link_publish ''sealed_group'' (JStr ''g0'') ''abc'', Link_start demo_hash] (link_start None (Some ''gpu'')) =
    (demo_tx, demo_rx [])"
  using demo_published_run demo_start by (simp add: demo_tx_def demo_rx_def new_entry_def)

lemma demo_carry: "carry_chunk w demo_codec demo_hash 0 (demo_tx, demo_rx []) = (demo_tx, demo_rx [(0, w ''abc'')])"
proof -
  have name: "entry_name demo_codec (JStr demo_hash) = Inr demo_hash"
    by (simp add: entry_name_def HASH_def is_hex_def demo_hash_def list_all_iff)
  have s: "map_of (aq_outgoing demo_tx) demo_hash = Some (new_entry demo_manifest (Some ''abc''))" by (simp add: demo_tx_def)
  have reads: "read_entry demo_codec (aq_outgoing demo_tx) demo_hash = Inr (new_entry demo_manifest (Some ''abc''))"
    "read_entry demo_codec (aq_incoming (demo_rx [])) demo_hash = Inr ((new_entry demo_manifest None)\<lparr>ae_chunks := []\<rparr>)"
    using demo_manifest_valid by (simp_all add: read_entry_def demo_tx_def demo_rx_def new_entry_def)
  obtain v where v: "send_chunk demo_codec (JStr demo_hash) (JInt (int 0)) demo_tx = Inr v"
    using demo_chunks by (simp add: send_chunk_def name reads(1) new_entry_def Let_def)
  obtain e b where f: "map_of (aq_outgoing demo_tx) demo_hash = Some e" "ae_blob e = Some b"
      "chunk_packet (fields_of v) = Inr (int 0, chunk_of b 0)" "dget (fields_of v) ''id'' = JStr demo_hash"
      "dget (fields_of v) ''sha256'' = JStr (cd_sha demo_codec (chunk_of b 0))"
    using send_chunk_facts [OF v] by metis
  have "b = ''abc''" using f(1,2) s by (auto simp: new_entry_def)
  note p = f(3-5) [unfolded this demo_chunks(2)]
  have "snd (receive_chunk_with w demo_codec (fields_of v) (demo_rx [])) = demo_rx [(0, w ''abc'')]"
    by (simp add: receive_chunk_with_def p name reads(2) new_entry_def Let_def demo_manifest_def CHUNK_BYTES_def)
      (simp add: demo_rx_def update_entry_def new_entry_def demo_manifest_def)
  then show ?thesis using v by (simp add: carry_chunk_def)
qed

lemma torn_chunk_blocks_witness:
  "\<exists>sent got. map_of (aq_outgoing (fst (fold (link_step demo_codec) [Link_chunk demo_hash 0, Link_ack demo_hash] (demo_tx, demo_rx [(0, ''a'')])))) demo_hash = Some sent \<and>
     ae_delivery sent = None \<and>
     map_of (aq_incoming (snd (fold (link_step demo_codec) [Link_chunk demo_hash 0, Link_ack demo_hash] (demo_tx, demo_rx [(0, ''a'')])))) demo_hash = Some got \<and>
     ae_receipt got = None"
proof (rule torn_chunk_blocks [where ops = "[Link_publish ''sealed_group'' (JStr ''g0'') ''abc'', Link_start demo_hash, Link_torn demo_hash 0 1]"
      and a = None and b = "Some ''gpu''" and e = "new_entry demo_manifest (Some ''abc'')" and source = "''abc''" and i = 0 and raw = "''a''"
      and e' = "(new_entry demo_manifest None)\<lparr>ae_chunks := [(0, ''a'')]\<rparr>"])
  show "fold (link_step demo_codec) [Link_publish ''sealed_group'' (JStr ''g0'') ''abc'', Link_start demo_hash, Link_torn demo_hash 0 1]
      (link_start None (Some ''gpu'')) = (demo_tx, demo_rx [(0, ''a'')])"
    using demo_started demo_carry [of "take 1"] by simp
  show "map_of (aq_outgoing demo_tx) demo_hash = Some (new_entry demo_manifest (Some ''abc''))" by (simp add: demo_tx_def)
  show "ae_blob (new_entry demo_manifest (Some ''abc'')) = Some ''abc''" by (simp add: new_entry_def)
  show "map_of (aq_incoming (demo_rx [(0, ''a'')])) demo_hash = Some ((new_entry demo_manifest None)\<lparr>ae_chunks := [(0, ''a'')]\<rparr>)"
    by (simp add: demo_rx_def)
  show "map_of (ae_chunks ((new_entry demo_manifest None)\<lparr>ae_chunks := [(0, ''a'')]\<rparr>)) 0 = Some ''a''" by simp
  show "''a'' \<noteq> chunk_of ''abc'' 0" by (simp add: demo_chunks)
qed (simp add: new_entry_def)

lemma demo_delivered:
  "\<exists>tx rx sent. fold (link_step demo_codec) [Link_publish ''sealed_group'' (JStr ''g0'') ''abc'', Link_start demo_hash,
      Link_chunk demo_hash 0, Link_ack demo_hash] (link_start None (Some ''gpu'')) = (tx, rx) \<and>
    map_of (aq_outgoing tx) demo_hash = Some sent \<and> ae_delivery sent \<noteq> None"
proof -
  let ?before = "[Link_publish ''sealed_group'' (JStr ''g0'') ''abc'', Link_start demo_hash, Link_chunk demo_hash 0]"
  have run: "fold (link_step demo_codec) ?before (link_start None (Some ''gpu'')) = (demo_tx, demo_rx [(0, ''abc'')])"
    using demo_started demo_carry [of id] by simp
  have "link_inv demo_codec (demo_tx, demo_rx [(0, ''abc'')])" using link_run [of demo_codec ?before] run by metis
  moreover have "intact (demo_tx, demo_rx [(0, ''abc'')])"
    using intact_run [of demo_codec "link_start None (Some ''gpu'')" ?before] link_begins run
    by (simp add: intact_def link_start_def ArtifactQueue_def)
  ultimately obtain sent where
      "map_of (aq_outgoing (fst (link_step demo_codec (Link_ack demo_hash) (demo_tx, demo_rx [(0, ''abc'')])))) demo_hash = Some sent"
      "ae_delivery sent \<noteq> None"
    using ack_delivers [of demo_codec demo_tx "demo_rx [(0, ''abc'')]" demo_hash "new_entry demo_manifest (Some ''abc'')"
      "(new_entry demo_manifest None)\<lparr>ae_chunks := [(0, ''abc'')]\<rparr>"] demo_chunks(1)
    by (auto simp: demo_tx_def demo_rx_def new_entry_def)
  moreover have "fold (link_step demo_codec) (?before @ [Link_ack demo_hash]) (link_start None (Some ''gpu'')) =
      link_step demo_codec (Link_ack demo_hash) (demo_tx, demo_rx [(0, ''abc'')])"
    by (simp only: fold_append o_apply run, simp only: fold.simps o_apply id_apply)
  ultimately show ?thesis by (metis append_Cons append_Nil prod.collapse)
qed

lemma artifact_delivery_exact_witness:
  "\<exists>tx rx sent got. fold (link_step demo_codec) [Link_publish ''sealed_group'' (JStr ''g0'') ''abc'', Link_start demo_hash,
      Link_chunk demo_hash 0, Link_ack demo_hash] (link_start None (Some ''gpu'')) = (tx, rx) \<and>
    map_of (aq_outgoing tx) demo_hash = Some sent \<and> ae_delivery sent \<noteq> None \<and>
    map_of (aq_incoming rx) demo_hash = Some got \<and> ae_receipt got \<noteq> None \<and> ae_blob got = ae_blob sent"
proof -
  obtain tx rx sent where d: "fold (link_step demo_codec) [Link_publish ''sealed_group'' (JStr ''g0'') ''abc'', Link_start demo_hash,
      Link_chunk demo_hash 0, Link_ack demo_hash] (link_start None (Some ''gpu'')) = (tx, rx)"
      "map_of (aq_outgoing tx) demo_hash = Some sent" "ae_delivery sent \<noteq> None"
    using demo_delivered by blast
  from artifact_delivery_exact [OF d(1), THEN conjunct2, rule_format, OF conjI [OF d(2,3)]] d show ?thesis by blast
qed


end
