(* ===== verification/Spec2Isabelle.thy ===== *)
theory Spec2Isabelle
  imports Batch_Planner Coordinator_Witness Generation_Training Gsm8k Host_Memory Input_Cache Workloads Cpu_Layout
    Vllm_Controller Training_Provider Serving_Contracts Coordinator_Stream_Properties Manager_Mailbox Expert_Dispatch
    Context_Parallel Sft_Data Artifact_Link
begin

text \<open>
  \<^bold>\<open>Verification of Tiny-DSV41: rollout management, training evidence and learner-side planning.\<close>

  The program is a reinforcement-learning trainer for DeepSeek-style and Qwen models with a rollout
  manager. A \<^emph>\<open>learner\<close> (\<^verbatim>\<open>dsv41_train/rl\<close>) plans batches, updates weights and asks a \<^emph>\<open>manager\<close> process
  for groups of sampled episodes. The manager (\<^verbatim>\<open>dsv41_train/rl/manager.py\<close>, or
  \<^verbatim>\<open>rollout_manager/benchmark_training.py\<close> for benchmark suites) keeps a mailbox of finished groups and
  drives a \<^emph>\<open>coordinator\<close> (\<^verbatim>\<open>rollout_manager/coordinator.py\<close>), which admits episodes to executors within
  their capacity, quarantines what is not proved clean and returns results. Episodes call a \<^emph>\<open>policy
  controller\<close> (\<^verbatim>\<open>rollout_manager/backends\<close>), which serves one loaded policy behind a pause, activate and
  resume barrier. Results become training groups only with complete evidence
  (\<^verbatim>\<open>rollout_manager/training.py\<close>, \<^verbatim>\<open>generation_training.py\<close>). Around them stand the suite schedule, the
  input cache and the memory budget of evaluators, and on the model side the expert-parallel token
  dispatch and the encoding of chats and supervised examples.

  \<^bold>\<open>Conventions.\<close> A Python function is a HOL function; an exception is \<open>Inl\<close> of an \<open>exn\<close> in the type
  \<open>'a result\<close>, so every raise and early return is a branch. A dataclass is a record, its
  \<^verbatim>\<open>__post_init__\<close> a constructor function of the same name that returns a result. JSON values are the
  datatype \<open>json\<close>; dictionaries are association lists, with Python's equality (\<open>py_eq\<close>) and truth
  (\<open>truthy\<close>). A coroutine or a locked object is cut at its suspension points: each piece is one
  function of the state, and a run is any list of pieces, so a statement about all runs covers every
  interleaving. Code outside the repository (SHA-256, JSON text, tokenizer, model, clock, process tables,
  what a backend answers) is an argument.

  \<^bold>\<open>Idealisations.\<close> Floats are exact rationals with the infinities and NaN where a check looks for them;
  strings are byte strings (ASCII for the character classes); an append to the event store does not
  fail; a wait is one test per pass; semaphores have no queue order; \<^verbatim>\<open>TimeoutError\<close> and
  \<^verbatim>\<open>AttributeError\<close> are shown as \<open>RuntimeError\<close> and \<open>TypeError\<close>; texts of error messages leave out
  interpolated values.

  \<^bold>\<open>Shared theories.\<close>
  \<^item> \<open>Prelude\<close>: results, JSON, Python integers and floats, strings and decimal text, shared lemmas.
  \<^item> \<open>Transition\<close>: the locales \<open>op_system\<close> (a state machine with an invariant; its lemma carries the
    invariant over any list of operations), interpreted on the stateful components of both sides, and
    \<open>op_refinement\<close> (with an abstract machine), interpreted on the mailbox.
  \<^item> \<open>Ledger\<close>: the locale of reservations over keys with a capacity, interpreted on the coordinator, its
    stream, the memory budget and the cache tiers.

  \<^bold>\<open>Learner side.\<close>
  \<^item> \<open>Batch_Planner\<close> (\<^verbatim>\<open>dsv41_train/rl/learner_batch_planner.py\<close>): shape strings and microbatch packing. A
    plan is a permutation of the responses within the qualified cells, and planning succeeds exactly on
    valid input; the packing loop terminates because each round takes at least one response.
  \<^item> \<open>Rollout\<close>, \<open>Rewards\<close>, \<open>Gsm8k\<close> (\<^verbatim>\<open>rl/data.py\<close>, \<^verbatim>\<open>rl/rollout.py\<close>, \<^verbatim>\<open>rl/rewards.py\<close>, \<^verbatim>\<open>rl/gsm8k.py\<close>): prompt
    records, sampling with stop sequences, exact rewards, selection of a data split.
  \<^item> \<open>Chat_Encoding\<close>, \<open>Sft_Data\<close> (\<^verbatim>\<open>rl/tokenizer.py\<close>, \<^verbatim>\<open>sft_data.py\<close>): the state machine that checks a
    conversation accepts exactly the grammar \<open>conversation\<close>; supervision covers exactly the answer; padding
    loses nothing.
  \<^item> \<open>Collective\<close>, \<open>Token_Dispatch\<close>, \<open>Expert_Dispatch\<close> (\<^verbatim>\<open>dispatch.py\<close>, \<^verbatim>\<open>models/dsv4/moe/dispatch.py\<close>): all ranks
    of an expert-parallel group, with \<^verbatim>\<open>all_to_all_single\<close> as an argument under its documented contract
    (\<open>collective\<close>). For any expert function the distributed path computes what one process computes,
    the index arithmetic of \<open>expert_major_order\<close> included.
  \<^item> \<open>Context_Parallel\<close> (\<^verbatim>\<open>cp.py\<close>): sharding of a packed sequence, the halo exchange and the attention
    indices; with any number of ranks every query sees the keys and the mask of one process.
  \<^item> \<open>Manager\<close>, \<open>Manager_Mailbox\<close> (\<^verbatim>\<open>rl/manager.py\<close>): the mailbox refines a queue (\<open>fifo\<close>), stays within its
    credit under any commands, survives a restart; the learner's handle fails for good.

  \<^bold>\<open>Rollout manager.\<close>
  \<^item> \<open>Contracts\<close>, \<open>Generation_Failure\<close> (\<^verbatim>\<open>contracts.py\<close>, \<^verbatim>\<open>generation_failure.py\<close>): identities, plans, results,
    the token, and when a request or a failure receipt counts as proved.
  \<^item> \<open>Coordinator\<close>, \<open>Coordinator_Run\<close> with \<open>Coordinator_Safety\<close>, \<open>Coordinator_Ledger\<close>, \<open>Coordinator_Witness\<close>
    (\<^verbatim>\<open>coordinator.py\<close>, \<^verbatim>\<open>run\<close>): the scheduler of the event loop is a function from states to what one
    iteration observes. Every finished run returns one result per plan, in order; reservations are what is
    quarantined plus what the booked episodes need and never exceed a capacity. The loop has fuel;
    \<open>Suc (length plans)\<close> iterations are enough when every wait returns an active episode
    (\<open>run_terminates\<close>), since each such iteration settles one.
  \<^item> \<open>Coordinator_Stream\<close>, \<open>Coordinator_Stream_Safety\<close>, \<open>Coordinator_Stream_Properties\<close> (\<^verbatim>\<open>coordinator.py\<close>, the
    persistent stream): groups, waves, episodes and their settlement as steps; capacity, order, stop and
    progress. \<open>mixed_groups_deadlock\<close> exhibits a reachable state without an internal step when groups with
    and without wave hooks share an executor; \<open>refused_group_claims_executor\<close> one where a refused group
    leaves its claim on an executor.
  \<^item> \<open>Training\<close>, \<open>Generation_Training\<close> (\<^verbatim>\<open>training.py\<close>, \<^verbatim>\<open>generation_training.py\<close>): immutable training records,
    their durable form (round trips) and the evidence a completion needs.
  \<^item> \<open>Group_Assembler\<close>, \<open>Training_Provider\<close> (\<^verbatim>\<open>benchmark_training.py\<close>): a group is ready only with proved
    siblings; the provider's mailbox, policy lease and recovery snapshot.
  \<^item> \<open>Policy_Controller\<close>, \<open>Vllm_Controller\<close>, \<open>Model_Completion\<close> (\<^verbatim>\<open>backends/pytorch_controller.py\<close>,
    \<^verbatim>\<open>backends/vllm_controller.py\<close>, \<^verbatim>\<open>backends/vllm_profile.py\<close>, \<^verbatim>\<open>model_completion.py\<close>): the serving barrier, the
    failure latch and its receipts, the completion grammar. \<open>queued_receipt_claims_closure\<close> shows a
    receipt that claims closure of a request still queued.
  \<^item> \<open>Serving_Contracts\<close> (\<^verbatim>\<open>terminal_bench/serving_contracts.py\<close>): the proof document of a live controller.
  \<^item> \<open>Workloads\<close>, \<open>Cpu_Layout\<close>, \<open>Input_Cache\<close>, \<open>Host_Memory\<close> (the files of the same names): suite plan and
    schedule, isolation of cores, the two-tier cache with leases, the byte budget of evaluators.

  \<^bold>\<open>Kinds of lemmas.\<close> Each stateful theory has one invariant and one preservation lemma per operation,
  gathered by an interpretation of \<open>op_system\<close>; its properties are consequences for arbitrary runs. Each
  validator has a lemma that splits an accepted input into the facts it guarantees. Every property with
  a hypothesis is applied to a concrete run in a theorem of the same name with \<open>_witness\<close>.

  \<^bold>\<open>Not modelled.\<close> Tensor code (models, attention, optimiser, losses, checkpoints) and the kernels and
  collectives of torch, Triton and vLLM, whose meaning is floating-point arithmetic and third-party code;
  processes, pipes, sockets, HTTP relays and files, which appear as the answers they give; command
  lines, reports, examples and tests. Of modelled files the parts left out are named at the head of
  their theory: in \<^verbatim>\<open>rl/rollout.py\<close> the cached Qwen branch, in \<^verbatim>\<open>rl/gsm8k.py\<close> the floating-point interval,
  in \<^verbatim>\<open>rl/tokenizer.py\<close> the loading of tokenizer files, in the controllers the diagnostics files, in
  \<^verbatim>\<open>benchmark_training.py\<close> the thread that runs its event loop.
\<close>

end
